(* ===== verification/Prelude.thy ===== *)
theory Prelude
  imports Main "HOL-Library.Char_ord" "HOL-Library.List_Lexorder" "HOL-Library.Sublist"
begin

text \<open>
  What every other theory of the development shares: the result type of fallible Rust code and
  its bind (the \<open>?\<close> operator), Rust's string operations on byte strings, and the generic facts
  on lists and sorted association lists the component proofs rest on.

  A Rust \<open>String\<close>, \<open>&str\<close> or \<open>Vec<u8>\<close> is a HOL \<open>string\<close>: a list of \<open>char\<close>, and a HOL
  \<open>char\<close> is one byte. The order on \<open>string\<close> is the lexicographic one on bytes, which is Rust's
  \<open>Ord for str\<close>.
\<close>

named_theorems result_simps \<open>equations and splits for results\<close>

type_synonym byte = char
type_synonym bytes = "byte list"


section \<open>Results\<close>

text \<open>\<open>Result<T, E>\<close> is \<open>'e + 'a\<close>; \<open>bindE m f\<close> is \<open>f(m?)\<close>.\<close>

definition bindE :: "'e + 'a \<Rightarrow> ('a \<Rightarrow> 'e + 'b) \<Rightarrow> 'e + 'b" where
  "bindE m f = (case m of Inl e \<Rightarrow> Inl e | Inr x \<Rightarrow> f x)"

definition map_err :: "('e \<Rightarrow> 'f) \<Rightarrow> 'e + 'a \<Rightarrow> 'f + 'a" where
  "map_err g m = (case m of Inl e \<Rightarrow> Inl (g e) | Inr x \<Rightarrow> Inr x)"

definition ok_or :: "'e \<Rightarrow> 'a option \<Rightarrow> 'e + 'a" where
  "ok_or e x = (case x of None \<Rightarrow> Inl e | Some y \<Rightarrow> Inr y)"

definition getopt :: "'a list \<Rightarrow> nat \<Rightarrow> 'a option" where
  "getopt xs i = (if i < length xs then Some (xs ! i) else None)"

text \<open>\<open>iter().map(f).collect::<Result<Vec<_>, _>>()\<close>: the first error wins.\<close>

fun mapE :: "('a \<Rightarrow> 'e + 'b) \<Rightarrow> 'a list \<Rightarrow> 'e + 'b list" where
  "mapE f [] = Inr []"
| "mapE f (x # xs) = bindE (f x) (\<lambda>y. bindE (mapE f xs) (\<lambda>ys. Inr (y # ys)))"

text \<open>A \<open>for\<close> loop whose body may return early with an error.\<close>

fun foldE :: "('a \<Rightarrow> 's \<Rightarrow> 'e + 's) \<Rightarrow> 'a list \<Rightarrow> 's \<Rightarrow> 'e + 's" where
  "foldE f [] s = Inr s"
| "foldE f (x # xs) s = bindE (f x s) (foldE f xs)"

lemma bindE_simps [simp]:
  "bindE (Inl e) f = Inl e"
  "bindE (Inr x) f = f x"
  by (simp_all add: bindE_def)

lemma bindE_eq_Inr [result_simps]:
  "bindE m f = Inr y \<longleftrightarrow> (\<exists>x. m = Inr x \<and> f x = Inr y)"
  by (cases m) auto

lemma bindE_eq_Inl [result_simps]:
  "bindE m f = Inl e \<longleftrightarrow> m = Inl e \<or> (\<exists>x. m = Inr x \<and> f x = Inl e)"
  by (cases m) auto

lemma bindE_assoc: "bindE (bindE m f) g = bindE m (\<lambda>x. bindE (f x) g)"
  by (cases m) auto

lemma bindE_cong [fundef_cong]:
  "m = m' \<Longrightarrow> (\<And>x. m' = Inr x \<Longrightarrow> f x = f' x) \<Longrightarrow> bindE m f = bindE m' f'"
  by (cases m') auto

text \<open>Refinement of results: the same error, or related values.\<close>

lemma rel_sum_bindE:
  assumes "rel_sum (=) R a b" "\<And>x y. R x y \<Longrightarrow> rel_sum (=) S (f x) (g y)"
  shows "rel_sum (=) S (bindE a f) (bindE b g)"
  using assms by (cases a; cases b) auto

lemma rel_sum_bindE_same:
  assumes "\<And>x. a = Inr x \<Longrightarrow> rel_sum (=) S (f x) (g x)"
  shows "rel_sum (=) S (bindE a f) (bindE a g)"
  using assms by (cases a) auto

lemma map_err_simps [simp]:
  "map_err g (Inl e) = Inl (g e)"
  "map_err g (Inr x) = Inr x"
  by (simp_all add: map_err_def)

lemma map_err_eq_Inr [simp]: "map_err g m = Inr x \<longleftrightarrow> m = Inr x"
  by (cases m) auto

lemma ok_or_simps [simp]:
  "ok_or e None = Inl e"
  "ok_or e (Some x) = Inr x"
  by (simp_all add: ok_or_def)

lemma ok_or_eq_Inr [simp]: "ok_or e x = Inr y \<longleftrightarrow> x = Some y"
  by (cases x) auto

lemma getopt_Some_iff: "getopt xs i = Some x \<longleftrightarrow> i < length xs \<and> xs ! i = x"
  by (auto simp: getopt_def)

lemma getopt_append_length [simp]: "getopt (xs @ ys) (length xs) = getopt ys 0"
  by (simp add: getopt_def nth_append)

lemma getopt_simps [simp]:
  "getopt [] i = None"
  "getopt (x # xs) 0 = Some x"
  "getopt (x # xs) (Suc i) = getopt xs i"
  by (simp_all add: getopt_def)

lemma mapE_cong [fundef_cong]:
  "xs = ys \<Longrightarrow> (\<And>x. x \<in> set ys \<Longrightarrow> f x = g x) \<Longrightarrow> mapE f xs = mapE g ys"
  by (induction xs arbitrary: ys) auto

lemma foldE_invariant:
  "foldE f xs s = Inr s' \<Longrightarrow> I s \<Longrightarrow> (\<And>x s s'. x \<in> set xs \<Longrightarrow> I s \<Longrightarrow> f x s = Inr s' \<Longrightarrow> I s') \<Longrightarrow> I s'"
  by (induction xs arbitrary: s) (auto simp: result_simps)

lemma mapE_Inr_iff: "mapE f xs = Inr ys \<longleftrightarrow> list_all2 (\<lambda>x y. f x = Inr y) xs ys"
  by (induction xs arbitrary: ys) (auto simp: result_simps list_all2_Cons1)

lemma mapE_Inr_from: "mapE f xs = Inr ys \<Longrightarrow> y \<in> set ys \<Longrightarrow> \<exists>x \<in> set xs. f x = Inr y"
  by (induction xs arbitrary: ys) (auto simp: result_simps)

lemma mapE_Inr_to: "mapE f xs = Inr ys \<Longrightarrow> x \<in> set xs \<Longrightarrow> \<exists>y \<in> set ys. f x = Inr y"
  by (induction xs arbitrary: ys) (auto simp: result_simps)

lemma mapE_all_Inr: "(\<And>x. x \<in> set xs \<Longrightarrow> f x = Inr (g x)) \<Longrightarrow> mapE f xs = Inr (map g xs)"
  by (induction xs) auto


section \<open>Rust string operations\<close>

text \<open>\<open>u8::is_ascii_*\<close>, \<open>str::split\<close>, \<open>str::split_once\<close>, \<open>str::strip_prefix\<close>,
  \<open>str::starts_with\<close>, \<open>str::ends_with\<close> and \<open>str::to_ascii_lowercase\<close>.\<close>

definition is_ascii_digit :: "byte \<Rightarrow> bool" where
  "is_ascii_digit c \<longleftrightarrow> CHR ''0'' \<le> c \<and> c \<le> CHR ''9''"

definition is_ascii_lowercase :: "byte \<Rightarrow> bool" where
  "is_ascii_lowercase c \<longleftrightarrow> CHR ''a'' \<le> c \<and> c \<le> CHR ''z''"

definition is_ascii_uppercase :: "byte \<Rightarrow> bool" where
  "is_ascii_uppercase c \<longleftrightarrow> CHR ''A'' \<le> c \<and> c \<le> CHR ''Z''"

definition is_ascii_alphabetic :: "byte \<Rightarrow> bool" where
  "is_ascii_alphabetic c \<longleftrightarrow> is_ascii_lowercase c \<or> is_ascii_uppercase c"

definition is_ascii_alphanumeric :: "byte \<Rightarrow> bool" where
  "is_ascii_alphanumeric c \<longleftrightarrow> is_ascii_alphabetic c \<or> is_ascii_digit c"

definition to_ascii_lowercase_byte :: "byte \<Rightarrow> byte" where
  "to_ascii_lowercase_byte c = (if is_ascii_uppercase c then char_of (of_char c + 32 :: nat) else c)"

definition to_ascii_lowercase :: "string \<Rightarrow> string" where
  "to_ascii_lowercase s = map to_ascii_lowercase_byte s"

fun split_on :: "byte \<Rightarrow> string \<Rightarrow> string list" where
  "split_on d [] = [[]]"
| "split_on d (c # s) =
     (if c = d then [] # split_on d s
      else (case split_on d s of [] \<Rightarrow> [[c]] | p # ps \<Rightarrow> (c # p) # ps))"

fun split_once :: "byte \<Rightarrow> string \<Rightarrow> (string \<times> string) option" where
  "split_once d [] = None"
| "split_once d (c # s) =
     (if c = d then Some ([], s)
      else map_option (\<lambda>(a, b). (c # a, b)) (split_once d s))"

fun strip_prefix :: "string \<Rightarrow> string \<Rightarrow> string option" where
  "strip_prefix [] s = Some s"
| "strip_prefix (p # ps) [] = None"
| "strip_prefix (p # ps) (c # s) = (if p = c then strip_prefix ps s else None)"

definition starts_with :: "string \<Rightarrow> string \<Rightarrow> bool" where
  "starts_with s p \<longleftrightarrow> strip_prefix p s \<noteq> None"

definition starts_with_by :: "string \<Rightarrow> (byte \<Rightarrow> bool) \<Rightarrow> bool" where
  "starts_with_by s f = (case s of [] \<Rightarrow> False | c # _ \<Rightarrow> f c)"

definition ends_with_byte :: "string \<Rightarrow> byte \<Rightarrow> bool" where
  "ends_with_byte s c \<longleftrightarrow> s \<noteq> [] \<and> last s = c"

text \<open>The inverse of \<open>split_on\<close>: parts joined by a separator.\<close>

fun join_with :: "byte \<Rightarrow> string list \<Rightarrow> string" where
  "join_with d [] = []"
| "join_with d [p] = p"
| "join_with d (p # q # ps) = p @ d # join_with d (q # ps)"

lemmas ascii_defs =
  is_ascii_alphanumeric_def is_ascii_alphabetic_def is_ascii_lowercase_def
  is_ascii_uppercase_def is_ascii_digit_def

lemma split_on_nonempty [simp]: "split_on d s \<noteq> []"
  by (induction s) (auto split: list.splits)

lemma join_split_on [simp]: "join_with d (split_on d s) = s"
proof (induction s)
  case (Cons c s)
  obtain p ps where "split_on d s = p # ps" by (cases "split_on d s") auto
  with Cons show ?case by (cases ps) auto
qed simp

lemma split_on_no_sep: "p \<in> set (split_on d s) \<Longrightarrow> d \<notin> set p"
  by (induction s arbitrary: p) (auto split: if_splits list.splits)

lemma split_on_nosep [simp]: "d \<notin> set s \<Longrightarrow> split_on d s = [s]"
  by (induction s) auto

lemma split_on_append_sep:
  "d \<notin> set p \<Longrightarrow> split_on d (p @ d # s) = p # split_on d s"
  by (induction p) auto

lemma set_split_on: "p \<in> set (split_on d s) \<Longrightarrow> set p \<subseteq> set s"
proof (induction s arbitrary: p)
  case (Cons c s)
  obtain q qs where "split_on d s = q # qs" by (cases "split_on d s") auto
  with Cons.IH [of q] Cons.IH [of p] Cons.prems show ?case by (cases "c = d") auto
qed simp

lemma split_once_Some:
  "split_once d s = Some (a, b) \<longleftrightarrow> s = a @ d # b \<and> d \<notin> set a"
proof (induction s arbitrary: a)
  case (Cons c s)
  show ?case
  proof (cases "c = d")
    case False
    then have "split_once d (c # s) = Some (a, b) \<longleftrightarrow>
        (\<exists>a'. a = c # a' \<and> split_once d s = Some (a', b))"
      by auto
    also have "\<dots> \<longleftrightarrow> c # s = a @ d # b \<and> d \<notin> set a"
      using False by (cases a) (auto simp: Cons.IH)
    finally show ?thesis .
  qed (cases a; auto)
qed simp

lemma split_once_None: "split_once d s = None \<longleftrightarrow> d \<notin> set s"
  by (induction s) auto

lemma strip_prefix_Some: "strip_prefix p s = Some r \<longleftrightarrow> s = p @ r"
  by (induction p s rule: strip_prefix.induct) auto

lemma strip_prefix_append [simp]: "strip_prefix p (p @ r) = Some r"
  by (simp add: strip_prefix_Some)

lemma ends_with_byte_snoc [simp]: "ends_with_byte (s @ [c]) d \<longleftrightarrow> c = d"
  by (simp add: ends_with_byte_def)

lemma length_to_ascii_lowercase [simp]: "length (to_ascii_lowercase s) = length s"
  by (simp add: to_ascii_lowercase_def)

lemma to_ascii_lowercase_byte_not_upper [simp]: "\<not> is_ascii_uppercase (to_ascii_lowercase_byte c)"
  by (auto simp: to_ascii_lowercase_byte_def is_ascii_uppercase_def less_eq_char_def)

lemma to_ascii_lowercase_idem [simp]:
  "to_ascii_lowercase (to_ascii_lowercase s) = to_ascii_lowercase s"
  using to_ascii_lowercase_byte_not_upper
  by (simp add: to_ascii_lowercase_def to_ascii_lowercase_byte_def)


text \<open>\<open>str::from_utf8\<close> succeeds: the well-formed byte sequences of the Unicode standard.\<close>

definition utf8_tail :: "byte \<Rightarrow> bool" where
  "utf8_tail b \<longleftrightarrow> 128 \<le> (of_char b :: nat) \<and> (of_char b :: nat) \<le> 191"

fun is_utf8 :: "bytes \<Rightarrow> bool" where
  "is_utf8 [] = True"
| "is_utf8 (a # s) =
     (if (of_char a :: nat) < 128 then is_utf8 s
      else if 194 \<le> (of_char a :: nat) \<and> (of_char a :: nat) \<le> 223 then
        (case s of b # s' \<Rightarrow> utf8_tail b \<and> is_utf8 s' | _ \<Rightarrow> False)
      else if 224 \<le> (of_char a :: nat) \<and> (of_char a :: nat) \<le> 239 then
        (case s of b # c # s' \<Rightarrow>
           utf8_tail b \<and> utf8_tail c
           \<and> ((of_char a :: nat) = 224 \<longrightarrow> 160 \<le> (of_char b :: nat))
           \<and> ((of_char a :: nat) = 237 \<longrightarrow> (of_char b :: nat) \<le> 159)
           \<and> is_utf8 s'
         | _ \<Rightarrow> False)
      else if 240 \<le> (of_char a :: nat) \<and> (of_char a :: nat) \<le> 244 then
        (case s of b # c # d # s' \<Rightarrow>
           utf8_tail b \<and> utf8_tail c \<and> utf8_tail d
           \<and> ((of_char a :: nat) = 240 \<longrightarrow> 144 \<le> (of_char b :: nat))
           \<and> ((of_char a :: nat) = 244 \<longrightarrow> (of_char b :: nat) \<le> 143)
           \<and> is_utf8 s'
         | _ \<Rightarrow> False)
      else False)"

declare is_utf8.simps(2) [simp del]

lemma is_utf8_ascii: "(\<And>c. c \<in> set s \<Longrightarrow> (of_char c :: nat) < 128) \<Longrightarrow> is_utf8 s"
  by (induction s) (simp_all add: is_utf8.simps(2))


text \<open>How a number is written, \<open>to_string\<close>.\<close>

fun decimal :: "nat \<Rightarrow> string" where
  "decimal n = (if n < 10 then [char_of (48 + n)] else decimal (n div 10) @ [char_of (48 + n mod 10)])"

declare decimal.simps [simp del]


section \<open>Ordered maps\<close>

text \<open>
  A Rust \<open>BTreeMap\<close> is an association list in key order: \<open>al_upd\<close> is \<open>insert\<close>, \<open>al_del\<close> is
  \<open>remove\<close>, \<open>map_of\<close> is \<open>get\<close>, and the list itself is what iterating gives.
\<close>

fun al_upd :: "'k::linorder \<Rightarrow> 'v \<Rightarrow> ('k \<times> 'v) list \<Rightarrow> ('k \<times> 'v) list" where
  "al_upd k v [] = [(k, v)]"
| "al_upd k v ((a, b) # ps) =
     (if k < a then (k, v) # (a, b) # ps
      else if k = a then (k, v) # ps
      else (a, b) # al_upd k v ps)"

fun al_del :: "'k \<Rightarrow> ('k \<times> 'v) list \<Rightarrow> ('k \<times> 'v) list" where
  "al_del k [] = []"
| "al_del k ((a, b) # ps) = (if k = a then ps else (a, b) # al_del k ps)"

abbreviation ascending :: "('k::linorder \<times> 'v) list \<Rightarrow> bool" where
  "ascending ps \<equiv> sorted_wrt (<) (map fst ps)"

lemma map_of_al_upd [simp]: "map_of (al_upd k v ps) = (map_of ps)(k \<mapsto> v)"
  by (induction ps) auto

lemma keys_al_upd: "fst ` set (al_upd k v ps) = insert k (fst ` set ps)"
  by (simp flip: dom_map_of_conv_image_fst)

lemma ball_al_upd: "(\<forall>x \<in> set (al_upd k v ps). P (fst x)) \<longleftrightarrow> P k \<and> (\<forall>x \<in> set ps. P (fst x))"
proof -
  have "(\<forall>x \<in> set (al_upd k v ps). P (fst x)) \<longleftrightarrow> (\<forall>y \<in> fst ` set (al_upd k v ps). P y)"
    by blast
  also have "\<dots> \<longleftrightarrow> P k \<and> (\<forall>x \<in> set ps. P (fst x))"
    unfolding keys_al_upd by blast
  finally show ?thesis .
qed

lemma ascending_al_upd: "ascending ps \<Longrightarrow> ascending (al_upd k v ps)"
  by (induction k v ps rule: al_upd.induct) (auto simp: ball_al_upd dest: less_trans)

lemma set_al_del: "set (al_del k ps) \<subseteq> set ps"
  by (induction k ps rule: al_del.induct) auto

lemma ascending_filter: "ascending ps \<Longrightarrow> ascending (filter P ps)"
  by (induction ps) auto

lemma ascending_al_del: "ascending ps \<Longrightarrow> ascending (al_del k ps)"
proof (induction k ps rule: al_del.induct)
  case (2 k a b ps)
  then show ?case using set_al_del [of k ps] by (cases "k = a") auto
qed simp

lemma ascending_not_key: "ascending ((a, b) # ps) \<Longrightarrow> a \<notin> fst ` set ps"
  by auto

lemma map_of_al_del: "ascending ps \<Longrightarrow> map_of (al_del k ps) = (map_of ps)(k := None)"
proof (induction ps)
  case (Cons p ps)
  obtain a b where p: "p = (a, b)" by fastforce
  show ?case
  proof (cases "k = a")
    case True
    moreover have "map_of ps a = None"
      using ascending_not_key [of a b ps] Cons.prems p by (simp add: map_of_eq_None_iff)
    ultimately show ?thesis using p by auto
  qed (use Cons p in auto)
qed simp

text \<open>Equal maps are equal lists.\<close>

lemma ascending_map_of_inj:
  "ascending ps \<Longrightarrow> ascending qs \<Longrightarrow> map_of ps = map_of qs \<Longrightarrow> ps = qs"
proof (induction ps arbitrary: qs)
  case Nil
  then show ?case by (metis map_of_eq_empty_iff)
next
  case (Cons p ps)
  obtain a b where p: "p = (a, b)" by fastforce
  obtain c d qs' where qs: "qs = (c, d) # qs'"
    using Cons.prems(3) by (metis list.distinct(1) list.exhaust map_of_eq_empty_iff surj_pair)
  have "a = c"
  proof (rule ccontr)
    assume ne: "a \<noteq> c"
    have "map_of ps c = Some d" "map_of qs' a = Some b"
      using fun_cong [OF Cons.prems(3), of c] fun_cong [OF Cons.prems(3), of a] ne
      by (simp_all add: p qs)
    then have "(c, d) \<in> set ps" "(a, b) \<in> set qs'" by (simp_all add: map_of_SomeD)
    then have "a < c" "c < a" using Cons.prems(1,2) p qs by auto
    then show False by simp
  qed
  moreover have "b = d" using fun_cong [OF Cons.prems(3), of a] calculation by (simp add: p qs)
  moreover have "map_of ps = map_of qs'"
  proof
    fix x
    have "map_of ps a = None" "map_of qs' a = None"
      using ascending_not_key [of a b ps] ascending_not_key [of a d qs'] Cons.prems(1,2) p qs
        \<open>a = c\<close> by (simp_all add: map_of_eq_None_iff)
    then show "map_of ps x = map_of qs' x"
      using fun_cong [OF Cons.prems(3), of x] \<open>a = c\<close> by (cases "x = a") (auto simp: p qs)
  qed
  ultimately show ?case using Cons p qs by auto
qed

end
