(* ===== verification/Syntax.thy ===== *)
theory Syntax
  imports Prelude
begin

text \<open>
  The identifiers of \<open>src/syntax.rs\<close> and \<open>src/syntax/\<close>: DIDs, handles, NSIDs, record keys, the
  union of the two repository names, and AT-URIs. TIDs are in the theory \<open>Tid\<close>.

  Each identifier is a newtype over \<open>String\<close> built only by its \<open>validate\<close>. The contract the
  \<open>string_newtype!\<close> macro relies on (what a validated string looks like) is the locale
  \<open>string_newtype\<close>, interpreted once per identifier.
\<close>

section \<open>Errors and newtypes\<close>

datatype syntax_error =
    EAtUri string
  | EDid string
  | EHandle string
  | ENsid string
  | ERecordKey string
  | ETid string

datatype did = Did (did_str: string)
datatype handle = Handle (handle_str: string)
datatype nsid = Nsid (nsid_str: string)
datatype record_key = RecordKey (record_key_str: string)

text \<open>The macro's \<open>FromStr\<close>: validate, then wrap the input as it was written.\<close>

definition newtype_from_str ::
    "(string \<Rightarrow> syntax_error + unit) \<Rightarrow> (string \<Rightarrow> 'a) \<Rightarrow> string \<Rightarrow> syntax_error + 'a" where
  "newtype_from_str validate wrap input = bindE (validate input) (\<lambda>_. Inr (wrap input))"


section \<open>DIDs\<close>

definition did_is_allowed :: "byte \<Rightarrow> bool" where
  "did_is_allowed b \<longleftrightarrow> is_ascii_alphanumeric b \<or> b \<in> set ''._:%-''"

definition did_validate :: "string \<Rightarrow> syntax_error + unit" where
  "did_validate input =
     (if length input > 2048 then Inl (EDid ''longer than 2048 characters'')
      else case strip_prefix ''did:'' input of
        None \<Rightarrow> Inl (EDid ''does not start with \"did:\"'')
      | Some rest \<Rightarrow>
          (case split_once CHR '':'' rest of
             None \<Rightarrow> Inl (EDid ''no method-specific identifier'')
           | Some (meth, i) \<Rightarrow>
               if meth = [] \<or> \<not> list_all is_ascii_lowercase meth
                 then Inl (EDid ''method is not lowercase letters'')
               else if i = [] then Inl (EDid ''empty method-specific identifier'')
               else if \<not> list_all did_is_allowed i then Inl (EDid ''disallowed character'')
               else if ends_with_byte i CHR '':'' \<or> ends_with_byte i CHR ''%''
                 then Inl (EDid ''ends with \":\" or \"%\"'')
               else Inr ()))"

definition did_from_str :: "string \<Rightarrow> syntax_error + did" where
  "did_from_str = newtype_from_str did_validate Did"


section \<open>Handles\<close>

definition handle_validate_label :: "string \<Rightarrow> syntax_error + unit" where
  "handle_validate_label label =
     (if label = [] then Inl (EHandle ''empty part'')
      else if length label > 63 then Inl (EHandle ''part longer than 63 characters'')
      else if \<not> list_all (\<lambda>b. is_ascii_alphanumeric b \<or> b = CHR ''-'') label
        then Inl (EHandle ''disallowed character'')
      else if starts_with label ''-'' \<or> ends_with_byte label CHR ''-''
        then Inl (EHandle ''part starts or ends with a hyphen'')
      else Inr ())"

definition handle_validate :: "string \<Rightarrow> syntax_error + unit" where
  "handle_validate input =
     (if length input > 253 then Inl (EHandle ''longer than 253 characters'')
      else (let labels = split_on CHR ''.'' input in
        bindE (mapE handle_validate_label labels) (\<lambda>_.
          if length labels < 2 then Inl (EHandle ''not a domain name'')
          else if \<not> starts_with_by (last labels) is_ascii_alphabetic
            then Inl (EHandle ''last part does not start with a letter'')
          else Inr ())))"

definition handle_from_str :: "string \<Rightarrow> syntax_error + handle" where
  "handle_from_str = newtype_from_str handle_validate Handle"

definition handle_normalize :: "string \<Rightarrow> syntax_error + handle" where
  "handle_normalize input = handle_from_str (to_ascii_lowercase input)"


section \<open>NSIDs\<close>

definition nsid_validate_segment :: "string \<Rightarrow> syntax_error + unit" where
  "nsid_validate_segment segment =
     (if segment = [] then Inl (ENsid ''empty part'')
      else if length segment > 63 then Inl (ENsid ''part longer than 63 characters'')
      else if \<not> list_all (\<lambda>b. is_ascii_alphanumeric b \<or> b = CHR ''-'') segment
        then Inl (ENsid ''disallowed character'')
      else if starts_with segment ''-'' \<or> ends_with_byte segment CHR ''-''
        then Inl (ENsid ''part starts or ends with a hyphen'')
      else Inr ())"

definition nsid_validate :: "string \<Rightarrow> syntax_error + unit" where
  "nsid_validate input =
     (if length input > 253 + 1 + 63 then Inl (ENsid ''longer than 317 characters'')
      else (let segments = split_on CHR ''.'' input in
        bindE (mapE nsid_validate_segment segments) (\<lambda>_.
          if length segments < 3 then Inl (ENsid ''fewer than three parts'')
          else if starts_with_by (hd segments) is_ascii_digit
            then Inl (ENsid ''authority starts with a digit'')
          else if starts_with_by (last segments) is_ascii_digit \<or> CHR ''-'' \<in> set (last segments)
            then Inl (ENsid ''name is not a letter followed by letters and digits'')
          else Inr ())))"

definition nsid_from_str :: "string \<Rightarrow> syntax_error + nsid" where
  "nsid_from_str = newtype_from_str nsid_validate Nsid"


section \<open>Record keys\<close>

definition record_key_is_allowed :: "byte \<Rightarrow> bool" where
  "record_key_is_allowed b \<longleftrightarrow> is_ascii_alphanumeric b \<or> b \<in> set ''._~:-''"

definition record_key_validate :: "string \<Rightarrow> syntax_error + unit" where
  "record_key_validate input =
     (if input = [] then Inl (ERecordKey ''empty'')
      else if length input > 512 then Inl (ERecordKey ''longer than 512 characters'')
      else if input = ''.'' \<or> input = ''..''
        then Inl (ERecordKey ''\".\" and \"..\" are reserved'')
      else if \<not> list_all record_key_is_allowed input
        then Inl (ERecordKey ''disallowed character'')
      else Inr ())"

definition record_key_from_str :: "string \<Rightarrow> syntax_error + record_key" where
  "record_key_from_str = newtype_from_str record_key_validate RecordKey"


section \<open>Repository names\<close>

datatype at_identifier = AtDid did | AtHandle handle

fun at_identifier_as_str :: "at_identifier \<Rightarrow> string" where
  "at_identifier_as_str (AtDid d) = did_str d"
| "at_identifier_as_str (AtHandle h) = handle_str h"

definition at_identifier_from_str :: "string \<Rightarrow> syntax_error + at_identifier" where
  "at_identifier_from_str input =
     (if starts_with input ''did:''
      then bindE (did_from_str input) (\<lambda>d. Inr (AtDid d))
      else bindE (handle_from_str input) (\<lambda>h. Inr (AtHandle h)))"


section \<open>AT-URIs\<close>

record at_uri =
  authority :: at_identifier
  collection :: "nsid option"
  rkey :: "record_key option"
  fragment :: "string option"

definition is_pointer_byte :: "byte \<Rightarrow> bool" where
  "is_pointer_byte b \<longleftrightarrow>
     is_ascii_alphanumeric b \<or> b = char_of (39::nat) \<or> b \<in> set ''._~:@!$&()*+,;=%/[]-''"

definition at_uri_is_allowed :: "byte \<Rightarrow> bool" where
  "at_uri_is_allowed b \<longleftrightarrow>
     is_pointer_byte b \<or> b = CHR ''#'' \<or> b = CHR ''?'' \<or> b = char_of (92::nat)"

definition hex :: "byte \<Rightarrow> nat option" where
  "hex b =
     (if CHR ''0'' \<le> b \<and> b \<le> CHR ''9'' then Some (of_char b - of_char (CHR ''0''))
      else if CHR ''a'' \<le> b \<and> b \<le> CHR ''f'' then Some (of_char b - of_char (CHR ''a'') + 10)
      else if CHR ''A'' \<le> b \<and> b \<le> CHR ''F'' then Some (of_char b - of_char (CHR ''A'') + 10)
      else None)"

text \<open>The loop of \<open>validate_percent_encoding\<close>: the bytes an escaped string spells.\<close>

fun percent_decode :: "string \<Rightarrow> syntax_error + bytes" where
  "percent_decode [] = Inr []"
| "percent_decode (b # bs) =
     (if b \<noteq> CHR ''%'' then bindE (percent_decode bs) (\<lambda>ds. Inr (b # ds))
      else (case bs of
          high # low # rest \<Rightarrow>
            (case (hex high, hex low) of
               (Some h, Some l) \<Rightarrow>
                 bindE (percent_decode rest) (\<lambda>ds. Inr (char_of (h * 16 + l) # ds))
             | _ \<Rightarrow> Inl (EAtUri ''escape is not two hex digits''))
        | _ \<Rightarrow> Inl (EAtUri ''truncated escape in the fragment'')))"

definition validate_percent_encoding :: "string \<Rightarrow> syntax_error + unit" where
  "validate_percent_encoding frag =
     bindE (percent_decode frag) (\<lambda>decoded.
       if \<not> is_utf8 decoded then Inl (EAtUri ''escapes in the fragment do not spell text'')
       else Inr ())"

definition validate_fragment :: "string \<Rightarrow> syntax_error + string" where
  "validate_fragment frag =
     (if \<not> starts_with frag ''/'' then Inl (EAtUri ''fragment is not a JSON pointer'')
      else if \<not> list_all is_pointer_byte frag
        then Inl (EAtUri ''disallowed character in the fragment'')
      else bindE (validate_percent_encoding frag) (\<lambda>_. Inr frag))"

text \<open>\<open>Option::map(parse).transpose()\<close> with its error replaced.\<close>

definition parse_opt ::
    "(string \<Rightarrow> syntax_error + 'a) \<Rightarrow> string \<Rightarrow> string option \<Rightarrow> syntax_error + 'a option" where
  "parse_opt parse msg s =
     (case s of None \<Rightarrow> Inr None
      | Some x \<Rightarrow> bindE (map_err (\<lambda>_. EAtUri msg) (parse x)) (\<lambda>y. Inr (Some y)))"

definition at_uri_display :: "at_uri \<Rightarrow> string" where
  "at_uri_display u =
     ''at://'' @ at_identifier_as_str (authority u)
     @ (case collection u of None \<Rightarrow> [] | Some c \<Rightarrow> CHR ''/'' # nsid_str c)
     @ (case rkey u of None \<Rightarrow> [] | Some r \<Rightarrow> CHR ''/'' # record_key_str r)
     @ (case fragment u of None \<Rightarrow> [] | Some f \<Rightarrow> CHR ''#'' # f)"

text \<open>The part of \<open>from_str\<close> after the fragment is split off and the path is in segments.\<close>

definition at_uri_of_segments :: "string list \<Rightarrow> string option \<Rightarrow> syntax_error + at_uri" where
  "at_uri_of_segments segments frag =
     (if length segments > 3 then Inl (EAtUri ''more than two path segments'')
      else
        bindE (map_err (\<lambda>_. EAtUri ''authority is not a DID or a handle'')
                 (at_identifier_from_str (hd segments))) (\<lambda>a.
        bindE (parse_opt nsid_from_str ''collection is not an NSID'' (getopt segments 1)) (\<lambda>c.
        bindE (parse_opt record_key_from_str ''not a record key'' (getopt segments 2)) (\<lambda>r.
        bindE (case frag of None \<Rightarrow> Inr None
               | Some f \<Rightarrow> bindE (validate_fragment f) (\<lambda>g. Inr (Some g))) (\<lambda>f.
        Inr \<lparr>authority = a, collection = c, rkey = r, fragment = f\<rparr>)))))"

definition at_uri_from_str :: "string \<Rightarrow> syntax_error + at_uri" where
  "at_uri_from_str input =
     (if length input > 8192 then Inl (EAtUri ''longer than 8192 characters'')
      else if \<not> list_all at_uri_is_allowed input then Inl (EAtUri ''disallowed character'')
      else case strip_prefix ''at://'' input of
        None \<Rightarrow> Inl (EAtUri ''does not start with \"at://\"'')
      | Some rest0 \<Rightarrow>
          (let (rest, frag) = (case split_once CHR ''#'' rest0 of
                 Some (r, f) \<Rightarrow> (r, Some f) | None \<Rightarrow> (rest0, None)) in
           if CHR ''?'' \<in> set rest then Inl (EAtUri ''query strings do not address anything'')
           else if ends_with_byte rest CHR ''/'' then Inl (EAtUri ''trailing slash'')
           else at_uri_of_segments (split_on CHR ''/'' rest) frag))"


section \<open>The contract of a validated newtype\<close>

locale string_newtype =
  fixes validate :: "string \<Rightarrow> syntax_error + unit"
    and wrap :: "string \<Rightarrow> 'a"
    and as_str :: "'a \<Rightarrow> string"
    and max_len :: nat
    and allowed :: "byte \<Rightarrow> bool"
  assumes as_str_wrap: "as_str (wrap s) = s"
    and wrap_as_str: "wrap (as_str x) = x"
    and validate_nonempty: "validate s = Inr () \<Longrightarrow> s \<noteq> []"
    and validate_len: "validate s = Inr () \<Longrightarrow> length s \<le> max_len"
    and validate_bytes: "validate s = Inr () \<Longrightarrow> c \<in> set s \<Longrightarrow> allowed c"
begin

abbreviation parse :: "string \<Rightarrow> syntax_error + 'a" where
  "parse \<equiv> newtype_from_str validate wrap"

lemma parse_Inr_iff: "parse s = Inr x \<longleftrightarrow> validate s = Inr () \<and> x = wrap s"
  by (auto simp: newtype_from_str_def result_simps)

lemma print_parsed: "parse s = Inr x \<Longrightarrow> as_str x = s"
  by (auto simp: parse_Inr_iff as_str_wrap)

lemma parse_printed: "validate (as_str x) = Inr () \<Longrightarrow> parse (as_str x) = Inr x"
  by (simp add: parse_Inr_iff wrap_as_str)

lemma valid_disallowed: "validate s = Inr () \<Longrightarrow> \<not> allowed c \<Longrightarrow> c \<notin> set s"
  by (auto dest: validate_bytes)

end

text \<open>What the parts of a dotted name have in common.\<close>

definition label_byte :: "byte \<Rightarrow> bool" where
  "label_byte b \<longleftrightarrow> is_ascii_alphanumeric b \<or> b = CHR ''-''"

definition domain_byte :: "byte \<Rightarrow> bool" where
  "domain_byte b \<longleftrightarrow> is_ascii_alphanumeric b \<or> b = CHR ''-'' \<or> b = CHR ''.''"

lemma set_join_with: "c \<in> set (join_with d ps) \<Longrightarrow> c = d \<or> (\<exists>p \<in> set ps. c \<in> set p)"
  by (induction d ps rule: join_with.induct) auto

lemma domain_bytes_split:
  assumes "\<And>p. p \<in> set (split_on CHR ''.'' s) \<Longrightarrow> list_all label_byte p" and "c \<in> set s"
  shows "domain_byte c"
proof -
  have "c \<in> set (join_with CHR ''.'' (split_on CHR ''.'' s))"
    using assms(2) by simp
  then have "c = CHR ''.'' \<or> (\<exists>p \<in> set (split_on CHR ''.'' s). c \<in> set p)"
    by (rule set_join_with)
  with assms(1) show ?thesis
    by (auto simp: domain_byte_def label_byte_def list_all_iff)
qed

lemma mapE_unit_Inr: "mapE f xs = Inr ys \<Longrightarrow> x \<in> set xs \<Longrightarrow> \<exists>y. f x = Inr y"
  by (induction xs arbitrary: ys) (auto simp: result_simps)

lemma handle_label_bytes: "handle_validate_label l = Inr u \<Longrightarrow> list_all label_byte l"
  by (auto simp: handle_validate_label_def label_byte_def list_all_iff split: if_splits)

lemma nsid_segment_bytes: "nsid_validate_segment l = Inr u \<Longrightarrow> list_all label_byte l"
  by (auto simp: nsid_validate_segment_def label_byte_def list_all_iff split: if_splits)

lemma handle_validate_bytes: "handle_validate s = Inr () \<Longrightarrow> c \<in> set s \<Longrightarrow> domain_byte c"
  by (rule domain_bytes_split)
     (auto simp: handle_validate_def Let_def result_simps split: if_splits
        dest!: mapE_unit_Inr handle_label_bytes)

lemma nsid_validate_bytes: "nsid_validate s = Inr () \<Longrightarrow> c \<in> set s \<Longrightarrow> domain_byte c"
  by (rule domain_bytes_split)
     (auto simp: nsid_validate_def Let_def result_simps split: if_splits
        dest!: mapE_unit_Inr nsid_segment_bytes)

lemma lowercase_did_allowed: "is_ascii_lowercase b \<Longrightarrow> did_is_allowed b"
  by (simp add: did_is_allowed_def is_ascii_alphanumeric_def is_ascii_alphabetic_def)

lemma did_validate_Inr:
  assumes "did_validate s = Inr u"
  obtains meth i where "s = ''did:'' @ meth @ CHR '':'' # i" "length s \<le> 2048"
    "list_all is_ascii_lowercase meth" "list_all did_is_allowed i"
proof -
  from assms have len: "length s \<le> 2048"
    by (simp add: did_validate_def split: if_splits)
  from assms len obtain rest where rest: "strip_prefix ''did:'' s = Some rest"
    by (cases "strip_prefix ''did:'' s") (simp_all add: did_validate_def)
  from assms len rest obtain meth i where mi: "split_once CHR '':'' rest = Some (meth, i)"
    by (cases "split_once CHR '':'' rest") (auto simp: did_validate_def)
  from assms len rest mi have "list_all is_ascii_lowercase meth" "list_all did_is_allowed i"
    by (simp_all add: did_validate_def split: if_splits)
  have "s = ''did:'' @ rest"
    by (rule strip_prefix_Some [THEN iffD1, OF rest])
  moreover have "rest = meth @ CHR '':'' # i"
    by (rule split_once_Some [THEN iffD1, OF mi, THEN conjunct1])
  ultimately have "s = ''did:'' @ meth @ CHR '':'' # i" by (simp only: append_assoc)
  then show thesis
    by (rule that) fact+
qed

lemma did_prefix_allowed:
  "did_is_allowed CHR ''d''" "did_is_allowed CHR ''i''" "did_is_allowed CHR '':''"
  by (simp_all add: did_is_allowed_def ascii_defs)

interpretation did_nt: string_newtype did_validate Did did_str 2048 did_is_allowed
proof unfold_locales
  fix s c assume "did_validate s = Inr ()"
  then obtain meth i where s: "s = ''did:'' @ meth @ CHR '':'' # i" "length s \<le> 2048"
    "list_all is_ascii_lowercase meth" "list_all did_is_allowed i"
    by (rule did_validate_Inr)
  show "s \<noteq> []" "length s \<le> 2048" using s by auto
  have "list_all did_is_allowed meth"
    using s(3) by (rule list.pred_mono_strong) (rule lowercase_did_allowed)
  with s(4) have "list_all did_is_allowed s"
    by (simp add: s(1) did_prefix_allowed)
  then show "c \<in> set s \<Longrightarrow> did_is_allowed c"
    by (simp add: list_all_iff)
qed simp_all

interpretation handle_nt: string_newtype handle_validate Handle handle_str 253 domain_byte
proof unfold_locales
  fix s assume v: "handle_validate s = Inr ()"
  then show "length s \<le> 253" by (auto simp: handle_validate_def split: if_splits)
  show "s \<noteq> []" using v by (auto simp: handle_validate_def handle_validate_label_def)
qed (auto intro: handle_validate_bytes)

interpretation nsid_nt: string_newtype nsid_validate Nsid nsid_str 317 domain_byte
proof unfold_locales
  fix s assume v: "nsid_validate s = Inr ()"
  then show "length s \<le> 317" by (auto simp: nsid_validate_def split: if_splits)
  show "s \<noteq> []" using v by (auto simp: nsid_validate_def nsid_validate_segment_def)
qed (auto intro: nsid_validate_bytes)

interpretation record_key_nt:
  string_newtype record_key_validate RecordKey record_key_str 512 record_key_is_allowed
  by unfold_locales (auto simp: record_key_validate_def list_all_iff split: if_splits)

lemmas from_str_iffs =
  did_nt.parse_Inr_iff [folded did_from_str_def]
  handle_nt.parse_Inr_iff [folded handle_from_str_def]
  nsid_nt.parse_Inr_iff [folded nsid_from_str_def]
  record_key_nt.parse_Inr_iff [folded record_key_from_str_def]

lemma at_identifier_printed: "at_identifier_from_str s = Inr a \<Longrightarrow> at_identifier_as_str a = s"
  by (auto simp: at_identifier_from_str_def result_simps from_str_iffs split: if_splits)

lemma parse_opt_Inr: "parse_opt f m s = Inr y \<longleftrightarrow>
    (s = None \<and> y = None) \<or> (\<exists>x z. s = Some x \<and> f x = Inr z \<and> y = Some z)"
  by (auto simp: parse_opt_def result_simps split: option.splits)

lemma validate_fragment_Inr: "validate_fragment f = Inr g \<Longrightarrow> g = f"
  by (auto simp: validate_fragment_def result_simps split: if_splits)

lemma length_le_3_cases:
  assumes "xs \<noteq> []" "length xs \<le> 3"
  obtains a where "xs = [a]" | a b where "xs = [a, b]" | a b c where "xs = [a, b, c]"
proof -
  obtain a ys where 1: "xs = a # ys" using assms by (cases xs) auto
  consider "ys = []" | b where "ys = [b]" | b c where "ys = [b, c]"
  proof (cases ys)
    case (Cons b zs)
    with 1 assms that show ?thesis by (cases zs) auto
  qed (use that in simp)
  with 1 that show ?thesis by cases auto
qed


section \<open>AT-URIs: what parses is exactly what prints\<close>

text \<open>The parts of a URI that holding one proves valid, and the two shapes no URI has.\<close>

definition at_identifier_ok :: "at_identifier \<Rightarrow> bool" where
  "at_identifier_ok a = (case a of
      AtDid d \<Rightarrow> did_validate (did_str d) = Inr ()
    | AtHandle h \<Rightarrow> handle_validate (handle_str h) = Inr ())"

definition at_uri_ok :: "at_uri \<Rightarrow> bool" where
  "at_uri_ok u \<longleftrightarrow>
     at_identifier_ok (authority u)
     \<and> (case collection u of None \<Rightarrow> rkey u = None | Some c \<Rightarrow> nsid_validate (nsid_str c) = Inr ())
     \<and> (case rkey u of None \<Rightarrow> True | Some r \<Rightarrow> record_key_validate (record_key_str r) = Inr ())
     \<and> (case fragment u of None \<Rightarrow> True | Some f \<Rightarrow> validate_fragment f = Inr f)"

definition path_byte :: "byte \<Rightarrow> bool" where
  "path_byte b \<longleftrightarrow> at_uri_is_allowed b \<and> b \<noteq> CHR ''#'' \<and> b \<noteq> CHR ''?'' \<and> b \<noteq> CHR ''/''"

lemma alnum_path_byte: "is_ascii_alphanumeric b \<Longrightarrow> path_byte b"
proof -
  assume a: "is_ascii_alphanumeric b"
  moreover have "\<not> is_ascii_alphanumeric CHR ''#''" "\<not> is_ascii_alphanumeric CHR ''?''"
    "\<not> is_ascii_alphanumeric CHR ''/''"
    by (simp_all add: ascii_defs)
  ultimately have "b \<noteq> CHR ''#''" "b \<noteq> CHR ''?''" "b \<noteq> CHR ''/''" by metis+
  with a show ?thesis
    by (simp add: path_byte_def at_uri_is_allowed_def is_pointer_byte_def)
qed

lemma punctuation_path_byte:
  "path_byte CHR ''.''" "path_byte CHR ''_''" "path_byte CHR '':''" "path_byte CHR ''%''"
  "path_byte CHR ''-''" "path_byte CHR ''~''"
  by (simp_all add: path_byte_def at_uri_is_allowed_def is_pointer_byte_def)

lemma did_path_byte: "did_is_allowed b \<Longrightarrow> path_byte b"
  by (auto simp: did_is_allowed_def alnum_path_byte punctuation_path_byte)

lemma domain_path_byte: "domain_byte b \<Longrightarrow> path_byte b"
  by (auto simp: domain_byte_def alnum_path_byte punctuation_path_byte)

lemma record_key_path_byte: "record_key_is_allowed b \<Longrightarrow> path_byte b"
  by (auto simp: record_key_is_allowed_def alnum_path_byte punctuation_path_byte)

lemma path_bytes_valid:
  "did_validate s = Inr () \<Longrightarrow> list_all path_byte s \<and> s \<noteq> []"
  "handle_validate s = Inr () \<Longrightarrow> list_all path_byte s \<and> s \<noteq> []"
  "nsid_validate s = Inr () \<Longrightarrow> list_all path_byte s \<and> s \<noteq> []"
  "record_key_validate s = Inr () \<Longrightarrow> list_all path_byte s \<and> s \<noteq> []"
  by (auto simp: list_all_iff dest: did_nt.validate_bytes handle_nt.validate_bytes
      nsid_nt.validate_bytes record_key_nt.validate_bytes did_path_byte domain_path_byte
      record_key_path_byte dest: did_nt.validate_nonempty handle_nt.validate_nonempty
      nsid_nt.validate_nonempty record_key_nt.validate_nonempty)

lemma at_identifier_path_bytes:
  "at_identifier_ok a \<Longrightarrow>
     list_all path_byte (at_identifier_as_str a) \<and> at_identifier_as_str a \<noteq> []"
  by (cases a) (simp_all add: at_identifier_ok_def path_bytes_valid)

lemma handle_not_did:
  assumes "handle_validate s = Inr ()" shows "\<not> starts_with s ''did:''"
proof
  assume "starts_with s ''did:''"
  then obtain r where "s = ''did:'' @ r"
    by (auto simp: starts_with_def strip_prefix_Some simp del: strip_prefix.simps)
  then have "CHR '':'' \<in> set s" by simp
  moreover have "\<not> domain_byte CHR '':''"
    by (simp add: domain_byte_def ascii_defs)
  ultimately show False
    using handle_nt.valid_disallowed [OF assms] by blast
qed

lemma did_starts: "did_validate s = Inr () \<Longrightarrow> starts_with s ''did:''"
  by (auto simp: did_validate_def starts_with_def split: if_splits option.splits)

lemma at_identifier_from_str_iff:
  "at_identifier_from_str s = Inr a \<longleftrightarrow> at_identifier_ok a \<and> at_identifier_as_str a = s"
  by (cases a) (auto simp: at_identifier_from_str_def at_identifier_ok_def result_simps
      from_str_iffs did_starts handle_not_did)

text \<open>The path of a URI: its segments joined by slashes.\<close>

definition at_uri_segments :: "at_uri \<Rightarrow> string list" where
  "at_uri_segments u =
     at_identifier_as_str (authority u)
     # (case collection u of None \<Rightarrow> [] | Some c \<Rightarrow> [nsid_str c])
     @ (case rkey u of None \<Rightarrow> [] | Some r \<Rightarrow> [record_key_str r])"

lemma segments_path_bytes:
  assumes "at_uri_ok u" "p \<in> set (at_uri_segments u)"
  shows "list_all path_byte p \<and> p \<noteq> []"
  using assms at_identifier_path_bytes [of "authority u"] path_bytes_valid
  by (auto simp: at_uri_ok_def at_uri_segments_def split: option.splits)

lemma split_on_join:
  "ps \<noteq> [] \<Longrightarrow> (\<And>p. p \<in> set ps \<Longrightarrow> d \<notin> set p) \<Longrightarrow> split_on d (join_with d ps) = ps"
  by (induction d ps rule: join_with.induct) (auto simp: split_on_append_sep)

lemma last_join_with:
  "ps \<noteq> [] \<Longrightarrow> last ps \<noteq> [] \<Longrightarrow> join_with d ps \<noteq> [] \<and> last (join_with d ps) = last (last ps)"
  by (induction d ps rule: join_with.induct) auto

lemma at_uri_display_eq:
  "at_uri_display u = ''at://'' @ join_with CHR ''/'' (at_uri_segments u)
     @ (case fragment u of None \<Rightarrow> [] | Some f \<Rightarrow> CHR ''#'' # f)"
  if "at_uri_ok u"
  using that
  by (auto simp: at_uri_display_def at_uri_segments_def at_uri_ok_def split: option.splits)


lemma at_uri_of_segments_Inr_iff:
  assumes "segs \<noteq> []"
  shows "at_uri_of_segments segs frag = Inr u \<longleftrightarrow>
    at_uri_ok u \<and> at_uri_segments u = segs \<and> fragment u = frag"
proof (cases "length segs \<le> 3")
  case True
  have frag: "(case frag of None \<Rightarrow> Inr None | Some f \<Rightarrow> bindE (validate_fragment f) (\<lambda>g. Inr (Some g)))
      = Inr g \<longleftrightarrow> g = frag \<and> (case frag of None \<Rightarrow> True | Some f \<Rightarrow> validate_fragment f = Inr f)" for g
    by (cases frag) (auto simp: result_simps dest: validate_fragment_Inr)
  show ?thesis
    by (cases u, rule length_le_3_cases [OF assms True])
      (auto simp: at_uri_of_segments_def result_simps frag at_uri_ok_def at_uri_segments_def
        parse_opt_Inr at_identifier_from_str_iff from_str_iffs numeral_2_eq_2 split: option.splits)
next
  case False
  then show ?thesis
    by (auto simp: at_uri_of_segments_def at_uri_segments_def split: option.splits)
qed

lemma uri_literals_allowed:
  "at_uri_is_allowed CHR ''/''" "at_uri_is_allowed CHR '':''" "at_uri_is_allowed CHR ''a''"
  "at_uri_is_allowed CHR ''t''"
  by (simp_all add: at_uri_is_allowed_def is_pointer_byte_def ascii_defs)

lemma at_uri_from_parts:
  assumes "at_uri_ok u" "length (at_uri_display u) \<le> 8192"
  shows "at_uri_from_str (at_uri_display u) = Inr u"
proof -
  define path where "path = join_with CHR ''/'' (at_uri_segments u)"
  define tail where "tail = (case fragment u of None \<Rightarrow> [] | Some f \<Rightarrow> CHR ''#'' # f)"
  have eq: "at_uri_display u = ''at://'' @ path @ tail"
    using assms(1) by (simp only: at_uri_display_eq path_def tail_def)
  have bytes: "c = CHR ''/'' \<or> path_byte c" if "c \<in> set path" for c
    using set_join_with that [unfolded path_def] segments_path_bytes [OF assms(1)]
    by (fastforce simp: list_all_iff)
  then have no: "CHR ''#'' \<notin> set path" "CHR ''?'' \<notin> set path"
    by (fastforce simp: path_byte_def)+
  have ne: "at_uri_segments u \<noteq> []" by (simp add: at_uri_segments_def)
  then have segs: "at_uri_segments u \<noteq> []" "last (at_uri_segments u) \<noteq> []"
    using segments_path_bytes [OF assms(1) last_in_set] by blast+
  have "path_byte (last (last (at_uri_segments u)))"
    using segments_path_bytes [OF assms(1), of "last (at_uri_segments u)"] segs
    by (auto simp: list_all_iff)
  then have slash: "\<not> ends_with_byte path CHR ''/''"
    using last_join_with [OF segs, of "CHR ''/''"] by (auto simp: ends_with_byte_def path_def path_byte_def)
  have split: "split_on CHR ''/'' path = at_uri_segments u"
    unfolding path_def using segs(1)
  proof (rule split_on_join)
    fix p assume "p \<in> set (at_uri_segments u)"
    then show "CHR ''/'' \<notin> set p"
      using segments_path_bytes [OF assms(1)] by (fastforce simp: list_all_iff path_byte_def)
  qed
  have once: "(case split_once CHR ''#'' (path @ tail) of
      Some (r, f) \<Rightarrow> (r, Some f) | None \<Rightarrow> (path @ tail, None)) = (path, fragment u)"
  proof (cases "fragment u")
    case None
    then have "split_once CHR ''#'' (path @ tail) = None"
      using no by (simp add: split_once_None tail_def)
    with None show ?thesis by (simp add: tail_def)
  next
    case (Some f)
    then have "split_once CHR ''#'' (path @ tail) = Some (path, f)"
      using no by (simp add: split_once_Some tail_def)
    with Some show ?thesis by simp
  qed
  have "list_all at_uri_is_allowed path"
    using bytes uri_literals_allowed(1) by (metis list_all_iff path_byte_def)
  moreover have "list_all at_uri_is_allowed tail"
    using assms(1) by (auto simp: tail_def at_uri_ok_def validate_fragment_def at_uri_is_allowed_def
        list_all_iff split: option.splits if_splits)
  ultimately have "list_all at_uri_is_allowed (at_uri_display u)"
    by (simp add: eq uri_literals_allowed)
  moreover have "at_uri_of_segments (at_uri_segments u) (fragment u) = Inr u"
    using assms(1) segs by (simp add: at_uri_of_segments_Inr_iff)
  ultimately show ?thesis
    using assms(2) once no slash split
    by (simp add: at_uri_from_str_def eq del: append_Cons strip_prefix.simps)
qed


text \<open>An AT-URI parses to \<open>u\<close> exactly when \<open>u\<close>'s parts are valid identifiers, no record key
  stands without a collection, and the text is \<open>u\<close> printed, within the length limit. So
  parsing then printing gives back the input, printing then parsing gives back the value, and
  two different values never print alike.\<close>
theorem at_uri_from_str_iff:
  "at_uri_from_str s = Inr u \<longleftrightarrow> at_uri_ok u \<and> at_uri_display u = s \<and> length s \<le> 8192"
proof
  assume parsed: "at_uri_from_str s = Inr u"
  then have len: "length s \<le> 8192" and "list_all at_uri_is_allowed s"
    by (auto simp: at_uri_from_str_def split: if_splits)
  then obtain rest0 where rest0: "strip_prefix ''at://'' s = Some rest0"
    using parsed by (cases "strip_prefix ''at://'' s") (auto simp: at_uri_from_str_def)
  obtain path frag where pf: "(case split_once CHR ''#'' rest0 of
      Some (r, f) \<Rightarrow> (r, Some f) | None \<Rightarrow> (rest0, None)) = (path, frag)"
    by fastforce
  then have rest0_eq: "rest0 = path @ (case frag of None \<Rightarrow> [] | Some f \<Rightarrow> CHR ''#'' # f)"
    by (auto simp: split_once_Some split: option.splits)
  have "at_uri_of_segments (split_on CHR ''/'' path) frag = Inr u"
    using parsed len rest0 pf by (auto simp: at_uri_from_str_def Let_def split: if_splits)
  then have u: "at_uri_ok u" "at_uri_segments u = split_on CHR ''/'' path" "fragment u = frag"
    by (simp_all add: at_uri_of_segments_Inr_iff)
  have "s = ''at://'' @ rest0"
    by (rule strip_prefix_Some [THEN iffD1, OF rest0])
  with u rest0_eq have "at_uri_display u = s"
    by (simp only: at_uri_display_eq [OF u(1)] join_split_on)
  with u(1) len show "at_uri_ok u \<and> at_uri_display u = s \<and> length s \<le> 8192"
    by simp
next
  assume "at_uri_ok u \<and> at_uri_display u = s \<and> length s \<le> 8192"
  then show "at_uri_from_str s = Inr u"
    using at_uri_from_parts [of u] by auto
qed

text \<open>The tree path \<open>collection/rkey\<close> of a record, as \<open>Write::key\<close> formats it.\<close>

definition record_path :: "nsid \<Rightarrow> record_key \<Rightarrow> string" where
  "record_path c r = nsid_str c @ CHR ''/'' # record_key_str r"

text \<open>Two records of a repository share a tree path only when they are the same record: the
  slash between a valid collection and a valid key is the only one.\<close>
theorem record_path_injective:
  assumes "nsid_from_str s = Inr c" "nsid_from_str s' = Inr c'"
    and "record_path c r = record_path c' r'"
  shows "c = c' \<and> r = r'"
proof -
  have "CHR ''/'' \<notin> set (nsid_str d)" if "nsid_from_str t = Inr d" for t d
    using that by (auto simp: from_str_iffs path_byte_def list_all_iff dest!: path_bytes_valid)
  then have "split_once CHR ''/'' (record_path c r) = Some (nsid_str c, record_key_str r)"
    and "split_once CHR ''/'' (record_path c' r') = Some (nsid_str c', record_key_str r')"
    using assms(1,2) unfolding split_once_Some record_path_def by blast+
  with assms(3) show ?thesis
    by (simp add: nsid.expand record_key.expand)
qed

theorem record_path_injective_witness:
  "nsid_from_str ''com.example.record'' = Inr (Nsid ''com.example.record'')
   \<and> Nsid ''com.example.record'' = Nsid ''com.example.record''"
proof -
  have p: "nsid_from_str ''com.example.record'' = Inr (Nsid ''com.example.record'')"
    by code_simp
  from record_path_injective [OF p p refl, of "RecordKey ''a''"] p show ?thesis by blast
qed

lemma lowercase_no_upper: "b \<in> set (to_ascii_lowercase s) \<Longrightarrow> \<not> is_ascii_uppercase b"
  by (auto simp: to_ascii_lowercase_def)

text \<open>Normalising a handle gives a valid handle with no capital letter, and normalising that
  handle again changes nothing.\<close>
theorem handle_normalize_stable:
  assumes "handle_normalize s = Inr h"
  shows "handle_validate (handle_str h) = Inr ()
    \<and> list_all (\<lambda>b. \<not> is_ascii_uppercase b) (handle_str h)
    \<and> handle_normalize (handle_str h) = Inr h"
  using assms
  by (auto simp: handle_normalize_def from_str_iffs list_all_iff lowercase_no_upper)

theorem handle_normalize_stable_witness:
  "handle_normalize ''Alice.Test'' = Inr (Handle ''alice.test'')
   \<and> handle_normalize ''alice.test'' = Inr (Handle ''alice.test'')"
proof -
  have p: "handle_normalize ''Alice.Test'' = Inr (Handle ''alice.test'')"
    by code_simp
  from handle_normalize_stable [OF p] p show ?thesis by simp
qed

end
