(* ===== verification/Tid.thy ===== *)
theory Tid
  imports Syntax
begin

text \<open>
  Timestamp identifiers, \<open>src/syntax/tid.rs\<close>: the base32-sortable encoding, its inverse, and the
  clock that mints them. \<open>u64\<close> arithmetic is on \<open>nat\<close> with the wrap-around (or the saturation)
  the source has written out. The system clock is an argument: what
  \<open>SystemTime::now().duration_since(UNIX_EPOCH)\<close> answered, in microseconds, or \<open>None\<close> when it is
  before the epoch.
\<close>

section \<open>Definitions\<close>

datatype tid = Tid (tid_str: string)

definition tid_is_digit :: "byte \<Rightarrow> bool" where
  "tid_is_digit b \<longleftrightarrow> (CHR ''2'' \<le> b \<and> b \<le> CHR ''7'') \<or> (CHR ''a'' \<le> b \<and> b \<le> CHR ''z'')"

definition tid_validate :: "string \<Rightarrow> syntax_error + unit" where
  "tid_validate input =
     (if length input \<noteq> 13 then Inl (ETid ''not 13 characters'')
      else if \<not> list_all tid_is_digit input then Inl (ETid ''character outside base32-sortable'')
      else if \<not> ((CHR ''2'' \<le> input ! 0 \<and> input ! 0 \<le> CHR ''7'')
                 \<or> (CHR ''a'' \<le> input ! 0 \<and> input ! 0 \<le> CHR ''j''))
        then Inl (ETid ''high bit set'')
      else Inr ())"

definition tid_from_str :: "string \<Rightarrow> syntax_error + tid" where
  "tid_from_str = newtype_from_str tid_validate Tid"

definition U64_MAX :: nat where "U64_MAX = 2 ^ 64 - 1"
definition MICROS :: nat where "MICROS = 2 ^ 53"
definition CLOCK_IDS :: nat where "CLOCK_IDS = 2 ^ 10"

definition DIGITS :: string where "DIGITS = ''234567abcdefghijklmnopqrstuvwxyz''"

text \<open>\<open>encode\<close>: the thirteen digits, highest first.\<close>

definition tid_encode :: "nat \<Rightarrow> string" where
  "tid_encode value = map (\<lambda>d. DIGITS ! (value div 2 ^ (d * 5) mod 32)) (rev [0..<13])"

definition tid_digit :: "byte \<Rightarrow> nat" where
  "tid_digit b =
     (if CHR ''2'' \<le> b \<and> b \<le> CHR ''7'' then of_char b - 50
      else (of_char b + 256 - 97) mod 256 + 6)"

definition from_parts :: "nat \<Rightarrow> nat \<Rightarrow> tid" where
  "from_parts micros clk = Tid (tid_encode ((micros mod MICROS) * CLOCK_IDS + clk mod CLOCK_IDS))"

definition to_parts :: "tid \<Rightarrow> nat \<times> nat" where
  "to_parts t =
     (let value = foldl (\<lambda>v b. (v * 32 + tid_digit b) mod 2 ^ 64) 0 (tid_str t)
      in (value div CLOCK_IDS, value mod CLOCK_IDS))"

record clock =
  clock_id :: nat
  last_micros :: nat

definition now_micros :: "nat option \<Rightarrow> nat" where
  "now_micros since = (case since of None \<Rightarrow> 0 | Some m \<Rightarrow> if m \<le> U64_MAX then m else U64_MAX)"

definition mint :: "nat option \<Rightarrow> clock \<Rightarrow> tid \<times> clock" where
  "mint since c =
     (let l = min (max (now_micros since) (min (last_micros c + 1) U64_MAX)) (MICROS - 1)
      in (from_parts l (clock_id c), c\<lparr>last_micros := l\<rparr>))"

definition mint_after :: "nat option \<Rightarrow> tid \<Rightarrow> clock \<Rightarrow> tid option \<times> clock" where
  "mint_after since previous c =
     (let c = c\<lparr>last_micros := max (last_micros c) (fst (to_parts previous))\<rparr>
      in if last_micros c < MICROS - 1
         then (let (t, c) = mint since c in (Some t, c))
         else (None, c))"


section \<open>Base 32\<close>

definition value_of :: "string \<Rightarrow> nat" where
  "value_of s = foldl (\<lambda>v b. v * 32 + tid_digit b) 0 s"

lemma foldl_base32:
  "foldl (\<lambda>v b. v * 32 + f b) a s = a * 32 ^ length s + foldl (\<lambda>v b. v * 32 + f b) (0::nat) s"
proof (induction s arbitrary: a)
  case (Cons b s)
  show ?case
    by (simp, subst (1 2) Cons.IH) (simp add: algebra_simps)
qed simp

lemma value_of_simps [simp]:
  "value_of [] = 0"
  "value_of (b # s) = tid_digit b * 32 ^ length s + value_of s"
  by (simp_all add: value_of_def foldl_base32 [of tid_digit "tid_digit b"])

lemma foldl_mod64:
  "foldl (\<lambda>v b. (v * 32 + tid_digit b) mod 2 ^ 64) (a mod 2 ^ 64) s
     = foldl (\<lambda>v b. v * 32 + tid_digit b) a s mod 2 ^ 64"
proof (induction s arbitrary: a)
  case (Cons b s)
  have "(a mod 2 ^ 64 * 32 + tid_digit b) mod 2 ^ 64 = (a * 32 + tid_digit b) mod 2 ^ 64"
    by (metis mod_add_left_eq mod_mult_left_eq)
  then show ?case by (simp only: foldl.simps Cons.IH)
qed simp

lemma tid_is_digit_nat:
  "tid_is_digit b \<longleftrightarrow> (50 \<le> (of_char b :: nat) \<and> (of_char b :: nat) \<le> 55)
     \<or> (97 \<le> (of_char b :: nat) \<and> (of_char b :: nat) \<le> 122)"
  by (auto simp: tid_is_digit_def less_eq_char_def)

lemma tid_digit_nat:
  "tid_is_digit b \<Longrightarrow>
     tid_digit b = (if (of_char b :: nat) \<le> 55 then of_char b - 50 else of_char b - 91)"
  by (auto simp: tid_is_digit_nat tid_digit_def less_eq_char_def le_mod_geq)

lemma tid_digit_less: "tid_is_digit b \<Longrightarrow> tid_digit b < 32"
  by (auto simp: tid_digit_nat tid_is_digit_nat)

lemma tid_digit_mono: "tid_is_digit a \<Longrightarrow> tid_is_digit b \<Longrightarrow> tid_digit a < tid_digit b \<longleftrightarrow> a < b"
  by (auto simp: tid_digit_nat tid_is_digit_nat less_char_def)

lemma tid_digit_inj: "tid_is_digit a \<Longrightarrow> tid_is_digit b \<Longrightarrow> tid_digit a = tid_digit b \<longleftrightarrow> a = b"
  using tid_digit_mono [of a b] tid_digit_mono [of b a] by (metis linorder_neqE less_irrefl)

lemma value_of_less: "list_all tid_is_digit s \<Longrightarrow> value_of s < 32 ^ length s"
proof (induction s)
  case (Cons b s)
  then have "tid_digit b \<le> 31" "value_of s < 32 ^ length s"
    using tid_digit_less [of b] by auto
  then have "tid_digit b * 32 ^ length s + value_of s < 31 * 32 ^ length s + 32 ^ length s"
    by (intro add_le_less_mono mult_le_mono1)
  then show ?case by simp
qed simp

lemma lex_digit_less:
  fixes p q m a b :: nat
  assumes "p < q" "a < m"
  shows "p * m + a < q * m + b"
proof -
  have "p * m + a < Suc p * m" using assms(2) by simp
  also have "\<dots> \<le> q * m" using assms(1) by (intro mult_le_mono1) simp
  finally show ?thesis by simp
qed

lemma value_of_order:
  "length s = length t \<Longrightarrow> list_all tid_is_digit s \<Longrightarrow> list_all tid_is_digit t \<Longrightarrow>
     s < t \<longleftrightarrow> value_of s < value_of t"
proof (induction s t rule: list_induct2)
  case (Cons a s b t)
  then have small: "value_of s < 32 ^ length t" "value_of t < 32 ^ length t"
    using value_of_less [of s] value_of_less [of t] by auto
  consider "a < b" | "b < a" | "a = b" by force
  then show ?case
  proof cases
    case 1
    with Cons show ?thesis using lex_digit_less [OF _ small(1)] by (auto simp: tid_digit_mono)
  next
    case 2
    with Cons show ?thesis
      using lex_digit_less [OF _ small(2), of "tid_digit b" "tid_digit a" "value_of s"]
      by (auto simp: tid_digit_mono)
  qed (use Cons in auto)
qed simp

definition encode_digits :: "nat \<Rightarrow> nat \<Rightarrow> string" where
  "encode_digits k v = map (\<lambda>d. DIGITS ! (v div 2 ^ (d * 5) mod 32)) (rev [0..<k])"

lemma tid_encode_digits: "tid_encode v = encode_digits 13 v"
  by (simp add: tid_encode_def encode_digits_def)

lemma length_encode_digits [simp]: "length (encode_digits k v) = k"
  by (simp add: encode_digits_def)

lemma encode_digits_Suc:
  "encode_digits (Suc k) v = DIGITS ! (v div 32 ^ k mod 32) # encode_digits k v"
proof -
  have "(2::nat) ^ (k * 5) = 32 ^ k"
    by (simp add: power_mult mult.commute [of k])
  then show ?thesis by (simp add: encode_digits_def)
qed

lemma DIGITS_all: "list_all (\<lambda>k. tid_digit (DIGITS ! k) = k \<and> tid_is_digit (DIGITS ! k)) [0..<32]"
  by code_simp

lemma DIGITS_nth: "k < 32 \<Longrightarrow> tid_digit (DIGITS ! k) = k \<and> tid_is_digit (DIGITS ! k)"
  using DIGITS_all by (simp add: list_all_iff)

lemma encode_digits_valid: "list_all tid_is_digit (encode_digits k v)"
  by (simp add: encode_digits_def list_all_iff DIGITS_nth)

lemma value_of_encode: "value_of (encode_digits k v) = v mod 32 ^ k"
proof (induction k)
  case (Suc k)
  have "v mod (32 ^ k * 32) = 32 ^ k * (v div 32 ^ k mod 32) + v mod 32 ^ k"
    by (rule mod_mult2_eq)
  with Suc show ?case
    by (simp add: encode_digits_Suc DIGITS_nth mult.commute)
qed (simp add: encode_digits_def)

lemma value_of_inj:
  "length s = length t \<Longrightarrow> list_all tid_is_digit s \<Longrightarrow> list_all tid_is_digit t \<Longrightarrow>
     value_of s = value_of t \<Longrightarrow> s = t"
  using value_of_order [of s t] value_of_order [of t s] by (metis linorder_neqE less_irrefl)


section \<open>Parts and order\<close>

lemma tid_validate_Inr:
  "tid_validate s = Inr () \<longleftrightarrow>
     length s = 13 \<and> list_all tid_is_digit s \<and> value_of s < 2 ^ 64"
proof (cases s)
  case (Cons b r)
  show ?thesis
  proof (cases "length r = 12 \<and> tid_is_digit b \<and> list_all tid_is_digit r")
    case True
    then have "value_of r < 32 ^ 12" "value_of s = tid_digit b * 32 ^ 12 + value_of r"
      using value_of_less [of r] Cons by auto
    then have "value_of s < 2 ^ 64 \<longleftrightarrow> tid_digit b < 16" by auto
    moreover have "tid_digit b < 16 \<longleftrightarrow> (CHR ''2'' \<le> b \<and> b \<le> CHR ''7'') \<or> (CHR ''a'' \<le> b \<and> b \<le> CHR ''j'')"
      using True by (auto simp: tid_digit_nat tid_is_digit_nat less_eq_char_def)
    ultimately show ?thesis using True Cons by (auto simp: tid_validate_def)
  qed (auto simp: tid_validate_def Cons)
qed (simp add: tid_validate_def)

interpretation tid_nt: string_newtype tid_validate Tid tid_str 13 tid_is_digit
  by unfold_locales (auto simp: tid_validate_Inr list_all_iff)

lemma to_parts_value:
  "tid_validate (tid_str t) = Inr () \<Longrightarrow>
     to_parts t = (value_of (tid_str t) div CLOCK_IDS, value_of (tid_str t) mod CLOCK_IDS)"
  using foldl_mod64 [of 0 "tid_str t"]
  by (simp add: to_parts_def tid_validate_Inr value_of_def Let_def)

definition part_value :: "nat \<Rightarrow> nat \<Rightarrow> nat" where
  "part_value micros clk = (micros mod MICROS) * CLOCK_IDS + clk mod CLOCK_IDS"

lemma part_value_less: "part_value micros clk < 2 ^ 63"
proof -
  have "micros mod MICROS < 2 ^ 53" "clk mod CLOCK_IDS < 2 ^ 10"
    by (simp_all add: MICROS_def CLOCK_IDS_def)
  then show ?thesis unfolding part_value_def CLOCK_IDS_def by simp
qed

lemma from_parts_value:
  "tid_validate (tid_str (from_parts micros clk)) = Inr ()
   \<and> value_of (tid_str (from_parts micros clk)) = part_value micros clk"
proof -
  have "part_value micros clk < 32 ^ 13"
    using part_value_less [of micros clk] by simp
  then have "value_of (tid_str (from_parts micros clk)) = part_value micros clk"
    by (simp add: from_parts_def tid_encode_digits value_of_encode flip: part_value_def)
  with part_value_less [of micros clk] show ?thesis
    by (simp add: tid_validate_Inr from_parts_def tid_encode_digits encode_digits_valid)
qed

lemma to_parts_from_parts: "to_parts (from_parts micros clk) = (micros mod MICROS, clk mod CLOCK_IDS)"
  using from_parts_value [of micros clk]
  by (simp add: to_parts_value part_value_def CLOCK_IDS_def)

text \<open>Encoding a timestamp and a clock id and reading them back gives each truncated to its
  field's width, the encoding is always a valid TID, and every valid TID whose timestamp fits
  the 53-bit field is the encoding of the parts read from it.\<close>
theorem tid_parts_roundtrip:
  "to_parts (from_parts micros clk) = (micros mod MICROS, clk mod CLOCK_IDS)
   \<and> tid_from_str (tid_str (from_parts micros clk)) = Inr (from_parts micros clk)
   \<and> (tid_validate (tid_str t) = Inr () \<and> fst (to_parts t) < MICROS
       \<longrightarrow> from_parts (fst (to_parts t)) (snd (to_parts t)) = t)"
proof (intro conjI impI)
  show "to_parts (from_parts micros clk) = (micros mod MICROS, clk mod CLOCK_IDS)"
    by (rule to_parts_from_parts)
  show "tid_from_str (tid_str (from_parts micros clk)) = Inr (from_parts micros clk)"
    unfolding tid_from_str_def using from_parts_value by (blast intro: tid_nt.parse_printed)
  assume t: "tid_validate (tid_str t) = Inr () \<and> fst (to_parts t) < MICROS"
  define u where "u = from_parts (fst (to_parts t)) (snd (to_parts t))"
  have "value_of (tid_str t) div CLOCK_IDS < MICROS"
    using t to_parts_value [of t] by auto
  then have "value_of (tid_str u) = value_of (tid_str t)"
    using t from_parts_value [of "fst (to_parts t)" "snd (to_parts t)"]
    by (simp add: u_def part_value_def to_parts_value)
  moreover have "tid_validate (tid_str u) = Inr ()"
    unfolding u_def using from_parts_value by blast
  ultimately have "tid_str u = tid_str t"
    using t by (intro value_of_inj) (simp_all add: tid_validate_Inr)
  then show "from_parts (fst (to_parts t)) (snd (to_parts t)) = t"
    unfolding u_def by (rule tid.expand)
qed

theorem tid_parts_roundtrip_witness:
  "to_parts (Tid ''3jqfcqzm4fc2j'') = (1678242062338408, 15)
   \<and> from_parts 1678242062338408 15 = Tid ''3jqfcqzm4fc2j''"
proof -
  have p: "to_parts (Tid ''3jqfcqzm4fc2j'') = (1678242062338408, 15)"
    by (simp add: to_parts_def tid_digit_def CLOCK_IDS_def)
  have "tid_validate ''3jqfcqzm4fc2j'' = Inr ()"
    by (simp add: tid_validate_def tid_is_digit_def)
  with p tid_parts_roundtrip [of 0 0 "Tid ''3jqfcqzm4fc2j''"] show ?thesis
    by (simp add: MICROS_def)
qed

lemma less_div_mod:
  "(a::nat) < b \<longleftrightarrow> a div CLOCK_IDS < b div CLOCK_IDS
     \<or> (a div CLOCK_IDS = b div CLOCK_IDS \<and> a mod CLOCK_IDS < b mod CLOCK_IDS)"
proof (cases "a div CLOCK_IDS = b div CLOCK_IDS")
  case True
  then show ?thesis
    by (metis div_mult_mod_eq less_irrefl nat_add_left_cancel_less)
next
  case False
  then show ?thesis
    by (metis div_le_mono leD le_neq_implies_less less_imp_le_nat linorder_not_less)
qed

text \<open>Valid TIDs sort as strings in the order of the numbers they encode, so in the order of
  their timestamps first and their clock ids second.\<close>
theorem tid_sorts_as_value:
  assumes "tid_from_str s = Inr a" "tid_from_str t = Inr b"
  shows "s < t \<longleftrightarrow> fst (to_parts a) < fst (to_parts b)
      \<or> (fst (to_parts a) = fst (to_parts b) \<and> snd (to_parts a) < snd (to_parts b))"
proof -
  have v: "tid_validate s = Inr ()" "tid_validate t = Inr ()" "a = Tid s" "b = Tid t"
    using assms by (simp_all add: tid_from_str_def tid_nt.parse_Inr_iff)
  then have "s < t \<longleftrightarrow> value_of s < value_of t"
    by (intro value_of_order) (simp_all add: tid_validate_Inr)
  also have "\<dots> \<longleftrightarrow> value_of s div CLOCK_IDS < value_of t div CLOCK_IDS
      \<or> (value_of s div CLOCK_IDS = value_of t div CLOCK_IDS
          \<and> value_of s mod CLOCK_IDS < value_of t mod CLOCK_IDS)"
    by (rule less_div_mod)
  finally show ?thesis
    using v by (simp add: to_parts_value)
qed

theorem tid_sorts_as_value_witness:
  "''2222222222222'' < (''3jqfcqzm4fc2j'' :: string)
   \<and> fst (to_parts (Tid ''2222222222222'')) < fst (to_parts (Tid ''3jqfcqzm4fc2j''))"
proof -
  have "tid_from_str ''2222222222222'' = Inr (Tid ''2222222222222'')"
    "tid_from_str ''3jqfcqzm4fc2j'' = Inr (Tid ''3jqfcqzm4fc2j'')"
    by (simp_all add: tid_from_str_def newtype_from_str_def tid_validate_def tid_is_digit_def)
  from tid_sorts_as_value [OF this] show ?thesis
    by (simp add: to_parts_def tid_digit_def CLOCK_IDS_def)
qed


section \<open>The clock\<close>

lemma mint_valid: "tid_validate (tid_str (fst (mint since c))) = Inr ()"
  by (simp add: mint_def Let_def from_parts_value)

lemma mint_micros: "fst (to_parts (fst (mint since c))) = last_micros (snd (mint since c))"
  by (simp add: mint_def Let_def to_parts_from_parts MICROS_def)

lemma mint_last_less:
  "last_micros c < MICROS - 1 \<Longrightarrow>
     last_micros c < last_micros (snd (mint since c)) \<and> last_micros (snd (mint since c)) < MICROS"
  by (auto simp: mint_def Let_def U64_MAX_def MICROS_def)

lemma micros_order:
  "tid_validate (tid_str a) = Inr () \<Longrightarrow> tid_validate (tid_str b) = Inr () \<Longrightarrow>
     fst (to_parts a) < fst (to_parts b) \<Longrightarrow> tid_str a < tid_str b"
  using value_of_order [of "tid_str a" "tid_str b"]
  by (auto simp: to_parts_value tid_validate_Inr dest: div_less_mono less_le_trans)
    (metis div_le_mono linorder_not_less)

lemma mint_after_case:
  assumes "tid_validate (tid_str previous) = Inr ()"
  shows "case mint_after since previous c of
      (Some t, c') \<Rightarrow> tid_validate (tid_str t) = Inr () \<and> tid_str previous < tid_str t
        \<and> last_micros c < last_micros c' \<and> fst (to_parts t) = last_micros c'
    | (None, c') \<Rightarrow> MICROS - 1 \<le> max (last_micros c) (fst (to_parts previous))"
proof (cases "max (last_micros c) (fst (to_parts previous)) < MICROS - 1")
  case True
  define d where "d = c\<lparr>last_micros := max (last_micros c) (fst (to_parts previous))\<rparr>"
  obtain t c' where m: "mint since d = (t, c')" by fastforce
  have "last_micros d < last_micros c'" "fst (to_parts t) = last_micros c'"
    "tid_validate (tid_str t) = Inr ()"
    using mint_last_less [of d since] mint_micros [of since d] mint_valid [of since d] True m
    by (simp_all add: d_def)
  moreover from this have "tid_str previous < tid_str t"
    using assms by (intro micros_order) (auto simp: d_def)
  moreover have "mint_after since previous c = (Some t, c')"
    using True m by (simp add: mint_after_def Let_def d_def)
  ultimately show ?thesis by (simp add: d_def)
next
  case False
  then have "mint_after since previous c
      = (None, c\<lparr>last_micros := max (last_micros c) (fst (to_parts previous))\<rparr>)"
    by (auto simp: mint_after_def Let_def)
  with False show ?thesis by (simp only: prod.case option.case not_less)
qed

lemma minted_after:
  assumes "tid_validate (tid_str previous) = Inr ()" "mint_after since previous c = (Some t, c')"
  shows "tid_validate (tid_str t) = Inr () \<and> tid_str previous < tid_str t"
  using mint_after_case [OF assms(1), where since = since and c = c] assms(2) by simp

text \<open>A revision minted after a stored one sorts strictly above it and above everything the
  clock minted before, whatever the system clock says; the clock refuses exactly when the
  timestamp field has nothing left above the two.\<close>
theorem mint_after_above:
  assumes "tid_validate (tid_str previous) = Inr ()"
  shows "case mint_after since previous c of
      (Some t, c') \<Rightarrow> tid_validate (tid_str t) = Inr () \<and> tid_str previous < tid_str t
        \<and> last_micros c < last_micros c' \<and> fst (to_parts t) = last_micros c'
    | (None, c') \<Rightarrow> MICROS - 1 \<le> max (last_micros c) (fst (to_parts previous))"
  by (rule mint_after_case [OF assms])

theorem mint_after_above_witness:
  "tid_str (Tid ''3jqfcqzm4fc2j'') < tid_str (the (fst (mint_after None (Tid ''3jqfcqzm4fc2j'')
     \<lparr>clock_id = 7, last_micros = 0\<rparr>)))"
proof -
  have v: "tid_validate (tid_str (Tid ''3jqfcqzm4fc2j'')) = Inr ()"
    by (simp add: tid_validate_def tid_is_digit_def)
  have m: "fst (to_parts (Tid ''3jqfcqzm4fc2j'')) < MICROS - 1"
    by (simp add: to_parts_def tid_digit_def CLOCK_IDS_def MICROS_def)
  show ?thesis
    using mint_after_above [OF v, where since = None and c = "\<lparr>clock_id = 7, last_micros = 0\<rparr>"] m
    by (auto split: prod.splits option.splits)
qed

text \<open>Successive calls of one clock, of either method and in any order, the system clock answering
  as it likes at each.\<close>

datatype clock_call = Mint "nat option" | Mint_After "nat option" tid

fun clock_run :: "clock_call list \<Rightarrow> clock \<Rightarrow> tid list" where
  "clock_run [] c = []"
| "clock_run (Mint since # es) c = (let (t, c) = mint since c in t # clock_run es c)"
| "clock_run (Mint_After since previous # es) c =
     (let (t, c) = mint_after since previous c in
      case t of Some t \<Rightarrow> t # clock_run es c | None \<Rightarrow> clock_run es c)"

text \<open>What a clock may still mint: timestamps past the last one, or the last the field holds.\<close>

definition still_minted :: "clock \<Rightarrow> tid \<Rightarrow> bool" where
  "still_minted c t \<longleftrightarrow> (\<exists>m < MICROS. t = from_parts m (clock_id c) \<and> (last_micros c < m \<or> m = MICROS - 1))"

lemma still_minted_mono:
  assumes "still_minted c' t" "clock_id c' = clock_id c" "last_micros c \<le> last_micros c' \<or> last_micros c' = MICROS - 1"
  shows "still_minted c t"
proof -
  obtain m where "m < MICROS" "t = from_parts m (clock_id c)" "last_micros c' < m \<or> m = MICROS - 1"
    using assms(1,2) unfolding still_minted_def by auto
  moreover from this assms(3) have "last_micros c < m \<or> m = MICROS - 1" by linarith
  ultimately show ?thesis unfolding still_minted_def by blast
qed

lemma mint_step:
  "fst (mint since c) = from_parts (last_micros (snd (mint since c))) (clock_id c)
   \<and> clock_id (snd (mint since c)) = clock_id c \<and> last_micros (snd (mint since c)) < MICROS
   \<and> (last_micros c < last_micros (snd (mint since c)) \<or> last_micros (snd (mint since c)) = MICROS - 1)"
  by (auto simp: mint_def Let_def U64_MAX_def MICROS_def)

lemma minted_then:
  assumes "still_minted c b" "a = from_parts (last_micros c) (clock_id c)" "last_micros c < MICROS"
  shows "if fst (to_parts a) = MICROS - 1 then b = a else tid_str a < tid_str b"
proof -
  obtain m where m: "m < MICROS" "b = from_parts m (clock_id c)" "last_micros c < m \<or> m = MICROS - 1"
    using assms(1) unfolding still_minted_def by auto
  have parts: "fst (to_parts a) = last_micros c" "fst (to_parts b) = m"
    using assms(2,3) m(1,2) by (simp_all add: to_parts_from_parts)
  show ?thesis
  proof (cases "last_micros c = MICROS - 1")
    case True
    then have "m = MICROS - 1" using m(1,3) by linarith
    then show ?thesis using True parts assms(2) m(2) by simp
  next
    case False
    then have "last_micros c < m" using m(3) assms(3) by linarith
    then have "tid_str a < tid_str b"
      using parts from_parts_value assms(2) m(2) by (intro micros_order) simp_all
    then show ?thesis using False parts by simp
  qed
qed

abbreviation tid_next :: "tid \<Rightarrow> tid \<Rightarrow> bool" where
  "tid_next a b \<equiv> (if fst (to_parts a) = MICROS - 1 then b = a else tid_str a < tid_str b)"

lemma minted_run:
  assumes "mint since c = (t, c')"
    "(\<forall>u \<in> set us. still_minted c' u) \<and> sorted_wrt tid_next us"
  shows "(\<forall>u \<in> set (t # us). still_minted c u) \<and> sorted_wrt tid_next (t # us)"
proof -
  have c': "t = from_parts (last_micros c') (clock_id c)" "clock_id c' = clock_id c" "last_micros c' < MICROS"
      "last_micros c < last_micros c' \<or> last_micros c' = MICROS - 1"
    using mint_step [of since c] assms(1) by simp_all
  have "still_minted c t" unfolding still_minted_def using c' by blast
  moreover have "still_minted c u" if "u \<in> set us" for u
    by (rule still_minted_mono [of c']) (use assms(2) that c' in auto)
  moreover have "tid_next t u" if "u \<in> set us" for u
    by (rule minted_then [of c']) (use assms(2) that c' in auto)
  ultimately show ?thesis using assms(2) by simp
qed

lemma clock_run_facts:
  "(\<forall>t \<in> set (clock_run es c). still_minted c t) \<and> sorted_wrt tid_next (clock_run es c)"
proof (induction es c rule: clock_run.induct)
  case (2 since es c)
  obtain t c' where m: "mint since c = (t, c')" by fastforce
  then show ?case using minted_run [OF m 2 [OF m [symmetric] refl]] by simp
next
  case (3 since previous es c)
  let ?d = "c\<lparr>last_micros := max (last_micros c) (fst (to_parts previous))\<rparr>"
  have raised: "still_minted c u" if "still_minted ?d u" for u
    by (rule still_minted_mono [OF that]) simp_all
  obtain t c' where a: "mint_after since previous c = (t, c')" by fastforce
  show ?case
  proof (cases t)
    case None
    then have "c' = ?d" using a by (auto simp: mint_after_def Let_def split: if_splits prod.splits)
    then show ?thesis using 3(1) [OF a [symmetric] refl None] raised a None by simp
  next
    case (Some u)
    then have m: "mint since ?d = (u, c')"
      using a by (auto simp: mint_after_def Let_def split: if_splits prod.splits)
    show ?thesis
      using minted_run [OF m 3(2) [OF a [symmetric] refl Some]] raised a Some by simp
  qed
qed simp

text \<open>C16: Of the TIDs one clock mints, by either method and whatever the system clock answers,
  each sorts strictly below every later one, unless its timestamp is already the last the field
  holds: that TID the clock repeats from then on.\<close>
theorem mint_run_increasing:
  "sorted_wrt (\<lambda>a b. if fst (to_parts a) = MICROS - 1 then b = a else tid_str a < tid_str b) (clock_run es c)"
  using clock_run_facts [of es c] by blast

end
