(* ===== verification/Crypto.thy ===== *)
theory Crypto
  imports Syntax "HOL-Library.Word"
begin

text \<open>
  Keys, signatures, \<open>did:key\<close> and the spellings of bytes, \<open>src/crypto.rs\<close>.

  The curves are the crates \<open>p256\<close> and \<open>k256\<close>: a record \<open>curve\<close> of the functions the source calls,
  with what it relies on named in \<open>curve_ok\<close>. The two curves are two such records over one type
  of scalars, points and signatures each. \<open>bs58\<close> is a pair of functions.
\<close>

unbundle bit_operations_syntax

section \<open>Spelling bytes\<close>

definition hex_digit :: "nat \<Rightarrow> byte" where
  "hex_digit n = ''0123456789abcdef'' ! n"

definition hex_byte :: "byte \<Rightarrow> string" where
  "hex_byte b = [hex_digit (of_char b div 16), hex_digit (of_char b mod 16)]"

definition to_hex :: "bytes \<Rightarrow> string" where
  "to_hex bs = concat (map hex_byte bs)"

text \<open>\<open>fold\<close> over the differences, as an \<open>u8\<close>: bytes are compared all the way.\<close>

definition byte_word :: "byte \<Rightarrow> 8 word" where
  "byte_word b = of_nat (of_char b)"

definition same :: "bytes \<Rightarrow> bytes \<Rightarrow> bool" where
  "same l r \<longleftrightarrow> length l = length r
     \<and> fold (\<lambda>(a, b) d. d OR (byte_word a XOR byte_word b)) (zip l r) 0 = 0"

definition ALPHABET :: string where
  "ALPHABET = ''abcdefghijklmnopqrstuvwxyz234567''"

text \<open>The inner \<open>while\<close>: what it pushes, and the bits it leaves in the buffer.\<close>

fun base32_push :: "32 word \<Rightarrow> nat \<Rightarrow> string \<times> nat" where
  "base32_push buffer bits =
     (if bits \<ge> 5
      then let bits = bits - 5;
               (rest, left) = base32_push buffer bits
           in (ALPHABET ! unat (drop_bit bits buffer AND 31) # rest, left)
      else ([], bits))"

declare base32_push.simps [simp del]

fun base32_loop :: "32 word \<Rightarrow> nat \<Rightarrow> bytes \<Rightarrow> string" where
  "base32_loop buffer bits [] =
     (if bits > 0 then [ALPHABET ! unat (push_bit (5 - bits) buffer AND 31)] else [])"
| "base32_loop buffer bits (b # bs) =
     (let buffer = push_bit 8 buffer OR of_nat (of_char b);
          (out, bits) = base32_push buffer (bits + 8)
      in out @ base32_loop buffer bits bs)"

definition base32 :: "bytes \<Rightarrow> string" where
  "base32 bs = base32_loop 0 0 bs"

definition is_ascii_hexdigit :: "byte \<Rightarrow> bool" where
  "is_ascii_hexdigit b \<longleftrightarrow> is_ascii_digit b \<or> (CHR ''a'' \<le> b \<and> b \<le> CHR ''f'') \<or> (CHR ''A'' \<le> b \<and> b \<le> CHR ''F'')"

definition digit_value :: "byte \<Rightarrow> nat" where
  "digit_value b =
     (if is_ascii_digit b then of_char b - 48
      else if CHR ''a'' \<le> b then of_char b - 87
      else of_char b - 55)"

fun unhex_pairs :: "string \<Rightarrow> bytes" where
  "unhex_pairs (a # b # s) = char_of (16 * digit_value a + digit_value b) # unhex_pairs s"
| "unhex_pairs _ = []"

definition unhex :: "string \<Rightarrow> bytes option" where
  "unhex text =
     (if length text mod 2 \<noteq> 0 \<or> \<not> list_all is_ascii_hexdigit text then None
      else Some (unhex_pairs text))"


section \<open>Keys\<close>

datatype algorithm = P256 | Secp256k1

datatype crypto_error =
    NotDidKey | UnsupportedKey | MalformedKey | MalformedSignature | HighS | BadSignature

datatype 'sk keypair = KP256 'sk | KSecp256k1 'sk
datatype 'vk public_key = PP256 'vk | PSecp256k1 'vk

record ('sk, 'vk, 'sg) curve =
  sk_from_slice :: "bytes \<Rightarrow> 'sk option"
  sk_to_bytes :: "'sk \<Rightarrow> bytes"
  verifying_key :: "'sk \<Rightarrow> 'vk"
  ecdsa_sign :: "'sk \<Rightarrow> bytes \<Rightarrow> 'sg"
  normalize_s :: "'sg \<Rightarrow> 'sg"
  sig_to_bytes :: "'sg \<Rightarrow> bytes"
  sig_from_slice :: "bytes \<Rightarrow> 'sg option"
  ecdsa_verify :: "'vk \<Rightarrow> bytes \<Rightarrow> 'sg \<Rightarrow> bool"
  to_sec1_point :: "'vk \<Rightarrow> bytes"
  from_sec1_bytes :: "bytes \<Rightarrow> 'vk option"

record ('sk, 'vk, 'sg) crypto_lib =
  p256 :: "('sk, 'vk, 'sg) curve"
  k256 :: "('sk, 'vk, 'sg) curve"
  bs58_encode :: "bytes \<Rightarrow> string"
  bs58_decode :: "string \<Rightarrow> bytes option"

definition SECP256K1_PREFIX :: bytes where "SECP256K1_PREFIX = [CHR 0xE7, CHR 0x01]"
definition P256_PREFIX :: bytes where "P256_PREFIX = [CHR 0x80, CHR 0x24]"
definition POINT_LEN :: nat where "POINT_LEN = 33"

fun keypair_from_bytes :: "('sk, 'vk, 'sg) crypto_lib \<Rightarrow> algorithm \<Rightarrow> bytes \<Rightarrow> crypto_error + 'sk keypair" where
  "keypair_from_bytes C P256 b = ok_or MalformedKey (map_option KP256 (sk_from_slice (p256 C) b))"
| "keypair_from_bytes C Secp256k1 b = ok_or MalformedKey (map_option KSecp256k1 (sk_from_slice (k256 C) b))"

fun keypair_to_bytes :: "('sk, 'vk, 'sg) crypto_lib \<Rightarrow> 'sk keypair \<Rightarrow> bytes" where
  "keypair_to_bytes C (KP256 k) = sk_to_bytes (p256 C) k"
| "keypair_to_bytes C (KSecp256k1 k) = sk_to_bytes (k256 C) k"

fun keypair_algorithm :: "'sk keypair \<Rightarrow> algorithm" where
  "keypair_algorithm (KP256 _) = P256"
| "keypair_algorithm (KSecp256k1 _) = Secp256k1"

fun public_of :: "('sk, 'vk, 'sg) crypto_lib \<Rightarrow> 'sk keypair \<Rightarrow> 'vk public_key" where
  "public_of C (KP256 k) = PP256 (verifying_key (p256 C) k)"
| "public_of C (KSecp256k1 k) = PSecp256k1 (verifying_key (k256 C) k)"

fun sign :: "('sk, 'vk, 'sg) crypto_lib \<Rightarrow> 'sk keypair \<Rightarrow> bytes \<Rightarrow> bytes" where
  "sign C (KP256 k) msg = sig_to_bytes (p256 C) (normalize_s (p256 C) (ecdsa_sign (p256 C) k msg))"
| "sign C (KSecp256k1 k) msg = sig_to_bytes (k256 C) (normalize_s (k256 C) (ecdsa_sign (k256 C) k msg))"

text \<open>The two arms of \<open>verify\<close> are one text over either crate.\<close>

definition verify_on :: "('sk, 'vk, 'sg) curve \<Rightarrow> 'vk \<Rightarrow> bytes \<Rightarrow> bytes \<Rightarrow> crypto_error + unit" where
  "verify_on cv k msg sig =
     bindE (ok_or MalformedSignature (sig_from_slice cv sig)) (\<lambda>g.
     if normalize_s cv g \<noteq> g then Inl HighS
     else if ecdsa_verify cv k msg g then Inr () else Inl BadSignature)"

fun verify :: "('sk, 'vk, 'sg) crypto_lib \<Rightarrow> 'vk public_key \<Rightarrow> bytes \<Rightarrow> bytes \<Rightarrow> crypto_error + unit" where
  "verify C (PP256 k) msg sig = verify_on (p256 C) k msg sig"
| "verify C (PSecp256k1 k) msg sig = verify_on (k256 C) k msg sig"

fun public_algorithm :: "'vk public_key \<Rightarrow> algorithm" where
  "public_algorithm (PP256 _) = P256"
| "public_algorithm (PSecp256k1 _) = Secp256k1"

fun to_multicodec :: "('sk, 'vk, 'sg) crypto_lib \<Rightarrow> 'vk public_key \<Rightarrow> bytes" where
  "to_multicodec C (PP256 k) = P256_PREFIX @ to_sec1_point (p256 C) k"
| "to_multicodec C (PSecp256k1 k) = SECP256K1_PREFIX @ to_sec1_point (k256 C) k"

definition from_multicodec :: "('sk, 'vk, 'sg) crypto_lib \<Rightarrow> bytes \<Rightarrow> crypto_error + 'vk public_key" where
  "from_multicodec C b =
     (if length b < 2 then Inl UnsupportedKey
      else
        let prefix = take 2 b; point = drop 2 b in
        if length point \<noteq> POINT_LEN then Inl UnsupportedKey
        else if prefix = P256_PREFIX then ok_or MalformedKey (map_option PP256 (from_sec1_bytes (p256 C) point))
        else if prefix = SECP256K1_PREFIX then ok_or MalformedKey (map_option PSecp256k1 (from_sec1_bytes (k256 C) point))
        else Inl UnsupportedKey)"

definition did_key :: "('sk, 'vk, 'sg) crypto_lib \<Rightarrow> 'vk public_key \<Rightarrow> string" where
  "did_key C k = ''did:key:z'' @ bs58_encode C (to_multicodec C k)"

definition did_key_from_str :: "('sk, 'vk, 'sg) crypto_lib \<Rightarrow> string \<Rightarrow> crypto_error + 'vk public_key" where
  "did_key_from_str C input =
     bindE (ok_or NotDidKey (strip_prefix ''did:key:z'' input)) (\<lambda>encoded.
     bindE (ok_or NotDidKey (bs58_decode C encoded)) (\<lambda>b.
     from_multicodec C b))"


section \<open>What the crates promise\<close>

text \<open>Scalars, points and signatures read back as they were written, at their lengths; a signature
  of a key, in either half of the curve, verifies under its public half.\<close>

definition curve_ok :: "('sk, 'vk, 'sg) curve \<Rightarrow> bool" where
  "curve_ok cv \<longleftrightarrow>
     (\<forall>k. sk_from_slice cv (sk_to_bytes cv k) = Some k)
     \<and> (\<forall>g. sig_from_slice cv (sig_to_bytes cv g) = Some g)
     \<and> (\<forall>g. normalize_s cv (normalize_s cv g) = normalize_s cv g)
     \<and> (\<forall>k msg. ecdsa_verify cv (verifying_key cv k) msg (normalize_s cv (ecdsa_sign cv k msg)))
     \<and> (\<forall>p. length (to_sec1_point cv p) = POINT_LEN \<and> from_sec1_bytes cv (to_sec1_point cv p) = Some p)"

definition crypto_ok :: "('sk, 'vk, 'sg) crypto_lib \<Rightarrow> bool" where
  "crypto_ok C \<longleftrightarrow> curve_ok (p256 C) \<and> curve_ok (k256 C) \<and> (\<forall>b. bs58_decode C (bs58_encode C b) = Some b)"


section \<open>Hexadecimal\<close>

lemma hex_digits:
  assumes "n < 16"
  shows "digit_value (hex_digit n) = n \<and> is_ascii_hexdigit (hex_digit n)"
proof -
  have "list_all (\<lambda>n. digit_value (hex_digit n) = n \<and> is_ascii_hexdigit (hex_digit n)) [0..<16]"
    by code_simp
  then show ?thesis using assms by (simp add: list_all_iff)
qed

lemma of_char_less: "(of_char b :: nat) < 256"
  by simp

lemma unhex_pairs_hex: "unhex_pairs (to_hex bs) = bs"
proof (induction bs)
  case (Cons b bs)
  have "(of_char b :: nat) div 16 < 16" using of_char_less [of b] by linarith
  then show ?case using Cons hex_digits [of "of_char b div 16"] hex_digits [of "of_char b mod 16"]
    by (simp add: to_hex_def hex_byte_def)
qed (simp add: to_hex_def)

lemma to_hex_digits: "list_all is_ascii_hexdigit (to_hex bs) \<and> length (to_hex bs) = 2 * length bs"
proof (induction bs)
  case (Cons b bs)
  have "(of_char b :: nat) div 16 < 16" using of_char_less [of b] by linarith
  then show ?case using Cons hex_digits [of "of_char b div 16"] hex_digits [of "of_char b mod 16"]
    by (simp add: to_hex_def hex_byte_def)
qed (simp add: to_hex_def)

text \<open>\<open>unhex\<close> reads back every byte string \<open>hex\<close> writes.\<close>

theorem unhex_hex: "unhex (to_hex bs) = Some bs"
  using to_hex_digits [of bs] by (simp add: unhex_def unhex_pairs_hex)


section \<open>Comparison\<close>

lemma byte_word_eq: "byte_word a = byte_word b \<longleftrightarrow> a = b"
proof
  assume "byte_word a = byte_word b"
  then have "unat (byte_word a) = unat (byte_word b)" by simp
  then have "(of_char a :: nat) = of_char b" by (simp add: byte_word_def unat_of_nat)
  then show "a = b" by simp
qed simp

lemma fold_differences:
  "fold (\<lambda>(a, b) d. d OR (byte_word a XOR byte_word b)) zs d = 0 \<longleftrightarrow> d = 0 \<and> (\<forall>(a, b) \<in> set zs. a = b)"
proof (induction zs arbitrary: d)
  case (Cons z zs)
  obtain a b where z: "z = (a, b)" by fastforce
  have "byte_word a XOR byte_word b = 0 \<longleftrightarrow> a = b"
    by (metis byte_word_eq xor_self_eq xor.assoc xor.left_neutral)
  then show ?case using Cons z by (auto simp: or_eq_0_iff)
qed simp

text \<open>\<open>same\<close>, which looks at every byte whatever it finds, is equality.\<close>

theorem same_iff: "same l r \<longleftrightarrow> l = r"
proof -
  have "(\<forall>(a, b) \<in> set (zip l r). a = b) \<longleftrightarrow> l = r" if "length l = length r"
    using that by (induction l r rule: list_induct2) auto
  then show ?thesis by (auto simp: same_def fold_differences)
qed


section \<open>Base 32\<close>

text \<open>The encoding as RFC 4648 has it: the bits of the bytes, five at a time, the last group filled
  up with zeros.\<close>

definition bval :: "bool list \<Rightarrow> nat" where
  "bval bs = foldl (\<lambda>v b. 2 * v + of_bool b) 0 bs"

definition byte_bits :: "byte \<Rightarrow> bool list" where
  "byte_bits b = map (\<lambda>i. odd ((of_char b :: nat) div 2 ^ (7 - i))) [0..<8]"

function quintets :: "bool list \<Rightarrow> nat list" where
  "quintets bs = (if bs = [] then [] else bval (take 5 (bs @ replicate 4 False)) # quintets (drop 5 bs))"
  by pat_completeness auto
termination by (relation "measure length") auto

declare quintets.simps [simp del]

lemma quintets_Nil [simp]: "quintets [] = []"
  by (simp add: quintets.simps)

lemma foldl_bits: "foldl (\<lambda>v b. 2 * v + of_bool b) a bs = a * 2 ^ length bs + foldl (\<lambda>v b. 2 * v + of_bool b) (0 :: nat) bs"
proof (induction bs arbitrary: a)
  case (Cons b bs)
  show ?case
    using Cons [of "2 * a + of_bool b"] Cons [of "of_bool b"] by (simp add: algebra_simps)
qed simp

lemma bval_append: "bval (xs @ ys) = bval xs * 2 ^ length ys + bval ys"
  unfolding bval_def foldl_append by (rule foldl_bits)

lemma bval_less: "bval xs < 2 ^ length xs"
proof (induction xs rule: rev_induct)
  case (snoc b xs)
  then show ?case by (simp add: bval_append) (simp add: bval_def)
qed (simp add: bval_def)

lemma bval_drop: "k \<le> length xs \<Longrightarrow> bval (drop k xs) = bval xs mod 2 ^ (length xs - k)"
  using bval_append [of "take k xs" "drop k xs"] bval_less [of "drop k xs"] by simp

lemma bval_take: "k \<le> length xs \<Longrightarrow> bval (take k xs) = bval xs div 2 ^ (length xs - k)"
  using bval_append [of "take k xs" "drop k xs"] bval_less [of "drop k xs"] by simp

lemma bval_zeros: "bval (replicate k False) = 0"
  by (induction k) (simp_all add: bval_def)

lemma bval_bits: "bval (map (\<lambda>i. odd (n div 2 ^ (k - Suc i))) [0..<k]) = n mod 2 ^ k"
proof (induction k arbitrary: n)
  case (Suc k)
  let ?f = "\<lambda>i. odd (n div 2 ^ (Suc k - Suc i))"
  have m: "map ?f [0..<k] = map (\<lambda>i. odd (n div 2 div 2 ^ (k - Suc i))) [0..<k]"
  proof (rule map_cong [OF refl])
    fix i assume "i \<in> set [0..<k]"
    then have "(2 :: nat) ^ (Suc k - Suc i) = 2 * 2 ^ (k - Suc i)" by (simp flip: power_Suc add: Suc_diff_Suc)
    then show "odd (n div 2 ^ (Suc k - Suc i)) = odd (n div 2 div 2 ^ (k - Suc i))" by (simp add: div_mult2_eq)
  qed
  have "bval (map ?f [0..<Suc k]) = bval (map ?f [0..<k] @ [odd n])" by simp
  also have "\<dots> = 2 * (n div 2 mod 2 ^ k) + of_bool (odd n)"
    unfolding bval_append m Suc by (simp add: bval_def)
  also have "\<dots> = n mod 2 ^ Suc k" by (simp add: mod_mult2_eq mod2_eq_if)
  finally show ?case .
qed (simp add: bval_def)

lemma bval_byte_bits: "bval (byte_bits b) = of_char b"
proof -
  have "byte_bits b = map (\<lambda>i. odd ((of_char b :: nat) div 2 ^ (8 - Suc i))) [0..<8]" by (simp add: byte_bits_def)
  then show ?thesis using bval_bits [of "of_char b" 8] of_char_less [of b] by simp
qed

lemma length_byte_bits [simp]: "length (byte_bits b) = 8"
  by (simp add: byte_bits_def)

lemma quintets_Cons:
  assumes "5 \<le> length r"
  shows "quintets (r @ s) = bval (take 5 r) # quintets (drop 5 r @ s)"
proof -
  have "r \<noteq> []" using assms by auto
  then show ?thesis using assms by (subst quintets.simps) simp
qed

lemma masked: "unat ((w :: 32 word) AND 31) = unat w mod 32"
proof -
  have "w AND 31 = take_bit 5 w" by (simp add: take_bit_eq_mask mask_eq_exp_minus_1)
  then show ?thesis by (simp only: unsigned_take_bit_eq) (simp add: take_bit_eq_mod)
qed

text \<open>The buffer's low \<open>bits\<close> bits are what has not been written yet; what is above them, and
  what the shift pushes out of the word, is never looked at.\<close>

lemma push_ok:
  assumes "length r = n" "unat buffer mod 2 ^ n = bval r"
  shows "\<exists>out r'. base32_push buffer n = (map (nth ALPHABET) out, length r') \<and> length r' < 5
    \<and> unat buffer mod 2 ^ length r' = bval r' \<and> (\<forall>s. quintets (r @ s) = out @ quintets (r' @ s))"
  using assms
proof (induction n arbitrary: r rule: less_induct)
  case (less n)
  show ?case
  proof (cases "5 \<le> n")
    case True
    let ?k = "n - 5"
    have n: "(2 :: nat) ^ n = 2 ^ ?k * 32" using True power_add [of "2 :: nat" ?k 5] by simp
    have v: "unat buffer mod 2 ^ ?k = bval (drop 5 r)"
      using less.prems True bval_drop [of 5 r] n by (metis mod_mult_self2_is_0 mod_mod_cancel dvd_triv_left)
    have "unat (drop_bit ?k buffer AND 31) = unat buffer div 2 ^ ?k mod 32"
      by (simp only: masked unat_drop_bit_eq) (simp add: drop_bit_eq_div)
    also have "\<dots> = (unat buffer mod 2 ^ n) div 2 ^ ?k" using n by (simp add: mod_mult2_eq)
    also have "\<dots> = bval (take 5 r)" using less.prems True bval_take [of 5 r] by simp
    finally have d: "unat (drop_bit ?k buffer AND 31) = bval (take 5 r)" .
    obtain out r' where ih: "base32_push buffer ?k = (map (nth ALPHABET) out, length r')" "length r' < 5"
        "unat buffer mod 2 ^ length r' = bval r'" "\<And>s. quintets (drop 5 r @ s) = out @ quintets (r' @ s)"
      using less.IH [of ?k "drop 5 r"] True less.prems(1) v by auto
    have "base32_push buffer n = (map (nth ALPHABET) (bval (take 5 r) # out), length r')"
      using True ih(1) d by (subst base32_push.simps) (simp add: Let_def)
    moreover have "quintets (r @ s) = (bval (take 5 r) # out) @ quintets (r' @ s)" for s
      using quintets_Cons [of r s] True less.prems(1) ih(4) [of s] by simp
    ultimately show ?thesis using ih(2,3) by blast
  next
    case False
    then have "base32_push buffer n = ([], n)" by (subst base32_push.simps) simp
    then show ?thesis using less.prems False by (intro exI [of _ "[]"] exI [of _ r]) simp
  qed
qed


lemma shift_in:
  assumes "unat buffer mod 2 ^ n = bval r" "length r = n" "n < 5"
  shows "unat (push_bit 8 buffer OR of_nat (of_char b) :: 32 word) mod 2 ^ (n + 8) = bval (r @ byte_bits b)"
proof -
  let ?b = "of_char b :: nat"
  have "unat (push_bit 8 buffer OR of_nat ?b :: 32 word) = push_bit 8 (unat buffer) mod 2 ^ 32 OR ?b"
  proof -
    have "?b mod 4294967296 = ?b" using of_char_less [of b] by (intro mod_less) linarith
    then show ?thesis by (simp add: unsigned_or_eq unsigned_push_bit_eq unsigned_of_nat take_bit_eq_mod)
  qed
  then have "unat (push_bit 8 buffer OR of_nat ?b :: 32 word) mod 2 ^ (n + 8)
      = take_bit (n + 8) (take_bit 32 (push_bit 8 (unat buffer)) OR ?b)"
    by (simp only: take_bit_eq_mod)
  also have "\<dots> = push_bit 8 (take_bit n (unat buffer)) OR take_bit (n + 8) ?b"
    using assms(3) by (simp add: take_bit_push_bit)
  also have "take_bit (n + 8) ?b = ?b"
  proof -
    have "(256 :: nat) \<le> 2 ^ (n + 8)" by (simp add: power_add)
    then show ?thesis using of_char_less [of b] by (intro take_bit_nat_eq_self) linarith
  qed
  also have "push_bit 8 (take_bit n (unat buffer)) OR ?b = push_bit 8 (take_bit n (unat buffer)) + ?b"
  proof (rule disjunctive_add_eq_or [symmetric], rule bit_eqI)
    fix k
    have "\<not> bit ?b k" if "8 \<le> k"
    proof -
      have "(256 :: nat) \<le> 2 ^ k" using that power_increasing [of 8 k "2 :: nat"] by simp
      then have "?b div 2 ^ k = 0" using of_char_less [of b] by (intro div_less) linarith
      then show ?thesis by (simp add: bit_iff_odd)
    qed
    then show "bit (push_bit 8 (take_bit n (unat buffer)) AND ?b) k = bit 0 k"
      by (auto simp: bit_and_iff bit_push_bit_iff)
  qed
  also have "\<dots> = bval (r @ byte_bits b)"
    using assms(1) by (simp add: bval_append bval_byte_bits push_bit_eq_mult take_bit_eq_mod)
  finally show ?thesis .
qed

lemma base32_loop_ok:
  assumes "unat buffer mod 2 ^ n = bval r" "length r = n" "n < 5"
  shows "base32_loop buffer n bs = map (nth ALPHABET) (quintets (r @ concat (map byte_bits bs)))"
  using assms
proof (induction bs arbitrary: buffer n r)
  case Nil
  show ?case
  proof (cases "r = []")
    case False
    let ?k = "5 - n"
    have len: "length (r @ replicate ?k False) = 5" using Nil.prems by simp
    have "unat (push_bit ?k buffer AND 31) = 2 ^ ?k * unat buffer mod 2 ^ 32 mod 32"
      by (simp only: masked unsigned_push_bit_eq) (simp add: take_bit_eq_mod push_bit_eq_mult mult.commute)
    also have "\<dots> = 2 ^ ?k * unat buffer mod (2 ^ ?k * 2 ^ n)"
      using Nil.prems(3) by (simp add: mod_mod_cancel flip: power_add)
    also have "\<dots> = bval r * 2 ^ ?k" using Nil.prems(1) by (simp flip: mult_mod_right)
    also have "\<dots> = bval (r @ replicate ?k False)" by (simp add: bval_append bval_zeros)
    also have "r @ replicate ?k False = take 5 (r @ replicate 4 False)"
      using Nil.prems(2,3) False by (cases n) (auto simp: min_def)
    finally have "unat (push_bit ?k buffer AND 31) = bval (take 5 (r @ replicate 4 False))" .
    moreover have "quintets r = [bval (take 5 (r @ replicate 4 False))]"
      using False Nil.prems by (subst quintets.simps) simp
    moreover have "0 < n" using Nil.prems(2) False by auto
    ultimately show ?thesis by simp
  qed (use Nil in simp)
next
  case (Cons b bs)
  let ?buffer = "push_bit 8 buffer OR of_nat (of_char b) :: 32 word"
  have "unat ?buffer mod 2 ^ (n + 8) = bval (r @ byte_bits b)" by (rule shift_in [OF Cons.prems])
  then obtain out r' where p: "base32_push ?buffer (n + 8) = (map (nth ALPHABET) out, length r')" "length r' < 5"
      "unat ?buffer mod 2 ^ length r' = bval r'" "\<And>s. quintets ((r @ byte_bits b) @ s) = out @ quintets (r' @ s)"
    using push_ok [of "r @ byte_bits b" "n + 8" ?buffer] Cons.prems(2) by auto
  then show ?case using Cons.IH [OF p(3) refl p(2)] p(4) [of "concat (map byte_bits bs)"] by (simp add: Let_def)
qed

text \<open>\<open>base32\<close>, which keeps its bits in a word that overflows and never masks it, writes the
  RFC 4648 encoding without padding.\<close>

theorem base32_rfc4648: "base32 bs = map (\<lambda>v. ALPHABET ! v) (quintets (concat (map byte_bits bs)))"
  using base32_loop_ok [of 0 0 "[]" bs] by (simp add: base32_def bval_def)


section \<open>Keys and signatures\<close>

lemma verify_own:
  assumes "curve_ok cv"
  shows "verify_on cv (verifying_key cv k) msg (sig_to_bytes cv (normalize_s cv (ecdsa_sign cv k msg))) = Inr ()"
  using assms by (simp add: verify_on_def curve_ok_def)

lemma verify_own_key:
  assumes "crypto_ok C"
  shows "verify C (public_of C k) msg (sign C k msg) = Inr ()"
  using assms by (cases k) (simp_all add: crypto_ok_def verify_own)

text \<open>a signature this server makes verifies under the key's public half, on either curve.\<close>

theorem sign_then_verify:
  assumes "crypto_ok C"
  shows "verify C (public_of C k) msg (sign C k msg) = Inr ()"
  by (rule verify_own_key [OF assms])

text \<open>of the two signatures that differ only in which half of the curve they use, \<open>verify\<close>
  accepts at most one: the bytes it accepts are those of a signature that is its own normal form.\<close>

theorem verify_low_half:
  assumes "verify C key msg sig = Inr ()"
  shows "\<exists>g. case key of
      PP256 k \<Rightarrow> sig_from_slice (p256 C) sig = Some g \<and> normalize_s (p256 C) g = g \<and> ecdsa_verify (p256 C) k msg g
    | PSecp256k1 k \<Rightarrow> sig_from_slice (k256 C) sig = Some g \<and> normalize_s (k256 C) g = g \<and> ecdsa_verify (k256 C) k msg g"
  using assms by (cases key) (auto simp: verify_on_def result_simps split: if_splits)

lemma multicodec_roundtrip:
  assumes "crypto_ok C"
  shows "from_multicodec C (to_multicodec C k) = Inr k"
  using assms
  by (cases k) (simp_all add: crypto_ok_def curve_ok_def from_multicodec_def P256_PREFIX_def SECP256K1_PREFIX_def)

text \<open>a public key is read back from the \<open>did:key\<close> it is written as, and a signing key from
  its bytes on its own curve.\<close>

theorem keys_roundtrip:
  assumes "crypto_ok C"
  shows "did_key_from_str C (did_key C key) = Inr key
    \<and> keypair_from_bytes C (keypair_algorithm pair) (keypair_to_bytes C pair) = Inr pair
    \<and> public_algorithm (public_of C pair) = keypair_algorithm pair"
  using assms multicodec_roundtrip [OF assms, of key]
  by (cases pair) (simp_all add: did_key_def did_key_from_str_def crypto_ok_def curve_ok_def
    strip_prefix_append [of "''did:key:z''", simplified])

text \<open>A curve for the examples: a key is a bit, a signature is a half and the message.\<close>

definition toy_curve :: "(bool, bool, bool \<times> bytes) curve" where
  "toy_curve = \<lparr>sk_from_slice = (\<lambda>b. Some (b = [CHR 0x01])), sk_to_bytes = (\<lambda>k. [if k then CHR 0x01 else CHR 0x00]),
     verifying_key = id, ecdsa_sign = (\<lambda>k msg. (True, msg)), normalize_s = (\<lambda>(h, msg). (False, msg)),
     sig_to_bytes = (\<lambda>(h, msg). (if h then CHR 0x01 else CHR 0x00) # msg),
     sig_from_slice = (\<lambda>b. Some (hd b = CHR 0x01, tl b)), ecdsa_verify = (\<lambda>k msg (h, m). m = msg),
     to_sec1_point = (\<lambda>p. (if p then CHR 0x01 else CHR 0x00) # replicate 32 CHR 0x00),
     from_sec1_bytes = (\<lambda>b. Some (hd b = CHR 0x01))\<rparr>"

definition toy_crypto :: "(bool, bool, bool \<times> bytes) crypto_lib" where
  "toy_crypto = \<lparr>p256 = toy_curve, k256 = toy_curve, bs58_encode = id, bs58_decode = Some\<rparr>"

lemma toy_crypto_ok: "crypto_ok toy_crypto"
  by (simp add: crypto_ok_def curve_ok_def toy_crypto_def toy_curve_def POINT_LEN_def split: prod.splits)

theorem sign_then_verify_witness:
  "verify toy_crypto (public_of toy_crypto (KP256 True)) ''m'' (sign toy_crypto (KP256 True) ''m'') = Inr ()"
  by (rule sign_then_verify [OF toy_crypto_ok])

theorem verify_low_half_witness:
  "\<exists>g. sig_from_slice (p256 toy_crypto) (CHR 0x00 # ''m'') = Some g \<and> normalize_s (p256 toy_crypto) g = g
     \<and> ecdsa_verify (p256 toy_crypto) True ''m'' g"
  using verify_low_half [of toy_crypto "PP256 True" "''m''" "CHR 0x00 # ''m''"]
  by (simp add: verify_on_def toy_crypto_def toy_curve_def)

theorem keys_roundtrip_witness:
  "did_key_from_str toy_crypto (did_key toy_crypto (PP256 True)) = Inr (PP256 True)"
  using keys_roundtrip [OF toy_crypto_ok] by blast

end
