(* ===== verification/Block.thy ===== *)
theory Block
  imports Tid Crypto
begin

text \<open>
  Blocks, \<open>src/repo/block.rs\<close>, and the repository errors of \<open>src/repo.rs\<close>.

  A CID is a value of a type variable \<open>'c\<close> in class \<open>linorder\<close>: the \<open>cid\<close> crate's type, of which
  the source uses equality, order and the functions below. The functions of other crates are
  the fields of a record \<open>'c lib\<close> the definitions take as an argument: \<open>sha256\<close> is
  \<open>sha2::Sha256::digest\<close>, \<open>new_v1\<close> is \<open>Cid::new_v1(codec, Multihash::wrap(code, digest))\<close>.
  \<open>serde_ipld_dagcbor::to_vec\<close> and \<open>from_slice\<close> are passed per type they are used at.
\<close>

section \<open>Errors\<close>

datatype 'c repo_error =
    MissingBlock 'c
  | Encode string
  | Decode string
  | InvalidKey string
  | KeyExists string
  | KeyMissing string
  | MalformedNode string
  | WrongVersion nat
  | SignatureError crypto_error
  | MalformedCar string
  | WrongCid 'c
  | StoreFailed string
  | StoreBusy
  | NotRecordData string
  | NoRevisionAfter tid

fun error_sent :: "'c repo_error \<Rightarrow> bool" where
  "error_sent (NotRecordData _) = True"
| "error_sent _ = False"

fun error_busy :: "'c repo_error \<Rightarrow> bool" where
  "error_busy StoreBusy = True"
| "error_busy _ = False"


section \<open>Encoding and addressing\<close>

record 'c lib =
  sha256 :: "bytes \<Rightarrow> bytes"
  new_v1 :: "nat \<Rightarrow> nat \<Rightarrow> bytes \<Rightarrow> 'c"

definition DAG_CBOR :: nat where "DAG_CBOR = 113"
definition SHA2_256 :: nat where "SHA2_256 = 18"

definition cid_for :: "('c, 'l) lib_scheme \<Rightarrow> bytes \<Rightarrow> 'c" where
  "cid_for L b = new_v1 L DAG_CBOR SHA2_256 (sha256 L b)"

definition encode :: "('v \<Rightarrow> string + bytes) \<Rightarrow> 'v \<Rightarrow> 'c repo_error + bytes" where
  "encode to_vec v = map_err Encode (to_vec v)"

definition decode :: "(bytes \<Rightarrow> string + 'v) \<Rightarrow> bytes \<Rightarrow> 'c repo_error + 'v" where
  "decode from_slice b = map_err Decode (from_slice b)"


section \<open>Stores\<close>

text \<open>The trait \<open>Store\<close>: a value is its two methods.\<close>

record 'c store =
  store_get :: "'c \<Rightarrow> 'c repo_error + bytes"
  store_contains :: "'c \<Rightarrow> 'c repo_error + bool"

definition read_block ::
    "'c store \<Rightarrow> (bytes \<Rightarrow> string + 'v) \<Rightarrow> 'c \<Rightarrow> 'c repo_error + 'v" where
  "read_block st from_slice c = bindE (store_get st c) (decode from_slice)"

text \<open>\<open>BlockMap\<close>: a \<open>BTreeMap<Cid, Vec<u8>>\<close>.\<close>

type_synonym 'c block_map = "('c \<times> bytes) list"

definition bm_insert :: "'c::linorder \<Rightarrow> bytes \<Rightarrow> 'c block_map \<Rightarrow> 'c block_map" where
  "bm_insert c b m = al_upd c b m"

definition bm_add ::
    "('c::linorder, 'l) lib_scheme \<Rightarrow> ('v \<Rightarrow> string + bytes) \<Rightarrow> 'v \<Rightarrow> 'c block_map
      \<Rightarrow> 'c repo_error + ('c \<times> 'c block_map)" where
  "bm_add L to_vec v m =
     bindE (encode to_vec v) (\<lambda>b. let c = cid_for L b in Inr (c, bm_insert c b m))"

definition bm_merge :: "'c::linorder block_map \<Rightarrow> 'c block_map \<Rightarrow> 'c block_map" where
  "bm_merge m other = fold (\<lambda>(c, b). bm_insert c b) other m"

definition bm_len :: "'c block_map \<Rightarrow> nat" where
  "bm_len m = length m"

definition bm_is_empty :: "'c block_map \<Rightarrow> bool" where
  "bm_is_empty m \<longleftrightarrow> m = []"

definition bm_get :: "'c block_map \<Rightarrow> 'c \<Rightarrow> 'c repo_error + bytes" where
  "bm_get m c = ok_or (MissingBlock c) (map_of m c)"

definition bm_contains :: "'c block_map \<Rightarrow> 'c \<Rightarrow> 'c repo_error + bool" where
  "bm_contains m c = Inr (map_of m c \<noteq> None)"

definition bm_store :: "'c block_map \<Rightarrow> 'c store" where
  "bm_store m = \<lparr>store_get = bm_get m, store_contains = bm_contains m\<rparr>"


section \<open>The contract of a store\<close>

text \<open>
  What the tree relies on: reading answers from one partial map, a missing block is reported as
  missing, and \<open>contains\<close> agrees with reading.
\<close>

locale block_store =
  fixes st :: "'c store" and M :: "'c \<Rightarrow> bytes option"
  assumes get_eq: "store_get st c = ok_or (MissingBlock c) (M c)"
    and contains_eq: "store_contains st c = Inr (M c \<noteq> None)"
begin

lemma read_block_Inr:
  "read_block st f c = Inr v \<longleftrightarrow> (\<exists>b. M c = Some b \<and> f b = Inr v)"
  by (auto simp: read_block_def decode_def get_eq result_simps)

lemma read_block_missing: "M c = None \<Longrightarrow> read_block st f c = Inl (MissingBlock c)"
  by (simp add: read_block_def get_eq)

lemma read_block_present: "M c = Some b \<Longrightarrow> read_block st f c = decode f b"
  by (simp add: read_block_def get_eq)

end

interpretation bm: block_store "bm_store m" "map_of m" for m
  by unfold_locales (simp_all add: bm_store_def bm_get_def bm_contains_def)


section \<open>Block maps\<close>

lemma map_of_bm_insert [simp]: "map_of (bm_insert c b m) = (map_of m)(c \<mapsto> b)"
  by (simp add: bm_insert_def)

lemma ascending_bm_insert [simp]: "ascending m \<Longrightarrow> ascending (bm_insert c b m)"
  by (simp add: bm_insert_def ascending_al_upd)

lemma bm_merge_simps [simp]:
  "bm_merge m [] = m"
  "bm_merge m ((c, b) # other) = bm_merge (bm_insert c b m) other"
  by (simp_all add: bm_merge_def)

lemma ascending_bm_merge: "ascending m \<Longrightarrow> ascending (bm_merge m other)"
  by (induction other arbitrary: m) auto

lemma map_of_bm_merge:
  "ascending other \<Longrightarrow> map_of (bm_merge m other) = map_of m ++ map_of other"
proof (induction other arbitrary: m)
  case (Cons p other)
  obtain c b where p: "p = (c, b)" by fastforce
  with Cons.prems have "c \<notin> dom (map_of other)"
    using ascending_not_key [of c b other] by (simp add: dom_map_of_conv_image_fst)
  with Cons p show ?case by (auto simp: fun_eq_iff map_add_def split: option.splits)
qed simp

lemma bm_add_Inr:
  "bm_add L to_vec v m = Inr (c, m') \<longleftrightarrow>
     (\<exists>b. to_vec v = Inr b \<and> c = cid_for L b \<and> m' = bm_insert c b m)"
  by (auto simp: bm_add_def encode_def result_simps Let_def)

end
