(* ===== verification/Mst.thy ===== *)
theory Mst
  imports Block
begin

text \<open>
  The Merkle search tree, \<open>src/repo/mst.rs\<close>: its data and every operation but the walk of two
  trees (\<open>dropped\<close>).

  A \<open>Reader\<close> is a store, a depth and the set of nodes already read. The store is an argument;
  the depth is held by the \<open>Descent\<close> guards of the frames that are open, so it is the number of
  levels left, \<open>MAX_DEPTH\<close> less the open frames: a function that descends recurses on it and
  \<open>0\<close> is the refusal of \<open>Reader::descend\<close>. The set \<open>seen\<close> is passed in and handed back.

  \<open>&mut self\<close> methods hand back the changed node beside their answer. A call that fails hands
  back only its error: every caller in the repository drops the tree it failed on.
\<close>

section \<open>Data\<close>

definition MAX_DEPTH :: nat where "MAX_DEPTH = 256"
definition MAX_KEY_LEN :: nat where "MAX_KEY_LEN = 1024"

record 'c leaf =
  lkey :: string
  lvalue :: 'c

datatype 'c mst =
    Mst (m_entries: "'c entry list option") (m_layer: "nat option") (m_pointer: "'c option")
and 'c entry =
    ELeaf "'c leaf"
  | ETree "'c mst"

record 'c tree_entry =
  te_p :: nat
  te_k :: bytes
  te_v :: 'c
  te_t :: "'c option"

record 'c node_data =
  nd_l :: "'c option"
  nd_e :: "'c tree_entry list"

text \<open>The codec of stored nodes: \<open>serde_ipld_dagcbor\<close> at the type \<open>NodeData\<close>.\<close>

record 'c mst_lib = "'c lib" +
  node_to_vec :: "'c node_data \<Rightarrow> string + bytes"
  node_from_slice :: "bytes \<Rightarrow> string + 'c node_data"

abbreviation too_deep :: "'c repo_error" where
  "too_deep \<equiv> MalformedNode ''a tree deeper than its keys allow''"

definition mst_empty :: "'c mst" where
  "mst_empty = Mst (Some []) None None"

definition mst_load :: "'c \<Rightarrow> 'c mst" where
  "mst_load root = Mst None None (Some root)"

definition from_entries :: "'c entry list \<Rightarrow> nat option \<Rightarrow> 'c mst" where
  "from_entries es lay = Mst (Some es) lay None"

definition set_entries :: "'c mst \<Rightarrow> 'c entry list \<Rightarrow> 'c mst" where
  "set_entries t es = Mst (Some es) (m_layer t) (m_pointer t)"


section \<open>Keys and their layers\<close>

text \<open>\<open>u8::leading_zeros\<close>.\<close>

definition byte_leading_zeros :: "byte \<Rightarrow> nat" where
  "byte_leading_zeros b =
     (let n = (of_char b :: nat) in
      if n \<ge> 128 then 0 else if n \<ge> 64 then 1 else if n \<ge> 32 then 2 else if n \<ge> 16 then 3
      else if n \<ge> 8 then 4 else if n \<ge> 4 then 5 else if n \<ge> 2 then 6 else if n \<ge> 1 then 7 else 8)"

fun zero_pairs :: "bytes \<Rightarrow> nat" where
  "zero_pairs [] = 0"
| "zero_pairs (b # bs) =
     byte_leading_zeros b div 2 + (if (of_char b :: nat) \<noteq> 0 then 0 else zero_pairs bs)"

definition leading_zeros :: "('c, 'l) lib_scheme \<Rightarrow> string \<Rightarrow> nat" where
  "leading_zeros L key = zero_pairs (sha256 L key)"

fun shared_prefix :: "string \<Rightarrow> string \<Rightarrow> nat" where
  "shared_prefix (a # as) (b # bs) = (if a = b then Suc (shared_prefix as bs) else 0)"
| "shared_prefix _ _ = 0"

definition is_key_byte :: "byte \<Rightarrow> bool" where
  "is_key_byte b \<longleftrightarrow> is_ascii_alphanumeric b \<or> b \<in> set ''_~-:.''"

definition valid_key :: "string \<Rightarrow> bool" where
  "valid_key key =
     (case split_on CHR ''/'' key of
        [col, rk] \<Rightarrow>
          length key \<le> MAX_KEY_LEN \<and> col \<noteq> [] \<and> rk \<noteq> []
          \<and> list_all (\<lambda>b. b = CHR ''/'' \<or> is_key_byte b) key
      | _ \<Rightarrow> False)"

definition ensure_valid_key :: "string \<Rightarrow> 'c repo_error + unit" where
  "ensure_valid_key key = (if valid_key key then Inr () else Inl (InvalidKey key))"


section \<open>Nodes as they are stored\<close>

text \<open>\<open>str::get(..n)\<close>: a prefix that ends on a character boundary.\<close>

definition is_char_boundary :: "string \<Rightarrow> nat \<Rightarrow> bool" where
  "is_char_boundary s n \<longleftrightarrow> n = 0 \<or> n = length s \<or> (n < length s \<and> \<not> utf8_tail (s ! n))"

definition str_prefix :: "string \<Rightarrow> nat \<Rightarrow> string option" where
  "str_prefix s n = (if is_char_boundary s n then Some (take n s) else None)"

definition unread :: "nat option \<Rightarrow> 'c \<Rightarrow> 'c entry" where
  "unread sublay c = ETree (Mst None sublay (Some c))"

fun deser_entries ::
    "nat option \<Rightarrow> string \<Rightarrow> 'c tree_entry list \<Rightarrow> 'c repo_error + 'c entry list" where
  "deser_entries sublay prior [] = Inr []"
| "deser_entries sublay prior (e # es) =
     (if \<not> is_utf8 (te_k e) then Inl (MalformedNode ''a key that is not text'')
      else
        bindE (ok_or (MalformedNode ''a prefix longer than the key before it'')
                 (str_prefix prior (te_p e))) (\<lambda>shared.
        let key = shared @ te_k e in
        bindE (ensure_valid_key key) (\<lambda>_.
        bindE (deser_entries sublay key es) (\<lambda>rest.
        Inr (ELeaf \<lparr>lkey = key, lvalue = te_v e\<rparr>
             # (case te_t e of None \<Rightarrow> [] | Some c \<Rightarrow> [unread sublay c]) @ rest)))))"

definition deserialize :: "'c node_data \<Rightarrow> nat option \<Rightarrow> 'c repo_error + 'c entry list" where
  "deserialize data lay =
     (let sublay = Option.bind lay (\<lambda>l. case l of 0 \<Rightarrow> None | Suc k \<Rightarrow> Some k) in
      bindE (deser_entries sublay [] (nd_e data)) (\<lambda>rest.
      Inr ((case nd_l data of None \<Rightarrow> [] | Some c \<Rightarrow> [unread sublay c]) @ rest)))"

text \<open>\<open>Reader::node\<close>: a node this traversal has been through is refused.\<close>

definition reader_node ::
    "('c, 'l) mst_lib_scheme \<Rightarrow> 'c store \<Rightarrow> 'c \<Rightarrow> 'c set \<Rightarrow> 'c repo_error + ('c node_data \<times> 'c set)" where
  "reader_node L st c seen =
     (if c \<in> seen then Inl (MalformedNode ''a node under itself'')
      else bindE (read_block st (node_from_slice L) c) (\<lambda>data. Inr (data, insert c seen)))"

definition fill ::
    "('c, 'l) mst_lib_scheme \<Rightarrow> 'c store \<Rightarrow> 'c mst \<Rightarrow> 'c set \<Rightarrow> 'c repo_error + ('c mst \<times> 'c set)" where
  "fill L st t seen =
     (case m_entries t of
        Some _ \<Rightarrow> Inr (t, seen)
      | None \<Rightarrow>
          bindE (ok_or (MalformedNode ''a node with neither contents nor CID'') (m_pointer t)) (\<lambda>c.
          bindE (reader_node L st c seen) (\<lambda>(data, seen).
          let lay = map_option (\<lambda>e. leading_zeros L (te_k e)) (getopt (nd_e data) 0) in
          bindE (deserialize data lay) (\<lambda>es. Inr (set_entries t es, seen)))))"

definition the_entries :: "'c mst \<Rightarrow> 'c entry list" where
  "the_entries t = (case m_entries t of Some es \<Rightarrow> es | None \<Rightarrow> [])"

text \<open>\<open>entries\<close> and \<open>take_entries\<close>: fill, then the entries, which are there by then.\<close>

definition entries_in ::
    "('c, 'l) mst_lib_scheme \<Rightarrow> 'c store \<Rightarrow> 'c mst \<Rightarrow> 'c set
      \<Rightarrow> 'c repo_error + ('c entry list \<times> 'c mst \<times> 'c set)" where
  "entries_in L st t seen = bindE (fill L st t seen) (\<lambda>(t, seen). Inr (the_entries t, t, seen))"


section \<open>Reading\<close>

text \<open>The first layer a key of this node gives away.\<close>

fun first_leaf_zeros :: "('c, 'l) lib_scheme \<Rightarrow> 'c entry list \<Rightarrow> nat option" where
  "first_leaf_zeros L [] = None"
| "first_leaf_zeros L (ELeaf l # es) = Some (leading_zeros L (lkey l))"
| "first_leaf_zeros L (ETree t # es) = first_leaf_zeros L es"

text \<open>The loop over the subtrees: the first that knows its layer ends it.\<close>

fun scan_layer ::
    "('c mst \<Rightarrow> 'c set \<Rightarrow> 'c repo_error + (nat option \<times> 'c mst \<times> 'c set)) \<Rightarrow> 'c entry list \<Rightarrow> 'c set
      \<Rightarrow> 'c repo_error + (nat option \<times> 'c entry list \<times> 'c set)" where
  "scan_layer f [] seen = Inr (None, [], seen)"
| "scan_layer f (ELeaf l # es) seen =
     bindE (scan_layer f es seen) (\<lambda>(lay, es, seen). Inr (lay, ELeaf l # es, seen))"
| "scan_layer f (ETree t # es) seen =
     bindE (f t seen) (\<lambda>(sublay, t, seen).
       case sublay of
         Some u \<Rightarrow> Inr (Some (u + 1), ETree t # es, seen)
       | None \<Rightarrow> bindE (scan_layer f es seen) (\<lambda>(lay, es, seen). Inr (lay, ETree t # es, seen)))"

fun find_layer ::
    "nat \<Rightarrow> ('c, 'l) mst_lib_scheme \<Rightarrow> 'c store \<Rightarrow> 'c mst \<Rightarrow> 'c set
      \<Rightarrow> 'c repo_error + (nat option \<times> 'c mst \<times> 'c set)" where
  "find_layer 0 L st t seen = Inl too_deep"
| "find_layer (Suc n) L st t seen =
     (if m_layer t \<noteq> None then Inr (m_layer t, t, seen)
      else
        bindE (entries_in L st t seen) (\<lambda>(es, t, seen).
        bindE (case first_leaf_zeros L es of
                 Some z \<Rightarrow> Inr (Some z, es, seen)
               | None \<Rightarrow> scan_layer (find_layer n L st) es seen) (\<lambda>(lay, es, seen).
        Inr (lay, Mst (Some es) lay (m_pointer t), seen))))"

definition layer_in ::
    "nat \<Rightarrow> ('c, 'l) mst_lib_scheme \<Rightarrow> 'c store \<Rightarrow> 'c mst \<Rightarrow> 'c set
      \<Rightarrow> 'c repo_error + (nat \<times> 'c mst \<times> 'c set)" where
  "layer_in n L st t seen =
     bindE (find_layer n L st t seen) (\<lambda>(lay, t, seen).
       let l = (case lay of None \<Rightarrow> 0 | Some l \<Rightarrow> l) in
       Inr (l, Mst (m_entries t) (Some l) (m_pointer t), seen))"

text \<open>\<open>index_of\<close> on the entries: the first leaf at or above the key, or the end.\<close>

fun index_of :: "'c entry list \<Rightarrow> string \<Rightarrow> nat" where
  "index_of [] key = 0"
| "index_of (ELeaf l # es) key = (if key \<le> lkey l then 0 else Suc (index_of es key))"
| "index_of (ETree t # es) key = Suc (index_of es key)"

text \<open>The leaf at an index when it holds the key, and the subtree just left of an index.\<close>

definition leaf_hit :: "'c entry list \<Rightarrow> nat \<Rightarrow> string \<Rightarrow> 'c leaf option" where
  "leaf_hit es i key =
     (case getopt es i of
        Some (ELeaf l) \<Rightarrow> if lkey l = key then Some l else None
      | _ \<Rightarrow> None)"

definition prev_tree :: "'c entry list \<Rightarrow> nat \<Rightarrow> (nat \<times> 'c mst) option" where
  "prev_tree es i =
     (case i of 0 \<Rightarrow> None
      | Suc j \<Rightarrow> (case getopt es j of Some (ETree t) \<Rightarrow> Some (j, t) | _ \<Rightarrow> None))"

fun get_in ::
    "nat \<Rightarrow> ('c, 'l) mst_lib_scheme \<Rightarrow> 'c store \<Rightarrow> 'c mst \<Rightarrow> string \<Rightarrow> 'c set
      \<Rightarrow> 'c repo_error + ('c option \<times> 'c mst \<times> 'c set)" where
  "get_in 0 L st t key seen = Inl too_deep"
| "get_in (Suc n) L st t key seen =
     bindE (entries_in L st t seen) (\<lambda>(es, t, seen).
     let i = index_of es key in
     case leaf_hit es i key of
       Some l \<Rightarrow> Inr (Some (lvalue l), t, seen)
     | None \<Rightarrow>
         (case prev_tree es i of
            Some (j, sub) \<Rightarrow>
              bindE (get_in n L st sub key seen) (\<lambda>(r, sub, seen).
              Inr (r, set_entries t (es[j := ETree sub]), seen))
          | None \<Rightarrow> Inr (None, t, seen)))"

definition mst_get ::
    "('c, 'l) mst_lib_scheme \<Rightarrow> 'c store \<Rightarrow> 'c mst \<Rightarrow> string \<Rightarrow> 'c repo_error + ('c option \<times> 'c mst)" where
  "mst_get L st t key =
     bindE (get_in MAX_DEPTH L st t key {}) (\<lambda>(r, t, seen). Inr (r, t))"

text \<open>A loop over the entries of a node that visits each subtree in place.\<close>

fun visit_entries ::
    "('c mst \<Rightarrow> 'c set \<Rightarrow> 'c repo_error + ('a list \<times> 'c mst \<times> 'c set)) \<Rightarrow> ('c leaf \<Rightarrow> 'a list)
      \<Rightarrow> 'c entry list \<Rightarrow> 'c set \<Rightarrow> 'c repo_error + ('a list \<times> 'c entry list \<times> 'c set)" where
  "visit_entries f g [] seen = Inr ([], [], seen)"
| "visit_entries f g (ELeaf l # es) seen =
     bindE (visit_entries f g es seen) (\<lambda>(xs, es, seen). Inr (g l @ xs, ELeaf l # es, seen))"
| "visit_entries f g (ETree t # es) seen =
     bindE (f t seen) (\<lambda>(ys, t, seen).
     bindE (visit_entries f g es seen) (\<lambda>(xs, es, seen). Inr (ys @ xs, ETree t # es, seen)))"

fun collect_leaves ::
    "nat \<Rightarrow> ('c, 'l) mst_lib_scheme \<Rightarrow> 'c store \<Rightarrow> 'c mst \<Rightarrow> 'c set
      \<Rightarrow> 'c repo_error + ('c leaf list \<times> 'c mst \<times> 'c set)" where
  "collect_leaves 0 L st t seen = Inl too_deep"
| "collect_leaves (Suc n) L st t seen =
     bindE (entries_in L st t seen) (\<lambda>(es, t, seen).
     bindE (visit_entries (collect_leaves n L st) (\<lambda>l. [l]) es seen) (\<lambda>(xs, es, seen).
     Inr (xs, set_entries t es, seen)))"

definition mst_leaves ::
    "('c, 'l) mst_lib_scheme \<Rightarrow> 'c store \<Rightarrow> 'c mst \<Rightarrow> 'c repo_error + ('c leaf list \<times> 'c mst)" where
  "mst_leaves L st t = bindE (collect_leaves MAX_DEPTH L st t {}) (\<lambda>(xs, t, seen). Inr (xs, t))"


section \<open>Hashing\<close>

text \<open>\<open>serialize\<close>: the entries of a node after an optional leftmost subtree.\<close>

fun ser_entries ::
    "('c mst \<Rightarrow> 'c set \<Rightarrow> 'c repo_error + ('c \<times> 'c mst \<times> 'c set)) \<Rightarrow> string \<Rightarrow> 'c entry list \<Rightarrow> 'c set
      \<Rightarrow> 'c repo_error + ('c tree_entry list \<times> 'c entry list \<times> 'c set)" where
  "ser_entries f prior [] seen = Inr ([], [], seen)"
| "ser_entries f prior (ETree t # es) seen = Inl (MalformedNode ''two subtrees side by side'')"
| "ser_entries f prior (ELeaf l # ETree t # es) seen =
     bindE (f t seen) (\<lambda>(c, t, seen).
     bindE (ensure_valid_key (lkey l)) (\<lambda>_.
     let p = shared_prefix prior (lkey l) in
     bindE (ser_entries f (lkey l) es seen) (\<lambda>(tes, es, seen).
     Inr (\<lparr>te_p = p, te_k = drop p (lkey l), te_v = lvalue l, te_t = Some c\<rparr> # tes,
          ELeaf l # ETree t # es, seen))))"
| "ser_entries f prior (ELeaf l # es) seen =
     bindE (ensure_valid_key (lkey l)) (\<lambda>_.
     let p = shared_prefix prior (lkey l) in
     bindE (ser_entries f (lkey l) es seen) (\<lambda>(tes, es, seen).
     Inr (\<lparr>te_p = p, te_k = drop p (lkey l), te_v = lvalue l, te_t = None\<rparr> # tes,
          ELeaf l # es, seen)))"

fun serialize ::
    "('c mst \<Rightarrow> 'c set \<Rightarrow> 'c repo_error + ('c \<times> 'c mst \<times> 'c set)) \<Rightarrow> 'c entry list \<Rightarrow> 'c set
      \<Rightarrow> 'c repo_error + ('c node_data \<times> 'c entry list \<times> 'c set)" where
  "serialize f (ETree t # es) seen =
     bindE (f t seen) (\<lambda>(c, t, seen).
     bindE (ser_entries f [] es seen) (\<lambda>(tes, es, seen).
     Inr (\<lparr>nd_l = Some c, nd_e = tes\<rparr>, ETree t # es, seen)))"
| "serialize f es seen =
     bindE (ser_entries f [] es seen) (\<lambda>(tes, es, seen).
     Inr (\<lparr>nd_l = None, nd_e = tes\<rparr>, es, seen))"

fun root_in ::
    "nat \<Rightarrow> ('c, 'l) mst_lib_scheme \<Rightarrow> 'c store \<Rightarrow> 'c mst \<Rightarrow> 'c set
      \<Rightarrow> 'c repo_error + ('c \<times> 'c mst \<times> 'c set)" where
  "root_in 0 L st t seen = Inl too_deep"
| "root_in (Suc n) L st t seen =
     (case m_pointer t of
        Some c \<Rightarrow> Inr (c, t, seen)
      | None \<Rightarrow>
          bindE (entries_in L st t seen) (\<lambda>(es, t, seen).
          bindE (serialize (root_in n L st) es seen) (\<lambda>(data, es, seen).
          bindE (encode (node_to_vec L) data) (\<lambda>b.
          let c = cid_for L b in
          Inr (c, Mst (Some es) (m_layer t) (Some c), seen)))))"

definition mst_root ::
    "('c, 'l) mst_lib_scheme \<Rightarrow> 'c store \<Rightarrow> 'c mst \<Rightarrow> 'c repo_error + ('c \<times> 'c mst)" where
  "mst_root L st t = bindE (root_in MAX_DEPTH L st t {}) (\<lambda>(c, t, seen). Inr (c, t))"

fun cids_for_path_in ::
    "nat \<Rightarrow> ('c, 'l) mst_lib_scheme \<Rightarrow> 'c store \<Rightarrow> 'c mst \<Rightarrow> string \<Rightarrow> 'c set
      \<Rightarrow> 'c repo_error + ('c list \<times> 'c mst \<times> 'c set)" where
  "cids_for_path_in 0 L st t key seen = Inl too_deep"
| "cids_for_path_in (Suc n) L st t key seen =
     bindE (root_in n L st t seen) (\<lambda>(c, t, seen).
     bindE (entries_in L st t seen) (\<lambda>(es, t, seen).
     let i = index_of es key in
     case leaf_hit es i key of
       Some l \<Rightarrow> Inr ([c, lvalue l], t, seen)
     | None \<Rightarrow>
         (case prev_tree es i of
            Some (j, sub) \<Rightarrow>
              bindE (cids_for_path_in n L st sub key seen) (\<lambda>(cs, sub, seen).
              Inr (c # cs, set_entries t (es[j := ETree sub]), seen))
          | None \<Rightarrow> Inr ([c], t, seen))))"

definition cids_for_path ::
    "('c, 'l) mst_lib_scheme \<Rightarrow> 'c store \<Rightarrow> 'c mst \<Rightarrow> string \<Rightarrow> 'c repo_error + ('c list \<times> 'c mst)" where
  "cids_for_path L st t key =
     bindE (cids_for_path_in MAX_DEPTH L st t key {}) (\<lambda>(cs, t, seen). Inr (cs, t))"

text \<open>
  \<open>unstored_blocks\<close>: the blocks as the list of maps merged in order, one per node visited; the
  node's own block comes first.
\<close>

fun unstored_blocks_in ::
    "nat \<Rightarrow> ('c::linorder, 'l) mst_lib_scheme \<Rightarrow> 'c store \<Rightarrow> 'c mst \<Rightarrow> 'c set
      \<Rightarrow> 'c repo_error + (('c \<times> 'c block_map) \<times> 'c mst \<times> 'c set)" where
  "unstored_blocks_in 0 L st t seen = Inl too_deep"
| "unstored_blocks_in (Suc n) L st t seen =
     bindE (root_in n L st t seen) (\<lambda>(root, t, seen).
     bindE (store_contains st root) (\<lambda>stored.
     if stored then Inr ((root, []), t, seen)
     else
       bindE (entries_in L st t seen) (\<lambda>(es, t, seen).
       bindE (serialize (root_in n L st) es seen) (\<lambda>(data, es, seen).
       bindE (bm_add L (node_to_vec L) data []) (\<lambda>(c, blocks).
       bindE (visit_entries
                (\<lambda>s seen. bindE (unstored_blocks_in n L st s seen)
                   (\<lambda>((r, bs), s, seen). Inr ([bs], s, seen)))
                (\<lambda>l. []) es seen) (\<lambda>(maps, es, seen).
       Inr ((root, fold (\<lambda>bs m. bm_merge m bs) maps blocks), set_entries t es, seen)))))))"

definition unstored_blocks ::
    "('c::linorder, 'l) mst_lib_scheme \<Rightarrow> 'c store \<Rightarrow> 'c mst
      \<Rightarrow> 'c repo_error + (('c \<times> 'c block_map) \<times> 'c mst)" where
  "unstored_blocks L st t =
     bindE (unstored_blocks_in MAX_DEPTH L st t {}) (\<lambda>(r, t, seen). Inr (r, t))"


section \<open>Writing\<close>

definition opt_tree :: "'c mst option \<Rightarrow> 'c entry list" where
  "opt_tree t = (case t of None \<Rightarrow> [] | Some s \<Rightarrow> [ETree s])"

definition some_node :: "'c entry list \<Rightarrow> nat option \<Rightarrow> 'c mst option" where
  "some_node es lay = (if es = [] then None else Some (from_entries es lay))"

fun is_tree :: "'c entry \<Rightarrow> bool" where
  "is_tree (ETree _) = True"
| "is_tree (ELeaf _) = False"

fun split_around ::
    "nat \<Rightarrow> ('c, 'l) mst_lib_scheme \<Rightarrow> 'c store \<Rightarrow> 'c mst \<Rightarrow> string \<Rightarrow> 'c set
      \<Rightarrow> 'c repo_error + ('c mst option \<times> 'c mst option \<times> 'c set)" where
  "split_around 0 L st t key seen = Inl too_deep"
| "split_around (Suc n) L st t key seen =
     bindE (entries_in L st t seen) (\<lambda>(es, t, seen).
     let i = index_of es key; lay = m_layer t; left = take i es; right = drop i es in
     case prev_tree es i of
       Some (j, sub) \<Rightarrow>
         bindE (split_around n L st sub key seen) (\<lambda>(below, above, seen).
         Inr (some_node (take j es @ opt_tree below) lay,
              some_node (opt_tree above @ right) lay, seen))
     | None \<Rightarrow> Inr (some_node left lay, some_node right lay, seen))"

definition into_parent :: "'c mst \<Rightarrow> 'c repo_error + 'c mst" where
  "into_parent t =
     bindE (ok_or (MalformedNode ''raised a node of unknown layer'') (m_layer t)) (\<lambda>lay.
     Inr (from_entries [ETree t] (Some (lay + 1))))"

definition into_parent_opt :: "'c mst option \<Rightarrow> 'c repo_error + 'c mst option" where
  "into_parent_opt t =
     (case t of None \<Rightarrow> Inr None | Some s \<Rightarrow> bindE (into_parent s) (\<lambda>p. Inr (Some p)))"

fun raise_both ::
    "nat \<Rightarrow> 'c mst option \<Rightarrow> 'c mst option \<Rightarrow> 'c repo_error + ('c mst option \<times> 'c mst option)" where
  "raise_both 0 l r = Inr (l, r)"
| "raise_both (Suc k) l r =
     bindE (into_parent_opt l) (\<lambda>l. bindE (into_parent_opt r) (\<lambda>r. raise_both k l r))"

fun insert_in ::
    "nat \<Rightarrow> ('c, 'l) mst_lib_scheme \<Rightarrow> 'c store \<Rightarrow> 'c mst \<Rightarrow> string \<Rightarrow> 'c \<Rightarrow> nat \<Rightarrow> 'c set
      \<Rightarrow> 'c repo_error + ('c mst \<times> 'c set)" where
  "insert_in 0 L st t key v zeros seen = Inl too_deep"
| "insert_in (Suc n) L st t key v zeros seen =
     bindE (layer_in n L st t seen) (\<lambda>(lay, t, seen).
     if zeros > lay then
       bindE (split_around n L st t key seen) (\<lambda>(left, right, seen).
       bindE (raise_both (zeros - lay - 1) left right) (\<lambda>(left, right).
       Inr (from_entries
              (opt_tree left @ ELeaf \<lparr>lkey = key, lvalue = v\<rparr> # opt_tree right) (Some zeros), seen)))
     else
       bindE (entries_in L st t seen) (\<lambda>(es, t, seen).
       let i = index_of es key; prev = prev_tree es i in
       if zeros < lay then
         (case prev of
            Some (j, sub) \<Rightarrow>
              bindE (insert_in n L st sub key v zeros seen) (\<lambda>(grown, seen).
              Inr (from_entries (es[j := ETree grown]) (Some lay), seen))
          | None \<Rightarrow>
              bindE (insert_in n L st (from_entries [] (Some (lay - 1))) key v zeros seen)
                (\<lambda>(grown, seen).
              Inr (from_entries (take i es @ ETree grown # drop i es) (Some lay), seen)))
       else if leaf_hit es i key \<noteq> None then Inl (KeyExists key)
       else
         (case prev of
            Some (j, sub) \<Rightarrow>
              bindE (split_around n L st sub key seen) (\<lambda>(left, right, seen).
              Inr (from_entries
                     (take j es @ opt_tree left @ ELeaf \<lparr>lkey = key, lvalue = v\<rparr>
                        # opt_tree right @ drop (Suc j) es) (Some lay), seen))
          | None \<Rightarrow>
              Inr (from_entries (take i es @ ELeaf \<lparr>lkey = key, lvalue = v\<rparr> # drop i es)
                     (Some lay), seen))))"

definition mst_add ::
    "('c, 'l) mst_lib_scheme \<Rightarrow> 'c store \<Rightarrow> 'c mst \<Rightarrow> string \<Rightarrow> 'c \<Rightarrow> 'c repo_error + 'c mst" where
  "mst_add L st t key v =
     bindE (ensure_valid_key key) (\<lambda>_.
     bindE (insert_in MAX_DEPTH L st t key v (leading_zeros L key) {}) (\<lambda>(t, seen). Inr t))"

fun update_in ::
    "nat \<Rightarrow> ('c, 'l) mst_lib_scheme \<Rightarrow> 'c store \<Rightarrow> 'c mst \<Rightarrow> string \<Rightarrow> 'c \<Rightarrow> 'c set
      \<Rightarrow> 'c repo_error + ('c mst \<times> 'c set)" where
  "update_in 0 L st t key v seen = Inl too_deep"
| "update_in (Suc n) L st t key v seen =
     bindE (ensure_valid_key key) (\<lambda>_.
     bindE (entries_in L st t seen) (\<lambda>(es, t, seen).
     let i = index_of es key; lay = m_layer t in
     case leaf_hit es i key of
       Some l \<Rightarrow> Inr (from_entries (es[i := ELeaf (l\<lparr>lvalue := v\<rparr>)]) lay, seen)
     | None \<Rightarrow>
         (case prev_tree es i of
            None \<Rightarrow> Inl (KeyMissing key)
          | Some (j, sub) \<Rightarrow>
              bindE (update_in n L st sub key v seen) (\<lambda>(sub, seen).
              Inr (from_entries (es[j := ETree sub]) lay, seen)))))"

definition mst_update ::
    "('c, 'l) mst_lib_scheme \<Rightarrow> 'c store \<Rightarrow> 'c mst \<Rightarrow> string \<Rightarrow> 'c \<Rightarrow> 'c repo_error + 'c mst" where
  "mst_update L st t key v =
     bindE (update_in MAX_DEPTH L st t key v {}) (\<lambda>(t, seen). Inr t)"

fun append_merge ::
    "nat \<Rightarrow> ('c, 'l) mst_lib_scheme \<Rightarrow> 'c store \<Rightarrow> 'c mst \<Rightarrow> 'c mst \<Rightarrow> 'c set
      \<Rightarrow> 'c repo_error + ('c mst \<times> 'c set)" where
  "append_merge 0 L st t other seen = Inl too_deep"
| "append_merge (Suc n) L st t other seen =
     bindE (layer_in n L st t seen) (\<lambda>(lay, t, seen).
     bindE (layer_in n L st other seen) (\<lambda>(lay', other, seen).
     if lay \<noteq> lay' then Inl (MalformedNode ''merged two nodes from different layers'')
     else
       bindE (entries_in L st t seen) (\<lambda>(left, t, seen).
       bindE (entries_in L st other seen) (\<lambda>(right, other, seen).
       case (prev_tree left (length left), right) of
         (Some (j, inner_left), ETree inner_right # rest) \<Rightarrow>
           bindE (append_merge n L st inner_left inner_right seen) (\<lambda>(inner, seen).
           Inr (from_entries (take j left @ ETree inner # rest) (m_layer t), seen))
       | _ \<Rightarrow> Inr (from_entries (left @ right) (m_layer t), seen)))))"

fun delete_recurse ::
    "nat \<Rightarrow> ('c, 'l) mst_lib_scheme \<Rightarrow> 'c store \<Rightarrow> 'c mst \<Rightarrow> string \<Rightarrow> 'c set
      \<Rightarrow> 'c repo_error + ('c mst \<times> 'c set)" where
  "delete_recurse 0 L st t key seen = Inl too_deep"
| "delete_recurse (Suc n) L st t key seen =
     bindE (entries_in L st t seen) (\<lambda>(es, t, seen).
     let i = index_of es key; lay = m_layer t in
     if leaf_hit es i key \<noteq> None then
       (case (prev_tree es i, getopt es (Suc i)) of
          (Some (j, left), Some (ETree right)) \<Rightarrow>
            bindE (append_merge n L st left right seen) (\<lambda>(merged, seen).
            Inr (from_entries (take j es @ ETree merged # drop (i + 2) es) lay, seen))
        | _ \<Rightarrow> Inr (from_entries (take i es @ drop (Suc i) es) lay, seen))
     else
       (case prev_tree es i of
          None \<Rightarrow> Inl (KeyMissing key)
        | Some (j, sub) \<Rightarrow>
            bindE (delete_recurse n L st sub key seen) (\<lambda>(shrunk, seen).
            bindE (entries_in L st shrunk seen) (\<lambda>(ses, shrunk, seen).
            Inr (from_entries
                   (take j es @ (if ses \<noteq> [] then [ETree shrunk] else []) @ drop (Suc j) es) lay,
                 seen)))))"

fun trim_top ::
    "nat \<Rightarrow> ('c, 'l) mst_lib_scheme \<Rightarrow> 'c store \<Rightarrow> 'c mst \<Rightarrow> 'c set
      \<Rightarrow> 'c repo_error + ('c mst \<times> 'c set)" where
  "trim_top 0 L st t seen = Inl too_deep"
| "trim_top (Suc n) L st t seen =
     (case fill L st t seen of
        Inl (MissingBlock c) \<Rightarrow> Inr (t, insert c seen)
      | Inl e \<Rightarrow> Inl e
      | Inr (t, seen) \<Rightarrow>
          (case m_entries t of
             Some [ETree sub] \<Rightarrow> trim_top n L st sub seen
           | _ \<Rightarrow> Inr (t, seen)))"

definition mst_delete ::
    "('c, 'l) mst_lib_scheme \<Rightarrow> 'c store \<Rightarrow> 'c mst \<Rightarrow> string \<Rightarrow> 'c repo_error + 'c mst" where
  "mst_delete L st t key =
     bindE (delete_recurse MAX_DEPTH L st t key {}) (\<lambda>(t, seen).
     bindE (trim_top MAX_DEPTH L st t seen) (\<lambda>(t, seen). Inr t))"

end
