(* ===== verification/Mst_Tree.thy ===== *)
theory Mst_Tree
  imports Mst
begin

text \<open>
  The abstract tree an \<open>Mst\<close> value stands for: the same nodes with nothing left unread, no
  cached layers and no cached hashes. What the protocol asks of a tree is \<open>tree_wf\<close>: each key sits at
  the layer its hash gives, a node at layer \<open>n\<close> holds subtrees at layer \<open>n - 1\<close>, no subtree is
  empty and no two stand side by side. The main fact is that such a tree is determined by the
  records it holds (\<open>wf_canonical\<close>).
\<close>

section \<open>Trees\<close>

datatype 'c tree = Node (tents: "'c tent list")
and 'c tent = TL "'c leaf" | TS "'c tree"

primrec tleaves :: "'c tree \<Rightarrow> 'c leaf list" and eleaves :: "'c tent \<Rightarrow> 'c leaf list" where
  "tleaves (Node es) = concat (map eleaves es)"
| "eleaves (TL l) = [l]"
| "eleaves (TS t) = tleaves t"

abbreviation esleaves :: "'c tent list \<Rightarrow> 'c leaf list" where
  "esleaves es \<equiv> concat (map eleaves es)"

fun no_adj :: "'c tent list \<Rightarrow> bool" where
  "no_adj (TS a # TS b # es) = False"
| "no_adj (e # es) = no_adj es"
| "no_adj [] = True"

fun tree_wf :: "('c, 'l) lib_scheme \<Rightarrow> nat \<Rightarrow> 'c tree \<Rightarrow> bool"
and ent_wf :: "('c, 'l) lib_scheme \<Rightarrow> nat \<Rightarrow> 'c tent \<Rightarrow> bool" where
  "tree_wf L n (Node es) \<longleftrightarrow> list_all (ent_wf L n) es \<and> no_adj es"
| "ent_wf L n (TL l) \<longleftrightarrow> leading_zeros L (lkey l) = n \<and> valid_key (lkey l)"
| "ent_wf L n (TS t) \<longleftrightarrow> n > 0 \<and> tree_wf L (n - 1) t \<and> t \<noteq> Node []"

abbreviation keys_sorted :: "'c leaf list \<Rightarrow> bool" where
  "keys_sorted ls \<equiv> sorted_wrt (<) (map lkey ls)"

text \<open>No node that only points at the node below it stands at the top.\<close>

fun trimmed :: "'c tree \<Rightarrow> bool" where
  "trimmed (Node [TS t]) = False"
| "trimmed t = True"

text \<open>Node lists, piecewise.\<close>

lemma no_adj_tl: "no_adj (e # es) \<Longrightarrow> no_adj es"
  by (cases "e # es" rule: no_adj.cases) auto

lemma no_adj_TL [simp]: "no_adj (TL l # es) = no_adj es"
  by (cases es) auto

lemma no_adj_TS: "no_adj (TS t # es) \<longleftrightarrow> no_adj es \<and> (es = [] \<or> (\<exists>l r. es = TL l # r))"
proof (cases es)
  case (Cons e r)
  then show ?thesis by (cases e) auto
qed simp

lemma no_adj_append:
  "no_adj (xs @ ys) \<longleftrightarrow> no_adj xs \<and> no_adj ys
     \<and> \<not> (\<exists>xs' a b ys'. xs = xs' @ [TS a] \<and> ys = TS b # ys')"
proof (induction xs)
  case (Cons x xs)
  show ?case
  proof (cases x)
    case (TL l)
    have "(\<exists>xs' a b ys'. x # xs = xs' @ [TS a] \<and> ys = TS b # ys')
        \<longleftrightarrow> (\<exists>xs' a b ys'. xs = xs' @ [TS a] \<and> ys = TS b # ys')"
      using TL by (auto simp: Cons_eq_append_conv)
    with TL Cons.IH show ?thesis by simp
  next
    case (TS t)
    have "(\<exists>xs' a b ys'. x # xs = xs' @ [TS a] \<and> ys = TS b # ys')
        \<longleftrightarrow> (xs = [] \<and> (\<exists>b ys'. ys = TS b # ys'))
          \<or> (\<exists>xs' a b ys'. xs = xs' @ [TS a] \<and> ys = TS b # ys')"
      using TS by (auto simp: Cons_eq_append_conv)
    moreover have "ys = [] \<or> (\<exists>l r. ys = TL l # r) \<longleftrightarrow> \<not> (\<exists>b ys'. ys = TS b # ys')"
      by (cases ys) (auto, metis tent.exhaust)
    ultimately show ?thesis
      using TS Cons.IH by (cases xs) (auto simp: no_adj_TS)
  qed
qed simp

lemma wf_leaves_nonempty: "tree_wf L n t \<Longrightarrow> t \<noteq> Node [] \<Longrightarrow> tleaves t \<noteq> []"
  and ewf_leaves_nonempty: "ent_wf L n e \<Longrightarrow> eleaves e \<noteq> []"
  by (induction L n t and L n e rule: tree_wf_ent_wf.induct)
     (auto simp: list_all_iff neq_Nil_conv)

lemma wf_leaves_zeros: "tree_wf L n t \<Longrightarrow> l \<in> set (tleaves t) \<Longrightarrow> leading_zeros L (lkey l) \<le> n \<and> valid_key (lkey l)"
  and ewf_leaves_zeros: "ent_wf L n e \<Longrightarrow> l \<in> set (eleaves e) \<Longrightarrow> leading_zeros L (lkey l) \<le> n \<and> valid_key (lkey l)"
  by (induction L n t and L n e rule: tree_wf_ent_wf.induct)
     (fastforce simp: list_all_iff)+

lemma wf_sub_zeros: "ent_wf L n (TS t) \<Longrightarrow> l \<in> set (tleaves t) \<Longrightarrow> leading_zeros L (lkey l) < n"
  using wf_leaves_zeros [of L "n - 1" t l] by fastforce

lemma wf_Node_append [simp]:
  "tree_wf L n (Node (xs @ ys)) \<longleftrightarrow> tree_wf L n (Node xs) \<and> tree_wf L n (Node ys)
     \<and> \<not> (\<exists>xs' a b ys'. xs = xs' @ [TS a] \<and> ys = TS b # ys')"
  by (auto simp: no_adj_append)

lemma wf_empty [simp]: "tree_wf L n (Node [])"
  by simp


section \<open>A tree is determined by what it holds\<close>

lemma split_at_layer:
  assumes "xs @ ys = xs' @ ys'"
    and "\<And>x. x \<in> set xs \<Longrightarrow> P x" "\<And>x. x \<in> set xs' \<Longrightarrow> P x"
    and "ys = [] \<or> \<not> P (hd ys)" "ys' = [] \<or> \<not> P (hd ys')"
  shows "xs = xs' \<and> ys = ys'"
proof -
  have "takeWhile P (xs @ ys) = xs" "takeWhile P (xs' @ ys') = xs'"
    using assms(2-5) by (auto simp: takeWhile_append takeWhile_eq_Nil_iff)
  with assms(1) show ?thesis by simp
qed

lemma wf_canonical_entries:
  assumes IH: "\<And>s t. TS s \<in> set es \<Longrightarrow> tree_wf L (n - 1) s \<Longrightarrow> tree_wf L (n - 1) t \<Longrightarrow>
      tleaves s = tleaves t \<Longrightarrow> s = t"
    and "tree_wf L n (Node es)" "tree_wf L n (Node fs)" "esleaves es = esleaves fs"
  shows "es = fs"
  using assms
proof (induction es arbitrary: fs)
  case Nil
  then have "list_all (ent_wf L n) fs" "esleaves fs = []" by auto
  then show ?case using ewf_leaves_nonempty by (cases fs) auto
next
  case (Cons e es)
  obtain f gs where fs: "fs = f # gs"
    using Cons.prems(2,4) ewf_leaves_nonempty [of L n e] by (cases fs) auto
  have tail: "tree_wf L n (Node es)" "tree_wf L n (Node gs)"
    using Cons.prems(2,3) fs by (auto dest: no_adj_tl)
  have e: "ent_wf L n e" and f: "ent_wf L n f" using Cons.prems(2,3) fs by auto
  have "eleaves e \<noteq> []" "eleaves f \<noteq> []" using e f ewf_leaves_nonempty by blast+
  then have hds: "hd (eleaves e) = hd (eleaves f)"
    using Cons.prems(4) fs by (metis concat.simps(2) hd_append2 list.simps(9))
  have "e = f \<and> esleaves es = esleaves gs"
  proof (cases e)
    case (TL l)
    have "f = TL l"
    proof (cases f)
      case (TS t)
      then have "hd (eleaves f) \<in> set (tleaves t)" using \<open>eleaves f \<noteq> []\<close> by simp
      then show ?thesis
        using wf_sub_zeros [OF f [unfolded TS]] hds e TL by fastforce
    qed (use hds TL in simp)
    with TL Cons.prems(4) fs show ?thesis by simp
  next
    case (TS s)
    have "hd (eleaves e) \<in> set (tleaves s)" using TS \<open>eleaves e \<noteq> []\<close> by simp
    then have "leading_zeros L (lkey (hd (eleaves e))) < n"
      using wf_sub_zeros [OF e [unfolded TS]] by blast
    then obtain t where ft: "f = TS t" using hds f by (cases f) auto
    have hd_tail: "xs = [] \<or> \<not> leading_zeros L (lkey (hd (esleaves xs))) < n"
      if "tree_wf L n (Node (TS u # xs))" for u xs
      using that by (auto simp: no_adj_TS)
    have "tleaves s = tleaves t \<and> esleaves es = esleaves gs"
    proof (rule split_at_layer [where P = "\<lambda>l. leading_zeros L (lkey l) < n"])
      show "tleaves s @ esleaves es = tleaves t @ esleaves gs"
        using Cons.prems(4) fs TS ft by simp
    qed (use wf_sub_zeros [OF e [unfolded TS]] wf_sub_zeros [OF f [unfolded ft]]
        hd_tail [of s es] hd_tail [of t gs] Cons.prems(2,3) fs TS ft in auto)
    moreover have "s = t" if "tleaves s = tleaves t"
      using Cons.prems(1) [of s t] e f TS ft that by simp
    ultimately show ?thesis using TS ft by simp
  qed
  moreover from this have "es = gs"
    using Cons.IH [of gs] Cons.prems(1) tail by auto
  ultimately show ?case using fs by simp
qed

lemma wf_canonical: "tree_wf L n s \<Longrightarrow> tree_wf L n t \<Longrightarrow> tleaves s = tleaves t \<Longrightarrow> s = t"
proof (induction n arbitrary: s t)
  case 0
  then obtain es fs where st: "s = Node es" "t = Node fs" by (metis tree.exhaust)
  with 0 show ?case
    by (auto intro!: wf_canonical_entries [where L = L and n = 0] simp: list_all_iff)
next
  case (Suc n)
  then obtain es fs where st: "s = Node es" "t = Node fs" by (metis tree.exhaust)
  with Suc show ?case
    by (auto intro!: wf_canonical_entries [where L = L and n = "Suc n"])
qed

lemma trimmed_top_leaf:
  assumes "tree_wf L n t" "trimmed t" "t \<noteq> Node []"
  shows "\<exists>l \<in> set (tleaves t). leading_zeros L (lkey l) = n"
proof -
  obtain es where t: "t = Node es" by (cases t)
  have "\<exists>l. TL l \<in> set es"
  proof (rule ccontr)
    assume no: "\<nexists>l. TL l \<in> set es"
    obtain s r where es: "es = TS s # r"
      using no assms(3) t by (cases es) (auto, metis tent.exhaust)
    with assms(1) t no have "r = []" by (auto simp: no_adj_TS)
    with assms(2) t es show False by simp
  qed
  then obtain l where "TL l \<in> set es" by blast
  with assms(1) t show ?thesis by (force simp: list_all_iff)
qed

lemma trimmed_layer_unique:
  assumes "tree_wf L m s" "tree_wf L n t" "trimmed s" "trimmed t" "tleaves s = tleaves t" "s \<noteq> Node []"
  shows "m = n"
proof -
  have "tleaves s \<noteq> []" by (rule wf_leaves_nonempty [OF assms(1,6)])
  then have "t \<noteq> Node []" using assms(5) by auto
  have "m \<le> n"
    using trimmed_top_leaf [OF assms(1,3,6)] wf_leaves_zeros [OF assms(2)] assms(5) by fastforce
  moreover have "n \<le> m"
    using trimmed_top_leaf [OF assms(2,4) \<open>t \<noteq> Node []\<close>] wf_leaves_zeros [OF assms(1)] assms(5)
    by fastforce
  ultimately show ?thesis by simp
qed

lemma trimmed_canonical:
  assumes "tree_wf L m s" "tree_wf L n t" "trimmed s" "trimmed t" "tleaves s = tleaves t"
  shows "s = t"
proof (cases "s = Node []")
  case True
  then have "tleaves t = []" using assms(5) by simp
  with wf_leaves_nonempty [OF assms(2)] True show ?thesis by blast
next
  case False
  with trimmed_layer_unique [OF assms] assms show ?thesis
    using wf_canonical by blast
qed


section \<open>Records in key order\<close>

definition kv :: "'c leaf \<Rightarrow> string \<times> 'c" where
  "kv l = (lkey l, lvalue l)"

abbreviation records_of :: "'c tree \<Rightarrow> (string \<times> 'c) list" where
  "records_of t \<equiv> map kv (tleaves t)"

lemma fst_kv [simp]: "fst (kv l) = lkey l"
  by (simp add: kv_def)

lemma kv_make [simp]: "kv \<lparr>lkey = k, lvalue = v\<rparr> = (k, v)"
  by (simp add: kv_def)

lemma kv_inj: "kv a = kv b \<longleftrightarrow> a = b"
  by (auto simp: kv_def)

lemma map_kv_inj: "map kv xs = map kv ys \<longleftrightarrow> xs = ys"
  by (auto simp: kv_inj inj_def inj_map_eq_map)

lemma ascending_kv [simp]: "ascending (map kv ls) \<longleftrightarrow> keys_sorted ls"
  by (simp add: comp_def)

lemma al_upd_between:
  "\<forall>x \<in> set xs. fst x < k \<Longrightarrow> \<forall>y \<in> set ys. k < fst y \<Longrightarrow>
     al_upd k v (xs @ ys) = xs @ (k, v) # ys"
proof (induction xs)
  case Nil
  then show ?case by (cases ys) auto
qed auto

lemma al_upd_hit:
  "\<forall>x \<in> set xs. fst x < k \<Longrightarrow> al_upd k v (xs @ (k, w) # ys) = xs @ (k, v) # ys"
  by (induction xs) auto

lemma al_del_hit:
  fixes k :: "'k::linorder"
  shows "\<forall>x \<in> set xs. fst x < k \<Longrightarrow> al_del k (xs @ (k, w) # ys) = xs @ ys"
  by (induction xs) auto

lemma keys_sorted_append:
  "keys_sorted (xs @ ys) \<longleftrightarrow> keys_sorted xs \<and> keys_sorted ys
     \<and> (\<forall>x \<in> set xs. \<forall>y \<in> set ys. lkey x < lkey y)"
  by (auto simp: sorted_wrt_append)

text \<open>Where a key falls among the entries of a node.\<close>

fun tindex :: "'c tent list \<Rightarrow> string \<Rightarrow> nat" where
  "tindex [] key = 0"
| "tindex (TL l # es) key = (if key \<le> lkey l then 0 else Suc (tindex es key))"
| "tindex (TS t # es) key = Suc (tindex es key)"

lemma tindex_le: "tindex es key \<le> length es"
  by (induction es key rule: tindex.induct) auto

lemma tindex_take: "TL l \<in> set (take (tindex es key) es) \<Longrightarrow> lkey l < key"
  by (induction es key rule: tindex.induct) (auto split: if_splits)

lemma tindex_drop:
  "drop (tindex es key) es = [] \<or> (\<exists>l r. drop (tindex es key) es = TL l # r \<and> key \<le> lkey l)"
  by (induction es key rule: tindex.induct) auto

definition below :: "string \<Rightarrow> 'c tent list \<Rightarrow> bool" where
  "below key es \<longleftrightarrow> (\<forall>l \<in> set (esleaves es). lkey l < key)"

definition from_key :: "string \<Rightarrow> 'c tent list \<Rightarrow> bool" where
  "from_key key es \<longleftrightarrow> (\<forall>l \<in> set (esleaves es). key \<le> lkey l)
     \<and> (es = [] \<or> (\<exists>l r. es = TL l # r))"

definition ends_leaf :: "'c tent list \<Rightarrow> bool" where
  "ends_leaf es \<longleftrightarrow> es = [] \<or> (\<exists>xs l. es = xs @ [TL l])"

lemma below_ends_leaf:
  assumes "keys_sorted (esleaves (xs @ [TL l]))" "lkey l < key"
  shows "below key (xs @ [TL l])"
  using assms unfolding below_def
  by (auto simp: sorted_wrt_append) (metis less_trans)

lemma from_key_tail:
  assumes "keys_sorted (esleaves es)" "es = [] \<or> (\<exists>l r. es = TL l # r \<and> key \<le> lkey l)"
  shows "from_key key es"
  using assms unfolding from_key_def
  by auto (metis order.strict_implies_order order.trans)

lemma tindex_split:
  assumes "no_adj es" "keys_sorted (esleaves es)"
  obtains (between) xs ys where "es = xs @ ys" "tindex es key = length xs"
      "below key xs" "ends_leaf xs" "from_key key ys"
  | (inside) xs s ys where "es = xs @ TS s # ys" "tindex es key = Suc (length xs)"
      "below key xs" "ends_leaf xs" "from_key key ys"
proof -
  define i where "i = tindex es key"
  define pre post where "pre = take i es" and "post = drop i es"
  have es: "es = pre @ post" by (simp add: pre_def post_def)
  have len: "length pre = i" using tindex_le [of es key] by (simp add: pre_def i_def)
  have lower: "lkey l < key" if "TL l \<in> set pre" for l
    using that tindex_take unfolding pre_def i_def by blast
  have post: "from_key key post"
  proof (rule from_key_tail)
    show "keys_sorted (esleaves post)" using assms(2) es by (simp add: sorted_wrt_append)
    show "post = [] \<or> (\<exists>l r. post = TL l # r \<and> key \<le> lkey l)"
      unfolding post_def i_def by (rule tindex_drop)
  qed
  have sorted: "keys_sorted (esleaves pre)" using assms(2) es by (simp add: sorted_wrt_append)
  have leafy: "below key xs" if e: "ends_leaf xs" and p: "pre = xs @ ys" for xs ys
  proof (cases "xs = []")
    case False
    then obtain zs l where z: "xs = zs @ [TL l]" using e by (auto simp: ends_leaf_def)
    show ?thesis unfolding z
      by (rule below_ends_leaf) (use sorted p z lower in \<open>auto simp: sorted_wrt_append\<close>)
  qed (simp add: below_def)
  show thesis
  proof (cases pre rule: rev_cases)
    case Nil
    then show thesis using between [of pre post] es len i_def post by (simp add: below_def ends_leaf_def)
  next
    case (snoc zs e)
    show thesis
    proof (cases e)
      case (TL l)
      then have "ends_leaf pre" using snoc by (auto simp: ends_leaf_def)
      then show thesis using between [of pre post] leafy [of pre "[]"] es len i_def post by simp
    next
      case (TS s)
      have "ends_leaf zs"
      proof (cases zs rule: rev_cases)
        case (snoc ws f)
        have "no_adj (f # TS s # post)"
          using assms(1) es \<open>pre = zs @ [e]\<close> snoc TS by (simp add: no_adj_append)
        then show ?thesis
          by (cases f) (auto simp: snoc ends_leaf_def)
      qed (simp add: ends_leaf_def)
      then show thesis
        using inside [of zs s post] leafy [of zs "[e]"] snoc TS es len i_def post by auto
    qed
  qed
qed

end
