(* ===== verification/Mst_Rep.thy ===== *)
theory Mst_Rep
  imports Mst_Tree
begin

text \<open>
  How an \<open>Mst\<close> value, part of it still unread in a store, stands for an abstract tree.

  The stored form of a node is \<open>node_pack\<close> and its CID \<open>tcid\<close>; reading a packed node back gives
  its entries (\<open>deserialize_pack\<close>). \<open>rep\<close> says a value represents a tree: an unread node's pointer
  is the tree's CID and the store holds the tree's blocks, a cached layer is the node's layer,
  a cached pointer is its CID. \<open>pend\<close> lists the nodes still to be read: they are all different
  (\<open>distinct_pend\<close>), which is why \<open>Reader\<close>'s refusal to read a node twice never refuses a
  well-formed tree.
\<close>

section \<open>Stored form\<close>

text \<open>What is assumed of \<open>serde_ipld_dagcbor\<close> at \<open>NodeData\<close>: every node has an encoding, and
  decoding an encoding gives the node back.\<close>

definition codec_ok :: "('c, 'l) mst_lib_scheme \<Rightarrow> bool" where
  "codec_ok L \<longleftrightarrow> (\<forall>d. \<exists>b. node_to_vec L d = Inr b \<and> node_from_slice L b = Inr d)"

definition node_bytes :: "('c, 'l) mst_lib_scheme \<Rightarrow> 'c node_data \<Rightarrow> bytes" where
  "node_bytes L d = (case node_to_vec L d of Inr b \<Rightarrow> b | Inl _ \<Rightarrow> [])"

fun pack :: "string \<Rightarrow> ('c leaf + 'c) list \<Rightarrow> 'c tree_entry list" where
  "pack prior [] = []"
| "pack prior (Inr c # xs) = []"
| "pack prior (Inl l # Inr c # xs) =
     \<lparr>te_p = shared_prefix prior (lkey l), te_k = drop (shared_prefix prior (lkey l)) (lkey l),
      te_v = lvalue l, te_t = Some c\<rparr> # pack (lkey l) xs"
| "pack prior (Inl l # xs) =
     \<lparr>te_p = shared_prefix prior (lkey l), te_k = drop (shared_prefix prior (lkey l)) (lkey l),
      te_v = lvalue l, te_t = None\<rparr> # pack (lkey l) xs"

fun node_pack :: "('c leaf + 'c) list \<Rightarrow> 'c node_data" where
  "node_pack (Inr c # xs) = \<lparr>nd_l = Some c, nd_e = pack [] xs\<rparr>"
| "node_pack xs = \<lparr>nd_l = None, nd_e = pack [] xs\<rparr>"

fun packable :: "('c leaf + 'c) list \<Rightarrow> bool" where
  "packable (Inr a # Inr b # xs) = False"
| "packable (Inl l # xs) \<longleftrightarrow> valid_key (lkey l) \<and> packable xs"
| "packable (Inr a # xs) = packable xs"
| "packable [] = True"

definition unpack :: "nat option \<Rightarrow> ('c leaf + 'c) \<Rightarrow> 'c entry" where
  "unpack sublay x = (case x of Inl l \<Rightarrow> ELeaf l | Inr c \<Rightarrow> unread sublay c)"

lemma unpack_simps [simp]:
  "unpack s (Inl l) = ELeaf l"
  "unpack s (Inr c) = unread s c"
  by (simp_all add: unpack_def)

lemma shared_prefix_take: "take (shared_prefix a b) a = take (shared_prefix a b) b"
  by (induction a b rule: shared_prefix.induct) auto

lemma shared_prefix_le: "shared_prefix a b \<le> length a"
  by (induction a b rule: shared_prefix.induct) auto

lemma shared_prefix_Nil [simp]: "shared_prefix [] b = 0"
  by simp

lemma alnum_ascii: "is_ascii_alphanumeric b \<Longrightarrow> (of_char b :: nat) < 128"
  by (auto simp: ascii_defs less_eq_char_def)

lemma is_key_byte_ascii: "is_key_byte b \<Longrightarrow> (of_char b :: nat) < 128"
  by (auto simp: is_key_byte_def alnum_ascii)

lemma valid_key_bytes: "valid_key k \<Longrightarrow> list_all (\<lambda>b. b = CHR ''/'' \<or> is_key_byte b) k"
  by (simp add: valid_key_def split: list.splits)

lemma valid_key_ascii:
  assumes "valid_key k" "c \<in> set k"
  shows "(of_char c :: nat) < 128"
proof -
  have "c = CHR ''/'' \<or> is_key_byte c"
    using valid_key_bytes [OF assms(1)] assms(2) by (simp only: list_all_iff)
  then show ?thesis by (elim disjE) (simp_all only: is_key_byte_ascii, simp)
qed

lemma valid_key_utf8: "valid_key k \<Longrightarrow> is_utf8 (drop p k)"
  using valid_key_ascii in_set_dropD by (fastforce intro: is_utf8_ascii)

lemma ascii_char_boundary:
  "(\<And>c. c \<in> set s \<Longrightarrow> (of_char c :: nat) < 128) \<Longrightarrow> p \<le> length s \<Longrightarrow> is_char_boundary s p"
  using nth_mem [of p s] by (fastforce simp: is_char_boundary_def utf8_tail_def)

lemma str_prefix_shared:
  "(prior = [] \<or> valid_key prior) \<Longrightarrow>
     str_prefix prior (shared_prefix prior k) = Some (take (shared_prefix prior k) k)"
  using ascii_char_boundary [of prior "shared_prefix prior k"] valid_key_ascii [of prior]
    shared_prefix_le [of prior k] shared_prefix_take [of prior k]
  by (auto simp: str_prefix_def)

lemma packable_tl: "packable (Inl l # xs) \<Longrightarrow> packable xs"
  by (cases xs) auto

lemma packable_tl2: "packable (Inr c # xs) \<Longrightarrow> packable xs \<and> (xs = [] \<or> (\<exists>l r. xs = Inl l # r))"
  by (cases "Inr c # xs" rule: packable.cases) auto

lemma deser_pack:
  "packable xs \<Longrightarrow> xs = [] \<or> (\<exists>l r. xs = Inl l # r) \<Longrightarrow> prior = [] \<or> valid_key prior \<Longrightarrow>
     deser_entries s prior (pack prior xs) = Inr (map (unpack s) xs)"
proof (induction prior xs rule: pack.induct [case_names nil tree leaf_tree lone_leaf leaves])
  case (leaf_tree prior l c xs)
  then have "packable xs" "xs = [] \<or> (\<exists>l r. xs = Inl l # r)" "valid_key (lkey l)"
    using packable_tl2 [of c xs] by auto
  with leaf_tree show ?case
    by (simp add: valid_key_utf8 str_prefix_shared ensure_valid_key_def Let_def del: packable.simps)
next
  case (lone_leaf prior l)
  then show ?case
    by (simp add: valid_key_utf8 str_prefix_shared ensure_valid_key_def Let_def)
next
  case (leaves prior l m xs)
  then show ?case
    by (simp add: valid_key_utf8 str_prefix_shared ensure_valid_key_def Let_def)
qed auto

definition pred_opt :: "nat option \<Rightarrow> nat option" where
  "pred_opt lay = Option.bind lay (\<lambda>l. case l of 0 \<Rightarrow> None | Suc k \<Rightarrow> Some k)"

lemma deserialize_pack:
  "packable xs \<Longrightarrow> deserialize (node_pack xs) lay = Inr (map (unpack (pred_opt lay)) xs)"
proof (induction xs rule: node_pack.induct)
  case (1 c xs)
  then show ?case
    using packable_tl2 [of c xs] by (simp add: deserialize_def deser_pack pred_opt_def Let_def)
qed (simp_all add: deserialize_def deser_pack pred_opt_def Let_def)

lemma unpack_inj: "unpack s x = unpack s y \<Longrightarrow> x = y"
  by (auto simp: unpack_def unread_def split: sum.splits)

lemma node_pack_inj: "packable xs \<Longrightarrow> packable ys \<Longrightarrow> node_pack xs = node_pack ys \<Longrightarrow> xs = ys"
proof -
  assume "packable xs" "packable ys" "node_pack xs = node_pack ys"
  then have "map (unpack None) xs = map (unpack None) ys"
    using deserialize_pack [of xs None] deserialize_pack [of ys None]
    by (simp add: pred_opt_def)
  then show "xs = ys"
    using unpack_inj by (metis inj_map_eq_map injI)
qed

lemma node_pack_first:
  "packable xs \<Longrightarrow>
     getopt (nd_e (node_pack xs)) 0 = None \<and> (\<forall>l. Inl l \<notin> set xs)
     \<or> (\<exists>l e. getopt (nd_e (node_pack xs)) 0 = Some e \<and> te_k e = lkey l \<and> Inl l \<in> set xs)"
proof -
  have first: "(ys = [] \<and> pack [] ys = [])
      \<or> (\<exists>l r e es. ys = Inl l # r \<and> pack [] ys = e # es \<and> te_k e = lkey l)"
    if start: "ys = [] \<or> (\<exists>l r. ys = Inl l # r)" for ys :: "('c leaf + 'c) list"
  proof (cases "ys = []")
    case False
    then obtain l r where ys: "ys = Inl l # r" using start by blast
    show ?thesis unfolding ys
    proof (cases r)
      case (Cons x q)
      then show "(Inl l # r = [] \<and> pack [] (Inl l # r) = []) \<or>
          (\<exists>k q e es. Inl l # r = Inl k # q \<and> pack [] (Inl l # r) = e # es \<and> te_k e = lkey k)"
        by (cases x) auto
    qed simp
  qed simp
  assume "packable xs"
  show ?thesis
  proof (cases xs rule: node_pack.cases [case_names tree nil leaf])
    case (tree c ys)
    with \<open>packable xs\<close> packable_tl2 [of c ys] first [of ys] show ?thesis by auto
  next
    case nil
    then show ?thesis by simp
  next
    case (leaf l ys)
    then show ?thesis using first [of xs] by auto
  qed
qed


section \<open>CIDs of trees\<close>

primrec tcid :: "('c, 'l) mst_lib_scheme \<Rightarrow> 'c tree \<Rightarrow> 'c"
and ecode :: "('c, 'l) mst_lib_scheme \<Rightarrow> 'c tent \<Rightarrow> 'c leaf + 'c" where
  "tcid L (Node es) = cid_for L (node_bytes L (node_pack (map (ecode L) es)))"
| "ecode L (TL l) = Inl l"
| "ecode L (TS t) = Inr (tcid L t)"

definition tnode :: "('c, 'l) mst_lib_scheme \<Rightarrow> 'c tree \<Rightarrow> 'c node_data" where
  "tnode L t = node_pack (map (ecode L) (tents t))"

primrec stored :: "('c, 'l) mst_lib_scheme \<Rightarrow> ('c \<Rightarrow> bytes option) \<Rightarrow> 'c tree \<Rightarrow> bool"
and estored :: "('c, 'l) mst_lib_scheme \<Rightarrow> ('c \<Rightarrow> bytes option) \<Rightarrow> 'c tent \<Rightarrow> bool" where
  "stored L M (Node es) \<longleftrightarrow>
     M (tcid L (Node es)) = Some (node_bytes L (node_pack (map (ecode L) es)))
     \<and> list_all (estored L M) es"
| "estored L M (TL l) = True"
| "estored L M (TS t) = stored L M t"

primrec tcids :: "('c, 'l) mst_lib_scheme \<Rightarrow> 'c tree \<Rightarrow> 'c list"
and ecids :: "('c, 'l) mst_lib_scheme \<Rightarrow> 'c tent \<Rightarrow> 'c list" where
  "tcids L (Node es) = tcid L (Node es) # concat (map (ecids L) es)"
| "ecids L (TL l) = []"
| "ecids L (TS t) = tcids L t"

lemma codec_bytes:
  "codec_ok L \<Longrightarrow> node_to_vec L d = Inr (node_bytes L d) \<and> node_from_slice L (node_bytes L d) = Inr d"
proof -
  assume "codec_ok L"
  then obtain b where "node_to_vec L d = Inr b" "node_from_slice L b = Inr d"
    unfolding codec_ok_def by blast
  then show ?thesis by (simp add: node_bytes_def)
qed

lemma node_bytes_inj:
  assumes "codec_ok L" "node_bytes L d = node_bytes L e"
  shows "d = e"
proof -
  have "node_from_slice L (node_bytes L d) = Inr d" "node_from_slice L (node_bytes L e) = Inr e"
    using codec_bytes [OF assms(1)] by blast+
  then have "(Inr d :: string + _) = Inr e" by (simp only: assms(2))
  then show ?thesis by (rule sum.inject(2) [THEN iffD1])
qed

lemma packable_Inr: "packable (Inr a # xs) \<longleftrightarrow> packable xs \<and> (xs = [] \<or> (\<exists>l r. xs = Inl l # r))"
  by (cases "Inr a # xs" rule: packable.cases) auto

lemma packable_wf: "list_all (ent_wf L n) es \<Longrightarrow> no_adj es \<Longrightarrow> packable (map (ecode K) es)"
proof (induction es)
  case (Cons e es)
  then show ?case by (cases e) (auto simp: packable_Inr no_adj_TS)
qed simp

lemma packable_tree: "tree_wf L n t \<Longrightarrow> packable (map (ecode K) (tents t))"
  by (cases t) (auto intro: packable_wf)

lemma list_all2_ecode: "map (ecode L) es = map (ecode L) fs \<Longrightarrow>
    list_all2 (\<lambda>e f. ecode L e = ecode L f) es fs"
  by (induction es arbitrary: fs) (auto simp: Cons_eq_map_conv)

text \<open>Two stored trees under one CID are one tree.\<close>

lemma stored_inj:
  assumes "codec_ok L"
  shows "stored L M s \<Longrightarrow> stored L M t \<Longrightarrow> tree_wf L m s \<Longrightarrow> tree_wf L n t \<Longrightarrow> tcid L s = tcid L t \<Longrightarrow> s = t"
    and "estored L M e \<Longrightarrow> estored L M f \<Longrightarrow> ent_wf L m e \<Longrightarrow> ent_wf L n f \<Longrightarrow> ecode L e = ecode L f \<Longrightarrow> e = f"
proof (induction s and e arbitrary: t m n and f m n)
  case (Node es)
  obtain fs where t: "t = Node fs" by (cases t)
  have "node_bytes L (node_pack (map (ecode L) es)) = node_bytes L (node_pack (map (ecode L) fs))"
    using Node.prems(1,2,5) t by (simp del: tcid.simps)
  then have "node_pack (map (ecode L) es) = node_pack (map (ecode L) fs)"
    by (rule node_bytes_inj [OF assms])
  then have "map (ecode L) es = map (ecode L) fs"
    using Node.prems(3,4) t by (auto intro: node_pack_inj packable_wf)
  then have "list_all2 (\<lambda>e f. ecode L e = ecode L f) es fs"
    by (rule list_all2_ecode)
  then have "list_all2 (=) es fs"
  proof (rule list.rel_mono_strong)
    fix e f assume ef: "e \<in> set es" "f \<in> set fs" "ecode L e = ecode L f"
    have "estored L M e" "estored L M f" "ent_wf L m e" "ent_wf L n f"
      using Node.prems(1-4) t ef(1,2) by (simp_all add: list_all_iff)
    then show "e = f"
      by (rule Node.IH [OF ef(1)]) (rule ef(3))
  qed
  then show ?case using t by (simp add: list.rel_eq)
next
  case (TL l)
  then show ?case by (cases f) auto
next
  case (TS s)
  then show ?case by (cases f) auto
qed


section \<open>Representation\<close>

definition hint :: "nat \<Rightarrow> nat option \<Rightarrow> bool" where
  "hint n lay \<longleftrightarrow> lay = None \<or> lay = Some n"

fun rep :: "('c, 'l) mst_lib_scheme \<Rightarrow> ('c \<Rightarrow> bytes option) \<Rightarrow> nat \<Rightarrow> 'c mst \<Rightarrow> 'c tree \<Rightarrow> bool"
and erep :: "('c, 'l) mst_lib_scheme \<Rightarrow> ('c \<Rightarrow> bytes option) \<Rightarrow> nat \<Rightarrow> 'c entry \<Rightarrow> 'c tent \<Rightarrow> bool" where
  "rep L M n (Mst None lay ptr) t \<longleftrightarrow> hint n lay \<and> ptr = Some (tcid L t) \<and> stored L M t"
| "rep L M n (Mst (Some es) lay ptr) (Node fs) \<longleftrightarrow>
     hint n lay \<and> (ptr = None \<or> ptr = Some (tcid L (Node fs))) \<and> list_all2 (erep L M n) es fs"
| "erep L M n (ELeaf l) (TL k) \<longleftrightarrow> l = k"
| "erep L M n (ETree t) (TS s) \<longleftrightarrow> rep L M (n - 1) t s"
| "erep L M n (ELeaf l) (TS s) = False"
| "erep L M n (ETree t) (TL k) = False"

lemma zip_size_left:
  "(e, f) \<in> set (zip es fs) \<Longrightarrow> size e < Suc (size_list size es)"
  by (meson le_imp_less_Suc set_zip_leftD size_list_estimation' order_refl)

function pend :: "('c, 'l) mst_lib_scheme \<Rightarrow> 'c mst \<Rightarrow> 'c tree \<Rightarrow> 'c list"
and epend :: "('c, 'l) mst_lib_scheme \<Rightarrow> 'c entry \<Rightarrow> 'c tent \<Rightarrow> 'c list" where
  "pend L (Mst None lay ptr) t = tcids L t"
| "pend L (Mst (Some es) lay ptr) (Node fs) = concat (map (\<lambda>(e, f). epend L e f) (zip es fs))"
| "epend L (ETree t) (TS s) = pend L t s"
| "epend L (ELeaf l) f = []"
| "epend L (ETree t) (TL k) = []"
  by pat_completeness auto
termination
  by (relation "measure (case_sum (\<lambda>(L, t, s). size t) (\<lambda>(L, e, f). size e))")
    (auto dest!: zip_size_left)

abbreviation pends :: "('c, 'l) mst_lib_scheme \<Rightarrow> 'c entry list \<Rightarrow> 'c tent list \<Rightarrow> 'c list" where
  "pends L es fs \<equiv> concat (map (\<lambda>(e, f). epend L e f) (zip es fs))"

lemma erep_iff [simp]:
  "erep L M n e (TL k) \<longleftrightarrow> e = ELeaf k"
  "erep L M n e (TS s) \<longleftrightarrow> (\<exists>t. e = ETree t \<and> rep L M (n - 1) t s)"
  by (cases e; auto)+

lemma erep_entry [simp]:
  "erep L M n (ELeaf l) f \<longleftrightarrow> f = TL l"
  "erep L M n (ETree t) f \<longleftrightarrow> (\<exists>s. f = TS s \<and> rep L M (n - 1) t s)"
  by (cases f; auto)+

lemma rep_loaded:
  "rep L M n (Mst (Some es) lay ptr) t \<longleftrightarrow>
     (\<exists>fs. t = Node fs \<and> hint n lay \<and> (ptr = None \<or> ptr = Some (tcid L t))
       \<and> list_all2 (erep L M n) es fs)"
  by (cases t) auto

lemma pend_loaded: "pend L (Mst (Some es) lay ptr) t = pends L es (tents t)"
  by (cases t) simp

lemma pends_append:
  "length es = length fs \<Longrightarrow> pends L (es @ es') (fs @ fs') = pends L es fs @ pends L es' fs'"
  by simp

text \<open>A set of CIDs of non-empty stored trees whose records lie in a list.\<close>

definition covers ::
    "('c, 'l) mst_lib_scheme \<Rightarrow> ('c \<Rightarrow> bytes option) \<Rightarrow> 'c list \<Rightarrow> 'c leaf list \<Rightarrow> bool" where
  "covers L M cs ls \<longleftrightarrow>
     (\<forall>c \<in> set cs. \<exists>s m. c = tcid L s \<and> stored L M s \<and> tree_wf L m s \<and> s \<noteq> Node []
        \<and> set (tleaves s) \<subseteq> set ls)"

lemma covers_disjoint:
  assumes "codec_ok L" "covers L M cs ls" "covers L M ds ks" "set ls \<inter> set ks = {}"
  shows "set cs \<inter> set ds = {}"
proof (rule ccontr)
  assume "set cs \<inter> set ds \<noteq> {}"
  then obtain c where c: "c \<in> set cs" "c \<in> set ds" by blast
  obtain s m where s: "c = tcid L s" "stored L M s" "tree_wf L m s" "s \<noteq> Node []" "set (tleaves s) \<subseteq> set ls"
    using assms(2) c(1) unfolding covers_def by blast
  obtain t n where t: "c = tcid L t" "stored L M t" "tree_wf L n t" "set (tleaves t) \<subseteq> set ks"
    using assms(3) c(2) unfolding covers_def by blast
  have "s = t"
    by (rule stored_inj(1) [OF assms(1) s(2) t(2) s(3) t(3)]) (use s t in simp)
  then have "set (tleaves s) \<subseteq> set ls \<inter> set ks" using s(5) t(4) by simp
  then have "set (tleaves s) = {}" using assms(4) by simp
  with wf_leaves_nonempty [OF s(3,4)] show False by simp
qed

lemma covers_mono: "covers L M cs ls \<Longrightarrow> set ls \<subseteq> set ks \<Longrightarrow> covers L M cs ks"
  unfolding covers_def by blast

lemma covers_append [simp]: "covers L M (cs @ ds) ls \<longleftrightarrow> covers L M cs ls \<and> covers L M ds ls"
  unfolding covers_def by auto

lemma covers_Nil [simp]: "covers L M [] ls"
  by (simp add: covers_def)

lemma covers_entries:
  assumes "\<And>x. x \<in> set xs \<Longrightarrow> covers L M (f x) (g x)"
  shows "covers L M (concat (map f xs)) (concat (map g xs))"
  using assms
proof (induction xs)
  case (Cons x xs)
  have "covers L M (f x) (g x @ concat (map g xs))"
    "covers L M (concat (map f xs)) (g x @ concat (map g xs))"
    using Cons by (auto intro: covers_mono [of L M "f x" "g x"]
        covers_mono [of L M "concat (map f xs)" "concat (map g xs)"])
  then show ?case by simp
qed simp

lemma covers_tcids:
  "stored L M t \<Longrightarrow> tree_wf L n t \<Longrightarrow> t \<noteq> Node [] \<Longrightarrow> covers L M (tcids L t) (tleaves t)"
  "estored L M e \<Longrightarrow> ent_wf L n e \<Longrightarrow> covers L M (ecids L e) (eleaves e)"
proof (induction t and e arbitrary: n and n)
  case (Node es)
  have "covers L M (concat (map (ecids L) es)) (esleaves es)"
  proof (rule covers_entries)
    fix e assume "e \<in> set es"
    then show "covers L M (ecids L e) (eleaves e)"
      using Node.IH [of e n] Node.prems by (auto simp: list_all_iff)
  qed
  moreover have "covers L M [tcid L (Node es)] (esleaves es)"
    using Node.prems unfolding covers_def by (auto simp del: tcid.simps stored.simps tree_wf.simps)
  ultimately show ?case unfolding covers_def by simp
qed auto

lemma covers_pend:
  "rep L M n t s \<Longrightarrow> tree_wf L n s \<Longrightarrow> s \<noteq> Node [] \<Longrightarrow> covers L M (pend L t s) (tleaves s)"
  "erep L M n e f \<Longrightarrow> ent_wf L n f \<Longrightarrow> covers L M (epend L e f) (eleaves f)"
proof (induction L M n t s and L M n e f rule: rep_erep.induct)
  case (1 L M n lay ptr t)
  then show ?case using covers_tcids(1) [of L M t n] by simp
next
  case (2 L M n es lay ptr fs)
  have len: "length es = length fs" using 2 by (auto dest: list_all2_lengthD)
  have "covers L M (concat (map (\<lambda>(e, f). epend L e f) (zip es fs)))
      (concat (map (\<lambda>(e, f). eleaves f) (zip es fs)))"
  proof (rule covers_entries, clarify)
    fix e f assume ef: "(e, f) \<in> set (zip es fs)"
    then have "erep L M n e f" "f \<in> set fs" "e \<in> set es"
      using 2 by (auto simp: list_all2_iff dest: set_zip_leftD set_zip_rightD)
    then show "covers L M (epend L e f) (eleaves f)"
      using 2 by (auto simp: list_all_iff)
  qed
  moreover have "map (\<lambda>(e, f). eleaves f) (zip es fs) = map eleaves fs"
    using len by (auto simp: map_snd_zip_take intro: nth_equalityI)
  ultimately show ?case by simp
qed auto


text \<open>Nodes still to be read are all different.\<close>

lemma distinct_entries:
  assumes "codec_ok L" "keys_sorted (concat (map g xs))"
    and "\<And>x. x \<in> set xs \<Longrightarrow> covers L M (f x) (g x)"
    and "\<And>x. x \<in> set xs \<Longrightarrow> distinct (f x)"
  shows "distinct (concat (map f xs))"
  using assms(2-4)
proof (induction xs)
  case (Cons x xs)
  have "set (f x) \<inter> set (concat (map f xs)) = {}"
  proof (rule covers_disjoint [OF assms(1)])
    show "covers L M (f x) (g x)" "covers L M (concat (map f xs)) (concat (map g xs))"
      using Cons.prems(2) by (auto intro: covers_entries)
    show "set (g x) \<inter> set (concat (map g xs)) = {}"
      using Cons.prems(1) by (fastforce simp: sorted_wrt_append)
  qed
  with Cons show ?case by (simp add: sorted_wrt_append)
qed simp

lemma keys_sorted_concat:
  "keys_sorted (concat (map g xs)) \<Longrightarrow> x \<in> set xs \<Longrightarrow> keys_sorted (g x)"
  by (induction xs) (auto simp: sorted_wrt_append)

lemma size_tent_less: "TS t \<in> set es \<Longrightarrow> size t < size (Node es)"
  by (induction es) auto

lemma tcids_proper:
  "c \<in> set (tcids L t) \<Longrightarrow> tree_wf L n t \<Longrightarrow> stored L M t \<Longrightarrow>
     \<exists>s m. c = tcid L s \<and> stored L M s \<and> tree_wf L m s \<and> size s \<le> size t"
  "c \<in> set (ecids L e) \<Longrightarrow> ent_wf L n e \<Longrightarrow> estored L M e \<Longrightarrow>
     \<exists>s m. c = tcid L s \<and> stored L M s \<and> tree_wf L m s \<and> size s < size e"
proof (induction t and e arbitrary: n and n)
  case (Node es)
  show ?case
  proof (cases "c = tcid L (Node es)")
    case True
    with Node.prems show ?thesis by blast
  next
    case False
    then obtain e where e: "e \<in> set es" "c \<in> set (ecids L e)" using Node.prems(1) by auto
    have "ent_wf L n e" "estored L M e" using Node.prems(2,3) e(1) by (simp_all add: list_all_iff)
    then obtain s m where "c = tcid L s" "stored L M s" "tree_wf L m s" "size s < size e"
      using Node.IH [OF e(1) e(2)] by blast
    moreover have "size e \<le> size (Node es)"
      using size_list_estimation' [OF e(1), of "size e" size] by simp
    ultimately show ?thesis by (intro exI [of _ s] exI [of _ m]) simp
  qed
next
  case (TS t)
  then show ?case by fastforce
qed simp

lemma distinct_tcids:
  assumes "codec_ok L"
  shows "stored L M t \<Longrightarrow> tree_wf L n t \<Longrightarrow> keys_sorted (tleaves t) \<Longrightarrow> distinct (tcids L t)"
    and "estored L M e \<Longrightarrow> ent_wf L n e \<Longrightarrow> keys_sorted (eleaves e) \<Longrightarrow> distinct (ecids L e)"
proof (induction t and e arbitrary: n and n)
  case (Node es)
  have e: "ent_wf L n e" "estored L M e" "keys_sorted (eleaves e)" if "e \<in> set es" for e
    using Node.prems that keys_sorted_concat [of eleaves es e] by (simp_all add: list_all_iff)
  have "distinct (concat (map (ecids L) es))"
  proof (rule distinct_entries [OF assms, where g = eleaves])
    fix x assume "x \<in> set es"
    then show "covers L M (ecids L x) (eleaves x)" "distinct (ecids L x)"
      using e [of x] Node.IH [of x n] by (auto intro: covers_tcids)
  qed (use Node.prems in simp)
  moreover have "tcid L (Node es) \<notin> set (ecids L x)" if x: "x \<in> set es" for x
  proof
    assume "tcid L (Node es) \<in> set (ecids L x)"
    then obtain s m where s: "tcid L (Node es) = tcid L s" "stored L M s" "tree_wf L m s" "size s < size x"
      using tcids_proper(2) [OF _ e(1) [OF x] e(2) [OF x]] by metis
    have "Node es = s"
      using stored_inj(1) [OF assms Node.prems(1) s(2) Node.prems(2) s(3)] s(1) by blast
    moreover have "size x \<le> size (Node es)"
      using size_list_estimation' [OF x, of "size x" size] by simp
    ultimately show False using s(4) by simp
  qed
  ultimately show ?case by auto
qed auto

lemma distinct_pend:
  assumes "codec_ok L"
  shows "rep L M n t s \<Longrightarrow> tree_wf L n s \<Longrightarrow> keys_sorted (tleaves s) \<Longrightarrow> distinct (pend L t s)"
    and "erep L M n e f \<Longrightarrow> ent_wf L n f \<Longrightarrow> keys_sorted (eleaves f) \<Longrightarrow> distinct (epend L e f)"
  using assms
proof (induction L M n t s and L M n e f rule: rep_erep.induct)
  case (1 L M n lay ptr t)
  then show ?case using distinct_tcids(1) [of L M t n] by simp
next
  case (2 L M n es lay ptr fs)
  have len: "length es = length fs" using 2 by (auto dest: list_all2_lengthD)
  have snds: "map (\<lambda>(e, f). eleaves f) (zip es fs) = map eleaves fs"
    using len by (auto intro: nth_equalityI)
  have ef: "erep L M n e f" "ent_wf L n f" "keys_sorted (eleaves f)" "e \<in> set es" "f \<in> set fs"
    if "(e, f) \<in> set (zip es fs)" for e f
    using 2 that keys_sorted_concat [of eleaves fs f]
    by (auto simp: list_all2_iff list_all_iff dest: set_zip_leftD set_zip_rightD)
  have "distinct (pends L es fs)"
  proof (rule distinct_entries [where g = "\<lambda>(e, f). eleaves f" and M = M])
    fix x assume x: "x \<in> set (zip es fs)"
    obtain e f where "x = (e, f)" by fastforce
    with x ef [of e f] 2 show "covers L M (case x of (e, f) \<Rightarrow> epend L e f) (case x of (e, f) \<Rightarrow> eleaves f)"
      "distinct (case x of (e, f) \<Rightarrow> epend L e f)"
      by (auto intro: covers_pend)
  qed (use 2 snds in simp_all)
  then show ?case by simp
qed auto

end
