(* ===== verification/Mst_Read.thy ===== *)
theory Mst_Read
  imports Mst_Rep
begin

text \<open>
  Reading through a store: filling a node, finding its layer, looking a key up and listing the
  records, each shown to return what the represented tree holds and to leave a value that
  represents the same tree. Everything is proved from the contract of a store
  (the locale \<open>block_store\<close>), so it holds for block maps and for an account's database alike.
\<close>

section \<open>What a traversal may assume and must keep\<close>

definition ready ::
    "('c, 'l) mst_lib_scheme \<Rightarrow> ('c \<Rightarrow> bytes option) \<Rightarrow> nat \<Rightarrow> 'c mst \<Rightarrow> 'c tree \<Rightarrow> 'c set \<Rightarrow> bool" where
  "ready L M n t s seen \<longleftrightarrow>
     rep L M n t s \<and> tree_wf L n s \<and> keys_sorted (tleaves s) \<and> set (pend L t s) \<inter> seen = {}"

text \<open>Nodes move from still-to-read to seen, and nowhere else.\<close>

definition frame :: "'c set \<Rightarrow> 'c set \<Rightarrow> 'c set \<Rightarrow> 'c set \<Rightarrow> bool" where
  "frame P seen P' seen' \<longleftrightarrow> P' \<subseteq> P \<and> seen' \<subseteq> seen \<union> P \<and> P' \<inter> seen' = {}"

lemma frame_refl: "P \<inter> seen = {} \<Longrightarrow> frame P seen P seen"
  by (simp add: frame_def)

lemma frame_trans: "frame P s P' s' \<Longrightarrow> frame P' s' P'' s'' \<Longrightarrow> frame P s P'' s''"
  unfolding frame_def by blast

lemma frame_part:
  "frame P s P' s' \<Longrightarrow> Q \<inter> s = {} \<Longrightarrow> Q \<inter> P = {} \<Longrightarrow> frame (Q \<union> P) s (Q \<union> P') s'"
  unfolding frame_def by blast

lemma ready_entries:
  "ready L M n (Mst (Some es) lay ptr) s seen \<longleftrightarrow>
     hint n lay \<and> (ptr = None \<or> ptr = Some (tcid L s)) \<and> list_all2 (erep L M n) es (tents s)
     \<and> tree_wf L n s \<and> keys_sorted (tleaves s) \<and> set (pends L es (tents s)) \<inter> seen = {}"
  by (cases s) (auto simp: ready_def)

lemma unpacked_erep:
  assumes "list_all (ent_wf L n) fs" "list_all (estored L M) fs" "sub = None \<or> sub = Some (n - 1)"
  shows "list_all2 (erep L M n) (map (unpack sub) (map (ecode L) fs)) fs"
  using assms
proof (induction fs)
  case (Cons f fs)
  then show ?case by (cases f) (auto simp: unread_def hint_def)
qed simp

lemma unpacked_pends: "pends L (map (unpack sub) (map (ecode L) fs)) fs = concat (map (ecids L) fs)"
proof (induction fs)
  case (Cons f fs)
  then show ?case by (cases f) (auto simp: unread_def)
qed simp

lemma packed_layer:
  assumes "list_all (ent_wf L n) fs" "no_adj fs"
  shows "(let lay = map_option (\<lambda>e. leading_zeros L (te_k e))
            (getopt (nd_e (node_pack (map (ecode L) fs))) 0) in
         pred_opt lay = None \<or> pred_opt lay = Some (n - 1))"
proof -
  have "packable (map (ecode L) fs)" by (rule packable_wf [OF assms])
  then consider "getopt (nd_e (node_pack (map (ecode L) fs))) 0 = None"
    | l e where "getopt (nd_e (node_pack (map (ecode L) fs))) 0 = Some e" "te_k e = lkey l"
        "Inl l \<in> set (map (ecode L) fs)"
    using node_pack_first [of "map (ecode L) fs"] by fastforce
  then show ?thesis
  proof cases
    case 1
    then show ?thesis by (simp add: pred_opt_def)
  next
    case 2
    then obtain f where "f \<in> set fs" "ecode L f = Inl l" by auto
    then have "ent_wf L n (TL l)" using assms(1) by (cases f rule: tent.exhaust) (auto simp: list_all_iff)
    then have "leading_zeros L (lkey l) = n" by simp
    with 2 show ?thesis by (cases n) (auto simp: pred_opt_def)
  qed
qed

section \<open>Lists of entries\<close>

definition readys ::
    "('c, 'l) mst_lib_scheme \<Rightarrow> ('c \<Rightarrow> bytes option) \<Rightarrow> nat \<Rightarrow> 'c entry list \<Rightarrow> 'c tent list \<Rightarrow> 'c set \<Rightarrow> bool" where
  "readys L M n es fs seen \<longleftrightarrow>
     list_all2 (erep L M n) es fs \<and> list_all (ent_wf L n) fs \<and> keys_sorted (esleaves fs)
     \<and> set (pends L es fs) \<inter> seen = {}"

definition keeps ::
    "('c, 'l) mst_lib_scheme \<Rightarrow> ('c \<Rightarrow> bytes option) \<Rightarrow> nat \<Rightarrow> 'c tree \<Rightarrow> 'c mst \<Rightarrow> 'c set \<Rightarrow> 'c mst \<Rightarrow> 'c set \<Rightarrow> bool" where
  "keeps L M n s t seen t' seen' \<longleftrightarrow>
     ready L M n t' s seen' \<and> frame (set (pend L t s)) seen (set (pend L t' s)) seen'"

definition keepss ::
    "('c, 'l) mst_lib_scheme \<Rightarrow> ('c \<Rightarrow> bytes option) \<Rightarrow> nat \<Rightarrow> 'c tent list \<Rightarrow> 'c entry list \<Rightarrow> 'c set \<Rightarrow> 'c entry list \<Rightarrow> 'c set \<Rightarrow> bool" where
  "keepss L M n fs es seen es' seen' \<longleftrightarrow>
     readys L M n es' fs seen' \<and> frame (set (pends L es fs)) seen (set (pends L es' fs)) seen'"

lemma ready_loaded:
  "ready L M n (Mst (Some es) lay ptr) s seen \<longleftrightarrow>
     hint n lay \<and> (ptr = None \<or> ptr = Some (tcid L s)) \<and> no_adj (tents s) \<and> readys L M n es (tents s) seen"
  by (cases s) (auto simp: ready_def readys_def)

lemma readys_length: "readys L M n es fs seen \<Longrightarrow> length es = length fs"
  by (auto simp: readys_def dest: list_all2_lengthD)

lemma readys_append:
  assumes "length es = length fs"
  shows "readys L M n (es @ es') (fs @ fs') seen \<longleftrightarrow>
     readys L M n es fs seen \<and> readys L M n es' fs' seen
     \<and> (\<forall>x \<in> set (esleaves fs). \<forall>y \<in> set (esleaves fs'). lkey x < lkey y)"
proof -
  have "set (pends L (es @ es') (fs @ fs')) \<inter> seen = {} \<longleftrightarrow>
      set (pends L es fs) \<inter> seen = {} \<and> set (pends L es' fs') \<inter> seen = {}"
    unfolding pends_append [OF assms] set_append by blast
  moreover have "keys_sorted (esleaves (fs @ fs')) \<longleftrightarrow> keys_sorted (esleaves fs)
      \<and> keys_sorted (esleaves fs') \<and> (\<forall>x \<in> set (esleaves fs). \<forall>y \<in> set (esleaves fs'). lkey x < lkey y)"
    unfolding map_append concat_append by (simp only: keys_sorted_append flip: map_append)
  moreover have "list_all2 (erep L M n) (es @ es') (fs @ fs') \<longleftrightarrow>
      list_all2 (erep L M n) es fs \<and> list_all2 (erep L M n) es' fs'"
    using assms by (simp add: list_all2_append)
  ultimately show ?thesis
    unfolding readys_def list_all_append by blast
qed

lemma covers_pends:
  assumes "readys L M n es fs seen"
  shows "covers L M (pends L es fs) (esleaves fs)"
proof -
  have "covers L M (pends L es fs) (concat (map (\<lambda>(e, f). eleaves f) (zip es fs)))"
  proof (rule covers_entries, clarify)
    fix e f assume "(e, f) \<in> set (zip es fs)"
    then have "erep L M n e f" "ent_wf L n f"
      using assms by (auto simp: readys_def list_all2_iff list_all_iff dest: set_zip_rightD)
    then show "covers L M (epend L e f) (eleaves f)" by (rule covers_pend(2))
  qed
  moreover have "map (\<lambda>(e, f). eleaves f) (zip es fs) = map eleaves fs"
    using readys_length [OF assms] by (auto intro: nth_equalityI)
  ultimately show ?thesis by simp
qed

lemma readys_disjoint:
  assumes "codec_ok L" "readys L M n (es @ es') (fs @ fs') seen" "length es = length fs"
  shows "set (pends L es fs) \<inter> set (pends L es' fs') = {}"
proof (rule covers_disjoint [OF assms(1)])
  have r: "readys L M n es fs seen" "readys L M n es' fs' seen"
    "\<forall>x \<in> set (esleaves fs). \<forall>y \<in> set (esleaves fs'). lkey x < lkey y"
    using assms(2) by (simp_all add: readys_append [OF assms(3)])
  show "covers L M (pends L es fs) (esleaves fs)" "covers L M (pends L es' fs') (esleaves fs')"
    by (rule covers_pends [OF r(1)], rule covers_pends [OF r(2)])
  show "set (esleaves fs) \<inter> set (esleaves fs') = {}" using r(3) by fastforce
qed

lemma keepss_refl: "readys L M n es fs seen \<Longrightarrow> keepss L M n fs es seen es seen"
  by (auto simp: keepss_def readys_def intro!: frame_refl)

lemma keepss_trans:
  "keepss L M n fs es seen es' seen' \<Longrightarrow> keepss L M n fs es' seen' es'' seen'' \<Longrightarrow>
     keepss L M n fs es seen es'' seen''"
  by (auto simp: keepss_def intro: frame_trans)

lemma keeps_trans:
  "keeps L M n s t seen t' seen' \<Longrightarrow> keeps L M n s t' seen' t'' seen'' \<Longrightarrow>
     keeps L M n s t seen t'' seen''"
  by (auto simp: keeps_def intro: frame_trans)

lemma keeps_refl: "ready L M n t s seen \<Longrightarrow> keeps L M n s t seen t seen"
  by (auto simp: keeps_def ready_def intro!: frame_refl)

lemma readys_frame:
  assumes "readys L M n es fs seen" "frame P seen P' seen'" "set (pends L es fs) \<inter> P = {}"
  shows "readys L M n es fs seen'"
  using assms unfolding readys_def frame_def by blast

lemma keepss_right:
  assumes "codec_ok L" "readys L M n (es @ es') (fs @ fs') seen" "length es = length fs"
    and k: "keepss L M n fs' es' seen es'' seen'"
  shows "keepss L M n (fs @ fs') (es @ es') seen (es @ es'') seen'"
proof -
  have dj: "set (pends L es fs) \<inter> set (pends L es' fs') = {}"
    by (rule readys_disjoint [OF assms(1,2,3)])
  have r: "readys L M n es fs seen" using assms(2,3) by (simp add: readys_append)
  have f: "frame (set (pends L es' fs')) seen (set (pends L es'' fs')) seen'"
    and r'': "readys L M n es'' fs' seen'" using k by (simp_all add: keepss_def)
  have "readys L M n es fs seen'" by (rule readys_frame [OF r f dj])
  then have "readys L M n (es @ es'') (fs @ fs') seen'"
    using assms(2,3) r'' by (simp add: readys_append)
  moreover have "frame (set (pends L es fs) \<union> set (pends L es' fs')) seen
      (set (pends L es fs) \<union> set (pends L es'' fs')) seen'"
    by (rule frame_part [OF f]) (use r dj in \<open>simp_all add: readys_def\<close>)
  ultimately show ?thesis
    using assms(3) by (simp add: keepss_def)
qed

lemma keepss_left:
  assumes "codec_ok L" "readys L M n (es @ es') (fs @ fs') seen" "length es = length fs"
    and k: "keepss L M n fs es seen es'' seen'"
  shows "keepss L M n (fs @ fs') (es @ es') seen (es'' @ es') seen'"
proof -
  have dj: "set (pends L es' fs') \<inter> set (pends L es fs) = {}"
    using readys_disjoint [OF assms(1,2,3)] by blast
  have r: "readys L M n es' fs' seen" using assms(2,3) by (simp add: readys_append)
  have f: "frame (set (pends L es fs)) seen (set (pends L es'' fs)) seen'"
    and r'': "readys L M n es'' fs seen'" using k by (simp_all add: keepss_def)
  have len: "length es'' = length fs" by (rule readys_length [OF r''])
  have "readys L M n es' fs' seen'" by (rule readys_frame [OF r f dj])
  then have "readys L M n (es'' @ es') (fs @ fs') seen'"
    using assms(2,3) r'' len by (simp add: readys_append)
  moreover have "frame (set (pends L es' fs') \<union> set (pends L es fs)) seen
      (set (pends L es' fs') \<union> set (pends L es'' fs)) seen'"
    by (rule frame_part [OF f]) (use r dj in \<open>simp_all add: readys_def\<close>)
  ultimately show ?thesis
    using assms(3) len by (simp add: keepss_def Un_commute)
qed

lemma readys_tree:
  "readys L M n [ETree x] [TS s] seen \<longleftrightarrow> 0 < n \<and> s \<noteq> Node [] \<and> ready L M (n - 1) x s seen"
  by (auto simp: readys_def ready_def)

lemma keepss_tree:
  "0 < n \<Longrightarrow> s \<noteq> Node [] \<Longrightarrow>
     keepss L M n [TS s] [ETree x] seen [ETree x'] seen' \<longleftrightarrow> keeps L M (n - 1) s x seen x' seen'"
  by (simp add: keepss_def keeps_def readys_tree)

text \<open>Replacing one subtree by another value for the same subtree.\<close>

lemma readys_inside:
  assumes "readys L M n (exs @ ETree x # eys) (xs @ TS s # ys) seen" "length exs = length xs"
  shows "0 < n" "s \<noteq> Node []" "ready L M (n - 1) x s seen"
proof -
  have "readys L M n ([ETree x] @ eys) ([TS s] @ ys) seen"
    using assms by (simp add: readys_append)
  then have "readys L M n [ETree x] [TS s] seen" by (subst (asm) readys_append) simp_all
  then show "0 < n" "s \<noteq> Node []" "ready L M (n - 1) x s seen" by (simp_all add: readys_tree)
qed

lemma keepss_inside:
  assumes "codec_ok L" "readys L M n (exs @ ETree x # eys) (xs @ TS s # ys) seen"
    "length exs = length xs" "keeps L M (n - 1) s x seen x' seen'"
  shows "keepss L M n (xs @ TS s # ys) (exs @ ETree x # eys) seen (exs @ ETree x' # eys) seen'"
proof -
  note ins = readys_inside [OF assms(2,3)]
  have "readys L M n ([ETree x] @ eys) ([TS s] @ ys) seen"
    using assms(2,3) by (simp add: readys_append)
  then have "keepss L M n ([TS s] @ ys) ([ETree x] @ eys) seen ([ETree x'] @ eys) seen'"
    by (rule keepss_left [OF assms(1)]) (use ins assms(4) in \<open>simp_all add: keepss_tree\<close>)
  then show ?thesis
    using keepss_right [OF assms(1), of M n exs "[ETree x] @ eys" xs "[TS s] @ ys"] assms(2,3)
    by simp
qed

lemma keeps_loaded:
  assumes "ready L M n (Mst (Some es) lay ptr) s seen" "keepss L M n (tents s) es seen es' seen'"
    "hint n lay'"
  shows "keeps L M n s (Mst (Some es) lay ptr) seen (Mst (Some es') lay' ptr) seen'"
  using assms by (auto simp: keeps_def keepss_def ready_loaded pend_loaded)

section \<open>Where a key falls\<close>

definition khead :: "string \<Rightarrow> 'c tent list \<Rightarrow> 'c leaf option" where
  "khead key ys = (case ys of TL l # _ \<Rightarrow> if lkey l = key then Some l else None | _ \<Rightarrow> None)"

lemma khead_Some: "khead key ys = Some l \<longleftrightarrow> lkey l = key \<and> (\<exists>r. ys = TL l # r)"
  by (auto simp: khead_def split: list.splits tent.splits if_splits)

lemma index_of_tindex: "list_all2 (erep L M n) es fs \<Longrightarrow> index_of es key = tindex fs key"
proof (induction es fs rule: list_all2_induct)
  case (Cons e es f fs)
  then show ?case by (cases f) auto
qed simp

lemma getopt_head:
  "list_all2 (erep L M n) es fs \<Longrightarrow>
     (case getopt es 0 of Some (ELeaf l) \<Rightarrow> if lkey l = key then Some l else None | _ \<Rightarrow> None)
     = khead key fs"
proof (cases fs)
  case (Cons f gs)
  assume "list_all2 (erep L M n) es fs"
  with Cons show ?thesis by (cases f) (auto simp: khead_def list_all2_Cons2)
qed (simp add: khead_def)

lemma prev_tree_Suc: "prev_tree (exs @ ETree x # eys) (Suc (length exs)) = Some (length exs, x)"
  by (simp add: prev_tree_def)

lemma prev_tree_leafy:
  assumes "list_all2 (erep L M n) exs xs" "ends_leaf xs"
  shows "prev_tree (exs @ eys) (length exs) = None"
proof (cases exs rule: rev_cases)
  case (snoc zs e)
  then obtain ys l where "xs = ys @ [TL l]"
    using assms by (auto simp: ends_leaf_def list_all2_Nil2)
  with snoc assms(1) have "e = ELeaf l" by (auto simp: list_all2_append1 list_all2_Cons1)
  with snoc show ?thesis by (simp add: prev_tree_def getopt_def nth_append)
qed (simp add: prev_tree_def)

lemma locate:
  assumes "list_all2 (erep L M n) es fs" "no_adj fs" "keys_sorted (esleaves fs)"
  obtains (between) exs eys xs ys where "es = exs @ eys" "fs = xs @ ys"
      "length exs = length xs" "length eys = length ys"
      "index_of es key = length exs" "prev_tree es (length exs) = None"
      "leaf_hit es (length exs) key = khead key ys"
      "below key xs" "ends_leaf xs" "from_key key ys"
  | (inside) exs x eys xs s ys where "es = exs @ ETree x # eys" "fs = xs @ TS s # ys"
      "length exs = length xs" "length eys = length ys"
      "index_of es key = Suc (length exs)" "prev_tree es (Suc (length exs)) = Some (length exs, x)"
      "leaf_hit es (Suc (length exs)) key = khead key ys"
      "below key xs" "ends_leaf xs" "from_key key ys"
  using assms(2,3)
proof (cases rule: tindex_split [of fs key, case_names btw ins])
  case (btw xs ys)
  then obtain exs eys where es: "es = exs @ eys" "list_all2 (erep L M n) exs xs"
      "list_all2 (erep L M n) eys ys"
    using assms(1) by (auto simp: list_all2_append2)
  have len: "length exs = length xs" "length eys = length ys"
    using es by (auto dest: list_all2_lengthD)
  show thesis
  proof (rule between [OF es(1) btw(1) len])
    show "index_of es key = length exs" using btw(2) len index_of_tindex [OF assms(1)] by simp
    show "prev_tree es (length exs) = None" unfolding es(1) by (rule prev_tree_leafy [OF es(2) btw(4)])
    show "leaf_hit es (length exs) key = khead key ys"
      using getopt_head [OF es(3), of key] by (simp add: leaf_hit_def es(1))
  qed (fact btw)+
next
  case (ins xs s ys)
  then obtain exs x eys where es: "es = exs @ ETree x # eys" "list_all2 (erep L M n) exs xs"
      "list_all2 (erep L M n) eys ys"
    using assms(1) by (auto simp: list_all2_append2 list_all2_Cons2)
  have len: "length exs = length xs" "length eys = length ys"
    using es by (auto dest: list_all2_lengthD)
  have hd: "getopt es (Suc (length exs)) = getopt eys 0"
    using getopt_append_length [of "exs @ [ETree x]" eys] es(1) by simp
  show thesis
  proof (rule inside [OF es(1) ins(1) len])
    show "index_of es key = Suc (length exs)" using ins(2) len index_of_tindex [OF assms(1)] by simp
    show "prev_tree es (Suc (length exs)) = Some (length exs, x)"
      unfolding es(1) by (rule prev_tree_Suc)
    show "leaf_hit es (Suc (length exs)) key = khead key ys"
      using getopt_head [OF es(3), of key] by (simp add: leaf_hit_def hd)
  qed (fact ins)+
qed

text \<open>What a lookup finds on each side of that place.\<close>

lemma map_of_kv_below: "\<forall>l \<in> set ls. lkey l < key \<Longrightarrow> map_of (map kv ls) key = None"
  by (fastforce simp: map_of_eq_None_iff)

lemma map_of_kv_above: "\<forall>l \<in> set ls. key < lkey l \<Longrightarrow> map_of (map kv ls) key = None"
  by (fastforce simp: map_of_eq_None_iff)

lemma map_of_from_key:
  assumes "from_key key ys" "keys_sorted (esleaves ys)"
  shows "map_of (map kv (esleaves ys)) key = map_option lvalue (khead key ys)"
proof (cases "ys = []")
  case False
  then obtain l r where ys: "ys = TL l # r" "key \<le> lkey l"
    using assms(1) by (auto simp: from_key_def)
  then have "\<forall>k \<in> set (esleaves r). key < lkey k" using assms(2) by fastforce
  then show ?thesis
    using map_of_kv_above [of "esleaves r" key] ys by (simp add: khead_def kv_def)
qed (simp add: khead_def)

lemma lookup_between:
  assumes "below key xs" "from_key key ys" "keys_sorted (esleaves (xs @ ys))"
  shows "map_of (map kv (esleaves (xs @ ys))) key = map_option lvalue (khead key ys)"
  using map_of_from_key [OF assms(2)] map_of_kv_below [of "esleaves xs" key] assms(1,3)
  by (simp add: below_def sorted_wrt_append map_add_def split: option.splits)

lemma lookup_inside:
  assumes "below key xs" "from_key key ys" "keys_sorted (esleaves (xs @ TS s # ys))"
  shows "map_of (map kv (esleaves (xs @ TS s # ys))) key =
    (case khead key ys of Some l \<Rightarrow> Some (lvalue l) | None \<Rightarrow> map_of (records_of s) key)"
proof -
  have t: "map_of (map kv (esleaves ys)) key = map_option lvalue (khead key ys)"
    by (rule map_of_from_key [OF assms(2)]) (use assms(3) in \<open>simp add: sorted_wrt_append\<close>)
  have b: "map_of (map kv (esleaves xs)) key = None"
    by (rule map_of_kv_below) (use assms(1) in \<open>simp add: below_def\<close>)
  have "map_of (records_of s) key = None" if "khead key ys = Some l" for l
    by (rule map_of_kv_below)
      (use that assms(3) in \<open>auto simp: khead_Some sorted_wrt_append\<close>)
  with t b show ?thesis
    by (auto simp: map_add_def split: option.splits)
qed

section \<open>Filling a node\<close>

context block_store
begin

lemma fill_ok:
  assumes "codec_ok L" "ready L M n t s seen"
  shows "\<exists>es seen'. fill L st t seen = Inr (Mst (Some es) (m_layer t) (m_pointer t), seen')
    \<and> ready L M n (Mst (Some es) (m_layer t) (m_pointer t)) s seen'
    \<and> frame (set (pend L t s)) seen (set (pends L es (tents s))) seen'"
proof (cases t)
  case (Mst e lay ptr)
  show ?thesis
  proof (cases e)
    case (Some es)
    with assms(2) Mst show ?thesis
      by (auto simp: fill_def pend_loaded ready_entries intro!: frame_refl)
  next
    case None
    obtain fs where s: "s = Node fs" by (cases s)
    have r: "hint n lay" "ptr = Some (tcid L s)" "stored L M s" "tree_wf L n s"
      "keys_sorted (tleaves s)" "set (tcids L s) \<inter> seen = {}"
      using assms(2) Mst None by (auto simp: ready_def)
    define d where "d = node_pack (map (ecode L) fs)"
    define sub where "sub = pred_opt (map_option (\<lambda>e. leading_zeros L (te_k e)) (getopt (nd_e d) 0))"
    define es where "es = map (unpack sub) (map (ecode L) fs)"
    have sub: "sub = None \<or> sub = Some (n - 1)"
      using packed_layer [of L n fs] r(4) s by (simp add: sub_def d_def Let_def)
    have "M (tcid L s) = Some (node_bytes L d)" using r(3) s by (simp add: d_def)
    then have "reader_node L st (tcid L s) seen = Inr (d, insert (tcid L s) seen)"
      using r(6) s codec_bytes [OF assms(1), of d]
      by (simp add: reader_node_def read_block_present decode_def)
    moreover have "deserialize d (map_option (\<lambda>e. leading_zeros L (te_k e)) (getopt (nd_e d) 0)) = Inr es"
      unfolding es_def sub_def d_def
      by (rule deserialize_pack) (use r(4) s in \<open>auto intro: packable_wf\<close>)
    ultimately have fill: "fill L st t seen = Inr (Mst (Some es) lay ptr, insert (tcid L s) seen)"
      using Mst None r(2) by (simp add: fill_def set_entries_def Let_def)
    have er: "list_all2 (erep L M n) es fs"
      unfolding es_def using r(3,4) s sub by (intro unpacked_erep) auto
    have pe: "pends L es fs = concat (map (ecids L) fs)"
      unfolding es_def by (rule unpacked_pends)
    have "distinct (tcids L s)" by (rule distinct_tcids(1) [OF assms(1) r(3,4,5)])
    then have dj: "tcid L s \<notin> set (pends L es fs)" using s pe by (auto simp del: tcid.simps)
    moreover have "set (tcids L s) = insert (tcid L s) (set (pends L es fs))"
      using s pe by (simp del: tcid.simps)
    ultimately have "frame (set (pend L t s)) seen (set (pends L es fs)) (insert (tcid L s) seen)"
      using r(6) Mst None unfolding frame_def by auto
    moreover from this have "set (pends L es fs) \<inter> insert (tcid L s) seen = {}"
      unfolding frame_def by blast
    ultimately show ?thesis
      using fill er r s Mst by (auto simp: ready_entries simp del: tcid.simps)
  qed
qed

lemma entries_ok:
  assumes "codec_ok L" "ready L M n t s seen"
  obtains es fs seen' where "s = Node fs"
    "entries_in L st t seen = Inr (es, Mst (Some es) (m_layer t) (m_pointer t), seen')"
    "keeps L M n s t seen (Mst (Some es) (m_layer t) (m_pointer t)) seen'"
    "readys L M n es fs seen'" "no_adj fs" "hint n (m_layer t)"
proof -
  obtain es seen' where f: "fill L st t seen = Inr (Mst (Some es) (m_layer t) (m_pointer t), seen')"
      "ready L M n (Mst (Some es) (m_layer t) (m_pointer t)) s seen'"
      "frame (set (pend L t s)) seen (set (pends L es (tents s))) seen'"
    using fill_ok [OF assms] by blast
  show thesis
  proof (rule that [of "tents s"])
    show "entries_in L st t seen = Inr (es, Mst (Some es) (m_layer t) (m_pointer t), seen')"
      using f(1) by (simp add: entries_in_def the_entries_def)
    show "keeps L M n s t seen (Mst (Some es) (m_layer t) (m_pointer t)) seen'"
      using f(2,3) by (simp add: keeps_def pend_loaded)
  qed (use f(2) in \<open>simp_all add: ready_loaded\<close>)
qed


section \<open>The layer of a node\<close>

lemma first_leaf_zeros_ok:
  "list_all2 (erep L M n) es fs \<Longrightarrow> list_all (ent_wf L n) fs \<Longrightarrow>
     first_leaf_zeros L es = None \<and> (\<forall>l. TL l \<notin> set fs) \<or> first_leaf_zeros L es = Some n"
proof (induction es fs rule: list_all2_induct)
  case (Cons e es f fs)
  then show ?case by (cases f) auto
qed simp

lemma all_trees_single:
  assumes "no_adj fs" "\<forall>l. TL l \<notin> set fs" "fs \<noteq> []"
  shows "\<exists>s. fs = [TS s]"
proof -
  obtain e r where fs: "fs = e # r" using assms(3) by (cases fs) auto
  then obtain s where "e = TS s" using assms(2) by (cases e) auto
  with fs assms(1,2) show ?thesis by (auto simp: no_adj_TS)
qed

lemma find_layer_ok:
  assumes "codec_ok L"
  shows "ready L M n t s seen \<Longrightarrow> n < lv \<Longrightarrow>
    \<exists>t' seen'. find_layer lv L st t seen = Inr (if s = Node [] then m_layer t else Some n, t', seen')
      \<and> keeps L M n s t seen t' seen' \<and> m_pointer t' = m_pointer t"
proof (induction lv arbitrary: n t s seen)
  case (Suc lv)
  show ?case
  proof (cases "m_layer t")
    case (Some u)
    then have "u = n" using Suc.prems(1) by (cases t; cases "m_entries t"; cases s) (auto simp: ready_def hint_def)
    with Some show ?thesis using Suc.prems(1) by (simp add: keeps_refl)
  next
    case None
    obtain es fs seen' where e: "s = Node fs"
        "entries_in L st t seen = Inr (es, Mst (Some es) None (m_pointer t), seen')"
        "keeps L M n s t seen (Mst (Some es) None (m_pointer t)) seen'"
        "readys L M n es fs seen'" "no_adj fs"
      using entries_ok [OF assms Suc.prems(1)] None by metis
    let ?t = "Mst (Some es) None (m_pointer t)"
    have r: "ready L M n ?t s seen'" using e(3) by (simp add: keeps_def)
    have wf: "list_all2 (erep L M n) es fs" "list_all (ent_wf L n) fs"
      using e(4) by (simp_all add: readys_def)
    have lay: "keeps L M n s t seen (Mst (Some es') lay (m_pointer t)) seen''"
      if "keepss L M n fs es seen' es' seen''" "hint n lay" for es' seen'' lay
    proof (rule keeps_trans [OF e(3)])
      show "keeps L M n s ?t seen' (Mst (Some es') lay (m_pointer t)) seen''"
        by (rule keeps_loaded [OF r]) (use that e(1) in simp_all)
    qed
    show ?thesis
    proof (cases "first_leaf_zeros L es")
      case (Some z)
      then have "z = n" "fs \<noteq> []"
        using first_leaf_zeros_ok [OF wf] wf(1) by (auto dest: list_all2_lengthD)
      then show ?thesis
        using lay [OF keepss_refl [OF e(4)], of "Some n"] None e(1,2) Some by (simp add: hint_def)
    next
      case no: None
      show ?thesis
      proof (cases "fs = []")
        case True
        then have "es = []" using wf(1) by simp
        then show ?thesis
          using lay [OF keepss_refl [OF e(4)], of None] None e(1,2) True by (simp add: hint_def)
      next
        case False
        then obtain u where u: "fs = [TS u]"
          using all_trees_single [OF e(5)] first_leaf_zeros_ok [OF wf] no by auto
        then obtain x where x: "es = [ETree x]" using wf(1) by (auto simp: list_all2_Cons2)
        have sub: "0 < n" "u \<noteq> Node []" "ready L M (n - 1) x u seen'"
          using e(4) by (simp_all add: u x readys_tree)
        obtain x' seen'' where f: "find_layer lv L st x seen' = Inr (Some (n - 1), x', seen'')"
            "keeps L M (n - 1) u x seen' x' seen''"
          using Suc.IH [OF sub(3)] less_Suc_eq_0_disj [of n lv] Suc.prems(2) sub(1,2) by auto
        then have "keepss L M n fs es seen' [ETree x'] seen''"
          using sub by (simp add: u x keepss_tree)
        from lay [OF this, of "Some n"] show ?thesis
          using None e(1,2) f(1) sub(1) u x by (auto simp: hint_def)
      qed
    qed
  qed
qed simp

lemma layer_ok:
  assumes "codec_ok L" "ready L M n t s seen" "n < lv"
    and "s = Node [] \<Longrightarrow> m_layer t = None \<Longrightarrow> n = 0"
  obtains es ptr seen' where
    "layer_in lv L st t seen = Inr (n, Mst es (Some n) ptr, seen')"
    "keeps L M n s t seen (Mst es (Some n) ptr) seen'" "ptr = m_pointer t"
proof -
  obtain t' seen' where f: "find_layer lv L st t seen
        = Inr (if s = Node [] then m_layer t else Some n, t', seen')"
      "keeps L M n s t seen t' seen'" "m_pointer t' = m_pointer t"
    using find_layer_ok [OF assms(1,2,3)] by blast
  have "m_layer t = None \<or> m_layer t = Some n"
    using assms(2) by (cases t; cases "m_entries t"; cases s) (auto simp: ready_def hint_def)
  then have lay: "(case if s = Node [] then m_layer t else Some n of None \<Rightarrow> 0 | Some l \<Rightarrow> l) = n"
    using assms(4) by auto
  show thesis
  proof (rule that)
    show "layer_in lv L st t seen = Inr (n, Mst (m_entries t') (Some n) (m_pointer t'), seen')"
      using f(1) lay by (simp add: layer_in_def Let_def)
    show "keeps L M n s t seen (Mst (m_entries t') (Some n) (m_pointer t')) seen'"
      using f(2) by (cases t'; cases "m_entries t'"; cases s)
        (auto simp: keeps_def ready_def hint_def)
  qed (fact f(3))
qed


section \<open>Looking a key up\<close>

lemma get_in_ok:
  assumes "codec_ok L"
  shows "ready L M n t s seen \<Longrightarrow> n < lv \<Longrightarrow>
    \<exists>t' seen'. get_in lv L st t key seen = Inr (map_of (records_of s) key, t', seen')
      \<and> keeps L M n s t seen t' seen'"
proof (induction lv arbitrary: n t s seen)
  case (Suc lv)
  obtain es fs seen' where e: "s = Node fs"
      "entries_in L st t seen = Inr (es, Mst (Some es) (m_layer t) (m_pointer t), seen')"
      "keeps L M n s t seen (Mst (Some es) (m_layer t) (m_pointer t)) seen'"
      "readys L M n es fs seen'" "no_adj fs" "hint n (m_layer t)"
    using entries_ok [OF assms Suc.prems(1)] by metis
  have r: "list_all2 (erep L M n) es fs" "keys_sorted (esleaves fs)"
    using e(4) by (simp_all add: readys_def)
  have ks: "keys_sorted (esleaves fs)" by fact
  from r(1) e(5) r(2) show ?case
  proof (cases rule: locate [where key = key])
    case (between exs eys xs ys)
    have "map_of (records_of s) key = map_option lvalue (khead key ys)"
      using lookup_between [OF between(8,10)] ks between(2) e(1) by simp
    then show ?thesis
      using e(2,3) between(1,5,6,7) by (cases "khead key ys") (simp_all add: Let_def)
  next
    case (inside exs x eys xs u ys)
    note look = lookup_inside [OF inside(8,10), of u]
    show ?thesis
    proof (cases "khead key ys")
      case (Some l)
      then show ?thesis using e(1-3) inside look ks by (auto simp: Let_def)
    next
      case None
      have sub: "0 < n" "u \<noteq> Node []" "ready L M (n - 1) x u seen'"
        using readys_inside [OF e(4) [unfolded inside(1,2)] inside(3)] by auto
      obtain x' seen'' where g: "get_in lv L st x key seen' = Inr (map_of (records_of u) key, x', seen'')"
          "keeps L M (n - 1) u x seen' x' seen''"
        using Suc.IH [OF sub(3)] less_Suc_eq_0_disj [of n lv] Suc.prems(2) sub(1) by auto
      have "keepss L M n fs es seen' (exs @ ETree x' # eys) seen''"
        unfolding inside(1,2)
        by (rule keepss_inside [OF assms e(4) [unfolded inside(1,2)] inside(3) g(2)])
      then have "keeps L M n s t seen (Mst (Some (exs @ ETree x' # eys)) (m_layer t) (m_pointer t)) seen''"
        using e(1,3,6) by (intro keeps_trans [OF e(3)] keeps_loaded) (auto simp: keeps_def)
      moreover have "get_in (Suc lv) L st t key seen =
          Inr (map_of (records_of s) key, Mst (Some (exs @ ETree x' # eys)) (m_layer t) (m_pointer t), seen'')"
        using e(1,2) inside g(1) None look ks
        by (simp add: Let_def set_entries_def list_update_append flip: inside(3))
      ultimately show ?thesis by blast
    qed
  qed
qed simp


section \<open>Listing the records\<close>

lemma visit_entries_ok:
  assumes "codec_ok L"
    and f: "\<And>x s seen. TS s \<in> set fs \<Longrightarrow> ready L M (n - 1) x s seen \<Longrightarrow> 0 < n \<Longrightarrow> s \<noteq> Node [] \<Longrightarrow>
      \<exists>x' seen'. f x seen = Inr (h s, x', seen') \<and> keeps L M (n - 1) s x seen x' seen'"
    and "readys L M n es fs seen"
  shows "\<exists>es' seen'. visit_entries f g es seen
      = Inr (concat (map (\<lambda>e. case e of TL l \<Rightarrow> g l | TS s \<Rightarrow> h s) fs), es', seen')
    \<and> keepss L M n fs es seen es' seen'"
  using assms(2-)
proof (induction fs arbitrary: es seen)
  case Nil
  then have "es = []" by (auto dest: readys_length)
  with Nil show ?case by (simp add: keepss_refl)
next
  case (Cons u fs)
  obtain e ds where es: "es = e # ds" using Cons.prems(2) by (cases es) (auto dest: readys_length)
  have ap: "readys L M n ([e] @ ds) ([u] @ fs) seen" using Cons.prems(2) es by simp
  then have r: "readys L M n [e] [u] seen" "readys L M n ds fs seen"
    by (simp_all only: readys_append [of "[e]" "[u]"] list.size)
  show ?case
  proof (cases u)
    case (TL l)
    have "e = ELeaf l" using r(1) TL by (simp add: readys_def)
    moreover obtain ds' seen' where v: "visit_entries f g ds seen
        = Inr (concat (map (\<lambda>e. case e of TL l \<Rightarrow> g l | TS s \<Rightarrow> h s) fs), ds', seen')"
        "keepss L M n fs ds seen ds' seen'"
      using Cons.IH [OF _ r(2)] Cons.prems(1) by auto
    moreover have "keepss L M n ([u] @ fs) ([e] @ ds) seen ([e] @ ds') seen'"
      by (rule keepss_right [OF assms(1) ap _ v(2)]) simp
    ultimately show ?thesis using es TL by auto
  next
    case (TS s)
    then obtain x where x: "e = ETree x" using r(1) by (auto simp: readys_def)
    have sub: "0 < n" "s \<noteq> Node []" "ready L M (n - 1) x s seen"
      using r(1) by (simp_all add: TS x readys_tree)
    obtain x' seen1 where f1: "f x seen = Inr (h s, x', seen1)" "keeps L M (n - 1) s x seen x' seen1"
      using Cons.prems(1) [OF _ sub(3,1,2)] TS by auto
    have k1: "keepss L M n ([u] @ fs) ([e] @ ds) seen ([ETree x'] @ ds) seen1"
      by (rule keepss_left [OF assms(1) ap]) (use f1(2) sub TS x in \<open>simp_all add: keepss_tree\<close>)
    then have ap1: "readys L M n ([ETree x'] @ ds) ([u] @ fs) seen1" by (simp add: keepss_def)
    then have "readys L M n ds fs seen1"
      by (simp only: readys_append [of "[ETree x']" "[u]"] list.size)
    then obtain ds' seen' where v: "visit_entries f g ds seen1
        = Inr (concat (map (\<lambda>e. case e of TL l \<Rightarrow> g l | TS s \<Rightarrow> h s) fs), ds', seen')"
        "keepss L M n fs ds seen1 ds' seen'"
      using Cons.IH [of ds seen1] Cons.prems(1) by (meson list.set_intros(2))
    have "keepss L M n ([u] @ fs) ([ETree x'] @ ds) seen1 ([ETree x'] @ ds') seen'"
      by (rule keepss_right [OF assms(1) ap1 _ v(2)]) simp
    then have "keepss L M n (u # fs) es seen (ETree x' # ds') seen'"
      using keepss_trans [OF k1] es by simp
    then show ?thesis using es TS x f1(1) v(1) by auto
  qed
qed

lemma collect_leaves_ok:
  assumes "codec_ok L"
  shows "ready L M n t s seen \<Longrightarrow> n < lv \<Longrightarrow>
    \<exists>t' seen'. collect_leaves lv L st t seen = Inr (tleaves s, t', seen')
      \<and> keeps L M n s t seen t' seen'"
proof (induction lv arbitrary: n t s seen)
  case (Suc lv)
  obtain es fs seen' where e: "s = Node fs"
      "entries_in L st t seen = Inr (es, Mst (Some es) (m_layer t) (m_pointer t), seen')"
      "keeps L M n s t seen (Mst (Some es) (m_layer t) (m_pointer t)) seen'"
      "readys L M n es fs seen'" "no_adj fs" "hint n (m_layer t)"
    using entries_ok [OF assms Suc.prems(1)] by metis
  obtain es' seen'' where v: "visit_entries (collect_leaves lv L st) (\<lambda>l. [l]) es seen'
        = Inr (concat (map (\<lambda>e. case e of TL l \<Rightarrow> [l] | TS s \<Rightarrow> tleaves s) fs), es', seen'')"
      "keepss L M n fs es seen' es' seen''"
    using visit_entries_ok [OF assms _ e(4), of "collect_leaves lv L st" tleaves "\<lambda>l. [l]"]
      Suc.IH [of "n - 1"] Suc.prems(2) by fastforce
  have "concat (map (case_tent (\<lambda>l. [l]) tleaves) fs) = tleaves s"
    unfolding e(1) tleaves.simps
    by (rule arg_cong [where f = concat], rule map_cong) (simp_all split: tent.split)
  then have "collect_leaves (Suc lv) L st t seen =
      Inr (tleaves s, Mst (Some es') (m_layer t) (m_pointer t), seen'')"
    using e(2) v(1) by (simp add: set_entries_def)
  moreover have "keeps L M n s t seen (Mst (Some es') (m_layer t) (m_pointer t)) seen''"
    using e(1,3,6) v(2) by (intro keeps_trans [OF e(3)] keeps_loaded) (auto simp: keeps_def)
  ultimately show ?case by blast
qed simp

end

end
