(* ===== verification/Mst_Write.thy ===== *)
theory Mst_Write
  imports Mst_Read
begin

text \<open>
  Writing through a store: inserting, updating and deleting a key, each shown to give a value that
  represents a well-formed tree with exactly the records a sorted map would have after the same
  operation, and to answer with the error the code documents when the key is there or missing.
\<close>

section \<open>Replacing part of a node\<close>

lemma readys_Nil [simp]: "readys L M n [] [] seen"
  by (simp add: readys_def)

lemma splice:
  assumes "codec_ok L" "readys L M n (exs @ em @ eys) (xs @ gm @ ys) seen"
    and len: "length exs = length xs" "length eys = length ys"
    and new: "readys L M n em' gm' seen'" "frame (set (pends L em gm)) seen (set (pends L em' gm')) seen'"
    and sorted: "keys_sorted (esleaves (xs @ gm' @ ys))"
  shows "readys L M n (exs @ em' @ eys) (xs @ gm' @ ys) seen'"
    and "frame (set (pends L (exs @ em @ eys) (xs @ gm @ ys))) seen
      (set (pends L (exs @ em' @ eys) (xs @ gm' @ ys))) seen'"
proof -
  have lm: "length em = length gm" using readys_length [OF assms(2)] len by simp
  have lm': "length em' = length gm'" by (rule readys_length [OF new(1)])
  have r: "readys L M n exs xs seen" "readys L M n (em @ eys) (gm @ ys) seen"
    using assms(2) by (simp_all add: readys_append [OF len(1)])
  then have r2: "readys L M n em gm seen" "readys L M n eys ys seen"
    by (simp_all add: readys_append [OF lm])
  have "set (pends L exs xs) \<inter> set (pends L (em @ eys) (gm @ ys)) = {}"
    by (rule readys_disjoint [OF assms(1,2) len(1)])
  moreover have "set (pends L em gm) \<inter> set (pends L eys ys) = {}"
    by (rule readys_disjoint [OF assms(1) r(2) lm])
  ultimately have dj: "set (pends L exs xs) \<inter> set (pends L em gm) = {}"
    "set (pends L eys ys) \<inter> set (pends L em gm) = {}"
    unfolding pends_append [OF lm] set_append by blast+
  have "readys L M n exs xs seen'" "readys L M n eys ys seen'"
    by (rule readys_frame [OF r(1) new(2) dj(1)], rule readys_frame [OF r2(2) new(2) dj(2)])
  moreover have "keys_sorted (esleaves xs @ esleaves gm' @ esleaves ys)" using sorted by simp
  ultimately show "readys L M n (exs @ em' @ eys) (xs @ gm' @ ys) seen'"
    using new(1) unfolding keys_sorted_append readys_append [OF len(1)] readys_append [OF lm']
    by simp
  have "frame (set (pends L exs xs) \<union> set (pends L eys ys) \<union> set (pends L em gm)) seen
      (set (pends L exs xs) \<union> set (pends L eys ys) \<union> set (pends L em' gm')) seen'"
    by (rule frame_part [OF new(2)]) (use r(1) r2(2) dj in \<open>unfold readys_def, blast+\<close>)
  then show "frame (set (pends L (exs @ em @ eys) (xs @ gm @ ys))) seen
      (set (pends L (exs @ em' @ eys) (xs @ gm' @ ys))) seen'"
    unfolding pends_append [OF len(1)] pends_append [OF lm] pends_append [OF lm'] set_append
    by (simp only: Un_ac)
qed

lemma no_adj_parts:
  "no_adj (xs @ ys) \<Longrightarrow> no_adj xs" "no_adj (xs @ ys) \<Longrightarrow> no_adj ys"
  by (simp_all add: no_adj_append)

text \<open>A subtree that is left out when it would be empty.\<close>

definition tsub :: "'c tent list \<Rightarrow> 'c tent list" where
  "tsub fs = (if fs = [] then [] else [TS (Node fs)])"

lemma esleaves_tsub [simp]: "esleaves (tsub fs) = esleaves fs"
  by (simp add: tsub_def)

lemma tsub_eq_Nil [simp]: "tsub fs = [] \<longleftrightarrow> fs = []"
  by (simp add: tsub_def)

lemma no_adj_tsub [simp]: "no_adj (tsub fs)"
  by (simp add: tsub_def)

lemma some_node_ready:
  assumes "readys L M n es fs seen" "no_adj fs" "hint n lay"
  shows "readys L M (Suc n) (opt_tree (some_node es lay)) (tsub fs) seen"
    and "pends L (opt_tree (some_node es lay)) (tsub fs) = pends L es fs"
proof -
  have "es = [] \<longleftrightarrow> fs = []" using readys_length [OF assms(1)] by auto
  then show "readys L M (Suc n) (opt_tree (some_node es lay)) (tsub fs) seen"
    "pends L (opt_tree (some_node es lay)) (tsub fs) = pends L es fs"
    using assms
    by (auto simp: some_node_def opt_tree_def tsub_def readys_tree from_entries_def ready_loaded)
qed

definition olayer :: "'c mst option \<Rightarrow> nat option \<Rightarrow> bool" where
  "olayer t lay \<longleftrightarrow> (\<forall>s. t = Some s \<longrightarrow> m_layer s = lay)"

lemma olayer_some_node [simp]: "olayer (some_node es lay) lay"
  by (simp add: olayer_def some_node_def from_entries_def)

text \<open>Changing one stretch of an ascending list.\<close>

lemma al_upd_append:
  "\<forall>x \<in> set xs. fst x < k \<Longrightarrow> \<forall>y \<in> set zs. k < fst y \<Longrightarrow>
     al_upd k v (xs @ ys @ zs) = xs @ al_upd k v ys @ zs"
proof (induction xs)
  case Nil
  then show ?case
  proof (induction ys)
    case Nil
    then show ?case by (cases zs) auto
  qed auto
qed auto

lemma al_del_append:
  fixes k :: "'k::linorder"
  shows "\<forall>x \<in> set xs. fst x < k \<Longrightarrow> \<forall>y \<in> set zs. k < fst y \<Longrightarrow>
     al_del k (xs @ ys @ zs) = xs @ al_del k ys @ zs"
proof (induction xs)
  case Nil
  have "al_del k zs = zs" using Nil(2) by (induction zs) auto
  then show ?case by (induction ys) auto
qed auto

lemma from_key_strict:
  assumes "from_key key ys" "khead key ys = None" "keys_sorted (esleaves ys)" "l \<in> set (esleaves ys)"
  shows "key < lkey l"
proof -
  have "ys \<noteq> []" using assms(4) by auto
  then obtain k r where ys: "ys = TL k # r" using assms(1) by (auto simp: from_key_def)
  have "key < lkey k" using assms(1,2) ys by (fastforce simp: from_key_def khead_def split: if_splits)
  moreover have "l = k \<or> lkey k < lkey l" using assms(3,4) ys by auto
  ultimately show ?thesis by auto
qed

definition beyond :: "string \<Rightarrow> 'c tent list \<Rightarrow> bool" where
  "beyond key ys \<longleftrightarrow> (\<forall>l \<in> set (esleaves ys). key < lkey l) \<and> (ys = [] \<or> (\<exists>l r. ys = TL l # r))"

lemma beyond_from_key:
  "from_key key ys \<Longrightarrow> khead key ys = None \<Longrightarrow> keys_sorted (esleaves ys) \<Longrightarrow> beyond key ys"
  unfolding beyond_def using from_key_strict [of key ys] by (auto simp: from_key_def)

lemma hint_Some: "hint n (Some n)"
  by (simp add: hint_def)

lemma ready_from_entries:
  "hint n lay \<Longrightarrow> ready L M n (from_entries es lay) (Node fs) seen \<longleftrightarrow> no_adj fs \<and> readys L M n es fs seen"
  "pend L (from_entries es lay) (Node fs) = pends L es fs"
  by (auto simp: from_entries_def ready_loaded)

lemma no_adj_join:
  assumes "no_adj (xs @ gm @ ys)" "ends_leaf xs" "no_adj gs" "beyond key ys"
  shows "no_adj (xs @ gs @ ys)"
proof -
  have "no_adj (gs @ ys)" using assms by (auto simp: no_adj_append beyond_def)
  then show ?thesis using assms(1,2) by (auto simp: no_adj_append ends_leaf_def)
qed

text \<open>The step that every write ends with: a stretch of a node replaced by another, where the
  records of the stretch change as the records of the whole are to change.\<close>

lemma write_node:
  assumes "codec_ok L" "readys L M n (exs @ em @ eys) (xs @ gm @ ys) seen" "hint n lay"
    and len: "length exs = length xs" "length eys = length ys"
    and new: "readys L M n em' gm' seen'" "frame (set (pends L em gm)) seen (set (pends L em' gm')) seen'"
    and adj: "no_adj (xs @ gm' @ ys)"
    and place: "\<forall>l \<in> set (esleaves xs). lkey l < key" "\<forall>l \<in> set (esleaves ys). key < lkey l"
    and chg: "chg = al_upd key v \<or> chg = al_del key"
    and recs: "map kv (esleaves gm') = chg (map kv (esleaves gm))"
  shows "ready L M n (from_entries (exs @ em' @ eys) lay) (Node (xs @ gm' @ ys)) seen'"
    and "frame (set (pends L (exs @ em @ eys) (xs @ gm @ ys))) seen
      (set (pend L (from_entries (exs @ em' @ eys) lay) (Node (xs @ gm' @ ys)))) seen'"
    and "records_of (Node (xs @ gm' @ ys)) = chg (map kv (esleaves (xs @ gm @ ys)))"
proof -
  have pl: "\<forall>x \<in> set (map kv (esleaves xs)). fst x < key" "\<forall>y \<in> set (map kv (esleaves ys)). key < fst y"
    using place by auto
  have "chg (map kv (esleaves (xs @ gm @ ys)))
      = map kv (esleaves xs) @ chg (map kv (esleaves gm)) @ map kv (esleaves ys)"
    by (rule disjE [OF chg]) (simp_all add: al_upd_append [OF pl] al_del_append [OF pl])
  then show r: "records_of (Node (xs @ gm' @ ys)) = chg (map kv (esleaves (xs @ gm @ ys)))"
    by (simp add: recs)
  have a: "ascending (map kv (esleaves (xs @ gm @ ys)))"
    unfolding ascending_kv using assms(2) by (simp add: readys_def)
  have "ascending (records_of (Node (xs @ gm' @ ys)))"
    unfolding r
    by (rule disjE [OF chg]) (simp_all only: ascending_al_upd [OF a] ascending_al_del [OF a])
  then have ks: "keys_sorted (esleaves (xs @ gm' @ ys))"
    unfolding ascending_kv by simp
  note sp = splice [OF assms(1,2) len new ks]
  show "ready L M n (from_entries (exs @ em' @ eys) lay) (Node (xs @ gm' @ ys)) seen'"
    using sp(1) adj by (simp only: ready_from_entries(1) [OF assms(3)])
  show "frame (set (pends L (exs @ em @ eys) (xs @ gm @ ys))) seen
      (set (pend L (from_entries (exs @ em' @ eys) lay) (Node (xs @ gm' @ ys)))) seen'"
    using sp(2) unfolding ready_from_entries(2) .
qed

section \<open>Splitting a subtree around a key\<close>

context block_store
begin

lemma split_around_ok:
  assumes "codec_ok L"
  shows "ready L M n t s seen \<Longrightarrow> n < lv \<Longrightarrow>
    \<exists>l r fl fr seen'. split_around lv L st t key seen = Inr (l, r, seen')
      \<and> readys L M (Suc n) (opt_tree l) (tsub fl) seen' \<and> readys L M (Suc n) (opt_tree r) (tsub fr) seen'
      \<and> frame (set (pend L t s)) seen
          (set (pends L (opt_tree l) (tsub fl)) \<union> set (pends L (opt_tree r) (tsub fr))) seen'
      \<and> olayer l (m_layer t) \<and> olayer r (m_layer t)
      \<and> esleaves fl @ esleaves fr = tleaves s \<and> below key fl \<and> (\<forall>k \<in> set (esleaves fr). key \<le> lkey k)"
proof (induction lv arbitrary: n t s seen)
  case (Suc lv)
  obtain es fs seen' where e: "s = Node fs"
      "entries_in L st t seen = Inr (es, Mst (Some es) (m_layer t) (m_pointer t), seen')"
      "keeps L M n s t seen (Mst (Some es) (m_layer t) (m_pointer t)) seen'"
      "readys L M n es fs seen'" "no_adj fs" "hint n (m_layer t)"
    using entries_ok [OF assms Suc.prems(1)] by metis
  have fr0: "frame (set (pend L t s)) seen (set (pends L es fs)) seen'"
    using e(1,3) by (simp add: keeps_def)
  have r: "list_all2 (erep L M n) es fs" "keys_sorted (esleaves fs)"
    using e(4) by (simp_all add: readys_def)
  from r(1) e(5) r(2) show ?case
  proof (cases rule: locate [where key = key])
    case (between exs eys xs ys)
    have p: "readys L M n exs xs seen'" "readys L M n eys ys seen'" "no_adj xs" "no_adj ys"
      using e(4,5) between(1-3) by (simp_all add: readys_append no_adj_append)
    note L = some_node_ready [OF p(1,3) e(6)] and R = some_node_ready [OF p(2,4) e(6)]
    have "frame (set (pend L t s)) seen (set (pends L exs xs) \<union> set (pends L eys ys)) seen'"
      using fr0 between(1-3) by simp
    then show ?thesis
      using e(1,2) between(1,2,5,6,8,10) L R
      by (intro exI [of _ "some_node exs (m_layer t)"] exI [of _ "some_node eys (m_layer t)"]
          exI [of _ xs] exI [of _ ys] exI [of _ seen'])
        (simp add: Let_def from_key_def)
  next
    case (inside exs x eys xs u ys)
    have rd: "readys L M n (exs @ [ETree x] @ eys) (xs @ [TS u] @ ys) seen'"
      using e(4) inside(1,2) by simp
    have sub: "0 < n" "u \<noteq> Node []" "ready L M (n - 1) x u seen'"
      using readys_inside [OF e(4) [unfolded inside(1,2)] inside(3)] by auto
    have "n - 1 < lv" using Suc.prems(2) sub(1) by simp
    then obtain l' r' fl' fr' seen'' where g: "split_around lv L st x key seen' = Inr (l', r', seen'')"
        "readys L M n (opt_tree l') (tsub fl') seen''" "readys L M n (opt_tree r') (tsub fr') seen''"
        "frame (set (pend L x u)) seen'
          (set (pends L (opt_tree l') (tsub fl')) \<union> set (pends L (opt_tree r') (tsub fr'))) seen''"
        "esleaves fl' @ esleaves fr' = tleaves u" "below key fl'" "\<forall>k \<in> set (esleaves fr'). key \<le> lkey k"
      using Suc.IH [OF sub(3)] sub(1) by (auto simp del: set_concat)
    have len: "length (opt_tree l') = length (tsub fl')" by (rule readys_length [OF g(2)])
    have ks: "keys_sorted (esleaves (xs @ [TS u] @ ys))" using r(2) inside(2) by simp
    have m: "readys L M n (opt_tree l' @ opt_tree r') (tsub fl' @ tsub fr') seen''"
    proof -
      have "keys_sorted (esleaves fl' @ esleaves fr')"
        unfolding g(5) using ks by (simp add: sorted_wrt_append)
      then show ?thesis
        unfolding readys_append [OF len] using g(2,3) by (simp add: sorted_wrt_append)
    qed
    have all: "readys L M n (exs @ (opt_tree l' @ opt_tree r') @ eys) (xs @ (tsub fl' @ tsub fr') @ ys) seen''"
      "frame (set (pends L (exs @ [ETree x] @ eys) (xs @ [TS u] @ ys))) seen'
        (set (pends L (exs @ (opt_tree l' @ opt_tree r') @ eys) (xs @ (tsub fl' @ tsub fr') @ ys))) seen''"
    proof -
      have f: "frame (set (pends L [ETree x] [TS u])) seen'
          (set (pends L (opt_tree l' @ opt_tree r') (tsub fl' @ tsub fr'))) seen''"
        using g(4) unfolding pends_append [OF len] set_append by simp
      have k: "keys_sorted (esleaves (xs @ (tsub fl' @ tsub fr') @ ys))"
        using ks by (simp flip: g(5))
      show "readys L M n (exs @ (opt_tree l' @ opt_tree r') @ eys) (xs @ (tsub fl' @ tsub fr') @ ys) seen''"
        "frame (set (pends L (exs @ [ETree x] @ eys) (xs @ [TS u] @ ys))) seen'
        (set (pends L (exs @ (opt_tree l' @ opt_tree r') @ eys) (xs @ (tsub fl' @ tsub fr') @ ys))) seen''"
        by (rule splice [OF assms rd inside(3,4) m f k])+
    qed
    have len2: "length (exs @ opt_tree l') = length (xs @ tsub fl')" using len inside(3) by simp
    have all': "readys L M n ((exs @ opt_tree l') @ (opt_tree r' @ eys)) ((xs @ tsub fl') @ (tsub fr' @ ys)) seen''"
      using all(1) by simp
    have p: "readys L M n (exs @ opt_tree l') (xs @ tsub fl') seen''"
        "readys L M n (opt_tree r' @ eys) (tsub fr' @ ys) seen''"
      using all' unfolding readys_append [OF len2] by auto
    have na: "no_adj (xs @ tsub fl')" "no_adj (tsub fr' @ ys)"
      using e(5) inside(2,9,10) by (auto simp: no_adj_append ends_leaf_def from_key_def)
    note L = some_node_ready [OF p(1) na(1) e(6)] and R = some_node_ready [OF p(2) na(2) e(6)]
    have fr1: "frame (set (pend L t s)) seen
        (set (pends L (exs @ opt_tree l') (xs @ tsub fl')) \<union> set (pends L (opt_tree r' @ eys) (tsub fr' @ ys))) seen''"
      by (rule frame_trans [OF fr0], unfold set_append [symmetric] pends_append [OF len2, symmetric])
        (use all(2) in \<open>simp only: inside(1,2) append_assoc append_Cons append_Nil\<close>)
    have lv: "esleaves (xs @ tsub fl') @ esleaves (tsub fr' @ ys) = tleaves s"
      using e(1) inside(2) by (simp flip: g(5))
    have b: "below key (xs @ tsub fl')" "\<forall>k \<in> set (esleaves (tsub fr' @ ys)). key \<le> lkey k"
      using inside(8,10) g(6,7) by (auto simp: below_def from_key_def tsub_def)
    show ?thesis
      using e(2) inside(1,5,6) g(1) L R fr1 lv b
      by (intro exI [of _ "some_node (exs @ opt_tree l') (m_layer t)"]
          exI [of _ "some_node (opt_tree r' @ eys) (m_layer t)"]
          exI [of _ "xs @ tsub fl'"] exI [of _ "tsub fr' @ ys"] exI [of _ seen''])
        (simp add: Let_def)
  qed
qed simp

section \<open>Inserting\<close>

lemma into_parent_opt_ok:
  assumes "readys L M (Suc n) (opt_tree l) (tsub fl) seen" "olayer l (Some n)"
  shows "\<exists>l'. into_parent_opt l = Inr l' \<and> readys L M (Suc (Suc n)) (opt_tree l') (tsub (tsub fl)) seen
    \<and> pends L (opt_tree l') (tsub (tsub fl)) = pends L (opt_tree l) (tsub fl) \<and> olayer l' (Some (Suc n))"
proof (cases l)
  case None
  then have "fl = []" using readys_length [OF assms(1)] by (simp add: opt_tree_def tsub_def split: if_splits)
  with None show ?thesis by (simp add: into_parent_opt_def opt_tree_def tsub_def olayer_def)
next
  case (Some x)
  then have fl: "fl \<noteq> []" using readys_length [OF assms(1)] by (auto simp: opt_tree_def tsub_def split: if_splits)
  have "ready L M n x (Node fl) seen" using assms(1) Some fl by (simp add: opt_tree_def tsub_def readys_tree)
  then have "readys L M (Suc n) [ETree x] [TS (Node fl)] seen" using fl by (simp add: readys_tree)
  then have "ready L M (Suc n) (from_entries [ETree x] (Some (Suc n))) (Node [TS (Node fl)]) seen"
    by (simp add: ready_from_entries hint_def)
  then show ?thesis
    using assms(2) Some fl
    by (simp add: into_parent_opt_def into_parent_def olayer_def opt_tree_def tsub_def readys_tree
        ready_from_entries) (simp add: from_entries_def)
qed

lemma raise_both_ok:
  "readys L M (Suc n) (opt_tree l) (tsub fl) seen \<Longrightarrow> readys L M (Suc n) (opt_tree r) (tsub fr) seen \<Longrightarrow>
   olayer l (Some n) \<Longrightarrow> olayer r (Some n) \<Longrightarrow>
   \<exists>l' r' gl gr. raise_both k l r = Inr (l', r')
     \<and> readys L M (Suc (n + k)) (opt_tree l') (tsub gl) seen \<and> readys L M (Suc (n + k)) (opt_tree r') (tsub gr) seen
     \<and> pends L (opt_tree l') (tsub gl) = pends L (opt_tree l) (tsub fl)
     \<and> pends L (opt_tree r') (tsub gr) = pends L (opt_tree r) (tsub fr)
     \<and> esleaves gl = esleaves fl \<and> esleaves gr = esleaves fr"
proof (induction k arbitrary: n l r fl fr)
  case 0
  then show ?case by auto
next
  case (Suc k)
  obtain l1 where l1: "into_parent_opt l = Inr l1" "readys L M (Suc (Suc n)) (opt_tree l1) (tsub (tsub fl)) seen"
      "pends L (opt_tree l1) (tsub (tsub fl)) = pends L (opt_tree l) (tsub fl)" "olayer l1 (Some (Suc n))"
    using into_parent_opt_ok [OF Suc.prems(1,3)] by blast
  obtain r1 where r1: "into_parent_opt r = Inr r1" "readys L M (Suc (Suc n)) (opt_tree r1) (tsub (tsub fr)) seen"
      "pends L (opt_tree r1) (tsub (tsub fr)) = pends L (opt_tree r) (tsub fr)" "olayer r1 (Some (Suc n))"
    using into_parent_opt_ok [OF Suc.prems(2,4)] by blast
  show ?case
    using Suc.IH [OF l1(2) r1(2) l1(4) r1(4)] l1(1,3) r1(1,3) by simp
qed

text \<open>A new leaf between two optional subtrees.\<close>

lemma leaf_between:
  assumes "codec_ok L" "readys L M n (opt_tree l) (tsub fl) seen" "readys L M n (opt_tree r) (tsub fr) seen"
    and "leading_zeros L key = n" "valid_key key"
    and "below key fl" "\<forall>k \<in> set (esleaves fr). key < lkey k" "keys_sorted (esleaves fl @ esleaves fr)"
  shows "readys L M n (opt_tree l @ ELeaf \<lparr>lkey = key, lvalue = v\<rparr> # opt_tree r)
      (tsub fl @ TL \<lparr>lkey = key, lvalue = v\<rparr> # tsub fr) seen"
    and "no_adj (tsub fl @ TL \<lparr>lkey = key, lvalue = v\<rparr> # tsub fr)"
    and "set (pends L (opt_tree l @ ELeaf \<lparr>lkey = key, lvalue = v\<rparr> # opt_tree r)
      (tsub fl @ TL \<lparr>lkey = key, lvalue = v\<rparr> # tsub fr))
      = set (pends L (opt_tree l) (tsub fl)) \<union> set (pends L (opt_tree r) (tsub fr))"
    and "map kv (esleaves (tsub fl @ TL \<lparr>lkey = key, lvalue = v\<rparr> # tsub fr))
      = al_upd key v (map kv (esleaves fl @ esleaves fr))"
proof -
  let ?k = "\<lparr>lkey = key, lvalue = v\<rparr>"
  have len: "length (opt_tree l) = length (tsub fl)" by (rule readys_length [OF assms(2)])
  have "readys L M n ([ELeaf ?k] @ opt_tree r) ([TL ?k] @ tsub fr) seen"
    unfolding readys_append [of "[ELeaf ?k]" "[TL ?k]", simplified]
    using assms(3-5,7) by (simp add: readys_def)
  then show "readys L M n (opt_tree l @ ELeaf ?k # opt_tree r) (tsub fl @ TL ?k # tsub fr) seen"
    unfolding readys_append [OF len] using assms(2,6,8)
    by (simp add: below_def sorted_wrt_append)
  show "no_adj (tsub fl @ TL ?k # tsub fr)" by (simp add: tsub_def)
  show "set (pends L (opt_tree l @ ELeaf ?k # opt_tree r) (tsub fl @ TL ?k # tsub fr))
      = set (pends L (opt_tree l) (tsub fl)) \<union> set (pends L (opt_tree r) (tsub fr))"
    unfolding pends_append [OF len] by simp
  have "al_upd key v (map kv (esleaves fl) @ [] @ map kv (esleaves fr))
      = map kv (esleaves fl) @ al_upd key v [] @ map kv (esleaves fr)"
    by (rule al_upd_append) (use assms(6,7) in \<open>auto simp: below_def\<close>)
  then show "map kv (esleaves (tsub fl @ TL ?k # tsub fr)) = al_upd key v (map kv (esleaves fl @ esleaves fr))"
    by simp
qed

lemma absent_above:
  assumes "tree_wf L n s" "n < leading_zeros L key"
  shows "map_of (records_of s) key = None"
proof (rule ccontr)
  assume "map_of (records_of s) key \<noteq> None"
  then obtain l where "l \<in> set (tleaves s)" "lkey l = key"
    by (auto dest!: map_of_SomeD simp: kv_def)
  with wf_leaves_zeros [OF assms(1)] assms(2) show False by fastforce
qed

lemma absent_strict:
  assumes "map_of (map kv ls) key = None" "\<forall>k \<in> set ls. key \<le> lkey k" "k \<in> set ls"
  shows "key < lkey k"
proof -
  have "key \<noteq> lkey k" using assms(1,3) by (force simp: map_of_eq_None_iff)
  with assms(2,3) show ?thesis by (simp add: order.strict_iff_order)
qed

lemma insert_above:
  assumes "codec_ok L" "ready L M n t s seen" "n < lv" "m_layer t = Some n"
    "n < leading_zeros L key" "valid_key key"
  shows "\<exists>left right seen1 t' s'. split_around lv L st t key seen = Inr (left, right, seen1)
    \<and> bindE (raise_both (leading_zeros L key - n - 1) left right) (\<lambda>(left, right).
        Inr (from_entries (opt_tree left @ ELeaf \<lparr>lkey = key, lvalue = v\<rparr> # opt_tree right)
               (Some (leading_zeros L key)), seen1)) = Inr (t', seen1)
    \<and> ready L M (leading_zeros L key) t' s' seen1
    \<and> frame (set (pend L t s)) seen (set (pend L t' s')) seen1
    \<and> records_of s' = al_upd key v (records_of s)"
proof -
  let ?z = "leading_zeros L key"
  obtain l r fl fr seen1 where g: "split_around lv L st t key seen = Inr (l, r, seen1)"
      "readys L M (Suc n) (opt_tree l) (tsub fl) seen1" "readys L M (Suc n) (opt_tree r) (tsub fr) seen1"
      "frame (set (pend L t s)) seen
          (set (pends L (opt_tree l) (tsub fl)) \<union> set (pends L (opt_tree r) (tsub fr))) seen1"
      "olayer l (Some n)" "olayer r (Some n)"
      "esleaves fl @ esleaves fr = tleaves s" "below key fl" "\<forall>k \<in> set (esleaves fr). key \<le> lkey k"
    using split_around_ok [OF assms(1-3), of key] assms(4) by (auto simp del: set_concat)
  obtain l' r' gl gr where h: "raise_both (?z - n - 1) l r = Inr (l', r')"
      "readys L M (Suc (n + (?z - n - 1))) (opt_tree l') (tsub gl) seen1"
      "readys L M (Suc (n + (?z - n - 1))) (opt_tree r') (tsub gr) seen1"
      "pends L (opt_tree l') (tsub gl) = pends L (opt_tree l) (tsub fl)"
      "pends L (opt_tree r') (tsub gr) = pends L (opt_tree r) (tsub fr)"
      "esleaves gl = esleaves fl" "esleaves gr = esleaves fr"
    using raise_both_ok [OF g(2,3,5,6)] by blast
  have z: "Suc (n + (?z - n - 1)) = ?z" using assms(5) by simp
  have wf: "tree_wf L n s" "keys_sorted (tleaves s)" using assms(2) by (simp_all add: ready_def)
  have "map_of (map kv (esleaves fr)) key = None"
    using absent_above [OF wf(1) assms(5)] g(7)
    by (metis map_add_None map_append map_of_append)
  then have fr: "\<forall>k \<in> set (esleaves gr). key < lkey k"
    using absent_strict [of "esleaves fr" key] g(9) h(7) by metis
  have ks: "keys_sorted (esleaves gl @ esleaves gr)" using wf(2) g(7) h(6,7) by metis
  have bl: "below key gl" using g(8) h(6) unfolding below_def by metis
  note lb = leaf_between [OF assms(1) h(2,3) [unfolded z] refl assms(6) bl fr ks, of v]
  let ?es = "opt_tree l' @ ELeaf \<lparr>lkey = key, lvalue = v\<rparr> # opt_tree r'"
  let ?fs = "tsub gl @ TL \<lparr>lkey = key, lvalue = v\<rparr> # tsub gr"
  have "ready L M ?z (from_entries ?es (Some ?z)) (Node ?fs) seen1"
    using lb(1,2) by (simp only: ready_from_entries(1) [OF hint_Some])
  moreover have "frame (set (pend L t s)) seen (set (pend L (from_entries ?es (Some ?z)) (Node ?fs))) seen1"
    unfolding ready_from_entries(2) lb(3) h(4,5) by (rule g(4))
  moreover have "records_of (Node ?fs) = al_upd key v (records_of s)"
    using lb(4) g(7) h(6,7) unfolding tleaves.simps by metis
  ultimately show ?thesis
    using g(1) h(1) by (intro exI [of _ l] exI [of _ r] exI [of _ seen1]
        exI [of _ "from_entries ?es (Some ?z)"] exI [of _ "Node ?fs"]) simp
qed

text \<open>A key of this layer is a leaf here; a key of a lower layer is in a subtree.\<close>

lemma lookup_here:
  assumes "ent_wf L n (TS u)" "leading_zeros L key = n"
  shows "map_of (records_of u) key = None"
proof (rule absent_above)
  show "tree_wf L (n - 1) u" using assms(1) by simp
  show "n - 1 < leading_zeros L key" using assms by simp
qed

lemma khead_zeros:
  "list_all (ent_wf L n) ys \<Longrightarrow> leading_zeros L key \<noteq> n \<Longrightarrow> khead key ys = None"
  by (auto simp: khead_def split: list.splits tent.splits)

definition grows ::
    "('c, 'l) mst_lib_scheme \<Rightarrow> nat \<Rightarrow> 'c mst \<Rightarrow> 'c tree \<Rightarrow> 'c set \<Rightarrow> string \<Rightarrow> 'c
      \<Rightarrow> 'c repo_error + ('c mst \<times> 'c set) \<Rightarrow> bool" where
  "grows L n t s seen key v r \<longleftrightarrow>
     (if map_of (records_of s) key \<noteq> None then r = Inl (KeyExists key)
      else \<exists>t' s' seen'. r = Inr (t', seen')
        \<and> ready L M (max n (leading_zeros L key)) t' s' seen'
        \<and> frame (set (pend L t s)) seen (set (pend L t' s')) seen'
        \<and> records_of s' = al_upd key v (records_of s))"

lemma growsI:
  assumes "map_of (records_of s) key = None" "r = Inr (t', seen')"
    "ready L M (max n (leading_zeros L key)) t' s' seen'"
    "frame (set (pend L t s)) seen (set (pend L t' s')) seen'"
    "records_of s' = al_upd key v (records_of s)"
  shows "grows L n t s seen key v r"
  using assms unfolding grows_def by auto

lemma al_upd_not_Nil: "al_upd k v ps \<noteq> []"
  by (cases ps) (auto split: if_splits)

lemma grown_sub:
  assumes "0 < n" "ready L M (n - 1) t' s' seen'" "records_of s' = al_upd key v ps"
  shows "readys L M n [ETree t'] [TS s'] seen'"
proof -
  have "s' \<noteq> Node []" using assms(3) al_upd_not_Nil by (metis concat.simps(1) list.map(1) tleaves.simps)
  with assms show ?thesis by (simp add: readys_tree)
qed

lemma insert_below:
  assumes c: "codec_ok L" and "readys L M n es fs seen" "no_adj fs"
    and z: "leading_zeros L key < n"
    and sub: "\<And>x u. x = from_entries [] (Some (n - 1)) \<and> u = Node [] \<or> ready L M (n - 1) x u seen \<and> u \<noteq> Node [] \<Longrightarrow>
      grows L (n - 1) x u seen key v (f x)"
    and t: "set (pend L t (Node fs)) = set (pends L es fs)"
  shows "grows L n t (Node fs) seen key v
    (case prev_tree es (index_of es key) of
       Some (j, sub) \<Rightarrow> bindE (f sub) (\<lambda>(grown, seen). Inr (from_entries (es[j := ETree grown]) (Some n), seen))
     | None \<Rightarrow> bindE (f (from_entries [] (Some (n - 1)))) (\<lambda>(grown, seen).
         Inr (from_entries (take (index_of es key) es @ ETree grown # drop (index_of es key) es) (Some n), seen)))"
proof -
  have r: "list_all2 (erep L M n) es fs" "keys_sorted (esleaves fs)" "list_all (ent_wf L n) fs"
    using assms(2) by (simp_all add: readys_def)
  have mx: "max (n - 1) (leading_zeros L key) = n - 1" "max n (leading_zeros L key) = n" using z by auto
  from r(1) assms(3) r(2) show ?thesis
  proof (cases rule: locate [where key = key])
    case (between exs eys xs ys)
    have kh: "khead key ys = None" using khead_zeros [of L n ys key] r(3) z between(2) by simp
    have bey: "beyond key ys"
      by (rule beyond_from_key [OF between(10) kh]) (use r(2) between(2) in \<open>simp add: sorted_wrt_append\<close>)
    have none: "map_of (records_of (Node fs)) key = None"
      using lookup_between [OF between(8,10)] kh r(2) between(2) by simp
    obtain t' s' seen' where g: "f (from_entries [] (Some (n - 1))) = Inr (t', seen')"
        "ready L M (n - 1) t' s' seen'"
        "frame (set (pends L [] [])) seen (set (pends L [ETree t'] [TS s'])) seen'"
        "records_of s' = al_upd key v []"
      using sub [of "from_entries [] (Some (n - 1))" "Node []"] mx
      by (auto simp: grows_def ready_from_entries)
    have rd: "readys L M n (exs @ [] @ eys) (xs @ [] @ ys) seen" using assms(2) between(1,2) by simp
    have adj: "no_adj (xs @ [TS s'] @ ys)"
      by (rule no_adj_join [of xs "[]" ys "[TS s']" key]) (use assms(3) between(2,9) bey in simp_all)
    note wn = write_node [OF c rd hint_Some between(3,4) grown_sub [OF _ g(2,4)] g(3) adj
        between(8) [unfolded below_def] conjunct1 [OF bey [unfolded beyond_def]] disjI1 [OF refl]]
    have new: "ready L M n (from_entries (exs @ [ETree t'] @ eys) (Some n)) (Node (xs @ [TS s'] @ ys)) seen'"
      "frame (set (pends L (exs @ [] @ eys) (xs @ [] @ ys))) seen
        (set (pend L (from_entries (exs @ [ETree t'] @ eys) (Some n)) (Node (xs @ [TS s'] @ ys)))) seen'"
      "records_of (Node (xs @ [TS s'] @ ys)) = al_upd key v (map kv (esleaves (xs @ [] @ ys)))"
      by (rule wn; use z g(4) in simp)+
    show ?thesis
    proof (rule growsI [OF none])
      show "ready L M (max n (leading_zeros L key)) (from_entries (exs @ [ETree t'] @ eys) (Some n))
          (Node (xs @ [TS s'] @ ys)) seen'"
        unfolding mx(2) by (rule new(1))
      show "frame (set (pend L t (Node fs))) seen
          (set (pend L (from_entries (exs @ [ETree t'] @ eys) (Some n)) (Node (xs @ [TS s'] @ ys)))) seen'"
        using new(2) between(1,2) unfolding t by simp
    qed (use new(3) between(1,2,5,6) g(1) in simp_all)
  next
    case (inside exs x eys xs u ys)
    have kh: "khead key ys = None" using khead_zeros [of L n ys key] r(3) z inside(2) by simp
    have bey: "beyond key ys"
      by (rule beyond_from_key [OF inside(10) kh]) (use r(2) inside(2) in \<open>simp add: sorted_wrt_append\<close>)
    have look: "map_of (records_of (Node fs)) key = map_of (records_of u) key"
      using lookup_inside [OF inside(8,10), of u] kh r(2) inside(2) by simp
    have rd: "readys L M n (exs @ [ETree x] @ eys) (xs @ [TS u] @ ys) seen" using assms(2) inside(1,2) by simp
    have sb: "grows L (n - 1) x u seen key v (f x)"
      by (rule sub) (use readys_inside [OF assms(2) [unfolded inside(1,2)] inside(3)] in blast)
    show ?thesis
    proof (cases "map_of (records_of u) key")
      case (Some w)
      then show ?thesis using sb look inside(1,5,6) by (simp add: grows_def)
    next
      case None
      then obtain t' s' seen' where g: "f x = Inr (t', seen')" "ready L M (n - 1) t' s' seen'"
          "frame (set (pends L [ETree x] [TS u])) seen (set (pends L [ETree t'] [TS s'])) seen'"
          "records_of s' = al_upd key v (records_of u)"
        using sb mx by (auto simp: grows_def)
      have adj: "no_adj (xs @ [TS s'] @ ys)"
        by (rule no_adj_join [of xs "[TS u]" ys "[TS s']" key]) (use assms(3) inside(2,9) bey in simp_all)
      note wn = write_node [OF c rd hint_Some inside(3,4) grown_sub [OF _ g(2,4)] g(3) adj
          inside(8) [unfolded below_def] conjunct1 [OF bey [unfolded beyond_def]] disjI1 [OF refl]]
      have new: "ready L M n (from_entries (exs @ [ETree t'] @ eys) (Some n)) (Node (xs @ [TS s'] @ ys)) seen'"
        "frame (set (pends L (exs @ [ETree x] @ eys) (xs @ [TS u] @ ys))) seen
          (set (pend L (from_entries (exs @ [ETree t'] @ eys) (Some n)) (Node (xs @ [TS s'] @ ys)))) seen'"
        "records_of (Node (xs @ [TS s'] @ ys)) = al_upd key v (map kv (esleaves (xs @ [TS u] @ ys)))"
        by (rule wn; use z g(4) in simp)+
      show ?thesis
      proof (rule growsI [OF look [unfolded None]])
        show "ready L M (max n (leading_zeros L key)) (from_entries (exs @ [ETree t'] @ eys) (Some n))
            (Node (xs @ [TS s'] @ ys)) seen'"
          unfolding mx(2) by (rule new(1))
        show "frame (set (pend L t (Node fs))) seen
            (set (pend L (from_entries (exs @ [ETree t'] @ eys) (Some n)) (Node (xs @ [TS s'] @ ys)))) seen'"
          using new(2) inside(1,2) unfolding t by simp
      qed (use new(3) inside(1,2,5,6) g(1) in \<open>simp_all add: list_update_append flip: inside(3)\<close>)
    qed
  qed
qed

lemma insert_here:
  assumes c: "codec_ok L" and "readys L M n es fs seen" "no_adj fs"
    and z: "leading_zeros L key = n" "valid_key key" and lv: "n < Suc lv"
    and t: "set (pend L t (Node fs)) = set (pends L es fs)"
  shows "grows L n t (Node fs) seen key v
    (if leaf_hit es (index_of es key) key \<noteq> None then Inl (KeyExists key)
     else (case prev_tree es (index_of es key) of
       Some (j, sub) \<Rightarrow> bindE (split_around lv L st sub key seen) (\<lambda>(left, right, seen).
         Inr (from_entries (take j es @ opt_tree left @ ELeaf \<lparr>lkey = key, lvalue = v\<rparr>
                # opt_tree right @ drop (Suc j) es) (Some n), seen))
     | None \<Rightarrow> Inr (from_entries (take (index_of es key) es @ ELeaf \<lparr>lkey = key, lvalue = v\<rparr>
                # drop (index_of es key) es) (Some n), seen)))"
proof -
  let ?k = "\<lparr>lkey = key, lvalue = v\<rparr>"
  have r: "list_all2 (erep L M n) es fs" "keys_sorted (esleaves fs)" "list_all (ent_wf L n) fs"
    using assms(2) by (simp_all add: readys_def)
  have mx: "max n (leading_zeros L key) = n" using z by simp
  from r(1) assms(3) r(2) show ?thesis
  proof (cases rule: locate [where key = key])
    case (between exs eys xs ys)
    have look: "map_of (records_of (Node fs)) key = map_option lvalue (khead key ys)"
      using lookup_between [OF between(8,10)] r(2) between(2) by simp
    show ?thesis
    proof (cases "khead key ys")
      case (Some l)
      then show ?thesis using look between(1,5,7) by (simp add: grows_def)
    next
      case kh: None
      have bey: "beyond key ys"
        by (rule beyond_from_key [OF between(10) kh]) (use r(2) between(2) in \<open>simp add: sorted_wrt_append\<close>)
      have rd: "readys L M n (exs @ [] @ eys) (xs @ [] @ ys) seen" using assms(2) between(1,2) by simp
      have adj: "no_adj (xs @ [TL ?k] @ ys)"
        by (rule no_adj_join [of xs "[]" ys "[TL ?k]" key]) (use assms(3) between(2,9) bey in simp_all)
      have one: "readys L M n [ELeaf ?k] [TL ?k] seen" using z by (simp add: readys_def)
      note wn = write_node [OF c rd hint_Some between(3,4) one _ adj
          between(8) [unfolded below_def] conjunct1 [OF bey [unfolded beyond_def]] disjI1 [OF refl]]
      have new: "ready L M n (from_entries (exs @ [ELeaf ?k] @ eys) (Some n)) (Node (xs @ [TL ?k] @ ys)) seen"
        "frame (set (pends L (exs @ [] @ eys) (xs @ [] @ ys))) seen
          (set (pend L (from_entries (exs @ [ELeaf ?k] @ eys) (Some n)) (Node (xs @ [TL ?k] @ ys)))) seen"
        "records_of (Node (xs @ [TL ?k] @ ys)) = al_upd key v (map kv (esleaves (xs @ [] @ ys)))"
        by (rule wn; simp add: frame_refl)+
      show ?thesis
      proof (rule growsI)
        show "map_of (records_of (Node fs)) key = None" using look kh by simp
        show "ready L M (max n (leading_zeros L key)) (from_entries (exs @ [ELeaf ?k] @ eys) (Some n))
            (Node (xs @ [TL ?k] @ ys)) seen" unfolding mx by (rule new(1))
        show "frame (set (pend L t (Node fs))) seen
            (set (pend L (from_entries (exs @ [ELeaf ?k] @ eys) (Some n)) (Node (xs @ [TL ?k] @ ys)))) seen"
          using new(2) between(1,2) unfolding t by simp
      qed (use new(3) between(1,2,5,6,7) kh in simp_all)
    qed
  next
    case (inside exs x eys xs u ys)
    have wu: "ent_wf L n (TS u)" using r(3) inside(2) by simp
    have look: "map_of (records_of (Node fs)) key = map_option lvalue (khead key ys)"
      using lookup_inside [OF inside(8,10), of u] lookup_here [OF wu z(1)] r(2) inside(2)
      by (simp split: option.splits)
    show ?thesis
    proof (cases "khead key ys")
      case (Some l)
      then show ?thesis using look inside(1,5,7) by (simp add: grows_def)
    next
      case kh: None
      have bey: "beyond key ys"
        by (rule beyond_from_key [OF inside(10) kh]) (use r(2) inside(2) in \<open>simp add: sorted_wrt_append\<close>)
      have rd: "readys L M n (exs @ [ETree x] @ eys) (xs @ [TS u] @ ys) seen" using assms(2) inside(1,2) by simp
      note ins = readys_inside [OF assms(2) [unfolded inside(1,2)] inside(3)]
      have "n - 1 < lv" "Suc (n - 1) = n" using ins(1) lv by auto
      then obtain l' r' fl fr seen' where g: "split_around lv L st x key seen = Inr (l', r', seen')"
          "readys L M n (opt_tree l') (tsub fl) seen'" "readys L M n (opt_tree r') (tsub fr) seen'"
          "frame (set (pend L x u)) seen
            (set (pends L (opt_tree l') (tsub fl)) \<union> set (pends L (opt_tree r') (tsub fr))) seen'"
          "esleaves fl @ esleaves fr = tleaves u" "below key fl" "\<forall>k \<in> set (esleaves fr). key \<le> lkey k"
        using split_around_ok [OF c ins(3), of lv key] by (auto simp del: set_concat)
      have ksu: "keys_sorted (esleaves fl @ esleaves fr)"
        using ins(3) unfolding g(5) by (simp add: ready_def)
      have "map_of (map kv (esleaves fr)) key = None"
        using lookup_here [OF wu z(1)] g(5) by (metis map_add_None map_append map_of_append)
      then have fr: "\<forall>k \<in> set (esleaves fr). key < lkey k"
        using absent_strict [of "esleaves fr" key] g(7) by metis
      note lb = leaf_between [OF c g(2,3) z(1,2) g(6) fr ksu, of v]
      let ?em = "opt_tree l' @ ELeaf ?k # opt_tree r'" and ?gm = "tsub fl @ TL ?k # tsub fr"
      have adj: "no_adj (xs @ ?gm @ ys)"
        by (rule no_adj_join [of xs "[TS u]" ys ?gm key]) (use assms(3) inside(2,9) bey lb(2) in simp_all)
      have f1: "frame (set (pends L [ETree x] [TS u])) seen (set (pends L ?em ?gm)) seen'"
        unfolding lb(3) using g(4) by (simp del: set_concat)
      have rc: "map kv (esleaves ?gm) = al_upd key v (map kv (esleaves [TS u]))"
        using lb(4) g(5) by simp
      note new = write_node [OF c rd hint_Some inside(3,4) lb(1) f1 adj
          inside(8) [unfolded below_def] conjunct1 [OF bey [unfolded beyond_def]] disjI1 [OF refl] rc]
      show ?thesis
      proof (rule growsI)
        show "map_of (records_of (Node fs)) key = None" using look kh by simp
        show "ready L M (max n (leading_zeros L key)) (from_entries (exs @ ?em @ eys) (Some n))
            (Node (xs @ ?gm @ ys)) seen'" unfolding mx by (rule new(1))
        show "frame (set (pend L t (Node fs))) seen
            (set (pend L (from_entries (exs @ ?em @ eys) (Some n)) (Node (xs @ ?gm @ ys)))) seen'"
          using new(2) inside(1,2) unfolding t by simp
      qed (use new(3) inside(1,2,5,6,7) kh g(1) in simp_all)
    qed
  qed
qed

lemma insert_in_ok:
  assumes "codec_ok L" "valid_key key"
  shows "ready L M n t s seen \<Longrightarrow> Suc n < lv \<Longrightarrow> (s = Node [] \<Longrightarrow> m_layer t = None \<Longrightarrow> n = 0) \<Longrightarrow>
    grows L n t s seen key v (insert_in lv L st t key v (leading_zeros L key) seen)"
proof (induction lv arbitrary: n t s seen)
  case (Suc lv)
  let ?z = "leading_zeros L key"
  have nlv: "n < lv" using Suc.prems(2) by simp
  obtain es ptr seen1 where l: "layer_in lv L st t seen = Inr (n, Mst es (Some n) ptr, seen1)"
      "keeps L M n s t seen (Mst es (Some n) ptr) seen1"
    using layer_ok [OF assms(1) Suc.prems(1) nlv Suc.prems(3)] by blast
  let ?t1 = "Mst es (Some n) ptr"
  have k1: "ready L M n ?t1 s seen1" "frame (set (pend L t s)) seen (set (pend L ?t1 s)) seen1"
    using l(2) by (simp_all add: keeps_def)
  have lift: "grows L n t s seen key v r"
    if "grows L n t1 s seen2 key v r" "frame (set (pend L t s)) seen (set (pend L t1 s)) seen2" for t1 seen2 r
    using that unfolding grows_def by (auto intro: frame_trans split: if_splits)
  show ?case
  proof (cases "n < ?z")
    case True
    have "map_of (records_of s) key = None"
      using absent_above [OF _ True] k1(1) by (simp add: ready_def)
    moreover obtain left right seen2 t' s' where a: "split_around lv L st ?t1 key seen1 = Inr (left, right, seen2)"
        "bindE (raise_both (?z - n - 1) left right) (\<lambda>(left, right).
          Inr (from_entries (opt_tree left @ ELeaf \<lparr>lkey = key, lvalue = v\<rparr> # opt_tree right)
            (Some ?z), seen2)) = Inr (t', seen2)"
        "ready L M ?z t' s' seen2" "frame (set (pend L ?t1 s)) seen1 (set (pend L t' s')) seen2"
        "records_of s' = al_upd key v (records_of s)"
      using insert_above [OF assms(1) k1(1) nlv _ True assms(2), of v] by auto
    moreover have "ready L M (max n ?z) t' s' seen2" using a(3) True by (simp add: max_def)
    ultimately show ?thesis
      using l(1) True frame_trans [OF k1(2) a(4)] by (intro growsI [of s key _ t' seen2 L n s']) simp_all
  next
    case False
    obtain es2 fs seen2 where e: "s = Node fs"
        "entries_in L st ?t1 seen1 = Inr (es2, Mst (Some es2) (Some n) ptr, seen2)"
        "keeps L M n s ?t1 seen1 (Mst (Some es2) (Some n) ptr) seen2"
        "readys L M n es2 fs seen2" "no_adj fs"
      using entries_ok [OF assms(1) k1(1)] by (metis mst.sel(2,3))
    let ?t2 = "Mst (Some es2) (Some n) ptr"
    have fr: "frame (set (pend L t s)) seen (set (pend L ?t2 s)) seen2"
      using k1(2) e(3) by (auto simp: keeps_def intro: frame_trans)
    have t2: "set (pend L ?t2 (Node fs)) = set (pends L es2 fs)" by (simp add: pend_loaded)
    show ?thesis
    proof (cases "?z < n")
      case True
      have "grows L n ?t2 (Node fs) seen2 key v
        (case prev_tree es2 (index_of es2 key) of
           Some (j, sub) \<Rightarrow> bindE (insert_in lv L st sub key v ?z seen2) (\<lambda>(grown, seen).
             Inr (from_entries (es2[j := ETree grown]) (Some n), seen))
         | None \<Rightarrow> bindE (insert_in lv L st (from_entries [] (Some (n - 1))) key v ?z seen2) (\<lambda>(grown, seen).
             Inr (from_entries (take (index_of es2 key) es2 @ ETree grown # drop (index_of es2 key) es2) (Some n), seen)))"
      proof (rule insert_below [OF assms(1) e(4,5) True _ t2])
        fix x u assume x: "x = from_entries [] (Some (n - 1)) \<and> u = Node [] \<or> ready L M (n - 1) x u seen2 \<and> u \<noteq> Node []"
        show "grows L (n - 1) x u seen2 key v (insert_in lv L st x key v ?z seen2)"
        proof (rule Suc.IH)
          show "ready L M (n - 1) x u seen2" using x by (auto simp: ready_from_entries hint_def)
          show "Suc (n - 1) < lv" using True Suc.prems(2) by simp
          show "n - 1 = 0" if "u = Node []" "m_layer x = None" using x that by (auto simp: from_entries_def)
        qed
      qed
      from lift [OF this [folded e(1)] fr] show ?thesis
        using l(1) e(2) True False by (simp add: Let_def)
    next
      case eq: False
      then have z: "?z = n" using False by simp
      have "n < Suc lv" using nlv by simp
      from lift [OF insert_here [OF assms(1) e(4,5) z assms(2) this t2, of v, folded e(1)] fr] show ?thesis
        using l(1) e(2) z by (simp add: Let_def)
    qed
  qed
qed simp

end

end
