(* ===== verification/Mst_Delete.thy ===== *)
theory Mst_Delete
  imports Mst_Write
begin

text \<open>
  Updating and deleting a key: \<open>update_in\<close>, \<open>append_merge\<close>, \<open>delete_recurse\<close> and \<open>trim_top\<close>, each
  with the tree it leaves, read off the records a sorted map would have.
\<close>

section \<open>Updating\<close>

lemma khead_split:
  assumes "khead key ys = Some l" "keys_sorted (esleaves ys)"
  obtains r where "ys = TL l # r" "lkey l = key" "\<forall>k \<in> set (esleaves r). key < lkey k"
  using assms by (auto simp: khead_Some)

lemma single_upd: "lkey l = key \<Longrightarrow> map kv [l\<lparr>lvalue := v\<rparr>] = al_upd key v (map kv [l])"
  by (simp add: kv_def)

lemma single_del: "lkey l = key \<Longrightarrow> [] = al_del key (map kv [l])"
  by (simp add: kv_def)

lemma inside_below:
  assumes "keys_sorted (esleaves (xs @ gm @ TL l # ys))" "lkey l = key"
  shows "\<forall>k \<in> set (esleaves (xs @ gm)). lkey k < key"
  using assms by (auto simp: sorted_wrt_append)

lemma hit_split:
  assumes "list_all2 (erep L M n) es fs" "leaf_hit es i key = Some l"
  obtains exs eys xs ys where "es = exs @ ELeaf l # eys" "fs = xs @ TL l # ys"
    "length exs = i" "length xs = i" "lkey l = key"
proof -
  have i: "i < length es" "es ! i = ELeaf l" "lkey l = key"
    using assms(2) by (auto simp: leaf_hit_def getopt_def split: if_splits entry.splits)
  then have es: "es = take i es @ ELeaf l # drop (Suc i) es" by (metis id_take_nth_drop)
  with assms(1) have "list_all2 (erep L M n) (take i es @ ELeaf l # drop (Suc i) es) fs" by simp
  then obtain xs ys where "fs = xs @ TL l # ys" "list_all2 (erep L M n) (take i es) xs"
    by (auto simp: list_all2_append1 list_all2_Cons1)
  moreover from this have "length xs = i" using i(1) by (auto dest: list_all2_lengthD)
  ultimately show thesis using that es i by simp
qed

lemma missed:
  assumes "readys L M n es fs seen" "no_adj fs" "leaf_hit es (index_of es key) key = None"
  obtains (absent) "prev_tree es (index_of es key) = None" "map_of (records_of (Node fs)) key = None"
  | (inside) exs x eys xs u ys where "es = exs @ ETree x # eys" "fs = xs @ TS u # ys"
      "length exs = length xs" "prev_tree es (index_of es key) = Some (length exs, x)"
      "below key xs" "ends_leaf xs" "beyond key ys"
      "map_of (records_of (Node fs)) key = map_of (records_of u) key"
proof -
  have r: "list_all2 (erep L M n) es fs" "keys_sorted (esleaves fs)"
    using assms(1) by (simp_all add: readys_def)
  from r(1) assms(2) r(2) show thesis
  proof (cases rule: locate [where key = key, case_names btw ins])
    case (btw exs eys xs ys)
    then have "khead key ys = None" using assms(3) by simp
    then show thesis
      using absent lookup_between [OF btw(8,10)] r(2) btw(2,5,6) by simp
  next
    case (ins exs x eys xs u ys)
    then have kh: "khead key ys = None" using assms(3) by simp
    have "keys_sorted (esleaves ys)" using r(2) ins(2) by (simp add: sorted_wrt_append)
    with kh ins(10) have "beyond key ys" by (intro beyond_from_key)
    then show thesis
      using inside [of exs x eys xs u ys] lookup_inside [OF ins(8,10), of u] kh r(2) ins
      by simp
  qed
qed

context block_store
begin

definition changed ::
    "('c, 'l) mst_lib_scheme \<Rightarrow> nat \<Rightarrow> 'c mst \<Rightarrow> 'c tree \<Rightarrow> 'c set \<Rightarrow> string
      \<Rightarrow> ((string \<times> 'c) list \<Rightarrow> (string \<times> 'c) list) \<Rightarrow> 'c repo_error + ('c mst \<times> 'c set) \<Rightarrow> bool" where
  "changed L n t s seen key chg r \<longleftrightarrow>
     (if map_of (records_of s) key = None then r = Inl (KeyMissing key)
      else \<exists>t' s' seen'. r = Inr (t', seen')
        \<and> ready L M n t' s' seen'
        \<and> frame (set (pend L t s)) seen (set (pend L t' s')) seen'
        \<and> records_of s' = chg (records_of s) \<and> m_layer t' = m_layer t)"

lemma changedI:
  assumes "map_of (records_of s) key \<noteq> None" "r = Inr (from_entries es (m_layer t), seen')"
    "ready L M n (from_entries es (m_layer t)) s' seen'"
    "frame (set (pend L t s)) seen (set (pend L (from_entries es (m_layer t)) s')) seen'"
    "records_of s' = chg (records_of s)"
  shows "changed L n t s seen key chg r"
  using assms unfolding changed_def by (auto simp: from_entries_def)

text \<open>The change of a node's own leaf, and of the subtree a key falls into.\<close>

lemma change_leaf:
  assumes c: "codec_ok L" and rd: "readys L M n (exs @ ELeaf l # eys) (xs @ TL l # ys) seen"
    and h: "hint n (m_layer t)" and len: "length exs = length xs"
    and k: "lkey l = key"
    and new: "readys L M n em' gm' seen" "pends L em' gm' = []" "no_adj (xs @ gm' @ ys)"
    and chg: "chg = al_upd key v \<or> chg = al_del key" "map kv (esleaves gm') = chg (map kv [l])"
    and f: "frame (set (pend L t (Node (xs @ TL l # ys)))) seen0
      (set (pends L (exs @ ELeaf l # eys) (xs @ TL l # ys))) seen"
  shows "changed L n t (Node (xs @ TL l # ys)) seen0 key chg
    (Inr (from_entries (exs @ em' @ eys) (m_layer t), seen))"
proof -
  have rd': "readys L M n (exs @ [ELeaf l] @ eys) (xs @ [TL l] @ ys) seen" using rd by simp
  have len2: "length eys = length ys" using readys_length [OF rd] len by simp
  have ks: "keys_sorted (esleaves (xs @ TL l # ys))" using rd by (simp add: readys_def)
  have pl: "\<forall>m \<in> set (esleaves xs). lkey m < key" "\<forall>m \<in> set (esleaves ys). key < lkey m"
    using ks k by (auto simp: sorted_wrt_append)
  have "set (pends L [ELeaf l] [TL l]) = {}" "set (pends L em' gm') = {}" using new(2) by simp_all
  then have f1: "frame (set (pends L [ELeaf l] [TL l])) seen (set (pends L em' gm')) seen"
    by (simp only: frame_refl Int_empty_left)
  have rc: "map kv (esleaves gm') = chg (map kv (esleaves [TL l]))" using chg(2) by simp
  note wn = write_node [OF c rd' h len len2 new(1) f1 new(3) pl chg(1) rc]
  show ?thesis
  proof (rule changedI)
    show "map_of (records_of (Node (xs @ TL l # ys))) key \<noteq> None"
      using k by (auto simp: map_of_eq_None_iff kv_def)
    show "frame (set (pend L t (Node (xs @ TL l # ys)))) seen0
        (set (pend L (from_entries (exs @ em' @ eys) (m_layer t)) (Node (xs @ gm' @ ys)))) seen"
      using frame_trans [OF f] wn(2) by simp
    show "records_of (Node (xs @ gm' @ ys)) = chg (records_of (Node (xs @ TL l # ys)))"
      using wn(3) by simp
  qed (use wn(1) in simp_all)
qed

lemma change_sub:
  assumes c: "codec_ok L" and rd: "readys L M n (exs @ ETree x # eys) (xs @ TS u # ys) seen"
    and h: "hint n (m_layer t)" and len: "length exs = length xs"
    and pl: "below key xs" "beyond key ys" "keys_sorted (esleaves (xs @ TS u # ys))"
    and some: "map_of (records_of u) key \<noteq> None"
    and new: "readys L M n em' gm' seen'" "frame (set (pend L x u)) seen (set (pends L em' gm')) seen'"
      "no_adj (xs @ gm' @ ys)"
    and chg: "chg = al_upd key v \<or> chg = al_del key" "map kv (esleaves gm') = chg (records_of u)"
    and f: "frame (set (pend L t (Node (xs @ TS u # ys)))) seen0
      (set (pends L (exs @ ETree x # eys) (xs @ TS u # ys))) seen"
  shows "changed L n t (Node (xs @ TS u # ys)) seen0 key chg
    (Inr (from_entries (exs @ em' @ eys) (m_layer t), seen'))"
proof -
  have rd': "readys L M n (exs @ [ETree x] @ eys) (xs @ [TS u] @ ys) seen" using rd by simp
  have len2: "length eys = length ys" using readys_length [OF rd] len by simp
  have pl': "\<forall>m \<in> set (esleaves xs). lkey m < key" "\<forall>m \<in> set (esleaves ys). key < lkey m"
    using pl by (simp_all add: below_def beyond_def)
  have f1: "frame (set (pends L [ETree x] [TS u])) seen (set (pends L em' gm')) seen'"
    using new(2) by simp
  have rc: "map kv (esleaves gm') = chg (map kv (esleaves [TS u]))" using chg(2) by simp
  note wn = write_node [OF c rd' h len len2 new(1) f1 new(3) pl' chg(1) rc]
  show ?thesis
  proof (rule changedI)
    show "map_of (records_of (Node (xs @ TS u # ys))) key \<noteq> None"
      using some by (auto simp: map_of_eq_None_iff)
    show "frame (set (pend L t (Node (xs @ TS u # ys)))) seen0
        (set (pend L (from_entries (exs @ em' @ eys) (m_layer t)) (Node (xs @ gm' @ ys)))) seen'"
      using frame_trans [OF f] wn(2) by simp
    show "records_of (Node (xs @ gm' @ ys)) = chg (records_of (Node (xs @ TS u # ys)))"
      using wn(3) by simp
  qed (use wn(1) in simp_all)
qed

lemma update_in_ok:
  assumes "codec_ok L" "valid_key key"
  shows "ready L M n t s seen \<Longrightarrow> n < lv \<Longrightarrow>
    changed L n t s seen key (al_upd key v) (update_in lv L st t key v seen)"
proof (induction lv arbitrary: n t s seen)
  case (Suc lv)
  obtain es fs seen' where e: "s = Node fs"
      "entries_in L st t seen = Inr (es, Mst (Some es) (m_layer t) (m_pointer t), seen')"
      "keeps L M n s t seen (Mst (Some es) (m_layer t) (m_pointer t)) seen'"
      "readys L M n es fs seen'" "no_adj fs" "hint n (m_layer t)"
    using entries_ok [OF assms(1) Suc.prems(1)] by metis
  have f: "frame (set (pend L t (Node fs))) seen (set (pends L es fs)) seen'"
    using e(1,3) by (simp add: keeps_def)
  have r: "list_all2 (erep L M n) es fs" "keys_sorted (esleaves fs)"
    using e(4) by (simp_all add: readys_def)
  show ?case
  proof (cases "leaf_hit es (index_of es key) key")
    case (Some l)
    obtain exs eys xs ys where h: "es = exs @ ELeaf l # eys" "fs = xs @ TL l # ys"
        "length exs = index_of es key" "length xs = index_of es key" "lkey l = key"
      by (rule hit_split [OF r(1) Some])
    let ?l = "l\<lparr>lvalue := v\<rparr>"
    have one: "readys L M n [ELeaf ?l] [TL ?l] seen'"
      using e(4) h(2) by (simp add: readys_def)
    have "changed L n t (Node (xs @ TL l # ys)) seen key (al_upd key v)
        (Inr (from_entries (exs @ [ELeaf ?l] @ eys) (m_layer t), seen'))"
      by (rule change_leaf [OF assms(1) e(4) [unfolded h(1,2)] e(6) _ h(5) one _ _ disjI1 [OF refl] _ f [unfolded h(1,2)]])
        (use h e(5) single_upd [OF h(5)] in \<open>auto simp: no_adj_append kv_def\<close>)
    then show ?thesis
      using e(1,2) Some h(1,2,3) assms(2)
      by (simp add: Let_def ensure_valid_key_def list_update_append flip: h(3))
  next
    case None
    from e(4,5) None show ?thesis
    proof (cases rule: missed)
      case absent
      then show ?thesis using e(1,2) None assms(2) by (simp add: changed_def Let_def ensure_valid_key_def)
    next
      case (inside exs x eys xs u ys)
      note ins = readys_inside [OF e(4) [unfolded inside(1,2)] inside(3)]
      have sb: "changed L (n - 1) x u seen' key (al_upd key v) (update_in lv L st x key v seen')"
        by (rule Suc.IH [OF ins(3)]) (use Suc.prems(2) ins(1) in simp)
      show ?thesis
      proof (cases "map_of (records_of u) key")
        case none: None
        then show ?thesis
          using sb e(1,2) None inside(4,8) assms(2)
          by (simp add: changed_def Let_def ensure_valid_key_def)
      next
        case (Some w)
        then obtain x' u' seen'' where g: "update_in lv L st x key v seen' = Inr (x', seen'')"
            "ready L M (n - 1) x' u' seen''" "frame (set (pend L x u)) seen' (set (pends L [ETree x'] [TS u'])) seen''"
            "records_of u' = al_upd key v (records_of u)"
          using sb by (auto simp: changed_def)
        have adj: "no_adj (xs @ [TS u'] @ ys)"
          by (rule no_adj_join [of xs "[TS u]" ys _ key]) (use e(5) inside in simp_all)
        have "changed L n t (Node (xs @ TS u # ys)) seen key (al_upd key v)
            (Inr (from_entries (exs @ [ETree x'] @ eys) (m_layer t), seen''))"
          by (rule change_sub [OF assms(1) e(4) [unfolded inside(1,2)] e(6) inside(3,5,7) _ _
                grown_sub [OF ins(1) g(2,4)] g(3) adj disjI1 [OF refl] _ f [unfolded inside(1,2)]])
            (use r(2) inside(2) Some g(4) in simp_all)
        then show ?thesis
          using e(1,2) None inside(1,2,4) g(1) assms(2)
          by (simp add: Let_def ensure_valid_key_def list_update_append)
      qed
    qed
  qed
qed simp

section \<open>Merging two neighbours\<close>

abbreviation pair ::
    "('c, 'l) mst_lib_scheme \<Rightarrow> nat \<Rightarrow> 'c mst \<Rightarrow> 'c mst \<Rightarrow> 'c tree \<Rightarrow> 'c tree \<Rightarrow> 'c set \<Rightarrow> bool" where
  "pair L n a b s u seen \<equiv> readys L M (Suc n) [ETree a, ETree b] [TS s, TS u] seen"

lemma pair_parts:
  assumes "pair L n a b s u seen"
  shows "ready L M n a s seen" "ready L M n b u seen" "s \<noteq> Node []" "u \<noteq> Node []"
  using readys_inside [of L M "Suc n" "[]" a "[ETree b]" "[]" s "[TS u]" seen]
    readys_inside [of L M "Suc n" "[ETree a]" b "[]" "[TS s]" u "[]" seen] assms
  by simp_all

lemma pair_left:
  assumes "codec_ok L" "pair L n a b s u seen" "keeps L M n s a seen a' seen'"
  shows "keepss L M (Suc n) [TS s, TS u] [ETree a, ETree b] seen [ETree a', ETree b] seen'"
  using keepss_inside [OF assms(1), of M "Suc n" "[]" a "[ETree b]" "[]" s "[TS u]" seen a' seen'] assms(2,3)
  by simp

lemma pair_right:
  assumes "codec_ok L" "pair L n a b s u seen" "keeps L M n u b seen b' seen'"
  shows "keepss L M (Suc n) [TS s, TS u] [ETree a, ETree b] seen [ETree a, ETree b'] seen'"
  using keepss_inside [OF assms(1), of M "Suc n" "[ETree a]" b "[]" "[TS s]" u "[]" seen b' seen'] assms(2,3)
  by simp

text \<open>Both nodes read, with their layers known.\<close>

lemma merge_open:
  assumes c: "codec_ok L" and p: "pair L n a b s u seen" and lv: "n < lv"
  obtains es gs fs hs pa pb seen1 a1 b1 seen2 where
    "layer_in lv L st a seen = Inr (n, a1, seen1)"
    "(\<exists>seen'. layer_in lv L st b seen1 = Inr (n, b1, seen')
        \<and> (\<exists>seen''. entries_in L st a1 seen' = Inr (es, Mst (Some es) (Some n) pa, seen'')
           \<and> entries_in L st b1 seen'' = Inr (gs, Mst (Some gs) (Some n) pb, seen2)))"
    "s = Node fs" "u = Node hs" "no_adj fs" "no_adj hs"
    "readys L M n (es @ gs) (fs @ hs) seen2" "length es = length fs"
    "frame (set (pends L [ETree a, ETree b] [TS s, TS u])) seen (set (pends L (es @ gs) (fs @ hs))) seen2"
proof -
  note p0 = pair_parts [OF p]
  obtain ea pa seen1 where a: "layer_in lv L st a seen = Inr (n, Mst ea (Some n) pa, seen1)"
      "keeps L M n s a seen (Mst ea (Some n) pa) seen1"
    using layer_ok [OF c p0(1) lv] p0(3) by metis
  let ?a1 = "Mst ea (Some n) pa"
  have k1: "keepss L M (Suc n) [TS s, TS u] [ETree a, ETree b] seen [ETree ?a1, ETree b] seen1"
    by (rule pair_left [OF c p a(2)])
  then have p1: "pair L n ?a1 b s u seen1" by (simp add: keepss_def)
  obtain eb pb seen2 where b: "layer_in lv L st b seen1 = Inr (n, Mst eb (Some n) pb, seen2)"
      "keeps L M n u b seen1 (Mst eb (Some n) pb) seen2"
    using layer_ok [OF c pair_parts(2) [OF p1] lv] p0(4) by metis
  let ?b1 = "Mst eb (Some n) pb"
  have k2: "keepss L M (Suc n) [TS s, TS u] [ETree ?a1, ETree b] seen1 [ETree ?a1, ETree ?b1] seen2"
    by (rule pair_right [OF c p1 b(2)])
  then have p2: "pair L n ?a1 ?b1 s u seen2" by (simp add: keepss_def)
  obtain es fs seen3 where e: "s = Node fs"
      "entries_in L st ?a1 seen2 = Inr (es, Mst (Some es) (Some n) pa, seen3)"
      "keeps L M n s ?a1 seen2 (Mst (Some es) (Some n) pa) seen3" "no_adj fs"
    using entries_ok [OF c pair_parts(1) [OF p2]] by (metis mst.sel(2,3))
  let ?a2 = "Mst (Some es) (Some n) pa"
  have k3: "keepss L M (Suc n) [TS s, TS u] [ETree ?a1, ETree ?b1] seen2 [ETree ?a2, ETree ?b1] seen3"
    by (rule pair_left [OF c p2 e(3)])
  then have p3: "pair L n ?a2 ?b1 s u seen3" by (simp add: keepss_def)
  obtain gs hs seen4 where g: "u = Node hs"
      "entries_in L st ?b1 seen3 = Inr (gs, Mst (Some gs) (Some n) pb, seen4)"
      "keeps L M n u ?b1 seen3 (Mst (Some gs) (Some n) pb) seen4" "no_adj hs"
    using entries_ok [OF c pair_parts(2) [OF p3]] by (metis mst.sel(2,3))
  let ?b2 = "Mst (Some gs) (Some n) pb"
  have k4: "keepss L M (Suc n) [TS s, TS u] [ETree ?a2, ETree ?b1] seen3 [ETree ?a2, ETree ?b2] seen4"
    by (rule pair_right [OF c p3 g(3)])
  then have p4: "pair L n ?a2 ?b2 s u seen4" by (simp add: keepss_def)
  have fr: "frame (set (pends L [ETree a, ETree b] [TS s, TS u])) seen
      (set (pends L [ETree ?a2, ETree ?b2] [TS s, TS u])) seen4"
    using keepss_trans [OF keepss_trans [OF keepss_trans [OF k1 k2] k3] k4] unfolding keepss_def by blast
  have parts: "readys L M n es fs seen4" "readys L M n gs hs seen4"
    using pair_parts(1,2) [OF p4] e(1) g(1) by (simp_all add: ready_loaded)
  have len: "length es = length fs" by (rule readys_length [OF parts(1)])
  have lt: "\<forall>x \<in> set (esleaves fs). \<forall>y \<in> set (esleaves hs). lkey x < lkey y"
    using p4 e(1) g(1) by (auto simp: readys_def sorted_wrt_append)
  have all: "readys L M n (es @ gs) (fs @ hs) seen4"
    unfolding readys_append [OF len] using parts lt by blast
  have "pends L [ETree ?a2, ETree ?b2] [TS s, TS u] = pends L (es @ gs) (fs @ hs)"
    using e(1) g(1) len by simp
  then have fr': "frame (set (pends L [ETree a, ETree b] [TS s, TS u])) seen (set (pends L (es @ gs) (fs @ hs))) seen4"
    using fr by (simp only:)
  show thesis
    by (rule that [OF a(1) _ e(1) g(1) e(4) g(4) all len fr']) (use b(1) e(2) g(2) in blast)
qed

lemma prev_tree_last:
  "prev_tree es (length es) = (if es \<noteq> [] then case last es of ETree x \<Rightarrow> Some (length es - 1, x) | _ \<Rightarrow> None else None)"
  by (cases es rule: rev_cases) (auto simp: prev_tree_def getopt_def nth_append split: entry.splits)

lemma append_merge_ok:
  assumes c: "codec_ok L"
  shows "pair L n a b s u seen \<Longrightarrow> Suc n < lv \<Longrightarrow>
    \<exists>t' s' seen'. append_merge lv L st a b seen = Inr (t', seen')
      \<and> readys L M (Suc n) [ETree t'] [TS s'] seen'
      \<and> frame (set (pends L [ETree a, ETree b] [TS s, TS u])) seen (set (pends L [ETree t'] [TS s'])) seen'
      \<and> tleaves s' = tleaves s @ tleaves u"
proof (induction lv arbitrary: n a b s u seen)
  case (Suc lv)
  have nlv: "n < lv" using Suc.prems(2) by simp
  obtain es gs fs hs pa pb seen1 a1 b1 seen4 where o:
    "layer_in lv L st a seen = Inr (n, a1, seen1)"
    "\<exists>seen'. layer_in lv L st b seen1 = Inr (n, b1, seen')
        \<and> (\<exists>seen''. entries_in L st a1 seen' = Inr (es, Mst (Some es) (Some n) pa, seen'')
           \<and> entries_in L st b1 seen'' = Inr (gs, Mst (Some gs) (Some n) pb, seen4))"
    "s = Node fs" "u = Node hs" "no_adj fs" "no_adj hs"
    "readys L M n (es @ gs) (fs @ hs) seen4" "length es = length fs"
    "frame (set (pends L [ETree a, ETree b] [TS s, TS u])) seen (set (pends L (es @ gs) (fs @ hs))) seen4"
    by (rule merge_open [OF c Suc.prems(1) nlv])
  have ne: "fs \<noteq> []" "hs \<noteq> []" using pair_parts(3,4) [OF Suc.prems(1)] o(3,4) by auto
  have step: "append_merge (Suc lv) L st a b seen =
      (case (prev_tree es (length es), gs) of
         (Some (j, x), ETree y # rest) \<Rightarrow>
           bindE (append_merge lv L st x y seen4) (\<lambda>(inner, seen).
           Inr (from_entries (take j es @ ETree inner # rest) (Some n), seen))
       | _ \<Rightarrow> Inr (from_entries (es @ gs) (Some n), seen4))"
    using o(1,2) by (auto split: option.splits list.splits entry.splits)
  have finish: "\<exists>t' s' seen'. append_merge (Suc lv) L st a b seen = Inr (t', seen')
      \<and> readys L M (Suc n) [ETree t'] [TS s'] seen'
      \<and> frame (set (pends L [ETree a, ETree b] [TS s, TS u])) seen (set (pends L [ETree t'] [TS s'])) seen'
      \<and> tleaves s' = tleaves s @ tleaves u"
    if "append_merge (Suc lv) L st a b seen = Inr (from_entries ms (Some n), seen')"
      "readys L M n ms ks seen'" "no_adj ks" "ks \<noteq> []" "esleaves ks = esleaves (fs @ hs)"
      "frame (set (pends L (es @ gs) (fs @ hs))) seen4 (set (pends L ms ks)) seen'" for ms ks seen'
  proof (intro exI conjI)
    show "readys L M (Suc n) [ETree (from_entries ms (Some n))] [TS (Node ks)] seen'"
      using that(2-4) by (simp add: readys_tree ready_from_entries hint_Some)
    show "frame (set (pends L [ETree a, ETree b] [TS s, TS u])) seen
        (set (pends L [ETree (from_entries ms (Some n))] [TS (Node ks)])) seen'"
      using frame_trans [OF o(9) that(6)] by (simp add: ready_from_entries del: set_concat)
  qed (use that(1,5) o(3,4) in simp_all)
  have erep: "list_all2 (erep L M n) es fs" "list_all2 (erep L M n) gs hs"
    using o(7,8) by (simp_all add: readys_append) (simp_all add: readys_def)
  show ?case
  proof (cases "\<exists>xs s1 u1 ys. fs = xs @ [TS s1] \<and> hs = TS u1 # ys")
    case False
    then have adj: "no_adj (fs @ hs)" using o(5,6) by (simp add: no_adj_append)
    have "\<not> (\<exists>j x y rest. prev_tree es (length es) = Some (j, x) \<and> gs = ETree y # rest)"
    proof clarify
      fix j x y rest assume h: "prev_tree es (length es) = Some (j, x)" "gs = ETree y # rest"
      obtain ex where "es = ex @ [ETree x]"
        using h(1) unfolding prev_tree_last
        by (cases es rule: rev_cases) (auto split: entry.splits)
      with h(2) erep show False using False
        by (auto simp: list_all2_append1 list_all2_Cons1)
    qed
    then have "append_merge (Suc lv) L st a b seen = Inr (from_entries (es @ gs) (Some n), seen4)"
      unfolding step by (auto split: option.splits list.splits entry.splits)
    then show ?thesis
      by (rule finish [OF _ o(7) adj]) (use o(7) ne in \<open>simp_all add: readys_def frame_refl del: set_concat\<close>)
  next
    case True
    then obtain xs s1 u1 ys where fh: "fs = xs @ [TS s1]" "hs = TS u1 # ys" by blast
    obtain ex x y rest where eg: "es = ex @ [ETree x]" "gs = ETree y # rest" "length ex = length xs" "length rest = length ys"
      using erep fh by (auto simp: list_all2_append2 list_all2_Cons2 dest: list_all2_lengthD)
    have rd: "readys L M n (ex @ [ETree x, ETree y] @ rest) (xs @ [TS s1, TS u1] @ ys) seen4"
      using o(7) fh eg by simp
    then have "readys L M n ([ETree x, ETree y] @ rest) ([TS s1, TS u1] @ ys) seen4"
      by (simp only: readys_append [OF eg(3)])
    then have mid: "readys L M n [ETree x, ETree y] [TS s1, TS u1] seen4"
      using readys_append [of "[ETree x, ETree y]" "[TS s1, TS u1]" L M n rest ys seen4] by simp
    have n: "0 < n" using readys_inside(1) [of L M n "[]" x "[ETree y]" "[]"] mid by simp
    then obtain t' s' seen' where m: "append_merge lv L st x y seen4 = Inr (t', seen')"
        "readys L M n [ETree t'] [TS s'] seen'"
        "frame (set (pends L [ETree x, ETree y] [TS s1, TS u1])) seen4 (set (pends L [ETree t'] [TS s'])) seen'"
        "tleaves s' = tleaves s1 @ tleaves u1"
      using Suc.IH [of "n - 1" x y s1 u1 seen4] mid Suc.prems(2) by (auto simp del: set_concat)
    have eq: "esleaves (xs @ [TS s'] @ ys) = esleaves (fs @ hs)" using fh m(4) by simp
    have ks: "keys_sorted (esleaves (xs @ [TS s'] @ ys))"
      unfolding eq using o(7) by (simp add: readys_def)
    note sp = splice [OF c rd eg(3,4) m(2,3) ks]
    show ?thesis
    proof (rule finish [OF _ sp(1)])
      show "append_merge (Suc lv) L st a b seen = Inr (from_entries (ex @ [ETree t'] @ rest) (Some n), seen')"
        unfolding step using eg(1,2) m(1) prev_tree_Suc [of ex x "[]"] by simp
      show "no_adj (xs @ [TS s'] @ ys)"
        using o(5,6) fh by (auto simp: no_adj_append no_adj_TS)
      show "frame (set (pends L (es @ gs) (fs @ hs))) seen4
          (set (pends L (ex @ [ETree t'] @ rest) (xs @ [TS s'] @ ys))) seen'"
        using sp(2) fh eg by (simp del: set_concat)
    qed (use eq in simp_all)
  qed
qed simp

section \<open>Deleting\<close>

lemma prev_tree_append: "prev_tree (es @ fs) (length es) = prev_tree es (length es)"
  by (cases es rule: rev_cases) (simp_all add: prev_tree_def getopt_def nth_append)

lemma delete_merge:
  assumes c: "codec_ok L" and h: "hint n (m_layer t)" and lv: "n < lv"
    and rd: "readys L M n (ex @ [ETree x, ELeaf l, ETree y] @ ey) (xs @ [TS s1, TL l, TS u1] @ ys) seen"
    and len: "length ex = length xs" and k: "lkey l = key"
    and adj: "no_adj (xs @ [TS s1, TL l, TS u1] @ ys)"
    and f: "frame (set (pend L t (Node (xs @ [TS s1, TL l, TS u1] @ ys)))) seen0
      (set (pends L (ex @ [ETree x, ELeaf l, ETree y] @ ey) (xs @ [TS s1, TL l, TS u1] @ ys))) seen"
  shows "changed L n t (Node (xs @ [TS s1, TL l, TS u1] @ ys)) seen0 key (al_del key)
    (bindE (append_merge lv L st x y seen) (\<lambda>(merged, seen).
       Inr (from_entries (ex @ ETree merged # ey) (m_layer t), seen)))"
proof -
  let ?em = "[ETree x, ELeaf l, ETree y]" and ?gm = "[TS s1, TL l, TS u1]"
  have len2: "length ey = length ys" using readys_length [OF rd] len by simp
  have mid: "readys L M n ([ETree x] @ [ELeaf l] @ [ETree y]) ([TS s1] @ [TL l] @ [TS u1]) seen"
    using rd readys_append [of ?em ?gm L M n ey ys seen] by (simp add: readys_append [OF len])
  have ap: "readys L M n ([e] @ es) ([f] @ fs) seen \<longleftrightarrow> readys L M n [e] [f] seen \<and> readys L M n es fs seen
      \<and> (\<forall>x \<in> set (esleaves [f]). \<forall>y \<in> set (esleaves fs). lkey x < lkey y)" for e f es fs
    by (rule readys_append) simp
  have one: "readys L M n [ETree x] [TS s1] seen" "readys L M n [ETree y] [TS u1] seen"
      "\<forall>a \<in> set (tleaves s1). \<forall>b \<in> set (tleaves u1). lkey a < lkey b"
      "\<forall>a \<in> set (tleaves s1). lkey a < key" "\<forall>b \<in> set (tleaves u1). key < lkey b"
    using mid k unfolding ap by simp_all
  have n: "0 < n" using one(1) by (simp add: readys_tree)
  have "readys L M n ([ETree x] @ [ETree y]) ([TS s1] @ [TS u1]) seen"
    using one by (subst readys_append) simp_all
  then have "pair L (n - 1) x y s1 u1 seen" using n by simp
  then obtain t' s' seen' where m: "append_merge lv L st x y seen = Inr (t', seen')"
      "readys L M n [ETree t'] [TS s'] seen'"
      "frame (set (pends L [ETree x, ETree y] [TS s1, TS u1])) seen (set (pends L [ETree t'] [TS s'])) seen'"
      "tleaves s' = tleaves s1 @ tleaves u1"
    using append_merge_ok [OF c, of "n - 1" x y s1 u1 seen lv] n lv by (auto simp del: set_concat)
  have f1: "frame (set (pends L ?em ?gm)) seen (set (pends L [ETree t'] [TS s'])) seen'"
    using m(3) by simp
  have adj': "no_adj (xs @ [TS s'] @ ys)" using adj by (auto simp: no_adj_append no_adj_TS)
  have ks: "keys_sorted (esleaves (xs @ ?gm @ ys))" using rd by (simp add: readys_def)
  have pl: "\<forall>m \<in> set (esleaves xs). lkey m < key" "\<forall>m \<in> set (esleaves ys). key < lkey m"
    using ks k by (auto simp: sorted_wrt_append)
  have "al_del key (records_of s1 @ map kv [l] @ records_of u1) = records_of s1 @ al_del key (map kv [l]) @ records_of u1"
    by (rule al_del_append) (use one(4,5) in auto)
  then have rc: "map kv (esleaves [TS s']) = al_del key (map kv (esleaves ?gm))"
    using m(4) k by (simp add: kv_def)
  note wn = write_node [OF c rd h len len2 m(2) f1 adj' pl disjI2 [OF refl] rc]
  show ?thesis
  proof (rule changedI)
    show "map_of (records_of (Node (xs @ ?gm @ ys))) key \<noteq> None"
      using k by (auto simp: map_of_eq_None_iff kv_def)
    show "frame (set (pend L t (Node (xs @ ?gm @ ys)))) seen0
        (set (pend L (from_entries (ex @ [ETree t'] @ ey) (m_layer t)) (Node (xs @ [TS s'] @ ys)))) seen'"
      by (rule frame_trans [OF f wn(2)])
    show "records_of (Node (xs @ [TS s'] @ ys)) = al_del key (records_of (Node (xs @ ?gm @ ys)))"
      using wn(3) by simp
  qed (use wn(1) m(1) in simp_all)
qed

lemma delete_hit:
  assumes c: "codec_ok L" and h: "hint n (m_layer t)" and lv: "n < lv"
    and rd: "readys L M n es fs seen" "no_adj fs" and hit: "leaf_hit es i key = Some l"
    and f: "frame (set (pend L t (Node fs))) seen0 (set (pends L es fs)) seen"
  shows "changed L n t (Node fs) seen0 key (al_del key)
    (case (prev_tree es i, getopt es (Suc i)) of
       (Some (j, left), Some (ETree right)) \<Rightarrow>
         bindE (append_merge lv L st left right seen) (\<lambda>(merged, seen).
         Inr (from_entries (take j es @ ETree merged # drop (i + 2) es) (m_layer t), seen))
     | _ \<Rightarrow> Inr (from_entries (take i es @ drop (Suc i) es) (m_layer t), seen))"
proof -
  have er: "list_all2 (erep L M n) es fs" using rd(1) by (simp add: readys_def)
  obtain exs eys xs ys where s: "es = exs @ ELeaf l # eys" "fs = xs @ TL l # ys"
      "length exs = i" "length xs = i" "lkey l = key"
    by (rule hit_split [OF er hit])
  have er2: "list_all2 (erep L M n) exs xs" "list_all2 (erep L M n) eys ys"
    using er s by (simp_all add: list_all2_append)
  have pt: "prev_tree es i = prev_tree exs (length exs)" "getopt es (Suc i) = getopt eys 0"
    using s(1,3) prev_tree_append [of exs "ELeaf l # eys"] getopt_append_length [of "exs @ [ELeaf l]" eys] by simp_all
  show ?thesis
  proof (cases "\<exists>xs' s1 u1 ys'. xs = xs' @ [TS s1] \<and> ys = TS u1 # ys'")
    case True
    then obtain xs' s1 u1 ys' where x: "xs = xs' @ [TS s1]" "ys = TS u1 # ys'" by blast
    obtain ex x y ey where e: "exs = ex @ [ETree x]" "eys = ETree y # ey" "length ex = length xs'"
      using er2 x by (auto simp: list_all2_append2 list_all2_Cons2 dest: list_all2_lengthD)
    have es: "es = ex @ [ETree x, ELeaf l, ETree y] @ ey" and fs: "fs = xs' @ [TS s1, TL l, TS u1] @ ys'"
      using s(1,2) x e by simp_all
    have "prev_tree es i = Some (length ex, x)" "getopt es (Suc i) = Some (ETree y)" "i = Suc (length ex)"
      using pt e(1,2) s(3) prev_tree_Suc [of ex x "[]"] by simp_all
    then show ?thesis
      using delete_merge [OF c h lv rd(1) [unfolded es fs] e(3) s(5) rd(2) [unfolded fs] f [unfolded es fs]]
      unfolding es fs by simp
  next
    case False
    have adj: "no_adj (xs @ [] @ ys)" using rd(2) s(2) False by (auto simp: no_adj_append)
    have "changed L n t (Node (xs @ TL l # ys)) seen0 key (al_del key)
        (Inr (from_entries (exs @ [] @ eys) (m_layer t), seen))"
      by (rule change_leaf [OF c rd(1) [unfolded s(1,2)] h _ s(5) readys_Nil _ adj disjI2 [OF refl] _ f [unfolded s(1,2)]])
        (use s(3-5) in \<open>simp_all add: kv_def\<close>)
    moreover have "\<not> (\<exists>j x y. prev_tree es i = Some (j, x) \<and> getopt es (Suc i) = Some (ETree y))"
    proof clarify
      fix j x y assume h: "prev_tree es i = Some (j, x)" "getopt es (Suc i) = Some (ETree y)"
      obtain ex where "exs = ex @ [ETree x]"
        using h(1) unfolding pt(1) prev_tree_last
        by (cases exs rule: rev_cases) (auto split: entry.splits)
      moreover obtain ey where "eys = ETree y # ey" using h(2) unfolding pt(2) by (cases eys) auto
      ultimately show False using er2 False by (auto simp: list_all2_append1 list_all2_Cons1)
    qed
    ultimately show ?thesis
      using s(1-3) by (auto split: option.splits entry.splits)
  qed
qed

lemma delete_recurse_ok:
  assumes c: "codec_ok L"
  shows "ready L M n t s seen \<Longrightarrow> Suc n < lv \<Longrightarrow>
    changed L n t s seen key (al_del key) (delete_recurse lv L st t key seen)"
proof (induction lv arbitrary: n t s seen)
  case (Suc lv)
  obtain es fs seen' where e: "s = Node fs"
      "entries_in L st t seen = Inr (es, Mst (Some es) (m_layer t) (m_pointer t), seen')"
      "keeps L M n s t seen (Mst (Some es) (m_layer t) (m_pointer t)) seen'"
      "readys L M n es fs seen'" "no_adj fs" "hint n (m_layer t)"
    using entries_ok [OF c Suc.prems(1)] by metis
  have f: "frame (set (pend L t (Node fs))) seen (set (pends L es fs)) seen'"
    using e(1,3) by (simp add: keeps_def)
  have lv: "n < lv" using Suc.prems(2) by simp
  show ?case
  proof (cases "leaf_hit es (index_of es key) key")
    case (Some l)
    show ?thesis
      using delete_hit [OF c e(6) lv e(4,5) Some f]
      by (simp only: delete_recurse.simps e(1,2) bindE_simps prod.case Let_def Some mst.sel
          option.simps(3) if_True not_False_eq_True)
  next
    case None
    from e(4,5) None show ?thesis
    proof (cases rule: missed)
      case absent
      then show ?thesis using e(1,2) None by (simp add: changed_def Let_def)
    next
      case (inside exs x eys xs u ys)
      note ins = readys_inside [OF e(4) [unfolded inside(1,2)] inside(3)]
      have sb: "changed L (n - 1) x u seen' key (al_del key) (delete_recurse lv L st x key seen')"
        by (rule Suc.IH [OF ins(3)]) (use Suc.prems(2) ins(1) in simp)
      show ?thesis
      proof (cases "map_of (records_of u) key")
        case none: None
        then show ?thesis
          using sb e(1,2) None inside(4,8) by (simp add: changed_def Let_def)
      next
        case (Some w)
        then obtain x' u' seen2 where g: "delete_recurse lv L st x key seen' = Inr (x', seen2)"
            "ready L M (n - 1) x' u' seen2" "frame (set (pend L x u)) seen' (set (pend L x' u')) seen2"
            "records_of u' = al_del key (records_of u)"
          using sb by (auto simp: changed_def)
        obtain es2 fs2 seen3 where e2: "u' = Node fs2"
            "entries_in L st x' seen2 = Inr (es2, Mst (Some es2) (m_layer x') (m_pointer x'), seen3)"
            "keeps L M (n - 1) u' x' seen2 (Mst (Some es2) (m_layer x') (m_pointer x')) seen3"
            "readys L M (n - 1) es2 fs2 seen3"
          using entries_ok [OF c g(2)] by metis
        let ?x2 = "Mst (Some es2) (m_layer x') (m_pointer x')"
        let ?em = "if es2 \<noteq> [] then [ETree ?x2] else []" and ?gm = "tsub fs2"
        have len: "es2 = [] \<longleftrightarrow> fs2 = []" using readys_length [OF e2(4)] by auto
        have rd2: "readys L M n ?em ?gm seen3"
          using e2(1,3) len ins(1) by (simp add: tsub_def readys_tree keeps_def)
        have fr2: "frame (set (pend L x u)) seen' (set (pends L ?em ?gm)) seen3"
        proof -
          have "pends L ?em ?gm = pend L ?x2 u'" using e2(1) len by (simp add: tsub_def)
          then show ?thesis using g(3) e2(3) unfolding keeps_def by (auto intro: frame_trans)
        qed
        have adj: "no_adj (xs @ ?gm @ ys)"
          by (rule no_adj_join [of xs "[TS u]" ys _ key]) (use e(5) inside in simp_all)
        have "changed L n t (Node (xs @ TS u # ys)) seen key (al_del key)
            (Inr (from_entries (exs @ ?em @ eys) (m_layer t), seen3))"
          by (rule change_sub [OF c e(4) [unfolded inside(1,2)] e(6) inside(3,5,7) _ _
                rd2 fr2 adj disjI2 [OF refl] _ f [unfolded inside(1,2)]])
            (use e(4) inside(2) Some g(4) e2(1) in \<open>simp_all add: readys_def\<close>)
        then show ?thesis
          using e(1,2) None inside(1,2,4) g(1) e2(2) by (simp add: Let_def)
      qed
    qed
  qed
qed simp

section \<open>Trimming the top\<close>

lemma not_single_trimmed: "\<not> (\<exists>u. fs = [TS u]) \<Longrightarrow> trimmed (Node fs)"
  by (cases "Node fs" rule: trimmed.cases) auto

lemma trim_top_ok:
  assumes c: "codec_ok L"
  shows "ready L M n t s seen \<Longrightarrow> n < lv \<Longrightarrow>
    \<exists>n' t' s' seen'. trim_top lv L st t seen = Inr (t', seen') \<and> ready L M n' t' s' seen'
      \<and> trimmed s' \<and> tleaves s' = tleaves s
      \<and> (s = Node [] \<longrightarrow> s' = Node [] \<and> m_layer t' = m_layer t \<and> m_entries t' = Some [])"
proof (induction lv arbitrary: n t s seen)
  case (Suc lv)
  obtain es seen1 where f: "fill L st t seen = Inr (Mst (Some es) (m_layer t) (m_pointer t), seen1)"
      "ready L M n (Mst (Some es) (m_layer t) (m_pointer t)) s seen1"
    using fill_ok [OF c Suc.prems(1)] by blast
  obtain fs where s: "s = Node fs" by (cases s)
  have rd: "readys L M n es fs seen1" using f(2) s by (simp add: ready_loaded)
  then have er: "list_all2 (erep L M n) es fs" by (simp add: readys_def)
  show ?case
  proof (cases "\<exists>u. fs = [TS u]")
    case True
    then obtain u where u: "fs = [TS u]" by blast
    then obtain x where x: "es = [ETree x]" using er by (auto simp: list_all2_Cons2)
    have sub: "0 < n" "ready L M (n - 1) x u seen1" using rd by (simp_all add: u x readys_tree)
    obtain n' t' s' seen' where "trim_top lv L st x seen1 = Inr (t', seen')" "ready L M n' t' s' seen'"
        "trimmed s'" "tleaves s' = tleaves u"
      using Suc.IH [OF sub(2)] Suc.prems(2) sub(1) by fastforce
    then show ?thesis using f(1) s u x by auto
  next
    case False
    then have "\<not> (\<exists>x. es = [ETree x])" using er by (auto simp: list_all2_Cons1)
    then have "trim_top (Suc lv) L st t seen = Inr (Mst (Some es) (m_layer t) (m_pointer t), seen1)"
      using f(1) by (auto split: list.splits entry.splits)
    moreover have "es = []" if "fs = []" using er that by simp
    ultimately show ?thesis
      using f(2) s not_single_trimmed [OF False]
      by (intro exI [of _ n] exI [of _ "Mst (Some es) (m_layer t) (m_pointer t)"] exI [of _ s] exI [of _ seen1])
        simp
  qed
qed simp

end

end
