(* ===== verification/Mst_Ops.thy ===== *)
theory Mst_Ops
  imports Mst_Delete "HOL-Library.Countable"
begin

text \<open>
  The operations callers use, \<open>get\<close>, \<open>add\<close>, \<open>update\<close>, \<open>delete\<close> and \<open>leaves\<close>, as a refinement of a
  sorted map from record keys to CIDs. \<open>held_tree\<close> is the abstraction: a tree value, part of it in a
  store, stands for the nodes of a tree of the right shape. The records do not determine that tree: one
  whose last record is deleted keeps the layer it had, and what is added next may end up under nodes
  that only point at another (\<open>stale_layer\<close>). \<open>holds\<close> is a tree without such nodes, the one its records
  determine. Every operation keeps the first, and each says when it keeps the second.
\<close>

section \<open>Layers are bounded\<close>

text \<open>\<open>MAX_DEPTH\<close> is 256 and a 32-byte digest has at most 128 pairs of zero bits.\<close>

definition layers_ok :: "('c, 'l) lib_scheme \<Rightarrow> bool" where
  "layers_ok L \<longleftrightarrow> (\<forall>k. leading_zeros L k \<le> 128)"

lemma byte_leading_zeros_le: "byte_leading_zeros b div 2 \<le> 4"
  by (simp add: byte_leading_zeros_def Let_def)

lemma zero_pairs_le: "zero_pairs bs \<le> 4 * length bs"
proof (induction bs)
  case (Cons b bs)
  then show ?case using byte_leading_zeros_le [of b] by simp
qed simp

lemma digest_layers:
  assumes "\<And>k. length (sha256 L k) = 32"
  shows "layers_ok L"
  unfolding layers_ok_def leading_zeros_def
proof
  fix k
  show "zero_pairs (sha256 L k) \<le> 128" using zero_pairs_le [of "sha256 L k"] assms by simp
qed


section \<open>Trees as sorted maps\<close>

definition holds ::
    "('c, 'l) mst_lib_scheme \<Rightarrow> ('c \<Rightarrow> bytes option) \<Rightarrow> 'c mst \<Rightarrow> (string \<times> 'c) list \<Rightarrow> bool" where
  "holds L M t ps \<longleftrightarrow>
     (\<exists>n s. ready L M n t s {} \<and> trimmed s \<and> (s = Node [] \<longrightarrow> n = 0) \<and> records_of s = ps)"

lemma ready_fresh: "ready L M n t s seen \<Longrightarrow> ready L M n t s {}"
  by (simp add: ready_def)

lemma holds_ascending: "holds L M t ps \<Longrightarrow> ascending ps"
  unfolding holds_def ready_def by (auto simp flip: ascending_kv)

lemma holds_empty: "holds L M mst_empty []"
  unfolding holds_def
  by (rule exI [of _ 0], rule exI [of _ "Node []"]) (simp add: mst_empty_def ready_loaded hint_def)

lemma holdsE:
  assumes "holds L M t ps" "layers_ok L"
  obtains n s where "ready L M n t s {}" "trimmed s" "s = Node [] \<Longrightarrow> n = 0" "records_of s = ps" "n \<le> 128"
proof -
  obtain n s where h: "ready L M n t s {}" "trimmed s" "s = Node [] \<longrightarrow> n = 0" "records_of s = ps"
    using assms(1) unfolding holds_def by blast
  have "n \<le> 128"
  proof (cases "s = Node []")
    case False
    then obtain l where "l \<in> set (tleaves s)" "leading_zeros L (lkey l) = n"
      using trimmed_top_leaf [of L n s] h(1,2) by (auto simp: ready_def)
    with assms(2) show ?thesis by (auto simp: layers_ok_def)
  qed (use h(3) in simp)
  with h that show thesis by blast
qed

text \<open>Of the nodes the records determine, a tree that holds them is a value.\<close>

lemma holds_canonical:
  assumes "holds L M t (records_of s)" "layers_ok L" "tree_wf L k s" "trimmed s"
  obtains n where "ready L M n t s {}" "n \<le> 128" "s = Node [] \<Longrightarrow> n = 0"
proof -
  obtain n u where h: "ready L M n t u {}" "trimmed u" "u = Node [] \<Longrightarrow> n = 0" "records_of u = records_of s" "n \<le> 128"
    using holdsE [OF assms(1,2)] by blast
  have "tleaves u = tleaves s" using h(4) map_kv_inj by metis
  then have "u = s"
    using trimmed_canonical [OF _ assms(3) h(2) assms(4)] h(1) by (auto simp: ready_def)
  with h that show thesis by blast
qed

lemma hint_ready: "ready L M n t s seen \<Longrightarrow> hint n (m_layer t)"
  by (cases t; cases "m_entries t"; cases s) (auto simp: ready_def)

text \<open>The same, for a tree that may have nodes at its top that only point at another, and that may be
  empty and still believe in a layer.\<close>

definition held_tree :: "('c, 'l) mst_lib_scheme \<Rightarrow> ('c \<Rightarrow> bytes option) \<Rightarrow> 'c mst \<Rightarrow> 'c tree \<Rightarrow> bool" where
  "held_tree L M t s \<longleftrightarrow> (\<exists>n. ready L M n t s {} \<and> n \<le> 128 \<and> (s = Node [] \<longrightarrow> m_layer t = None \<longrightarrow> n = 0))"

definition canonical_tree :: "'c mst \<Rightarrow> 'c tree \<Rightarrow> bool" where
  "canonical_tree t s \<longleftrightarrow> trimmed s \<and> (s = Node [] \<longrightarrow> hint 0 (m_layer t))"

lemma held_treeE:
  assumes "held_tree L M t s"
  obtains n where "ready L M n t s {}" "n \<le> 128" "s = Node [] \<longrightarrow> m_layer t = None \<longrightarrow> n = 0"
    "n < MAX_DEPTH" "Suc n < MAX_DEPTH"
proof -
  obtain n where "ready L M n t s {}" "n \<le> 128" "s = Node [] \<longrightarrow> m_layer t = None \<longrightarrow> n = 0"
    using assms unfolding held_tree_def by (elim exE conjE) (rule that)
  then show thesis by (intro that [of n]) (simp_all add: MAX_DEPTH_def)
qed

lemma held_treeI:
  "ready L M n t s seen \<Longrightarrow> n \<le> 128 \<Longrightarrow> (s = Node [] \<Longrightarrow> m_layer t = None \<Longrightarrow> n = 0) \<Longrightarrow> held_tree L M t s"
  unfolding held_tree_def by (intro exI [of _ n]) (simp add: ready_fresh)

lemma held_tree_shape:
  assumes "held_tree L M t s"
  obtains n where "tree_wf L n s" "keys_sorted (tleaves s)" "n \<le> 128"
proof -
  obtain n where "ready L M n t s {}" "n \<le> 128" by (rule held_treeE [OF assms])
  then show thesis by (intro that [of n]) (simp_all add: ready_def)
qed

lemma held_tree_ascending:
  assumes "held_tree L M t s"
  shows "ascending (records_of s)"
proof -
  obtain n where "keys_sorted (tleaves s)" by (rule held_tree_shape [OF assms])
  then show ?thesis by (simp only: ascending_kv)
qed

lemma ready_layer:
  assumes "ready L M n t s seen" "trimmed s" "layers_ok L" "s \<noteq> Node []"
  shows "n \<le> 128"
  using trimmed_top_leaf [of L n s] assms unfolding ready_def layers_ok_def by metis

lemma holds_iff:
  assumes "layers_ok L"
  shows "holds L M t ps \<longleftrightarrow> (\<exists>s. held_tree L M t s \<and> canonical_tree t s \<and> records_of s = ps)"
proof
  assume "holds L M t ps"
  then obtain n s where h: "ready L M n t s {}" "trimmed s" "s = Node [] \<Longrightarrow> n = 0" "records_of s = ps" "n \<le> 128"
    using holdsE [OF _ assms] by blast
  then have "held_tree L M t s" "canonical_tree t s"
    using hint_ready [OF h(1)] unfolding held_tree_def canonical_tree_def by auto
  with h(4) show "\<exists>s. held_tree L M t s \<and> canonical_tree t s \<and> records_of s = ps" by blast
next
  assume "\<exists>s. held_tree L M t s \<and> canonical_tree t s \<and> records_of s = ps"
  then obtain s where s: "held_tree L M t s" "canonical_tree t s" "records_of s = ps" by blast
  obtain n where "ready L M n t s {}" "s = Node [] \<longrightarrow> m_layer t = None \<longrightarrow> n = 0" by (rule held_treeE [OF s(1)])
  note h = this s(2,3)
  have "s = Node [] \<longrightarrow> n = 0" using h(2,3) hint_ready [OF h(1)] by (auto simp: canonical_tree_def hint_def)
  with h show "holds L M t ps" unfolding holds_def canonical_tree_def by blast
qed

lemma fill_layer: "fill L st t seen = Inr (t', seen') \<Longrightarrow> m_layer t' = m_layer t"
  by (auto simp: fill_def Let_def set_entries_def result_simps split: option.splits)

lemma get_layer: "get_in lv L st t key seen = Inr (r, t', seen') \<Longrightarrow> m_layer t' = m_layer t"
proof (cases lv)
  case (Suc k)
  assume g: "get_in lv L st t key seen = Inr (r, t', seen')"
  then obtain t1 seen1 where f: "fill L st t seen = Inr (t1, seen1)" by (auto simp: Suc entries_in_def result_simps)
  have "m_layer t' = m_layer t1"
    using g f by (auto simp: Suc entries_in_def Let_def set_entries_def bindE_eq_Inr split: option.splits)
  then show ?thesis using fill_layer [OF f] by simp
qed simp

lemma keeps_holds:
  assumes "keeps L M n s t seen t' seen'" "trimmed s" "s = Node [] \<Longrightarrow> n = 0"
  shows "holds L M t' (records_of s)"
  unfolding holds_def using assms by (auto simp: keeps_def intro: ready_fresh)

lemma top_leaf_trimmed:
  assumes "tree_wf L n s" "l \<in> set (tleaves s)" "leading_zeros L (lkey l) = n"
  shows "trimmed s"
proof (rule ccontr)
  assume "\<not> trimmed s"
  then obtain u where u: "s = Node [TS u]" by (cases s rule: trimmed.cases) auto
  then have "leading_zeros L (lkey l) < n" using wf_sub_zeros [of L n u l] assms(1,2) by simp
  with assms(3) show False by simp
qed

context block_store
begin

lemma mst_get_ok:
  assumes "codec_ok L" "layers_ok L" "holds L M t ps"
  shows "\<exists>t'. mst_get L st t key = Inr (map_of ps key, t') \<and> holds L M t' ps"
proof -
  obtain n s where h: "ready L M n t s {}" "trimmed s" "s = Node [] \<Longrightarrow> n = 0" "records_of s = ps" "n \<le> 128"
    using holdsE [OF assms(3,2)] by blast
  then have "n < MAX_DEPTH" by (simp add: MAX_DEPTH_def)
  from get_in_ok [OF assms(1) h(1) this] obtain t' seen' where
      "get_in MAX_DEPTH L st t key {} = Inr (map_of (records_of s) key, t', seen')"
      "keeps L M n s t {} t' seen'" by blast
  with keeps_holds [OF this(2) h(2,3)] h(4) show ?thesis by (simp add: mst_get_def)
qed

lemma mst_leaves_ok:
  assumes "codec_ok L" "layers_ok L" "holds L M t ps"
  shows "\<exists>ls t'. mst_leaves L st t = Inr (ls, t') \<and> map kv ls = ps \<and> holds L M t' ps"
proof -
  obtain n s where h: "ready L M n t s {}" "trimmed s" "s = Node [] \<Longrightarrow> n = 0" "records_of s = ps" "n \<le> 128"
    using holdsE [OF assms(3,2)] by blast
  then have "n < MAX_DEPTH" by (simp add: MAX_DEPTH_def)
  from collect_leaves_ok [OF assms(1) h(1) this] obtain t' seen' where
      "collect_leaves MAX_DEPTH L st t {} = Inr (tleaves s, t', seen')"
      "keeps L M n s t {} t' seen'" by blast
  with keeps_holds [OF this(2) h(2,3)] h(4) show ?thesis by (simp add: mst_leaves_def)
qed

lemma mst_get_tree:
  assumes "codec_ok L" "held_tree L M t s"
  shows "\<exists>t'. mst_get L st t key = Inr (map_of (records_of s) key, t') \<and> held_tree L M t' s \<and> m_layer t' = m_layer t"
proof -
  obtain n where h: "ready L M n t s {}" "n \<le> 128" "s = Node [] \<longrightarrow> m_layer t = None \<longrightarrow> n = 0" "n < MAX_DEPTH"
    by (rule held_treeE [OF assms(2)])
  obtain t' seen' where g: "get_in MAX_DEPTH L st t key {} = Inr (map_of (records_of s) key, t', seen')" "keeps L M n s t {} t' seen'"
    using get_in_ok [OF assms(1) h(1,4)] by blast
  have "held_tree L M t' s" by (rule held_treeI [of _ _ n _ _ seen']) (use g(2) h(2,3) get_layer [OF g(1)] in \<open>simp_all add: keeps_def\<close>)
  then show ?thesis using g(1) get_layer [OF g(1)] by (simp add: mst_get_def)
qed

text \<open>A tree whose records include one at its own layer is the canonical one.\<close>

lemma grown_keys:
  assumes "records_of s' = al_upd key v (records_of s)"
  shows "lkey ` set (tleaves s') = insert key (lkey ` set (tleaves s))"
  using keys_al_upd [of key v "records_of s"] by (simp add: image_image flip: assms)

lemma grown_canonical:
  assumes "tree_wf L n s'" "records_of s' = al_upd key v (records_of s)"
    and "leading_zeros L key = n \<or> (\<exists>l \<in> set (tleaves s). leading_zeros L (lkey l) = n)"
  shows "canonical_tree t' s'"
proof -
  have "\<exists>l \<in> set (tleaves s'). leading_zeros L (lkey l) = n"
    using assms(3) grown_keys [OF assms(2)] by (metis image_iff insert_iff)
  then have "trimmed s'" "s' \<noteq> Node []" using top_leaf_trimmed [OF assms(1)] by auto
  then show ?thesis by (simp add: canonical_tree_def)
qed

lemma canonical_top:
  assumes "ready L M n t s seen" "canonical_tree t s" "s \<noteq> Node []"
  shows "\<exists>l \<in> set (tleaves s). leading_zeros L (lkey l) = n"
  by (rule trimmed_top_leaf) (use assms in \<open>simp_all add: ready_def canonical_tree_def\<close>)

lemma mst_add_tree:
  assumes "codec_ok L" "layers_ok L" "held_tree L M t s" "valid_key key"
  shows "if map_of (records_of s) key = None
    then \<exists>t' s'. mst_add L st t key v = Inr t' \<and> held_tree L M t' s' \<and> records_of s' = al_upd key v (records_of s)
      \<and> (canonical_tree t s \<longrightarrow> canonical_tree t' s')
    else mst_add L st t key v = Inl (KeyExists key)"
proof -
  obtain n where h: "ready L M n t s {}" "n \<le> 128" "s = Node [] \<longrightarrow> m_layer t = None \<longrightarrow> n = 0" "n < MAX_DEPTH" "Suc n < MAX_DEPTH"
    by (rule held_treeE [OF assms(3)])
  let ?z = "leading_zeros L key"
  have g: "grows L n t s {} key v (insert_in MAX_DEPTH L st t key v ?z {})"
    by (rule insert_in_ok [OF assms(1,4) h(1,5)]) (use h(3) in simp)
  show ?thesis
  proof (cases "map_of (records_of s) key = None")
    case True
    then obtain t' s' seen' where r: "insert_in MAX_DEPTH L st t key v ?z {} = Inr (t', seen')"
        "ready L M (max n ?z) t' s' seen'" "records_of s' = al_upd key v (records_of s)"
      using g by (auto simp: grows_def)
    have wf: "tree_wf L (max n ?z) s'" using r(2) by (simp add: ready_def)
    have "?z \<le> 128" using assms(2) by (simp add: layers_ok_def)
    moreover have "s' \<noteq> Node []" using grown_keys [OF r(3)] by auto
    ultimately have "held_tree L M t' s'" using held_treeI [OF r(2)] h(2) by simp
    moreover have "canonical_tree t' s'" if c: "canonical_tree t s"
    proof (rule grown_canonical [OF wf r(3)])
      show "?z = max n ?z \<or> (\<exists>l \<in> set (tleaves s). leading_zeros L (lkey l) = max n ?z)"
      proof (cases "s = Node []")
        case True
        then have "n = 0" using h(3) c hint_ready [OF h(1)] by (auto simp: canonical_tree_def hint_def)
        then show ?thesis by simp
      qed (use canonical_top [OF h(1) c] in \<open>auto simp: max_def\<close>)
    qed
    ultimately show ?thesis using True r(1,3) assms(4) by (auto simp: mst_add_def ensure_valid_key_def)
  next
    case False
    then show ?thesis using g assms(4) by (simp add: grows_def mst_add_def ensure_valid_key_def)
  qed
qed

lemma insert_layer:
  assumes "insert_in (Suc lv) L st t key v z seen = Inr (t', seen')" "layer_in lv L st t seen = Inr (lay, t1, seen1)"
  shows "m_layer t' = Some (max lay z)"
  using assms
  by (auto simp: from_entries_def bindE_eq_Inr max_def Let_def split: if_splits option.splits)

text \<open>Adding leaves a tree that knows its layer.\<close>

lemma mst_add_layer:
  assumes "codec_ok L" "ready L M n t s {}" "Suc n < MAX_DEPTH" "s = Node [] \<longrightarrow> m_layer t = None \<longrightarrow> n = 0"
    and "mst_add L st t key v = Inr t'"
  shows "m_layer t' = Some (max n (leading_zeros L key))"
proof -
  obtain lv where lv: "MAX_DEPTH = Suc lv" by (simp add: MAX_DEPTH_def)
  obtain es ptr seen1 where l: "layer_in lv L st t {} = Inr (n, Mst es (Some n) ptr, seen1)"
    by (rule layer_ok [OF assms(1,2), of lv]) (use assms(3,4) lv in auto)
  obtain seen' where "insert_in (Suc lv) L st t key v (leading_zeros L key) {} = Inr (t', seen')"
    using assms(5) lv by (auto simp: mst_add_def bindE_eq_Inr simp del: insert_in.simps)
  then show ?thesis by (rule insert_layer [OF _ l])
qed

lemma mst_update_tree:
  assumes "codec_ok L" "held_tree L M t s" "valid_key key"
  shows "if map_of (records_of s) key = None then mst_update L st t key v = Inl (KeyMissing key)
    else \<exists>t' s'. mst_update L st t key v = Inr t' \<and> held_tree L M t' s' \<and> records_of s' = al_upd key v (records_of s)
      \<and> (canonical_tree t s \<longrightarrow> canonical_tree t' s')"
proof -
  obtain n where h: "ready L M n t s {}" "n \<le> 128" "s = Node [] \<longrightarrow> m_layer t = None \<longrightarrow> n = 0" "n < MAX_DEPTH"
    by (rule held_treeE [OF assms(2)])
  note g = update_in_ok [OF assms(1,3) h(1,4), of v]
  show ?thesis
  proof (cases "map_of (records_of s) key = None")
    case False
    then obtain t' s' seen' where r: "update_in MAX_DEPTH L st t key v {} = Inr (t', seen')"
        "ready L M n t' s' seen'" "records_of s' = al_upd key v (records_of s)"
      using g by (auto simp: changed_def)
    have wf: "tree_wf L n s'" using r(2) by (simp add: ready_def)
    have ne: "s \<noteq> Node []" "s' \<noteq> Node []" using False grown_keys [OF r(3)] by auto
    then have "held_tree L M t' s'" using held_treeI [OF r(2) h(2)] by simp
    moreover have "canonical_tree t' s'" if "canonical_tree t s"
      by (rule grown_canonical [OF wf r(3)]) (use canonical_top [OF h(1) that ne(1)] in simp)
    ultimately show ?thesis using False r(1,3) by (auto simp: mst_update_def)
  next
    case True
    then show ?thesis using g by (simp add: changed_def mst_update_def)
  qed
qed

text \<open>A deletion trims whatever tree it is given; an emptied tree keeps its layer.\<close>

lemma mst_delete_tree:
  assumes "codec_ok L" "layers_ok L" "held_tree L M t s"
  shows "if map_of (records_of s) key = None then mst_delete L st t key = Inl (KeyMissing key)
    else \<exists>t' s'. mst_delete L st t key = Inr t' \<and> held_tree L M t' s' \<and> records_of s' = al_del key (records_of s) \<and> trimmed s'
      \<and> (s' = Node [] \<longrightarrow> m_entries t' = Some [] \<and> m_layer t' = m_layer t)"
proof -
  obtain n where h: "ready L M n t s {}" "n \<le> 128" "s = Node [] \<longrightarrow> m_layer t = None \<longrightarrow> n = 0" "n < MAX_DEPTH" "Suc n < MAX_DEPTH"
    by (rule held_treeE [OF assms(3)])
  note g = delete_recurse_ok [OF assms(1) h(1,5), of key]
  show ?thesis
  proof (cases "map_of (records_of s) key = None")
    case False
    then obtain t1 s1 seen1 where r: "delete_recurse MAX_DEPTH L st t key {} = Inr (t1, seen1)"
        "ready L M n t1 s1 seen1" "records_of s1 = al_del key (records_of s)" "m_layer t1 = m_layer t"
      using g by (auto simp: changed_def)
    obtain n' t' s' seen' where q: "trim_top MAX_DEPTH L st t1 seen1 = Inr (t', seen')" "ready L M n' t' s' seen'"
        "trimmed s'" "tleaves s' = tleaves s1"
        "s1 = Node [] \<longrightarrow> s' = Node [] \<and> m_layer t' = m_layer t1 \<and> m_entries t' = Some []"
      using trim_top_ok [OF assms(1) r(2) h(4)] by blast
    have del: "mst_delete L st t key = Inr t'" using r(1) q(1) by (simp add: mst_delete_def)
    have rec: "records_of s' = al_del key (records_of s)" using q(4) r(3) by simp
    show ?thesis
    proof (cases "s' = Node []")
      case True
      have "s1 = Node []" using q(4) True r(2) wf_leaves_nonempty [of L n s1] by (auto simp: ready_def)
      then have e: "m_layer t' = m_layer t" "m_entries t' = Some []" using q(5) r(4) by simp_all
      define k where "k = (if m_layer t' = None then 0 else n)"
      have "hint k (m_layer t')" using hint_ready [OF h(1)] e(1) by (auto simp: k_def hint_def split: option.splits)
      then have "ready L M k t' s' {}" using q(2) e(2) True by (cases t') (auto simp: ready_def)
      then have "held_tree L M t' s'" by (rule held_treeI) (use h(2) in \<open>simp_all add: k_def\<close>)
      then show ?thesis using False del rec e q(3) by auto
    next
      case ne: False
      have "held_tree L M t' s'" by (rule held_treeI [OF q(2) ready_layer [OF q(2,3) assms(2) ne]]) (use ne in simp)
      then show ?thesis using False del rec q(3) ne by auto
    qed
  next
    case True
    then show ?thesis using g by (simp add: changed_def mst_delete_def)
  qed
qed

text \<open>The operations on a tree its records determine.\<close>

lemma mst_add_ok:
  assumes "codec_ok L" "layers_ok L" "holds L M t ps" "valid_key key"
  shows "if map_of ps key = None
    then \<exists>t'. mst_add L st t key v = Inr t' \<and> holds L M t' (al_upd key v ps)
    else mst_add L st t key v = Inl (KeyExists key)"
proof -
  obtain s where "held_tree L M t s" "canonical_tree t s" "records_of s = ps" using assms(3) holds_iff [OF assms(2)] by blast
  then show ?thesis using mst_add_tree [OF assms(1,2) _ assms(4), of t s v] holds_iff [OF assms(2), of M] by (auto split: if_splits)
qed

lemma mst_update_ok:
  assumes "codec_ok L" "layers_ok L" "holds L M t ps" "valid_key key"
  shows "if map_of ps key = None then mst_update L st t key v = Inl (KeyMissing key)
    else \<exists>t'. mst_update L st t key v = Inr t' \<and> holds L M t' (al_upd key v ps)"
proof -
  obtain s where "held_tree L M t s" "canonical_tree t s" "records_of s = ps" using assms(3) holds_iff [OF assms(2)] by blast
  then show ?thesis using mst_update_tree [OF assms(1) _ assms(4), of t s v] holds_iff [OF assms(2), of M] by (auto split: if_splits)
qed

lemma mst_delete_ok:
  assumes "codec_ok L" "layers_ok L" "holds L M t ps"
  shows "if map_of ps key = None then mst_delete L st t key = Inl (KeyMissing key)
    else \<exists>t'. mst_delete L st t key = Inr t'
      \<and> (if al_del key ps = [] then m_entries t' = Some [] else holds L M t' (al_del key ps))"
proof -
  obtain s where s: "held_tree L M t s" "records_of s = ps" using assms(3) holds_iff [OF assms(2)] by blast
  show ?thesis
  proof (cases "map_of ps key = None")
    case False
    then obtain t' s' where d: "mst_delete L st t key = Inr t'" "held_tree L M t' s'" "records_of s' = al_del key ps" "trimmed s'"
        "s' = Node [] \<longrightarrow> m_entries t' = Some [] \<and> m_layer t' = m_layer t"
      using mst_delete_tree [OF assms(1,2) s(1), of key] s(2) by auto
    obtain n where wf: "tree_wf L n s'" by (rule held_tree_shape [OF d(2)])
    show ?thesis
    proof (cases "s' = Node []")
      case True
      then show ?thesis using False d by (auto simp flip: d(3))
    next
      case ne: False
      then have "al_del key ps \<noteq> []" using wf_leaves_nonempty [OF wf] by (simp flip: d(3))
      moreover have "holds L M t' (al_del key ps)"
        unfolding holds_iff [OF assms(2)] by (intro exI [of _ s']) (use d ne in \<open>simp add: canonical_tree_def\<close>)
      ultimately show ?thesis using False d(1) by simp
    qed
  qed (use mst_delete_tree [OF assms(1,2) s(1), of key] s(2) in simp)
qed

end

end
