(* ===== verification/Mst_Hash.thy ===== *)
theory Mst_Hash
  imports Mst_Ops
begin

text \<open>
  Hashing and saving: \<open>root\<close> returns the CID of the represented tree, so two trees with the same
  records have the same root whatever was done to build them, and \<open>unstored_blocks\<close> returns
  exactly the blocks a store needs for the tree to be read back from its root.
\<close>

section \<open>Hashing\<close>

lemma readys_Cons:
  "readys L M n (e # es) (f # fs) seen \<longleftrightarrow> readys L M n [e] [f] seen \<and> readys L M n es fs seen
     \<and> (\<forall>x \<in> set (eleaves f). \<forall>y \<in> set (esleaves fs). lkey x < lkey y)"
  using readys_append [of "[e]" "[f]" L M n es fs seen] by simp

lemma keepss_Cons:
  assumes "codec_ok L" "readys L M n (e # es) (f # fs) seen" "keepss L M n fs es seen es' seen'"
  shows "keepss L M n (f # fs) (e # es) seen (e # es') seen'"
  using keepss_right [OF assms(1), of M n "[e]" es "[f]" fs seen es' seen'] assms(2,3) by simp

lemma keepss_head:
  assumes "codec_ok L" "readys L M n (ETree x # es) (TS s # fs) seen" "keeps L M (n - 1) s x seen x' seen'"
  shows "keepss L M n (TS s # fs) (ETree x # es) seen (ETree x' # es) seen'"
  using keepss_inside [OF assms(1), of M n "[]" x es "[]" s fs seen x' seen'] assms(2,3) by simp

lemma ensure_valid: "valid_key k \<Longrightarrow> ensure_valid_key k = Inr ()"
  by (simp add: ensure_valid_key_def)

lemma encode_node: "codec_ok L \<Longrightarrow> encode (node_to_vec L) d = Inr (node_bytes L d)"
  using codec_bytes [of L d] by (simp add: encode_def)

abbreviation hashes ::
    "('c, 'l) mst_lib_scheme \<Rightarrow> ('c \<Rightarrow> bytes option) \<Rightarrow> nat
      \<Rightarrow> ('c mst \<Rightarrow> 'c set \<Rightarrow> 'c repo_error + ('c \<times> 'c mst \<times> 'c set)) \<Rightarrow> bool" where
  "hashes L M n f \<equiv> (\<forall>x s seen. ready L M n x s seen \<longrightarrow>
     (\<exists>x' seen'. f x seen = Inr (tcid L s, x', seen') \<and> keeps L M n s x seen x' seen'))"

lemma hashesI:
  assumes "\<And>x s seen. ready L M n x s seen \<Longrightarrow>
    \<exists>x' seen'. f x seen = Inr (tcid L s, x', seen') \<and> keeps L M n s x seen x' seen' \<and> m_layer x' = m_layer x"
  shows "hashes L M n f"
  using assms by blast

lemma ser_entries_ok:
  assumes c: "codec_ok L" and f: "0 < n \<Longrightarrow> hashes L M (n - 1) f"
  shows "readys L M n es fs seen \<Longrightarrow> no_adj fs \<Longrightarrow> fs = [] \<or> (\<exists>l r. fs = TL l # r) \<Longrightarrow>
    \<exists>es' seen'. ser_entries f prior es seen = Inr (pack prior (map (ecode L) fs), es', seen')
      \<and> keepss L M n fs es seen es' seen'"
proof (induction "length fs" arbitrary: fs es prior seen rule: less_induct)
  case less
  show ?case
  proof (cases "fs = []")
    case True
    then have "es = []" using readys_length [OF less.prems(1)] by simp
    with True show ?thesis by (simp add: keepss_refl)
  next
    case False
    then obtain l r where fs: "fs = TL l # r" using less.prems(3) by blast
    obtain ds where es: "es = ELeaf l # ds" using less.prems(1) fs by (auto simp: readys_def list_all2_Cons2)
    have v: "valid_key (lkey l)" "readys L M n ds r seen"
      using less.prems(1) fs es readys_Cons [of L M n "ELeaf l" ds "TL l" r seen]
      by (simp_all add: readys_def)
    show ?thesis
    proof (cases "\<exists>s q. r = TS s # q")
      case True
      then obtain s q where r: "r = TS s # q" by blast
      then obtain x cs where ds: "ds = ETree x # cs" using v(2) by (auto simp: readys_def list_all2_Cons2)
      have one: "readys L M n [ETree x] [TS s] seen"
        using v(2) readys_Cons [of L M n "ETree x" cs "TS s" q seen] unfolding ds r by blast
      then have sub: "0 < n" "ready L M (n - 1) x s seen" by (simp_all add: readys_tree)
      then obtain x' seen1 where g: "f x seen = Inr (tcid L s, x', seen1)" "keeps L M (n - 1) s x seen x' seen1"
        using f by metis
      have k1: "keepss L M n r ds seen (ETree x' # cs) seen1"
        unfolding r ds by (rule keepss_head [OF c v(2) [unfolded ds r] g(2)])
      then have rd1: "readys L M n (ETree x' # cs) (TS s # q) seen1" unfolding r by (simp add: keepss_def)
      then have q: "readys L M n cs q seen1" "no_adj q" "q = [] \<or> (\<exists>l r. q = TL l # r)"
        using less.prems(2) fs r readys_Cons [of L M n "ETree x'" cs "TS s" q seen1] by (auto simp: no_adj_TS)
      obtain cs' seen' where h: "ser_entries f (lkey l) cs seen1 = Inr (pack (lkey l) (map (ecode L) q), cs', seen')"
          "keepss L M n q cs seen1 cs' seen'"
        using less.hyps [of q cs seen1 "lkey l"] q fs r by auto
      have "keepss L M n r (ETree x' # cs) seen1 (ETree x' # cs') seen'"
        unfolding r by (rule keepss_Cons [OF c rd1 h(2)])
      then have "keepss L M n r ds seen (ETree x' # cs') seen'" by (rule keepss_trans [OF k1])
      then have "keepss L M n fs es seen (ELeaf l # ETree x' # cs') seen'"
        unfolding fs es by (rule keepss_Cons [OF c less.prems(1) [unfolded fs es]])
      then show ?thesis using g(1) h(1) v(1) by (simp add: fs es r ds Let_def ensure_valid)
    next
      case no: False
      then have q: "no_adj r" "r = [] \<or> (\<exists>k q. r = TL k # q)"
        using less.prems(2) fs by (auto, metis list.exhaust tent.exhaust)
      obtain ds' seen' where h: "ser_entries f (lkey l) ds seen = Inr (pack (lkey l) (map (ecode L) r), ds', seen')"
          "keepss L M n r ds seen ds' seen'"
        using less.hyps [of r ds seen "lkey l"] v(2) q fs by auto
      have "keepss L M n fs es seen (ELeaf l # ds') seen'"
        unfolding fs es by (rule keepss_Cons [OF c less.prems(1) [unfolded fs es] h(2)])
      moreover have "ser_entries f prior es seen = Inr (pack prior (map (ecode L) fs), ELeaf l # ds', seen')"
        using h(1) v q(2) by (auto simp: fs es Let_def readys_def list_all2_Cons2 ensure_valid)
      ultimately show ?thesis by blast
    qed
  qed
qed

lemma serialize_ok:
  assumes c: "codec_ok L" and f: "0 < n \<Longrightarrow> hashes L M (n - 1) f"
    and rd: "readys L M n es fs seen" "no_adj fs"
  shows "\<exists>es' seen'. serialize f es seen = Inr (node_pack (map (ecode L) fs), es', seen')
      \<and> keepss L M n fs es seen es' seen'"
proof (cases "\<exists>s q. fs = TS s # q")
  case True
  then obtain s q where fs: "fs = TS s # q" by blast
  then obtain x cs where es: "es = ETree x # cs" using rd(1) by (auto simp: readys_def list_all2_Cons2)
  have "readys L M n [ETree x] [TS s] seen"
    using rd(1) readys_Cons [of L M n "ETree x" cs "TS s" q seen] unfolding es fs by blast
  then have sub: "0 < n" "ready L M (n - 1) x s seen" by (simp_all add: readys_tree)
  then obtain x' seen1 where g: "f x seen = Inr (tcid L s, x', seen1)" "keeps L M (n - 1) s x seen x' seen1"
    using f by metis
  have k1: "keepss L M n fs es seen (ETree x' # cs) seen1"
    unfolding fs es by (rule keepss_head [OF c rd(1) [unfolded es fs] g(2)])
  then have rd1: "readys L M n (ETree x' # cs) (TS s # q) seen1" unfolding fs by (simp add: keepss_def)
  then have q: "readys L M n cs q seen1" "no_adj q" "q = [] \<or> (\<exists>l r. q = TL l # r)"
    using rd(2) fs readys_Cons [of L M n "ETree x'" cs "TS s" q seen1] by (auto simp: no_adj_TS)
  obtain cs' seen' where h: "ser_entries f [] cs seen1 = Inr (pack [] (map (ecode L) q), cs', seen')"
      "keepss L M n q cs seen1 cs' seen'"
    using ser_entries_ok [OF c f q] by blast
  have "keepss L M n fs (ETree x' # cs) seen1 (ETree x' # cs') seen'"
    unfolding fs by (rule keepss_Cons [OF c rd1 h(2)])
  then have "keepss L M n fs es seen (ETree x' # cs') seen'" by (rule keepss_trans [OF k1])
  then show ?thesis using g(1) h(1) by (simp add: fs es)
next
  case False
  then have st: "fs = [] \<or> (\<exists>l r. fs = TL l # r)" by (metis list.exhaust tent.exhaust)
  obtain es' seen' where h: "ser_entries f [] es seen = Inr (pack [] (map (ecode L) fs), es', seen')"
      "keepss L M n fs es seen es' seen'"
    using ser_entries_ok [OF c f rd st] by blast
  have "es = [] \<or> (\<exists>l r. es = ELeaf l # r)" using st rd(1) by (auto simp: readys_def list_all2_Cons2)
  then have "serialize f es seen = Inr (node_pack (map (ecode L) fs), es', seen')"
    using h(1) st by auto
  with h(2) show ?thesis by blast
qed

context block_store
begin

lemma root_in_ok:
  assumes c: "codec_ok L"
  shows "ready L M n t s seen \<Longrightarrow> n < lv \<Longrightarrow>
    \<exists>t' seen'. root_in lv L st t seen = Inr (tcid L s, t', seen') \<and> keeps L M n s t seen t' seen'
      \<and> m_layer t' = m_layer t"
proof (induction lv arbitrary: n t s seen)
  case (Suc lv)
  show ?case
  proof (cases "m_pointer t")
    case (Some p)
    then have "p = tcid L s"
      using Suc.prems(1) by (cases t; cases "m_entries t"; cases s) (auto simp: ready_def)
    with Some show ?thesis using keeps_refl [OF Suc.prems(1)] by simp
  next
    case None
    obtain es fs seen1 where e: "s = Node fs"
        "entries_in L st t seen = Inr (es, Mst (Some es) (m_layer t) None, seen1)"
        "keeps L M n s t seen (Mst (Some es) (m_layer t) None) seen1"
        "readys L M n es fs seen1" "no_adj fs" "hint n (m_layer t)"
      using entries_ok [OF c Suc.prems(1)] None by metis
    have "hashes L M (n - 1) (root_in lv L st)" if "0 < n"
      using Suc.IH [of "n - 1"] Suc.prems(2) that by (intro hashesI) simp_all
    then obtain es' seen' where h: "serialize (root_in lv L st) es seen1 = Inr (node_pack (map (ecode L) fs), es', seen')"
        "keepss L M n fs es seen1 es' seen'"
      using serialize_ok [OF c _ e(4,5), of "root_in lv L st"] by blast
    have "root_in (Suc lv) L st t seen = Inr (tcid L s, Mst (Some es') (m_layer t) (Some (tcid L s)), seen')"
      using None e(1,2) h(1) by (simp add: Let_def encode_node [OF c])
    moreover have "keeps L M n s t seen (Mst (Some es') (m_layer t) (Some (tcid L s))) seen'"
    proof (rule keeps_trans [OF e(3)])
      show "keeps L M n s (Mst (Some es) (m_layer t) None) seen1
          (Mst (Some es') (m_layer t) (Some (tcid L s))) seen'"
        using h(2) e(1,5,6) by (auto simp: keeps_def keepss_def ready_loaded pend_loaded)
    qed
    ultimately show ?thesis by (metis mst.sel(2))
  qed
qed simp

lemma mst_root_ok:
  assumes "codec_ok L" "layers_ok L" "holds L M t ps" "tree_wf L n s" "trimmed s" "records_of s = ps"
  shows "\<exists>t'. mst_root L st t = Inr (tcid L s, t') \<and> holds L M t' ps"
proof -
  obtain m where h: "ready L M m t s {}" "m \<le> 128" "s = Node [] \<Longrightarrow> m = 0"
    using holds_canonical [OF _ assms(2,4,5)] assms(3,6) by blast
  have "m < MAX_DEPTH" using h(2) by (simp add: MAX_DEPTH_def)
  from root_in_ok [OF assms(1) h(1) this] obtain t' seen' where
      "root_in MAX_DEPTH L st t {} = Inr (tcid L s, t', seen')" "keeps L M m s t {} t' seen'"
    by blast
  with keeps_holds [OF this(2) assms(5) h(3)] assms(6) show ?thesis by (simp add: mst_root_def)
qed

lemma root_tree:
  assumes "codec_ok L" "held_tree L M t s"
  obtains t' where "mst_root L st t = Inr (tcid L s, t')"
proof -
  obtain n where "ready L M n t s {}" "n < MAX_DEPTH" by (rule held_treeE [OF assms(2)])
  from root_in_ok [OF assms(1) this] obtain t' seen' where "root_in MAX_DEPTH L st t {} = Inr (tcid L s, t', seen')" by blast
  then show thesis by (intro that [of t']) (simp add: mst_root_def)
qed

end


section \<open>Saving\<close>

primrec ublocks :: "('c::linorder, 'l) mst_lib_scheme \<Rightarrow> ('c \<Rightarrow> bytes option) \<Rightarrow> 'c tree \<Rightarrow> 'c block_map"
and eublocks :: "('c, 'l) mst_lib_scheme \<Rightarrow> ('c \<Rightarrow> bytes option) \<Rightarrow> 'c tent \<Rightarrow> 'c block_map list" where
  "ublocks L M (Node es) =
     (if M (tcid L (Node es)) \<noteq> None then []
      else fold (\<lambda>bs m. bm_merge m bs) (concat (map (eublocks L M) es))
             (bm_insert (tcid L (Node es)) (node_bytes L (node_pack (map (ecode L) es))) []))"
| "eublocks L M (TL l) = []"
| "eublocks L M (TS t) = [ublocks L M t]"

text \<open>The contract again, at CIDs that have an order: block maps need one.\<close>

locale ordered_store = block_store st M for st :: "'c::linorder store" and M :: "'c \<Rightarrow> bytes option"
begin

lemma unstored_blocks_in_ok:
  assumes c: "codec_ok L"
  shows "ready L M n t s seen \<Longrightarrow> Suc n < lv \<Longrightarrow>
    \<exists>t' seen'. unstored_blocks_in lv L st t seen = Inr ((tcid L s, ublocks L M s), t', seen')
      \<and> keeps L M n s t seen t' seen' \<and> m_layer t' = m_layer t"
proof (induction lv arbitrary: n t s seen)
  case (Suc lv)
  obtain t1 seen1 where r: "root_in lv L st t seen = Inr (tcid L s, t1, seen1)" "keeps L M n s t seen t1 seen1"
      "m_layer t1 = m_layer t"
    using root_in_ok [OF c Suc.prems(1)] Suc.prems(2) by (metis Suc_less_SucD)
  have rd1: "ready L M n t1 s seen1" using r(2) by (simp add: keeps_def)
  show ?case
  proof (cases "M (tcid L s)")
    case (Some b)
    then have "ublocks L M s = []" by (cases s) simp
    with Some r show ?thesis by (simp add: contains_eq)
  next
    case None
    obtain es fs seen2 where e: "s = Node fs"
        "entries_in L st t1 seen1 = Inr (es, Mst (Some es) (m_layer t1) (m_pointer t1), seen2)"
        "keeps L M n s t1 seen1 (Mst (Some es) (m_layer t1) (m_pointer t1)) seen2"
        "readys L M n es fs seen2" "no_adj fs" "hint n (m_layer t1)"
      using entries_ok [OF c rd1] by metis
    have "hashes L M (n - 1) (root_in lv L st)" if "0 < n"
      using root_in_ok [OF c, of "n - 1"] Suc.prems(2) that by (intro hashesI) simp_all
    then obtain es3 seen3 where h: "serialize (root_in lv L st) es seen2 = Inr (node_pack (map (ecode L) fs), es3, seen3)"
        "keepss L M n fs es seen2 es3 seen3"
      using serialize_ok [OF c _ e(4,5), of "root_in lv L st"] by blast
    have rd3: "readys L M n es3 fs seen3" using h(2) by (simp add: keepss_def)
    let ?f = "\<lambda>s seen. bindE (unstored_blocks_in lv L st s seen) (\<lambda>((r, bs), s, seen). Inr ([bs], s, seen))"
    have sub: "\<exists>x' seen'. ?f x seen = Inr ([ublocks L M u], x', seen') \<and> keeps L M (n - 1) u x seen x' seen'"
      if "ready L M (n - 1) x u seen" "0 < n" for x u seen
      using Suc.IH [OF that(1)] Suc.prems(2) that(2) by fastforce
    obtain es4 seen4 where v: "visit_entries ?f (\<lambda>l. []) es3 seen3
        = Inr (concat (map (\<lambda>e. case e of TL l \<Rightarrow> [] | TS s \<Rightarrow> [ublocks L M s]) fs), es4, seen4)"
        "keepss L M n fs es3 seen3 es4 seen4"
      using visit_entries_ok [OF c sub rd3, where g = "\<lambda>l. []"] by blast
    have eq: "concat (map (\<lambda>e. case e of TL l \<Rightarrow> [] | TS s \<Rightarrow> [ublocks L M s]) fs) = concat (map (eublocks L M) fs)"
      by (rule arg_cong [where f = concat], rule map_cong) (simp_all split: tent.split)
    have "unstored_blocks_in (Suc lv) L st t seen
        = Inr ((tcid L s, ublocks L M s), Mst (Some es4) (m_layer t1) (m_pointer t1), seen4)"
      using r(1) None e(1,2) h(1) v(1) [unfolded eq]
      by (simp add: contains_eq bm_add_def encode_node [OF c] set_entries_def Let_def)
    moreover have "keeps L M n s t seen (Mst (Some es4) (m_layer t1) (m_pointer t1)) seen4"
    proof (rule keeps_trans [OF r(2)], rule keeps_trans [OF e(3)])
      show "keeps L M n s (Mst (Some es) (m_layer t1) (m_pointer t1)) seen2
          (Mst (Some es4) (m_layer t1) (m_pointer t1)) seen4"
        by (rule keeps_loaded) (use e keepss_trans [OF h(2) v(2)] in \<open>auto simp: keeps_def\<close>)
    qed
    ultimately show ?thesis using r(3) by simp
  qed
qed simp

end

interpretation bmo: ordered_store "bm_store m" "map_of m" for m
  by unfold_locales

text \<open>What the collected blocks are.\<close>

lemma merge_all_lookup:
  assumes "\<And>bs. bs \<in> set bss \<Longrightarrow> ascending bs" "map_of (fold (\<lambda>bs m. bm_merge m bs) bss m) c = Some b"
  shows "map_of m c = Some b \<or> (\<exists>bs \<in> set bss. map_of bs c = Some b)"
  using assms
proof (induction bss arbitrary: m)
  case (Cons bs bss)
  have "map_of (bm_merge m bs) c = Some b \<or> (\<exists>bs \<in> set bss. map_of bs c = Some b)"
    by (rule Cons.IH) (use Cons.prems in simp_all)
  then show ?case using map_of_bm_merge [of bs m] Cons.prems(1) by (auto simp: map_add_def split: option.splits)
qed simp

lemma merge_all_dom:
  assumes "\<And>bs. bs \<in> set bss \<Longrightarrow> ascending bs"
  shows "dom (map_of (fold (\<lambda>bs m. bm_merge m bs) bss m)) = dom (map_of m) \<union> (\<Union>bs \<in> set bss. dom (map_of bs))"
  using assms
proof (induction bss arbitrary: m)
  case (Cons bs bss)
  then show ?case using map_of_bm_merge [of bs m] by auto
qed simp

lemma ascending_merge_all: "ascending m \<Longrightarrow> ascending (fold (\<lambda>bs m. bm_merge m bs) bss m)"
  by (induction bss arbitrary: m) (simp_all add: ascending_bm_merge)

lemma ascending_ublocks: "ascending (ublocks L M s)"
  by (cases s) (simp add: ascending_merge_all)

lemma ascending_eublocks: "bs \<in> set (eublocks L M e) \<Longrightarrow> ascending bs"
  by (cases e) (auto simp: ascending_ublocks)

lemma ublocks_sound:
  "map_of (ublocks L M s) c = Some b \<Longrightarrow> c = cid_for L b \<and> M c = None \<and> c \<in> set (tcids L s)"
  "bs \<in> set (eublocks L M e) \<Longrightarrow> map_of bs c = Some b \<Longrightarrow> c = cid_for L b \<and> M c = None \<and> c \<in> set (ecids L e)"
proof (induction s and e arbitrary: c b and c b bs)
  case (Node es)
  let ?c = "tcid L (Node es)" and ?b = "node_bytes L (node_pack (map (ecode L) es))"
  have no: "M ?c = None" using Node.prems by (auto split: if_splits)
  then have "map_of (fold (\<lambda>bs m. bm_merge m bs) (concat (map (eublocks L M) es)) (bm_insert ?c ?b [])) c = Some b"
    using Node.prems by simp
  then consider "c = ?c" "b = ?b" | e bs where "e \<in> set es" "bs \<in> set (eublocks L M e)" "map_of bs c = Some b"
    using merge_all_lookup [of "concat (map (eublocks L M) es)" "bm_insert ?c ?b []" c b] ascending_eublocks
    by (fastforce split: if_splits)
  then show ?case
  proof cases
    case 1
    then show ?thesis using no by simp
  next
    case 2
    then show ?thesis using Node.IH by fastforce
  qed
qed auto


section \<open>Reading back what was saved\<close>

text \<open>A content-addressed store that holds every node under a node it holds, and a hash with no
  collisions.\<close>

definition addressed :: "('c, 'l) mst_lib_scheme \<Rightarrow> ('c \<Rightarrow> bytes option) \<Rightarrow> bool" where
  "addressed L M \<longleftrightarrow> (\<forall>c b. M c = Some b \<longrightarrow> c = cid_for L b)"

definition closed_store :: "('c, 'l) mst_lib_scheme \<Rightarrow> ('c \<Rightarrow> bytes option) \<Rightarrow> bool" where
  "closed_store L M \<longleftrightarrow> (\<forall>n s. tree_wf L n s \<longrightarrow> M (tcid L s) \<noteq> None \<longrightarrow> stored L M s)"

definition no_collision :: "('c, 'l) mst_lib_scheme \<Rightarrow> bool" where
  "no_collision L \<longleftrightarrow> (\<forall>a b. cid_for L a = cid_for L b \<longrightarrow> a = b)"

definition sound_store :: "('c, 'l) mst_lib_scheme \<Rightarrow> ('c \<Rightarrow> bytes option) \<Rightarrow> bool" where
  "sound_store L M \<longleftrightarrow> addressed L M \<and> closed_store L M"

lemma sound_store_empty: "sound_store L (map_of [])"
  by (simp add: sound_store_def addressed_def closed_store_def)

lemma tcid_inj:
  assumes "codec_ok L" "no_collision L"
  shows "tree_wf L m s \<Longrightarrow> tree_wf L n t \<Longrightarrow> tcid L s = tcid L t \<Longrightarrow> s = t"
    and "ent_wf L m e \<Longrightarrow> ent_wf L n f \<Longrightarrow> ecode L e = ecode L f \<Longrightarrow> e = f"
proof (induction s and e arbitrary: t m n and f m n)
  case (Node es)
  obtain fs where t: "t = Node fs" by (cases t)
  have "node_bytes L (node_pack (map (ecode L) es)) = node_bytes L (node_pack (map (ecode L) fs))"
    using Node.prems(3) t assms(2) unfolding no_collision_def by simp
  then have "node_pack (map (ecode L) es) = node_pack (map (ecode L) fs)"
    by (rule node_bytes_inj [OF assms(1)])
  then have "map (ecode L) es = map (ecode L) fs"
    using Node.prems(1,2) t by (auto intro: node_pack_inj packable_wf)
  then have "list_all2 (\<lambda>e f. ecode L e = ecode L f) es fs"
    by (rule list_all2_ecode)
  then have "list_all2 (=) es fs"
  proof (rule list.rel_mono_strong)
    fix e f assume ef: "e \<in> set es" "f \<in> set fs" "ecode L e = ecode L f"
    have "ent_wf L m e" "ent_wf L n f" using Node.prems(1,2) t ef(1,2) by (simp_all add: list_all_iff)
    then show "e = f" by (rule Node.IH [OF ef(1)]) (rule ef(3))
  qed
  then show ?case using t by (simp add: list.rel_eq)
next
  case (TL l)
  then show ?case by (cases f) auto
next
  case (TS s)
  then show ?case by (cases f) auto
qed

lemma stored_iff_dom:
  assumes "no_collision L" "addressed L M"
  shows "stored L M s \<longleftrightarrow> set (tcids L s) \<subseteq> dom M"
    and "estored L M e \<longleftrightarrow> set (ecids L e) \<subseteq> dom M"
proof (induction s and e)
  case (Node es)
  let ?b = "node_bytes L (node_pack (map (ecode L) es))"
  have "M (tcid L (Node es)) = Some ?b \<longleftrightarrow> tcid L (Node es) \<in> dom M"
    using assms unfolding no_collision_def addressed_def by auto
  moreover have "list_all (estored L M) es \<longleftrightarrow> (\<Union>e \<in> set es. set (ecids L e)) \<subseteq> dom M"
    using Node.IH by (auto simp: list_all_iff)
  ultimately show ?case by (simp del: tcid.simps)
qed simp_all

lemma ublocks_dom:
  assumes "no_collision L" "sound_store L M"
  shows "tree_wf L n s \<Longrightarrow> set (tcids L s) \<subseteq> dom M \<union> dom (map_of (ublocks L M s))"
    and "ent_wf L n e \<Longrightarrow> set (ecids L e) \<subseteq> dom M \<union> (\<Union>bs \<in> set (eublocks L M e). dom (map_of bs))"
proof (induction s and e arbitrary: n and n)
  case (Node es)
  show ?case
  proof (cases "M (tcid L (Node es))")
    case (Some b)
    then have "stored L M (Node es)"
      using assms(2) Node.prems unfolding sound_store_def closed_store_def by blast
    then show ?thesis
      using stored_iff_dom(1) [OF assms(1)] assms(2) unfolding sound_store_def by blast
  next
    case None
    have sub: "set (ecids L e) \<subseteq> dom M \<union> (\<Union>bs \<in> set (eublocks L M e). dom (map_of bs))" if "e \<in> set es" for e
      by (rule Node.IH [OF that, of n]) (use Node.prems that in \<open>simp add: list_all_iff\<close>)
    have d: "dom (map_of (ublocks L M (Node es))) = insert (tcid L (Node es))
        (\<Union>e \<in> set es. \<Union>bs \<in> set (eublocks L M e). dom (map_of bs))"
    proof -
      have "dom (map_of (fold (\<lambda>bs m. bm_merge m bs) (concat (map (eublocks L M) es)) m))
          = dom (map_of m) \<union> (\<Union>bs \<in> set (concat (map (eublocks L M) es)). dom (map_of bs))" for m
        by (rule merge_all_dom) (auto intro: ascending_eublocks)
      with None show ?thesis by (simp del: tcid.simps)
    qed
    have t: "set (tcids L (Node es)) = insert (tcid L (Node es)) (\<Union>e \<in> set es. set (ecids L e))"
      by (simp del: tcid.simps)
    have "(\<Union>e \<in> set es. set (ecids L e)) \<subseteq> dom M \<union> (\<Union>e \<in> set es. \<Union>bs \<in> set (eublocks L M e). dom (map_of bs))"
      by (rule UN_least, rule order_trans [OF sub]) auto
    then show ?thesis unfolding d t by blast
  qed
next
  case (TS t)
  then show ?case by fastforce
qed simp

lemma tcids_subtree:
  "c \<in> set (tcids L t) \<Longrightarrow> tree_wf L n t \<Longrightarrow> \<exists>s m. c = tcid L s \<and> tree_wf L m s \<and> set (tcids L s) \<subseteq> set (tcids L t)"
  "c \<in> set (ecids L e) \<Longrightarrow> ent_wf L n e \<Longrightarrow> \<exists>s m. c = tcid L s \<and> tree_wf L m s \<and> set (tcids L s) \<subseteq> set (ecids L e)"
proof (induction t and e arbitrary: n and n)
  case (Node es)
  show ?case
  proof (cases "c = tcid L (Node es)")
    case True
    with Node.prems show ?thesis by blast
  next
    case False
    then obtain e where e: "e \<in> set es" "c \<in> set (ecids L e)" using Node.prems(1) by auto
    have "ent_wf L n e" using Node.prems(2) e(1) by (simp add: list_all_iff)
    then obtain s m where "c = tcid L s" "tree_wf L m s" "set (tcids L s) \<subseteq> set (ecids L e)"
      using Node.IH [OF e] by blast
    then show ?thesis using e(1) by (intro exI [of _ s] exI [of _ m]) auto
  qed
next
  case (TS t)
  then show ?case by fastforce
qed simp

lemma save_sound:
  assumes "codec_ok L" "no_collision L" "sound_store L M" "tree_wf L n s"
  defines "M' \<equiv> M ++ map_of (ublocks L M s)"
  shows "sound_store L M'" "stored L M' s"
proof -
  have dom: "dom M' = dom M \<union> dom (map_of (ublocks L M s))" by (auto simp: M'_def)
  have ad: "addressed L M'"
    using assms(3) ublocks_sound(1) [of L M s] unfolding M'_def sound_store_def addressed_def
    by (auto simp: map_add_Some_iff)
  have sub: "set (tcids L s) \<subseteq> dom M'" using ublocks_dom(1) [OF assms(2-4)] dom by simp
  note st = stored_iff_dom(1) [OF assms(2) ad]
  show "stored L M' s" using st sub by blast
  have "stored L M' u" if u: "tree_wf L m u" "M' (tcid L u) \<noteq> None" for m u
  proof (cases "M (tcid L u)")
    case (Some b)
    then have "stored L M u" using assms(3) u(1) unfolding sound_store_def closed_store_def by blast
    then show ?thesis
      using st stored_iff_dom(1) [OF assms(2)] assms(3) dom unfolding sound_store_def by blast
  next
    case None
    then obtain b where "map_of (ublocks L M s) (tcid L u) = Some b" using u(2) by (auto simp: M'_def map_add_def split: option.splits)
    then have "tcid L u \<in> set (tcids L s)" using ublocks_sound(1) by blast
    then obtain v k where "tcid L u = tcid L v" "tree_wf L k v" "set (tcids L v) \<subseteq> set (tcids L s)"
      using tcids_subtree(1) [OF _ assms(4)] by blast
    then show ?thesis using tcid_inj(1) [OF assms(1,2) u(1)] st sub by blast
  qed
  with ad show "sound_store L M'" unfolding sound_store_def closed_store_def by blast
qed

text \<open>A tree known by its root alone is the nodes in the store.\<close>

lemma held_stored:
  assumes "stored L M s" "tree_wf L n s" "keys_sorted (tleaves s)" "n \<le> 128"
  shows "held_tree L M (mst_load (tcid L s)) s"
proof -
  define k where "k = (if s = Node [] then 0 else n)"
  have "ready L M k (mst_load (tcid L s)) s {}"
    using assms by (auto simp: ready_def mst_load_def hint_def k_def)
  then show ?thesis by (rule held_treeI) (use assms(4) in \<open>simp_all add: k_def\<close>)
qed

lemma canonical_loaded: "canonical_tree (mst_load c) s \<longleftrightarrow> trimmed s"
  by (simp add: canonical_tree_def mst_load_def hint_def)

context ordered_store
begin

lemma unstored_tree:
  assumes "codec_ok L" "held_tree L M t s"
  obtains t' where "unstored_blocks L st t = Inr ((tcid L s, ublocks L M s), t')" "held_tree L M t' s" "m_layer t' = m_layer t"
proof -
  obtain n where h: "ready L M n t s {}" "n \<le> 128" "s = Node [] \<longrightarrow> m_layer t = None \<longrightarrow> n = 0" "n < MAX_DEPTH" "Suc n < MAX_DEPTH"
    by (rule held_treeE [OF assms(2)])
  from unstored_blocks_in_ok [OF assms(1) h(1,5)]
  obtain t' seen' where u: "unstored_blocks_in MAX_DEPTH L st t {} = Inr ((tcid L s, ublocks L M s), t', seen')"
      "keeps L M n s t {} t' seen'" "m_layer t' = m_layer t" by blast
  have "held_tree L M t' s"
    by (rule held_treeI [of _ _ n _ _ seen']) (use u(2,3) h(2,3) in \<open>simp_all add: keeps_def\<close>)
  then show thesis by (rule that [rotated]) (use u(1,3) in \<open>simp_all add: unstored_blocks_def\<close>)
qed

end

lemma unstored_blocks_ok:
  assumes "codec_ok L" "layers_ok L" "no_collision L" "sound_store L (map_of m)" "holds L (map_of m) t ps"
  shows "\<exists>root blocks t'. unstored_blocks L (bm_store m) t = Inr ((root, blocks), t')
    \<and> (\<forall>c b. map_of blocks c = Some b \<longrightarrow> map_of m c = None \<and> c = cid_for L b)
    \<and> sound_store L (map_of (bm_merge m blocks))
    \<and> holds L (map_of (bm_merge m blocks)) (mst_load root) ps"
proof -
  obtain s where s: "held_tree L (map_of m) t s" "canonical_tree t s" "records_of s = ps" using assms(5) holds_iff [OF assms(2)] by blast
  have tr: "trimmed s" using s(2) by (simp add: canonical_tree_def)
  obtain n where n: "tree_wf L n s" "keys_sorted (tleaves s)" "n \<le> 128" by (rule held_tree_shape [OF s(1)])
  obtain t' where u: "unstored_blocks L (bm_store m) t = Inr ((tcid L s, ublocks L (map_of m) s), t')"
    by (rule bmo.unstored_tree [OF assms(1) s(1)])
  note sv = save_sound [OF assms(1,3,4) n(1), folded map_of_bm_merge [OF ascending_ublocks]]
  have "holds L (map_of (bm_merge m (ublocks L (map_of m) s))) (mst_load (tcid L s)) ps"
    unfolding holds_iff [OF assms(2)]
    by (intro exI [of _ s] conjI held_stored [OF sv(2) n] s(3)) (simp only: canonical_loaded tr)
  then show ?thesis using u sv(1) ublocks_sound(1) [of L "map_of m" s] by auto
qed

end
