(* ===== verification/Mst_Props.thy ===== *)
theory Mst_Props
  imports Mst_Hash "HOL-Library.Multiset"
begin

text \<open>
  The properties of the tree over block maps, and an instance of the other crates' functions that
  shows the assumptions on them can hold together.
\<close>

section \<open>An instance of the codec and the hash\<close>

definition node_tuple ::
    "string node_data \<Rightarrow> string option \<times> (nat \<times> string \<times> string \<times> string option) list" where
  "node_tuple d = (nd_l d, map (\<lambda>e. (te_p e, te_k e, te_v e, te_t e)) (nd_e d))"

definition tuple_node ::
    "string option \<times> (nat \<times> string \<times> string \<times> string option) list \<Rightarrow> string node_data" where
  "tuple_node x = \<lparr>nd_l = fst x,
     nd_e = map (\<lambda>(p, k, v, t). \<lparr>te_p = p, te_k = k, te_v = v, te_t = t\<rparr>) (snd x)\<rparr>"

text \<open>Digests are the text behind one byte; keys that start with \<open>h\<close> are at layer 2, the others
  at layer 0. CIDs are digests, and an encoding is a number in unary.\<close>

definition toy_lib :: "string mst_lib" where
  "toy_lib = \<lparr>sha256 = (\<lambda>b. (if b \<noteq> [] \<and> hd b = CHR ''h'' then CHR 0x08 else CHR 0x80) # b),
     new_v1 = (\<lambda>codec code digest. digest),
     node_to_vec = (\<lambda>d. Inr (replicate (to_nat (node_tuple d)) CHR ''x'')),
     node_from_slice = (\<lambda>b. Inr (tuple_node (from_nat (length b))))\<rparr>"

lemma tuple_node_tuple: "tuple_node (node_tuple d) = d"
proof -
  have "map ((\<lambda>(p, k, v, t). \<lparr>te_p = p, te_k = k, te_v = v, te_t = t\<rparr>) \<circ> (\<lambda>e. (te_p e, te_k e, te_v e, te_t e))) es
      = es" for es :: "string tree_entry list"
    by (rule map_idI) (simp add: tree_entry.equality)
  then show ?thesis by (cases d) (simp add: tuple_node_def node_tuple_def)
qed

lemma toy_codec: "codec_ok toy_lib"
  by (simp add: codec_ok_def toy_lib_def tuple_node_tuple)

lemma toy_zeros:
  "leading_zeros toy_lib k = (if k \<noteq> [] \<and> hd k = CHR ''h'' then 2 else 0)"
  by (simp add: leading_zeros_def toy_lib_def byte_leading_zeros_def)

lemma toy_layers: "layers_ok toy_lib"
  by (simp add: layers_ok_def toy_zeros)

lemma toy_no_collision: "no_collision toy_lib"
  by (simp add: no_collision_def cid_for_def toy_lib_def)

lemmas toy_ok = toy_codec toy_layers toy_no_collision

lemma valid_keys: "valid_key ''h/a''" "valid_key ''a/b''" "valid_key ''c/d''"
  by (simp_all add: valid_key_def MAX_KEY_LEN_def is_key_byte_def ascii_defs less_eq_char_def)

text \<open>A tree with two records, of which the examples below read and write.\<close>

definition toy_tree :: "string mst" where
  "toy_tree = from_entries [ELeaf \<lparr>lkey = ''a/b'', lvalue = ''1''\<rparr>, ELeaf \<lparr>lkey = ''c/d'', lvalue = ''2''\<rparr>] (Some 0)"

lemma toy_holds: "holds toy_lib M toy_tree [(''a/b'', ''1''), (''c/d'', ''2'')]"
  unfolding holds_def toy_tree_def
  by (rule exI [of _ 0], rule exI [of _ "Node [TL \<lparr>lkey = ''a/b'', lvalue = ''1''\<rparr>, TL \<lparr>lkey = ''c/d'', lvalue = ''2''\<rparr>]"])
    (simp add: ready_from_entries hint_def readys_def toy_zeros valid_keys less_char_def)


section \<open>The tree is a sorted map\<close>

text \<open>\<open>Mst::get\<close> on a tree that holds the records \<open>ps\<close>, whatever part of it is still in the
  store, never fails, returns what a map of those records holds under the key, and leaves a tree
  that holds the same records.\<close>

theorem mst_get_correct:
  assumes "codec_ok L" "layers_ok L" "holds L (map_of m) t ps"
  shows "\<exists>t'. mst_get L (bm_store m) t key = Inr (map_of ps key, t') \<and> holds L (map_of m) t' ps"
  by (rule bm.mst_get_ok [OF assms])

theorem mst_get_correct_witness:
  "\<exists>t'. mst_get toy_lib (bm_store []) toy_tree ''c/d'' = Inr (Some ''2'', t')
     \<and> holds toy_lib (map_of []) t' [(''a/b'', ''1''), (''c/d'', ''2'')]"
  using mst_get_correct [OF toy_codec toy_layers toy_holds, where m = "[]" and key = "''c/d''"] by simp

text \<open>C4: \<open>Mst::add\<close> refuses a key that is not a valid record path, refuses a key the tree holds
  with \<open>KeyExists\<close>, and otherwise gives a well-formed tree that holds the same records and the
  new one.\<close>

theorem mst_add_correct:
  assumes "codec_ok L" "layers_ok L" "holds L (map_of m) t ps"
  shows "if \<not> valid_key key then mst_add L (bm_store m) t key v = Inl (InvalidKey key)
    else if map_of ps key \<noteq> None then mst_add L (bm_store m) t key v = Inl (KeyExists key)
    else \<exists>t'. mst_add L (bm_store m) t key v = Inr t' \<and> holds L (map_of m) t' (al_upd key v ps)"
proof (cases "valid_key key")
  case True
  then show ?thesis using bm.mst_add_ok [OF assms True, of v] by (simp split: if_splits)
qed (simp add: mst_add_def ensure_valid_key_def)

theorem mst_add_correct_witness:
  "\<exists>t'. mst_add toy_lib (bm_store []) toy_tree ''h/a'' ''v'' = Inr t'
     \<and> holds toy_lib (map_of []) t' [(''a/b'', ''1''), (''c/d'', ''2''), (''h/a'', ''v'')]"
  using mst_add_correct [OF toy_codec toy_layers toy_holds, where m = "[]" and key = "''h/a''" and v = "''v''"]
  by (simp add: valid_keys less_char_def)

text \<open>\<open>Mst::update\<close> refuses a malformed key and a key the tree does not hold, and otherwise
  gives a tree where the key's value is the new one and nothing else changed.\<close>

theorem mst_update_correct:
  assumes "codec_ok L" "layers_ok L" "holds L (map_of m) t ps"
  shows "if \<not> valid_key key then mst_update L (bm_store m) t key v = Inl (InvalidKey key)
    else if map_of ps key = None then mst_update L (bm_store m) t key v = Inl (KeyMissing key)
    else \<exists>t'. mst_update L (bm_store m) t key v = Inr t' \<and> holds L (map_of m) t' (al_upd key v ps)"
proof (cases "valid_key key")
  case True
  then show ?thesis using bm.mst_update_ok [OF assms True, of v] by (simp split: if_splits)
next
  case False
  obtain d where d: "MAX_DEPTH = Suc d" by (simp add: MAX_DEPTH_def numeral_eq_Suc)
  show ?thesis unfolding mst_update_def d using False by (simp add: ensure_valid_key_def)
qed

theorem mst_update_correct_witness:
  "\<exists>t'. mst_update toy_lib (bm_store []) toy_tree ''c/d'' ''v'' = Inr t'
     \<and> holds toy_lib (map_of []) t' [(''a/b'', ''1''), (''c/d'', ''v'')]"
  using mst_update_correct [OF toy_codec toy_layers toy_holds, where m = "[]" and key = "''c/d''" and v = "''v''"]
  by (simp add: valid_keys less_char_def)

text \<open>C5: \<open>Mst::delete\<close> refuses a key the tree does not hold, and otherwise gives the well-formed
  tree of the remaining records, with no node at its top that only points at another. When no
  record remains the tree has no entries.\<close>

theorem mst_delete_correct:
  assumes "codec_ok L" "layers_ok L" "holds L (map_of m) t ps"
  shows "if map_of ps key = None then mst_delete L (bm_store m) t key = Inl (KeyMissing key)
    else \<exists>t'. mst_delete L (bm_store m) t key = Inr t'
      \<and> (if al_del key ps = [] then m_entries t' = Some [] else holds L (map_of m) t' (al_del key ps))"
  using bm.mst_delete_ok [OF assms, of key] .

theorem mst_delete_correct_witness:
  "\<exists>t'. mst_delete toy_lib (bm_store []) toy_tree ''a/b'' = Inr t' \<and> holds toy_lib (map_of []) t' [(''c/d'', ''2'')]"
  using mst_delete_correct [OF toy_codec toy_layers toy_holds, where m = "[]" and key = "''a/b''"] by simp

text \<open>\<open>Mst::leaves\<close> lists every record the tree holds once, in ascending order of key.\<close>

theorem mst_leaves_correct:
  assumes "codec_ok L" "layers_ok L" "holds L (map_of m) t ps"
  shows "\<exists>ls t'. mst_leaves L (bm_store m) t = Inr (ls, t')
    \<and> map (\<lambda>l. (lkey l, lvalue l)) ls = ps \<and> ascending ps \<and> holds L (map_of m) t' ps"
  using bm.mst_leaves_ok [OF assms] holds_ascending [OF assms(3)] by (simp add: kv_def [abs_def])

theorem mst_leaves_correct_witness:
  "\<exists>ls t'. mst_leaves toy_lib (bm_store []) toy_tree = Inr (ls, t')
    \<and> map (\<lambda>l. (lkey l, lvalue l)) ls = [(''a/b'', ''1''), (''c/d'', ''2'')]"
  using mst_leaves_correct [OF toy_codec toy_layers toy_holds, of "[]"]
  by (elim exE conjE) (intro exI conjI)


section \<open>Roots are canonical\<close>

text \<open>two trees that hold the same records have the same root, whatever stores they are read
  through and whatever was done to build them.\<close>

theorem mst_root_canonical:
  assumes "codec_ok L" "layers_ok L" "holds L (map_of m) t ps" "holds L (map_of m') t' ps"
  shows "\<exists>root u u'. mst_root L (bm_store m) t = Inr (root, u) \<and> mst_root L (bm_store m') t' = Inr (root, u')"
proof -
  obtain n s where "ready L (map_of m) n t s {}" "trimmed s" "records_of s = ps"
    using holdsE [OF assms(3,2)] by blast
  then have "tree_wf L n s" "trimmed s" "records_of s = ps" by (simp_all add: ready_def)
  from bm.mst_root_ok [OF assms(1-3) this] bm.mst_root_ok [OF assms(1,2,4) this]
  show ?thesis by blast
qed

theorem mst_root_canonical_witness:
  "\<exists>root u u'. mst_root toy_lib (bm_store []) toy_tree = Inr (root, u)
     \<and> mst_root toy_lib (bm_store [(''c'', ''b'')]) toy_tree = Inr (root, u')"
  by (rule mst_root_canonical [OF toy_codec toy_layers toy_holds toy_holds])

text \<open>Adding records one after another.\<close>

fun add_all ::
    "('c, 'l) mst_lib_scheme \<Rightarrow> 'c store \<Rightarrow> 'c mst \<Rightarrow> (string \<times> 'c) list \<Rightarrow> 'c repo_error + 'c mst" where
  "add_all L st t [] = Inr t"
| "add_all L st t ((k, v) # ps) = bindE (mst_add L st t k v) (\<lambda>t. add_all L st t ps)"

definition all_upd :: "(string \<times> 'c) list \<Rightarrow> (string \<times> 'c) list \<Rightarrow> (string \<times> 'c) list" where
  "all_upd qs ps = fold (\<lambda>(k, v). al_upd k v) qs ps"

lemma all_upd_simps [simp]:
  "all_upd [] ps = ps"
  "all_upd ((k, v) # qs) ps = all_upd qs (al_upd k v ps)"
  by (simp_all add: all_upd_def)

lemma ascending_all_upd: "ascending ps \<Longrightarrow> ascending (all_upd qs ps)"
  by (induction qs arbitrary: ps) (auto simp: ascending_al_upd)

lemma map_of_all_upd: "distinct (map fst qs) \<Longrightarrow> map_of (all_upd qs ps) = map_of ps ++ map_of qs"
proof (induction qs arbitrary: ps)
  case (Cons q qs)
  obtain k v where q: "q = (k, v)" by fastforce
  then have "map_of (all_upd (q # qs) ps) = (map_of ps)(k \<mapsto> v) ++ map_of qs" using Cons by simp
  moreover have "map_of qs k = None" using Cons.prems q by (simp add: map_of_eq_None_iff)
  ultimately show ?case using q by (auto simp: fun_eq_iff map_add_def split: option.splits)
qed simp

lemma add_all_ok:
  assumes "codec_ok L" "layers_ok L" "distinct (map fst qs)" "\<forall>k \<in> fst ` set qs. valid_key k \<and> map_of ps k = None"
    "holds L (map_of m) t ps"
  shows "\<exists>t'. add_all L (bm_store m) t qs = Inr t' \<and> holds L (map_of m) t' (all_upd qs ps)"
  using assms(3-)
proof (induction qs arbitrary: t ps)
  case (Cons q qs)
  obtain k v where q: "q = (k, v)" by fastforce
  then obtain t1 where "mst_add L (bm_store m) t k v = Inr t1" "holds L (map_of m) t1 (al_upd k v ps)"
    using bm.mst_add_ok [OF assms(1,2) Cons.prems(3), of k v] Cons.prems(2) by auto
  moreover have "\<forall>j \<in> fst ` set qs. valid_key j \<and> map_of (al_upd k v ps) j = None"
    using Cons.prems(1,2) q by auto
  ultimately show ?case using Cons.IH [of "al_upd k v ps" t1] Cons.prems(1) q by simp
qed simp

lemma distinct_mset_map_of:
  assumes "mset qs = mset rs" "distinct (map fst qs)"
  shows "distinct (map fst rs) \<and> map_of qs = map_of rs"
proof -
  have "mset (map fst qs) = mset (map fst rs)" using assms(1) by simp
  then have "distinct (map fst rs)" using assms(2) by (metis mset_eq_imp_distinct_iff)
  moreover have "set qs = set rs" using assms(1) by (rule mset_eq_setD)
  ultimately show ?thesis using assms(2) map_of_inject_set by blast
qed

text \<open>C6: records added to an empty tree in two different orders give the same root: the root is a
  function of the set of records, as the protocol asks.\<close>

theorem insertion_order_irrelevant:
  assumes "codec_ok L" "layers_ok L" "distinct (map fst qs)" "\<forall>k \<in> fst ` set qs. valid_key k" "mset qs = mset rs"
  shows "\<exists>t u root t' u'. add_all L (bm_store m) mst_empty qs = Inr t \<and> add_all L (bm_store m) mst_empty rs = Inr u
    \<and> mst_root L (bm_store m) t = Inr (root, t') \<and> mst_root L (bm_store m) u = Inr (root, u')"
proof -
  have r: "distinct (map fst rs)" "map_of qs = map_of rs"
    using distinct_mset_map_of [OF assms(5,3)] by simp_all
  have "set qs = set rs" using assms(5) by (rule mset_eq_setD)
  then have v: "\<forall>k \<in> fst ` set rs. valid_key k" using assms(4) by simp
  obtain t where t: "add_all L (bm_store m) mst_empty qs = Inr t" "holds L (map_of m) t (all_upd qs [])"
    using add_all_ok [OF assms(1-3) _ holds_empty] assms(4) by auto
  obtain u where u: "add_all L (bm_store m) mst_empty rs = Inr u" "holds L (map_of m) u (all_upd rs [])"
    using add_all_ok [OF assms(1,2) r(1) _ holds_empty] v by auto
  have "all_upd qs [] = all_upd rs []"
    by (rule ascending_map_of_inj) (simp_all add: ascending_all_upd map_of_all_upd assms(3) r)
  with t u have "holds L (map_of m) u (all_upd qs [])" by simp
  obtain n s where "ready L (map_of m) n t s {}" "trimmed s" "records_of s = all_upd qs []"
    using holdsE [OF t(2) assms(2)] by blast
  then have w: "tree_wf L n s" "trimmed s" "records_of s = all_upd qs []" by (simp_all add: ready_def)
  from bm.mst_root_ok [OF assms(1,2) t(2) w] bm.mst_root_ok [OF assms(1,2) \<open>holds L (map_of m) u (all_upd qs [])\<close> w]
  show ?thesis using t(1) u(1) by blast
qed

theorem insertion_order_irrelevant_witness:
  "\<exists>t u root t' u'. add_all toy_lib (bm_store []) mst_empty [(''h/a'', ''1''), (''a/b'', ''2'')] = Inr t
    \<and> add_all toy_lib (bm_store []) mst_empty [(''a/b'', ''2''), (''h/a'', ''1'')] = Inr u
    \<and> mst_root toy_lib (bm_store []) t = Inr (root, t') \<and> mst_root toy_lib (bm_store []) u = Inr (root, u')"
  by (rule insertion_order_irrelevant [OF toy_codec toy_layers]) (simp_all add: valid_keys)


section \<open>Saving and loading\<close>

text \<open>C7: \<open>unstored_blocks\<close> returns the tree's root and blocks the store does not hold, each under
  the CID of its bytes; with them stored, the tree loaded from the root alone holds the same
  records, and the store is again one that holds every node under a node it holds.\<close>

theorem save_then_load:
  assumes "codec_ok L" "layers_ok L" "no_collision L" "sound_store L (map_of m)" "holds L (map_of m) t ps"
  shows "\<exists>root blocks t'. unstored_blocks L (bm_store m) t = Inr ((root, blocks), t')
    \<and> (\<forall>c b. map_of blocks c = Some b \<longrightarrow> map_of m c = None \<and> c = cid_for L b)
    \<and> sound_store L (map_of (bm_merge m blocks))
    \<and> holds L (map_of (bm_merge m blocks)) (mst_load root) ps"
  by (rule unstored_blocks_ok [OF assms])

theorem save_then_load_witness:
  "\<exists>root blocks t'. unstored_blocks toy_lib (bm_store []) toy_tree = Inr ((root, blocks), t')
    \<and> (\<forall>c b. map_of blocks c = Some b \<longrightarrow> map_of [] c = (None :: string option) \<and> c = cid_for toy_lib b)
    \<and> sound_store toy_lib (map_of (bm_merge [] blocks))
    \<and> holds toy_lib (map_of (bm_merge [] blocks)) (mst_load root) [(''a/b'', ''1''), (''c/d'', ''2'')]"
  by (rule save_then_load [OF toy_ok sound_store_empty toy_holds])


section \<open>A tree emptied of its records\<close>

text \<open>\<open>delete\<close> keeps the cached layer of a node it empties, and \<open>add\<close> believes it.\<close>

lemma add_to_empty:
  assumes "codec_ok L" "layers_ok L" "held_tree L M t (Node [])" "M = map_of m" "valid_key key" "hint n (m_layer t)" "m_layer t = None \<longrightarrow> n = 0"
  obtains t' s where "mst_add L (bm_store m) t key v = Inr t'" "held_tree L M t' s" "records_of s = [(key, v)]"
    "tree_wf L (max n (leading_zeros L key)) s" "m_layer t' = Some (max n (leading_zeros L key))"
proof -
  obtain k where k: "ready L M k t (Node []) {}" "m_layer t = None \<longrightarrow> k = 0" "Suc k < MAX_DEPTH"
    using assms(3) by (blast elim: held_treeE)
  have "k = n" using k(2) assms(6,7) hint_ready [OF k(1)] by (auto simp: hint_def)
  obtain t' s where t': "mst_add L (bm_store m) t key v = Inr t'" "held_tree L M t' s" "records_of s = [(key, v)]"
    using bm.mst_add_tree [OF assms(1,2) assms(3) [unfolded assms(4)] assms(5), of v] assms(4) by auto
  have l: "m_layer t' = Some (max n (leading_zeros L key))"
    using bm.mst_add_layer [OF assms(1) k(1) [unfolded assms(4)] k(3) _ t'(1)] k(2) \<open>k = n\<close> by simp
  obtain j where j: "ready L M j t' s {}" by (rule held_treeE [OF t'(2)])
  have "j = max n (leading_zeros L key)" using hint_ready [OF j] l by (simp add: hint_def)
  then show thesis using that t' l j by (simp add: ready_def)
qed

lemma held_empty: "held_tree L M mst_empty (Node [])"
  by (rule held_treeI [of _ _ 0 _ _ "{}"]) (simp_all add: mst_empty_def ready_loaded hint_def)

lemma one_record_trimmed:
  assumes "tree_wf L n s" "records_of s = [(key, v)]"
  shows "trimmed s \<longleftrightarrow> n = leading_zeros L key"
proof -
  obtain l where l: "tleaves s = [l]" "lkey l = key" using assms(2) by (auto simp: map_eq_Cons_conv kv_def)
  have "s \<noteq> Node []" using l by auto
  then show ?thesis using trimmed_top_leaf [OF assms(1)] top_leaf_trimmed [OF assms(1), of l] l by auto
qed

text \<open>C8: the root is not always a function of the records. Take a tree to which a record was added, the only
  one it has, delete that record and add another: the root is the one that adding the second record
  alone gives exactly when the layer of its key is not below that of the first. Otherwise the emptied node keeps
  its layer and the second record ends up under nodes that hold nothing else, whatever the hash.\<close>

theorem stale_layer:
  assumes "codec_ok L" "layers_ok L" "no_collision L" "valid_key k1" "valid_key k2"
  shows "\<exists>t1 t2 t3 t root3 u3 root u.
      mst_add L (bm_store m) mst_empty k1 v1 = Inr t1 \<and> mst_delete L (bm_store m) t1 k1 = Inr t2
    \<and> mst_add L (bm_store m) t2 k2 v2 = Inr t3 \<and> mst_add L (bm_store m) mst_empty k2 v2 = Inr t
    \<and> mst_root L (bm_store m) t3 = Inr (root3, u3) \<and> mst_root L (bm_store m) t = Inr (root, u)
    \<and> (root3 = root \<longleftrightarrow> leading_zeros L k1 \<le> leading_zeros L k2)"
proof -
  let ?M = "map_of m" and ?z1 = "leading_zeros L k1" and ?z2 = "leading_zeros L k2"
  have e: "hint 0 (m_layer mst_empty)" "m_layer mst_empty = None \<longrightarrow> 0 = 0" by (simp_all add: mst_empty_def hint_def)
  obtain t1 s1 where t1: "mst_add L (bm_store m) mst_empty k1 v1 = Inr t1" "held_tree L ?M t1 s1" "records_of s1 = [(k1, v1)]" "m_layer t1 = Some ?z1"
    by (rule add_to_empty [OF assms(1,2) held_empty refl assms(4) e, where v = v1 and m = m]) simp
  obtain t2 s2 where t2: "mst_delete L (bm_store m) t1 k1 = Inr t2" "held_tree L ?M t2 s2" "records_of s2 = []"
      "s2 = Node [] \<longrightarrow> m_layer t2 = m_layer t1"
    using bm.mst_delete_tree [OF assms(1,2) t1(2), of k1] t1(3) by auto
  obtain n where "tree_wf L n s2" by (rule held_tree_shape [OF t2(2)])
  then have s2: "s2 = Node []" using wf_leaves_nonempty t2(3) by blast
  then have l2: "hint ?z1 (m_layer t2)" "m_layer t2 = None \<longrightarrow> ?z1 = 0" using t2(4) t1(4) by (simp_all add: hint_def)
  obtain t3 s3 where t3: "mst_add L (bm_store m) t2 k2 v2 = Inr t3" "held_tree L ?M t3 s3" "records_of s3 = [(k2, v2)]" "tree_wf L (max ?z1 ?z2) s3"
    by (rule add_to_empty [OF assms(1,2) t2(2) [unfolded s2] refl assms(5) l2, where v = v2])
  obtain t s where t: "mst_add L (bm_store m) mst_empty k2 v2 = Inr t" "held_tree L ?M t s" "records_of s = [(k2, v2)]" "tree_wf L ?z2 s"
    by (rule add_to_empty [OF assms(1,2) held_empty refl assms(5) e, where v = v2 and m = m]) simp
  obtain u3 where u3: "mst_root L (bm_store m) t3 = Inr (tcid L s3, u3)" by (rule bm.root_tree [OF assms(1) t3(2)])
  obtain u where u: "mst_root L (bm_store m) t = Inr (tcid L s, u)" by (rule bm.root_tree [OF assms(1) t(2)])
  have tr: "trimmed s" "trimmed s3 \<longleftrightarrow> ?z1 \<le> ?z2"
    using one_record_trimmed [OF t(4,3)] one_record_trimmed [OF t3(4,3)] by (auto simp: max_def)
  have "tleaves s3 = tleaves s" using t(3) t3(3) map_kv_inj by metis
  then have "s3 = s \<longleftrightarrow> ?z1 \<le> ?z2" using trimmed_canonical [OF t3(4) t(4) _ tr(1)] tr by auto
  moreover have "tcid L s3 = tcid L s \<longleftrightarrow> s3 = s" using tcid_inj(1) [OF assms(1,3) t3(4) t(4)] by auto
  ultimately show ?thesis using t1(1) t2(1) t3(1) t(1) u3 u by metis
qed

theorem stale_layer_witness:
  "\<exists>t1 t2 t3 t root3 u3 root u.
      mst_add toy_lib (bm_store []) mst_empty ''h/a'' ''1'' = Inr t1 \<and> mst_delete toy_lib (bm_store []) t1 ''h/a'' = Inr t2
    \<and> mst_add toy_lib (bm_store []) t2 ''a/b'' ''2'' = Inr t3 \<and> mst_add toy_lib (bm_store []) mst_empty ''a/b'' ''2'' = Inr t
    \<and> mst_root toy_lib (bm_store []) t3 = Inr (root3, u3) \<and> mst_root toy_lib (bm_store []) t = Inr (root, u) \<and> root3 \<noteq> root"
  using stale_layer [OF toy_codec toy_layers toy_no_collision, of "''h/a''" "''a/b''" "[]" "''1''" "''2''"]
  by (simp add: valid_keys toy_zeros)

end
