(* ===== verification/Mst_Walk.thy ===== *)
theory Mst_Walk
  imports Mst_Props
begin

text \<open>
  The walk of two trees, the rest of \<open>src/repo/mst.rs\<close>: \<open>Diff\<close>, \<open>Level\<close>, \<open>Walker\<close> and
  \<open>Mst::dropped\<close>, which tells the blocks a revision lets go of. The loop of \<open>dropped\<close> may not
  end on a store that grows under it, so it is a partial function; on well-formed trees it is
  shown to return.
\<close>

section \<open>Diffs\<close>

text \<open>A \<open>BTreeSet\<close> is a set; the result lists one in order.\<close>

record 'c diff =
  d_added :: "'c set"
  d_removed :: "'c set"

definition diff_default :: "'c diff" where
  "diff_default = \<lparr>d_added = {}, d_removed = {}\<rparr>"

definition diff_add :: "'c \<Rightarrow> 'c diff \<Rightarrow> 'c diff" where
  "diff_add c d =
     (if c \<in> d_removed d then d\<lparr>d_removed := d_removed d - {c}\<rparr>
      else d\<lparr>d_added := insert c (d_added d)\<rparr>)"

definition diff_remove :: "'c \<Rightarrow> 'c diff \<Rightarrow> 'c diff" where
  "diff_remove c d =
     (if c \<in> d_added d then d\<lparr>d_added := d_added d - {c}\<rparr>
      else d\<lparr>d_removed := insert c (d_removed d)\<rparr>)"


section \<open>Walkers\<close>

datatype at = AtLeaf | AtTree

datatype 'c cursor = CRoot "'c mst" | CNode | CDone

record 'c level =
  lv_entries :: "'c entry list"
  lv_index :: nat
  lv_layer :: nat

text \<open>The stack has its last level first; \<open>wk_seen\<close> is what the walker's own reader has read.\<close>

record 'c walker =
  wk_seen :: "'c set"
  wk_stack :: "'c level list"
  wk_cursor :: "'c cursor"
  wk_above :: nat

definition level_of ::
    "('c, 'l) mst_lib_scheme \<Rightarrow> 'c store \<Rightarrow> 'c mst \<Rightarrow> 'c set
      \<Rightarrow> 'c repo_error + ('c level \<times> 'c mst \<times> 'c set)" where
  "level_of L st node seen =
     bindE (layer_in MAX_DEPTH L st node seen) (\<lambda>(lay, node, seen).
     bindE (entries_in L st node seen) (\<lambda>(es, node, seen).
     Inr (\<lparr>lv_entries = es, lv_index = 0, lv_layer = lay\<rparr>, node, seen)))"

definition walker_new ::
    "('c, 'l) mst_lib_scheme \<Rightarrow> 'c store \<Rightarrow> 'c mst \<Rightarrow> 'c repo_error + 'c walker" where
  "walker_new L st root =
     bindE (layer_in MAX_DEPTH L st root {}) (\<lambda>(lay, root, seen).
     Inr \<lparr>wk_seen = seen, wk_stack = [], wk_cursor = CRoot root, wk_above = lay + 1\<rparr>)"

definition walker_entry :: "'c walker \<Rightarrow> 'c entry option" where
  "walker_entry w = (case wk_stack w of [] \<Rightarrow> None | v # _ \<Rightarrow> getopt (lv_entries v) (lv_index v))"

definition walker_at :: "'c walker \<Rightarrow> at option" where
  "walker_at w =
     (case wk_cursor w of
        CRoot _ \<Rightarrow> Some AtTree
      | CNode \<Rightarrow> (case walker_entry w of
                   None \<Rightarrow> None
                 | Some (ELeaf _) \<Rightarrow> Some AtLeaf
                 | Some (ETree _) \<Rightarrow> Some AtTree)
      | CDone \<Rightarrow> None)"

definition walker_key :: "'c walker \<Rightarrow> string option" where
  "walker_key w =
     (case walker_entry w of Some (ELeaf l) \<Rightarrow> Some (lkey l) | _ \<Rightarrow> None)"

definition walker_layer :: "'c walker \<Rightarrow> nat" where
  "walker_layer w = (case wk_stack w of [] \<Rightarrow> wk_above w | v # _ \<Rightarrow> lv_layer v)"

text \<open>A level with the entry under its cursor replaced: what a \<open>&mut\<close> to that entry leaves.\<close>

definition set_entry :: "'c level \<Rightarrow> 'c mst \<Rightarrow> 'c level" where
  "set_entry v t = v\<lparr>lv_entries := (lv_entries v)[lv_index v := ETree t]\<rparr>"

definition walker_cid ::
    "('c, 'l) mst_lib_scheme \<Rightarrow> 'c store \<Rightarrow> 'c walker \<Rightarrow> 'c repo_error + ('c \<times> 'c walker)" where
  "walker_cid L st w =
     (case wk_cursor w of
        CRoot root \<Rightarrow>
          bindE (root_in MAX_DEPTH L st root (wk_seen w)) (\<lambda>(c, root, seen).
          Inr (c, w\<lparr>wk_cursor := CRoot root, wk_seen := seen\<rparr>))
      | CDone \<Rightarrow> Inl (MalformedNode ''a walk past its last entry'')
      | CNode \<Rightarrow>
          (case wk_stack w of
             [] \<Rightarrow> Inl (MalformedNode ''a walk inside no node'')
           | v # vs \<Rightarrow>
               (case getopt (lv_entries v) (lv_index v) of
                  Some (ELeaf l) \<Rightarrow> Inr (lvalue l, w)
                | Some (ETree t) \<Rightarrow>
                    bindE (root_in MAX_DEPTH L st t (wk_seen w)) (\<lambda>(c, t, seen).
                    Inr (c, w\<lparr>wk_stack := set_entry v t # vs, wk_seen := seen\<rparr>))
                | None \<Rightarrow> Inl (MalformedNode ''a walk past its last entry''))))"

text \<open>The loop of \<open>step_over\<close>: levels that are spent are popped.\<close>

fun pop_spent :: "'c level list \<Rightarrow> 'c level list" where
  "pop_spent [] = []"
| "pop_spent (v # vs) =
     (if Suc (lv_index v) < length (lv_entries v) then v\<lparr>lv_index := Suc (lv_index v)\<rparr> # vs
      else pop_spent vs)"

definition step_over :: "'c walker \<Rightarrow> 'c walker" where
  "step_over w =
     (case wk_cursor w of
        CDone \<Rightarrow> w
      | CRoot _ \<Rightarrow> w\<lparr>wk_cursor := CDone\<rparr>
      | CNode \<Rightarrow>
          let vs = pop_spent (wk_stack w) in
          w\<lparr>wk_stack := vs, wk_cursor := (if vs = [] then CDone else CNode)\<rparr>)"

definition enter :: "'c walker \<Rightarrow> 'c level \<Rightarrow> 'c walker" where
  "enter w v =
     (let w = w\<lparr>wk_stack := v # wk_stack w, wk_cursor := CNode\<rparr> in
      if walker_entry w = None then step_over w else w)"

definition step_into ::
    "('c, 'l) mst_lib_scheme \<Rightarrow> 'c store \<Rightarrow> 'c walker \<Rightarrow> 'c repo_error + 'c walker" where
  "step_into L st w =
     (if length (wk_stack w) \<ge> MAX_DEPTH then Inl too_deep
      else
        (case wk_cursor w of
           CDone \<Rightarrow> Inr w
         | CRoot root \<Rightarrow>
             bindE (level_of L st root (wk_seen w)) (\<lambda>(v, root, seen).
             Inr (enter (w\<lparr>wk_seen := seen\<rparr>) v))
         | CNode \<Rightarrow>
             (case wk_stack w of
                [] \<Rightarrow> Inl (MalformedNode ''a walk inside no node'')
              | v # vs \<Rightarrow>
                  (case getopt (lv_entries v) (lv_index v) of
                     Some (ETree t) \<Rightarrow>
                       bindE (level_of L st t (wk_seen w)) (\<lambda>(v', t, seen).
                       Inr (enter (w\<lparr>wk_stack := set_entry v t # vs, wk_seen := seen\<rparr>) v'))
                   | _ \<Rightarrow> Inl (MalformedNode ''a walk stepping into a leaf'')))))"

definition advance ::
    "('c, 'l) mst_lib_scheme \<Rightarrow> 'c store \<Rightarrow> 'c walker \<Rightarrow> 'c repo_error + 'c walker" where
  "advance L st w = (if walker_at w = Some AtLeaf then Inr (step_over w) else step_into L st w)"


section \<open>The walk of two trees\<close>

type_synonym 'c walk = "'c walker \<times> 'c walker \<times> 'c diff"

text \<open>The two moves the loop is made of: the left tree lets go of what it is on, or the right one
  takes it in, and that walker goes on by \<open>f\<close>.\<close>

definition drop_left ::
    "('c, 'l) mst_lib_scheme \<Rightarrow> 'c store \<Rightarrow> ('c walker \<Rightarrow> 'c repo_error + 'c walker) \<Rightarrow> 'c walk
      \<Rightarrow> 'c repo_error + 'c walk" where
  "drop_left L st f w =
     (case w of (left, right, d) \<Rightarrow>
        bindE (walker_cid L st left) (\<lambda>(c, left).
        bindE (f left) (\<lambda>left. Inr (left, right, diff_remove c d))))"

definition take_right ::
    "('c, 'l) mst_lib_scheme \<Rightarrow> 'c store \<Rightarrow> ('c walker \<Rightarrow> 'c repo_error + 'c walker) \<Rightarrow> 'c walk
      \<Rightarrow> 'c repo_error + 'c walk" where
  "take_right L st f w =
     (case w of (left, right, d) \<Rightarrow>
        bindE (walker_cid L st right) (\<lambda>(c, right).
        bindE (f right) (\<lambda>right. Inr (left, right, diff_add c d))))"

text \<open>Both on a leaf of one key, and both on a subtree of one layer. \<open>Option<&str>\<close> sorts \<open>None\<close>
  first; on leaves both keys are there.\<close>

definition both_leaves ::
    "('c, 'l) mst_lib_scheme \<Rightarrow> 'c store \<Rightarrow> 'c walk \<Rightarrow> 'c repo_error + 'c walk" where
  "both_leaves L st w =
     (case w of (left, right, d) \<Rightarrow>
        bindE (walker_cid L st left) (\<lambda>(before, left).
        bindE (walker_cid L st right) (\<lambda>(after, right).
        let d = (if before \<noteq> after then diff_add after (diff_remove before d) else d) in
        bindE (advance L st left) (\<lambda>left.
        bindE (advance L st right) (\<lambda>right. Inr (left, right, d))))))"

definition both_trees ::
    "('c, 'l) mst_lib_scheme \<Rightarrow> 'c store \<Rightarrow> 'c walk \<Rightarrow> 'c repo_error + 'c walk" where
  "both_trees L st w =
     (case w of (left, right, d) \<Rightarrow>
        bindE (walker_cid L st left) (\<lambda>(before, left).
        bindE (walker_cid L st right) (\<lambda>(after, right).
        if before = after then Inr (step_over left, step_over right, d)
        else
          let d = diff_add after (diff_remove before d) in
          bindE (step_into L st left) (\<lambda>left.
          bindE (step_into L st right) (\<lambda>right. Inr (left, right, d))))))"

definition key_less :: "string option \<Rightarrow> string option \<Rightarrow> bool" where
  "key_less a b = (case (a, b) of (Some x, Some y) \<Rightarrow> x < y | (None, Some _) \<Rightarrow> True | _ \<Rightarrow> False)"

text \<open>The comparison while both trees have something left: leaves by key, levels by layer.\<close>

definition walk_turn ::
    "('c, 'l) mst_lib_scheme \<Rightarrow> 'c store \<Rightarrow> at \<Rightarrow> at \<Rightarrow> 'c walk \<Rightarrow> 'c repo_error + 'c walk" where
  "walk_turn L st here there w =
     (case w of (left, right, _) \<Rightarrow>
        let dl = drop_left L st; tr = take_right L st; adv = advance L st; into = step_into L st in
        if here = AtLeaf \<and> there = AtLeaf then
          (if walker_key left = walker_key right then both_leaves L st w
           else if key_less (walker_key left) (walker_key right) then dl adv w
           else tr adv w)
        else if walker_layer left > walker_layer right then
          (if here = AtLeaf then tr adv w else dl into w)
        else if walker_layer left < walker_layer right then
          (if there = AtLeaf then dl adv w else tr into w)
        else if here = AtTree \<and> there = AtTree then both_trees L st w
        else if here = AtTree then dl into w
        else tr into w)"

text \<open>One turn of the loop; \<open>None\<close> is its \<open>break\<close>.\<close>

definition walk_step ::
    "('c, 'l) mst_lib_scheme \<Rightarrow> 'c store \<Rightarrow> 'c walk \<Rightarrow> 'c repo_error + 'c walk option" where
  "walk_step L st w =
     (case w of (left, right, _) \<Rightarrow>
        (case (walker_at left, walker_at right) of
           (None, None) \<Rightarrow> Inr None
         | (Some _, None) \<Rightarrow> bindE (drop_left L st (advance L st) w) (\<lambda>w. Inr (Some w))
         | (None, Some _) \<Rightarrow> bindE (take_right L st (advance L st) w) (\<lambda>w. Inr (Some w))
         | (Some here, Some there) \<Rightarrow> bindE (walk_turn L st here there w) (\<lambda>w. Inr (Some w))))"

partial_function (option) walk_loop ::
    "('c, 'l) mst_lib_scheme \<Rightarrow> 'c store \<Rightarrow> 'c walk \<Rightarrow> ('c repo_error + 'c diff) option" where
  "walk_loop L st w =
     (case walk_step L st w of
        Inl e \<Rightarrow> Some (Inl e)
      | Inr None \<Rightarrow> Some (Inr (snd (snd w)))
      | Inr (Some w') \<Rightarrow> walk_loop L st w')"

definition dropped ::
    "('c, 'l) mst_lib_scheme \<Rightarrow> 'c store \<Rightarrow> 'c mst \<Rightarrow> 'c mst \<Rightarrow> ('c repo_error + 'c set) option" where
  "dropped L st t prev =
     (case walker_new L st prev of
        Inl e \<Rightarrow> Some (Inl e)
      | Inr left \<Rightarrow>
          (case walker_new L st t of
             Inl e \<Rightarrow> Some (Inl e)
           | Inr right \<Rightarrow>
               map_option (\<lambda>r. bindE r (\<lambda>d. Inr (d_removed d)))
                 (walk_loop L st (left, right, diff_default))))"

end
