(* ===== verification/Mst_Dropped.thy ===== *)
theory Mst_Dropped
  imports Mst_Walk
begin

text \<open>
  What \<open>Mst::dropped\<close> returns. The walk is a state machine over what either tree has still to
  visit (\<open>mv\<close>); its invariants say which blocks end up in the result, and every turn of the
  loop is shown to be one or two of its steps.
\<close>

section \<open>The walk as a state machine\<close>

inductive mv :: "'c list \<times> 'c list \<times> 'c diff \<Rightarrow> 'c list \<times> 'c list \<times> 'c diff \<Rightarrow> bool" where
  let_go: "mv (c # fl, fr, d) (fl, fr, diff_remove c d)"
| take_in: "mv (fl, c # fr, d) (fl, fr, diff_add c d)"
| skip_both: "xs \<noteq> [] \<Longrightarrow> mv (xs @ fl, xs @ fr, d) (fl, fr, d)"

inductive_cases mvE: "mv (fl, fr, d) w"

text \<open>Of a block each tree visits at most once, the walk so far has the balance.\<close>

definition balance :: "'c diff \<Rightarrow> 'c \<Rightarrow> int" where
  "balance d c = (if c \<in> d_removed d then 1 else 0) - (if c \<in> d_added d then 1 else 0)"

definition walk_inv :: "'c list \<Rightarrow> 'c list \<Rightarrow> 'c list \<times> 'c list \<times> 'c diff \<Rightarrow> bool" where
  "walk_inv P N w \<longleftrightarrow>
     (case w of (fl, fr, d) \<Rightarrow>
        (\<exists>xs. P = xs @ fl) \<and> (\<exists>ys. N = ys @ fr)
        \<and> d_added d \<inter> d_removed d = {} \<and> d_removed d \<subseteq> set P \<and> d_added d \<subseteq> set N
        \<and> (\<forall>c. c \<notin> set N \<longrightarrow> (\<forall>xs. P = xs @ fl \<longrightarrow> c \<in> set xs \<longrightarrow> c \<in> d_removed d))
        \<and> (\<forall>c. count_list P c \<le> 1 \<longrightarrow> count_list N c \<le> 1 \<longrightarrow>
             balance d c = (int (count_list P c) - int (count_list fl c)) - (int (count_list N c) - int (count_list fr c))))"

lemma walk_inv_start: "walk_inv P N (P, N, diff_default)"
  by (simp add: walk_inv_def diff_default_def balance_def)

lemma remove_let_go:
  assumes "walk_inv P N (c # fl, fr, d)"
  shows "walk_inv P N (fl, fr, diff_remove c d)"
proof -
  obtain xs where P: "P = xs @ c # fl" using assms by (auto simp: walk_inv_def)
  have inv: "d_added d \<inter> d_removed d = {}" "d_removed d \<subseteq> set P" "d_added d \<subseteq> set N"
    and gone: "\<And>b. b \<notin> set N \<Longrightarrow> b \<in> set xs \<Longrightarrow> b \<in> d_removed d"
    and bal: "\<And>b. count_list P b \<le> 1 \<Longrightarrow> count_list N b \<le> 1 \<Longrightarrow> balance d b =
      (int (count_list P b) - int (count_list (c # fl) b)) - (int (count_list N b) - int (count_list fr b))"
    using assms P by (auto simp: walk_inv_def)
  have "c \<notin> d_removed d" if "count_list P c \<le> 1" "count_list N c \<le> 1"
  proof
    assume "c \<in> d_removed d"
    then have "balance d c = 1" using inv(1) by (auto simp: balance_def)
    moreover have "count_list P c = 1" using that(1) P by simp
    moreover obtain ys where "N = ys @ fr" using assms by (auto simp: walk_inv_def)
    ultimately show False using bal [OF that] P by simp
  qed
  then have "balance (diff_remove c d) b = (int (count_list P b) - int (count_list fl b)) - (int (count_list N b) - int (count_list fr b))"
    if "count_list P b \<le> 1" "count_list N b \<le> 1" for b
    using bal [OF that] inv(1) that by (auto simp: balance_def diff_remove_def split: if_splits)
  moreover have "b \<in> d_removed (diff_remove c d)" if "b \<notin> set N" "b \<in> set (xs @ [c])" for b
    using gone [OF that(1)] that inv(3) by (auto simp: diff_remove_def)
  ultimately show ?thesis
    using assms inv P by (auto simp: walk_inv_def diff_remove_def split: if_splits)
qed


lemma add_take_in:
  assumes "walk_inv P N (fl, c # fr, d)"
  shows "walk_inv P N (fl, fr, diff_add c d)"
proof -
  obtain ys where N: "N = ys @ c # fr" using assms by (auto simp: walk_inv_def)
  have inv: "d_added d \<inter> d_removed d = {}" "d_removed d \<subseteq> set P" "d_added d \<subseteq> set N"
    and gone: "\<And>xs b. P = xs @ fl \<Longrightarrow> b \<notin> set N \<Longrightarrow> b \<in> set xs \<Longrightarrow> b \<in> d_removed d"
    and bal: "\<And>b. count_list P b \<le> 1 \<Longrightarrow> count_list N b \<le> 1 \<Longrightarrow> balance d b =
      (int (count_list P b) - int (count_list fl b)) - (int (count_list N b) - int (count_list (c # fr) b))"
    using assms by (auto simp: walk_inv_def)
  have "c \<notin> d_added d" if "count_list P c \<le> 1" "count_list N c \<le> 1"
  proof
    assume "c \<in> d_added d"
    then have "balance d c = - 1" using inv(1) by (auto simp: balance_def)
    moreover obtain xs where "P = xs @ fl" using assms by (auto simp: walk_inv_def)
    moreover have "count_list N c = 1" using that(2) N by simp
    ultimately show False using bal [OF that] N by simp
  qed
  then have "balance (diff_add c d) b = (int (count_list P b) - int (count_list fl b)) - (int (count_list N b) - int (count_list fr b))"
    if "count_list P b \<le> 1" "count_list N b \<le> 1" for b
    using bal [OF that] inv(1) that by (auto simp: balance_def diff_add_def split: if_splits)
  moreover have "b \<in> d_removed (diff_add c d)" if "P = xs @ fl" "b \<notin> set N" "b \<in> set xs" for b xs
    using gone [OF that] that N by (auto simp: diff_add_def)
  ultimately show ?thesis
    using assms inv N by (auto simp: walk_inv_def diff_add_def split: if_splits)
qed

lemma skip_same:
  assumes "walk_inv P N (xs @ fl, xs @ fr, d)"
  shows "walk_inv P N (fl, fr, d)"
proof -
  obtain ps ns where PN: "P = ps @ xs @ fl" "N = ns @ xs @ fr" using assms by (auto simp: walk_inv_def)
  have "c \<in> d_removed d" if "c \<notin> set N" "c \<in> set (ps @ xs)" for c
  proof -
    have "c \<in> set ps" using that PN(2) by auto
    then show ?thesis using assms that(1) PN by (auto simp: walk_inv_def)
  qed
  then have "\<forall>c. c \<notin> set N \<longrightarrow> (\<forall>qs. P = qs @ fl \<longrightarrow> c \<in> set qs \<longrightarrow> c \<in> d_removed d)"
    using PN(1) by (metis append_assoc append_same_eq)
  moreover have "\<exists>qs. P = qs @ fl" "\<exists>qs. N = qs @ fr" using PN by (metis append_assoc)+
  ultimately show ?thesis using assms by (simp add: walk_inv_def)
qed

lemma mv_inv: "mv v w \<Longrightarrow> walk_inv P N v \<Longrightarrow> walk_inv P N w"
  by (induction rule: mv.induct) (auto dest: remove_let_go add_take_in skip_same)

lemma mvs_inv: "mv\<^sup>*\<^sup>* v w \<Longrightarrow> walk_inv P N v \<Longrightarrow> walk_inv P N w"
  by (induction rule: rtranclp_induct) (auto dest: mv_inv)

lemma walk_result:
  assumes "mv\<^sup>*\<^sup>* (P, N, diff_default) ([], [], d)"
  shows "d_removed d \<subseteq> set P" "set P - set N \<subseteq> d_removed d"
    and "count_list P c \<le> 1 \<Longrightarrow> count_list N c \<le> 1 \<Longrightarrow> c \<in> d_removed d \<longleftrightarrow> c \<in> set P \<and> c \<notin> set N"
proof -
  have inv: "walk_inv P N ([], [], d)" by (rule mvs_inv [OF assms walk_inv_start])
  then show sub: "d_removed d \<subseteq> set P" "set P - set N \<subseteq> d_removed d" by (auto simp: walk_inv_def)
  assume c: "count_list P c \<le> 1" "count_list N c \<le> 1"
  then have "balance d c = int (count_list P c) - int (count_list N c)"
    using inv by (auto simp: walk_inv_def)
  moreover have "count_list N c \<noteq> 0" if "c \<in> set N" using that by (simp add: count_list_0_iff)
  ultimately show "c \<in> d_removed d \<longleftrightarrow> c \<in> set P \<and> c \<notin> set N"
    using sub c inv by (auto simp: balance_def walk_inv_def split: if_splits)
qed


lemma mvs_shrink:
  "mv\<^sup>+\<^sup>+ v w \<Longrightarrow> length (fst w) + length (fst (snd w)) < length (fst v) + length (fst (snd v))"
  by (induction rule: tranclp_induct) (auto elim!: mv.cases)


section \<open>What a walker has still to visit\<close>

primrec flat :: "('c, 'l) mst_lib_scheme \<Rightarrow> 'c tree \<Rightarrow> 'c list"
and eflat :: "('c, 'l) mst_lib_scheme \<Rightarrow> 'c tent \<Rightarrow> 'c list" where
  "flat L (Node es) = tcid L (Node es) # concat (map (eflat L) es)"
| "eflat L (TL l) = [lvalue l]"
| "eflat L (TS t) = flat L t"

abbreviation flats :: "('c, 'l) mst_lib_scheme \<Rightarrow> 'c tent list \<Rightarrow> 'c list" where
  "flats L fs \<equiv> concat (map (eflat L) fs)"

lemma flat_not_Nil [simp]: "flat L t \<noteq> []"
  by (cases t) simp

lemma eflat_not_Nil [simp]: "eflat L e \<noteq> []"
  by (cases e) simp_all

text \<open>A level whose entries after the cursor stand for \<open>fs\<close>.\<close>

definition under_rep ::
    "('c, 'l) mst_lib_scheme \<Rightarrow> ('c \<Rightarrow> bytes option) \<Rightarrow> 'c set \<Rightarrow> 'c level \<Rightarrow> 'c tent list \<Rightarrow> bool" where
  "under_rep L M seen v fs \<longleftrightarrow>
     lv_index v < length (lv_entries v)
     \<and> readys L M (lv_layer v) (drop (Suc (lv_index v)) (lv_entries v)) fs seen"

text \<open>Each level is one layer below the one it was entered from.\<close>

fun chain :: "nat \<Rightarrow> nat \<Rightarrow> 'c level list \<Rightarrow> bool" where
  "chain N0 n [] \<longleftrightarrow> n = Suc N0"
| "chain N0 n (v # vs) \<longleftrightarrow> lv_layer v = n \<and> chain N0 (Suc n) vs"

lemma chain_length: "chain N0 n vs \<Longrightarrow> length vs + n = Suc N0"
  by (induction N0 n vs rule: chain.induct) auto

definition levels_ok ::
    "('c, 'l) mst_lib_scheme \<Rightarrow> ('c \<Rightarrow> bytes option) \<Rightarrow> nat \<Rightarrow> 'c set \<Rightarrow> nat \<Rightarrow> 'c level list \<Rightarrow> 'c tent list list \<Rightarrow> bool" where
  "levels_ok L M N0 seen n vs fss \<longleftrightarrow>
     list_all2 (under_rep L M seen) vs fss \<and> chain N0 n vs \<and> keys_sorted (concat (map esleaves fss))"

text \<open>A walker on the entry \<open>e\<close>, with \<open>R\<close> to visit after it.\<close>

definition wcur ::
    "('c, 'l) mst_lib_scheme \<Rightarrow> ('c \<Rightarrow> bytes option) \<Rightarrow> nat \<Rightarrow> 'c walker \<Rightarrow> 'c tent \<Rightarrow> 'c list \<Rightarrow> bool" where
  "wcur L M N0 w e R \<longleftrightarrow> N0 \<le> 128 \<and>
     (case wk_cursor w of
        CRoot root \<Rightarrow>
          wk_stack w = [] \<and> R = [] \<and>
          (\<exists>s. e = TS s \<and> ready L M N0 root s (wk_seen w) \<and> m_layer root = Some N0)
      | CNode \<Rightarrow>
          (\<exists>v vs fs fss. wk_stack w = v # vs
             \<and> lv_index v < length (lv_entries v)
             \<and> readys L M (lv_layer v) (drop (lv_index v) (lv_entries v)) (e # fs) (wk_seen w)
             \<and> levels_ok L M N0 (wk_seen w) (lv_layer v) (v # vs) (fs # fss)
             \<and> keys_sorted (eleaves e @ concat (map esleaves (fs # fss)))
             \<and> R = concat (map (flats L) (fs # fss)))
      | CDone \<Rightarrow> False)"

definition wst ::
    "('c, 'l) mst_lib_scheme \<Rightarrow> ('c \<Rightarrow> bytes option) \<Rightarrow> nat \<Rightarrow> 'c walker \<Rightarrow> 'c list \<Rightarrow> bool" where
  "wst L M N0 w F \<longleftrightarrow>
     wk_cursor w = CDone \<and> F = [] \<or> (\<exists>e R. wcur L M N0 w e R \<and> F = eflat L e @ R)"

lemma wcur_at:
  "wcur L M N0 w e R \<Longrightarrow> walker_at w = Some (case e of TL _ \<Rightarrow> AtLeaf | TS _ \<Rightarrow> AtTree)"
  unfolding wcur_def
proof (cases "wk_cursor w"; clarsimp simp: walker_at_def walker_entry_def getopt_def)
  fix v vs fs fss
  assume i: "lv_index v < length (lv_entries v)"
    and r: "readys L M (lv_layer v) (drop (lv_index v) (lv_entries v)) (e # fs) (wk_seen w)"
  then have "erep L M (lv_layer v) (lv_entries v ! lv_index v) e"
    by (auto simp: readys_def list_all2_Cons2 Cons_nth_drop_Suc [symmetric])
  then show "(case lv_entries v ! lv_index v of ELeaf leaf \<Rightarrow> Some AtLeaf | ETree mst \<Rightarrow> Some AtTree)
      = Some (case e of TL _ \<Rightarrow> AtLeaf | TS _ \<Rightarrow> AtTree)"
    by (cases e) auto
qed

lemma wst_at_None: "wst L M N0 w F \<Longrightarrow> walker_at w = None \<longleftrightarrow> F = []"
  unfolding wst_def
proof (elim disjE exE conjE)
  fix e R assume "wcur L M N0 w e R" "F = eflat L e @ R"
  then show ?thesis using wcur_at [of L M N0 w e R] by simp
qed (simp add: walker_at_def)

text \<open>Moving past spent levels.\<close>

lemma pop_ok:
  assumes "levels_ok L M N0 seen n vs fss" "N0 \<le> 128" "wk_seen w = seen"
  shows "wst L M N0 (w\<lparr>wk_stack := pop_spent vs, wk_cursor := (if pop_spent vs = [] then CDone else CNode)\<rparr>)
    (concat (map (flats L) fss))"
  using assms
proof (induction vs arbitrary: n fss)
  case Nil
  then show ?case by (auto simp: levels_ok_def wst_def)
next
  case (Cons v vs)
  obtain fs gss where fss: "fss = fs # gss" "under_rep L M seen v fs" "list_all2 (under_rep L M seen) vs gss"
    using Cons.prems(1) by (auto simp: levels_ok_def list_all2_Cons1)
  have n: "lv_layer v = n" "chain N0 (Suc n) vs" using Cons.prems(1) by (auto simp: levels_ok_def)
  have ks: "keys_sorted (esleaves fs @ concat (map esleaves gss))"
    using Cons.prems(1) fss(1) by (simp add: levels_ok_def)
  show ?case
  proof (cases fs)
    case Nil
    then have "\<not> Suc (lv_index v) < length (lv_entries v)"
      using fss(2) by (auto simp: under_rep_def dest: readys_length)
    moreover have "levels_ok L M N0 seen (Suc n) vs gss"
      using fss(3) n(2) ks Nil by (simp add: levels_ok_def)
    ultimately show ?thesis using Cons.IH [of "Suc n" gss] Cons.prems(2,3) fss(1) Nil by simp
  next
    case (Cons e gs)
    let ?v = "v\<lparr>lv_index := Suc (lv_index v)\<rparr>"
    have i: "Suc (lv_index v) < length (lv_entries v)"
      using fss(2) Cons by (auto simp: under_rep_def dest: readys_length)
    have rd: "readys L M n (drop (Suc (lv_index v)) (lv_entries v)) (e # gs) seen"
      using fss(2) n(1) Cons by (simp add: under_rep_def)
    have "drop (Suc (lv_index v)) (lv_entries v)
        = lv_entries v ! Suc (lv_index v) # drop (Suc (Suc (lv_index v))) (lv_entries v)"
      using i by (simp add: Cons_nth_drop_Suc)
    then have "readys L M n (drop (Suc (Suc (lv_index v))) (lv_entries v)) gs seen"
      using rd readys_Cons by metis
    then have "levels_ok L M N0 seen n (?v # vs) (gs # gss)"
      using i fss(3) n ks Cons by (simp add: levels_ok_def under_rep_def sorted_wrt_append)
    then have "wcur L M N0 (w\<lparr>wk_stack := ?v # vs, wk_cursor := CNode\<rparr>) e (concat (map (flats L) (gs # gss)))"
      using rd i n ks Cons Cons.prems(2,3) unfolding wcur_def by auto
    then show ?thesis using i fss(1) Cons unfolding wst_def by auto
  qed
qed

lemma step_over_ok:
  assumes "wcur L M N0 w e R"
  shows "wst L M N0 (step_over w) R"
proof (cases "wk_cursor w")
  case (CRoot root)
  then show ?thesis using assms by (auto simp: wcur_def step_over_def wst_def)
next
  case CNode
  then obtain v vs fs fss where "wk_stack w = v # vs" "R = concat (map (flats L) (fs # fss))"
      "levels_ok L M N0 (wk_seen w) (lv_layer v) (v # vs) (fs # fss)" "N0 \<le> 128"
    using assms by (auto simp: wcur_def)
  with pop_ok [OF this(3,4) refl] CNode show ?thesis by (simp add: step_over_def Let_def)
next
  case CDone
  then show ?thesis using assms by (simp add: wcur_def)
qed


lemma hd_flat: "hd (flat L t) = tcid L t"
  by (cases t) simp

lemma levels_frame:
  assumes c: "codec_ok L" and v: "levels_ok L M N0 seen n vs fss"
    and f: "frame (set cs) seen P' seen'" "covers L M cs ls"
    and ks: "\<forall>l \<in> set ls. \<forall>k \<in> set (concat (map esleaves fss)). lkey l < lkey k"
  shows "levels_ok L M N0 seen' n vs fss"
proof -
  have "under_rep L M seen' v fs" if u: "under_rep L M seen v fs" and m: "fs \<in> set fss" for v fs
  proof -
    have r: "readys L M (lv_layer v) (drop (Suc (lv_index v)) (lv_entries v)) fs seen"
      using u by (simp add: under_rep_def)
    have "set (pends L (drop (Suc (lv_index v)) (lv_entries v)) fs) \<inter> set cs = {}"
      by (rule covers_disjoint [OF c covers_pends [OF r] f(2)]) (use ks m in fastforce)
    then show ?thesis using readys_frame [OF r f(1)] u by (simp add: under_rep_def)
  qed
  then have "list_all2 (under_rep L M seen') vs fss"
    using v unfolding levels_ok_def by (auto intro: list.rel_mono_strong)
  then show ?thesis using v by (simp add: levels_ok_def)
qed

text \<open>The parts of a walker that is inside a node.\<close>

lemma wcur_node:
  assumes "wcur L M N0 w e R" "wk_cursor w = CNode"
  obtains v vs fs fss en es where "wk_stack w = v # vs" "lv_index v < length (lv_entries v)"
    "drop (lv_index v) (lv_entries v) = en # es" "getopt (lv_entries v) (lv_index v) = Some en"
    "drop (Suc (lv_index v)) (lv_entries v) = es"
    "readys L M (lv_layer v) (en # es) (e # fs) (wk_seen w)"
    "levels_ok L M N0 (wk_seen w) (lv_layer v) (v # vs) (fs # fss)"
    "keys_sorted (eleaves e @ concat (map esleaves (fs # fss)))"
    "R = concat (map (flats L) (fs # fss))" "N0 \<le> 128" "lv_layer v \<le> N0"
proof -
  obtain v vs fs fss where w: "wk_stack w = v # vs" "lv_index v < length (lv_entries v)"
      "readys L M (lv_layer v) (drop (lv_index v) (lv_entries v)) (e # fs) (wk_seen w)"
      "levels_ok L M N0 (wk_seen w) (lv_layer v) (v # vs) (fs # fss)"
      "keys_sorted (eleaves e @ concat (map esleaves (fs # fss)))"
      "R = concat (map (flats L) (fs # fss))" "N0 \<le> 128"
    using assms by (auto simp: wcur_def)
  have "drop (lv_index v) (lv_entries v) = lv_entries v ! lv_index v # drop (Suc (lv_index v)) (lv_entries v)"
    using w(2) by (simp add: Cons_nth_drop_Suc)
  moreover have "lv_layer v \<le> N0"
    using w(4) chain_length [of N0 "lv_layer v" "v # vs"] by (simp add: levels_ok_def)
  ultimately show thesis using that w by (simp add: getopt_def)
qed

text \<open>Another value for the subtree under the cursor, after some reading.\<close>

lemma wcur_set_entry:
  assumes c: "codec_ok L" and w: "wk_cursor w = CNode" "wk_stack w = v # vs" "lv_index v < length (lv_entries v)"
    "drop (lv_index v) (lv_entries v) = ETree x # es"
    "readys L M (lv_layer v) (ETree x # es) (TS s # fs) (wk_seen w)"
    "levels_ok L M N0 (wk_seen w) (lv_layer v) (v # vs) (fs # fss)"
    "keys_sorted (tleaves s @ concat (map esleaves (fs # fss)))" "N0 \<le> 128"
    and k: "frame (set (pend L x s)) (wk_seen w) P' seen'"
  shows "levels_ok L M N0 seen' (lv_layer v) (set_entry v x' # vs) (fs # fss)"
    and "ready L M (lv_layer v - 1) x' s seen' \<Longrightarrow>
      wcur L M N0 (w\<lparr>wk_stack := set_entry v x' # vs, wk_seen := seen'\<rparr>) (TS s) (concat (map (flats L) (fs # fss)))"
proof -
  have r1: "readys L M (lv_layer v) [ETree x] [TS s] (wk_seen w)"
    using w(5) readys_Cons [of L M "lv_layer v" "ETree x" es "TS s" fs "wk_seen w"] by blast
  then have sub: "0 < lv_layer v" "s \<noteq> Node []" "ready L M (lv_layer v - 1) x s (wk_seen w)"
    by (simp_all add: readys_tree)
  have cov: "covers L M (pend L x s) (tleaves s)"
    by (rule covers_pend(1)) (use sub in \<open>auto simp: ready_def\<close>)
  have "levels_ok L M N0 seen' (lv_layer v) (v # vs) (fs # fss)"
    by (rule levels_frame [OF c w(6) k cov]) (use iffD1 [OF keys_sorted_append w(7)] in blast)
  then show lev: "levels_ok L M N0 seen' (lv_layer v) (set_entry v x' # vs) (fs # fss)"
    by (simp add: levels_ok_def under_rep_def set_entry_def)
  assume x': "ready L M (lv_layer v - 1) x' s seen'"
  have "drop (lv_index v) ((lv_entries v)[lv_index v := ETree x']) = ETree x' # es"
    using w(3,4) by (metis Cons_nth_drop_Suc drop_update_cancel length_list_update lessI list.inject nth_list_update_eq)
  moreover have "readys L M (lv_layer v) (ETree x' # es) (TS s # fs) seen'"
  proof -
    have "drop (Suc (lv_index v)) (lv_entries v) = es"
      using w(3,4) by (metis Cons_nth_drop_Suc list.inject)
    then have "readys L M (lv_layer v) es fs seen'"
      using lev by (simp add: levels_ok_def under_rep_def set_entry_def)
    moreover have "readys L M (lv_layer v) [ETree x'] [TS s] seen'" using x' sub by (simp add: readys_tree)
    ultimately show ?thesis
      using w(5) readys_Cons [of L M "lv_layer v" "ETree x" es "TS s" fs "wk_seen w"]
        readys_Cons [of L M "lv_layer v" "ETree x'" es "TS s" fs seen'] by blast
  qed
  ultimately show "wcur L M N0 (w\<lparr>wk_stack := set_entry v x' # vs, wk_seen := seen'\<rparr>) (TS s) (concat (map (flats L) (fs # fss)))"
    using lev w(1,3,7,8) unfolding wcur_def by (auto simp: set_entry_def)
qed

text \<open>One turn of the loop is one or two steps of the state machine.\<close>

definition steps_to ::
    "('c, 'l) mst_lib_scheme \<Rightarrow> ('c \<Rightarrow> bytes option) \<Rightarrow> nat \<Rightarrow> nat \<Rightarrow> 'c list \<Rightarrow> 'c list \<Rightarrow> 'c diff
      \<Rightarrow> 'c repo_error + 'c walk \<Rightarrow> bool" where
  "steps_to L M N1 N2 fl fr d r \<longleftrightarrow>
     (\<exists>l' r' d' fl' fr'. r = Inr (l', r', d') \<and> wst L M N1 l' fl' \<and> wst L M N2 r' fr'
        \<and> mv\<^sup>+\<^sup>+ (fl, fr, d) (fl', fr', d'))"

lemma steps_toI:
  assumes "r = Inr (l', r', d')" "wst L M N1 l' fl'" "wst L M N2 r' fr'" "mv\<^sup>+\<^sup>+ (fl, fr, d) (fl', fr', d')"
  shows "steps_to L M N1 N2 fl fr d r"
  using assms unfolding steps_to_def by blast

context block_store
begin

lemma walker_cid_ok:
  assumes c: "codec_ok L" and w: "wcur L M N0 w e R"
  shows "\<exists>w'. walker_cid L st w = Inr (hd (eflat L e), w') \<and> wcur L M N0 w' e R"
proof (cases "wk_cursor w")
  case (CRoot root)
  then obtain s where s: "e = TS s" "ready L M N0 root s (wk_seen w)" "m_layer root = Some N0"
      "wk_stack w = []" "R = []" "N0 \<le> 128"
    using w by (auto simp: wcur_def)
  have "N0 < MAX_DEPTH" using s(6) by (simp add: MAX_DEPTH_def)
  from root_in_ok [OF c s(2) this] obtain t' seen' where
      "root_in MAX_DEPTH L st root (wk_seen w) = Inr (tcid L s, t', seen')"
      "keeps L M N0 s root (wk_seen w) t' seen'" "m_layer t' = m_layer root" by blast
  then show ?thesis using CRoot s by (auto simp: walker_cid_def wcur_def keeps_def hd_flat)
next
  case CNode
  from w CNode obtain v vs fs fss en es where n: "wk_stack w = v # vs" "lv_index v < length (lv_entries v)"
      "drop (lv_index v) (lv_entries v) = en # es" "getopt (lv_entries v) (lv_index v) = Some en"
      "readys L M (lv_layer v) (en # es) (e # fs) (wk_seen w)"
      "levels_ok L M N0 (wk_seen w) (lv_layer v) (v # vs) (fs # fss)"
      "keys_sorted (eleaves e @ concat (map esleaves (fs # fss)))"
      "R = concat (map (flats L) (fs # fss))" "N0 \<le> 128" "lv_layer v \<le> N0"
    by (rule wcur_node)
  show ?thesis
  proof (cases e)
    case (TL l)
    then have "en = ELeaf l" using n(5) by (simp add: readys_def)
    with TL CNode n(1,4) w show ?thesis by (simp add: walker_cid_def)
  next
    case (TS s)
    then obtain x where x: "en = ETree x" using n(5) by (auto simp: readys_def)
    have "readys L M (lv_layer v) [ETree x] [TS s] (wk_seen w)"
      using n(5) readys_Cons [of L M "lv_layer v" "ETree x" es "TS s" fs "wk_seen w"] unfolding x TS by blast
    then have rd: "ready L M (lv_layer v - 1) x s (wk_seen w)" by (simp add: readys_tree)
    have "lv_layer v - 1 < MAX_DEPTH" using n(9,10) by (simp add: MAX_DEPTH_def)
    from root_in_ok [OF c rd this] obtain t' seen' where
        r: "root_in MAX_DEPTH L st x (wk_seen w) = Inr (tcid L s, t', seen')"
        "keeps L M (lv_layer v - 1) s x (wk_seen w) t' seen'" by blast
    have "wcur L M N0 (w\<lparr>wk_stack := set_entry v t' # vs, wk_seen := seen'\<rparr>) (TS s) R"
      unfolding n(8)
      by (rule wcur_set_entry(2) [OF c CNode n(1,2) n(3) [unfolded x] n(5) [unfolded x TS] n(6)])
        (use n(7,9) TS r(2) in \<open>auto simp: keeps_def\<close>)
    then show ?thesis using CNode n(1,4) x TS r(1) by (simp add: walker_cid_def hd_flat)
  qed
next
  case CDone
  then show ?thesis using w by (simp add: wcur_def)
qed

lemma level_of_ok:
  assumes c: "codec_ok L" and r: "ready L M n x u seen" "n \<le> 128" "u = Node [] \<Longrightarrow> m_layer x = None \<Longrightarrow> n = 0"
  obtains es fs x' seen' where "u = Node fs"
    "level_of L st x seen = Inr (\<lparr>lv_entries = es, lv_index = 0, lv_layer = n\<rparr>, x', seen')"
    "readys L M n es fs seen'" "frame (set (pend L x u)) seen (set (pends L es fs)) seen'"
proof -
  have "n < MAX_DEPTH" using r(2) by (simp add: MAX_DEPTH_def)
  then obtain es1 ptr seen1 where l: "layer_in MAX_DEPTH L st x seen = Inr (n, Mst es1 (Some n) ptr, seen1)"
      "keeps L M n u x seen (Mst es1 (Some n) ptr) seen1"
    using layer_ok [OF c r(1) _ r(3)] by metis
  have r1: "ready L M n (Mst es1 (Some n) ptr) u seen1" using l(2) by (simp add: keeps_def)
  obtain es fs seen' where e: "u = Node fs"
      "entries_in L st (Mst es1 (Some n) ptr) seen1 = Inr (es, Mst (Some es) (Some n) ptr, seen')"
      "keeps L M n u (Mst es1 (Some n) ptr) seen1 (Mst (Some es) (Some n) ptr) seen'"
      "readys L M n es fs seen'"
    using entries_ok [OF c r1] by (metis mst.sel(2,3))
  have "keeps L M n u x seen (Mst (Some es) (Some n) ptr) seen'" by (rule keeps_trans [OF l(2) e(3)])
  then have "frame (set (pend L x u)) seen (set (pends L es fs)) seen'"
    using e(1) by (simp add: keeps_def)
  then show thesis
    using that [OF e(1) _ e(4)] l(1) e(2) by (simp add: level_of_def)
qed


text \<open>Entering the node under the cursor: what is left is its entries and then what was left.\<close>

lemma enter_ok:
  assumes l: "levels_ok L M N0 seen (Suc n) vs fss" "N0 \<le> 128" "wk_seen w = seen" "wk_stack w = vs"
    and v: "readys L M n es fs seen" "keys_sorted (esleaves fs @ concat (map esleaves fss))"
  shows "wst L M N0 (enter w \<lparr>lv_entries = es, lv_index = 0, lv_layer = n\<rparr>) (flats L fs @ concat (map (flats L) fss))"
proof (cases fs)
  case Nil
  then have "es = []" using v(1) by (simp add: readys_def)
  then have "enter w \<lparr>lv_entries = es, lv_index = 0, lv_layer = n\<rparr>
      = w\<lparr>wk_stack := pop_spent vs, wk_cursor := (if pop_spent vs = [] then CDone else CNode)\<rparr>"
    by (simp add: enter_def walker_entry_def getopt_def step_over_def Let_def l(4))
  then show ?thesis using pop_ok [OF l(1,2,3)] Nil by simp
next
  case (Cons f gs)
  let ?v = "\<lparr>lv_entries = es, lv_index = 0, lv_layer = n\<rparr>"
  obtain en ds where es: "es = en # ds" using v(1) Cons by (auto simp: readys_def list_all2_Cons2)
  have ks: "keys_sorted (eleaves f @ concat (map esleaves (gs # fss)))" using v(2) Cons by simp
  have "readys L M n ds gs seen"
    using v(1) readys_Cons [of L M n en ds f gs seen] unfolding es Cons by blast
  then have "under_rep L M seen ?v gs" by (simp add: under_rep_def es)
  moreover have "keys_sorted (concat (map esleaves (gs # fss)))"
    using iffD1 [OF keys_sorted_append ks] by blast
  ultimately have "levels_ok L M N0 seen n (?v # vs) (gs # fss)"
    using l(1) by (simp add: levels_ok_def)
  then have "wcur L M N0 (w\<lparr>wk_stack := ?v # vs, wk_cursor := CNode\<rparr>) f (concat (map (flats L) (gs # fss)))"
    using v(1) ks l(2,3) unfolding wcur_def by (auto simp: es Cons)
  then show ?thesis
    unfolding wst_def using l(4) Cons
    by (auto simp: enter_def walker_entry_def getopt_def Let_def es)
qed

lemma step_into_ok:
  assumes c: "codec_ok L" and w: "wcur L M N0 w (TS s) R"
  shows "\<exists>w'. step_into L st w = Inr w' \<and> wst L M N0 w' (tl (flat L s) @ R)"
proof (cases "wk_cursor w")
  case (CRoot root)
  then have r: "ready L M N0 root s (wk_seen w)" "m_layer root = Some N0" "wk_stack w = []" "R = []" "N0 \<le> 128"
    using w by (auto simp: wcur_def)
  obtain es fs x' seen' where v: "s = Node fs"
      "level_of L st root (wk_seen w) = Inr (\<lparr>lv_entries = es, lv_index = 0, lv_layer = N0\<rparr>, x', seen')"
      "readys L M N0 es fs seen'"
    using level_of_ok [OF c r(1,5)] r(2) by (metis option.distinct(1))
  have "levels_ok L M N0 seen' (Suc N0) [] []" by (simp add: levels_ok_def)
  then have "wst L M N0 (enter (w\<lparr>wk_seen := seen'\<rparr>) \<lparr>lv_entries = es, lv_index = 0, lv_layer = N0\<rparr>)
      (flats L fs @ concat (map (flats L) []))"
    by (rule enter_ok) (use r v(3) in \<open>auto simp: readys_def\<close>)
  then show ?thesis
    using CRoot r(3,4) v(1,2) by (simp add: step_into_def MAX_DEPTH_def)
next
  case CNode
  from w CNode obtain v vs fs fss en es where n: "wk_stack w = v # vs" "lv_index v < length (lv_entries v)"
      "drop (lv_index v) (lv_entries v) = en # es" "getopt (lv_entries v) (lv_index v) = Some en"
      "readys L M (lv_layer v) (en # es) (TS s # fs) (wk_seen w)"
      "levels_ok L M N0 (wk_seen w) (lv_layer v) (v # vs) (fs # fss)"
      "keys_sorted (eleaves (TS s) @ concat (map esleaves (fs # fss)))"
      "R = concat (map (flats L) (fs # fss))" "N0 \<le> 128" "lv_layer v \<le> N0"
    by (rule wcur_node)
  obtain x where x: "en = ETree x" using n(5) by (auto simp: readys_def)
  have "readys L M (lv_layer v) [ETree x] [TS s] (wk_seen w)"
    using n(5) readys_Cons [of L M "lv_layer v" "ETree x" es "TS s" fs "wk_seen w"] unfolding x by blast
  then have sub: "ready L M (lv_layer v - 1) x s (wk_seen w)" "0 < lv_layer v" "s \<noteq> Node []"
    by (simp_all add: readys_tree)
  have le: "lv_layer v - 1 \<le> 128" using n(9,10) by simp
  obtain ds gs x' seen' where g: "s = Node gs"
      "level_of L st x (wk_seen w) = Inr (\<lparr>lv_entries = ds, lv_index = 0, lv_layer = lv_layer v - 1\<rparr>, x', seen')"
      "readys L M (lv_layer v - 1) ds gs seen'" "frame (set (pend L x s)) (wk_seen w) (set (pends L ds gs)) seen'"
    by (rule level_of_ok [OF c sub(1) le]) (use sub(3) in auto)
  have lev: "levels_ok L M N0 seen' (lv_layer v) (set_entry v x' # vs) (fs # fss)"
    by (rule wcur_set_entry(1) [OF c CNode n(1,2) n(3) [unfolded x] n(5) [unfolded x] n(6) _ n(9) g(4)])
      (use n(7) in simp)
  have "wst L M N0 (enter (w\<lparr>wk_stack := set_entry v x' # vs, wk_seen := seen'\<rparr>)
      \<lparr>lv_entries = ds, lv_index = 0, lv_layer = lv_layer v - 1\<rparr>) (flats L gs @ concat (map (flats L) (fs # fss)))"
    by (rule enter_ok [where vs = "set_entry v x' # vs"])
      (use lev sub(2) n(7,9) g in auto)
  moreover have "length (wk_stack w) < MAX_DEPTH"
    using n(1,6,9) chain_length [of N0 "lv_layer v" "v # vs"] sub(2) by (simp add: levels_ok_def MAX_DEPTH_def)
  ultimately show ?thesis
    using CNode n(1,4,8) g(1,2) x by (simp add: step_into_def)
next
  case CDone
  then show ?thesis using w by (simp add: wcur_def)
qed

lemma advance_ok:
  assumes c: "codec_ok L" and w: "wcur L M N0 w e R"
  shows "\<exists>w'. advance L st w = Inr w' \<and> wst L M N0 w' (tl (eflat L e) @ R)"
proof (cases e)
  case (TL l)
  then show ?thesis using wcur_at [OF w] step_over_ok [OF w] by (simp add: advance_def)
next
  case (TS s)
  then show ?thesis using wcur_at [OF w] step_into_ok [OF c] w by (simp add: advance_def)
qed


lemma drop_left_ok:
  assumes c: "codec_ok L" and w: "wcur L M N1 l e R" "wst L M N2 r fr"
    and f: "\<And>l. wcur L M N1 l e R \<Longrightarrow> \<exists>l'. f l = Inr l' \<and> wst L M N1 l' (tl (eflat L e) @ R)"
  shows "steps_to L M N1 N2 (eflat L e @ R) fr d (drop_left L st f (l, r, d))"
proof -
  obtain l1 where l1: "walker_cid L st l = Inr (hd (eflat L e), l1)" "wcur L M N1 l1 e R"
    using walker_cid_ok [OF c w(1)] by blast
  obtain l2 where l2: "f l1 = Inr l2" "wst L M N1 l2 (tl (eflat L e) @ R)" using f [OF l1(2)] by blast
  have "mv (hd (eflat L e) # tl (eflat L e) @ R, fr, d) (tl (eflat L e) @ R, fr, diff_remove (hd (eflat L e)) d)"
    by (rule mv.let_go)
  then have "mv\<^sup>+\<^sup>+ (eflat L e @ R, fr, d) (tl (eflat L e) @ R, fr, diff_remove (hd (eflat L e)) d)"
    by (intro tranclp.r_into_trancl) (simp flip: append_Cons)
  with l1(1) l2 w(2) show ?thesis unfolding steps_to_def drop_left_def by auto
qed

lemma take_right_ok:
  assumes c: "codec_ok L" and w: "wst L M N1 l fl" "wcur L M N2 r e R"
    and f: "\<And>r. wcur L M N2 r e R \<Longrightarrow> \<exists>r'. f r = Inr r' \<and> wst L M N2 r' (tl (eflat L e) @ R)"
  shows "steps_to L M N1 N2 fl (eflat L e @ R) d (take_right L st f (l, r, d))"
proof -
  obtain r1 where r1: "walker_cid L st r = Inr (hd (eflat L e), r1)" "wcur L M N2 r1 e R"
    using walker_cid_ok [OF c w(2)] by blast
  obtain r2 where r2: "f r1 = Inr r2" "wst L M N2 r2 (tl (eflat L e) @ R)" using f [OF r1(2)] by blast
  have "mv (fl, hd (eflat L e) # tl (eflat L e) @ R, d) (fl, tl (eflat L e) @ R, diff_add (hd (eflat L e)) d)"
    by (rule mv.take_in)
  then have "mv\<^sup>+\<^sup>+ (fl, eflat L e @ R, d) (fl, tl (eflat L e) @ R, diff_add (hd (eflat L e)) d)"
    by (intro tranclp.r_into_trancl) (simp flip: append_Cons)
  with r1(1) r2 w(1) show ?thesis unfolding steps_to_def take_right_def by auto
qed

text \<open>A change at both cursors is a step of either tree.\<close>

lemma mv_both:
  "mv\<^sup>+\<^sup>+ (a # fl, b # fr, d) (fl, fr, diff_add b (diff_remove a d))"
  by (meson mv.let_go mv.take_in tranclp.r_into_trancl tranclp.trancl_into_trancl)

lemma mv_same: "xs \<noteq> [] \<Longrightarrow> mv\<^sup>+\<^sup>+ (xs @ fl, xs @ fr, d) (fl, fr, d)"
  by (blast intro: mv.skip_both)

lemma both_leaves_ok:
  assumes c: "codec_ok L" and w: "wcur L M N1 l (TL a) R" "wcur L M N2 r (TL b) S"
  shows "steps_to L M N1 N2 (lvalue a # R) (lvalue b # S) d (both_leaves L st (l, r, d))"
proof -
  obtain l1 where l1: "walker_cid L st l = Inr (lvalue a, l1)" "wcur L M N1 l1 (TL a) R"
    using walker_cid_ok [OF c w(1)] by auto
  obtain r1 where r1: "walker_cid L st r = Inr (lvalue b, r1)" "wcur L M N2 r1 (TL b) S"
    using walker_cid_ok [OF c w(2)] by auto
  obtain l2 where l2: "advance L st l1 = Inr l2" "wst L M N1 l2 R" using advance_ok [OF c l1(2)] by auto
  obtain r2 where r2: "advance L st r1 = Inr r2" "wst L M N2 r2 S" using advance_ok [OF c r1(2)] by auto
  let ?d = "if lvalue a \<noteq> lvalue b then diff_add (lvalue b) (diff_remove (lvalue a) d) else d"
  have "mv\<^sup>+\<^sup>+ (lvalue a # R, lvalue b # S, d) (R, S, ?d)"
    using mv_both [of "lvalue a" R "lvalue b" S d] mv_same [of "[lvalue b]" R S d] by simp
  then show ?thesis
    using l1(1) r1(1) l2 r2 by (auto simp: both_leaves_def Let_def intro!: steps_toI)
qed

lemma wcur_wf: "wcur L M N0 w (TS s) R \<Longrightarrow> \<exists>n. tree_wf L n s"
  by (auto simp: wcur_def ready_def readys_def split: cursor.splits)

lemma both_trees_ok:
  assumes c: "codec_ok L" "no_collision L" and w: "wcur L M N1 l (TS s) R" "wcur L M N2 r (TS t) S"
  shows "steps_to L M N1 N2 (flat L s @ R) (flat L t @ S) d (both_trees L st (l, r, d))"
proof -
  obtain l1 where l1: "walker_cid L st l = Inr (tcid L s, l1)" "wcur L M N1 l1 (TS s) R"
    using walker_cid_ok [OF c(1) w(1)] by (auto simp: hd_flat)
  obtain r1 where r1: "walker_cid L st r = Inr (tcid L t, r1)" "wcur L M N2 r1 (TS t) S"
    using walker_cid_ok [OF c(1) w(2)] by (auto simp: hd_flat)
  show ?thesis
  proof (cases "tcid L s = tcid L t")
    case True
    then have "s = t" using tcid_inj(1) [OF c] wcur_wf [OF w(1)] wcur_wf [OF w(2)] by blast
    then have "mv\<^sup>+\<^sup>+ (flat L s @ R, flat L t @ S, d) (R, S, d)" by (simp add: mv_same)
    with True show ?thesis unfolding steps_to_def both_trees_def
      using l1(1) r1(1) step_over_ok [OF l1(2)] step_over_ok [OF r1(2)] by auto
  next
    case False
    obtain l2 where l2: "step_into L st l1 = Inr l2" "wst L M N1 l2 (tl (flat L s) @ R)"
      using step_into_ok [OF c(1) l1(2)] by blast
    obtain r2 where r2: "step_into L st r1 = Inr r2" "wst L M N2 r2 (tl (flat L t) @ S)"
      using step_into_ok [OF c(1) r1(2)] by blast
    have "mv\<^sup>+\<^sup>+ (hd (flat L s) # tl (flat L s) @ R, hd (flat L t) # tl (flat L t) @ S, d)
        (tl (flat L s) @ R, tl (flat L t) @ S, diff_add (hd (flat L t)) (diff_remove (hd (flat L s)) d))"
      by (rule mv_both)
    then have "mv\<^sup>+\<^sup>+ (flat L s @ R, flat L t @ S, d)
        (tl (flat L s) @ R, tl (flat L t) @ S, diff_add (tcid L t) (diff_remove (tcid L s) d))"
      by (simp add: hd_flat flip: append_Cons) (metis hd_flat flat_not_Nil list.collapse)
    with False show ?thesis unfolding steps_to_def both_trees_def
      using l1(1) r1(1) l2 r2 by (auto simp: Let_def)
  qed
qed


lemma walk_step_ok:
  assumes c: "codec_ok L" "no_collision L" and w: "wst L M N1 l fl" "wst L M N2 r fr"
  shows "fl = [] \<and> fr = [] \<and> walk_step L st (l, r, d) = Inr None
    \<or> (\<exists>t. walk_step L st (l, r, d) = bindE t (\<lambda>w. Inr (Some w)) \<and> steps_to L M N1 N2 fl fr d t)"
proof -
  have dl: "steps_to L M N1 N2 (eflat L e @ R) fr d (drop_left L st (advance L st) (l, r, d))"
    if "wcur L M N1 l e R" for e R
    by (rule drop_left_ok [OF c(1) that w(2) advance_ok [OF c(1)]])
  have dl_into: "steps_to L M N1 N2 (flat L s @ R) fr d (drop_left L st (step_into L st) (l, r, d))"
    if "wcur L M N1 l (TS s) R" for s R
    using drop_left_ok [OF c(1) that w(2), of "step_into L st" d] step_into_ok [OF c(1)] by simp
  have tr: "steps_to L M N1 N2 fl (eflat L e @ R) d (take_right L st (advance L st) (l, r, d))"
    if "wcur L M N2 r e R" for e R
    by (rule take_right_ok [OF c(1) w(1) that advance_ok [OF c(1)]])
  have tr_into: "steps_to L M N1 N2 fl (flat L s @ R) d (take_right L st (step_into L st) (l, r, d))"
    if "wcur L M N2 r (TS s) R" for s R
    using take_right_ok [OF c(1) w(1) that, of "step_into L st" d] step_into_ok [OF c(1)] by simp
  consider (none) "fl = []" "fr = []" "wk_cursor l = CDone" "wk_cursor r = CDone"
    | (left) e R where "wcur L M N1 l e R" "fl = eflat L e @ R" "fr = []" "wk_cursor r = CDone"
    | (right) e R where "wcur L M N2 r e R" "fr = eflat L e @ R" "fl = []" "wk_cursor l = CDone"
    | (both) e R f S where "wcur L M N1 l e R" "fl = eflat L e @ R" "wcur L M N2 r f S" "fr = eflat L f @ S"
    using w unfolding wst_def by blast
  then show ?thesis
  proof cases
    case none
    then show ?thesis by (simp add: walk_step_def walker_at_def)
  next
    case left
    then show ?thesis using wcur_at [OF left(1)] dl [OF left(1)]
      by (auto simp: walk_step_def walker_at_def [of r])
  next
    case right
    then show ?thesis using wcur_at [OF right(1)] tr [OF right(1)]
      by (auto simp: walk_step_def walker_at_def [of l])
  next
    case both
    let ?at = "\<lambda>e. case e of TL _ \<Rightarrow> AtLeaf | TS _ \<Rightarrow> AtTree"
    have "steps_to L M N1 N2 fl fr d (walk_turn L st (?at e) (?at f) (l, r, d))"
    proof (cases e)
      case (TL a)
      show ?thesis
      proof (cases f)
        case (TL b)
        then show ?thesis
          using \<open>e = TL a\<close> both dl [OF both(1)] tr [OF both(3)]
            both_leaves_ok [OF c(1), of N1 l a R N2 r b S d]
          by (simp add: walk_turn_def Let_def)
      next
        case (TS t)
        then show ?thesis
          using \<open>e = TL a\<close> both dl [OF both(1)] tr [OF both(3)]
            tr_into [of t S]
          by (simp add: walk_turn_def Let_def)
      qed
    next
      case (TS s)
      show ?thesis
      proof (cases f)
        case (TL b)
        then show ?thesis
          using \<open>e = TS s\<close> both dl [OF both(1)] tr [OF both(3)]
            dl_into [of s R]
          by (simp add: walk_turn_def Let_def)
      next
        case (TS t)
        then show ?thesis
          using \<open>e = TS s\<close> both dl_into [of s R] tr_into [of t S]
            both_trees_ok [OF c, of N1 l s R N2 r t S d]
          by (simp add: walk_turn_def Let_def)
      qed
    qed
    then show ?thesis using wcur_at [OF both(1)] wcur_at [OF both(3)] by (auto simp: walk_step_def)
  qed
qed


text \<open>Every step leaves less to visit, so the loop ends.\<close>

lemma walk_loop_ok:
  assumes c: "codec_ok L" "no_collision L"
  shows "wst L M N1 l fl \<Longrightarrow> wst L M N2 r fr \<Longrightarrow>
    \<exists>d'. walk_loop L st (l, r, d) = Some (Inr d') \<and> mv\<^sup>*\<^sup>* (fl, fr, d) ([], [], d')"
proof (induction "length fl + length fr" arbitrary: l r fl fr d rule: less_induct)
  case less
  consider "fl = []" "fr = []" "walk_step L st (l, r, d) = Inr None"
    | t where "walk_step L st (l, r, d) = bindE t (\<lambda>w. Inr (Some w))" "steps_to L M N1 N2 fl fr d t"
    using walk_step_ok [OF c less.prems] by blast
  then show ?case
  proof cases
    case 1
    then show ?thesis by (subst walk_loop.simps) auto
  next
    case (2 t)
    then obtain l' r' d1 fl' fr' where s: "t = Inr (l', r', d1)" "wst L M N1 l' fl'" "wst L M N2 r' fr'"
        "mv\<^sup>+\<^sup>+ (fl, fr, d) (fl', fr', d1)"
      unfolding steps_to_def by blast
    have "length fl' + length fr' < length fl + length fr" using mvs_shrink [OF s(4)] by simp
    from less.hyps [OF this s(2,3), of d1] obtain d' where
        "walk_loop L st (l', r', d1) = Some (Inr d')" "mv\<^sup>*\<^sup>* (fl', fr', d1) ([], [], d')"
      by blast
    then show ?thesis
      using 2(1) s(1,4) by (subst walk_loop.simps) (auto intro: rtranclp_trans tranclp_into_rtranclp)
  qed
qed

lemma walker_new_ok:
  assumes c: "codec_ok L" and r: "ready L M n t s {}" "n \<le> 128" "s = Node [] \<Longrightarrow> m_layer t = None \<Longrightarrow> n = 0"
  shows "\<exists>w. walker_new L st t = Inr w \<and> wst L M n w (flat L s)"
proof -
  have "n < MAX_DEPTH" using r(2) by (simp add: MAX_DEPTH_def)
  then obtain es ptr seen' where l: "layer_in MAX_DEPTH L st t {} = Inr (n, Mst es (Some n) ptr, seen')"
      "keeps L M n s t {} (Mst es (Some n) ptr) seen'"
    using layer_ok [OF c r(1)] r(3) by metis
  let ?w = "\<lparr>wk_seen = seen', wk_stack = [], wk_cursor = CRoot (Mst es (Some n) ptr), wk_above = n + 1\<rparr>"
  have "wcur L M n ?w (TS s) []" using l(2) r(2) by (simp add: wcur_def keeps_def)
  then have "wst L M n ?w (flat L s)" unfolding wst_def by force
  with l(1) show ?thesis by (simp add: walker_new_def)
qed

lemma dropped_ok:
  assumes c: "codec_ok L" "no_collision L"
    and p: "ready L M m prev s {}" "m \<le> 128" "s = Node [] \<Longrightarrow> m_layer prev = None \<Longrightarrow> m = 0"
    and t: "ready L M n t u {}" "n \<le> 128" "u = Node [] \<Longrightarrow> m_layer t = None \<Longrightarrow> n = 0"
  shows "\<exists>d. dropped L st t prev = Some (Inr (d_removed d)) \<and> mv\<^sup>*\<^sup>* (flat L s, flat L u, diff_default) ([], [], d)"
proof -
  obtain l r where "walker_new L st prev = Inr l" "wst L M m l (flat L s)"
      "walker_new L st t = Inr r" "wst L M n r (flat L u)"
    using walker_new_ok [OF c(1) p] walker_new_ok [OF c(1) t] by blast
  with walk_loop_ok [OF c this(2,4), of diff_default] show ?thesis by (auto simp: dropped_def)
qed

end


section \<open>Blocks a tree visits once\<close>

lemma set_flat:
  "set (flat L s) = set (tcids L s) \<union> lvalue ` set (tleaves s)"
  "set (eflat L e) = set (ecids L e) \<union> lvalue ` set (eleaves e)"
  by (induction s and e) (auto simp del: tcid.simps)

lemma count_flat:
  "c \<notin> lvalue ` set (tleaves s) \<Longrightarrow> count_list (flat L s) c = count_list (tcids L s) c"
  "c \<notin> lvalue ` set (eleaves e) \<Longrightarrow> count_list (eflat L e) c = count_list (ecids L e) c"
proof (induction s and e)
  case (Node es)
  then have "\<forall>e \<in> set es. count_list (eflat L e) c = count_list (ecids L e) c" by fastforce
  then have "count_list (flats L es) c = count_list (concat (map (ecids L) es)) c"
    by (induction es) auto
  then show ?case by (simp del: tcid.simps)
qed auto

lemma distinct_nodes:
  assumes c: "codec_ok L" "no_collision L" and s: "tree_wf L n s" "keys_sorted (tleaves s)"
  shows "distinct (tcids L s)"
proof -
  define M where "M k = (if \<exists>b. cid_for L b = k then Some (SOME b. cid_for L b = k) else None)" for k
  have "addressed L M"
    unfolding addressed_def M_def by (auto split: if_splits intro: someI2)
  moreover have "set (tcids L t) \<subseteq> range (cid_for L)" "set (ecids L e) \<subseteq> range (cid_for L)" for t e
    by (induction t and e) auto
  then have "set (tcids L s) \<subseteq> dom M" unfolding M_def dom_def by (auto split: if_splits)
  ultimately have "stored L M s" using stored_iff_dom(1) [OF c(2)] by blast
  then show ?thesis by (rule distinct_tcids(1) [OF c(1) _ s])
qed

lemma count_distinct: "distinct xs \<Longrightarrow> count_list xs c \<le> 1"
  by (induction xs) (auto simp: count_list_0_iff)

lemma node_visited_once:
  assumes "codec_ok L" "no_collision L" "tree_wf L n s" "keys_sorted (tleaves s)" "c \<notin> lvalue ` set (tleaves s)"
  shows "count_list (flat L s) c \<le> 1"
  using count_distinct [OF distinct_nodes [OF assms(1-4)]] count_flat(1) [OF assms(5), of L] by simp

text \<open>C9: \<open>Mst::dropped\<close>, on the trees of the records \<open>ps\<close> before and \<open>qs\<close> after (\<open>s\<close> and \<open>u\<close> are
  the nodes the protocol gives those records), returns. Every block it lists is one the tree before
  reached, every block the tree before reached and this one does not is listed, and of the tree's
  own nodes exactly those the new tree does not have are listed.\<close>

theorem dropped_correct:
  assumes "codec_ok L" "layers_ok L" "no_collision L"
    and "holds L (map_of m) prev (records_of s)" "tree_wf L j s" "trimmed s"
    and "holds L (map_of m) t (records_of u)" "tree_wf L k u" "trimmed u"
  shows "\<exists>D. dropped L (bm_store m) t prev = Some (Inr D)
    \<and> D \<subseteq> set (flat L s) \<and> set (flat L s) - set (flat L u) \<subseteq> D
    \<and> (\<forall>c \<in> set (tcids L s). c \<notin> lvalue ` (set (tleaves s) \<union> set (tleaves u)) \<longrightarrow> (c \<in> D \<longleftrightarrow> c \<notin> set (tcids L u)))"
proof -
  obtain n1 where p: "ready L (map_of m) n1 prev s {}" "n1 \<le> 128" "s = Node [] \<Longrightarrow> n1 = 0"
    using holds_canonical [OF assms(4,2,5,6)] by blast
  obtain n2 where q: "ready L (map_of m) n2 t u {}" "n2 \<le> 128" "u = Node [] \<Longrightarrow> n2 = 0"
    using holds_canonical [OF assms(7,2,8,9)] by blast
  obtain d where d: "dropped L (bm_store m) t prev = Some (Inr (d_removed d))"
      "mv\<^sup>*\<^sup>* (flat L s, flat L u, diff_default) ([], [], d)"
    using bm.dropped_ok [OF assms(1,3) p q] by blast
  have "c \<in> d_removed d \<longleftrightarrow> c \<notin> set (tcids L u)"
    if "c \<in> set (tcids L s)" "c \<notin> lvalue ` (set (tleaves s) \<union> set (tleaves u))" for c
    using walk_result(3) [OF d(2)] node_visited_once [OF assms(1,3), of _ s c] node_visited_once [OF assms(1,3), of _ u c]
      p(1) q(1) that by (auto simp: ready_def set_flat)
  with d(1) walk_result(1,2) [OF d(2)] show ?thesis by blast
qed

definition one_record :: "string tree" where
  "one_record = Node [TL \<lparr>lkey = ''c/d'', lvalue = ''2''\<rparr>]"

definition two_records :: "string tree" where
  "two_records = Node [TL \<lparr>lkey = ''a/b'', lvalue = ''1''\<rparr>, TL \<lparr>lkey = ''c/d'', lvalue = ''2''\<rparr>]"

lemma one_record_holds:
  "holds toy_lib M (from_entries [ELeaf \<lparr>lkey = ''c/d'', lvalue = v\<rparr>] (Some 0)) [(''c/d'', v)]"
  unfolding holds_def
  by (rule exI [of _ 0], rule exI [of _ "Node [TL \<lparr>lkey = ''c/d'', lvalue = v\<rparr>]"])
    (simp add: ready_from_entries hint_def readys_def toy_zeros valid_keys)

theorem dropped_correct_witness:
  "\<exists>D. dropped toy_lib (bm_store []) (from_entries [ELeaf \<lparr>lkey = ''c/d'', lvalue = ''2''\<rparr>] (Some 0)) toy_tree = Some (Inr D)
    \<and> D \<subseteq> set (flat toy_lib two_records) \<and> set (flat toy_lib two_records) - set (flat toy_lib one_record) \<subseteq> D"
proof -
  have r: "records_of two_records = [(''a/b'', ''1''), (''c/d'', ''2'')]" "records_of one_record = [(''c/d'', ''2'')]"
    by (simp_all add: one_record_def two_records_def)
  have w: "tree_wf toy_lib 0 two_records" "trimmed two_records" "tree_wf toy_lib 0 one_record" "trimmed one_record"
    by (simp_all add: one_record_def two_records_def toy_zeros valid_keys)
  from dropped_correct [OF toy_ok, OF _ w(1,2) _ w(3,4), unfolded r, OF toy_holds one_record_holds]
  show ?thesis by blast
qed

text \<open>The walk on nodes of leaves alone, one turn at a time.\<close>

definition leaf_node :: "'c leaf list \<Rightarrow> 'c option \<Rightarrow> 'c mst" where
  "leaf_node ls p = Mst (Some (map ELeaf ls)) (Some 0) p"

definition in_leaves :: "'c leaf list \<Rightarrow> nat \<Rightarrow> 'c walker" where
  "in_leaves ls i = \<lparr>wk_seen = {}, wk_stack = [\<lparr>lv_entries = map ELeaf ls, lv_index = i, lv_layer = 0\<rparr>],
     wk_cursor = CNode, wk_above = Suc 0\<rparr>"

lemma walk_leaf_nodes:
  assumes "root_in MAX_DEPTH L st (leaf_node ls None) {} = Inr (a, leaf_node ls (Some a), {})"
    and "root_in MAX_DEPTH L st (leaf_node ks None) {} = Inr (b, leaf_node ks (Some b), {})"
    and "ls \<noteq> []" "ks \<noteq> []" "a \<noteq> b"
  shows "dropped L st (leaf_node ks None) (leaf_node ls None)
    = map_option (\<lambda>r. bindE r (\<lambda>d. Inr (d_removed d)))
        (walk_loop L st (in_leaves ls 0, in_leaves ks 0, diff_add b (diff_remove a diff_default)))"
proof -
  obtain d where d: "MAX_DEPTH = Suc d" by (simp add: MAX_DEPTH_def)
  have layer: "layer_in MAX_DEPTH L st (leaf_node ls p) {} = Inr (0, leaf_node ls p, {})" for ls p
    unfolding d by (simp add: layer_in_def leaf_node_def Let_def)
  let ?w = "\<lambda>t. \<lparr>wk_seen = {}, wk_stack = [], wk_cursor = CRoot t, wk_above = Suc 0\<rparr>"
  have new: "walker_new L st (leaf_node ls p) = Inr (?w (leaf_node ls p))" for ls p
    by (simp add: walker_new_def layer)
  have lev: "level_of L st (leaf_node ls p) {} = Inr (\<lparr>lv_entries = map ELeaf ls, lv_index = 0, lv_layer = 0\<rparr>, leaf_node ls p, {})"
    for ls p
    by (simp add: level_of_def layer) (simp add: leaf_node_def entries_in_def fill_def the_entries_def)
  have into: "step_into L st (?w (leaf_node ls p)) = Inr (in_leaves ls 0)" if "ls \<noteq> []" for ls p
    unfolding step_into_def d using that
    by (simp add: lev enter_def walker_entry_def getopt_def Let_def in_leaves_def)
  show ?thesis
    using assms unfolding dropped_def
    by (subst walk_loop.simps)
      (simp add: new into walk_step_def walker_at_def walk_turn_def walker_layer_def both_trees_def walker_cid_def Let_def)
qed

text \<open>\<open>dropped\<close> can list a block its tree still reaches. With one record's bytes under two
  keys, deleting the first of them lists the record's CID, which the second still has: the walk
  takes the CID off its list only where it meets it again after a change, and the second key did
  not change.\<close>

theorem dropped_lists_live_record:
  "\<exists>D. dropped toy_lib (bm_store []) (from_entries [ELeaf \<lparr>lkey = ''c/d'', lvalue = ''1''\<rparr>] (Some 0))
        (from_entries [ELeaf \<lparr>lkey = ''a/b'', lvalue = ''1''\<rparr>, ELeaf \<lparr>lkey = ''c/d'', lvalue = ''1''\<rparr>] (Some 0))
      = Some (Inr D) \<and> ''1'' \<in> D
    \<and> holds toy_lib (map_of []) (from_entries [ELeaf \<lparr>lkey = ''c/d'', lvalue = ''1''\<rparr>] (Some 0)) [(''c/d'', ''1'')]"
proof -
  let ?l = "\<lparr>lkey = ''a/b'', lvalue = ''1''\<rparr>" and ?k = "\<lparr>lkey = ''c/d'', lvalue = ''1''\<rparr>"
  let ?a = "tcid toy_lib (Node [TL ?l, TL ?k])" and ?b = "tcid toy_lib (Node [TL ?k])"
  obtain d where d: "MAX_DEPTH = Suc d" by (simp add: MAX_DEPTH_def)
  have r: "root_in MAX_DEPTH toy_lib (bm_store []) (leaf_node [?l, ?k] None) {} = Inr (?a, leaf_node [?l, ?k] (Some ?a), {})"
      "root_in MAX_DEPTH toy_lib (bm_store []) (leaf_node [?k] None) {} = Inr (?b, leaf_node [?k] (Some ?b), {})"
    unfolding d by (simp_all add: leaf_node_def entries_in_def fill_def the_entries_def Let_def ensure_valid valid_keys encode_node [OF toy_codec])
  have ne: "?a \<noteq> ?b"
    using tcid_inj(1) [OF toy_codec toy_no_collision, of 0 "Node [TL ?l, TL ?k]" 0 "Node [TL ?k]"]
    by (auto simp: toy_zeros valid_keys simp del: tcid.simps)
  have first: "hd ?b = CHR 0x80 \<or> hd ?b = CHR 0x08" by (simp add: cid_for_def toy_lib_def)
  then have b1: "?b \<noteq> ''1''" by auto
  have "walk_loop toy_lib (bm_store []) (in_leaves [?l, ?k] 0, in_leaves [?k] 0, e)
      = Some (Inr (diff_remove ''1'' e))" for e
    by (subst walk_loop.simps, simp add: in_leaves_def walk_step_def walker_at_def walker_entry_def getopt_def walk_turn_def Let_def
        walker_key_def key_less_def drop_left_def walker_cid_def advance_def step_over_def both_leaves_def less_char_def)+
  moreover have "''1'' \<in> d_removed (diff_remove ''1'' (diff_add ?b (diff_remove ?a diff_default)))"
    using b1 by (simp add: diff_remove_def diff_add_def diff_default_def)
  ultimately show ?thesis
    using walk_leaf_nodes [OF r _ _ ne] one_record_holds by (simp add: leaf_node_def from_entries_def)
qed

end
