(* ===== verification/Json.thy ===== *)
theory Json
  imports Block
begin

text \<open>
  Records, and records as JSON: \<open>src/repo/json.rs\<close>. \<open>Ipld\<close> is the data model of the
  \<open>ipld_core\<close> crate and \<open>Value\<close> that of \<open>serde_json\<close>; an object is its entries in key order,
  which both crates keep. A float is its 64 bits. Base 64 and the text of a CID are parameters.
\<close>

section \<open>Values\<close>

datatype 'c ipld =
    INull
  | IBool bool
  | IInteger int
  | IFloat nat
  | IString string
  | IBytes bytes
  | IList "'c ipld list"
  | IMap "(string \<times> 'c ipld) list"
  | ILink 'c

datatype number = NInt int | NFloat nat

datatype json =
    JNull
  | JBool bool
  | JNumber number
  | JString string
  | JArray "json list"
  | JObject "(string \<times> json) list"

record 'c json_lib =
  base64_encode :: "bytes \<Rightarrow> string"
  base64_decode :: "string \<Rightarrow> bytes option"
  cid_to_string :: "'c \<Rightarrow> string"
  cid_parse :: "string \<Rightarrow> 'c option"

definition LINK :: string where "LINK = ''$link''"
definition BYTES :: string where "BYTES = ''$bytes''"

definition in_i64 :: "int \<Rightarrow> bool" where
  "in_i64 n \<longleftrightarrow> - (2 ^ 63) \<le> n \<and> n < 2 ^ 63"

fun as_i64 :: "number \<Rightarrow> int option" where
  "as_i64 (NInt n) = (if in_i64 n then Some n else None)"
| "as_i64 (NFloat _) = None"


section \<open>Translations\<close>

definition tagged :: "string \<Rightarrow> string \<Rightarrow> json" where
  "tagged key held = JObject [(key, JString held)]"

fun reserved :: "(string \<times> 'v) list \<Rightarrow> (string \<times> 'v) option" where
  "reserved [(k, v)] = (if k = LINK \<or> k = BYTES then Some (k, v) else None)"
| "reserved _ = None"

lemma size_pair_ipld [termination_simp]: "(k, v) \<in> set fs \<Longrightarrow> size v < Suc (size_list (size_prod (\<lambda>_. 0) size) fs)"
  by (induction fs) auto

fun to_json :: "'c json_lib \<Rightarrow> 'c ipld \<Rightarrow> 'c repo_error + json" where
  "to_json J INull = Inr JNull"
| "to_json J (IBool b) = Inr (JBool b)"
| "to_json J (IInteger n) =
     (if in_i64 n then Inr (JNumber (NInt n)) else Inl (NotRecordData ''an integer past 64 bits''))"
| "to_json J (IFloat _) = Inl (NotRecordData ''a float'')"
| "to_json J (IString s) = Inr (JString s)"
| "to_json J (IBytes b) = Inr (tagged BYTES (base64_encode J b))"
| "to_json J (IList xs) = bindE (mapE (to_json J) xs) (\<lambda>vs. Inr (JArray vs))"
| "to_json J (IMap fs) =
     bindE (mapE (\<lambda>(k, v). bindE (to_json J v) (\<lambda>w. Inr (k, w))) fs) (\<lambda>vs. Inr (JObject vs))"
| "to_json J (ILink c) = Inr (tagged LINK (cid_to_string J c))"

fun from_json :: "'c json_lib \<Rightarrow> json \<Rightarrow> 'c repo_error + 'c ipld" where
  "from_json J JNull = Inr INull"
| "from_json J (JBool b) = Inr (IBool b)"
| "from_json J (JNumber n) =
     bindE (ok_or (NotRecordData ''a number that is not an integer'') (as_i64 n)) (\<lambda>n. Inr (IInteger n))"
| "from_json J (JString s) = Inr (IString s)"
| "from_json J (JArray vs) = bindE (mapE (from_json J) vs) (\<lambda>xs. Inr (IList xs))"
| "from_json J (JObject fs) =
     (case reserved fs of
        Some (k, JString held) \<Rightarrow>
          if k = LINK
          then bindE (ok_or (NotRecordData ''a $link that is not a CID'') (cid_parse J held)) (\<lambda>c. Inr (ILink c))
          else bindE (ok_or (NotRecordData ''a $bytes that is not base64'') (base64_decode J held)) (\<lambda>b. Inr (IBytes b))
      | Some _ \<Rightarrow> Inl (NotRecordData ''a $link or $bytes holding no string'')
      | None \<Rightarrow>
          bindE (mapE (\<lambda>(k, v). bindE (from_json J v) (\<lambda>w. Inr (k, w))) fs) (\<lambda>xs. Inr (IMap xs)))"


section \<open>What survives the translation\<close>

text \<open>Numbers JSON can carry and no map that reads as a link or a byte string.\<close>

fun renderable :: "'c ipld \<Rightarrow> bool" where
  "renderable (IInteger n) = in_i64 n"
| "renderable (IFloat _) = False"
| "renderable (IList xs) = list_all renderable xs"
| "renderable (IMap fs) = list_all (\<lambda>(k, v). renderable v) fs"
| "renderable _ = True"

fun plain :: "'c ipld \<Rightarrow> bool" where
  "plain (IList xs) = list_all plain xs"
| "plain (IMap fs) = (reserved fs = None \<and> list_all (\<lambda>(k, v). plain v) fs)"
| "plain _ = True"

definition json_ok :: "'c json_lib \<Rightarrow> bool" where
  "json_ok J \<longleftrightarrow> (\<forall>b. base64_decode J (base64_encode J b) = Some b) \<and> (\<forall>c. cid_parse J (cid_to_string J c) = Some c)"


lemma mapE_inverse:
  assumes "\<And>x. x \<in> set xs \<Longrightarrow> \<exists>v. f x = Inr v \<and> g v = Inr x"
  shows "\<exists>vs. mapE f xs = Inr vs \<and> mapE g vs = Inr xs"
  using assms by (induction xs) fastforce+

lemma reserved_keys: "map fst fs = map fst gs \<Longrightarrow> reserved fs = None \<longleftrightarrow> reserved gs = None"
  by (cases fs rule: reserved.cases; cases gs rule: reserved.cases) auto

lemma mapE_keys:
  "mapE (\<lambda>(k, v). bindE (f v) (\<lambda>w. Inr (k, w))) fs = Inr gs \<Longrightarrow> map fst fs = map fst gs"
  by (induction fs arbitrary: gs) (auto simp: result_simps)

lemma from_to_json:
  assumes "json_ok J"
  shows "renderable r \<Longrightarrow> plain r \<Longrightarrow> \<exists>v. to_json J r = Inr v \<and> from_json J v = Inr r"
proof (induction r)
  case (IList xs)
  then have "\<exists>v. to_json J x = Inr v \<and> from_json J v = Inr x" if "x \<in> set xs" for x
    using that by (simp add: list_all_iff)
  then obtain vs where "mapE (to_json J) xs = Inr vs" "mapE (from_json J) vs = Inr xs"
    using mapE_inverse [of xs "to_json J" "from_json J"] by blast
  then show ?case by simp
next
  case (IMap fs)
  let ?f = "\<lambda>(k, v). bindE (to_json J v) (\<lambda>w. Inr (k, w))" and ?g = "\<lambda>(k, v). bindE (from_json J v) (\<lambda>w. Inr (k, w))"
  have "\<exists>q. ?f p = Inr q \<and> ?g q = Inr p" if p: "p \<in> set fs" for p
  proof -
    obtain k x where kx: "p = (k, x)" by fastforce
    then have "renderable x" "plain x" using IMap.prems p by (auto simp: list_all_iff)
    then obtain v where "to_json J x = Inr v" "from_json J v = Inr x"
      using IMap.IH [OF p, of x] kx by auto
    then show ?thesis using kx by auto
  qed
  from mapE_inverse [OF this] obtain gs where g: "mapE ?f fs = Inr gs" "mapE ?g gs = Inr fs" by blast
  then have "reserved gs = None" using reserved_keys mapE_keys [OF g(1)] IMap.prems(2) by auto
  with g show ?case by simp
qed (use assms in \<open>auto simp: json_ok_def tagged_def LINK_def BYTES_def\<close>)

lemma from_json_clean: "from_json J v = Inr r \<Longrightarrow> renderable r \<and> plain r"
proof (induction J v arbitrary: r rule: from_json.induct)
  case (3 J n)
  then show ?case by (cases n) (auto split: if_splits)
next
  case (5 J vs)
  then obtain xs where xs: "r = IList xs" "mapE (from_json J) vs = Inr xs"
    by (auto simp: result_simps)
  then have "\<forall>x \<in> set xs. renderable x \<and> plain x" using "5.IH" mapE_Inr_from [OF xs(2)] by blast
  with xs(1) show ?case by (simp add: list_all_iff)
next
  case (6 J fs)
  show ?case
  proof (cases "reserved fs")
    case None
    then obtain xs where xs: "r = IMap xs" "mapE (\<lambda>(k, v). bindE (from_json J v) (\<lambda>w. Inr (k, w))) fs = Inr xs"
      using "6.prems" by (auto simp: result_simps)
    have "renderable x \<and> plain x" if p: "(k, x) \<in> set xs" for k x
    proof -
      obtain k' v where "(k', v) \<in> set fs" "bindE (from_json J v) (\<lambda>w. Inr (k', w)) = Inr (k, x)"
        using mapE_Inr_from [OF xs(2) p] by auto
      then show ?thesis using "6.IH" [OF None, of "(k', v)" k' v x] by (auto simp: result_simps)
    qed
    moreover have "reserved xs = None" using None reserved_keys mapE_keys [OF xs(2)] by blast
    ultimately show ?thesis using xs(1) by (auto simp: list_all_iff)
  next
    case (Some p)
    with "6.prems" show ?thesis by (auto simp: result_simps split: prod.splits json.splits if_splits)
  qed
qed auto

lemma to_json_renderable: "to_json J r = Inr v \<Longrightarrow> renderable r"
proof (induction J r arbitrary: v rule: to_json.induct)
  case (7 J xs)
  then obtain vs where vs: "mapE (to_json J) xs = Inr vs" by (auto simp: result_simps)
  have "renderable x" if "x \<in> set xs" for x
    using mapE_Inr_to [OF vs that] "7.IH" [OF that] by blast
  then show ?case by (simp add: list_all_iff)
next
  case (8 J fs)
  then obtain gs where g: "mapE (\<lambda>(k, v). bindE (to_json J v) (\<lambda>w. Inr (k, w))) fs = Inr gs"
    by (auto simp: result_simps)
  have "renderable x" if p: "(k, x) \<in> set fs" for k x
  proof -
    obtain q where "bindE (to_json J x) (\<lambda>w. Inr (k, w)) = Inr q" using mapE_Inr_to [OF g p] by auto
    then obtain w where "to_json J x = Inr w" by (auto simp: result_simps)
    then show ?thesis by (rule "8.IH" [OF p refl])
  qed
  then show ?case by (auto simp: list_all_iff)
qed (auto split: if_splits)

lemma mapE_Inl_from: "mapE f xs = Inl e \<Longrightarrow> \<exists>x \<in> set xs. f x = Inl e"
  by (induction xs) (auto simp: result_simps)

lemma to_json_error: "to_json J r = Inl e \<Longrightarrow> error_sent e"
proof (induction J r rule: to_json.induct)
  case (7 J xs)
  then show ?case using mapE_Inl_from [of "to_json J" xs e] by (auto simp: result_simps)
next
  case (8 J fs)
  then have "mapE (\<lambda>(k, v). bindE (to_json J v) (\<lambda>w. Inr (k, w))) fs = Inl e" by (simp add: result_simps)
  from mapE_Inl_from [OF this] show ?case using "8.IH" by (auto simp: result_simps)
qed (auto split: if_splits)

lemma mapE_some: "(\<And>x. x \<in> set xs \<Longrightarrow> \<exists>v. f x = Inr v) \<Longrightarrow> \<exists>vs. mapE f xs = Inr vs"
  by (induction xs) fastforce+

lemma renderable_shown: "renderable r \<Longrightarrow> \<exists>v. to_json J r = Inr v"
proof (induction r)
  case (IList xs)
  then have "\<exists>vs. mapE (to_json J) xs = Inr vs" by (intro mapE_some) (simp add: list_all_iff)
  then show ?case by auto
next
  case (IMap fs)
  have "\<exists>q. bindE (to_json J x) (\<lambda>w. Inr (k, w)) = Inr q" if p: "(k, x) \<in> set fs" for k x
  proof -
    have "renderable x" using IMap.prems p by (auto simp: list_all_iff)
    then obtain v where "to_json J x = Inr v" using IMap.IH [OF p, of x] by auto
    then show ?thesis by simp
  qed
  then have "\<exists>gs. mapE (\<lambda>(k, v). bindE (to_json J v) (\<lambda>w. Inr (k, w))) fs = Inr gs"
    by (intro mapE_some) auto
  then show ?case by auto
qed auto

text \<open>C18: a record is shown as JSON exactly when it holds no float and no integer past 64 bits, and
  otherwise refused with the error that blames the sender. What is shown reads back as the same
  record exactly when no map in it has a lone \<open>$link\<close> or \<open>$bytes\<close> for its key, and every record
  read from JSON is of both kinds, so that it is shown and read back as itself.\<close>

theorem json_roundtrip:
  assumes "json_ok J"
  shows "(if renderable r then \<exists>v. to_json J r = Inr v \<and> (from_json J v = Inr r \<longleftrightarrow> plain r)
      else \<exists>e. to_json J r = Inl e \<and> error_sent e)
    \<and> (from_json J w = Inr r \<longrightarrow> renderable r \<and> plain r)"
proof (intro conjI impI)
  show "if renderable r then \<exists>v. to_json J r = Inr v \<and> (from_json J v = Inr r \<longleftrightarrow> plain r)
      else \<exists>e. to_json J r = Inl e \<and> error_sent e"
  proof (cases "renderable r")
    case True
    then obtain v where v: "to_json J r = Inr v" using renderable_shown by blast
    have "from_json J v = Inr r \<longleftrightarrow> plain r"
      using from_to_json [OF assms True] from_json_clean [of J v r] v by auto
    then show ?thesis using True v by simp
  next
    case False
    then show ?thesis using to_json_renderable [of J r] to_json_error [of J r] by (cases "to_json J r") auto
  qed
qed (use from_json_clean in blast)+

text \<open>every record the server reads from a client's JSON is shown again, as JSON that reads back
  as that record.\<close>

theorem accepted_json_is_shown:
  assumes "json_ok J" "from_json J v = Inr r"
  shows "\<exists>v'. to_json J r = Inr v' \<and> from_json J v' = Inr r"
  using from_to_json [OF assms(1)] from_json_clean [OF assms(2)] by blast

definition toy_json :: "string json_lib" where
  "toy_json = \<lparr>base64_encode = id, base64_decode = Some, cid_to_string = id, cid_parse = Some\<rparr>"

lemma toy_json_ok: "json_ok toy_json"
  by (simp add: json_ok_def toy_json_def)

theorem json_roundtrip_witness:
  "(\<exists>v. to_json toy_json (IMap [(''n'', IInteger 3), (''subject'', ILink ''c'')]) = Inr v
     \<and> from_json toy_json v = Inr (IMap [(''n'', IInteger 3), (''subject'', ILink ''c'')]))
   \<and> (\<exists>v. to_json toy_json (IMap [(''$link'', IString ''c'')]) = Inr v
     \<and> from_json toy_json v \<noteq> Inr (IMap [(''$link'', IString ''c'')]))"
  using json_roundtrip [OF toy_json_ok, of "IMap [(''n'', IInteger 3), (''subject'', ILink ''c'')]"]
    json_roundtrip [OF toy_json_ok, of "IMap [(''$link'', IString ''c'')]"]
  by (simp add: in_i64_def LINK_def BYTES_def)

theorem accepted_json_is_shown_witness:
  "\<exists>v'. to_json toy_json (ILink ''c'') = Inr v' \<and> from_json toy_json v' = Inr (ILink ''c'')"
  by (rule accepted_json_is_shown [OF toy_json_ok, where v = "JObject [(''$link'', JString ''c'')]"])
    (simp add: LINK_def toy_json_def)

end
