(* ===== verification/Repo.thy ===== *)
theory Repo
  imports Mst_Dropped Json
begin

text \<open>
  Repositories: commits (\<open>src/repo/commit.rs\<close>) and the writes that move a repository from one
  revision to the next (\<open>Write\<close> and \<open>Repo\<close> of \<open>src/repo.rs\<close>).

  The CBOR encodings of records and commits are further fields of the library record; keys sign
  and verify through \<open>Crypto\<close>. An operation that mints a revision takes the time it is and the
  clock, and returns the clock it leaves.
\<close>

section \<open>Commits\<close>

record 'c commit =
  c_did :: did
  c_version :: nat
  c_data :: 'c
  c_rev :: tid
  c_prev :: "'c option"
  c_sig :: bytes

record 'c unsigned =
  u_did :: did
  u_version :: nat
  u_data :: 'c
  u_rev :: tid
  u_prev :: "'c option"

record 'c repo_lib = "'c mst_lib" +
  ipld_to_vec :: "'c ipld \<Rightarrow> string + bytes"
  commit_to_vec :: "'c commit \<Rightarrow> string + bytes"
  commit_from_slice :: "bytes \<Rightarrow> string + 'c commit"
  unsigned_to_vec :: "'c unsigned \<Rightarrow> string + bytes"

definition VERSION :: nat where "VERSION = 3"

definition commit_sign ::
    "('c, 'l) repo_lib_scheme \<Rightarrow> ('sk, 'vk, 'sg) crypto_lib \<Rightarrow> did \<Rightarrow> tid \<Rightarrow> 'c \<Rightarrow> 'sk keypair
      \<Rightarrow> 'c repo_error + 'c commit" where
  "commit_sign L C did rv data key =
     bindE (encode (unsigned_to_vec L) \<lparr>u_did = did, u_version = VERSION, u_data = data, u_rev = rv, u_prev = None\<rparr>) (\<lambda>b.
     Inr \<lparr>c_did = did, c_version = VERSION, c_data = data, c_rev = rv, c_prev = None, c_sig = sign C key b\<rparr>)"

definition commit_verify ::
    "('c, 'l) repo_lib_scheme \<Rightarrow> ('sk, 'vk, 'sg) crypto_lib \<Rightarrow> 'c commit \<Rightarrow> 'vk public_key \<Rightarrow> 'c repo_error + unit" where
  "commit_verify L C c key =
     (if c_version c \<noteq> VERSION then Inl (WrongVersion (c_version c))
      else
        bindE (encode (unsigned_to_vec L) \<lparr>u_did = c_did c, u_version = c_version c, u_data = c_data c,
                 u_rev = c_rev c, u_prev = c_prev c\<rparr>) (\<lambda>b.
        map_err SignatureError (verify C key b (c_sig c))))"


section \<open>Writes\<close>

datatype 'c repo_write =
    Create nsid record_key "'c ipld"
  | Update nsid record_key "'c ipld"
  | Put nsid record_key "'c ipld"
  | Delete nsid record_key

fun write_target :: "'c repo_write \<Rightarrow> nsid \<times> record_key" where
  "write_target (Create n k _) = (n, k)"
| "write_target (Update n k _) = (n, k)"
| "write_target (Put n k _) = (n, k)"
| "write_target (Delete n k) = (n, k)"

fun write_record :: "'c repo_write \<Rightarrow> 'c ipld option" where
  "write_record (Create _ _ r) = Some r"
| "write_record (Update _ _ r) = Some r"
| "write_record (Put _ _ r) = Some r"
| "write_record (Delete _ _) = None"

definition write_key :: "'c repo_write \<Rightarrow> string" where
  "write_key w = (case write_target w of (n, k) \<Rightarrow> nsid_str n @ CHR ''/'' # record_key_str k)"

text \<open>The check \<open>apply\<close> starts with: a map has to name the collection it is in.\<close>

definition names_collection :: "'c repo_write \<Rightarrow> bool" where
  "names_collection w =
     (case write_record w of
        Some (IMap fs) \<Rightarrow>
          (case map_of fs ''$type'' of
             Some (IString named) \<Rightarrow> named = nsid_str (fst (write_target w))
           | _ \<Rightarrow> False)
      | _ \<Rightarrow> True)"


section \<open>Repositories\<close>

record 'c repo =
  r_cid :: 'c
  r_commit :: "'c commit"
  r_data :: "'c mst"

definition repo_create ::
    "('c::linorder, 'l) repo_lib_scheme \<Rightarrow> ('sk, 'vk, 'sg) crypto_lib \<Rightarrow> did \<Rightarrow> 'sk keypair \<Rightarrow> nat option \<Rightarrow> clock
      \<Rightarrow> ('c repo_error + ('c repo \<times> 'c block_map)) \<times> clock" where
  "repo_create L C did key since clk =
     (case unstored_blocks L (bm_store []) mst_empty of
        Inl e \<Rightarrow> (Inl e, clk)
      | Inr ((root, blocks), data) \<Rightarrow>
          let (rv, clk) = mint since clk in
          (bindE (commit_sign L C did rv root key) (\<lambda>commit.
           bindE (bm_add L (commit_to_vec L) commit blocks) (\<lambda>(cid, blocks).
           Inr (\<lparr>r_cid = cid, r_commit = commit, r_data = data\<rparr>, blocks))), clk))"

definition repo_load ::
    "('c, 'l) repo_lib_scheme \<Rightarrow> 'c store \<Rightarrow> 'c \<Rightarrow> 'c repo_error + 'c repo" where
  "repo_load L st cid =
     bindE (read_block st (commit_from_slice L) cid) (\<lambda>commit.
     Inr \<lparr>r_cid = cid, r_commit = commit, r_data = mst_load (c_data commit)\<rparr>)"

text \<open>One turn of the loop over the writes: the records encoded so far, the keys they end at, and
  the tree.\<close>

type_synonym 'c writing = "'c block_map \<times> (string \<times> 'c) list \<times> 'c mst"

definition add_record ::
    "('c::linorder, 'l) repo_lib_scheme \<Rightarrow> 'c ipld \<Rightarrow> string \<Rightarrow> ('c mst \<Rightarrow> 'c \<Rightarrow> 'c repo_error + 'c mst) \<Rightarrow> 'c writing
      \<Rightarrow> 'c repo_error + 'c writing" where
  "add_record L rec key f s =
     (case s of (encoded, leaves, data) \<Rightarrow>
        bindE (bm_add L (ipld_to_vec L) rec encoded) (\<lambda>(cid, encoded).
        bindE (f data cid) (\<lambda>data. Inr (encoded, al_upd key cid leaves, data))))"

definition apply_write ::
    "('c::linorder, 'l) repo_lib_scheme \<Rightarrow> 'c store \<Rightarrow> 'c repo_write \<Rightarrow> 'c writing \<Rightarrow> 'c repo_error + 'c writing" where
  "apply_write L st w s =
     (let key = write_key w in
      case w of
        Create _ _ r \<Rightarrow> add_record L r key (\<lambda>data cid. mst_add L st data key cid) s
      | Update _ _ r \<Rightarrow> add_record L r key (\<lambda>data cid. mst_update L st data key cid) s
      | Put _ _ r \<Rightarrow>
          add_record L r key (\<lambda>data cid.
            bindE (mst_get L st data key) (\<lambda>(found, data).
            if found \<noteq> None then mst_update L st data key cid else mst_add L st data key cid)) s
      | Delete _ _ \<Rightarrow>
          (case s of (encoded, leaves, data) \<Rightarrow>
             bindE (mst_delete L st data key) (\<lambda>data. Inr (encoded, al_del key leaves, data))))"

fun apply_writes ::
    "('c::linorder, 'l) repo_lib_scheme \<Rightarrow> 'c store \<Rightarrow> 'c repo_write list \<Rightarrow> 'c writing \<Rightarrow> 'c repo_error + 'c writing" where
  "apply_writes L st [] s = Inr s"
| "apply_writes L st (w # ws) s = bindE (apply_write L st w s) (apply_writes L st ws)"

text \<open>The blocks of the records that keys still end at.\<close>

fun leaf_blocks ::
    "'c::linorder block_map \<Rightarrow> (string \<times> 'c) list \<Rightarrow> 'c block_map \<Rightarrow> 'c repo_error + 'c block_map" where
  "leaf_blocks encoded [] blocks = Inr blocks"
| "leaf_blocks encoded ((_, cid) # leaves) blocks =
     bindE (bm_get encoded cid) (\<lambda>b. leaf_blocks encoded leaves (bm_insert cid b blocks))"

text \<open>What is there before the commit is signed: the blocks, the root, the tree and what it dropped.\<close>

definition prepare ::
    "('c::linorder, 'l) repo_lib_scheme \<Rightarrow> 'c store \<Rightarrow> 'c repo \<Rightarrow> 'c repo_write list
      \<Rightarrow> ('c repo_error + ('c block_map \<times> 'c \<times> 'c mst \<times> 'c list)) option" where
  "prepare L st r ws =
     (case (if list_all names_collection ws then Inr () else Inl (NotRecordData ''a record that names no collection'')) of
        Inl e \<Rightarrow> Some (Inl e)
      | Inr _ \<Rightarrow>
     (case apply_writes L st ws ([], [], r_data r) of
        Inl e \<Rightarrow> Some (Inl e)
      | Inr (encoded, leaves, data) \<Rightarrow>
     (case leaf_blocks encoded leaves [] of
        Inl e \<Rightarrow> Some (Inl e)
      | Inr blocks \<Rightarrow>
     (case unstored_blocks L st data of
        Inl e \<Rightarrow> Some (Inl e)
      | Inr ((root, tree), data) \<Rightarrow>
          map_option (\<lambda>d. bindE d (\<lambda>d. Inr (bm_merge blocks tree, root, data, sorted_list_of_set d)))
            (dropped L st data (r_data r))))))"

definition repo_apply ::
    "('c::linorder, 'l) repo_lib_scheme \<Rightarrow> ('sk, 'vk, 'sg) crypto_lib \<Rightarrow> 'c store \<Rightarrow> 'c repo \<Rightarrow> 'c repo_write list
      \<Rightarrow> 'sk keypair \<Rightarrow> nat option \<Rightarrow> clock
      \<Rightarrow> (('c repo_error + ('c block_map \<times> 'c list \<times> 'c repo)) \<times> clock) option" where
  "repo_apply L C st r ws key since clk =
     map_option (\<lambda>p.
       case p of
         Inl e \<Rightarrow> (Inl e, clk)
       | Inr (blocks, root, data, drops) \<Rightarrow>
           let (rv, clk) = mint_after since (c_rev (r_commit r)) clk in
           (bindE (ok_or (NoRevisionAfter (c_rev (r_commit r))) rv) (\<lambda>rv.
            bindE (commit_sign L C (c_did (r_commit r)) rv root key) (\<lambda>commit.
            bindE (bm_add L (commit_to_vec L) commit blocks) (\<lambda>(cid, blocks).
            Inr (blocks, if cid \<noteq> r_cid r then drops @ [r_cid r] else drops,
                 \<lparr>r_cid = cid, r_commit = commit, r_data = data\<rparr>)))), clk))
       (prepare L st r ws)"

definition repo_get ::
    "('c, 'l) repo_lib_scheme \<Rightarrow> 'c store \<Rightarrow> 'c repo \<Rightarrow> nsid \<Rightarrow> record_key \<Rightarrow> 'c repo_error + ('c option \<times> 'c repo)" where
  "repo_get L st r n k =
     bindE (mst_get L st (r_data r) (nsid_str n @ CHR ''/'' # record_key_str k)) (\<lambda>(found, data).
     Inr (found, r\<lparr>r_data := data\<rparr>))"

definition repo_proof ::
    "('c, 'l) repo_lib_scheme \<Rightarrow> 'c store \<Rightarrow> 'c repo \<Rightarrow> nsid \<Rightarrow> record_key \<Rightarrow> 'c repo_error + ('c list \<times> 'c repo)" where
  "repo_proof L st r n k =
     bindE (cids_for_path L st (r_data r) (nsid_str n @ CHR ''/'' # record_key_str k)) (\<lambda>(found, data).
     Inr (found, r\<lparr>r_data := data\<rparr>))"

definition repo_records ::
    "('c, 'l) repo_lib_scheme \<Rightarrow> 'c store \<Rightarrow> 'c repo \<Rightarrow> 'c repo_error + ('c leaf list \<times> 'c repo)" where
  "repo_records L st r =
     bindE (mst_leaves L st (r_data r)) (\<lambda>(found, data). Inr (found, r\<lparr>r_data := data\<rparr>))"

definition repo_verify ::
    "('c, 'l) repo_lib_scheme \<Rightarrow> ('sk, 'vk, 'sg) crypto_lib \<Rightarrow> 'c repo \<Rightarrow> 'vk public_key \<Rightarrow> 'c repo_error + unit" where
  "repo_verify L C r key = commit_verify L C (r_commit r) key"

end
