(* ===== verification/Repo_Props.thy ===== *)
theory Repo_Props
  imports Repo
begin

text \<open>
  What a repository promises: writes are updates of a sorted map of records, all or none; a revision
  and its blocks read back as the records it holds; what it lets go of is nothing it reaches.
\<close>

section \<open>What the encodings promise\<close>

text \<open>Commits read back as they were written. dag-cbor is injective on the data model, so a record
  that names its collection is neither a node of the tree nor a commit, and a commit is no node.\<close>

definition typed :: "'c ipld \<Rightarrow> bool" where
  "typed r = (case r of IMap fs \<Rightarrow> (\<exists>s. map_of fs ''$type'' = Some (IString s)) | _ \<Rightarrow> True)"

definition apart_bytes :: "('c, 'l) repo_lib_scheme \<Rightarrow> bytes \<Rightarrow> bool" where
  "apart_bytes L b \<longleftrightarrow> (\<forall>d. node_bytes L d \<noteq> b) \<and> (\<forall>k. commit_to_vec L k \<noteq> Inr b)"

definition repo_lib_ok :: "('c, 'l) repo_lib_scheme \<Rightarrow> bool" where
  "repo_lib_ok L \<longleftrightarrow>
     codec_ok L \<and> layers_ok L \<and> no_collision L
     \<and> (\<forall>u. \<exists>b. unsigned_to_vec L u = Inr b)
     \<and> (\<forall>k. \<exists>b. commit_to_vec L k = Inr b \<and> commit_from_slice L b = Inr k \<and> (\<forall>d. node_bytes L d \<noteq> b))
     \<and> (\<forall>r b. ipld_to_vec L r = Inr b \<longrightarrow> typed r \<longrightarrow> apart_bytes L b)"

lemma repo_lib_okD:
  assumes "repo_lib_ok L"
  shows "codec_ok L" "layers_ok L" "no_collision L"
    and "\<exists>b. unsigned_to_vec L u = Inr b"
    and "\<exists>b. commit_to_vec L k = Inr b \<and> commit_from_slice L b = Inr k \<and> (\<forall>d. node_bytes L d \<noteq> b)"
    and "ipld_to_vec L r = Inr b \<Longrightarrow> typed r \<Longrightarrow> apart_bytes L b"
  using assms unfolding repo_lib_ok_def by blast+

definition apart :: "('c, 'l) repo_lib_scheme \<Rightarrow> 'c \<Rightarrow> bool" where
  "apart L c \<longleftrightarrow> (\<forall>b. c = cid_for L b \<longrightarrow> apart_bytes L b)"

abbreviation recs_apart :: "('c, 'l) repo_lib_scheme \<Rightarrow> (string \<times> 'c) list \<Rightarrow> bool" where
  "recs_apart L ps \<equiv> (\<forall>p \<in> set ps. apart L (snd p))"


section \<open>Writes on a map of records\<close>

definition write_spec ::
    "('c, 'l) repo_lib_scheme \<Rightarrow> 'c repo_write \<Rightarrow> (string \<times> 'c) list \<Rightarrow> 'c repo_error + (string \<times> 'c) list" where
  "write_spec L w ps =
     (let key = write_key w;
          put = (\<lambda>r e. bindE (encode (ipld_to_vec L) r) (\<lambda>b.
                   if \<not> valid_key key then Inl (InvalidKey key)
                   else bindE e (\<lambda>_. Inr (al_upd key (cid_for L b) ps)))) in
      case w of
        Create _ _ r \<Rightarrow> put r (if map_of ps key = None then Inr () else Inl (KeyExists key))
      | Update _ _ r \<Rightarrow> put r (if map_of ps key = None then Inl (KeyMissing key) else Inr ())
      | Put _ _ r \<Rightarrow> put r (Inr ())
      | Delete _ _ \<Rightarrow> if map_of ps key = None then Inl (KeyMissing key) else Inr (al_del key ps))"

fun writes_spec ::
    "('c, 'l) repo_lib_scheme \<Rightarrow> 'c repo_write list \<Rightarrow> (string \<times> 'c) list \<Rightarrow> 'c repo_error + (string \<times> 'c) list" where
  "writes_spec L [] ps = Inr ps"
| "writes_spec L (w # ws) ps = bindE (write_spec L w ps) (writes_spec L ws)"

definition apply_spec ::
    "('c, 'l) repo_lib_scheme \<Rightarrow> 'c repo_write list \<Rightarrow> (string \<times> 'c) list \<Rightarrow> 'c repo_error + (string \<times> 'c) list" where
  "apply_spec L ws ps =
     (if list_all names_collection ws then writes_spec L ws ps
      else Inl (NotRecordData ''a record that names no collection''))"

text \<open>No write comes after one that takes the last record out.\<close>

fun unbroken :: "('c, 'l) repo_lib_scheme \<Rightarrow> 'c repo_write list \<Rightarrow> (string \<times> 'c) list \<Rightarrow> bool" where
  "unbroken L [] ps \<longleftrightarrow> True"
| "unbroken L (w # ws) ps \<longleftrightarrow>
     (case write_spec L w ps of Inl _ \<Rightarrow> True | Inr qs \<Rightarrow> (ws = [] \<or> qs \<noteq> []) \<and> unbroken L ws qs)"

lemma write_spec_nonempty: "write_spec L w ps = Inr qs \<Longrightarrow> write_record w \<noteq> None \<Longrightarrow> qs \<noteq> []"
proof -
  have "al_upd k v ps \<noteq> []" for k v using map_of_al_upd [of k v ps] by (metis fun_upd_same map_of.simps(1) option.distinct(1))
  then show "write_spec L w ps = Inr qs \<Longrightarrow> write_record w \<noteq> None \<Longrightarrow> qs \<noteq> []"
    by (cases w) (auto simp: write_spec_def Let_def result_simps split: if_splits)
qed

text \<open>What the loop keeps beside the tree: the records of the keys it wrote, each under its CID, and
  nothing a later write took back.\<close>

definition tracked ::
    "('c::linorder, 'l) repo_lib_scheme \<Rightarrow> (string \<times> 'c) list \<Rightarrow> (string \<times> 'c) list \<Rightarrow> 'c block_map
      \<Rightarrow> (string \<times> 'c) list \<Rightarrow> bool" where
  "tracked L ps0 ps enc lv \<longleftrightarrow> ascending lv
     \<and> (\<forall>c b. map_of enc c = Some b \<longrightarrow> c = cid_for L b \<and> apart_bytes L b)
     \<and> (\<forall>k c. map_of lv k = Some c \<longrightarrow> map_of enc c \<noteq> None \<and> map_of ps k = Some c)
     \<and> (\<forall>k c. map_of ps k = Some c \<longrightarrow> map_of lv k = Some c \<or> map_of ps0 k = Some c)"

lemma tracked_start: "tracked L ps ps [] []"
  by (simp add: tracked_def)

lemma tracked_put:
  assumes "tracked L ps0 ps enc lv" "apart_bytes L b"
  shows "tracked L ps0 (al_upd k (cid_for L b) ps) (bm_insert (cid_for L b) b enc) (al_upd k (cid_for L b) lv)"
  using assms unfolding tracked_def by (auto simp: ascending_al_upd)

lemma tracked_del:
  assumes "tracked L ps0 ps enc lv" "ascending ps"
  shows "tracked L ps0 (al_del k ps) enc (al_del k lv)"
  using assms unfolding tracked_def by (auto simp: ascending_al_del map_of_al_del)

lemma named_typed: "names_collection w \<Longrightarrow> write_record w = Some r \<Longrightarrow> typed r"
  by (cases r) (simp_all add: names_collection_def typed_def split: option.split_asm ipld.split_asm)

text \<open>A tree after a write, and what is kept beside it; \<open>rel_sum (=)\<close> says that the specification and
  the code fail with the same error or end in related values. \<open>c\<close> says that the tree before was the one its
  records determine.\<close>

definition written_tree :: "('c, 'l) repo_lib_scheme \<Rightarrow> ('c \<Rightarrow> bytes option) \<Rightarrow> bool \<Rightarrow> (string \<times> 'c) list \<Rightarrow> 'c mst \<Rightarrow> bool" where
  "written_tree L M c qs data \<longleftrightarrow> (\<exists>u. held_tree L M data u \<and> records_of u = qs \<and> (c \<and> qs \<noteq> [] \<longrightarrow> canonical_tree data u))"

definition writing_ok ::
    "('c::linorder, 'l) repo_lib_scheme \<Rightarrow> ('c \<Rightarrow> bytes option) \<Rightarrow> (string \<times> 'c) list \<Rightarrow> bool \<Rightarrow> (string \<times> 'c) list
      \<Rightarrow> 'c writing \<Rightarrow> bool" where
  "writing_ok L M ps0 c qs s \<longleftrightarrow> (case s of (enc, lv, data) \<Rightarrow> written_tree L M c qs data \<and> tracked L ps0 qs enc lv)"

lemma writing_ok_mono: "writing_ok L M ps0 c qs s \<Longrightarrow> (c' \<Longrightarrow> c) \<Longrightarrow> writing_ok L M ps0 c' qs s"
  unfolding writing_ok_def written_tree_def by (auto split: prod.splits)

lemma add_record_ok:
  assumes L: "repo_lib_ok L" and t: "tracked L ps0 ps enc lv" "typed r"
    and f: "\<And>v. rel_sum (=) (\<lambda>_. written_tree L M c (al_upd key v ps)) e (f data v)"
  shows "rel_sum (=) (writing_ok L M ps0 c)
    (bindE (encode (ipld_to_vec L) r) (\<lambda>b. bindE e (\<lambda>_. Inr (al_upd key (cid_for L b) ps))))
    (add_record L r key f (enc, lv, data))"
proof -
  have "add_record L r key f (enc, lv, data) = bindE (encode (ipld_to_vec L) r) (\<lambda>b.
      bindE (f data (cid_for L b)) (\<lambda>data'. Inr (bm_insert (cid_for L b) b enc, al_upd key (cid_for L b) lv, data')))"
    by (simp add: add_record_def bm_add_def bindE_assoc Let_def)
  moreover have "rel_sum (=) (writing_ok L M ps0 c) (bindE e (\<lambda>_. Inr (al_upd key (cid_for L b) ps)))
      (bindE (f data (cid_for L b)) (\<lambda>data'. Inr (bm_insert (cid_for L b) b enc, al_upd key (cid_for L b) lv, data')))"
    if b: "ipld_to_vec L r = Inr b" for b
  proof (rule rel_sum_bindE [OF f])
    fix x data' assume "written_tree L M c (al_upd key (cid_for L b) ps) data'"
    moreover have "apart_bytes L b" by (rule repo_lib_okD(6) [OF L b t(2)])
    ultimately show "rel_sum (=) (writing_ok L M ps0 c) (Inr (al_upd key (cid_for L b) ps))
        (Inr (bm_insert (cid_for L b) b enc, al_upd key (cid_for L b) lv, data'))"
      using tracked_put [OF t(1)] by (simp add: writing_ok_def)
  qed
  ultimately show ?thesis by (auto simp: encode_def intro!: rel_sum_bindE_same)
qed

context ordered_store
begin

lemma put_rel:
  assumes "repo_lib_ok L" "held_tree L M t s" "c \<longrightarrow> canonical_tree t s"
  defines "R \<equiv> \<lambda>key v e f. rel_sum (=) (\<lambda>_. written_tree L M c (al_upd key v (records_of s))) (if valid_key key then e else Inl (InvalidKey key)) f"
  shows "R key v (if map_of (records_of s) key = None then Inr () else Inl (KeyExists key)) (mst_add L st t key v)"
    and "R key v (if map_of (records_of s) key = None then Inl (KeyMissing key) else Inr ()) (mst_update L st t key v)"
    and "R key v (Inr ()) (bindE (mst_get L st t key) (\<lambda>(found, t).
      if found \<noteq> None then mst_update L st t key v else mst_add L st t key v))"
proof -
  note ok = repo_lib_okD(1,2) [OF assms(1)]
  obtain d where d: "MAX_DEPTH = Suc d" by (simp add: MAX_DEPTH_def)
  have a: "R key v (if map_of (records_of s) key = None then Inr () else Inl (KeyExists key)) (mst_add L st t key v)"
    if "held_tree L M t s" "c \<longrightarrow> canonical_tree t s" for t
  proof (cases "valid_key key")
    case True
    then show ?thesis using mst_add_tree [OF ok that(1) True, of v] that(2) by (auto simp: R_def written_tree_def split: if_splits)
  qed (simp add: R_def mst_add_def ensure_valid_key_def)
  have u: "R key v (if map_of (records_of s) key = None then Inl (KeyMissing key) else Inr ()) (mst_update L st t key v)"
    if "held_tree L M t s" "c \<longrightarrow> canonical_tree t s" for t
  proof (cases "valid_key key")
    case True
    then show ?thesis using mst_update_tree [OF ok(1) that(1) True, of v] that(2) by (auto simp: R_def written_tree_def split: if_splits)
  qed (simp add: R_def mst_update_def d ensure_valid_key_def)
  obtain t1 where g: "mst_get L st t key = Inr (map_of (records_of s) key, t1)" "held_tree L M t1 s" "m_layer t1 = m_layer t"
    using mst_get_tree [OF ok(1) assms(2)] by blast
  have c: "c \<longrightarrow> canonical_tree t1 s" using assms(3) g(3) by (simp add: canonical_tree_def)
  show "R key v (Inr ()) (bindE (mst_get L st t key) (\<lambda>(found, t).
      if found \<noteq> None then mst_update L st t key v else mst_add L st t key v))"
    using g(1) a [OF g(2) c] u [OF g(2) c] by (cases "map_of (records_of s) key") (simp_all add: R_def)
  show "R key v (if map_of (records_of s) key = None then Inr () else Inl (KeyExists key)) (mst_add L st t key v)"
    by (rule a [OF assms(2,3)])
  show "R key v (if map_of (records_of s) key = None then Inl (KeyMissing key) else Inr ()) (mst_update L st t key v)"
    by (rule u [OF assms(2,3)])
qed

lemma apply_write_ok:
  assumes L: "repo_lib_ok L" and h: "held_tree L M data s" "c \<longrightarrow> canonical_tree data s"
    and t: "tracked L ps0 (records_of s) enc lv" and n: "names_collection w"
  shows "rel_sum (=) (writing_ok L M ps0 c) (write_spec L w (records_of s)) (apply_write L st w (enc, lv, data))"
proof -
  note ok = repo_lib_okD(1,2) [OF L]
  let ?key = "write_key w" and ?ps = "records_of s"
  have put: "rel_sum (=) (writing_ok L M ps0 c)
      (bindE (encode (ipld_to_vec L) r) (\<lambda>b. if \<not> valid_key ?key then Inl (InvalidKey ?key)
        else bindE e (\<lambda>_. Inr (al_upd ?key (cid_for L b) ?ps)))) (add_record L r ?key f (enc, lv, data))"
    if r: "write_record w = Some r"
      and f: "\<And>v. rel_sum (=) (\<lambda>_. written_tree L M c (al_upd ?key v ?ps)) (if valid_key ?key then e else Inl (InvalidKey ?key)) (f data v)"
    for r f and e :: "'c repo_error + unit"
  proof -
    have "bindE (encode (ipld_to_vec L) r) (\<lambda>b. if \<not> valid_key ?key then Inl (InvalidKey ?key)
        else bindE e (\<lambda>_. Inr (al_upd ?key (cid_for L b) ?ps)))
      = bindE (encode (ipld_to_vec L) r) (\<lambda>b. bindE (if valid_key ?key then e else Inl (InvalidKey ?key))
          (\<lambda>_. Inr (al_upd ?key (cid_for L b) ?ps)))"
      by (rule bindE_cong) simp_all
    then show ?thesis using add_record_ok [where f = f and data = data, OF L t named_typed [OF n r] f] by simp
  qed
  note rel = put_rel [OF L h, of ?key]
  show ?thesis
  proof (cases w)
    case (Create n' k' r)
    then have r: "write_record w = Some r" by simp
    show ?thesis
      using put [of _ _ "\<lambda>data v. mst_add L st data ?key v", OF r rel(1)]
      unfolding apply_write_def write_spec_def Let_def Create repo_write.case .
  next
    case (Update n' k' r)
    then have r: "write_record w = Some r" by simp
    show ?thesis
      using put [of _ _ "\<lambda>data v. mst_update L st data ?key v", OF r rel(2)]
      unfolding apply_write_def write_spec_def Let_def Update repo_write.case .
  next
    case (Put n' k' r)
    then have r: "write_record w = Some r" by simp
    show ?thesis
      using put [of _ _ "\<lambda>data v. bindE (mst_get L st data ?key) (\<lambda>(found, data).
        if found \<noteq> None then mst_update L st data ?key v else mst_add L st data ?key v)", OF r rel(3)]
      unfolding apply_write_def write_spec_def Let_def Put repo_write.case .
  next
    case (Delete n' k')
    have "written_tree L M c (al_del ?key ?ps) t'" if "held_tree L M t' s'" "records_of s' = al_del ?key ?ps" "trimmed s'" for t' s'
      unfolding written_tree_def using that by (intro exI [of _ s']) (auto simp: canonical_tree_def simp flip: that(2))
    then show ?thesis
      using Delete mst_delete_tree [OF ok h(1), of ?key] tracked_del [OF t held_tree_ascending [OF h(1)], of ?key]
      by (auto simp: apply_write_def write_spec_def Let_def writing_ok_def split: if_splits)
  qed
qed

lemma apply_writes_ok:
  assumes L: "repo_lib_ok L"
  shows "held_tree L M data s \<Longrightarrow> c \<longrightarrow> canonical_tree data s \<Longrightarrow> tracked L ps0 (records_of s) enc lv \<Longrightarrow> list_all names_collection ws \<Longrightarrow>
    rel_sum (=) (writing_ok L M ps0 (c \<and> unbroken L ws (records_of s))) (writes_spec L ws (records_of s)) (apply_writes L st ws (enc, lv, data))"
proof (induction ws arbitrary: s c enc lv data)
  case Nil
  then show ?case by (auto simp: writing_ok_def written_tree_def)
next
  case (Cons w ws)
  have n: "names_collection w" "list_all names_collection ws" using Cons.prems(4) by simp_all
  note step = apply_write_ok [OF L Cons.prems(1,2,3) n(1)]
  show ?case
  proof (cases "write_spec L w (records_of s)")
    case (Inl e)
    then have "apply_write L st w (enc, lv, data) = Inl e" using step by (simp add: rel_sum.simps)
    with Inl show ?thesis by simp
  next
    case (Inr qs)
    then obtain enc' lv' data' where a: "apply_write L st w (enc, lv, data) = Inr (enc', lv', data')"
        "writing_ok L M ps0 c qs (enc', lv', data')"
      using step by (auto simp: rel_sum.simps)
    then obtain u where u: "held_tree L M data' u" "records_of u = qs" "c \<and> qs \<noteq> [] \<longrightarrow> canonical_tree data' u" "tracked L ps0 qs enc' lv'"
      by (auto simp: writing_ok_def written_tree_def)
    have "rel_sum (=) (writing_ok L M ps0 (c \<and> unbroken L (w # ws) (records_of s))) (writes_spec L ws qs) (apply_writes L st ws (enc', lv', data'))"
    proof (cases "ws = []")
      case True
      then show ?thesis using writing_ok_mono [OF a(2)] by simp
    next
      case False
      have "rel_sum (=) (writing_ok L M ps0 ((c \<and> qs \<noteq> []) \<and> unbroken L ws qs)) (writes_spec L ws qs) (apply_writes L st ws (enc', lv', data'))"
        using Cons.IH [OF u(1) _ _ n(2), of "c \<and> qs \<noteq> []" enc' lv'] u(2-4) by simp
      then show ?thesis by (rule sum.rel_mono_strong) (use False Inr in \<open>auto intro: writing_ok_mono\<close>)
    qed
    then show ?thesis using a(1) Inr by simp
  qed
qed

end


section \<open>Stores that grow\<close>

lemma addressed_eq:
  assumes "no_collision L" "addressed L A" "addressed L B" "dom A = dom B"
  shows "A = B"
proof
  fix c
  show "A c = B c"
    using assms unfolding no_collision_def addressed_def dom_def
    by (cases "A c"; cases "B c") (force, force, force, metis)
qed

lemma addressed_add: "addressed L A \<Longrightarrow> addressed L B \<Longrightarrow> addressed L (A ++ B)"
  unfolding addressed_def by (auto simp: map_add_Some_iff)

lemma stored_more:
  assumes "no_collision L" "addressed L A" "addressed L B" "dom A \<subseteq> dom B" "stored L A s"
  shows "stored L B s"
  using stored_iff_dom(1) [OF assms(1,2)] stored_iff_dom(1) [OF assms(1,3)] assms(4,5) by blast

text \<open>Blocks that are no nodes may be added to a sound store.\<close>

lemma sound_extend:
  assumes "no_collision L" "sound_store L A" "addressed L N" "\<And>c b d. N c = Some b \<Longrightarrow> node_bytes L d \<noteq> b"
  shows "sound_store L (A ++ N)"
proof -
  have A: "addressed L A" using assms(2) by (simp add: sound_store_def)
  note AN = addressed_add [OF A assms(3)]
  have "stored L (A ++ N) s" if s: "tree_wf L n s" "(A ++ N) (tcid L s) \<noteq> None" for n s
  proof -
    obtain es where es: "s = Node es" by (cases s)
    have "N (tcid L s) = None"
    proof (rule ccontr)
      assume "N (tcid L s) \<noteq> None"
      then obtain b where b: "N (tcid L s) = Some b" by blast
      then have "cid_for L b = cid_for L (node_bytes L (node_pack (map (ecode L) es)))"
        using assms(3) es unfolding addressed_def by force
      then have "b = node_bytes L (node_pack (map (ecode L) es))" using assms(1) unfolding no_collision_def by blast
      then show False using assms(4) [OF b] by blast
    qed
    then have "A (tcid L s) \<noteq> None" using s(2) by (auto simp: map_add_def split: option.splits)
    then have st: "stored L A s" using assms(2) s(1) unfolding sound_store_def closed_store_def by blast
    show ?thesis by (rule stored_more [OF assms(1) A AN _ st]) auto
  qed
  with AN show ?thesis unfolding sound_store_def closed_store_def by blast
qed

context ordered_store
begin

lemma dropped_tree:
  assumes "codec_ok L" "no_collision L" "held_tree L M prev s" "held_tree L M t u"
  obtains D where "dropped L st t prev = Some (Inr D)" "D \<subseteq> set (flat L s)" "set (flat L s) - set (flat L u) \<subseteq> D"
    "\<forall>c \<in> set (tcids L s). c \<notin> lvalue ` (set (tleaves s) \<union> set (tleaves u)) \<longrightarrow> (c \<in> D \<longleftrightarrow> c \<notin> set (tcids L u))"
proof -
  obtain m where p: "ready L M m prev s {}" "m \<le> 128" "s = Node [] \<longrightarrow> m_layer prev = None \<longrightarrow> m = 0"
    by (rule held_treeE [OF assms(3)])
  obtain n where q: "ready L M n t u {}" "n \<le> 128" "u = Node [] \<longrightarrow> m_layer t = None \<longrightarrow> n = 0"
    by (rule held_treeE [OF assms(4)])
  obtain d where d: "dropped L st t prev = Some (Inr (d_removed d))"
      "mv\<^sup>*\<^sup>* (flat L s, flat L u, diff_default) ([], [], d)"
    using dropped_ok [OF assms(1,2) p(1,2) _ q(1,2)] p(3) q(3) by blast
  show thesis
  proof (rule that [OF d(1) walk_result(1,2) [OF d(2)]], intro ballI impI)
    fix c assume "c \<in> set (tcids L s)" "c \<notin> lvalue ` (set (tleaves s) \<union> set (tleaves u))"
    then have c: "c \<in> set (tcids L s)" "c \<notin> lvalue ` set (tleaves s)" "c \<notin> lvalue ` set (tleaves u)" by auto
    have wf: "tree_wf L m s" "keys_sorted (tleaves s)" "tree_wf L n u" "keys_sorted (tleaves u)"
      using p(1) q(1) by (simp_all add: ready_def)
    show "c \<in> d_removed d \<longleftrightarrow> c \<notin> set (tcids L u)"
      using walk_result(3) [OF d(2) node_visited_once [OF assms(1,2) wf(1,2) c(2)] node_visited_once [OF assms(1,2) wf(3,4) c(3)]]
        c by (simp add: set_flat)
  qed
qed

end


section \<open>A revision before it is signed\<close>

lemma leaf_blocks_ok:
  assumes "\<forall>p \<in> set lv. map_of enc (snd p) \<noteq> None"
  shows "\<exists>bl. leaf_blocks enc lv acc = Inr bl \<and> (ascending acc \<longrightarrow> ascending bl)
    \<and> (\<forall>c. map_of bl c = (if c \<in> snd ` set lv then map_of enc c else map_of acc c))"
  using assms
proof (induction lv arbitrary: acc)
  case (Cons p lv)
  obtain k c where p: "p = (k, c)" by fastforce
  then obtain b where b: "map_of enc c = Some b" using Cons.prems by fastforce
  have "\<forall>p \<in> set lv. map_of enc (snd p) \<noteq> None" using Cons.prems by simp
  from Cons.IH [OF this, of "bm_insert c b acc"] show ?case using p b by (auto simp: bm_get_def)
qed simp

lemma in_ascending: "ascending ps \<Longrightarrow> (k, v) \<in> set ps \<longleftrightarrow> map_of ps k = Some v"
proof -
  assume "ascending ps"
  then have "distinct (map fst ps)" by (simp add: strict_sorted_iff)
  then show ?thesis by simp
qed

definition new_records ::
    "('c, 'l) repo_lib_scheme \<Rightarrow> (string \<times> 'c) list \<Rightarrow> (string \<times> 'c) list \<Rightarrow> ('c \<Rightarrow> bytes option) \<Rightarrow> bool" where
  "new_records L ps qs R \<longleftrightarrow>
     (\<forall>c b. R c = Some b \<longrightarrow> c = cid_for L b \<and> apart_bytes L b \<and> c \<in> snd ` set qs)
     \<and> (\<forall>p \<in> set qs. p \<in> set ps \<or> R (snd p) \<noteq> None)"

lemma new_records_addressed: "new_records L ps qs R \<Longrightarrow> addressed L R"
  by (simp add: new_records_def addressed_def)

lemma new_records_apart:
  assumes "no_collision L" "new_records L ps qs R" "recs_apart L ps"
  shows "recs_apart L qs"
proof
  fix p assume p: "p \<in> set qs"
  show "apart L (snd p)"
  proof (cases "p \<in> set ps")
    case False
    then obtain b where "R (snd p) = Some b" using assms(2) p unfolding new_records_def by blast
    then have "snd p = cid_for L b" "apart_bytes L b" using assms(2) unfolding new_records_def by blast+
    then show ?thesis using assms(1) unfolding apart_def no_collision_def by metis
  qed (use assms(3) in blast)
qed

lemma node_not_apart:
  "c \<in> set (tcids L s) \<Longrightarrow> \<not> apart L c"
  "c \<in> set (ecids L e) \<Longrightarrow> \<not> apart L c"
  by (induction s and e) (auto simp: apart_def apart_bytes_def)

lemma tracked_new_records:
  assumes "tracked L ps qs enc lv" "ascending ps" "ascending qs"
  obtains bl where "leaf_blocks enc lv [] = Inr bl" "ascending bl" "new_records L ps qs (map_of bl)"
proof -
  have lv: "ascending lv" and enc: "\<And>c b. map_of enc c = Some b \<Longrightarrow> c = cid_for L b \<and> apart_bytes L b"
    and fro: "\<And>k c. map_of lv k = Some c \<Longrightarrow> map_of enc c \<noteq> None \<and> map_of qs k = Some c"
    and to: "\<And>k c. map_of qs k = Some c \<Longrightarrow> map_of lv k = Some c \<or> map_of ps k = Some c"
    using assms(1) unfolding tracked_def by blast+
  obtain bl where bl: "leaf_blocks enc lv [] = Inr bl" "ascending bl"
      "\<And>c. map_of bl c = (if c \<in> snd ` set lv then map_of enc c else None)"
  proof -
    have "\<forall>p \<in> set lv. map_of enc (snd p) \<noteq> None" using fro lv by (auto simp: in_ascending)
    from leaf_blocks_ok [OF this, of "[]"] that show thesis by auto
  qed
  have "new_records L ps qs (map_of bl)"
    unfolding new_records_def
  proof (intro conjI allI impI ballI)
    fix c b assume "map_of bl c = Some b"
    then have b: "c \<in> snd ` set lv" "map_of enc c = Some b" by (simp_all add: bl(3) split: if_splits)
    then show "c = cid_for L b" "apart_bytes L b" using enc by simp_all
    obtain k where "(k, c) \<in> set lv" using b(1) by fastforce
    then have "(k, c) \<in> set qs" using fro lv assms(3) by (simp add: in_ascending)
    then show "c \<in> snd ` set qs" by force
  next
    fix p assume p: "p \<in> set qs"
    obtain k c where kc: "p = (k, c)" by fastforce
    have "(k, c) \<in> set lv \<or> (k, c) \<in> set ps" using p kc to [of k c] lv assms(2,3) by (simp add: in_ascending)
    then show "p \<in> set ps \<or> map_of bl (snd p) \<noteq> None"
    proof
      assume l: "(k, c) \<in> set lv"
      then have "map_of enc c \<noteq> None" using fro lv by (simp add: in_ascending)
      moreover have "c \<in> snd ` set lv" using l by force
      ultimately show ?thesis using kc bl(3) by simp
    qed (simp add: kc)
  qed
  with bl that show thesis by blast
qed


context ordered_store
begin

lemma prepare_refused:
  assumes "repo_lib_ok L" "held_tree L M (r_data r) s" "apply_spec L ws (records_of s) = Inl e"
  shows "prepare L st r ws = Some (Inl e)"
  using assms(3) apply_writes_ok [OF assms(1,2) _ tracked_start, of False ws]
  by (auto simp: prepare_def apply_spec_def rel_sum.simps split: if_splits)

lemma prepare_ok:
  assumes L: "repo_lib_ok L" and s: "held_tree L M (r_data r) s" and w: "apply_spec L ws (records_of s) = Inr qs"
    and ap: "recs_apart L (records_of s)"
  obtains blocks data D u R where
    "prepare L st r ws = Some (Inr (blocks, tcid L u, data, sorted_list_of_set D))"
    "held_tree L M data u" "records_of u = qs" "canonical_tree (r_data r) s \<and> unbroken L ws (records_of s) \<longrightarrow> trimmed u"
    "ascending blocks" "map_of blocks = R ++ map_of (ublocks L M u)" "new_records L (records_of s) qs R"
    "D \<subseteq> set (flat L s)" "set (flat L s) - set (flat L u) \<subseteq> D" "D \<inter> set (tcids L u) = {}"
proof -
  note ok = repo_lib_okD(1,2,3) [OF L]
  let ?ps = "records_of s"
  have n: "list_all names_collection ws" "writes_spec L ws ?ps = Inr qs"
    using w by (simp_all add: apply_spec_def split: if_splits)
  let ?c = "canonical_tree (r_data r) s"
  obtain enc lv t0 u where a: "apply_writes L st ws ([], [], r_data r) = Inr (enc, lv, t0)"
      "held_tree L M t0 u" "records_of u = qs" "tracked L ?ps qs enc lv" "(?c \<and> unbroken L ws ?ps) \<and> qs \<noteq> [] \<longrightarrow> canonical_tree t0 u"
    using apply_writes_ok [OF L s _ tracked_start n(1), of ?c] n(2) by (auto simp: rel_sum.simps writing_ok_def written_tree_def)
  obtain k where k: "tree_wf L k u" by (rule held_tree_shape [OF a(2)])
  have "u = Node []" if "qs = []" using wf_leaves_nonempty [OF k] a(3) that by blast
  then have can: "?c \<and> unbroken L ws ?ps \<longrightarrow> trimmed u" using a(5) by (auto simp: canonical_tree_def)
  have asc: "ascending ?ps" "ascending qs"
    using held_tree_ascending [OF s] held_tree_ascending [OF a(2)] a(3) by simp_all
  obtain bl where bl: "leaf_blocks enc lv [] = Inr bl" "ascending bl" "new_records L ?ps qs (map_of bl)"
    by (rule tracked_new_records [OF a(4) asc])
  obtain data where d: "unstored_blocks L st t0 = Inr ((tcid L u, ublocks L M u), data)" "held_tree L M data u"
    by (rule unstored_tree [OF ok(1) a(2)])
  obtain D where D: "dropped L st data (r_data r) = Some (Inr D)" "D \<subseteq> set (flat L s)"
      "set (flat L s) - set (flat L u) \<subseteq> D"
      "\<forall>c \<in> set (tcids L s). c \<notin> lvalue ` (set (tleaves s) \<union> set (tleaves u)) \<longrightarrow> (c \<in> D \<longleftrightarrow> c \<notin> set (tcids L u))"
    by (rule dropped_tree [OF ok(1,3) s d(2)])
  have apq: "recs_apart L qs" by (rule new_records_apart [OF ok(3) bl(3) ap])
  have rec: "apart L c" if "c \<in> lvalue ` (set (tleaves s) \<union> set (tleaves u))" for c
    using that ap apq a(3) by (auto simp: kv_def)
  have node: "\<not> apart L c" if "c \<in> set (tcids L v)" for c v
    by (rule node_not_apart(1) [OF that])
  have "D \<inter> set (tcids L u) = {}"
  proof (rule ccontr)
    assume "D \<inter> set (tcids L u) \<noteq> {}"
    then obtain c where c: "c \<in> D" "c \<in> set (tcids L u)" by blast
    then have "c \<notin> lvalue ` (set (tleaves s) \<union> set (tleaves u))" using rec node by blast
    moreover have "c \<in> set (tcids L s)" using c(1) D(2) calculation by (auto simp: set_flat)
    ultimately show False using D(4) c by blast
  qed
  moreover have "prepare L st r ws
      = Some (Inr (bm_merge bl (ublocks L M u), tcid L u, data, sorted_list_of_set D))"
    using n(1) a(1) bl(1) d(1) D(1) by (simp add: prepare_def)
  moreover have "ascending (bm_merge bl (ublocks L M u))" by (rule ascending_bm_merge [OF bl(2)])
  moreover have "map_of (bm_merge bl (ublocks L M u)) = map_of bl ++ map_of (ublocks L M u)"
    by (rule map_of_bm_merge [OF ascending_ublocks])
  ultimately show thesis using that [OF _ d(2) a(3) can] bl(3) D(2,3) by blast
qed

end


section \<open>A revision, signed\<close>

text \<open>The signed revision, as facts on its parts: \<open>s\<close> and \<open>u\<close> are the trees of the records before and
  after.\<close>

definition revision ::
    "('c::linorder, 'l) repo_lib_scheme \<Rightarrow> ('sk, 'vk, 'sg) crypto_lib \<Rightarrow> ('c \<Rightarrow> bytes option) \<Rightarrow> 'c repo \<Rightarrow> 'sk keypair
      \<Rightarrow> tid \<Rightarrow> 'c tree \<Rightarrow> 'c tree \<Rightarrow> 'c block_map \<Rightarrow> 'c list \<Rightarrow> 'c repo \<Rightarrow> bool" where
  "revision L C M r key rv s u blocks drops r' \<longleftrightarrow>
     (\<exists>R D b x. ascending blocks \<and> map_of blocks = (R ++ map_of (ublocks L M u))(r_cid r' \<mapsto> b)
       \<and> new_records L (records_of s) (records_of u) R
       \<and> unsigned_to_vec L \<lparr>u_did = c_did (r_commit r), u_version = VERSION, u_data = tcid L u, u_rev = rv, u_prev = None\<rparr> = Inr x
       \<and> r_commit r' = \<lparr>c_did = c_did (r_commit r), c_version = VERSION, c_data = tcid L u, c_rev = rv, c_prev = None, c_sig = sign C key x\<rparr>
       \<and> commit_to_vec L (r_commit r') = Inr b \<and> r_cid r' = cid_for L b \<and> held_tree L M (r_data r') u
       \<and> finite D \<and> D \<subseteq> set (flat L s) \<and> set (flat L s) - set (flat L u) \<subseteq> D \<and> D \<inter> set (tcids L u) = {}
       \<and> set drops = D \<union> {c. c = r_cid r \<and> c \<noteq> r_cid r'})"

context ordered_store
begin

lemma repo_apply_ok:
  assumes L: "repo_lib_ok L" and s: "held_tree L M (r_data r) s" and w: "apply_spec L ws (records_of s) = Inr qs"
    and ap: "recs_apart L (records_of s)" and m: "mint_after since (c_rev (r_commit r)) clk = (Some rv, clk')"
  obtains u blocks drops r' where
    "repo_apply L C st r ws key since clk = Some (Inr (blocks, drops, r'), clk')"
    "records_of u = qs" "revision L C M r key rv s u blocks drops r'"
    "canonical_tree (r_data r) s \<and> unbroken L ws (records_of s) \<longrightarrow> trimmed u"
proof -
  obtain blocks data D u R where p: "prepare L st r ws = Some (Inr (blocks, tcid L u, data, sorted_list_of_set D))"
    "held_tree L M data u" "records_of u = qs" "canonical_tree (r_data r) s \<and> unbroken L ws (records_of s) \<longrightarrow> trimmed u"
    "ascending blocks" "map_of blocks = R ++ map_of (ublocks L M u)" "new_records L (records_of s) qs R"
    "D \<subseteq> set (flat L s)" "set (flat L s) - set (flat L u) \<subseteq> D" "D \<inter> set (tcids L u) = {}"
    by (rule prepare_ok [OF L s w ap])
  let ?u = "\<lparr>u_did = c_did (r_commit r), u_version = VERSION, u_data = tcid L u, u_rev = rv, u_prev = None\<rparr>"
  obtain x where x: "unsigned_to_vec L ?u = Inr x" using repo_lib_okD(4) [OF L] by blast
  let ?k = "\<lparr>c_did = c_did (r_commit r), c_version = VERSION, c_data = tcid L u, c_rev = rv, c_prev = None, c_sig = sign C key x\<rparr>"
  obtain b where b: "commit_to_vec L ?k = Inr b" using repo_lib_okD(5) [OF L] by blast
  let ?r = "\<lparr>r_cid = cid_for L b, r_commit = ?k, r_data = data\<rparr>"
  have fin: "finite D" using p(8) by (rule finite_subset) simp
  have "repo_apply L C st r ws key since clk = Some (Inr (bm_insert (cid_for L b) b blocks,
      if cid_for L b \<noteq> r_cid r then sorted_list_of_set D @ [r_cid r] else sorted_list_of_set D, ?r), clk')"
    using p(1) m x b by (simp add: repo_apply_def commit_sign_def encode_def bm_add_def Let_def)
  moreover have "revision L C M r key rv s u (bm_insert (cid_for L b) b blocks)
      (if cid_for L b \<noteq> r_cid r then sorted_list_of_set D @ [r_cid r] else sorted_list_of_set D) ?r"
    unfolding revision_def
    by (intro exI [of _ R] exI [of _ D] exI [of _ b] exI [of _ x]) (use p fin x b in auto)
  ultimately show thesis using that [OF _ p(3) _ p(4)] by blast
qed

end

text \<open>With the blocks stored, the store is sound again and the tree can be read from its root.\<close>

lemma revision_stored:
  assumes L: "repo_lib_ok L" and S: "sound_store L M" and v: "revision L C M r key rv s u blocks drops r'"
  shows "sound_store L (M ++ map_of blocks)" "held_tree L (M ++ map_of blocks) (mst_load (tcid L u)) u"
    and "\<exists>b. (M ++ map_of blocks) (r_cid r') = Some b \<and> commit_from_slice L b = Inr (r_commit r')"
proof -
  obtain R b where b: "map_of blocks = (R ++ map_of (ublocks L M u))(r_cid r' \<mapsto> b)"
      "new_records L (records_of s) (records_of u) R" "commit_to_vec L (r_commit r') = Inr b" "r_cid r' = cid_for L b"
      "held_tree L M (r_data r') u"
    using v unfolding revision_def by blast
  note ok = repo_lib_okD(1,3) [OF L]
  obtain n where u: "tree_wf L n u" "keys_sorted (tleaves u)" "n \<le> 128" by (rule held_tree_shape [OF b(5)])
  let ?M1 = "M ++ map_of (ublocks L M u)" and ?N = "R(r_cid r' \<mapsto> b)"
  note sv = save_sound [OF ok S u(1)]
  have cb: "commit_from_slice L b = Inr (r_commit r')" "\<And>d. node_bytes L d \<noteq> b"
    using repo_lib_okD(5) [OF L, of "r_commit r'"] b(3) by auto
  have N: "addressed L ?N" using new_records_addressed [OF b(2)] b(4) by (auto simp: addressed_def)
  have apart: "node_bytes L d \<noteq> y" if "?N c = Some y" for c y d
    using that cb(2) b(2) by (auto simp: new_records_def apart_bytes_def split: if_splits)
  have so: "sound_store L (?M1 ++ ?N)" by (rule sound_extend [OF ok(2) sv(1) N apart])
  have bl: "addressed L (map_of blocks)"
    using b(1,4) new_records_addressed [OF b(2)] ublocks_sound(1) [of L M u]
    by (auto simp: addressed_def map_add_Some_iff)
  have eq: "M ++ map_of blocks = ?M1 ++ ?N"
  proof (rule addressed_eq [OF ok(2)])
    show "addressed L (M ++ map_of blocks)" using S bl by (simp add: sound_store_def addressed_add)
    show "addressed L (?M1 ++ ?N)" using so by (simp add: sound_store_def)
    show "dom (M ++ map_of blocks) = dom (?M1 ++ ?N)" using b(1) by auto
  qed
  show "sound_store L (M ++ map_of blocks)" using so eq by simp
  have "stored L (M ++ map_of blocks) u"
    unfolding eq by (rule stored_more [OF ok(2) _ _ _ sv(2)]) (use sv(1) so in \<open>auto simp: sound_store_def\<close>)
  then show "held_tree L (M ++ map_of blocks) (mst_load (tcid L u)) u"
    by (rule held_stored [OF _ u])
  show "\<exists>b. (M ++ map_of blocks) (r_cid r') = Some b \<and> commit_from_slice L b = Inr (r_commit r')"
    using b(1) cb(1) by auto
qed


section \<open>Applying writes\<close>

text \<open>C1: \<open>Repo::apply\<close> refines the updates of a sorted map of records. It fails with the error of the
  first write the map refuses, or when no revision is left, and then nothing has changed; otherwise the
  blocks it returns, added to the store, give a sound store from which \<open>Repo::load\<close> reads the same
  commit over a tree that holds exactly the updated records. This is so for every list of writes. The tree read
  back is the one the protocol gives those records where the tree before was and no write follows one
  that leaves the repository empty.\<close>

theorem repo_apply_correct:
  assumes "repo_lib_ok L" "sound_store L (map_of m)" "held_tree L (map_of m) (r_data r) s" "recs_apart L (records_of s)"
  shows "case apply_spec L ws (records_of s) of
      Inl e \<Rightarrow> repo_apply L C (bm_store m) r ws key since clk = Some (Inl e, clk)
    | Inr qs \<Rightarrow>
        (case mint_after since (c_rev (r_commit r)) clk of
           (None, clk') \<Rightarrow> repo_apply L C (bm_store m) r ws key since clk = Some (Inl (NoRevisionAfter (c_rev (r_commit r))), clk')
         | (Some rv, clk') \<Rightarrow>
             \<exists>blocks drops r' r'' u. repo_apply L C (bm_store m) r ws key since clk = Some (Inr (blocks, drops, r'), clk')
               \<and> c_rev (r_commit r') = rv \<and> recs_apart L qs \<and> sound_store L (map_of (bm_merge m blocks))
               \<and> repo_load L (bm_store (bm_merge m blocks)) (r_cid r') = Inr r'' \<and> r_commit r'' = r_commit r'
               \<and> held_tree L (map_of (bm_merge m blocks)) (r_data r'') u \<and> records_of u = qs
               \<and> (canonical_tree (r_data r) s \<and> unbroken L ws (records_of s) \<longrightarrow> holds L (map_of (bm_merge m blocks)) (r_data r'') qs))"
proof (cases "apply_spec L ws (records_of s)")
  case (Inl e)
  then show ?thesis using bmo.prepare_refused [OF assms(1,3) Inl] by (simp add: repo_apply_def)
next
  case (Inr qs)
  obtain o' clk' where m: "mint_after since (c_rev (r_commit r)) clk = (o', clk')" by fastforce
  show ?thesis
  proof (cases o')
    case None
    obtain blocks data D u where "prepare L (bm_store m) r ws = Some (Inr (blocks, tcid L u, data, sorted_list_of_set D))"
      by (rule bmo.prepare_ok [OF assms(1,3) Inr assms(4)])
    then show ?thesis using Inr m None by (simp add: repo_apply_def)
  next
    case (Some rv)
    obtain u blocks drops r' where a: "repo_apply L C (bm_store m) r ws key since clk = Some (Inr (blocks, drops, r'), clk')"
        "records_of u = qs" "revision L C (map_of m) r key rv s u blocks drops r'"
        "canonical_tree (r_data r) s \<and> unbroken L ws (records_of s) \<longrightarrow> trimmed u"
      by (rule bmo.repo_apply_ok [OF assms(1,3) Inr assms(4) m [unfolded Some]])
    obtain R where v: "ascending blocks" "c_rev (r_commit r') = rv" "c_data (r_commit r') = tcid L u" "new_records L (records_of s) qs R"
      using a(2,3) unfolding revision_def by auto
    note st = revision_stored [OF assms(1,2) a(3), folded map_of_bm_merge [OF v(1)]]
    obtain b where b: "map_of (bm_merge m blocks) (r_cid r') = Some b" "commit_from_slice L b = Inr (r_commit r')"
      using st(3) by blast
    let ?r = "\<lparr>r_cid = r_cid r', r_commit = r_commit r', r_data = mst_load (tcid L u)\<rparr>"
    have "repo_load L (bm_store (bm_merge m blocks)) (r_cid r') = Inr ?r"
      using b v(3) by (simp add: repo_load_def bm.read_block_present decode_def)
    moreover have "recs_apart L qs" by (rule new_records_apart [OF repo_lib_okD(3) [OF assms(1)] v(4) assms(4)])
    moreover have "holds L (map_of (bm_merge m blocks)) (mst_load (tcid L u)) qs" if "trimmed u"
      unfolding holds_iff [OF repo_lib_okD(2) [OF assms(1)]] by (intro exI [of _ u] conjI st(2) a(2)) (simp only: canonical_loaded that)
    ultimately have "repo_apply L C (bm_store m) r ws key since clk = Some (Inr (blocks, drops, r'), clk')
        \<and> c_rev (r_commit r') = rv \<and> recs_apart L qs \<and> sound_store L (map_of (bm_merge m blocks))
        \<and> repo_load L (bm_store (bm_merge m blocks)) (r_cid r') = Inr ?r \<and> r_commit ?r = r_commit r'
        \<and> held_tree L (map_of (bm_merge m blocks)) (r_data ?r) u \<and> records_of u = qs
        \<and> (canonical_tree (r_data r) s \<and> unbroken L ws (records_of s) \<longrightarrow> holds L (map_of (bm_merge m blocks)) (r_data ?r) qs)"
      using a v(2) st(1,2) by simp
    then show ?thesis unfolding Inr m Some sum.case prod.case option.case by blast
  qed
qed

lemma repo_apply_InrD:
  assumes "repo_apply L C st r ws key since clk = Some (Inr (blocks, drops, r'), clk')"
  shows "(\<exists>p. prepare L st r ws = Some (Inr p)) \<and> (\<exists>rv. mint_after since (c_rev (r_commit r)) clk = (Some rv, clk'))"
proof -
  obtain p where p: "prepare L st r ws = Some p" using assms by (auto simp: repo_apply_def)
  then obtain bs root data ds where i: "p = Inr (bs, root, data, ds)"
    using assms by (cases p) (auto simp: repo_apply_def)
  obtain o' c' where m: "mint_after since (c_rev (r_commit r)) clk = (o', c')" by fastforce
  then show ?thesis using assms p i by (cases o') (auto simp: repo_apply_def)
qed

text \<open>A repository whose commit block is its commit.\<close>

definition repo_at :: "('c, 'l) repo_lib_scheme \<Rightarrow> 'c repo \<Rightarrow> bool" where
  "repo_at L r \<longleftrightarrow> (\<exists>b. commit_to_vec L (r_commit r) = Inr b \<and> r_cid r = cid_for L b)"

lemma commit_no_node:
  assumes "repo_lib_ok L" "commit_to_vec L k = Inr b"
  shows "cid_for L b \<notin> set (tcids L s)" "cid_for L b \<notin> set (ecids L e)"
proof (induction s and e)
  case (Node es)
  have "cid_for L b \<noteq> cid_for L (node_bytes L d)" for d
    using repo_lib_okD(3) [OF assms(1)] repo_lib_okD(5) [OF assms(1), of k] assms(2) unfolding no_collision_def by auto
  with Node show ?case by auto
qed auto

lemma commit_not_apart: "commit_to_vec L k = Inr b \<Longrightarrow> \<not> apart L (cid_for L b)"
  unfolding apart_def apart_bytes_def by blast

lemma written_and_kept:
  assumes "DM = insert r (T \<union> S)" "Tu \<subseteq> DM \<union> UB" "Su \<subseteq> S \<union> R" "R \<subseteq> Su" "UB \<subseteq> Tu"
  shows "DM \<union> insert r' (R \<union> UB) = insert r' (insert r ((T \<union> S) \<union> (Tu \<union> Su)))"
  using assms by blast

lemma kept_exactly:
  assumes "X = insert r' (insert r (Fs \<union> Fu))" "D \<subseteq> Fs" "Fs - Fu \<subseteq> D" "D \<inter> Tu = {}"
    "drops = D \<union> {c. c = r \<and> c \<noteq> r'}" "Fu = Tu \<union> Ru" "r \<notin> Fu" "r' \<notin> Fs" "r' \<notin> Fu"
  shows "{c \<in> X. c \<notin> drops \<or> c \<in> Ru} = insert r' Fu"
  unfolding assms(1,5) using assms(2-4,6-9) by blast

lemma leaf_values: "lvalue ` set (tleaves v) = snd ` set (records_of v)"
  by (force simp: kv_def)

text \<open>The parts of a revision: no commit is a node or a record, and every node of the new tree is in the store or among
  the blocks.\<close>

lemma revision_apart:
  assumes L: "repo_lib_ok L" and S: "sound_store L M" and v: "revision L C M r key rv s u blocks drops r'"
    and r: "repo_at L r" and ap: "recs_apart L (records_of s)"
  shows "recs_apart L (records_of u)" "r_cid r \<notin> set (flat L u)" "r_cid r' \<notin> set (flat L s)" "r_cid r' \<notin> set (flat L u)"
    and "set (tcids L u) \<subseteq> dom M \<union> dom (map_of (ublocks L M u))"
proof -
  note ok = repo_lib_okD(1,3) [OF L]
  obtain R b where b: "new_records L (records_of s) (records_of u) R" "commit_to_vec L (r_commit r') = Inr b"
      "r_cid r' = cid_for L b" "held_tree L M (r_data r') u"
    using v unfolding revision_def by blast
  obtain n where u: "tree_wf L n u" by (rule held_tree_shape [OF b(4)])
  show apu: "recs_apart L (records_of u)" by (rule new_records_apart [OF ok(2) b(1) ap])
  obtain x where x: "commit_to_vec L (r_commit r) = Inr x" "r_cid r = cid_for L x" using r unfolding repo_at_def by blast
  have "apart L c" if "c \<in> lvalue ` set (tleaves u) \<union> lvalue ` set (tleaves s)" for c
    using that ap apu unfolding leaf_values by auto
  then show "r_cid r \<notin> set (flat L u)" "r_cid r' \<notin> set (flat L s)" "r_cid r' \<notin> set (flat L u)"
    using commit_no_node(1) [OF L x(1)] commit_not_apart [OF x(1)] commit_no_node(1) [OF L b(2)] commit_not_apart [OF b(2)] x(2) b(3)
    by (auto simp: set_flat)
  show "set (tcids L u) \<subseteq> dom M \<union> dom (map_of (ublocks L M u))" by (rule ublocks_dom(1) [OF ok(2) S u])
qed

text \<open>From a store that is exactly one revision, the blocks to store and to forget, but for the records the new revision
  names, make exactly the next.\<close>

lemma revision_kept:
  assumes L: "repo_lib_ok L" and S: "sound_store L M" and v: "revision L C M r key rv s u blocks drops r'"
    and r: "repo_at L r" and ap: "recs_apart L (records_of s)" and d: "dom M = insert (r_cid r) (set (flat L s))"
  shows "{c \<in> dom M \<union> dom (map_of blocks). c \<notin> set drops \<or> c \<in> snd ` set (records_of u)} = insert (r_cid r') (set (flat L u))"
proof -
  note pt = revision_apart [OF L S v r ap]
  obtain R D b where b: "map_of blocks = (R ++ map_of (ublocks L M u))(r_cid r' \<mapsto> b)" "new_records L (records_of s) (records_of u) R"
      "D \<subseteq> set (flat L s)" "set (flat L s) - set (flat L u) \<subseteq> D" "D \<inter> set (tcids L u) = {}"
      "set drops = D \<union> {c. c = r_cid r \<and> c \<noteq> r_cid r'}"
    using v unfolding revision_def by auto
  have recs: "snd ` set (records_of u) \<subseteq> snd ` set (records_of s) \<union> dom R" "dom R \<subseteq> snd ` set (records_of u)"
    using b(2) by (auto simp: new_records_def)
  have ub: "dom (map_of (ublocks L M u)) \<subseteq> set (tcids L u)" using ublocks_sound(1) [of L M u] by auto
  have "dom M \<union> dom (map_of blocks) = dom M \<union> insert (r_cid r') (dom R \<union> dom (map_of (ublocks L M u)))" using b(1) by auto
  also have "\<dots> = insert (r_cid r') (insert (r_cid r) (set (flat L s) \<union> set (flat L u)))"
    using written_and_kept [OF d [unfolded set_flat leaf_values] pt(5) recs ub] by (simp add: set_flat leaf_values)
  finally have x: "dom M \<union> dom (map_of blocks) = insert (r_cid r') (insert (r_cid r) (set (flat L s) \<union> set (flat L u)))" .
  show ?thesis by (rule kept_exactly [OF x b(3-6) _ pt(2-4)]) (simp add: set_flat leaf_values)
qed

text \<open>C2: what \<open>apply\<close> says to forget and to store, \<open>u\<close> being the tree of the records after. No node of that tree is
  forgotten, nor its commit; everything the old tree reached and the new one does not is, and the old commit. Every
  block to store is the new commit, a node of the new tree or a record it holds; every node the store lacks and every record
  the writes put under a key are among them. A record may be listed that another key still names; in a store that was exactly the
  old revision, storing the one and forgetting the other save the records the new revision names leaves exactly the new
  revision.\<close>

theorem repo_apply_blocks:
  assumes "repo_lib_ok L" "sound_store L (map_of m)" "held_tree L (map_of m) (r_data r) s" "recs_apart L (records_of s)"
    and "repo_at L r" "repo_apply L C (bm_store m) r ws key since clk = Some (Inr (blocks, drops, r'), clk')"
  shows "\<exists>u. apply_spec L ws (records_of s) = Inr (records_of u) \<and> c_data (r_commit r') = tcid L u
    \<and> set drops \<inter> set (tcids L u) = {} \<and> r_cid r' \<notin> set drops
    \<and> set (flat L s) - set (flat L u) \<subseteq> set drops \<and> set drops \<subseteq> insert (r_cid r) (set (flat L s))
    \<and> (r_cid r \<noteq> r_cid r' \<longrightarrow> r_cid r \<in> set drops)
    \<and> dom (map_of blocks) \<subseteq> insert (r_cid r') (set (flat L u)) \<and> r_cid r' \<in> dom (map_of blocks)
    \<and> set (tcids L u) \<subseteq> dom (map_of m) \<union> dom (map_of blocks)
    \<and> (\<forall>p \<in> set (records_of u). p \<in> set (records_of s) \<or> snd p \<in> dom (map_of blocks))
    \<and> (dom (map_of m) = insert (r_cid r) (set (flat L s)) \<longrightarrow>
        {c \<in> dom (map_of m) \<union> dom (map_of blocks). c \<notin> set drops \<or> c \<in> snd ` set (records_of u)} = insert (r_cid r') (set (flat L u)))"
proof -
  obtain qs rv where qs: "apply_spec L ws (records_of s) = Inr qs" and m: "mint_after since (c_rev (r_commit r)) clk = (Some rv, clk')"
    using repo_apply_InrD [OF assms(6)] bmo.prepare_refused [OF assms(1,3)] by (cases "apply_spec L ws (records_of s)") auto
  obtain u where a: "records_of u = qs" "revision L C (map_of m) r key rv s u blocks drops r'"
    by (rule bmo.repo_apply_ok [OF assms(1,3) qs assms(4) m, of C key]) (use assms(6) in auto)
  obtain R D b where v: "map_of blocks = (R ++ map_of (ublocks L (map_of m) u))(r_cid r' \<mapsto> b)" "new_records L (records_of s) (records_of u) R"
      "c_data (r_commit r') = tcid L u"
      "D \<subseteq> set (flat L s)" "set (flat L s) - set (flat L u) \<subseteq> D" "D \<inter> set (tcids L u) = {}"
      "set drops = D \<union> {c. c = r_cid r \<and> c \<noteq> r_cid r'}"
    using a(2) unfolding revision_def by auto
  note pt = revision_apart [OF assms(1,2) a(2) assms(5,4)]
  have db: "dom (map_of blocks) = insert (r_cid r') (dom R \<union> dom (map_of (ublocks L (map_of m) u)))" using v(1) by auto
  have R: "dom R \<subseteq> snd ` set (records_of u)" "\<forall>p \<in> set (records_of u). p \<in> set (records_of s) \<or> snd p \<in> dom R"
    using v(2) unfolding new_records_def by blast+
  have ub: "dom (map_of (ublocks L (map_of m) u)) \<subseteq> set (tcids L u)" using ublocks_sound(1) [of L "map_of m" u] by auto
  have fl: "set (flat L u) = set (tcids L u) \<union> snd ` set (records_of u)" by (simp only: set_flat leaf_values)
  have "r_cid r' \<notin> set drops" using v(4,7) pt(3) by blast
  moreover have "set drops \<inter> set (tcids L u) = {}" using v(6,7) pt(2) fl by blast
  moreover have "set (flat L s) - set (flat L u) \<subseteq> set drops" "set drops \<subseteq> insert (r_cid r) (set (flat L s))"
    "r_cid r \<noteq> r_cid r' \<longrightarrow> r_cid r \<in> set drops" using v(4,5,7) by blast+
  moreover have "dom (map_of blocks) \<subseteq> insert (r_cid r') (set (flat L u))" "r_cid r' \<in> dom (map_of blocks)"
    "set (tcids L u) \<subseteq> dom (map_of m) \<union> dom (map_of blocks)"
    "\<forall>p \<in> set (records_of u). p \<in> set (records_of s) \<or> snd p \<in> dom (map_of blocks)"
    unfolding db fl using R ub pt(5) by blast+
  ultimately show ?thesis
    using qs a(1) v(3) revision_kept [OF assms(1,2) a(2) assms(5,4)] by (intro exI [of _ u]) blast
qed


lemma commit_sign_verifies:
  assumes "repo_lib_ok L" "crypto_ok C" "commit_sign L C did rv data key = Inr k"
  shows "commit_verify L C k (public_of C key) = Inr ()"
  using assms(3) verify_own_key [OF assms(2), of key] by (auto simp: commit_sign_def commit_verify_def encode_def result_simps)

text \<open>C3: a revision \<open>apply\<close> signs is of the account it was, at version 3, strictly after the one it
  follows, and verifies under the account's public key.\<close>

theorem repo_apply_signed:
  assumes "repo_lib_ok L" "crypto_ok C" "tid_validate (tid_str (c_rev (r_commit r))) = Inr ()"
    and "repo_apply L C st r ws key since clk = Some (Inr (blocks, drops, r'), clk')"
  shows "repo_verify L C r' (public_of C key) = Inr () \<and> c_did (r_commit r') = c_did (r_commit r)
    \<and> c_version (r_commit r') = 3 \<and> tid_str (c_rev (r_commit r)) < tid_str (c_rev (r_commit r'))
    \<and> tid_validate (tid_str (c_rev (r_commit r'))) = Inr ()"
proof -
  obtain rv where m: "mint_after since (c_rev (r_commit r)) clk = (Some rv, clk')" and "\<exists>p. prepare L st r ws = Some (Inr p)"
    using repo_apply_InrD [OF assms(4)] by blast
  then obtain bs root data ds where p: "prepare L st r ws = Some (Inr (bs, root, data, ds))" by auto
  have k: "commit_sign L C (c_did (r_commit r)) rv root key = Inr (r_commit r')"
    using assms(4) p m by (auto simp: repo_apply_def result_simps)
  have "c_did k = did \<and> c_version k = VERSION \<and> c_rev k = t" if "commit_sign L C did t data key = Inr k" for did t data k
    using that by (auto simp: commit_sign_def result_simps)
  from this [OF k] have "c_did (r_commit r') = c_did (r_commit r)" "c_version (r_commit r') = 3" "c_rev (r_commit r') = rv"
    by (simp_all add: VERSION_def)
  moreover have "tid_validate (tid_str rv) = Inr ()" "tid_str (c_rev (r_commit r)) < tid_str rv"
    using minted_after [OF assms(3) m] by simp_all
  ultimately show ?thesis
    using commit_sign_verifies [OF assms(1,2) k] by (simp add: repo_verify_def)
qed

text \<open>A new repository is its commit and the one node of an empty tree.\<close>

lemma repo_create_ok:
  assumes "repo_lib_ok L"
  obtains k b data where
    "repo_create L C did key since clk = (Inr (\<lparr>r_cid = cid_for L b, r_commit = k, r_data = data\<rparr>,
       bm_insert (cid_for L b) b (ublocks L (map_of []) (Node []))), snd (mint since clk))"
    "commit_sign L C did (fst (mint since clk)) (tcid L (Node [])) key = Inr k" "c_did k = did" "c_data k = tcid L (Node [])"
    "commit_to_vec L k = Inr b" "commit_from_slice L b = Inr k" "\<And>d. node_bytes L d \<noteq> b"
proof -
  note t = held_empty [of L "map_of []"]
  obtain data where d: "unstored_blocks L (bm_store []) mst_empty = Inr ((tcid L (Node []), ublocks L (map_of []) (Node [])), data)"
    by (rule bmo.unstored_tree [OF repo_lib_okD(1) [OF assms] t])
  let ?rv = "fst (mint since clk)"
  obtain x where x: "unsigned_to_vec L \<lparr>u_did = did, u_version = VERSION, u_data = tcid L (Node []), u_rev = ?rv, u_prev = None\<rparr> = Inr x"
    using repo_lib_okD(4) [OF assms] by blast
  define k where "k = \<lparr>c_did = did, c_version = VERSION, c_data = tcid L (Node []), c_rev = ?rv, c_prev = None, c_sig = sign C key x\<rparr>"
  have sg: "commit_sign L C did ?rv (tcid L (Node [])) key = Inr k" using x by (simp add: commit_sign_def encode_def k_def)
  obtain b where b: "commit_to_vec L k = Inr b" "commit_from_slice L b = Inr k" "\<And>d. node_bytes L d \<noteq> b"
    using repo_lib_okD(5) [OF assms, of k] by blast
  have "repo_create L C did key since clk = (Inr (\<lparr>r_cid = cid_for L b, r_commit = k, r_data = data\<rparr>,
      bm_insert (cid_for L b) b (ublocks L (map_of []) (Node []))), snd (mint since clk))"
    using d sg b(1) by (simp add: repo_create_def bm_add_def encode_def Let_def case_prod_beta)
  then show thesis by (rule that [OF _ sg _ _ b]) (simp_all add: k_def)
qed

text \<open>a repository just created, with the blocks it returns stored, is read back as its commit over
  a tree with no records, and its commit verifies under the key that signed it.\<close>

theorem repo_create_correct:
  assumes "repo_lib_ok L" "crypto_ok C"
  shows "\<exists>r blocks r''. repo_create L C did key since clk = (Inr (r, blocks), snd (mint since clk))
    \<and> repo_verify L C r (public_of C key) = Inr () \<and> c_did (r_commit r) = did \<and> sound_store L (map_of blocks)
    \<and> repo_load L (bm_store blocks) (r_cid r) = Inr r'' \<and> r_commit r'' = r_commit r
    \<and> holds L (map_of blocks) (r_data r'') []"
proof -
  note ok = repo_lib_okD(1,3) [OF assms(1)]
  let ?T = "ublocks L (map_of []) (Node [])"
  obtain k b data where c: "repo_create L C did key since clk = (Inr (\<lparr>r_cid = cid_for L b, r_commit = k, r_data = data\<rparr>,
      bm_insert (cid_for L b) b ?T), snd (mint since clk))"
    and sg: "commit_sign L C did (fst (mint since clk)) (tcid L (Node [])) key = Inr k" and k: "c_did k = did" "c_data k = tcid L (Node [])"
    and b: "commit_to_vec L k = Inr b" "commit_from_slice L b = Inr k" "\<And>d. node_bytes L d \<noteq> b"
    using repo_create_ok [OF assms(1), of C did key since clk] by metis
  have eq: "map_of (bm_insert (cid_for L b) b ?T) = map_of ?T ++ [cid_for L b \<mapsto> b]" by simp
  have wf: "tree_wf L 0 (Node [])" "keys_sorted (tleaves (Node []))" "trimmed (Node [])" by simp_all
  have sv: "sound_store L (map_of ?T)" "stored L (map_of ?T) (Node [])"
    using save_sound [OF ok sound_store_empty wf(1)] by simp_all
  have so: "sound_store L (map_of (bm_insert (cid_for L b) b ?T))"
    unfolding eq by (rule sound_extend [OF ok(2) sv(1)]) (use b(3) in \<open>auto simp: addressed_def split: if_splits\<close>)
  have "stored L (map_of (bm_insert (cid_for L b) b ?T)) (Node [])"
    by (rule stored_more [OF ok(2) _ _ _ sv(2)]) (use sv(1) so in \<open>auto simp: sound_store_def\<close>)
  then have "held_tree L (map_of (bm_insert (cid_for L b) b ?T)) (mst_load (tcid L (Node []))) (Node [])"
    using held_stored [OF _ wf(1,2)] by blast
  then have h: "holds L (map_of (bm_insert (cid_for L b) b ?T)) (mst_load (tcid L (Node []))) []"
    unfolding holds_iff [OF repo_lib_okD(2) [OF assms(1)]]
    by (intro exI [of _ "Node []"] conjI) (assumption, simp only: canonical_loaded wf(3), simp)
  have "repo_load L (bm_store (bm_insert (cid_for L b) b ?T)) (cid_for L b)
      = Inr \<lparr>r_cid = cid_for L b, r_commit = k, r_data = mst_load (tcid L (Node []))\<rparr>"
    using b(2) by (simp add: repo_load_def bm.read_block_present [where b = b] decode_def k)
  then show ?thesis
    using c so h k commit_sign_verifies [OF assms sg]
    by (intro exI [of _ "\<lparr>r_cid = cid_for L b, r_commit = k, r_data = data\<rparr>"]) (auto simp: repo_verify_def)
qed

text \<open>C17: the key a write lands on is a valid tree key whenever its collection and record key are valid:
  no well-formed write is refused for its key.\<close>

theorem write_key_valid:
  assumes "nsid_validate (nsid_str (fst (write_target w))) = Inr ()"
    and "record_key_validate (record_key_str (snd (write_target w))) = Inr ()"
  shows "valid_key (write_key w)"
proof -
  obtain n k where w: "write_target w = (n, k)" by fastforce
  have n: "\<And>c. c \<in> set (nsid_str n) \<Longrightarrow> domain_byte c" "nsid_str n \<noteq> []" "length (nsid_str n) \<le> 317"
    using assms(1) w nsid_validate_bytes nsid_nt.validate_len nsid_nt.validate_nonempty by auto
  have k: "\<And>c. c \<in> set (record_key_str k) \<Longrightarrow> record_key_is_allowed c" "record_key_str k \<noteq> []" "length (record_key_str k) \<le> 512"
    using assms(2) w by (auto simp: record_key_validate_def list_all_iff split: if_splits)
  have kb: "is_key_byte c" if "domain_byte c \<or> record_key_is_allowed c" for c
    using that by (auto simp: is_key_byte_def domain_byte_def record_key_is_allowed_def)
  have slash: "\<not> is_key_byte CHR ''/''" by (simp add: is_key_byte_def ascii_defs less_eq_char_def)
  then have "CHR ''/'' \<notin> set (nsid_str n)" "CHR ''/'' \<notin> set (record_key_str k)" using n(1) k(1) kb by blast+
  then have "split_on CHR ''/'' (write_key w) = [nsid_str n, record_key_str k]"
    using w by (simp add: write_key_def split_on_append_sep)
  then show ?thesis
    using n k kb w by (auto simp: valid_key_def write_key_def MAX_KEY_LEN_def list_all_iff)
qed


section \<open>An instance\<close>

definition commit_tuple ::
    "string commit \<Rightarrow> string \<times> nat \<times> string \<times> string \<times> string option \<times> string" where
  "commit_tuple k = (did_str (c_did k), c_version k, c_data k, tid_str (c_rev k), c_prev k, c_sig k)"

definition tuple_commit ::
    "string \<times> nat \<times> string \<times> string \<times> string option \<times> string \<Rightarrow> string commit" where
  "tuple_commit x = (case x of (d, v, r, t, p, g) \<Rightarrow>
     \<lparr>c_did = Did d, c_version = v, c_data = r, c_rev = Tid t, c_prev = p, c_sig = g\<rparr>)"

text \<open>Nodes are encoded in \<open>x\<close>, commits behind a \<open>c\<close> and records as \<open>r\<close>.\<close>

definition toy_repo_lib :: "string repo_lib" where
  "toy_repo_lib = \<lparr>sha256 = sha256 toy_lib, new_v1 = new_v1 toy_lib, node_to_vec = node_to_vec toy_lib,
     node_from_slice = node_from_slice toy_lib,
     ipld_to_vec = (\<lambda>r. Inr ''r''),
     commit_to_vec = (\<lambda>k. Inr (CHR ''c'' # replicate (to_nat (commit_tuple k)) CHR ''y'')),
     commit_from_slice = (\<lambda>b. Inr (tuple_commit (from_nat (length b - 1)))),
     unsigned_to_vec = (\<lambda>u. Inr ''u'')\<rparr>"

lemma tuple_commit_tuple: "tuple_commit (commit_tuple k) = k"
proof -
  have "Did (did_str d) = d" "Tid (tid_str t) = t" for d t by (cases d, simp) (cases t, simp)
  then show ?thesis by (simp add: tuple_commit_def commit_tuple_def)
qed

lemma toy_repo_ok: "repo_lib_ok toy_repo_lib"
proof -
  have lib: "codec_ok toy_repo_lib" "layers_ok toy_repo_lib" "no_collision toy_repo_lib"
    using toy_ok
    by (simp_all add: codec_ok_def layers_ok_def no_collision_def toy_repo_lib_def leading_zeros_def cid_for_def)
  have nb: "node_bytes toy_repo_lib d = replicate n c \<Longrightarrow> n = 0 \<or> c = CHR ''x''"
    "CHR ''c'' \<notin> set (node_bytes toy_repo_lib d)" "CHR ''r'' \<notin> set (node_bytes toy_repo_lib d)" for d n c
    by (auto simp: node_bytes_def toy_repo_lib_def toy_lib_def replicate_eq_replicate)
  show ?thesis
    unfolding repo_lib_ok_def apart_bytes_def
  proof (intro conjI allI impI lib)
    fix k
    have "node_bytes toy_repo_lib d \<noteq> CHR ''c'' # bs" for d bs using nb(2) [of d] by auto
    then show "\<exists>b. commit_to_vec toy_repo_lib k = Inr b \<and> commit_from_slice toy_repo_lib b = Inr k \<and> (\<forall>d. node_bytes toy_repo_lib d \<noteq> b)"
      by (simp add: tuple_commit_tuple toy_repo_lib_def [of] )
  next
    fix r :: "string ipld" and b d assume "ipld_to_vec toy_repo_lib r = Inr b"
    then have "b = ''r''" by (simp add: toy_repo_lib_def)
    then show "node_bytes toy_repo_lib d \<noteq> b" using nb(3) [of d] by auto
  next
    fix r :: "string ipld" and b k assume "ipld_to_vec toy_repo_lib r = Inr b"
    then show "commit_to_vec toy_repo_lib k \<noteq> Inr b" by (auto simp: toy_repo_lib_def)
  qed (simp add: toy_repo_lib_def)
qed


definition toy_commit :: "string commit" where
  "toy_commit = \<lparr>c_did = Did ''did:plc:a'', c_version = 3, c_data = ''d'', c_rev = Tid ''3jqfcqzm4fc2j'', c_prev = None, c_sig = []\<rparr>"

definition toy_repo :: "string repo" where
  "toy_repo = \<lparr>r_cid = cid_for toy_repo_lib (CHR ''c'' # replicate (to_nat (commit_tuple toy_commit)) CHR ''y''),
     r_commit = toy_commit, r_data = toy_tree\<rparr>"

definition toy_clock :: clock where
  "toy_clock = \<lparr>clock_id = 7, last_micros = 0\<rparr>"

lemma toy_repo_zeros: "leading_zeros toy_repo_lib k = leading_zeros toy_lib k"
  by (simp add: leading_zeros_def toy_repo_lib_def)

definition toy_nodes :: "string tree" where
  "toy_nodes = Node [TL \<lparr>lkey = ''a/b'', lvalue = ''1''\<rparr>, TL \<lparr>lkey = ''c/d'', lvalue = ''2''\<rparr>]"

lemma toy_repo_holds: "held_tree toy_repo_lib (map_of []) (r_data toy_repo) toy_nodes" "canonical_tree (r_data toy_repo) toy_nodes"
  unfolding toy_nodes_def toy_repo_def toy_tree_def
  by (rule held_treeI [of _ _ 0 _ _ "{}"])
    (simp_all add: ready_from_entries hint_def readys_def toy_repo_zeros toy_zeros valid_keys less_char_def canonical_tree_def)

lemma toy_records: "records_of toy_nodes = [(''a/b'', ''1''), (''c/d'', ''2'')]"
  by (simp add: toy_nodes_def)

lemma toy_repo_apart: "recs_apart toy_repo_lib (records_of toy_nodes)"
  unfolding toy_records
  by (auto simp: apart_def cid_for_def toy_repo_lib_def toy_lib_def split: if_splits)

definition toy_writes :: "string repo_write list" where
  "toy_writes = [Delete (Nsid ''a'') (RecordKey ''b'')]"

lemma toy_writes_spec:
  "apply_spec toy_repo_lib toy_writes (records_of toy_nodes) = Inr [(''c/d'', ''2'')]"
  "unbroken toy_repo_lib toy_writes (records_of toy_nodes)"
  unfolding toy_records
  by (simp_all add: apply_spec_def toy_writes_def names_collection_def write_spec_def write_key_def Let_def)

text \<open>Both records deleted and one made again, which the map allows.\<close>

definition toy_remade :: "string repo_write list" where
  "toy_remade = [Delete (Nsid ''a'') (RecordKey ''b''), Delete (Nsid ''c'') (RecordKey ''d''),
     Create (Nsid ''a'') (RecordKey ''b'') (IMap [(''$type'', IString ''a'')])]"

lemma toy_remade_spec:
  "apply_spec toy_repo_lib toy_remade (records_of toy_nodes) = Inr [(''a/b'', cid_for toy_repo_lib ''r'')]"
  "\<not> unbroken toy_repo_lib toy_remade (records_of toy_nodes)"
  unfolding toy_records
  by (simp_all add: apply_spec_def toy_remade_def names_collection_def write_spec_def write_key_def Let_def encode_def valid_keys toy_repo_lib_def)

lemma toy_minted: "\<exists>rv clk. mint_after None (c_rev (r_commit toy_repo)) toy_clock = (Some rv, clk)"
proof -
  have "fst (to_parts (Tid ''3jqfcqzm4fc2j'')) < MICROS - 1"
    by (simp add: to_parts_def tid_digit_def CLOCK_IDS_def MICROS_def)
  then show ?thesis by (simp add: mint_after_def toy_repo_def toy_commit_def toy_clock_def Let_def split: prod.splits)
qed

lemma toy_applied:
  "\<exists>blocks drops r' clk. repo_apply toy_repo_lib toy_crypto (bm_store []) toy_repo toy_writes (KP256 True) None toy_clock
     = Some (Inr (blocks, drops, r'), clk)"
proof -
  obtain rv clk where m: "mint_after None (c_rev (r_commit toy_repo)) toy_clock = (Some rv, clk)" using toy_minted by blast
  show ?thesis
    by (rule bmo.repo_apply_ok [OF toy_repo_ok toy_repo_holds(1) toy_writes_spec(1) toy_repo_apart m, of toy_crypto "KP256 True"]) blast
qed

theorem repo_apply_correct_witness:
  "\<exists>blocks drops r' r'' clk u. repo_apply toy_repo_lib toy_crypto (bm_store []) toy_repo toy_remade (KP256 True) None toy_clock
       = Some (Inr (blocks, drops, r'), clk)
     \<and> repo_load toy_repo_lib (bm_store (bm_merge [] blocks)) (r_cid r') = Inr r''
     \<and> held_tree toy_repo_lib (map_of (bm_merge [] blocks)) (r_data r'') u \<and> records_of u = [(''a/b'', cid_for toy_repo_lib ''r'')]"
proof -
  obtain rv clk where m: "mint_after None (c_rev (r_commit toy_repo)) toy_clock = (Some rv, clk)" using toy_minted by blast
  show ?thesis
    using repo_apply_correct [OF toy_repo_ok sound_store_empty toy_repo_holds(1) toy_repo_apart,
        where ws = toy_remade and C = toy_crypto and key = "KP256 True" and since = None and clk = toy_clock]
    unfolding toy_remade_spec(1) m sum.case prod.case option.case by (elim exE conjE) (intro exI conjI)
qed

theorem repo_apply_blocks_witness:
  "\<exists>blocks drops r' clk u. repo_apply toy_repo_lib toy_crypto (bm_store []) toy_repo toy_writes (KP256 True) None toy_clock
       = Some (Inr (blocks, drops, r'), clk) \<and> records_of u = [(''c/d'', ''2'')]
     \<and> set drops \<inter> set (tcids toy_repo_lib u) = {}
     \<and> set (flat toy_repo_lib toy_nodes) - set (flat toy_repo_lib u) \<subseteq> set drops"
proof -
  obtain blocks drops r' clk where a: "repo_apply toy_repo_lib toy_crypto (bm_store []) toy_repo toy_writes (KP256 True) None toy_clock
      = Some (Inr (blocks, drops, r'), clk)" using toy_applied by blast
  have "repo_at toy_repo_lib toy_repo" by (simp add: repo_at_def toy_repo_def toy_repo_lib_def)
  from repo_apply_blocks [OF toy_repo_ok sound_store_empty toy_repo_holds(1) toy_repo_apart this a]
  obtain u where "apply_spec toy_repo_lib toy_writes (records_of toy_nodes) = Inr (records_of u)" "set drops \<inter> set (tcids toy_repo_lib u) = {}"
      "set (flat toy_repo_lib toy_nodes) - set (flat toy_repo_lib u) \<subseteq> set drops"
    by (elim exE conjE) (rule that; assumption)
  with a toy_writes_spec(1) show ?thesis by (metis sum.inject(2))
qed

theorem repo_apply_signed_witness:
  "\<exists>blocks drops r' clk. repo_apply toy_repo_lib toy_crypto (bm_store []) toy_repo toy_writes (KP256 True) None toy_clock
       = Some (Inr (blocks, drops, r'), clk)
     \<and> repo_verify toy_repo_lib toy_crypto r' (public_of toy_crypto (KP256 True)) = Inr ()
     \<and> ''3jqfcqzm4fc2j'' < tid_str (c_rev (r_commit r'))"
proof -
  have v: "tid_validate (tid_str (c_rev (r_commit toy_repo))) = Inr ()"
    by (simp add: toy_repo_def toy_commit_def tid_validate_def tid_is_digit_def)
  obtain blocks drops r' clk where a: "repo_apply toy_repo_lib toy_crypto (bm_store []) toy_repo toy_writes (KP256 True) None toy_clock
      = Some (Inr (blocks, drops, r'), clk)" using toy_applied by blast
  from repo_apply_signed [OF toy_repo_ok toy_crypto_ok v a]
  show ?thesis using a by (auto simp: toy_repo_def toy_commit_def)
qed

theorem repo_create_correct_witness:
  "\<exists>r blocks r''. repo_create toy_repo_lib toy_crypto (Did ''did:plc:a'') (KP256 True) None toy_clock
       = (Inr (r, blocks), snd (mint None toy_clock))
     \<and> repo_load toy_repo_lib (bm_store blocks) (r_cid r) = Inr r'' \<and> holds toy_repo_lib (map_of blocks) (r_data r'') []"
  using repo_create_correct [OF toy_repo_ok toy_crypto_ok, of "Did ''did:plc:a''" "KP256 True" None toy_clock] by blast

theorem write_key_valid_witness:
  "valid_key (write_key (Delete (Nsid ''a.b.c'') (RecordKey ''d'') :: string repo_write))"
  by (rule write_key_valid) (simp_all add: nsid_validate_def nsid_validate_segment_def record_key_validate_def
    record_key_is_allowed_def ascii_defs less_eq_char_def Let_def starts_with_def starts_with_by_def ends_with_byte_def)

end
