(* ===== verification/Car.thy ===== *)
theory Car
  imports Mst_Hash
begin

text \<open>
  CAR files, \<open>src/repo/car.rs\<close>: a header and blocks, each behind its length. Varints, the bytes of a
  CID and the header's CBOR are other crates; what they promise is \<open>car_ok\<close>. The loop over the blocks
  goes on as long as bytes are left, so it is a partial function, shown to return on every input.
\<close>

section \<open>Writing and reading\<close>

record 'c header =
  ch_version :: nat
  ch_roots :: "'c list"

record 'c car_lib = "'c mst_lib" +
  header_to_vec :: "'c header \<Rightarrow> string + bytes"
  header_from_slice :: "bytes \<Rightarrow> string + 'c header"
  varint_encode :: "nat \<Rightarrow> bytes"
  varint_decode :: "bytes \<Rightarrow> (nat \<times> bytes) option"
  cid_to_bytes :: "'c \<Rightarrow> bytes"
  cid_read_bytes :: "bytes \<Rightarrow> ('c \<times> bytes) option"
  hash_code :: "'c \<Rightarrow> nat"
  hash_digest :: "'c \<Rightarrow> bytes"

definition car_header :: "('c, 'l) car_lib_scheme \<Rightarrow> 'c list \<Rightarrow> 'c repo_error + bytes" where
  "car_header L roots =
     bindE (encode (header_to_vec L) \<lparr>ch_version = 1, ch_roots = roots\<rparr>) (\<lambda>h.
     Inr (varint_encode L (length h) @ h))"

definition car_push :: "('c, 'l) car_lib_scheme \<Rightarrow> bytes \<Rightarrow> 'c \<Rightarrow> bytes \<Rightarrow> bytes" where
  "car_push L car c b =
     car @ varint_encode L (length (cid_to_bytes L c) + length b) @ cid_to_bytes L c @ b"

definition car_rooted :: "('c, 'l) car_lib_scheme \<Rightarrow> 'c list \<Rightarrow> 'c block_map \<Rightarrow> 'c repo_error + bytes" where
  "car_rooted L roots blocks =
     bindE (car_header L roots) (\<lambda>car. Inr (fold (\<lambda>(c, b) car. car_push L car c b) blocks car))"

definition car_write :: "('c, 'l) car_lib_scheme \<Rightarrow> 'c \<Rightarrow> 'c block_map \<Rightarrow> 'c repo_error + bytes" where
  "car_write L root blocks = car_rooted L [root] blocks"

definition car_write_blocks :: "('c, 'l) car_lib_scheme \<Rightarrow> 'c block_map \<Rightarrow> 'c repo_error + bytes" where
  "car_write_blocks L blocks = car_rooted L [] blocks"

text \<open>\<open>usize\<close> has 64 bits.\<close>

definition take_chunk :: "('c, 'l) car_lib_scheme \<Rightarrow> bytes \<Rightarrow> 'c repo_error + (bytes \<times> bytes)" where
  "take_chunk L b =
     bindE (ok_or (MalformedCar ''a length that is not a varint'') (varint_decode L b)) (\<lambda>(len, rest).
     if len \<ge> 2 ^ 64 \<or> len > length rest then Inl (MalformedCar ''a length past the file'')
     else Inr (take len rest, drop len rest))"

definition hashes_to :: "('c, 'l) car_lib_scheme \<Rightarrow> 'c \<Rightarrow> bytes \<Rightarrow> bool" where
  "hashes_to L c b \<longleftrightarrow> hash_code L c = SHA2_256 \<and> hash_digest L c = sha256 L b"

definition read_chunk :: "('c, 'l) car_lib_scheme \<Rightarrow> bytes \<Rightarrow> 'c repo_error + ('c \<times> bytes \<times> bytes)" where
  "read_chunk L rest =
     bindE (take_chunk L rest) (\<lambda>(chunk, next).
     bindE (ok_or (MalformedCar ''a block under something that is not a CID'') (cid_read_bytes L chunk)) (\<lambda>(c, b).
     if hashes_to L c b then Inr (c, b, next) else Inl (WrongCid c)))"

partial_function (option) read_loop ::
    "('c::linorder, 'l) car_lib_scheme \<Rightarrow> bytes \<Rightarrow> 'c block_map \<Rightarrow> ('c repo_error + 'c block_map) option" where
  "read_loop L rest blocks =
     (if rest = [] then Some (Inr blocks)
      else
        (case read_chunk L rest of
           Inl e \<Rightarrow> Some (Inl e)
         | Inr (c, b, next) \<Rightarrow> read_loop L next (bm_insert c b blocks)))"

definition read_roots ::
    "('c::linorder, 'l) car_lib_scheme \<Rightarrow> bytes \<Rightarrow> ('c repo_error + ('c list \<times> 'c block_map)) option" where
  "read_roots L car =
     (case bindE (take_chunk L car) (\<lambda>(h, rest). bindE (decode (header_from_slice L) h) (\<lambda>h. Inr (h, rest))) of
        Inl e \<Rightarrow> Some (Inl e)
      | Inr (h, rest) \<Rightarrow>
          if ch_version h \<noteq> 1 then Some (Inl (MalformedCar ''not a version 1 file''))
          else map_option (\<lambda>r. bindE r (\<lambda>blocks. Inr (ch_roots h, blocks))) (read_loop L rest []))"

definition car_read ::
    "('c::linorder, 'l) car_lib_scheme \<Rightarrow> bytes \<Rightarrow> ('c repo_error + ('c \<times> 'c block_map)) option" where
  "car_read L car =
     map_option (\<lambda>r. bindE r (\<lambda>(roots, blocks).
       case roots of
         [root] \<Rightarrow> bindE (bm_contains blocks root) (\<lambda>there. if there then Inr (root, blocks) else Inl (MissingBlock root))
       | _ \<Rightarrow> Inl (MalformedCar ''not exactly one root'')))
     (read_roots L car)"

definition car_read_blocks ::
    "('c::linorder, 'l) car_lib_scheme \<Rightarrow> bytes \<Rightarrow> ('c repo_error + 'c block_map) option" where
  "car_read_blocks L car = map_option (\<lambda>r. bindE r (\<lambda>(roots, blocks). Inr blocks)) (read_roots L car)"


section \<open>What the crates promise\<close>

text \<open>A varint reads back and takes at least a byte; a CID reads back, and is the hash it was made of;
  headers read back.\<close>

definition car_ok :: "('c, 'l) car_lib_scheme \<Rightarrow> bool" where
  "car_ok L \<longleftrightarrow>
     (\<forall>n rest. n < 2 ^ 64 \<longrightarrow> varint_decode L (varint_encode L n @ rest) = Some (n, rest))
     \<and> (\<forall>b n rest. varint_decode L b = Some (n, rest) \<longrightarrow> length rest < length b)
     \<and> (\<forall>c rest. cid_read_bytes L (cid_to_bytes L c @ rest) = Some (c, rest))
     \<and> (\<forall>codec code digest. hash_code L (new_v1 L codec code digest) = code \<and> hash_digest L (new_v1 L codec code digest) = digest)
     \<and> (\<forall>h. \<exists>b. header_to_vec L h = Inr b \<and> header_from_slice L b = Inr h)"

lemma car_okD:
  assumes "car_ok L"
  shows "n < 2 ^ 64 \<Longrightarrow> varint_decode L (varint_encode L n @ rest) = Some (n, rest)"
    and "varint_decode L b = Some (n, rest) \<Longrightarrow> length rest < length b"
    and "cid_read_bytes L (cid_to_bytes L c @ rest) = Some (c, rest)"
    and "hashes_to L (cid_for L b) b"
    and "\<exists>b. header_to_vec L h = Inr b \<and> header_from_slice L b = Inr h"
  using assms unfolding car_ok_def hashes_to_def cid_for_def by (blast | simp)+


section \<open>Reading ends\<close>

lemma take_chunk_shrinks: "car_ok L \<Longrightarrow> take_chunk L b = Inr (chunk, next) \<Longrightarrow> length next < length b"
  by (auto simp: take_chunk_def result_simps split: if_splits dest!: car_okD(2))

lemma read_chunk_Inr:
  assumes "car_ok L" "read_chunk L rest = Inr (c, b, next)"
  shows "length next < length rest \<and> hashes_to L c b"
  using assms by (auto simp: read_chunk_def result_simps split: if_splits dest: take_chunk_shrinks)

lemma read_loop_returns:
  assumes "car_ok L"
  shows "\<exists>r. read_loop L rest blocks = Some r"
proof (induction rest arbitrary: blocks rule: length_induct)
  case (1 rest)
  show ?case
  proof (cases "read_chunk L rest")
    case (Inr x)
    then obtain c b n where "read_chunk L rest = Inr (c, b, n)" by (metis prod_cases3)
    then show ?thesis using 1 read_chunk_Inr [OF assms, of rest c b n] by (subst read_loop.simps) auto
  qed (subst read_loop.simps, simp)
qed

text \<open>C12: reading a file returns, with a repository or an error, on every input: each turn of the loop
  takes bytes off it.\<close>

theorem car_read_returns:
  assumes "car_ok L"
  shows "(\<exists>r. car_read L car = Some r) \<and> (\<exists>r. car_read_blocks L car = Some r)"
proof -
  have "\<exists>r. read_roots L car = Some r"
  proof (cases "bindE (take_chunk L car) (\<lambda>(h, rest). bindE (decode (header_from_slice L) h) (\<lambda>h. Inr (h, rest)))")
    case (Inl e)
    then show ?thesis by (simp add: read_roots_def)
  next
    case (Inr x)
    obtain h rest where "x = (h, rest)" by fastforce
    then show ?thesis using Inr read_loop_returns [OF assms, of rest "[]"] by (auto simp: read_roots_def)
  qed
  then show ?thesis by (auto simp: car_read_def car_read_blocks_def)
qed


section \<open>What was read\<close>

definition hashed :: "('c, 'l) car_lib_scheme \<Rightarrow> 'c block_map \<Rightarrow> bool" where
  "hashed L m \<longleftrightarrow> (\<forall>c b. map_of m c = Some b \<longrightarrow> hashes_to L c b)"

lemma hashed_insert: "hashed L m \<Longrightarrow> hashes_to L c b \<Longrightarrow> hashed L (bm_insert c b m)"
  by (simp add: hashed_def)

lemma read_loop_sound:
  assumes "car_ok L"
  shows "read_loop L rest blocks = Some (Inr bs) \<Longrightarrow> ascending blocks \<Longrightarrow> hashed L blocks \<Longrightarrow> ascending bs \<and> hashed L bs"
proof (induction rest arbitrary: blocks rule: length_induct)
  case (1 rest)
  show ?case
  proof (cases "rest = []")
    case True
    then show ?thesis using "1.prems" read_loop.simps [of L rest blocks] by simp
  next
    case False
    then obtain c b n where r: "read_chunk L rest = Inr (c, b, n)" "read_loop L n (bm_insert c b blocks) = Some (Inr bs)"
      using "1.prems"(1) read_loop.simps [of L rest blocks] by (auto split: sum.splits)
    note ok = read_chunk_Inr [OF assms r(1)]
    show ?thesis
      using "1.IH" [rule_format, OF _ r(2)] ok "1.prems"(2,3) by (simp add: hashed_insert)
  qed
qed

lemma read_roots_Inr:
  assumes "read_roots L car = Some (Inr (roots, blocks))"
  shows "\<exists>rest. read_loop L rest [] = Some (Inr blocks)"
proof -
  obtain h rest where "bindE (take_chunk L car) (\<lambda>(h, rest). bindE (decode (header_from_slice L) h) (\<lambda>h. Inr (h, rest))) = Inr (h, rest)"
    using assms by (cases "bindE (take_chunk L car) (\<lambda>(h, rest). bindE (decode (header_from_slice L) h) (\<lambda>h. Inr (h, rest)))")
      (auto simp: read_roots_def)
  then show ?thesis using assms by (auto simp: read_roots_def result_simps split: if_splits)
qed

lemma car_read_Inr:
  "car_read L car = Some (Inr (root, blocks)) \<longleftrightarrow>
     read_roots L car = Some (Inr ([root], blocks)) \<and> map_of blocks root \<noteq> None"
proof (cases "read_roots L car")
  case (Some r)
  show ?thesis
  proof (cases r)
    case (Inr x)
    obtain roots bs where x: "x = (roots, bs)" by fastforce
    then show ?thesis using Some Inr by (auto simp: car_read_def bm_contains_def split: list.splits if_splits)
  qed (use Some in \<open>simp add: car_read_def\<close>)
qed (simp add: car_read_def)

text \<open>C11: what \<open>read\<close> accepts is a map of blocks in which every block hashes to its CID and the root is
  there: a block under another CID is refused.\<close>

theorem car_read_sound:
  assumes "car_ok L" "car_read L car = Some (Inr (root, blocks))"
  shows "ascending blocks \<and> (\<exists>b. map_of blocks root = Some b) \<and> (\<forall>c b. map_of blocks c = Some b \<longrightarrow> hashes_to L c b)"
proof -
  obtain rest where "read_loop L rest [] = Some (Inr blocks)" "map_of blocks root \<noteq> None"
    using assms(2) read_roots_Inr unfolding car_read_Inr by blast
  then show ?thesis using read_loop_sound [OF assms(1), of rest "[]" blocks] by (auto simp: hashed_def)
qed


section \<open>What was written\<close>

definition chunk_of :: "('c, 'l) car_lib_scheme \<Rightarrow> 'c \<times> bytes \<Rightarrow> bytes" where
  "chunk_of L p = varint_encode L (length (cid_to_bytes L (fst p)) + length (snd p)) @ cid_to_bytes L (fst p) @ snd p"

lemma fold_push: "fold (\<lambda>(c, b) car. car_push L car c b) blocks car = car @ concat (map (chunk_of L) blocks)"
  by (induction blocks arbitrary: car) (auto simp: car_push_def chunk_of_def)

lemma take_chunk_encoded:
  assumes "car_ok L" "length b < 2 ^ 64"
  shows "take_chunk L (varint_encode L (length b) @ b @ rest) = Inr (b, rest)"
  using car_okD(1) [OF assms(1), of "length b" "b @ rest"] assms(2) by (simp add: take_chunk_def)

text \<open>The lengths a file records are of 64 bits.\<close>

definition fits :: "('c, 'l) car_lib_scheme \<Rightarrow> 'c block_map \<Rightarrow> bool" where
  "fits L blocks \<longleftrightarrow> (\<forall>(c, b) \<in> set blocks. length (cid_to_bytes L c) + length b < 2 ^ 64)"

definition header_fits :: "('c, 'l) car_lib_scheme \<Rightarrow> 'c list \<Rightarrow> bool" where
  "header_fits L roots \<longleftrightarrow>
     (case header_to_vec L \<lparr>ch_version = 1, ch_roots = roots\<rparr> of Inl _ \<Rightarrow> True | Inr h \<Rightarrow> length h < 2 ^ 64)"

lemma read_chunk_encoded:
  assumes "car_ok L" "length (cid_to_bytes L c) + length b < 2 ^ 64" "hashes_to L c b"
  shows "read_chunk L (chunk_of L (c, b) @ rest) = Inr (c, b, rest)"
  using take_chunk_encoded [OF assms(1), of "cid_to_bytes L c @ b" rest] assms(2,3) car_okD(3) [OF assms(1), of c b]
  by (simp add: read_chunk_def chunk_of_def)

lemma chunk_of_not_Nil: "car_ok L \<Longrightarrow> chunk_of L p \<noteq> []"
proof
  assume L: "car_ok L" "chunk_of L p = []"
  then have "varint_encode L 0 = []" by (auto simp: chunk_of_def)
  then show False using car_okD(1) [OF L(1), of 0 "[]"] car_okD(2) [OF L(1), of "[]" 0 "[]"] by simp
qed

lemma read_loop_encoded:
  assumes "car_ok L"
  shows "fits L bs \<Longrightarrow> (\<forall>(c, b) \<in> set bs. hashes_to L c b) \<Longrightarrow>
    read_loop L (concat (map (chunk_of L) bs)) blocks = Some (Inr (bm_merge blocks bs))"
proof (induction bs arbitrary: blocks)
  case Nil
  then show ?case by (subst read_loop.simps) simp
next
  case (Cons p bs)
  obtain c b where p: "p = (c, b)" by fastforce
  have "read_chunk L (concat (map (chunk_of L) (p # bs))) = Inr (c, b, concat (map (chunk_of L) bs))"
    using read_chunk_encoded [OF assms, of c b] Cons.prems p by (simp add: fits_def)
  moreover have "fits L bs" "\<forall>(c, b) \<in> set bs. hashes_to L c b" using Cons.prems by (simp_all add: fits_def)
  ultimately show ?case
    using Cons.IH [of "bm_insert c b blocks"] chunk_of_not_Nil [OF assms, of p] p by (subst read_loop.simps) simp
qed

lemma bm_merge_ascending: "ascending bs \<Longrightarrow> bm_merge [] bs = bs"
  by (rule ascending_map_of_inj) (simp_all add: ascending_bm_merge map_of_bm_merge)

lemma read_roots_written:
  assumes "car_ok L" "ascending blocks" "fits L blocks" "\<forall>(c, b) \<in> set blocks. hashes_to L c b" "header_fits L roots"
  shows "\<exists>car. car_rooted L roots blocks = Inr car \<and> read_roots L car = Some (Inr (roots, blocks))"
proof -
  obtain h where h: "header_to_vec L \<lparr>ch_version = 1, ch_roots = roots\<rparr> = Inr h"
      "header_from_slice L h = Inr \<lparr>ch_version = 1, ch_roots = roots\<rparr>" "length h < 2 ^ 64"
    using car_okD(5) [OF assms(1), of "\<lparr>ch_version = 1, ch_roots = roots\<rparr>"] assms(5) by (auto simp: header_fits_def)
  let ?rest = "concat (map (chunk_of L) blocks)"
  have "car_rooted L roots blocks = Inr (varint_encode L (length h) @ h @ ?rest)"
    using h(1) by (simp add: car_rooted_def car_header_def encode_def fold_push)
  moreover have "read_roots L (varint_encode L (length h) @ h @ ?rest) = Some (Inr (roots, blocks))"
    using take_chunk_encoded [OF assms(1) h(3), of ?rest] h(2) read_loop_encoded [OF assms(1,3,4), of "[]"]
      bm_merge_ascending [OF assms(2)]
    by (simp add: read_roots_def decode_def)
  ultimately show ?thesis by blast
qed

text \<open>C10: blocks that are each under the CID of their bytes, written under a root that is one of them,
  read back as the same root and the same blocks; written under no root they read back as blocks, and
  are refused as a repository.\<close>

theorem car_roundtrip:
  assumes "car_ok L" "ascending blocks" "fits L blocks" "\<forall>(c, b) \<in> set blocks. c = cid_for L b" "root \<in> fst ` set blocks"
    "header_fits L [root]" "header_fits L []"
  shows "(\<exists>car. car_write L root blocks = Inr car \<and> car_read L car = Some (Inr (root, blocks)))
    \<and> (\<exists>car. car_write_blocks L blocks = Inr car \<and> car_read_blocks L car = Some (Inr blocks)
         \<and> car_read L car = Some (Inl (MalformedCar ''not exactly one root'')))"
proof -
  have h: "\<forall>(c, b) \<in> set blocks. hashes_to L c b" using assms(4) car_okD(4) [OF assms(1)] by auto
  have "map_of blocks root \<noteq> None" using assms(5) by (simp add: map_of_eq_None_iff)
  then show ?thesis
    using read_roots_written [OF assms(1-3) h assms(6)] read_roots_written [OF assms(1-3) h assms(7)]
    by (auto simp: car_write_def car_write_blocks_def car_read_Inr car_read_blocks_def) (auto simp: car_read_def)
qed


section \<open>Examples\<close>

text \<open>Crates that keep these promises: numbers in unary, a CID behind its length, the hash and the codes
  in the clear, and headers numbered, with short spellings for the two the examples write.\<close>

definition unary :: "nat \<Rightarrow> bytes" where "unary n = replicate n CHR ''x'' @ [CHR ''y'']"

definition read_unary :: "bytes \<Rightarrow> (nat \<times> bytes) option" where
  "read_unary b =
     (case dropWhile (\<lambda>a. a = CHR ''x'') b of
        [] \<Rightarrow> None
      | _ # rest \<Rightarrow> Some (length (takeWhile (\<lambda>a. a = CHR ''x'') b), rest))"

definition toy_car :: "string car_lib" where
  "toy_car = \<lparr>sha256 = (\<lambda>b. b), new_v1 = (\<lambda>codec code digest. unary code @ digest),
     node_to_vec = (\<lambda>d. Inl []), node_from_slice = (\<lambda>b. Inl []),
     header_to_vec =
       (\<lambda>h. Inr (if h = \<lparr>ch_version = 1, ch_roots = []\<rparr> then ''e''
                  else if h = \<lparr>ch_version = 1, ch_roots = [unary SHA2_256 @ ''b'']\<rparr> then ''r''
                  else CHR ''n'' # replicate (to_nat (ch_version h, ch_roots h)) CHR ''x'')),
     header_from_slice =
       (\<lambda>b. Inr (if b = ''e'' then \<lparr>ch_version = 1, ch_roots = []\<rparr>
                  else if b = ''r'' then \<lparr>ch_version = 1, ch_roots = [unary SHA2_256 @ ''b'']\<rparr>
                  else let (v, rs) = from_nat (length (tl b)) in \<lparr>ch_version = v, ch_roots = rs\<rparr>)),
     varint_encode = unary, varint_decode = read_unary,
     cid_to_bytes = (\<lambda>c. unary (length c) @ c),
     cid_read_bytes = (\<lambda>b. map_option (\<lambda>(n, rest). (take n rest, drop n rest)) (read_unary b)),
     hash_code = (\<lambda>c. case read_unary c of None \<Rightarrow> 0 | Some (n, _) \<Rightarrow> n),
     hash_digest = (\<lambda>c. case read_unary c of None \<Rightarrow> [] | Some (_, d) \<Rightarrow> d)\<rparr>"

lemma read_unary_unary [simp]: "read_unary (unary n @ rest) = Some (n, rest)"
  by (simp add: read_unary_def unary_def takeWhile_append dropWhile_append)

lemma read_unary_shorter: "read_unary b = Some (n, rest) \<Longrightarrow> length rest < length b"
  using length_dropWhile_le [of "\<lambda>a. a = CHR ''x''" b] by (auto simp: read_unary_def split: list.splits)

lemma toy_car_ok: "car_ok toy_car"
  by (auto simp: car_ok_def toy_car_def read_unary_shorter)

definition toy_root :: string where "toy_root = unary SHA2_256 @ ''b''"

lemma toy_blocks_ok:
  "ascending [(toy_root, ''b'')]" "fits toy_car [(toy_root, ''b'')]" "header_fits toy_car [toy_root]" "header_fits toy_car []"
  "\<forall>(c, b) \<in> set [(toy_root, ''b'')]. c = cid_for toy_car b"
  by (simp_all add: fits_def header_fits_def toy_car_def cid_for_def toy_root_def unary_def SHA2_256_def)

lemma car_roundtrip_witness:
  "\<exists>car. car_write toy_car toy_root [(toy_root, ''b'')] = Inr car \<and> car_read toy_car car = Some (Inr (toy_root, [(toy_root, ''b'')]))"
  using car_roundtrip [OF toy_car_ok toy_blocks_ok(1,2,5) _ toy_blocks_ok(3,4)] by auto

lemma car_read_returns_witness: "\<exists>r. car_read toy_car ''xxy'' = Some r"
  using car_read_returns [OF toy_car_ok] by blast

lemma toy_reads:
  "car_read toy_car (unary 1 @ ''r'' @ chunk_of toy_car (toy_root, ''b'')) = Some (Inr (toy_root, [(toy_root, ''b'')]))"
proof -
  have h: "hashes_to toy_car toy_root ''b''" using car_okD(4) [OF toy_car_ok, of "''b''"] toy_blocks_ok(5) by simp
  have "read_loop toy_car (chunk_of toy_car (toy_root, ''b'')) [] = Some (Inr [(toy_root, ''b'')])"
    using read_loop_encoded [OF toy_car_ok toy_blocks_ok(2), of "[]"] h bm_merge_ascending [OF toy_blocks_ok(1)] by simp
  moreover have "take_chunk toy_car (unary 1 @ ''r'' @ chunk_of toy_car (toy_root, ''b''))
      = Inr (''r'', chunk_of toy_car (toy_root, ''b''))"
    by (simp add: take_chunk_def toy_car_def)
  moreover have "header_from_slice toy_car ''r'' = Inr \<lparr>ch_version = 1, ch_roots = [toy_root]\<rparr>"
    by (simp add: toy_car_def toy_root_def)
  ultimately show ?thesis by (simp add: car_read_Inr read_roots_def decode_def)
qed

lemma car_read_sound_witness: "hashes_to toy_car toy_root ''b''"
  using car_read_sound [OF toy_car_ok toy_reads] by simp

end
