(* ===== verification/Store.thy ===== *)
theory Store
  imports Repo
begin

text \<open>
  What the stores share: the errors of \<open>src/store.rs\<close>, the layout of the data directory, and the
  migrations of \<open>src/store/db.rs\<close>. A path is the list of its components. SQLite is taken at its word:
  a statement runs, or breaks a constraint of the schema; a database that is busy or broken is not
  modelled.
\<close>

section \<open>Errors\<close>

datatype io_error = NotFound | AlreadyExists

datatype 'c store_error =
    Sqlite string
  | Io io_error
  | Malformed string
  | TooNew string
  | InviteUnavailable
  | HandleTaken
  | EmailTaken
  | AppPasswordTaken
  | BlobMissing 'c
  | BlobMismatch string string string
  | StoredWrongCid 'c
  | KeyFile crypto_error


section \<open>The data directory\<close>

type_synonym path = "string list"

definition accounts_path :: "path \<Rightarrow> path" where "accounts_path dir = dir @ [''account.sqlite'']"
definition sequencer_path :: "path \<Rightarrow> path" where "sequencer_path dir = dir @ [''sequencer.sqlite'']"
definition running_path :: "path \<Rightarrow> path" where "running_path dir = dir @ [''running'']"
definition did_cache_path :: "path \<Rightarrow> path" where "did_cache_path dir = dir @ [''did_cache.sqlite'']"
definition actors_path :: "path \<Rightarrow> path" where "actors_path dir = dir @ [''actors'']"

definition actor_path :: "('c, 'l) lib_scheme \<Rightarrow> path \<Rightarrow> did \<Rightarrow> path" where
  "actor_path L dir did = actors_path dir @ [to_hex (take 1 (sha256 L (did_str did))), did_str did]"

definition actor_store_path :: "('c, 'l) lib_scheme \<Rightarrow> path \<Rightarrow> did \<Rightarrow> path" where
  "actor_store_path L dir did = actor_path L dir did @ [''store.sqlite'']"

definition actor_key_path :: "('c, 'l) lib_scheme \<Rightarrow> path \<Rightarrow> did \<Rightarrow> path" where
  "actor_key_path L dir did = actor_path L dir did @ [''key'']"

definition actor_op_path :: "('c, 'l) lib_scheme \<Rightarrow> path \<Rightarrow> did \<Rightarrow> path" where
  "actor_op_path L dir did = actor_path L dir did @ [''did-op'']"

definition reserved_key_path :: "('sk, 'vk, 'sg) crypto_lib \<Rightarrow> path \<Rightarrow> 'vk public_key \<Rightarrow> path" where
  "reserved_key_path C dir key = actors_path dir @ [''reserved_keys'', did_key C key]"

definition blobs_dir :: "path \<Rightarrow> path" where "blobs_dir dir = dir @ [''blocks'']"

definition data_paths :: "('c, 'l) lib_scheme \<Rightarrow> path \<Rightarrow> did \<Rightarrow> path list" where
  "data_paths L dir did = [actor_store_path L dir did, actor_key_path L dir did, actor_op_path L dir did]"


section \<open>Migrations\<close>

text \<open>A migration is its name and what it does to the database; the ledger is the names of those that
  ran, which the query returns in order. \<open>None\<close> is a file with no ledger yet.\<close>

record 'd ledgered =
  ledger :: "string list option"
  held_data :: 'd

type_synonym ('c, 'd) migration = "string \<times> ('d \<Rightarrow> 'c store_error + 'd)"

definition outstanding :: "string list \<Rightarrow> ('c, 'd) migration list \<Rightarrow> 'c store_error + string list" where
  "outstanding applied migrations =
     (case find (\<lambda>n. n \<notin> set (map fst migrations)) applied of
        Some unknown \<Rightarrow> Inl (TooNew unknown)
      | None \<Rightarrow> Inr (filter (\<lambda>n. n \<notin> set applied) (map fst migrations)))"

definition applied_names :: "'d ledgered \<Rightarrow> string list" where
  "applied_names db = sort (case ledger db of None \<Rightarrow> [] | Some ns \<Rightarrow> ns)"

fun run_migrations ::
    "('c, 'd) migration list \<Rightarrow> string list \<Rightarrow> 'd ledgered \<Rightarrow> 'c store_error + 'd ledgered" where
  "run_migrations migrations [] db = Inr db"
| "run_migrations migrations (n # ns) db =
     (case map_of migrations n of
        None \<Rightarrow> Inl (Malformed ''the name came from this list'')
      | Some run \<Rightarrow>
          bindE (run (held_data db)) (\<lambda>d.
          run_migrations migrations ns
            (db\<lparr>ledger := map_option (\<lambda>l. l @ [n]) (ledger db), held_data := d\<rparr>)))"

definition migrate :: "('c, 'd) migration list \<Rightarrow> 'd ledgered \<Rightarrow> 'c store_error + 'd ledgered" where
  "migrate migrations db =
     (let run = (let db = db\<lparr>ledger := Some (case ledger db of None \<Rightarrow> [] | Some ns \<Rightarrow> ns)\<rparr> in
                 bindE (outstanding (applied_names db) migrations) (\<lambda>ns. run_migrations migrations ns db)) in
      if ledger db = None then run
      else bindE (outstanding (applied_names db) migrations) (\<lambda>ns. if ns = [] then Inr db else run))"


section \<open>What a migrated database is\<close>

lemma outstanding_Inr:
  "outstanding applied ms = Inr ns \<longleftrightarrow>
     set applied \<subseteq> set (map fst ms) \<and> ns = filter (\<lambda>n. n \<notin> set applied) (map fst ms)"
  by (auto simp: outstanding_def find_None_iff find_Some_iff split: option.splits) (metis in_set_conv_nth subsetD)+

lemma run_migrations_known:
  assumes "list_all (\<lambda>(n, f). map_of ms n = Some f) xs" "ledger db = Some l"
  shows "run_migrations ms (map fst xs) db
    = bindE (foldE (\<lambda>(n, f) d. f d) xs (held_data db)) (\<lambda>d. Inr \<lparr>ledger = Some (l @ map fst xs), held_data = d\<rparr>)"
  using assms
proof (induction xs arbitrary: db l)
  case (Cons x xs)
  then show ?case by (cases x) (auto simp: bindE_assoc intro!: bindE_cong)
qed simp

lemma applied_names_set: "set (applied_names db) = (case ledger db of None \<Rightarrow> {} | Some l \<Rightarrow> set l)"
  by (simp add: applied_names_def split: option.split)

text \<open>The name of an outstanding migration is one of the list, so looking it up does not fail.\<close>

lemma outstanding_known: "outstanding applied ms = Inr ns \<Longrightarrow> n \<in> set ns \<Longrightarrow> map_of ms n \<noteq> None"
  by (auto simp: outstanding_Inr map_of_eq_None_iff)

lemma known_filter:
  "distinct (map fst ms) \<Longrightarrow> list_all (\<lambda>(n, f). map_of ms n = Some f) (filter P ms)"
  by (auto simp: list_all_iff)

lemma map_fst_filter: "filter (\<lambda>n. Q n) (map fst ms) = map fst (filter (\<lambda>(n, f). Q n) ms)"
  by (induction ms) auto

definition ledger_names :: "'d ledgered \<Rightarrow> string list" where
  "ledger_names db = (case ledger db of None \<Rightarrow> [] | Some l \<Rightarrow> l)"

lemma applied_names_sort: "applied_names db = sort (ledger_names db)"
  by (simp add: applied_names_def ledger_names_def)

lemma migrate_runs:
  assumes "distinct (map fst ms)" "set (ledger_names db) \<subseteq> set (map fst ms)"
  shows "migrate ms db =
    (let owed = filter (\<lambda>(n, f). n \<notin> set (ledger_names db)) ms in
     bindE (foldE (\<lambda>(n, f) d. f d) owed (held_data db)) (\<lambda>d. Inr \<lparr>ledger = Some (ledger_names db @ map fst owed), held_data = d\<rparr>))"
proof -
  let ?l = "ledger_names db" and ?owed = "filter (\<lambda>(n, f). n \<notin> set (ledger_names db)) ms"
  have o: "outstanding (applied_names d) ms = Inr (map fst ?owed)" if "ledger_names d = ?l" for d
    using assms(2) that by (simp add: outstanding_Inr applied_names_sort map_fst_filter)
  have r: "run_migrations ms (map fst ?owed) (db\<lparr>ledger := Some ?l\<rparr>)
    = bindE (foldE (\<lambda>(n, f) d. f d) ?owed (held_data db)) (\<lambda>d. Inr \<lparr>ledger = Some (?l @ map fst ?owed), held_data = d\<rparr>)"
    by (subst run_migrations_known [OF known_filter [OF assms(1)], of "db\<lparr>ledger := Some ?l\<rparr>" ?l]) simp_all
  show ?thesis
  proof (cases "ledger db = None \<or> map fst ?owed \<noteq> []")
    case True
    then show ?thesis using o [of db] o [of "db\<lparr>ledger := Some ?l\<rparr>"] r
      by (auto simp: migrate_def Let_def ledger_names_def [symmetric]) (simp_all add: ledger_names_def)
  next
    case False
    then have e: "ledger db = Some ?l" "?owed = []" by (auto simp: ledger_names_def simp del: filter_empty_conv)
    then have "migrate ms db = Inr db" using o [of db] by (simp add: migrate_def del: filter_empty_conv)
    then show ?thesis using e by (cases db) (simp add: Let_def)
  qed
qed

text \<open>opening a database runs the migrations its ledger lacks, each once and in the order of the list,
  and enters them in the ledger; one whose ledger names a migration this server does not know is
  refused, and one that has been opened is opened again without a change.\<close>

theorem migrate_settles:
  assumes "distinct (map fst ms)"
  shows "migrate ms db =
      (case find (\<lambda>n. n \<notin> set (map fst ms)) (applied_names db) of
         Some unknown \<Rightarrow> Inl (TooNew unknown)
       | None \<Rightarrow>
           let owed = filter (\<lambda>(n, f). n \<notin> set (applied_names db)) ms in
           bindE (foldE (\<lambda>(n, f) d. f d) owed (held_data db)) (\<lambda>d.
           Inr \<lparr>ledger = Some (ledger_names db @ map fst owed), held_data = d\<rparr>))
    \<and> (migrate ms db = Inr db' \<longrightarrow> migrate ms db' = Inr db')"
proof (cases "find (\<lambda>n. n \<notin> set (map fst ms)) (applied_names db)")
  case None
  then have sub: "set (ledger_names db) \<subseteq> set (map fst ms)" by (auto simp: find_None_iff applied_names_sort)
  have names: "set (applied_names db) = set (ledger_names db)" by (simp add: applied_names_sort)
  have again: "migrate ms db' = Inr db'" if m: "migrate ms db = Inr db'"
  proof -
    have f: "ledger_names db' = ledger_names db @ map fst (filter (\<lambda>(n, f). n \<notin> set (ledger_names db)) ms)"
      and e': "ledger db' = Some (ledger_names db')"
      using m unfolding migrate_runs [OF assms sub] by (auto simp: Let_def result_simps ledger_names_def [of db'])
    have l: "set (ledger_names db') = set (map fst ms)" using sub unfolding f by force
    have e: "filter (\<lambda>(n, f). n \<notin> set (ledger_names db')) ms = []" using l by (force simp: filter_empty_conv)
    show ?thesis using e' unfolding migrate_runs [OF assms equalityD1 [OF l]] e by (cases db') simp
  qed
  show ?thesis using None again by (simp add: migrate_runs [OF assms sub] names)
next
  case (Some u)
  then have "migrate ms db = Inl (TooNew u)" by (auto simp: migrate_def outstanding_def Let_def applied_names_def)
  then show ?thesis using Some by simp
qed

theorem migrate_settles_witness:
  "migrate [(''001'', \<lambda>d. Inr (Suc d))] \<lparr>ledger = None, held_data = 0\<rparr>
     = (Inr \<lparr>ledger = Some [''001''], held_data = 1\<rparr> :: string store_error + nat ledgered)
   \<and> migrate [(''001'', \<lambda>d. Inr (Suc d))] \<lparr>ledger = Some [''001''], held_data = 1\<rparr>
     = (Inr \<lparr>ledger = Some [''001''], held_data = 1\<rparr> :: string store_error + nat ledgered)"
proof -
  have "migrate [(''001'', \<lambda>d. Inr (Suc d))] \<lparr>ledger = None, held_data = 0\<rparr>
     = (Inr \<lparr>ledger = Some [''001''], held_data = 1\<rparr> :: string store_error + nat ledgered)"
    by (simp add: migrate_def outstanding_def applied_names_def)
  then show ?thesis
    using migrate_settles [of "[(''001'', \<lambda>d. Inr (Suc d))] :: (string, nat) migration list" "\<lparr>ledger = None, held_data = 0\<rparr>" "\<lparr>ledger = Some [''001''], held_data = 1\<rparr>", THEN conjunct2]
    by simp
qed

end
