(* ===== verification/Blobs.thy ===== *)
theory Blobs
  imports Store
begin

text \<open>
  Blobs as files: \<open>src/store/blobs.rs\<close>. A file system is names, each standing for an inode, and the
  bytes and the time of last writing of each inode, so that a hard link shares both with the name it
  was made from. Directories are the names under them: making one changes nothing here. The time, and
  the random bytes in the name of a file being written, are arguments.
\<close>

section \<open>Files\<close>

record inode =
  i_bytes :: bytes
  i_mtime :: nat

record fs =
  names :: "(path \<times> nat) list"
  inodes :: "nat \<Rightarrow> inode"
  fresh_ino :: nat

definition fs_file :: "fs \<Rightarrow> path \<Rightarrow> inode option" where
  "fs_file fs p = map_option (inodes fs) (map_of (names fs) p)"

definition fs_write :: "nat \<Rightarrow> path \<Rightarrow> bytes \<Rightarrow> fs \<Rightarrow> fs" where
  "fs_write now p b fs =
     (case map_of (names fs) p of
        Some i \<Rightarrow> fs\<lparr>inodes := (inodes fs)(i := \<lparr>i_bytes = b, i_mtime = now\<rparr>)\<rparr>
      | None \<Rightarrow> fs\<lparr>names := al_upd p (fresh_ino fs) (names fs),
                  inodes := (inodes fs)(fresh_ino fs := \<lparr>i_bytes = b, i_mtime = now\<rparr>),
                  fresh_ino := Suc (fresh_ino fs)\<rparr>)"

text \<open>Two names of one inode are left as they are.\<close>

definition fs_rename :: "path \<Rightarrow> path \<Rightarrow> fs \<Rightarrow> io_error + fs" where
  "fs_rename from to fs =
     (case map_of (names fs) from of
        None \<Rightarrow> Inl NotFound
      | Some i \<Rightarrow>
          if map_of (names fs) to = Some i then Inr fs
          else Inr (fs\<lparr>names := al_upd to i (al_del from (names fs))\<rparr>))"

definition fs_remove :: "path \<Rightarrow> fs \<Rightarrow> io_error + fs" where
  "fs_remove p fs =
     (if map_of (names fs) p = None then Inl NotFound else Inr (fs\<lparr>names := al_del p (names fs)\<rparr>))"

definition fs_link :: "path \<Rightarrow> path \<Rightarrow> fs \<Rightarrow> io_error + fs" where
  "fs_link from to fs =
     (case map_of (names fs) from of
        None \<Rightarrow> Inl NotFound
      | Some i \<Rightarrow>
          if map_of (names fs) to \<noteq> None then Inl AlreadyExists
          else Inr (fs\<lparr>names := al_upd to i (names fs)\<rparr>))"

definition fs_touch :: "nat \<Rightarrow> path \<Rightarrow> fs \<Rightarrow> io_error + fs" where
  "fs_touch now p fs =
     (case map_of (names fs) p of
        None \<Rightarrow> Inl NotFound
      | Some i \<Rightarrow> Inr (fs\<lparr>inodes := (inodes fs)(i := (inodes fs i)\<lparr>i_mtime := now\<rparr>)\<rparr>))"

definition read_dir :: "fs \<Rightarrow> path \<Rightarrow> string list" where
  "read_dir fs dir =
     remdups (map (\<lambda>(p, _). p ! length dir)
       (filter (\<lambda>(p, _). length dir < length p \<and> take (length dir) p = dir) (names fs)))"


section \<open>Where blobs are\<close>

definition RAW :: nat where "RAW = 85"

definition blob_cid_for :: "('c, 'l) lib_scheme \<Rightarrow> bytes \<Rightarrow> 'c" where
  "blob_cid_for L b = new_v1 L RAW SHA2_256 (sha256 L b)"

definition stored_dir :: "path \<Rightarrow> did \<Rightarrow> path" where
  "stored_dir B did = B @ [did_str did]"

definition uploads_dir :: "path \<Rightarrow> did \<Rightarrow> path" where
  "uploads_dir B did = B @ [''tempt'', did_str did]"

definition blob_path :: "('c, 'j) json_lib_scheme \<Rightarrow> path \<Rightarrow> did \<Rightarrow> 'c \<Rightarrow> path" where
  "blob_path J B did c = stored_dir B did @ [cid_to_string J c]"

definition quarantine_path :: "('c, 'j) json_lib_scheme \<Rightarrow> path \<Rightarrow> did \<Rightarrow> 'c \<Rightarrow> path" where
  "quarantine_path J B did c = B @ [''quarantine'', did_str did, cid_to_string J c]"

definition temp_path :: "path \<Rightarrow> did \<Rightarrow> string \<Rightarrow> path" where
  "temp_path B did key = uploads_dir B did @ [key]"


section \<open>Operations\<close>

definition partial_path :: "path \<Rightarrow> bytes \<Rightarrow> path" where
  "partial_path p scratch = butlast p @ [last p @ CHR ''.'' # base32 scratch]"

definition blob_write :: "nat \<Rightarrow> bytes \<Rightarrow> path \<Rightarrow> bytes \<Rightarrow> fs \<Rightarrow> ('c store_error + unit) \<times> fs" where
  "blob_write now scratch p b fs =
     (let part = partial_path p scratch;
          fs = fs_write now part b fs in
      case fs_rename part p fs of
        Inl e \<Rightarrow> (Inl (Io e), case fs_remove part fs of Inl _ \<Rightarrow> fs | Inr fs \<Rightarrow> fs)
      | Inr fs \<Rightarrow> (Inr (), fs))"

definition blob_put ::
    "('c, 'l) lib_scheme \<Rightarrow> path \<Rightarrow> nat \<Rightarrow> bytes \<Rightarrow> did \<Rightarrow> string \<Rightarrow> 'c \<Rightarrow> bytes \<Rightarrow> fs \<Rightarrow> ('c store_error + unit) \<times> fs" where
  "blob_put L B now scratch did key c b fs =
     (if blob_cid_for L b \<noteq> c then (Inl (StoredWrongCid c), fs)
      else blob_write now scratch (temp_path B did key) b fs)"

definition blob_claim ::
    "('c, 'j) json_lib_scheme \<Rightarrow> path \<Rightarrow> nat \<Rightarrow> did \<Rightarrow> string \<Rightarrow> 'c \<Rightarrow> fs \<Rightarrow> ('c store_error + bool) \<times> fs" where
  "blob_claim J B now did key c fs =
     (let p = blob_path J B did c in
      case fs_link (temp_path B did key) p fs of
        Inl AlreadyExists \<Rightarrow>
          (case fs_touch now p fs of
             Inl e \<Rightarrow> (Inl (Io e), fs)
           | Inr fs \<Rightarrow> (Inr False, fs))
      | Inl e \<Rightarrow> (Inl (Io e), fs)
      | Inr fs \<Rightarrow> (Inr True, fs))"

text \<open>Removing what may be gone already, for a file and for an upload.\<close>

definition remove_file :: "path \<Rightarrow> fs \<Rightarrow> ('c store_error + unit) \<times> fs" where
  "remove_file p fs =
     (case fs_remove p fs of
        Inl NotFound \<Rightarrow> (Inr (), fs)
      | Inl e \<Rightarrow> (Inl (Io e), fs)
      | Inr fs \<Rightarrow> (Inr (), fs))"

definition delete_upload :: "path \<Rightarrow> did \<Rightarrow> string \<Rightarrow> fs \<Rightarrow> ('c store_error + unit) \<times> fs" where
  "delete_upload B did key fs = remove_file (temp_path B did key) fs"

definition blob_delete :: "('c, 'j) json_lib_scheme \<Rightarrow> path \<Rightarrow> did \<Rightarrow> 'c \<Rightarrow> fs \<Rightarrow> ('c store_error + unit) \<times> fs" where
  "blob_delete J B did c fs = remove_file (blob_path J B did c) fs"

definition blob_get :: "('c, 'j) json_lib_scheme \<Rightarrow> path \<Rightarrow> did \<Rightarrow> 'c \<Rightarrow> fs \<Rightarrow> 'c store_error + bytes" where
  "blob_get J B did c fs = map_err Io (ok_or NotFound (map_option i_bytes (fs_file fs (blob_path J B did c))))"

definition blob_has :: "('c, 'j) json_lib_scheme \<Rightarrow> path \<Rightarrow> did \<Rightarrow> 'c \<Rightarrow> fs \<Rightarrow> bool" where
  "blob_has J B did c fs \<longleftrightarrow> fs_file fs (blob_path J B did c) \<noteq> None"

definition quarantine :: "('c, 'j) json_lib_scheme \<Rightarrow> path \<Rightarrow> did \<Rightarrow> 'c \<Rightarrow> fs \<Rightarrow> 'c store_error + fs" where
  "quarantine J B did c fs = map_err Io (fs_rename (blob_path J B did c) (quarantine_path J B did c) fs)"

definition unquarantine :: "('c, 'j) json_lib_scheme \<Rightarrow> path \<Rightarrow> did \<Rightarrow> 'c \<Rightarrow> fs \<Rightarrow> 'c store_error + fs" where
  "unquarantine J B did c fs = map_err Io (fs_rename (quarantine_path J B did c) (blob_path J B did c) fs)"

fun sweep_loop :: "path \<Rightarrow> string set \<Rightarrow> nat \<Rightarrow> string list \<Rightarrow> fs \<Rightarrow> string list \<times> fs" where
  "sweep_loop dir keep cutoff [] fs = ([], fs)"
| "sweep_loop dir keep cutoff (n # ns) fs =
     (if n \<in> keep then sweep_loop dir keep cutoff ns fs
      else
        (case fs_file fs (dir @ [n]) of
           None \<Rightarrow> sweep_loop dir keep cutoff ns fs
         | Some i \<Rightarrow>
             if i_mtime i \<ge> cutoff then sweep_loop dir keep cutoff ns fs
             else
               (case fs_remove (dir @ [n]) fs of
                  Inl _ \<Rightarrow> sweep_loop dir keep cutoff ns fs
                | Inr fs \<Rightarrow> (case sweep_loop dir keep cutoff ns fs of (swept, fs) \<Rightarrow> (n # swept, fs)))))"

definition sweep_dir :: "path \<Rightarrow> string set \<Rightarrow> nat \<Rightarrow> fs \<Rightarrow> string list \<times> fs" where
  "sweep_dir dir keep cutoff fs = sweep_loop dir keep cutoff (read_dir fs dir) fs"

definition sweep_uploads :: "path \<Rightarrow> did \<Rightarrow> string set \<Rightarrow> nat \<Rightarrow> fs \<Rightarrow> string list \<times> fs" where
  "sweep_uploads B did keep cutoff fs = sweep_dir (uploads_dir B did) keep cutoff fs"

definition sweep_stored :: "path \<Rightarrow> did \<Rightarrow> string set \<Rightarrow> nat \<Rightarrow> fs \<Rightarrow> string list \<times> fs" where
  "sweep_stored B did keep cutoff fs = sweep_dir (stored_dir B did) keep cutoff fs"

definition blob_accounts :: "path \<Rightarrow> fs \<Rightarrow> did list" where
  "blob_accounts B fs =
     map Did (sort (remdups (filter (\<lambda>n. case did_from_str n of Inl _ \<Rightarrow> False | Inr _ \<Rightarrow> True)
       (read_dir fs B @ read_dir fs (B @ [''tempt''])))))"


section \<open>What the operations do to the bytes\<close>

definition fs_ok :: "fs \<Rightarrow> bool" where
  "fs_ok fs \<longleftrightarrow> ascending (names fs) \<and> (\<forall>p i. map_of (names fs) p = Some i \<longrightarrow> i < fresh_ino fs)"

definition content :: "fs \<Rightarrow> path \<Rightarrow> bytes option" where
  "content fs p = map_option i_bytes (fs_file fs p)"

lemma content_None: "content fs p = None \<longleftrightarrow> map_of (names fs) p = None"
  by (simp add: content_def fs_file_def)

lemma fs_remove_ok:
  assumes "fs_ok fs"
  shows "fs_remove p fs = Inl NotFound \<and> content fs p = None
    \<or> (\<exists>fs'. fs_remove p fs = Inr fs' \<and> content fs p \<noteq> None \<and> fs_ok fs' \<and> fs_file fs' = (fs_file fs)(p := None))"
  using assms by (auto simp: fs_remove_def content_None fs_ok_def fs_file_def fun_eq_iff map_of_al_del ascending_al_del)

lemma remove_file_ok:
  assumes "fs_ok fs"
  shows "\<exists>fs'. remove_file p fs = (Inr (), fs') \<and> fs_ok fs' \<and> fs_file fs' = (fs_file fs)(p := None)"
  using fs_remove_ok [OF assms, of p] assms
  by (auto simp: remove_file_def content_def fun_eq_iff)

lemma content_upd: "fs_file fs' = (fs_file fs)(p := None) \<Longrightarrow> content fs' = (content fs)(p := None)"
  by (simp add: content_def fun_eq_iff)

lemma fs_link_ok:
  assumes "fs_ok fs" "content fs from = Some b" "content fs to = None"
  shows "\<exists>fs'. fs_link from to fs = Inr fs' \<and> fs_ok fs' \<and> content fs' = (content fs)(to \<mapsto> b)"
proof -
  obtain i where i: "map_of (names fs) from = Some i" "i_bytes (inodes fs i) = b"
    using assms(2) by (auto simp: content_def fs_file_def)
  then show ?thesis
    using assms(1,3) by (auto simp: fs_link_def content_None fs_ok_def ascending_al_upd content_def fs_file_def fun_eq_iff)
qed

lemma fs_touch_ok:
  assumes "fs_ok fs" "content fs p \<noteq> None"
  shows "\<exists>fs'. fs_touch now p fs = Inr fs' \<and> fs_ok fs' \<and> content fs' = content fs"
  using assms by (auto simp: fs_touch_def content_None fs_ok_def content_def fs_file_def fun_eq_iff option.map_comp intro!: map_option_cong)

lemma blob_claim_ok:
  assumes "fs_ok fs"
  shows "case content fs (temp_path B did key) of
      None \<Rightarrow> blob_claim J B now did key c fs = (Inl (Io NotFound), fs)
    | Some b \<Rightarrow>
        \<exists>fs'. blob_claim J B now did key c fs = (Inr (content fs (blob_path J B did c) = None), fs') \<and> fs_ok fs'
          \<and> content fs' = (if content fs (blob_path J B did c) = None then (content fs)(blob_path J B did c \<mapsto> b) else content fs)"
proof (cases "content fs (temp_path B did key)")
  case None
  then have "map_of (names fs) (temp_path B did key) = None" by (simp only: content_None)
  with None show ?thesis by (simp add: blob_claim_def fs_link_def)
next
  case (Some b)
  let ?p = "blob_path J B did c"
  show ?thesis
  proof (cases "content fs ?p")
    case None
    then obtain fs' where "fs_link (temp_path B did key) ?p fs = Inr fs'" "fs_ok fs'" "content fs' = (content fs)(?p \<mapsto> b)"
      using fs_link_ok [OF assms Some] by blast
    then show ?thesis using Some None by (simp add: blob_claim_def)
  next
    case (Some b')
    obtain i where i: "map_of (names fs) (temp_path B did key) = Some i"
      using \<open>content fs (temp_path B did key) = Some b\<close> by (auto simp: content_def fs_file_def)
    have "map_of (names fs) ?p \<noteq> None" using Some content_None [of fs ?p] by simp
    then have l: "fs_link (temp_path B did key) ?p fs = Inl AlreadyExists" using i by (simp add: fs_link_def)
    obtain fs' where "fs_touch now ?p fs = Inr fs'" "fs_ok fs'" "content fs' = content fs"
      using fs_touch_ok [OF assms, of ?p now] Some by auto
    then show ?thesis using l Some \<open>content fs (temp_path B did key) = Some b\<close> by (simp add: blob_claim_def)
  qed
qed

lemma partial_path_other: "p \<noteq> [] \<Longrightarrow> partial_path p scratch \<noteq> p"
proof
  assume "p \<noteq> []" "partial_path p scratch = p"
  then have "last (partial_path p scratch) = last p" by simp
  then show False by (simp add: partial_path_def)
qed

lemma blob_write_ok:
  assumes "fs_ok fs" "p \<noteq> []" "content fs (partial_path p scratch) = None"
  shows "\<exists>fs'. blob_write now scratch p b fs = (Inr (), fs') \<and> fs_ok fs' \<and> content fs' = (content fs)(p \<mapsto> b)"
proof -
  let ?q = "partial_path p scratch"
  let ?f = "fs\<lparr>names := al_upd ?q (fresh_ino fs) (names fs),
      inodes := (inodes fs)(fresh_ino fs := \<lparr>i_bytes = b, i_mtime = now\<rparr>), fresh_ino := Suc (fresh_ino fs)\<rparr>"
  have n: "?q \<noteq> p" by (rule partial_path_other [OF assms(2)])
  have w: "fs_write now ?q b fs = ?f" using assms(3) by (simp add: fs_write_def content_None)
  have "map_of (names fs) p \<noteq> Some (fresh_ino fs)" using assms(1) by (auto simp: fs_ok_def)
  then have r: "fs_rename ?q p ?f = Inr (?f\<lparr>names := al_upd p (fresh_ino fs) (al_del ?q (names ?f))\<rparr>)"
    using n by (simp add: fs_rename_def)
  have asc: "ascending (al_upd ?q (fresh_ino fs) (names fs))" using assms(1) by (simp add: fs_ok_def ascending_al_upd)
  let ?g = "?f\<lparr>names := al_upd p (fresh_ino fs) (al_del ?q (names ?f))\<rparr>"
  have "map_of (names ?g) = (map_of (names fs))(p \<mapsto> fresh_ino fs)"
    using asc assms(3) n by (auto simp: map_of_al_del content_None fun_eq_iff)
  moreover have "ascending (names ?g)" using asc by (simp add: ascending_al_upd ascending_al_del)
  moreover have "fs_ok ?g" using assms(1) calculation by (auto simp: fs_ok_def less_Suc_eq)
  moreover have "content ?g = (content fs)(p \<mapsto> b)"
  proof
    fix x
    have "map_of (names fs) x \<noteq> Some (fresh_ino fs)" using assms(1) unfolding fs_ok_def by (metis less_irrefl)
    then show "content ?g x = ((content fs)(p \<mapsto> b)) x"
      unfolding content_def fs_file_def calculation(1) by (cases "map_of (names fs) x") auto
  qed
  ultimately show ?thesis using w r by (simp add: blob_write_def Let_def)
qed


section \<open>Sweeping\<close>

lemma read_dir_file: "map_of (names fs) (dir @ [n]) \<noteq> None \<Longrightarrow> n \<in> set (read_dir fs dir)"
proof -
  assume "map_of (names fs) (dir @ [n]) \<noteq> None"
  then obtain i where "(dir @ [n], i) \<in> set (names fs)" by (auto dest: map_of_SomeD)
  then show ?thesis by (force simp: read_dir_def image_iff)
qed

text \<open>What a sweep takes: the files of the directory that nothing keeps and that are old.\<close>

definition stale_in :: "path \<Rightarrow> string set \<Rightarrow> nat \<Rightarrow> fs \<Rightarrow> string \<Rightarrow> bool" where
  "stale_in dir keep cutoff fs n \<longleftrightarrow>
     n \<notin> keep \<and> (case fs_file fs (dir @ [n]) of None \<Rightarrow> False | Some i \<Rightarrow> i_mtime i < cutoff)"

lemma sweep_loop_ok:
  "fs_ok fs \<Longrightarrow> distinct ns \<Longrightarrow>
   \<exists>fs'. sweep_loop dir keep cutoff ns fs = (filter (stale_in dir keep cutoff fs) ns, fs') \<and> fs_ok fs'
     \<and> fs_file fs' = (\<lambda>p. if \<exists>n \<in> set ns. p = dir @ [n] \<and> stale_in dir keep cutoff fs n then None else fs_file fs p)"
proof (induction ns arbitrary: fs)
  case (Cons n ns)
  show ?case
  proof (cases "stale_in dir keep cutoff fs n")
    case True
    then obtain i where i: "fs_file fs (dir @ [n]) = Some i" "i_mtime i < cutoff" "n \<notin> keep"
      by (auto simp: stale_in_def split: option.splits)
    then obtain fs1 where r: "fs_remove (dir @ [n]) fs = Inr fs1" "fs_ok fs1" "fs_file fs1 = (fs_file fs)(dir @ [n] := None)"
      using fs_remove_ok [OF Cons.prems(1), of "dir @ [n]"] by (auto simp: content_def)
    have st: "stale_in dir keep cutoff fs1 m = stale_in dir keep cutoff fs m" if "m \<in> set ns" for m
      using that Cons.prems(2) r(3) by (auto simp: stale_in_def)
    obtain fs2 where l: "sweep_loop dir keep cutoff ns fs1 = (filter (stale_in dir keep cutoff fs1) ns, fs2)" "fs_ok fs2"
        "fs_file fs2 = (\<lambda>p. if \<exists>n \<in> set ns. p = dir @ [n] \<and> stale_in dir keep cutoff fs1 n then None else fs_file fs1 p)"
      using Cons.IH [OF r(2)] Cons.prems(2) by auto
    have "filter (stale_in dir keep cutoff fs1) ns = filter (stale_in dir keep cutoff fs) ns"
      by (rule filter_cong [OF refl st])
    moreover have "fs_file fs2 = (\<lambda>p. if \<exists>m \<in> set (n # ns). p = dir @ [m] \<and> stale_in dir keep cutoff fs m then None else fs_file fs p)"
      using l(3) r(3) st True by (auto simp: fun_eq_iff)
    ultimately show ?thesis using i r(1) l(1,2) True by simp
  next
    case False
    then have "sweep_loop dir keep cutoff (n # ns) fs = sweep_loop dir keep cutoff ns fs"
      by (auto simp: stale_in_def split: option.splits)
    moreover have "(\<exists>m \<in> set (n # ns). p = dir @ [m] \<and> stale_in dir keep cutoff fs m)
        \<longleftrightarrow> (\<exists>m \<in> set ns. p = dir @ [m] \<and> stale_in dir keep cutoff fs m)" for p
      using False by auto
    ultimately show ?thesis using Cons.IH [OF Cons.prems(1)] Cons.prems(2) False by simp
  qed
qed simp

lemma sweep_dir_ok:
  assumes "fs_ok fs"
  shows "\<exists>swept fs'. sweep_dir dir keep cutoff fs = (swept, fs') \<and> fs_ok fs' \<and> set swept = {n. stale_in dir keep cutoff fs n}
    \<and> fs_file fs' = (\<lambda>p. if \<exists>n. p = dir @ [n] \<and> stale_in dir keep cutoff fs n then None else fs_file fs p)"
proof -
  have s: "n \<in> set (read_dir fs dir)" if "stale_in dir keep cutoff fs n" for n
    by (rule read_dir_file) (use that in \<open>auto simp: stale_in_def fs_file_def split: option.splits\<close>)
  obtain fs' where "sweep_dir dir keep cutoff fs = (filter (stale_in dir keep cutoff fs) (read_dir fs dir), fs')" "fs_ok fs'"
      "fs_file fs' = (\<lambda>p. if \<exists>n \<in> set (read_dir fs dir). p = dir @ [n] \<and> stale_in dir keep cutoff fs n then None else fs_file fs p)"
    using sweep_loop_ok [OF assms, of "read_dir fs dir" dir keep cutoff] unfolding sweep_dir_def read_dir_def by auto
  moreover from this(3) have "fs_file fs' = (\<lambda>p. if \<exists>n. p = dir @ [n] \<and> stale_in dir keep cutoff fs n then None else fs_file fs p)"
    using s by (auto simp: fun_eq_iff)
  ultimately show ?thesis using s by auto
qed

lemma sweep_dir_content:
  assumes "fs_ok fs" "sweep_dir dir keep cutoff fs = (swept, fs')"
  shows "fs_ok fs'" "\<And>p. content fs' p = content fs p \<or> (\<exists>n. p = dir @ [n] \<and> n \<notin> keep \<and> content fs' p = None)"
  using sweep_dir_ok [OF assms(1), of dir keep cutoff] assms(2)
  by (auto simp: content_def stale_in_def)

end
