(* ===== verification/Actor.thy ===== *)
theory Actor
  imports Blobs
begin

text \<open>
  One account's database: \<open>src/store/actor.rs\<close>. A table is its rows in the order of its primary key,
  or, where the key is of several columns, its rows without repetition. Columns hold text as the code
  writes it; CIDs are written and parsed by functions of the library record, and \<open>stamp\<close> is how
  \<open>jiff\<close> writes a time. Columns that nothing here writes or reads are left out.
\<close>

section \<open>Tables and values\<close>

record 'c actor_lib = "'c json_lib" +
  stamp :: "nat \<Rightarrow> string"

record root_row =
  ro_cid :: string
  ro_rev :: string
  ro_at :: string

record block_row =
  br_rev :: string
  br_size :: int
  br_content :: bytes

record record_row =
  rr_cid :: string
  rr_collection :: string
  rr_rkey :: string
  rr_rev :: string
  rr_at :: string

record blob_row =
  bl_mime :: string
  bl_size :: int
  bl_temp :: "string option"
  bl_created :: string
  bl_takedown :: "string option"

record backlink =
  l_path :: string
  l_to :: string

record actor =
  a_did :: did
  repo_root :: "(string \<times> root_row) list"
  repo_block :: "(string \<times> block_row) list"
  record_rows :: "(string \<times> record_row) list"
  blob_rows :: "(string \<times> blob_row) list"
  record_blob :: "(string \<times> string) list"
  backlinks :: "(string \<times> backlink) list"

record 'c root =
  rt_cid :: 'c
  rt_rev :: tid

record 'c mark =
  mk_rev :: string
  mk_cid :: 'c

record 'c page =
  pg_blocks :: "('c \<times> bytes) list"
  pg_next :: "'c mark option"

record 'c found_record =
  f_uri :: string
  f_cid :: 'c
  f_value :: bytes

record 'c committed =
  orphaned :: "'c list"
  taken :: "string list"

record 'c leaving =
  lv_cleared :: "'c committed"
  lv_linked :: "'c list"

record 'c blob =
  b_cid :: 'c
  b_mime :: string
  b_size :: nat

datatype 'c indexed =
    IxPut nsid record_key 'c "backlink list" "'c blob list"
  | IxDelete nsid record_key

definition actor_new :: "did \<Rightarrow> actor" where
  "actor_new did = \<lparr>a_did = did, repo_root = [], repo_block = [], record_rows = [], blob_rows = [], record_blob = [], backlinks = []\<rparr>"

definition i64_of :: "nat \<Rightarrow> int" where
  "i64_of n = (if int n < 2 ^ 63 then int n else 2 ^ 63 - 1)"

definition u64_of :: "int \<Rightarrow> nat" where
  "u64_of n = (if n < 0 then 0 else nat n)"

definition uri_prefix :: "did \<Rightarrow> nsid \<Rightarrow> string" where
  "uri_prefix did n = ''at://'' @ did_str did @ ''/'' @ nsid_str n @ ''/''"

definition uri :: "did \<Rightarrow> nsid \<Rightarrow> record_key \<Rightarrow> string" where
  "uri did n k = uri_prefix did n @ record_key_str k"

definition decimal_int :: "int \<Rightarrow> string" where
  "decimal_int n = (if n < 0 then CHR ''-'' # decimal (nat (- n)) else decimal (nat n))"


section \<open>The store of blocks\<close>

definition actor_blocks :: "('c, 'j) json_lib_scheme \<Rightarrow> actor \<Rightarrow> 'c \<Rightarrow> bytes option" where
  "actor_blocks J A c = map_option br_content (map_of (repo_block A) (cid_to_string J c))"

definition actor_store :: "('c, 'j) json_lib_scheme \<Rightarrow> actor \<Rightarrow> 'c store" where
  "actor_store J A =
     \<lparr>store_get = (\<lambda>c. ok_or (MissingBlock c) (actor_blocks J A c)),
      store_contains = (\<lambda>c. Inr (actor_blocks J A c \<noteq> None))\<rparr>"

interpretation act: block_store "actor_store J A" "actor_blocks J A" for J A
  by unfold_locales (simp_all add: actor_store_def)

definition actor_root :: "('c, 'j) json_lib_scheme \<Rightarrow> actor \<Rightarrow> 'c store_error + 'c root option" where
  "actor_root J A =
     (case map_of (repo_root A) (did_str (a_did A)) of
        None \<Rightarrow> Inr None
      | Some row \<Rightarrow>
          bindE (ok_or (Malformed ''a repo root that is not a CID'') (cid_parse J (ro_cid row))) (\<lambda>c.
          bindE (map_err (\<lambda>_. Malformed ''a repo revision that is not a TID'') (tid_from_str (ro_rev row))) (\<lambda>r.
          Inr (Some \<lparr>rt_cid = c, rt_rev = r\<rparr>))))"


section \<open>A commit\<close>

definition insert_block :: "('c, 'j) json_lib_scheme \<Rightarrow> tid \<Rightarrow> 'c \<times> bytes \<Rightarrow> actor \<Rightarrow> actor" where
  "insert_block J rv p A =
     (let c = cid_to_string J (fst p) in
      if map_of (repo_block A) c \<noteq> None then A
      else A\<lparr>repo_block := al_upd c \<lparr>br_rev = tid_str rv, br_size = i64_of (length (snd p)), br_content = snd p\<rparr> (repo_block A)\<rparr>)"

definition forget_block :: "('c, 'j) json_lib_scheme \<Rightarrow> 'c \<Rightarrow> actor \<Rightarrow> actor" where
  "forget_block J c A =
     (if list_ex (\<lambda>(u, row). rr_cid row = cid_to_string J c) (record_rows A) then A
      else A\<lparr>repo_block := al_del (cid_to_string J c) (repo_block A)\<rparr>)"

definition blob_held :: "actor \<Rightarrow> string \<Rightarrow> bool" where
  "blob_held A c \<longleftrightarrow> list_ex (\<lambda>(b, u). b = c) (record_blob A)"

definition drop_blob :: "string \<Rightarrow> actor \<Rightarrow> actor" where
  "drop_blob c A = A\<lparr>blob_rows := al_del c (blob_rows A)\<rparr>"

definition not_a_blob_cid :: "'c store_error" where
  "not_a_blob_cid = Malformed ''a blob that is not a CID''"

text \<open>One loop is behind both: each blob in turn is spared, or its row goes and its CID is reported.\<close>

fun let_go ::
    "('c, 'j) json_lib_scheme \<Rightarrow> (actor \<Rightarrow> string \<Rightarrow> bool) \<Rightarrow> string list \<Rightarrow> actor \<Rightarrow> 'c list
      \<Rightarrow> ('c store_error \<times> 'c list) + (actor \<times> 'c list)" where
  "let_go J spared [] A out = Inr (A, out)"
| "let_go J spared (c # cs) A out =
     (if spared A c then let_go J spared cs A out
      else
        (case cid_parse J c of
           None \<Rightarrow> Inl (not_a_blob_cid, out)
         | Some x \<Rightarrow> let_go J spared cs (drop_blob c A) (out @ [x])))"

definition dereference ::
    "('c, 'j) json_lib_scheme \<Rightarrow> string \<Rightarrow> string set \<Rightarrow> actor \<Rightarrow> 'c store_error + (actor \<times> 'c list)" where
  "dereference J at kept A =
     (let cs = map fst (filter (\<lambda>(b, u). u = at) (record_blob A));
          A = A\<lparr>record_blob := filter (\<lambda>(b, u). u \<noteq> at) (record_blob A)\<rparr> in
      map_err fst (let_go J (\<lambda>A c. c \<in> kept \<or> blob_held A c) cs A []))"

type_synonym ('c, 'a) on_disk = "('c store_error + 'a) \<times> fs \<times> 'c leaving"

definition settle_claim :: "string \<Rightarrow> string \<Rightarrow> blob_row \<Rightarrow> actor \<Rightarrow> actor" where
  "settle_claim c at row A =
     A\<lparr>record_blob := (if (c, at) \<in> set (record_blob A) then record_blob A else record_blob A @ [(c, at)]),
       blob_rows := al_upd c (row\<lparr>bl_temp := None\<rparr>) (blob_rows A)\<rparr>"

definition claim ::
    "('c, 'j) json_lib_scheme \<Rightarrow> path \<Rightarrow> nat \<Rightarrow> string \<Rightarrow> 'c blob \<Rightarrow> actor \<Rightarrow> fs \<Rightarrow> 'c leaving \<Rightarrow> ('c, actor) on_disk" where
  "claim J B now at blob A fs lv =
     (let c = cid_to_string J (b_cid blob) in
      case map_of (blob_rows A) c of
        None \<Rightarrow> (Inl (BlobMissing (b_cid blob)), fs, lv)
      | Some row \<Rightarrow>
          if bl_takedown row \<noteq> None then (Inl (BlobMissing (b_cid blob)), fs, lv)
          else
            (case bl_temp row of
               None \<Rightarrow> (Inr (settle_claim c at row A), fs, lv)
             | Some key \<Rightarrow>
                 if bl_mime row \<noteq> b_mime blob
                 then (Inl (BlobMismatch ''Mimetype'' (bl_mime row) (b_mime blob)), fs, lv)
                 else if u64_of (bl_size row) \<noteq> b_size blob
                 then (Inl (BlobMismatch ''Size'' (decimal_int (bl_size row)) (decimal (b_size blob))), fs, lv)
                 else
                   (case blob_claim J B now (a_did A) key (b_cid blob) fs of
                      (Inl e, fs) \<Rightarrow> (Inl e, fs, lv)
                    | (Inr made, fs) \<Rightarrow>
                        (Inr (settle_claim c at row A), fs,
                         lv\<lparr>lv_linked := (if made then lv_linked lv @ [b_cid blob] else lv_linked lv),
                            lv_cleared := (lv_cleared lv)\<lparr>taken := taken (lv_cleared lv) @ [key]\<rparr>\<rparr>))))"

fun claims ::
    "('c, 'j) json_lib_scheme \<Rightarrow> path \<Rightarrow> nat \<Rightarrow> string \<Rightarrow> 'c blob list \<Rightarrow> actor \<Rightarrow> fs \<Rightarrow> 'c leaving \<Rightarrow> ('c, actor) on_disk" where
  "claims J B now at [] A fs lv = (Inr A, fs, lv)"
| "claims J B now at (b # bs) A fs lv =
     (case claim J B now at b A fs lv of
        (Inl e, fs, lv) \<Rightarrow> (Inl e, fs, lv)
      | (Inr A, fs, lv) \<Rightarrow> claims J B now at bs A fs lv)"

definition unlink :: "string \<Rightarrow> actor \<Rightarrow> actor" where
  "unlink at A = A\<lparr>backlinks := filter (\<lambda>(u, l). u \<noteq> at) (backlinks A)\<rparr>"

definition add_link :: "string \<Rightarrow> backlink \<Rightarrow> actor \<Rightarrow> actor" where
  "add_link at l A =
     (if list_ex (\<lambda>(u, l'). u = at \<and> l_path l' = l_path l) (backlinks A) then A
      else A\<lparr>backlinks := backlinks A @ [(at, l)]\<rparr>)"

definition put_record ::
    "('c, 'j) actor_lib_scheme \<Rightarrow> nat \<Rightarrow> tid \<Rightarrow> nsid \<Rightarrow> record_key \<Rightarrow> 'c \<Rightarrow> actor \<Rightarrow> actor" where
  "put_record J now rv n k c A =
     (let at = uri (a_did A) n k in
      A\<lparr>record_rows := al_upd at
         (case map_of (record_rows A) at of
            None \<Rightarrow> \<lparr>rr_cid = cid_to_string J c, rr_collection = nsid_str n, rr_rkey = record_key_str k,
                     rr_rev = tid_str rv, rr_at = stamp J now\<rparr>
          | Some row \<Rightarrow> row\<lparr>rr_cid := cid_to_string J c, rr_rev := tid_str rv, rr_at := stamp J now\<rparr>)
         (record_rows A)\<rparr>)"

definition add_orphans :: "'c list \<Rightarrow> 'c leaving \<Rightarrow> 'c leaving" where
  "add_orphans cs lv = lv\<lparr>lv_cleared := (lv_cleared lv)\<lparr>orphaned := orphaned (lv_cleared lv) @ cs\<rparr>\<rparr>"

definition index_one ::
    "('c, 'j) actor_lib_scheme \<Rightarrow> path \<Rightarrow> nat \<Rightarrow> tid \<Rightarrow> string set \<Rightarrow> 'c indexed \<Rightarrow> actor \<Rightarrow> fs \<Rightarrow> 'c leaving
      \<Rightarrow> ('c, actor) on_disk" where
  "index_one J B now rv kept ix A fs lv =
     (case ix of
        IxPut n k c links named \<Rightarrow>
          (let at = uri (a_did A) n k;
               A = fold (add_link at) links (unlink at A) in
           case dereference J at kept A of
             Inl e \<Rightarrow> (Inl e, fs, lv)
           | Inr (A, out) \<Rightarrow>
               (case claims J B now at named A fs (add_orphans out lv) of
                  (Inl e, fs, lv) \<Rightarrow> (Inl e, fs, lv)
                | (Inr A, fs, lv) \<Rightarrow> (Inr (put_record J now rv n k c A), fs, lv)))
      | IxDelete n k \<Rightarrow>
          (let at = uri (a_did A) n k in
           case dereference J at kept (unlink at A) of
             Inl e \<Rightarrow> (Inl e, fs, lv)
           | Inr (A, out) \<Rightarrow> (Inr (A\<lparr>record_rows := al_del at (record_rows A)\<rparr>), fs, add_orphans out lv)))"

fun index_loop ::
    "('c, 'j) actor_lib_scheme \<Rightarrow> path \<Rightarrow> nat \<Rightarrow> tid \<Rightarrow> string set \<Rightarrow> 'c indexed list \<Rightarrow> actor \<Rightarrow> fs \<Rightarrow> 'c leaving
      \<Rightarrow> ('c, actor) on_disk" where
  "index_loop J B now rv kept [] A fs lv = (Inr A, fs, lv)"
| "index_loop J B now rv kept (ix # ixs) A fs lv =
     (case index_one J B now rv kept ix A fs lv of
        (Inl e, fs, lv) \<Rightarrow> (Inl e, fs, lv)
      | (Inr A, fs, lv) \<Rightarrow> index_loop J B now rv kept ixs A fs lv)"

text \<open>The blobs the records of a commit name; a \<open>HashSet\<close>, of which the order it is walked in shows
  only in the order of what is reported.\<close>

definition kept_blobs :: "('c, 'j) json_lib_scheme \<Rightarrow> 'c indexed list \<Rightarrow> string list" where
  "kept_blobs J ixs =
     remdups (concat (map (\<lambda>ix. case ix of IxPut n k c links named \<Rightarrow> map (\<lambda>b. cid_to_string J (b_cid b)) named | IxDelete n k \<Rightarrow> []) ixs))"

definition move_root ::
    "('c, 'j) actor_lib_scheme \<Rightarrow> nat \<Rightarrow> 'c root option \<Rightarrow> 'c root \<Rightarrow> actor \<Rightarrow> 'c store_error + actor option" where
  "move_root J now from root A =
     (let did = did_str (a_did A);
          row = \<lparr>ro_cid = cid_to_string J (rt_cid root), ro_rev = tid_str (rt_rev root), ro_at = stamp J now\<rparr>;
          moved = A\<lparr>repo_root := al_upd did row (repo_root A)\<rparr> in
      case from of
        Some from \<Rightarrow>
          (case map_of (repo_root A) did of
             Some old \<Rightarrow> Inr (if ro_cid old = cid_to_string J (rt_cid from) then Some moved else None)
           | None \<Rightarrow> Inr None)
      | None \<Rightarrow>
          if map_of (repo_root A) did \<noteq> None then Inl (Sqlite ''UNIQUE constraint failed: repo_root.did'')
          else Inr (Some moved))"

text \<open>The statements of the transaction; the caller keeps the database it had unless they end in one.\<close>

definition landing ::
    "('c, 'j) actor_lib_scheme \<Rightarrow> path \<Rightarrow> nat \<Rightarrow> 'c root option \<Rightarrow> 'c root \<Rightarrow> 'c block_map \<Rightarrow> 'c list \<Rightarrow> 'c indexed list
      \<Rightarrow> actor \<Rightarrow> fs \<Rightarrow> ('c, (actor \<times> 'c committed) option) on_disk" where
  "landing J B now from root blocks drops ixs A fs =
     (let lv = \<lparr>lv_cleared = \<lparr>orphaned = [], taken = []\<rparr>, lv_linked = []\<rparr>;
          A = fold (insert_block J (rt_rev root)) blocks A;
          kept = kept_blobs J ixs in
      case index_loop J B now (rt_rev root) (set kept) ixs A fs lv of
        (Inl e, fs, lv) \<Rightarrow> (Inl e, fs, lv)
      | (Inr A, fs, lv) \<Rightarrow>
          (case let_go J blob_held kept (fold (forget_block J) drops A) [] of
             Inl (e, out) \<Rightarrow> (Inl e, fs, add_orphans out lv)
           | Inr (A, out) \<Rightarrow>
               (let lv = add_orphans out lv in
                case move_root J now from root A of
                  Inl e \<Rightarrow> (Inl e, fs, lv)
                | Inr None \<Rightarrow> (Inr None, fs, lv)
                | Inr (Some A) \<Rightarrow> (Inr (Some (A, lv_cleared lv)), fs, lv))))"

definition take_back :: "('c, 'j) json_lib_scheme \<Rightarrow> path \<Rightarrow> did \<Rightarrow> 'c list \<Rightarrow> fs \<Rightarrow> fs" where
  "take_back J B did cs fs = fold (\<lambda>c fs. snd (blob_delete J B did c fs :: ('c store_error + unit) \<times> fs)) cs fs"

definition actor_commit ::
    "('c, 'j) actor_lib_scheme \<Rightarrow> path \<Rightarrow> nat \<Rightarrow> 'c root option \<Rightarrow> 'c root \<Rightarrow> 'c block_map \<Rightarrow> 'c list \<Rightarrow> 'c indexed list
      \<Rightarrow> actor \<Rightarrow> fs \<Rightarrow> ('c store_error + 'c committed option) \<times> actor \<times> fs" where
  "actor_commit J B now from root blocks drops ixs A fs =
     (case landing J B now from root blocks drops ixs A fs of
        (Inr (Some (A', done)), fs, lv) \<Rightarrow> (Inr (Some done), A', fs)
      | (Inr None, fs, lv) \<Rightarrow> (Inr None, A, take_back J B (a_did A) (lv_linked lv) fs)
      | (Inl e, fs, lv) \<Rightarrow> (Inl e, A, take_back J B (a_did A) (lv_linked lv) fs))"


section \<open>Uploads\<close>

definition add_blob :: "('c, 'j) actor_lib_scheme \<Rightarrow> nat \<Rightarrow> 'c blob \<Rightarrow> string \<Rightarrow> actor \<Rightarrow> actor" where
  "add_blob J now blob key A =
     (let c = cid_to_string J (b_cid blob) in
      case map_of (blob_rows A) c of
        None \<Rightarrow> A\<lparr>blob_rows := al_upd c \<lparr>bl_mime = b_mime blob, bl_size = i64_of (b_size blob), bl_temp = Some key,
                   bl_created = stamp J now, bl_takedown = None\<rparr> (blob_rows A)\<rparr>
      | Some row \<Rightarrow>
          if bl_temp row = None then A
          else A\<lparr>blob_rows := al_upd c (row\<lparr>bl_temp := Some key, bl_created := stamp J now\<rparr>) (blob_rows A)\<rparr>)"

definition stale_rows :: "('c, 'j) actor_lib_scheme \<Rightarrow> nat \<Rightarrow> actor \<Rightarrow> (string \<times> string) list" where
  "stale_rows J cutoff A =
     List.map_filter (\<lambda>(c, row). case bl_temp row of
        None \<Rightarrow> None
      | Some key \<Rightarrow> if bl_created row < stamp J cutoff then Some (c, key) else None) (blob_rows A)"

text \<open>Each row is named again by its key when it is deleted.\<close>

fun sweep_rows :: "(string \<times> string) list \<Rightarrow> actor \<Rightarrow> string list \<times> actor" where
  "sweep_rows [] A = ([], A)"
| "sweep_rows ((c, key) # rest) A =
     (if (case map_of (blob_rows A) c of None \<Rightarrow> False | Some row \<Rightarrow> bl_temp row = Some key)
      then (case sweep_rows rest (drop_blob c A) of (swept, A) \<Rightarrow> (key # swept, A))
      else sweep_rows rest A)"

definition sweep_unclaimed :: "('c, 'j) actor_lib_scheme \<Rightarrow> nat \<Rightarrow> actor \<Rightarrow> string list \<times> actor" where
  "sweep_unclaimed J cutoff A = sweep_rows (stale_rows J cutoff A) A"

definition upload_keys :: "actor \<Rightarrow> string set" where
  "upload_keys A = set (List.map_filter (\<lambda>(c, row). bl_temp row) (blob_rows A))"

definition blob_cids :: "actor \<Rightarrow> string set" where
  "blob_cids A = fst ` set (blob_rows A)"

definition unheld :: "('c, 'j) json_lib_scheme \<Rightarrow> actor \<Rightarrow> 'c \<Rightarrow> bool" where
  "unheld J A c \<longleftrightarrow> map_of (blob_rows A) (cid_to_string J c) = None"


section \<open>Reads\<close>

definition actor_blob :: "('c, 'j) json_lib_scheme \<Rightarrow> actor \<Rightarrow> 'c \<Rightarrow> 'c store_error + 'c blob option" where
  "actor_blob J A c =
     (case map_of (blob_rows A) (cid_to_string J c) of
        None \<Rightarrow> Inr None
      | Some row \<Rightarrow>
          bindE (ok_or not_a_blob_cid (cid_parse J (cid_to_string J c))) (\<lambda>c.
          Inr (Some \<lparr>b_cid = c, b_mime = bl_mime row, b_size = u64_of (bl_size row)\<rparr>)))"

text \<open>Rows in key order, sorted again by revision, are in the order of revision and key.\<close>

definition blocks_page :: "('c, 'j) json_lib_scheme \<Rightarrow> tid option \<Rightarrow> 'c mark option \<Rightarrow> nat \<Rightarrow> actor \<Rightarrow> (string \<times> block_row) list" where
  "blocks_page J since from limit A =
     take limit (rev (sort_key (\<lambda>(c, row). br_rev row) (filter (\<lambda>(c, row).
       (case since of None \<Rightarrow> True | Some t \<Rightarrow> br_rev row > tid_str t)
       \<and> (case from of None \<Rightarrow> True | Some m \<Rightarrow>
            br_rev row < mk_rev m \<or> br_rev row = mk_rev m \<and> c < cid_to_string J (mk_cid m))) (repo_block A))))"

definition blocks_since :: "('c, 'j) json_lib_scheme \<Rightarrow> tid option \<Rightarrow> 'c mark option \<Rightarrow> nat \<Rightarrow> actor \<Rightarrow> 'c store_error + 'c page" where
  "blocks_since J since from limit A =
     (let rows = blocks_page J since from limit A in
      bindE (mapE (\<lambda>(c, row). bindE (ok_or (Malformed ''a stored block that is not a CID'') (cid_parse J c)) (\<lambda>x. Inr (x, row))) rows) (\<lambda>found.
      Inr \<lparr>pg_blocks = map (\<lambda>(c, row). (c, br_content row)) found,
           pg_next = (if found \<noteq> [] \<and> length rows = limit
                      then Some \<lparr>mk_rev = br_rev (snd (last found)), mk_cid = fst (last found)\<rparr> else None)\<rparr>))"

definition BATCH :: nat where "BATCH = 500"

definition batch_found :: "('c, 'j) json_lib_scheme \<Rightarrow> 'c list \<Rightarrow> actor \<Rightarrow> ('c \<times> bytes) list" where
  "batch_found J batch A =
     List.map_filter (\<lambda>(k, row). map_option (\<lambda>c. (c, br_content row)) (find (\<lambda>c. cid_to_string J c = k) batch)) (repo_block A)"

function batched_blocks :: "('c::linorder, 'j) json_lib_scheme \<Rightarrow> 'c list \<Rightarrow> actor \<Rightarrow> 'c block_map \<Rightarrow> 'c list \<Rightarrow> 'c block_map \<times> 'c list" where
  "batched_blocks J cids A blocks missing =
     (if cids = [] then (blocks, missing)
      else let batch = take BATCH cids in
        batched_blocks J (drop BATCH cids) A
          (bm_merge blocks (batch_found J batch A))
          (missing @ filter (\<lambda>c. map_of (repo_block A) (cid_to_string J c) = None) batch))"
  by pat_completeness auto
termination
  by (relation "measure (\<lambda>(J, cids, A, blocks, missing). length cids)") (auto simp: BATCH_def)

declare batched_blocks.simps [simp del]

definition actor_named_blocks :: "('c::linorder, 'j) json_lib_scheme \<Rightarrow> 'c list \<Rightarrow> actor \<Rightarrow> 'c block_map \<times> 'c list" where
  "actor_named_blocks J cids A = batched_blocks J cids A [] []"

definition read_row :: "('c, 'j) json_lib_scheme \<Rightarrow> string \<Rightarrow> string \<Rightarrow> bytes \<Rightarrow> 'c store_error + 'c found_record" where
  "read_row J u c b =
     (case cid_parse J c of
        Some x \<Rightarrow> Inr \<lparr>f_uri = u, f_cid = x, f_value = b\<rparr>
      | None \<Rightarrow> Inl (Malformed ''an indexed record that is not a CID''))"

text \<open>The join of the index and the blocks, in the order of the index.\<close>

definition joined :: "actor \<Rightarrow> (string \<times> string \<times> bytes) list" where
  "joined A = List.map_filter (\<lambda>(u, row). map_option (\<lambda>b. (u, rr_cid row, br_content b)) (map_of (repo_block A) (rr_cid row))) (record_rows A)"

definition actor_record :: "('c, 'j) json_lib_scheme \<Rightarrow> nsid \<Rightarrow> record_key \<Rightarrow> actor \<Rightarrow> 'c store_error + 'c found_record option" where
  "actor_record J n k A =
     (case map_of (joined A) (uri (a_did A) n k) of
        None \<Rightarrow> Inr None
      | Some (c, b) \<Rightarrow> bindE (read_row J (uri (a_did A) n k) c b) (\<lambda>r. Inr (Some r)))"

definition records_page :: "string \<Rightarrow> nat \<Rightarrow> string option \<Rightarrow> bool \<Rightarrow> actor \<Rightarrow> (string \<times> string \<times> bytes) list" where
  "records_page pre limit cursor reverse A =
     (let top = pre @ [CHR 0x7F];
          (low, high) =
            (case cursor of
               Some c \<Rightarrow> if reverse then (pre @ c, top) else (pre, pre @ c)
             | None \<Rightarrow> (pre, top));
          rows = filter (\<lambda>(u, _). (if cursor \<noteq> None \<and> reverse then low < u else low \<le> u) \<and> u < high) (joined A) in
      take limit (if reverse then rows else rev rows))"

definition actor_records ::
    "('c, 'j) json_lib_scheme \<Rightarrow> nsid \<Rightarrow> nat \<Rightarrow> string option \<Rightarrow> bool \<Rightarrow> actor \<Rightarrow> 'c store_error + 'c found_record list" where
  "actor_records J n limit cursor reverse A =
     mapE (\<lambda>(u, c, b). read_row J u c b) (records_page (uri_prefix (a_did A) n) limit cursor reverse A)"

definition pointing_at :: "nsid \<Rightarrow> backlink \<Rightarrow> actor \<Rightarrow> 'c store_error + record_key list" where
  "pointing_at n l A =
     mapE (\<lambda>k. map_err (\<lambda>_. Malformed ''an indexed key that is not a record key'') (record_key_from_str k))
       (List.map_filter (\<lambda>(u, l'). if l' = l then
           (case map_of (record_rows A) u of
              None \<Rightarrow> None
            | Some row \<Rightarrow> if rr_collection row = nsid_str n then Some (rr_rkey row) else None) else None) (backlinks A))"

definition actor_collections :: "actor \<Rightarrow> 'c store_error + nsid list" where
  "actor_collections A =
     mapE (\<lambda>n. map_err (\<lambda>_. Malformed ''an indexed collection that is not an NSID'') (nsid_from_str n))
       (sort (remdups (map (\<lambda>(u, row). rr_collection row) (record_rows A))))"

definition parse_blob_cid :: "('c, 'j) json_lib_scheme \<Rightarrow> string \<Rightarrow> 'c store_error + 'c" where
  "parse_blob_cid J c = ok_or not_a_blob_cid (cid_parse J c)"

definition actor_blobs :: "('c, 'j) json_lib_scheme \<Rightarrow> string option \<Rightarrow> nat \<Rightarrow> string option \<Rightarrow> actor \<Rightarrow> 'c store_error + 'c list" where
  "actor_blobs J since limit cursor A =
     mapE (parse_blob_cid J) (take limit (sort (remdups (map fst (filter (\<lambda>(c, u).
       (case since of None \<Rightarrow> True | Some s \<Rightarrow> (case map_of (record_rows A) u of None \<Rightarrow> False | Some row \<Rightarrow> s < rr_rev row))
       \<and> (case cursor of None \<Rightarrow> True | Some at \<Rightarrow> at < c)) (record_blob A))))))"

definition missing_blobs :: "('c, 'j) json_lib_scheme \<Rightarrow> nat \<Rightarrow> string option \<Rightarrow> actor \<Rightarrow> 'c store_error + ('c \<times> string) list" where
  "missing_blobs J limit cursor A =
     (let rows = filter (\<lambda>(c, u). map_of (blob_rows A) c = None
                   \<and> (case cursor of None \<Rightarrow> True | Some at \<Rightarrow> at < c)) (record_blob A) in
      mapE (\<lambda>c. bindE (parse_blob_cid J c) (\<lambda>x. Inr (x, Min (set (map snd (filter (\<lambda>(c', u). c' = c) rows))))))
        (take limit (sort (remdups (map fst rows)))))"

end
