(* ===== verification/Reserved.thy ===== *)
theory Reserved
  imports Prelude
begin

text \<open>
  Names held back: \<open>src/account/handle/reserved.rs\<close>. \<open>binary_search\<close> is the loop of the standard
  library's slices; the compile-time assertion that the list is in order is a lemma.
\<close>

section \<open>Searching a sorted list\<close>

function search_loop :: "'a::linorder list \<Rightarrow> 'a \<Rightarrow> nat \<Rightarrow> nat \<Rightarrow> nat" where
  "search_loop xs x base n =
     (if n > 1
      then let half = n div 2; mid = base + half in
           search_loop xs x (if xs ! mid > x then base else mid) (n - half)
      else base)"
  by pat_completeness auto
termination
  by (relation "measure (\<lambda>(xs, x, base, n). n)") auto

declare search_loop.simps [simp del]

definition binary_search :: "'a::linorder list \<Rightarrow> 'a \<Rightarrow> bool" where
  "binary_search xs x \<longleftrightarrow> xs \<noteq> [] \<and> xs ! search_loop xs x 0 (length xs) = x"

text \<open>The loop stays inside the list, and keeps the place of \<open>x\<close> between its bounds.\<close>

lemma search_loop_inside: "0 < n \<Longrightarrow> base \<le> search_loop xs x base n \<and> search_loop xs x base n < base + n"
proof (induction n arbitrary: base rule: less_induct)
  case (less n)
  show ?case
  proof (cases "n > 1")
    case True
    let ?h = "n div 2"
    let ?b = "if xs ! (base + ?h) > x then base else base + ?h"
    have "?b \<le> search_loop xs x ?b (n - ?h) \<and> search_loop xs x ?b (n - ?h) < ?b + (n - ?h)"
      using less.IH [of "n - ?h" ?b] True by auto
    moreover have "base \<le> ?b" "?b + (n - ?h) \<le> base + n" using True by auto
    ultimately have "base \<le> search_loop xs x ?b (n - ?h) \<and> search_loop xs x ?b (n - ?h) < base + n" by linarith
    then show ?thesis using True by (subst (1 2) search_loop.simps) (simp only: Let_def if_True)
  next
    case False
    then show ?thesis using less.prems by (subst (1 2) search_loop.simps) simp
  qed
qed

lemma search_loop_finds:
  assumes "sorted_wrt (<) xs" "xs ! i = x"
  shows "base \<le> i \<Longrightarrow> i < base + n \<Longrightarrow> base + n \<le> length xs \<Longrightarrow> search_loop xs x base n = i"
proof (induction n arbitrary: base rule: less_induct)
  case (less n)
  show ?case
  proof (cases "n > 1")
    case True
    let ?h = "n div 2"
    let ?m = "base + ?h"
    let ?b = "if xs ! ?m > x then base else ?m"
    have m: "?m < length xs" using less.prems True by linarith
    have "xs ! ?m > x \<longleftrightarrow> i < ?m"
    proof
      assume "x < xs ! ?m"
      then show "i < ?m" using assms less.prems sorted_wrt_nth_less [OF assms(1), of ?m i] by (metis less_asym linorder_neqE_nat order_less_le_trans)
    next
      assume "i < ?m"
      then show "x < xs ! ?m" using sorted_wrt_nth_less [OF assms(1) _ m] assms(2) by blast
    qed
    then have "?b \<le> i" "i < ?b + (n - ?h)" "?b + (n - ?h) \<le> length xs" using less.prems True by auto
    then have "search_loop xs x ?b (n - ?h) = i" using less.IH [of "n - ?h" ?b] True by auto
    then show ?thesis using True by (subst search_loop.simps) (simp only: Let_def if_True)
  next
    case False
    then show ?thesis using less.prems by (subst search_loop.simps) simp
  qed
qed

lemma binary_search_iff:
  assumes "sorted_wrt (<) xs"
  shows "binary_search xs x \<longleftrightarrow> x \<in> set xs"
proof
  assume "binary_search xs x"
  then show "x \<in> set xs"
    using search_loop_inside [of "length xs" 0 xs x] unfolding binary_search_def by (metis add_0 length_greater_0_conv nth_mem)
next
  assume "x \<in> set xs"
  then obtain i where "i < length xs" "xs ! i = x" by (auto simp: in_set_conv_nth)
  then show "binary_search xs x"
    using search_loop_finds [OF assms, of i x 0 "length xs"] by (auto simp: binary_search_def)
qed


section \<open>The names\<close>

text \<open>\<open>before\<close> and \<open>ordered\<close>, by which the list is checked when the program is compiled.\<close>

fun name_before :: "string \<Rightarrow> string \<Rightarrow> bool" where
  "name_before (a # as) (b # bs) = (if a \<noteq> b then (of_char a :: nat) < of_char b else name_before as bs)"
| "name_before [] (b # bs) = True"
| "name_before as [] = False"

fun names_ordered :: "string list \<Rightarrow> bool" where
  "names_ordered (a # b # ns) = (name_before a b \<and> names_ordered (b # ns))"
| "names_ordered _ = True"

definition NAMES_0 :: "string list" where
  "NAMES_0 = [
    ''10downingstreet'', ''10ronaldinho'', ''3gerardpique'', ''about'', ''abuse'', ''access'', ''account'', ''accounts'', ''aclu'',
    ''acme'', ''activate'', ''activities'', ''activity'', ''ad'', ''add'', ''address'', ''adele'', ''adm'', ''admanager'', ''admin'',
    ''administration'', ''administrator'', ''administrators'', ''admins'', ''ads'', ''adsense'', ''adult'', ''advertising'',
    ''adwords'', ''affiliate'', ''affiliatepage'', ''affiliates'', ''afp'', ''ajax'', ''akiko_lawson'', ''akshaykumar'', ''aliaa08'',
    ''aliciakeys'', ''all'', ''alpha'', ''amitshah'', ''analysis'', ''analytics'', ''andresiniesta8'', ''android'', ''anon'',
    ''anonymous'', ''answer'', ''answers'', ''anushkasharma'', ''aoc'', ''ap'', ''api'', ''apis'', ''app'', ''appengine'', ''appnews'',
    ''apps'', ''archive'', ''archives'', ''arianagrande'', ''ariyoshihiroiki'', ''arrahman'', ''article'', ''arvindkejriwal'',
    ''asahi'', ''asdf'', ''asset'', ''assets'', ''at'', ''atp'', ''auth'', ''authentication'', ''avatar'', ''avrillavigne'', ''backup'',
    ''bank'', ''banner'', ''banners'', ''barackobama'', ''base'', ''bbcbreaking'', ''bbcworld'', ''beginners'', ''beingsalmankhan'',
    ''beta'', ''beyonce'', ''billgates'', ''billieeilish'', ''billing'', ''bin'', ''binaries'', ''binary'', ''blackberry'', ''blog'',
    ''blogs'', ''blogsearch'', ''bluesky'']"

definition NAMES_1 :: "string list" where
  "NAMES_1 = [
    ''board'', ''book'', ''bookmark'', ''bookmarks'', ''books'', ''bot'', ''bots'', ''brasildefato'', ''britneyspears'', ''brunomars'',
    ''bsky'', ''bts_bighit'', ''bts_twt'', ''bug'', ''bugs'', ''business'', ''buy'', ''buzz'', ''cache'', ''calendar'', ''call'',
    ''campaign'', ''cancel'', ''captcha'', ''career'', ''careers'', ''cart'', ''carterjwm'', ''catalog'', ''catalogs'', ''categories'',
    ''category'', ''cdn'', ''cgi'', ''cgi-bin'', ''championsleague'', ''changelog'', ''chart'', ''charts'', ''chat'', ''check'',
    ''checked'', ''checking'', ''checkout'', ''chrisbrown'', ''claudialeitte'', ''client'', ''cliente'', ''clients'', ''clients1'',
    ''cnarne'', ''cnnbrk'', ''code'', ''coldplay'', ''comercial'', ''comment'', ''comments'', ''communities'', ''community'',
    ''company'', ''compare'', ''compras'', ''conanobrien'', ''config'', ''configuration'', ''confirm'', ''confirmation'', ''connect'',
    ''contact'', ''contact-us'', ''contact_us'', ''contacts'', ''contactus'', ''content'', ''contest'', ''contribute'', ''contributor'',
    ''contributors'', ''coppa'', ''copyright'', ''copyrights'', ''core'', ''corp'', ''correio'', ''countries'', ''country'', ''cpanel'',
    ''create'', ''cristiano'', ''css'', ''cssproxy'', ''customise'', ''customize'', ''danieltosh'', ''dashboard'', ''data'',
    ''davidguetta'', ''db'']"

definition NAMES_2 :: "string list" where
  "NAMES_2 = [
    ''ddlovato'', ''deepikapadukone'', ''default'', ''delete'', ''demo'', ''design'', ''designer'', ''desktop'', ''destroy'', ''dev'',
    ''devel'', ''developer'', ''developers'', ''devs'', ''diagram'', ''diary'', ''dict'', ''dictionary'', ''did'', ''die'', ''dir'',
    ''direct-messages'', ''direct_messages'', ''directory'', ''dist'', ''diversity'', ''dl'', ''dmca'', ''doc'', ''docs'',
    ''documentation'', ''documentations'', ''documents'', ''domain'', ''domains'', ''donate'', ''download'', ''downloads'',
    ''dozle_official'', ''drake'', ''dril'', ''e'', ''e-mail'', ''earth'', ''ecommerce'', ''edit'', ''editor'', ''edits'', ''edu'',
    ''education'', ''elisapie'', ''ellendegeneres'', ''elonmusk'', ''em_com'', ''email'', ''embed'', ''embedded'', ''eminem'',
    ''emmawatson'', ''employment'', ''employments'', ''empty'', ''enable'', ''encrypted'', ''end'', ''engine'', ''enterprise'',
    ''enterprises'', ''entries'', ''entry'', ''error'', ''errorlog'', ''errors'', ''estadao'', ''eval'', ''event'', ''example'',
    ''examplecommunity'', ''exampleopenid'', ''examplesyn'', ''examplesyndicated'', ''exampleusername'', ''exchange'', ''exit'',
    ''explore'', ''famima_now'', ''faq'', ''faqs'', ''favorite'', ''favorites'', ''favourite'', ''favourites'', ''fcbarcelona'',
    ''feature'', ''features'', ''feed'', ''feedback'', ''feedburner'']"

definition NAMES_3 :: "string list" where
  "NAMES_3 = [
    ''feedproxy'', ''feeds'', ''ff_xiv_jp'', ''file'', ''files'', ''finance'', ''first'', ''folder'', ''folders'', ''folha'',
    ''following'', ''forgot'', ''form'', ''forms'', ''forum'', ''forums'', ''founder'', ''foxnews'', ''free'', ''friend'', ''friends'',
    ''ftp'', ''fuck'', ''fujitv'', ''fun'', ''fusion'', ''gadget'', ''gadgets'', ''game'', ''games'', ''gazetadopovo'', ''gears'',
    ''general'', ''geographic'', ''get'', ''gettingstarted'', ''gift'', ''gifts'', ''gigazine'', ''gist'', ''git'', ''github'',
    ''gmail'', ''go'', ''golang'', ''goto'', ''gov'', ''graph'', ''graphs'', ''gretathunberg'', ''group'', ''groups'', ''guest'',
    ''guests'', ''guide'', ''guides'', ''hack'', ''hacks'', ''hajimesyacho'', ''handle'', ''harry_styles'', ''head'', ''help'',
    ''hikakin'', ''hillaryclinton'', ''home'', ''homepage'', ''host'', ''hosting'', ''hostmaster'', ''hostname'', ''how-to'',
    ''how_to'', ''howto'', ''html'', ''htrnl'', ''http'', ''httpd'', ''https'', ''i'', ''iamges'', ''iamsrk'', ''icon'', ''icons'',
    ''id'', ''idea'', ''ideas'', ''ihrithik'', ''im'', ''imac'', ''image'', ''images'', ''imap'', ''img'', ''imvkohli'', ''inbox'',
    ''inboxes'', ''index'']"

definition NAMES_4 :: "string list" where
  "NAMES_4 = [
    ''indexes'', ''info'', ''information'', ''inquiry'', ''instagram'', ''intranet'', ''investor'', ''investors'', ''invitation'',
    ''invitations'', ''invite'', ''invoice'', ''invoices'', ''ios'', ''ipad'', ''iphone'', ''irc'', ''irnages'', ''irng'', ''is'',
    ''issue'', ''issues'', ''it'', ''item'', ''items'', ''ivetesangalo'', ''jairbolsonaro'', ''java'', ''javascript'', ''jimmyfallon'',
    ''jlo'', ''job'', ''jobs'', ''jocx'', ''joebiden'', ''join'', ''jornaldobrasil'', ''jornaloglobo'', ''jotx'', ''js'', ''json'',
    ''jtimberlake'', ''jump'', ''justinbieber'', ''kaka'', ''kamalaharris'', ''kanyewest'', ''katyperry'', ''kb'', ''kendalljenner'',
    ''kevinhart4real'', ''khloekardashian'', ''kimkardashian'', ''kingjames'', ''kiyo_saiore'', ''knowledge-base'', ''knowledgebase'',
    ''kourtneykardash'', ''kremlinrussia_e'', ''kyliejenner'', ''lab'', ''labs'', ''ladygaga'', ''language'', ''languages'', ''last'',
    ''ldap-status'', ''ldap_status'', ''ldapstatus'', ''legal'', ''leomessi'', ''lex'', ''lexicon'', ''liampayne'', ''license'',
    ''licenses'', ''liltunechi'', ''link'', ''links'', ''linux'', ''list'', ''lists'', ''livejournal'', ''lj'', ''local'', ''locale'',
    ''location'', ''log'', ''log-in'', ''log-out'', ''log_in'', ''log_out'', ''login'', ''logout'', ''logs'', ''lucianohuck'',
    ''lulaoficial'', ''m'']"

definition NAMES_5 :: "string list" where
  "NAMES_5 = [
    ''mac'', ''mac-os'', ''mac-os-x'', ''mac_os_x'', ''macos'', ''macosx'', ''mail'', ''mailer'', ''mailing'', ''main'', ''mainichi'',
    ''maintenance'', ''manage'', ''manager'', ''manual'', ''manutd'', ''map'', ''maps'', ''marcosmion'', ''mariahcarey'', ''marketing'',
    ''master'', ''matsu_bouzu'', ''me'', ''media'', ''member'', ''members'', ''memories'', ''memory'', ''merchandise'', ''message'',
    ''messages'', ''messenger'', ''mg'', ''microblog'', ''microblogs'', ''mileycyrus'', ''mine'', ''mis'', ''misc'', ''mms'', ''mob'',
    ''mobile'', ''model'', ''models'', ''mohamadalarefe'', ''money'', ''movie'', ''movies'', ''mp3'', ''mp4'', ''msg'', ''msn'',
    ''music'', ''mx'', ''my'', ''mymme'', ''mysql'', ''name'', ''named'', ''nan'', ''naomiosaka'', ''narendramodi'', ''nasa'',
    ''natgeo'', ''navi'', ''navigation'', ''nba'', ''net'', ''network'', ''networks'', ''new'', ''news'', ''newsletter'', ''neymarjr'',
    ''nfl'', ''nhk'', ''niallofficial'', ''nick'', ''nickiminaj'', ''nickname'', ''nike'', ''nikkei'', ''nil'', ''nintendo'', ''none'',
    ''notes'', ''noticias'', ''notification'', ''notifications'', ''notify'', ''npr'', ''ns'', ''ns1'', ''ns2'', ''ns3'', ''ns4'',
    ''ns5'']"

definition NAMES_6 :: "string list" where
  "NAMES_6 = [
    ''nsid'', ''ntv'', ''null'', ''nytimes'', ''oauth'', ''oauth-clients'', ''oauth_clients'', ''ocsp'', ''offer'', ''offers'',
    ''official'', ''old'', ''onedirection'', ''online'', ''oowareware1945'', ''openid'', ''operator'', ''oprah'', ''option'',
    ''options'', ''order'', ''orders'', ''org'', ''organization'', ''organizations'', ''other'', ''overview'', ''owner'', ''owners'',
    ''p0rn'', ''pack'', ''page'', ''pager'', ''pages'', ''paid'', ''pamyurin'', ''panel'', ''partner'', ''partnerpage'', ''partners'',
    ''password'', ''patch'', ''paulocoelho'', ''pay'', ''payment'', ''pds'', ''people'', ''perl'', ''person'', ''phone'', ''photo'',
    ''photoalbum'', ''photos'', ''php'', ''phpmyadmin'', ''phppgadmin'', ''phpredisadmin'', ''pic'', ''pics'', ''picture'',
    ''pictures'', ''ping'', ''pink'', ''pitbull'', ''pixel'', ''places'', ''plan'', ''plans'', ''playstation'', ''plc'', ''plugin'',
    ''plugins'', ''pmoindia'', ''podcasts'', ''poke_times'', ''policies'', ''policy'', ''pop'', ''pop3'', ''popular'', ''porn'',
    ''portal'', ''portalr7'', ''portals'', ''post'', ''postfix'', ''postmaster'', ''posts'', ''potus'', ''pr'', ''pr0n'',
    ''premierleague'', ''premium'', ''press'', ''price'', ''pricing'', ''principles'', ''print'']"

definition NAMES_7 :: "string list" where
  "NAMES_7 = [
    ''privacy'', ''privacy-policy'', ''privacy_policy'', ''privacypolicy'', ''private'', ''priyankachopra'', ''prod'', ''product'',
    ''production'', ''products'', ''profile'', ''profiles'', ''project'', ''projects'', ''promo'', ''promotions'', ''proxies'',
    ''proxy'', ''pub'', ''public'', ''purchase'', ''purpose'', ''put'', ''python'', ''queries'', ''query'', ''radio'', ''random'',
    ''ranking'', ''read'', ''reader'', ''readme'', ''realdonaldtrump'', ''recent'', ''recruit'', ''recruitment'', ''rede_globo'',
    ''redirect'', ''register'', ''registration'', ''release'', ''remove'', ''replies'', ''repo'', ''report'', ''reports'',
    ''repositories'', ''repository'', ''req'', ''request'', ''requests'', ''research'', ''reset'', ''resolve'', ''resolver'',
    ''review'', ''ricky_martin'', ''rihanna'', ''rnail'', ''rnicrosoft'', ''roc'', ''rolaworld'', ''rondesantisfl'', ''root'', ''rss'',
    ''ruby'', ''rule'', ''sachin_rt'', ''sag'', ''sale'', ''sales'', ''sample'', ''samples'', ''sandbox'', ''save'', ''scholar'',
    ''school'', ''schools'', ''script'', ''scripts'', ''search'', ''secure'', ''security'', ''seikintv'', ''selenagomez'', ''self'',
    ''seminars'', ''send'', ''server'', ''server-info'', ''server-status'', ''server_info'', ''server_status'', ''servers'',
    ''service'', ''services'', ''session'', ''sessions'']"

definition NAMES_8 :: "string list" where
  "NAMES_8 = [
    ''setting'', ''settings'', ''setup'', ''shakira'', ''share'', ''shawnmendes'', ''shop'', ''shopping'', ''shortcut'', ''shortcuts'',
    ''show'', ''sign-in'', ''sign-up'', ''sign_in'', ''sign_up'', ''signin'', ''signout'', ''signup'', ''site'', ''sitemap'',
    ''sitemaps'', ''sitenews'', ''sites'', ''sketchup'', ''sky'', ''slash'', ''slashinvoice'', ''slut'', ''smartphone'', ''sms'',
    ''smtp'', ''snoopdogg'', ''soap'', ''software'', ''sorry'', ''source'', ''spec'', ''special'', ''sportscenter'', ''spreadsheet'',
    ''spreadsheets'', ''sql'', ''srbachchan'', ''src'', ''srntp'', ''ssh'', ''ssl'', ''ssladmin'', ''ssladministrator'',
    ''sslwebmaster'', ''ssytem'', ''staff'', ''stage'', ''staging'', ''starbucksjapan'', ''start'', ''stat'', ''state'', ''static'',
    ''statistics'', ''stats'', ''status'', ''store'', ''stores'', ''stories'', ''style'', ''styleguide'', ''styles'', ''stylesheet'',
    ''stylesheets'', ''subdomain'', ''subhisharma100'', ''subscribe'', ''subscription'', ''subscriptions'', ''suggest'',
    ''suggestqueries'', ''support'', ''survey'', ''surveys'', ''surveytool'', ''svn'', ''swf'', ''syn'', ''sync'', ''syndicated'',
    ''sys'', ''sysadmin'', ''sysadministrator'', ''sysadmins'', ''system'', ''tablet'', ''tablets'', ''tag'', ''tags'', ''talk'',
    ''talkgadget'', ''task'']"

definition NAMES_9 :: "string list" where
  "NAMES_9 = [
    ''tasks'', ''taylorswift'', ''taylorswift13'', ''tbs'', ''tbs_pr'', ''team'', ''teams'', ''tech'', ''telnet'', ''term'', ''terms'',
    ''terms-of-service'', ''terms_of_service'', ''termsofservice'', ''test'', ''testing'', ''tests'', ''text'', ''theeconomist'',
    ''theme'', ''themes'', ''therock'', ''thread'', ''threads'', ''ticket'', ''tickets'', ''tid'', ''tmp'', ''to-do'', ''to_do'',
    ''todo'', ''toml'', ''tool'', ''toolbar'', ''toolbars'', ''tools'', ''top'', ''topic'', ''topics'', ''tos'', ''tour'', ''trac'',
    ''trace'', ''translate'', ''translation'', ''translations'', ''translator'', ''trends'', ''tutorial'', ''tux'', ''tv'', ''tvasahi'',
    ''tvtokyo'', ''twitter'', ''txt'', ''ukraine'', ''ul'', ''undef'', ''unfollow'', ''unsubscribe'', ''update'', ''updates'',
    ''upgrade'', ''upgrades'', ''upi'', ''upload'', ''uploads'', ''url'', ''usage'', ''user'', ''username'', ''usernames'', ''users'',
    ''uuid'', ''validation'', ''validations'', ''ver'', ''version'', ''video'', ''video-stats'', ''videos'', ''virendersehwag'',
    ''visitor'', ''visitors'', ''voice'', ''volunteer'', ''volunteers'', ''w'', ''washingtonpost'', ''watch'', ''wave'', ''weather'',
    ''web'', ''webdisk'', ''webhook'', ''webhooks'', ''webmail'', ''webmaster'']"

definition NAMES_10 :: "string list" where
  "NAMES_10 = [
    ''webmasters'', ''webrnail'', ''website'', ''websites'', ''welcome'', ''whitehouse45'', ''whm'', ''whois'', ''widget'', ''widgets'',
    ''wifi'', ''wiki'', ''wikis'', ''win'', ''windows'', ''wizkhalifa'', ''word'', ''work'', ''works'', ''workshop'', ''wpad'', ''ww'',
    ''wws'', ''www'', ''wwws'', ''wwww'', ''xfn'', ''xhtml'', ''xhtrnl'', ''xml'', ''xmpp'', ''xpg'', ''xrpc'', ''xxx'', ''yaml'',
    ''year'', ''yml'', ''yokoono'', ''yomiuri_online'', ''you'', ''yourdomain'', ''yourname'', ''yoursite'', ''yourusername'',
    ''yousuck2020'', ''youtube'', ''zaynmalik'', ''zelenskyyua'', ''zerohora'']"

text \<open>The list of the source, in runs of about a hundred names.\<close>

definition NAMES :: "string list" where
  "NAMES = concat [NAMES_0, NAMES_1, NAMES_2, NAMES_3, NAMES_4, NAMES_5, NAMES_6, NAMES_7, NAMES_8, NAMES_9, NAMES_10]"

definition reserved_held :: "string \<Rightarrow> bool" where
  "reserved_held name = binary_search NAMES name"

lemma name_before_iff: "name_before a b \<longleftrightarrow> a < b"
  by (induction a b rule: name_before.induct) (auto simp: less_char_def)

lemma names_ordered_sorted: "names_ordered ns \<Longrightarrow> sorted_wrt (<) ns"
  by (induction ns rule: names_ordered.induct) (auto simp: name_before_iff dest: less_trans)

lemma names_ordered_append:
  "names_ordered (a # ns @ b # ms) \<longleftrightarrow> names_ordered (a # ns) \<and> name_before (last (a # ns)) b \<and> names_ordered (b # ms)"
proof (induction ns arbitrary: a)
  case (Cons c ns)
  then show ?case by (cases ns) auto
qed simp

lemma runs_joined:
  assumes "names_ordered xs" "names_ordered ys" "xs \<noteq> []" "ys \<noteq> []" "name_before (last xs) (hd ys)"
  shows "names_ordered (xs @ ys)"
  using assms names_ordered_append [of "hd xs" "tl xs" "hd ys" "tl ys"] by (cases xs; cases ys) auto

lemma NAMES_0_ordered: "names_ordered NAMES_0" "NAMES_0 \<noteq> []" "hd NAMES_0 = ''10downingstreet''" "last NAMES_0 = ''bluesky''"
  by (simp_all add: NAMES_0_def)

lemma NAMES_1_ordered: "names_ordered NAMES_1" "NAMES_1 \<noteq> []" "hd NAMES_1 = ''board''" "last NAMES_1 = ''db''"
  by (simp_all add: NAMES_1_def)

lemma NAMES_2_ordered: "names_ordered NAMES_2" "NAMES_2 \<noteq> []" "hd NAMES_2 = ''ddlovato''" "last NAMES_2 = ''feedburner''"
  by (simp_all add: NAMES_2_def)

lemma NAMES_3_ordered: "names_ordered NAMES_3" "NAMES_3 \<noteq> []" "hd NAMES_3 = ''feedproxy''" "last NAMES_3 = ''index''"
  by (simp_all add: NAMES_3_def)

lemma NAMES_4_ordered: "names_ordered NAMES_4" "NAMES_4 \<noteq> []" "hd NAMES_4 = ''indexes''" "last NAMES_4 = ''m''"
  by (simp_all add: NAMES_4_def)

lemma NAMES_5_ordered: "names_ordered NAMES_5" "NAMES_5 \<noteq> []" "hd NAMES_5 = ''mac''" "last NAMES_5 = ''ns5''"
  by (simp_all add: NAMES_5_def)

lemma NAMES_6_ordered: "names_ordered NAMES_6" "NAMES_6 \<noteq> []" "hd NAMES_6 = ''nsid''" "last NAMES_6 = ''print''"
  by (simp_all add: NAMES_6_def)

lemma NAMES_7_ordered: "names_ordered NAMES_7" "NAMES_7 \<noteq> []" "hd NAMES_7 = ''privacy''" "last NAMES_7 = ''sessions''"
  by (simp_all add: NAMES_7_def)

lemma NAMES_8_ordered: "names_ordered NAMES_8" "NAMES_8 \<noteq> []" "hd NAMES_8 = ''setting''" "last NAMES_8 = ''task''"
  by (simp_all add: NAMES_8_def)

lemma NAMES_9_ordered: "names_ordered NAMES_9" "NAMES_9 \<noteq> []" "hd NAMES_9 = ''tasks''" "last NAMES_9 = ''webmaster''"
  by (simp_all add: NAMES_9_def)

lemma NAMES_10_ordered: "names_ordered NAMES_10" "NAMES_10 \<noteq> []" "hd NAMES_10 = ''webmasters''" "last NAMES_10 = ''zerohora''"
  by (simp_all add: NAMES_10_def)

lemmas runs_ordered = NAMES_0_ordered NAMES_1_ordered NAMES_2_ordered NAMES_3_ordered NAMES_4_ordered NAMES_5_ordered NAMES_6_ordered NAMES_7_ordered NAMES_8_ordered NAMES_9_ordered NAMES_10_ordered

lemma NAMES_ordered: "names_ordered NAMES"
  unfolding NAMES_def concat.simps append_Nil2 by (intro runs_joined) (simp_all add: runs_ordered)

lemma reserved_held_iff: "reserved_held name \<longleftrightarrow> name \<in> set NAMES"
  unfolding reserved_held_def by (rule binary_search_iff [OF names_ordered_sorted [OF NAMES_ordered]])

end
