(* ===== verification/Handles.thy ===== *)
theory Handles
  imports Reserved Syntax
begin

text \<open>
  Handles this server hands out: \<open>src/account/handle.rs\<close>. \<open>trim\<close> is the standard library's, which takes
  Unicode's white space off both ends of a string; here the characters are their UTF-8 bytes.
\<close>

section \<open>Strings\<close>

definition ends_with :: "string \<Rightarrow> string \<Rightarrow> bool" where
  "ends_with s t \<longleftrightarrow> length t \<le> length s \<and> drop (length s - length t) s = t"

definition white_space :: "string list" where
  "white_space =
     [[CHR 0x09], [CHR 0x0A], [CHR 0x0B], [CHR 0x0C], [CHR 0x0D], [CHR 0x20], [CHR 0xC2, CHR 0x85], [CHR 0xC2, CHR 0xA0],
      [CHR 0xE1, CHR 0x9A, CHR 0x80], [CHR 0xE2, CHR 0x80, CHR 0x80], [CHR 0xE2, CHR 0x80, CHR 0x81], [CHR 0xE2, CHR 0x80, CHR 0x82],
      [CHR 0xE2, CHR 0x80, CHR 0x83], [CHR 0xE2, CHR 0x80, CHR 0x84], [CHR 0xE2, CHR 0x80, CHR 0x85], [CHR 0xE2, CHR 0x80, CHR 0x86],
      [CHR 0xE2, CHR 0x80, CHR 0x87], [CHR 0xE2, CHR 0x80, CHR 0x88], [CHR 0xE2, CHR 0x80, CHR 0x89], [CHR 0xE2, CHR 0x80, CHR 0x8A],
      [CHR 0xE2, CHR 0x80, CHR 0xA8], [CHR 0xE2, CHR 0x80, CHR 0xA9], [CHR 0xE2, CHR 0x80, CHR 0xAF], [CHR 0xE2, CHR 0x81, CHR 0x9F],
      [CHR 0xE3, CHR 0x80, CHR 0x80]]"

fun strip_any :: "string list \<Rightarrow> string \<Rightarrow> string option" where
  "strip_any [] s = None"
| "strip_any (w # ws) s = (case strip_prefix w s of Some t \<Rightarrow> Some t | None \<Rightarrow> strip_any ws s)"

lemma strip_any_shorter: "strip_any ws s = Some t \<Longrightarrow> [] \<notin> set ws \<Longrightarrow> length t < length s"
proof (induction ws)
  case (Cons w ws)
  have "strip_prefix w s = Some t \<Longrightarrow> length s = length w + length t"
    by (induction w s rule: strip_prefix.induct) (auto split: if_splits)
  with Cons show ?case by (auto split: option.splits)
qed simp

function trim_with :: "string list \<Rightarrow> string \<Rightarrow> string" where
  "trim_with ws s = (if [] \<in> set ws then s else case strip_any ws s of Some t \<Rightarrow> trim_with ws t | None \<Rightarrow> s)"
  by pat_completeness auto
termination
  by (relation "measure (\<lambda>(ws, s). length s)") (auto dest: strip_any_shorter)

declare trim_with.simps [simp del]

definition trim :: "string \<Rightarrow> string" where
  "trim s = rev (trim_with (map rev white_space) (rev (trim_with white_space s)))"


section \<open>Rules\<close>

definition INVALID :: string where "INVALID = ''handle.invalid''"
definition SHORTEST :: nat where "SHORTEST = 3"
definition LONGEST :: nat where "LONGEST = 18"

definition DISALLOWED :: "string list" where
  "DISALLOWED = [''.local'', ''.arpa'', ''.invalid'', ''.localhost'', ''.internal'', ''.example'', ''.alt'', ''.onion'']"

datatype invalid = InvalidHandle string | Reserved_Handle | Unsupported

fun invalid_name :: "invalid \<Rightarrow> string" where
  "invalid_name (InvalidHandle _) = ''InvalidHandle''"
| "invalid_name Reserved_Handle = ''HandleNotAvailable''"
| "invalid_name Unsupported = ''UnsupportedDomain''"

record rules =
  domains :: "string list"
  held_back :: "string list"

definition rules_new :: "string list \<Rightarrow> string list \<Rightarrow> rules" where
  "rules_new ds ns =
     \<lparr>domains = ds,
      held_back = remdups_adj (sort (filter (\<lambda>n. n \<noteq> []) (map (\<lambda>n. to_ascii_lowercase (trim n)) ns)))\<rparr>"

definition rules_normalize :: "string \<Rightarrow> invalid + handle" where
  "rules_normalize input =
     bindE (map_err (\<lambda>_. InvalidHandle ''Invalid handle'') (handle_normalize input)) (\<lambda>h.
     if list_ex (ends_with (handle_str h)) DISALLOWED then Inl (InvalidHandle ''Handle TLD is invalid or disallowed'')
     else Inr h)"

definition service_domain :: "rules \<Rightarrow> handle \<Rightarrow> string option" where
  "service_domain R h = find (ends_with (handle_str h)) (domains R)"

definition is_local :: "rules \<Rightarrow> handle \<Rightarrow> bool" where
  "is_local R h \<longleftrightarrow>
     list_ex (\<lambda>d. ends_with (handle_str h) d \<or> strip_prefix ''.'' d = Some (handle_str h)) (domains R)"

definition signup_handle :: "rules \<Rightarrow> string \<Rightarrow> invalid + handle" where
  "signup_handle R input =
     bindE (rules_normalize input) (\<lambda>h.
     bindE (ok_or Unsupported (service_domain R h)) (\<lambda>d.
     let front = take (length (handle_str h) - length d) (handle_str h) in
     if CHR ''.'' \<in> set front then Inl (InvalidHandle ''Invalid characters in handle'')
     else if length front < SHORTEST then Inl (InvalidHandle ''Handle too short'')
     else if length front > LONGEST then Inl (InvalidHandle ''Handle too long'')
     else if reserved_held front \<or> binary_search (held_back R) front then Inl Reserved_Handle
     else Inr h))"


section \<open>What is handed out\<close>

lemma sort_dedup: "sorted_wrt (<) (remdups_adj (sort xs))"
proof -
  have "sorted ys \<Longrightarrow> sorted_wrt (<) (remdups_adj ys)" for ys :: "'a list"
    by (induction ys rule: remdups_adj.induct) (auto simp: order_less_le)
  then show ?thesis by simp
qed

lemma held_back_iff:
  "binary_search (held_back (rules_new ds ns)) x \<longleftrightarrow> x \<noteq> [] \<and> x \<in> (\<lambda>n. to_ascii_lowercase (trim n)) ` set ns"
  by (subst binary_search_iff) (auto simp: rules_new_def sort_dedup)

text \<open>C40: the handles a new account may be created under. A handle is accepted exactly when it is what
  the input normalizes to, it ends in nothing that could never resolve, and in front of the first of
  this server's domains it ends in stands one label of three to eighteen characters that is neither on
  the built-in list nor, however either is spelled, one the configuration holds back.\<close>

theorem signup_handle_iff:
  "signup_handle (rules_new ds ns) input = Inr h \<longleftrightarrow>
     handle_normalize input = Inr h
     \<and> \<not> list_ex (ends_with (handle_str h)) DISALLOWED
     \<and> (\<exists>d front. find (ends_with (handle_str h)) ds = Some d \<and> handle_str h = front @ d
          \<and> CHR ''.'' \<notin> set front \<and> length front \<in> {3..18}
          \<and> front \<notin> set NAMES \<and> front \<notin> (\<lambda>n. to_ascii_lowercase (trim n)) ` set ns)"
proof -
  have f: "find (ends_with (handle_str h)) ds = Some d \<Longrightarrow>
      handle_str h = take (length (handle_str h) - length d) (handle_str h) @ d" for d
    by (auto simp: find_Some_iff ends_with_def) (metis append_take_drop_id)
  have n: "rules_normalize input = Inr h \<longleftrightarrow> handle_normalize input = Inr h \<and> \<not> list_ex (ends_with (handle_str h)) DISALLOWED"
    by (auto simp: rules_normalize_def result_simps split: if_splits)
  have g: "domains (rules_new ds ns) = ds" by (simp add: rules_new_def)
  have "signup_handle (rules_new ds ns) input = Inr h \<longleftrightarrow>
      rules_normalize input = Inr h \<and> (\<exists>d. find (ends_with (handle_str h)) ds = Some d
        \<and> (let front = take (length (handle_str h) - length d) (handle_str h) in
             CHR ''.'' \<notin> set front \<and> length front \<in> {3..18} \<and> front \<notin> set NAMES
             \<and> front \<notin> (\<lambda>n. to_ascii_lowercase (trim n)) ` set ns))"
    unfolding signup_handle_def Let_def service_domain_def g
    by (auto simp: result_simps SHORTEST_def LONGEST_def reserved_held_iff held_back_iff not_less split: if_splits)
  also have "\<dots> \<longleftrightarrow> rules_normalize input = Inr h \<and> (\<exists>d front. find (ends_with (handle_str h)) ds = Some d \<and> handle_str h = front @ d
        \<and> CHR ''.'' \<notin> set front \<and> length front \<in> {3..18} \<and> front \<notin> set NAMES
        \<and> front \<notin> (\<lambda>n. to_ascii_lowercase (trim n)) ` set ns)"
    unfolding Let_def
  proof (intro conj_cong refl ex_cong1)
    fix d :: string
    let ?front = "take (length (handle_str h) - length d) (handle_str h)"
    let ?P = "\<lambda>front. CHR ''.'' \<notin> set front \<and> length front \<in> {3..18} \<and> front \<notin> set NAMES
        \<and> front \<notin> (\<lambda>n. to_ascii_lowercase (trim n)) ` set ns"
    have "(\<exists>front. handle_str h = front @ d \<and> ?P front) \<longleftrightarrow> ?P ?front"
      if "handle_str h = ?front @ d" using that append_same_eq by metis
    with f [of d] show "find (ends_with (handle_str h)) ds = Some d \<and> ?P ?front \<longleftrightarrow>
        (\<exists>front. find (ends_with (handle_str h)) ds = Some d \<and> handle_str h = front @ d \<and> ?P front)"
      by blast
  qed
  finally show ?thesis by (simp add: n conj_assoc)
qed

end
