(* ===== verification/Service.thy ===== *)
theory Service
  imports Actor Handles
begin

text \<open>
  The errors of \<open>src/account.rs\<close>, with those of \<open>src/plc.rs\<close> that it passes on.
\<close>

datatype plc_error =
    PlcEncode string
  | PlcSignature
  | PlcMalformed string
  | PlcUnreachable string
  | PlcUncertain string
  | PlcRefused nat string

datatype 'c account_error =
    BadCredentials
  | BadHandle invalid
  | BadEmail
  | PasswordTooLong
  | Taken string
  | InviteRequired
  | BadInvite
  | TooManyInvites
  | PlcError plc_error
  | NoRepo did
  | NoBlocks string
  | Swap 'c
  | SwapRecord string
  | Contended
  | BlobError "'c store_error"
  | RepoError "'c repo_error"
  | StorageError "'c store_error"

fun of_store_error :: "'c store_error \<Rightarrow> 'c account_error" where
  "of_store_error InviteUnavailable = BadInvite"
| "of_store_error HandleTaken = Taken ''Handle''"
| "of_store_error EmailTaken = Taken ''Email''"
| "of_store_error AppPasswordTaken = Taken ''App password name''"
| "of_store_error (BlobMissing c) = BlobError (BlobMissing c)"
| "of_store_error (BlobMismatch a b c) = BlobError (BlobMismatch a b c)"
| "of_store_error e = StorageError e"

text \<open>A database that is busy is not one of the errors of this model, so \<open>store::Error::busy\<close> is never.\<close>

fun account_sent :: "'c account_error \<Rightarrow> bool" where
  "account_sent (NoBlocks _) = True"
| "account_sent (RepoError e) = error_sent e"
| "account_sent _ = False"

fun account_busy :: "'c account_error \<Rightarrow> bool" where
  "account_busy (RepoError e) = error_busy e"
| "account_busy Contended = True"
| "account_busy _ = False"

fun account_error_kind :: "'c account_error \<Rightarrow> string" where
  "account_error_kind (BadHandle i) = invalid_name i"
| "account_error_kind InviteRequired = ''InvalidInviteCode''"
| "account_error_kind BadInvite = ''InvalidInviteCode''"
| "account_error_kind BadCredentials = ''AuthenticationRequired''"
| "account_error_kind (PlcError _) = ''InternalServerError''"
| "account_error_kind (RepoError _) = ''InternalServerError''"
| "account_error_kind (StorageError _) = ''InternalServerError''"
| "account_error_kind (NoRepo _) = ''RepoNotFound''"
| "account_error_kind (BlobError (BlobMismatch what _ _)) = (if what = ''Size'' then ''InvalidSize'' else ''InvalidMimeType'')"
| "account_error_kind (BlobError _) = ''BlobNotFound''"
| "account_error_kind (Swap _) = ''InvalidSwap''"
| "account_error_kind (SwapRecord _) = ''InvalidSwap''"
| "account_error_kind _ = ''InvalidRequest''"

definition account_error_name :: "'c account_error \<Rightarrow> string" where
  "account_error_name e =
     (if account_busy e then ''NotEnoughResources''
      else if account_sent e then ''InvalidRequest''
      else account_error_kind e)"

end
