(* ===== verification/Refs.thy ===== *)
theory Refs
  imports Actor
begin

text \<open>
  What a record points at: the subject it may only have one of, \<open>src/account/backlink.rs\<close>, and the blobs
  it names, \<open>src/account/blobref.rs\<close>.
\<close>

section \<open>Backlinks\<close>

definition FOLLOW :: string where "FOLLOW = ''app.bsky.graph.follow''"
definition BLOCK :: string where "BLOCK = ''app.bsky.graph.block''"
definition LIKE :: string where "LIKE = ''app.bsky.feed.like''"
definition REPOST :: string where "REPOST = ''app.bsky.feed.repost''"
definition SUBJECT :: string where "SUBJECT = ''subject''"
definition SUBJECT_URI :: string where "SUBJECT_URI = ''subject.uri''"

definition parses :: "'e + 'a \<Rightarrow> bool" where
  "parses r = (case r of Inl _ \<Rightarrow> False | Inr _ \<Rightarrow> True)"

definition backlink_of :: "'c ipld \<Rightarrow> backlink list" where
  "backlink_of r =
     (case r of
        IMap kvs \<Rightarrow>
          (case map_of kvs ''$type'' of
             Some (IString kind) \<Rightarrow>
               if kind = FOLLOW \<or> kind = BLOCK then
                 (case map_of kvs SUBJECT of
                    Some (IString did) \<Rightarrow> if parses (did_from_str did) then [\<lparr>l_path = SUBJECT, l_to = did\<rparr>] else []
                  | _ \<Rightarrow> [])
               else if kind = LIKE \<or> kind = REPOST then
                 (case map_of kvs SUBJECT of
                    Some (IMap subject) \<Rightarrow>
                      (case map_of subject ''uri'' of
                         Some (IString u) \<Rightarrow> if parses (at_uri_from_str u) then [\<lparr>l_path = SUBJECT_URI, l_to = u\<rparr>] else []
                       | _ \<Rightarrow> [])
                  | _ \<Rightarrow> [])
               else []
           | _ \<Rightarrow> [])
      | _ \<Rightarrow> [])"

definition held_to_one :: "nsid \<Rightarrow> bool" where
  "held_to_one n \<longleftrightarrow> nsid_str n \<in> {FOLLOW, BLOCK, LIKE, REPOST}"


section \<open>Blob references\<close>

definition BLOB_KEYS :: "string list" where
  "BLOB_KEYS = [''$type'', ''ref'', ''mimeType'', ''size'']"

definition blob_named :: "(string \<times> 'c ipld) list \<Rightarrow> 'c blob option" where
  "blob_named kvs =
     (if length kvs \<noteq> length BLOB_KEYS \<or> \<not> list_all (\<lambda>k. map_of kvs k \<noteq> None) BLOB_KEYS then None
      else
        (case map_of kvs ''$type'' of
           Some (IString kind) \<Rightarrow>
             if kind \<noteq> ''blob'' then None
             else
               (case map_of kvs ''ref'' of
                  Some (ILink c) \<Rightarrow>
                    (case map_of kvs ''mimeType'' of
                       Some (IString mime) \<Rightarrow>
                         if CHR ''/'' \<notin> set mime then None
                         else
                           (case map_of kvs ''size'' of
                              Some (IInteger n) \<Rightarrow> if 0 \<le> n \<and> n < 2 ^ 64 then Some \<lparr>b_cid = c, b_mime = mime, b_size = nat n\<rparr> else None
                            | _ \<Rightarrow> None)
                     | _ \<Rightarrow> None)
                | _ \<Rightarrow> None)
         | _ \<Rightarrow> None))"

definition claims_to_be_blob :: "(string \<times> 'c ipld) list \<Rightarrow> bool" where
  "claims_to_be_blob kvs = (case map_of kvs ''$type'' of Some (IString kind) \<Rightarrow> kind = ''blob'' | _ \<Rightarrow> False)"

fun blobs_walk :: "'c ipld \<Rightarrow> 'c repo_error + 'c blob list" where
  "blobs_walk (IList xs) = bindE (mapE blobs_walk xs) (\<lambda>bs. Inr (concat bs))"
| "blobs_walk (IMap kvs) =
     (case blob_named kvs of
        Some b \<Rightarrow> Inr [b]
      | None \<Rightarrow>
          if claims_to_be_blob kvs then Inl (NotRecordData ''a blob reference that is not one'')
          else bindE (mapE (\<lambda>(k, v). blobs_walk v) kvs) (\<lambda>bs. Inr (concat bs)))"
| "blobs_walk _ = Inr []"

definition blobs_of :: "'c ipld \<Rightarrow> 'c repo_error + 'c blob list" where
  "blobs_of r = blobs_walk r"

end
