(* ===== verification/Sequencer.thy ===== *)
theory Sequencer
  imports Store
begin

text \<open>
  The event log: \<open>src/store/sequencer.rs\<close>. The table of events is its rows in the order of their numbers;
  \<open>sq_last\<close> is the counter SQLite keeps for an \<open>autoincrement\<close> key, which only grows. The time a row is
  written at is an argument.
\<close>

section \<open>The log\<close>

datatype event_kind = EvAppend | EvSync | EvIdentity | EvAccount

fun event_as_str :: "event_kind \<Rightarrow> string" where
  "event_as_str EvAppend = ''append''"
| "event_as_str EvSync = ''sync''"
| "event_as_str EvIdentity = ''identity''"
| "event_as_str EvAccount = ''account''"

definition event_parse :: "string \<Rightarrow> event_kind option" where
  "event_parse s =
     (if s = ''append'' then Some EvAppend
      else if s = ''sync'' then Some EvSync
      else if s = ''identity'' then Some EvIdentity
      else if s = ''account'' then Some EvAccount
      else None)"

record log_row =
  lr_seq :: int
  lr_did :: string
  lr_kind :: string
  lr_event :: bytes
  lr_invalidated :: bool
  lr_at :: string

record log_entry =
  en_seq :: int
  en_did :: did
  en_event :: event_kind
  en_body :: bytes
  en_at :: string

record sequencer =
  sq_rows :: "log_row list"
  sq_last :: int

definition sequencer_new :: sequencer where
  "sequencer_new = \<lparr>sq_rows = [], sq_last = 0\<rparr>"

definition log_insert :: "string \<Rightarrow> did \<Rightarrow> event_kind \<Rightarrow> bytes \<Rightarrow> sequencer \<Rightarrow> 'c store_error + (int \<times> sequencer)" where
  "log_insert now did ev body q =
     (let n = sq_last q + 1 in
      if n \<ge> 2 ^ 63 then Inl (Sqlite ''database or disk is full'')
      else Inr (n, \<lparr>sq_rows = sq_rows q @ [\<lparr>lr_seq = n, lr_did = did_str did, lr_kind = event_as_str ev, lr_event = body,
                     lr_invalidated = False, lr_at = now\<rparr>], sq_last = n\<rparr>))"

definition log_append :: "string \<Rightarrow> did \<Rightarrow> event_kind \<Rightarrow> bytes \<Rightarrow> sequencer \<Rightarrow> 'c store_error + (int \<times> sequencer)" where
  "log_append now did ev body q = log_insert now did ev body q"

fun extend_loop ::
    "string \<Rightarrow> did \<Rightarrow> (event_kind \<times> bytes) list \<Rightarrow> int list \<Rightarrow> sequencer \<Rightarrow> 'c store_error + (int list \<times> sequencer)" where
  "extend_loop now did [] ns q = Inr (ns, q)"
| "extend_loop now did ((ev, body) # rest) ns q =
     bindE (log_insert now did ev body q) (\<lambda>(n, q). extend_loop now did rest (ns @ [n]) q)"

text \<open>A transaction: on an error the log is the one the caller still has.\<close>

definition log_extend :: "string \<Rightarrow> did \<Rightarrow> (event_kind \<times> bytes) list \<Rightarrow> sequencer \<Rightarrow> 'c store_error + (int list \<times> sequencer)" where
  "log_extend now did bodies q = extend_loop now did bodies [] q"

definition log_latest :: "sequencer \<Rightarrow> int option" where
  "log_latest q = (if sq_rows q = [] then None else Some (Max (set (map lr_seq (sq_rows q)))))"

definition log_page :: "int \<Rightarrow> nat \<Rightarrow> sequencer \<Rightarrow> log_row list" where
  "log_page seq limit q = take limit (filter (\<lambda>r. lr_seq r > seq \<and> \<not> lr_invalidated r) (sq_rows q))"

definition log_entry_of :: "log_row \<Rightarrow> 'c store_error + log_entry" where
  "log_entry_of r =
     bindE (map_err (\<lambda>_. Malformed ''a logged DID that is not one'') (did_from_str (lr_did r))) (\<lambda>d.
     bindE (ok_or (Malformed ''an event type nothing writes'') (event_parse (lr_kind r))) (\<lambda>ev.
     Inr \<lparr>en_seq = lr_seq r, en_did = d, en_event = ev, en_body = lr_event r, en_at = lr_at r\<rparr>))"

definition log_since :: "int \<Rightarrow> nat \<Rightarrow> sequencer \<Rightarrow> 'c store_error + log_entry list" where
  "log_since seq limit q = mapE log_entry_of (log_page seq limit q)"


section \<open>Pages\<close>

text \<open>Rows in an order, read a page at a time: the rows after a place, as many as the limit. Followed from
  each page's last row, the pages are all the rows after the first place.\<close>

lemma filter_split:
  "filter P rows = xs @ y # ys \<Longrightarrow> \<exists>us vs. rows = us @ y # vs \<and> xs = filter P us \<and> P y \<and> ys = filter P vs"
proof (induction rows arbitrary: xs)
  case (Cons r rows)
  show ?case
  proof (cases "P r")
    case False
    then obtain us vs where "rows = us @ y # vs \<and> xs = filter P us \<and> P y \<and> ys = filter P vs" using Cons by fastforce
    then show ?thesis using False by (intro exI [of _ "r # us"] exI [of _ vs]) simp
  next
    case True
    show ?thesis
    proof (cases xs)
      case Nil
      then show ?thesis using True Cons.prems by (intro exI [of _ "[]"] exI [of _ rows]) simp
    next
      case (Cons x xs')
      then obtain us vs where "rows = us @ y # vs \<and> xs' = filter P us \<and> P y \<and> ys = filter P vs"
        using True Cons.IH [of xs'] Cons.prems by auto
      then show ?thesis using True Cons Cons.prems by (intro exI [of _ "r # us"] exI [of _ vs]) simp
    qed
  qed
qed simp

fun walk_pages :: "('p \<Rightarrow> nat \<Rightarrow> 'a list) \<Rightarrow> ('a \<Rightarrow> 'p) \<Rightarrow> nat \<Rightarrow> nat \<Rightarrow> 'p \<Rightarrow> 'a list" where
  "walk_pages page place 0 n p = []"
| "walk_pages page place (Suc k) n p =
     (case page p n of [] \<Rightarrow> [] | x # xs \<Rightarrow> (x # xs) @ walk_pages page place k n (place (last (x # xs))))"

locale pages =
  fixes rows :: "'a list" and after :: "'a \<Rightarrow> 'p \<Rightarrow> bool" and place :: "'a \<Rightarrow> 'p" and page :: "'p \<Rightarrow> nat \<Rightarrow> 'a list"
  assumes page_eq: "page p n = take n (filter (\<lambda>x. after x p) rows)"
    and in_order: "rows = xs @ y # ys \<Longrightarrow> z \<in> set rows \<Longrightarrow> after z (place y) \<longleftrightarrow> z \<in> set ys"
    and after_trans: "after x p \<Longrightarrow> after y (place x) \<Longrightarrow> after y p"
    and rows_distinct: "distinct rows"
begin

lemma after_last:
  assumes "filter (\<lambda>x. after x p) rows = xs @ y # ys"
  shows "filter (\<lambda>x. after x (place y)) rows = ys"
proof -
  obtain us vs where u: "rows = us @ y # vs" "xs = filter (\<lambda>x. after x p) us" "after y p" "ys = filter (\<lambda>x. after x p) vs"
    using filter_split [OF assms] by blast
  have "after z (place y) \<longleftrightarrow> z \<in> set vs" if "z \<in> set rows" for z by (rule in_order [OF u(1) that])
  moreover have "set us \<inter> set vs = {}" "y \<notin> set vs" using rows_distinct u(1) by auto
  moreover have "after z p" if "z \<in> set vs" for z
    by (rule after_trans [OF u(3)]) (use in_order [OF u(1), of z] that u(1) in simp)
  ultimately show ?thesis using u(1,4) by (auto simp: filter_empty_conv filter_id_conv)
qed

lemma walk_all:
  assumes "0 < n" "length (filter (\<lambda>x. after x p) rows) \<le> k"
  shows "walk_pages page place k n p = filter (\<lambda>x. after x p) rows"
  using assms(2)
proof (induction k arbitrary: p)
  case (Suc k)
  let ?f = "filter (\<lambda>x. after x p) rows"
  show ?case
  proof (cases "?f = []")
    case True
    then show ?thesis by (simp add: page_eq [of p n])
  next
    case False
    let ?t = "take n ?f"
    have t: "?t \<noteq> []" using False assms(1) by simp
    then have "?f = butlast ?t @ last ?t # drop n ?f"
      by (metis append.assoc append_Cons append_Nil append_butlast_last_id append_take_drop_id)
    then have "filter (\<lambda>x. after x (place (last ?t))) rows = drop n ?f" by (rule after_last)
    then have "walk_pages page place k n (place (last ?t)) = drop n ?f" using Suc.IH Suc.prems assms(1) by simp
    then show ?thesis using t by (cases "?t") (simp_all add: page_eq [of p n], metis append_Cons append_take_drop_id)
  qed
qed simp

end


section \<open>What the log promises\<close>

definition log_ok :: "sequencer \<Rightarrow> bool" where
  "log_ok q \<longleftrightarrow> 0 \<le> sq_last q \<and> sorted_wrt (\<lambda>r s. lr_seq r < lr_seq s) (sq_rows q) \<and> (\<forall>r \<in> set (sq_rows q). 0 < lr_seq r \<and> lr_seq r \<le> sq_last q)
     \<and> (\<forall>r \<in> set (sq_rows q). \<exists>ev did. lr_kind r = event_as_str ev \<and> lr_did r = did_str did \<and> did_from_str (did_str did) = Inr did)"

lemma event_roundtrip [simp]: "event_parse (event_as_str ev) = Some ev"
  by (cases ev) (simp_all add: event_parse_def)

lemma log_insert_Inr:
  assumes "log_ok q" "did_from_str (did_str did) = Inr did" "log_insert now did ev body q = Inr (n, q')"
  shows "log_ok q' \<and> sq_last q < n \<and> sq_last q' = n \<and> sq_rows q' = sq_rows q @ [\<lparr>lr_seq = n, lr_did = did_str did,
    lr_kind = event_as_str ev, lr_event = body, lr_invalidated = False, lr_at = now\<rparr>]"
proof -
  have q: "n = sq_last q + 1" "sq_last q' = n" "sq_rows q' = sq_rows q @ [\<lparr>lr_seq = n, lr_did = did_str did,
      lr_kind = event_as_str ev, lr_event = body, lr_invalidated = False, lr_at = now\<rparr>]"
    using assms(3) by (auto simp: log_insert_def Let_def split: if_splits)
  have "0 \<le> sq_last q" using assms(1) by (simp add: log_ok_def)
  then have "log_ok q'"
    using assms(1,2) q(1) unfolding log_ok_def q(2,3) by (fastforce simp: sorted_wrt_append)
  then show ?thesis using q by simp
qed

lemma extend_loop_Inr:
  assumes "did_from_str (did_str did) = Inr did"
  shows "log_ok q \<Longrightarrow> extend_loop now did bodies ns q = (Inr (ns', q') :: 'c store_error + _) \<Longrightarrow>
    log_ok q' \<and> (\<exists>ms. ns' = ns @ ms \<and> length ms = length bodies \<and> sorted_wrt (<) (sq_last q # ms) \<and> sq_last q' = last (sq_last q # ms)
      \<and> sq_rows q' = sq_rows q @ map (\<lambda>(n, ev, body). \<lparr>lr_seq = n, lr_did = did_str did, lr_kind = event_as_str ev, lr_event = body,
          lr_invalidated = False, lr_at = now\<rparr>) (zip ms bodies))"
proof (induction bodies arbitrary: ns q)
  case (Cons p bodies)
  obtain ev body where p: "p = (ev, body)" by fastforce
  then obtain n q1 where n: "log_insert now did ev body q = (Inr (n, q1) :: 'c store_error + _)"
      "extend_loop now did bodies (ns @ [n]) q1 = (Inr (ns', q') :: 'c store_error + _)"
    using Cons.prems(2) by (auto simp: result_simps)
  note i = log_insert_Inr [OF Cons.prems(1) assms n(1)]
  obtain ms where ms: "ns' = (ns @ [n]) @ ms" "length ms = length bodies" "sorted_wrt (<) (sq_last q1 # ms)" "sq_last q' = last (sq_last q1 # ms)"
      "sq_rows q' = sq_rows q1 @ map (\<lambda>(n, ev, body). \<lparr>lr_seq = n, lr_did = did_str did, lr_kind = event_as_str ev, lr_event = body,
          lr_invalidated = False, lr_at = now\<rparr>) (zip ms bodies)" "log_ok q'"
    using Cons.IH [OF _ n(2)] i by blast
  show ?case using ms i p by (intro conjI exI [of _ "n # ms"]) auto
qed simp

text \<open>Reading entries of a log in order never fails.\<close>

lemma log_entries:
  assumes "log_ok q"
  shows "\<exists>es. log_since seq limit q = (Inr es :: 'c store_error + _) \<and> map en_seq es = map lr_seq (log_page seq limit q)
    \<and> map en_body es = map lr_event (log_page seq limit q)"
proof -
  have "\<exists>es. mapE log_entry_of rs = (Inr es :: 'c store_error + _) \<and> map en_seq es = map lr_seq rs \<and> map en_body es = map lr_event rs"
    if "set rs \<subseteq> set (sq_rows q)" for rs
    using that
  proof (induction rs)
    case (Cons r rs)
    obtain ev did where "lr_kind r = event_as_str ev" "lr_did r = did_str did" "did_from_str (did_str did) = Inr did"
      using assms Cons.prems unfolding log_ok_def by (metis list.set_intros(1) subsetD)
    then have "log_entry_of r = (Inr \<lparr>en_seq = lr_seq r, en_did = did, en_event = ev, en_body = lr_event r, en_at = lr_at r\<rparr> :: 'c store_error + _)"
      by (simp add: log_entry_of_def)
    then show ?case using Cons by auto
  qed simp
  from this [of "log_page seq limit q"] show ?thesis
    unfolding log_since_def log_page_def by (meson order_trans set_take_subset filter_is_subset)
qed

definition log_rows :: "sequencer \<Rightarrow> log_row list" where
  "log_rows q = filter (\<lambda>r. \<not> lr_invalidated r) (sq_rows q)"

lemma sorted_after:
  assumes "sorted_wrt (\<lambda>r s. f r < (f s :: int)) (xs @ y # ys)" "z \<in> set (xs @ y # ys)"
  shows "f z > f y \<longleftrightarrow> z \<in> set ys"
  using assms by (auto simp: sorted_wrt_append dest: less_asym)

definition log_checked :: "sequencer \<Rightarrow> sequencer" where
  "log_checked q = (if log_ok q then q else sequencer_new)"

interpretation lp: pages "log_rows (log_checked q)" "\<lambda>r p. p < lr_seq r" lr_seq "\<lambda>p n. log_page p n (log_checked q)" for q
proof unfold_locales
  have ok: "log_ok (log_checked q)" by (simp add: log_checked_def log_ok_def sequencer_new_def)
  then have s: "sorted_wrt (\<lambda>r s. lr_seq r < lr_seq s) (log_rows (log_checked q))"
    by (simp add: log_ok_def log_rows_def sorted_wrt_filter)
  show "log_page p n (log_checked q) = take n (filter (\<lambda>x. p < lr_seq x) (log_rows (log_checked q)))" for p n
    by (simp add: log_page_def log_rows_def conj_commute)
  show "lr_seq y < lr_seq z \<longleftrightarrow> z \<in> set ys" if "log_rows (log_checked q) = xs @ y # ys" "z \<in> set (log_rows (log_checked q))" for xs y ys z
    using sorted_after [of lr_seq xs y ys z] s that by simp
  have "distinct (map lr_seq (log_rows (log_checked q)))"
    using s strict_sorted_iff [of "map lr_seq (log_rows (log_checked q))"] by (simp add: sorted_wrt_map)
  then show "distinct (log_rows (log_checked q))" by (simp add: distinct_map)
qed auto

text \<open>a consumer that reads the log page by page, each page from the number the one before it ended
  at, is handed every entry after the number it started at that was not superseded, once and in the
  order they were sequenced; no read fails.\<close>

theorem log_read_in_pages:
  assumes "log_ok q" "0 < limit" "length (sq_rows q) \<le> k"
  shows "walk_pages (\<lambda>p n. log_page p n q) lr_seq k limit seq = filter (\<lambda>r. seq < lr_seq r) (log_rows q)
    \<and> (\<exists>es. log_since seq limit q = (Inr es :: 'c store_error + _) \<and> map en_seq es = map lr_seq (log_page seq limit q))"
proof -
  have c: "log_checked q = q" using assms(1) by (simp add: log_checked_def)
  have "length (filter (\<lambda>r. seq < lr_seq r) (log_rows q)) \<le> k"
    using assms(3) by (auto simp: log_rows_def intro: le_trans [OF length_filter_le] order_trans)
  then show ?thesis using lp.walk_all [OF assms(2), of seq q k, unfolded c] log_entries [OF assms(1), of seq limit] by blast
qed

text \<open>the entries of one call are appended together, after everything in the log, under increasing
  numbers that no entry had before, and the log stays in order.\<close>

theorem log_extend_appends:
  assumes "log_ok q" "did_from_str (did_str did) = Inr did" "log_extend now did bodies q = (Inr (ns, q') :: 'c store_error + _)"
  shows "log_ok q' \<and> sorted_wrt (<) (sq_last q # ns) \<and> sq_last q' = last (sq_last q # ns)
    \<and> (\<exists>new. sq_rows q' = sq_rows q @ new \<and> map lr_seq new = ns \<and> map lr_event new = map snd bodies
          \<and> map lr_kind new = map (event_as_str \<circ> fst) bodies)"
proof -
  obtain ms where ms: "ns = ms" "length ms = length bodies" "sorted_wrt (<) (sq_last q # ms)" "sq_last q' = last (sq_last q # ms)"
      "sq_rows q' = sq_rows q @ map (\<lambda>(n, ev, body). \<lparr>lr_seq = n, lr_did = did_str did, lr_kind = event_as_str ev, lr_event = body,
          lr_invalidated = False, lr_at = now\<rparr>) (zip ms bodies)" "log_ok q'"
    using extend_loop_Inr [OF assms(2,1) assms(3) [unfolded log_extend_def]] by auto
  let ?new = "map (\<lambda>(n, ev, body). \<lparr>lr_seq = n, lr_did = did_str did, lr_kind = event_as_str ev, lr_event = body,
      lr_invalidated = False, lr_at = now\<rparr>) (zip ms bodies)"
  have "map lr_seq ?new = ms" "map lr_event ?new = map snd bodies" "map lr_kind ?new = map (event_as_str \<circ> fst) bodies"
    using ms(2) by (induction ms bodies rule: list_induct2) auto
  then show ?thesis using ms by blast
qed


section \<open>Examples\<close>

definition two_entries :: sequencer where
  "two_entries = \<lparr>sq_rows = [\<lparr>lr_seq = 1, lr_did = ''did:plc:a'', lr_kind = ''append'', lr_event = ''x'', lr_invalidated = False, lr_at = []\<rparr>,
     \<lparr>lr_seq = 2, lr_did = ''did:plc:a'', lr_kind = ''sync'', lr_event = ''y'', lr_invalidated = False, lr_at = []\<rparr>], sq_last = 2\<rparr>"

lemma two_entries_built:
  "log_extend [] (Did ''did:plc:a'') [(EvAppend, ''x''), (EvSync, ''y'')] sequencer_new = (Inr ([1, 2], two_entries) :: string store_error + _)"
  by (simp add: log_extend_def log_insert_def sequencer_new_def two_entries_def Let_def)

lemma sequencer_new_ok: "log_ok sequencer_new"
  by (simp add: log_ok_def sequencer_new_def)

lemma toy_did_valid: "did_from_str (did_str (Did ''did:plc:a'')) = Inr (Did ''did:plc:a'')"
  by code_simp

theorem log_extend_appends_witness: "log_ok two_entries \<and> map lr_event (sq_rows two_entries) = [''x'', ''y'']"
  using log_extend_appends [OF sequencer_new_ok toy_did_valid two_entries_built] by (auto simp: sequencer_new_def)

lemma two_entries_ok: "log_ok two_entries"
  using extend_loop_Inr [OF toy_did_valid sequencer_new_ok two_entries_built [unfolded log_extend_def]] by blast

theorem log_read_in_pages_witness:
  "walk_pages (\<lambda>p n. log_page p n two_entries) lr_seq 2 1 0 = sq_rows two_entries"
proof (rule trans)
  show "walk_pages (\<lambda>p n. log_page p n two_entries) lr_seq 2 1 0 = filter (\<lambda>r. 0 < lr_seq r) (log_rows two_entries)"
    by (rule log_read_in_pages [OF two_entries_ok, THEN conjunct1]) (simp_all add: two_entries_def)
qed (simp add: two_entries_def log_rows_def)

end
