(* ===== verification/Event.thy ===== *)
theory Event
  imports Car Sequencer
begin

text \<open>
  Event bodies: \<open>src/event.rs\<close>. The CBOR of a body is a function of the library record, one for each
  shape.
\<close>

section \<open>Bodies\<close>

record event_body =
  bd_event :: event_kind
  bd_bytes :: bytes

record 'c op =
  op_action :: string
  op_path :: string
  op_cid :: "'c option"
  op_prev :: "'c option"

record identity_event =
  ie_did :: did
  ie_handle :: handle

record account_event =
  ae_did :: did
  ae_active :: bool

record 'c append_event =
  ap_repo :: did
  ap_commit :: 'c
  ap_rev :: tid
  ap_since :: "tid option"
  ap_blocks :: bytes
  ap_ops :: "'c op list"
  ap_prev_data :: "'c option"
  ap_rebase :: bool
  ap_too_big :: bool
  ap_blobs :: "'c list"

record sync_event =
  sy_did :: did
  sy_rev :: tid
  sy_blocks :: bytes

record 'c commit_event =
  ce_did :: did
  ce_commit :: 'c
  ce_rev :: tid
  ce_since :: "tid option"
  ce_prev_data :: "'c option"
  ce_ops :: "'c op list"

record 'c event_lib = "'c car_lib" +
  identity_to_vec :: "identity_event \<Rightarrow> string + bytes"
  account_to_vec :: "account_event \<Rightarrow> string + bytes"
  append_to_vec :: "'c append_event \<Rightarrow> string + bytes"
  sync_to_vec :: "sync_event \<Rightarrow> string + bytes"

definition append_body :: "('c, 'l) event_lib_scheme \<Rightarrow> 'c commit_event \<Rightarrow> 'c block_map \<Rightarrow> 'c repo_error + event_body" where
  "append_body E w blocks =
     bindE (car_write E (ce_commit w) blocks) (\<lambda>car.
     bindE (encode (append_to_vec E)
       \<lparr>ap_repo = ce_did w, ap_commit = ce_commit w, ap_rev = ce_rev w, ap_since = ce_since w, ap_blocks = car, ap_ops = ce_ops w,
        ap_prev_data = ce_prev_data w, ap_rebase = False, ap_too_big = False, ap_blobs = []\<rparr>) (\<lambda>b.
     Inr \<lparr>bd_event = EvAppend, bd_bytes = b\<rparr>))"

definition records_written :: "('c, 'l) event_lib_scheme \<Rightarrow> 'c commit_event \<Rightarrow> 'c block_map \<Rightarrow> 'c repo_error + event_body" where
  "records_written E w blocks = append_body E w blocks"

definition account_created ::
    "('c::linorder, 'l) event_lib_scheme \<Rightarrow> did \<Rightarrow> handle \<Rightarrow> 'c \<Rightarrow> tid \<Rightarrow> 'c block_map \<Rightarrow> 'c repo_error + event_body list" where
  "account_created E did h commit rv blocks =
     bindE (bm_get blocks commit) (\<lambda>cb.
     bindE (encode (identity_to_vec E) \<lparr>ie_did = did, ie_handle = h\<rparr>) (\<lambda>b1.
     bindE (encode (account_to_vec E) \<lparr>ae_did = did, ae_active = True\<rparr>) (\<lambda>b2.
     bindE (append_body E \<lparr>ce_did = did, ce_commit = commit, ce_rev = rv, ce_since = None, ce_prev_data = None, ce_ops = []\<rparr> blocks) (\<lambda>b3.
     bindE (car_write E commit (bm_insert commit cb [])) (\<lambda>car.
     bindE (encode (sync_to_vec E) \<lparr>sy_did = did, sy_rev = rv, sy_blocks = car\<rparr>) (\<lambda>b4.
     Inr [\<lparr>bd_event = EvIdentity, bd_bytes = b1\<rparr>, \<lparr>bd_event = EvAccount, bd_bytes = b2\<rparr>, b3,
          \<lparr>bd_event = EvSync, bd_bytes = b4\<rparr>]))))))"

end
