(* ===== verification/Writes.thy ===== *)
theory Writes
  imports Service Refs Event
begin

text \<open>
  Writing records: \<open>plan\<close>, \<open>superseded\<close> and \<open>commit_writes\<close> of \<open>src/account.rs\<close>, which read an account's
  repository, work out what a set of requests does to it, and commit that if nobody else has written
  in between. What others do to the database and the disk between the reading and the commit of the
  \<open>i\<close>th attempt is the argument \<open>others i\<close>; the times are arguments.
\<close>

section \<open>Requests\<close>

datatype 'c expect = Anything | Nothing | ExpectBlock 'c
datatype missing = Refuse | Skip
datatype conflicts = Ignore | Supersede

record 'c requested =
  rq_write :: "'c repo_write"
  rq_expect :: "'c expect"
  rq_missing :: missing
  rq_conflicts :: conflicts

definition requested_of :: "'c repo_write \<Rightarrow> 'c requested" where
  "requested_of w = \<lparr>rq_write = w, rq_expect = Anything, rq_missing = Refuse, rq_conflicts = Ignore\<rparr>"

record 'c applied =
  ad_uri :: string
  ad_cid :: "'c option"

record 'c plan =
  pl_writes :: "'c repo_write list"
  pl_index :: "'c indexed list"
  pl_ops :: "'c op list"
  pl_results :: "'c applied list"

record 'c written =
  wr_results :: "'c applied list"
  wr_commit :: 'c
  wr_rev :: tid

record 'c landed =
  ld_written :: "'c written"
  ld_root :: "'c root"
  ld_blocks :: "'c block_map"
  ld_ops :: "'c op list"
  ld_since :: tid
  ld_prev_data :: 'c
  ld_committed :: "'c committed"


section \<open>Planning\<close>

definition supersede_key ::
    "('c, 'l) repo_lib_scheme \<Rightarrow> 'c store \<Rightarrow> nsid \<Rightarrow> record_key \<Rightarrow> 'c repo \<times> ('c repo_write \<times> 'c indexed \<times> 'c op) list
      \<Rightarrow> 'c account_error + 'c repo \<times> ('c repo_write \<times> 'c indexed \<times> 'c op) list" where
  "supersede_key L st n k s =
     (case s of (r, gone) \<Rightarrow>
        bindE (map_err RepoError (repo_get L st r n k)) (\<lambda>(prev, r).
        Inr (r, gone @ [(Delete n k, IxDelete n k,
          \<lparr>op_action = ''delete'', op_path = nsid_str n @ CHR ''/'' # record_key_str k, op_cid = None, op_prev = prev\<rparr>)])))"

definition superseded ::
    "('c, 'l) repo_lib_scheme \<Rightarrow> ('c, 'j) json_lib_scheme \<Rightarrow> actor \<Rightarrow> 'c repo_write \<Rightarrow> 'c repo
      \<Rightarrow> 'c account_error + 'c repo \<times> ('c repo_write \<times> 'c indexed \<times> 'c op) list" where
  "superseded L J A w r =
     (let n = fst (write_target w) in
      case write_record w of
        None \<Rightarrow> Inr (r, [])
      | Some rec \<Rightarrow>
          if \<not> held_to_one n then Inr (r, [])
          else foldE (\<lambda>l s. bindE (map_err of_store_error (pointing_at n l A)) (\<lambda>ks. foldE (supersede_key L (actor_store J A) n) ks s))
                 (backlink_of rec) (r, []))"

definition expectation :: "('c, 'j) json_lib_scheme \<Rightarrow> 'c expect \<Rightarrow> 'c option \<Rightarrow> 'c account_error + unit" where
  "expectation J e prev =
     (case (e, prev) of
        (Anything, _) \<Rightarrow> Inr ()
      | (Nothing, None) \<Rightarrow> Inr ()
      | (ExpectBlock wanted, Some found) \<Rightarrow>
          if wanted = found then Inr () else Inl (SwapRecord (cid_to_string J found))
      | (_, found) \<Rightarrow> Inl (SwapRecord (case found of None \<Rightarrow> ''null'' | Some c \<Rightarrow> cid_to_string J c)))"

definition action_of :: "'c repo_write \<Rightarrow> 'c option \<Rightarrow> string" where
  "action_of w prev =
     (case w of
        Create _ _ _ \<Rightarrow> ''create''
      | Update _ _ _ \<Rightarrow> ''update''
      | Put _ _ _ \<Rightarrow> if prev \<noteq> None then ''update'' else ''create''
      | Delete _ _ \<Rightarrow> ''delete'')"

definition plan_write ::
    "('c, 'l) repo_lib_scheme \<Rightarrow> did \<Rightarrow> 'c repo_write \<Rightarrow> 'c option \<Rightarrow> 'c plan \<Rightarrow> 'c account_error + 'c plan" where
  "plan_write L did w prev P =
     (let (n, k) = write_target w;
          links = (case write_record w of None \<Rightarrow> [] | Some rec \<Rightarrow> backlink_of rec) in
      bindE (case write_record w of None \<Rightarrow> Inr [] | Some rec \<Rightarrow> map_err RepoError (blobs_of rec)) (\<lambda>blobs.
      bindE (case write_record w of None \<Rightarrow> Inr None
             | Some rec \<Rightarrow> bindE (map_err RepoError (encode (ipld_to_vec L) rec)) (\<lambda>b. Inr (Some (cid_for L b)))) (\<lambda>c.
      Inr (P\<lparr>pl_writes := pl_writes P @ [w],
             pl_index := pl_index P @ [case c of Some c \<Rightarrow> IxPut n k c links blobs | None \<Rightarrow> IxDelete n k],
             pl_results := pl_results P @ [\<lparr>ad_uri = ''at://'' @ did_str did @ ''/'' @ write_key w, ad_cid = c\<rparr>],
             pl_ops := pl_ops P @ [\<lparr>op_action = action_of w prev, op_path = write_key w, op_cid = c, op_prev = prev\<rparr>]\<rparr>))))"

definition add_superseded :: "('c repo_write \<times> 'c indexed \<times> 'c op) list \<Rightarrow> 'c plan \<Rightarrow> 'c plan" where
  "add_superseded gone P =
     P\<lparr>pl_writes := pl_writes P @ map fst gone, pl_index := pl_index P @ map (fst \<circ> snd) gone,
       pl_ops := pl_ops P @ map (snd \<circ> snd) gone\<rparr>"

definition plan_one ::
    "('c, 'l) repo_lib_scheme \<Rightarrow> ('c, 'j) json_lib_scheme \<Rightarrow> actor \<Rightarrow> did \<Rightarrow> 'c requested \<Rightarrow> 'c repo \<times> 'c plan
      \<Rightarrow> 'c account_error + 'c repo \<times> 'c plan" where
  "plan_one L J A did asked s =
     (case s of (r, P) \<Rightarrow>
        let w = rq_write asked; (n, k) = write_target w in
        bindE (map_err RepoError (repo_get L (actor_store J A) r n k)) (\<lambda>(prev, r).
        if prev = None \<and> rq_missing asked = Skip then Inr (r, P)
        else
          bindE (expectation J (rq_expect asked) prev) (\<lambda>_.
          bindE (if rq_conflicts asked = Supersede then superseded L J A w r else Inr (r, [])) (\<lambda>(r, gone).
          bindE (plan_write L did w prev (add_superseded gone P)) (\<lambda>P. Inr (r, P))))))"

definition plan ::
    "('c, 'l) repo_lib_scheme \<Rightarrow> ('c, 'j) json_lib_scheme \<Rightarrow> actor \<Rightarrow> did \<Rightarrow> 'c requested list \<Rightarrow> 'c repo
      \<Rightarrow> 'c account_error + 'c repo \<times> 'c plan" where
  "plan L J A did requested r =
     foldE (plan_one L J A did) requested (r, \<lparr>pl_writes = [], pl_index = [], pl_ops = [], pl_results = []\<rparr>)"


section \<open>Committing\<close>

definition ATTEMPTS :: nat where "ATTEMPTS = 8"

record ('c, 'sk, 'vk, 'sg, 'l, 'j) setting =
  set_lib :: "('c, 'l) repo_lib_scheme"
  set_texts :: "('c, 'j) actor_lib_scheme"
  set_crypto :: "('sk, 'vk, 'sg) crypto_lib"
  set_blobs :: path
  set_now :: "nat \<Rightarrow> nat"
  set_micros :: "nat \<Rightarrow> nat option"
  set_others :: "nat \<Rightarrow> actor \<times> fs \<Rightarrow> actor \<times> fs"

text \<open>The root read and the plan made on it, or nothing where nothing is to be written.\<close>

definition work_out ::
    "('c, 'l) repo_lib_scheme \<Rightarrow> ('c, 'j) json_lib_scheme \<Rightarrow> did \<Rightarrow> 'c requested list \<Rightarrow> 'c option \<Rightarrow> actor
      \<Rightarrow> 'c account_error + ('c root \<times> 'c repo \<times> 'c plan) option" where
  "work_out L J did requested swap A =
     bindE (map_err of_store_error (actor_root J A)) (\<lambda>root.
     bindE (ok_or (NoRepo did) root) (\<lambda>base.
     bindE (map_err RepoError (repo_load L (actor_store J A) (rt_cid base))) (\<lambda>r.
     bindE (plan L J A did requested r) (\<lambda>(r, P).
     if pl_writes P = [] then Inr None
     else if (case swap of None \<Rightarrow> False | Some c \<Rightarrow> c \<noteq> rt_cid base) then Inl (Swap (rt_cid base))
     else Inr (Some (base, r, P))))))"

text \<open>What one attempt ends in: an answer, or the root moved on and it is to be made again.\<close>

definition attempt ::
    "('c::linorder, 'sk, 'vk, 'sg, 'l, 'j) setting \<Rightarrow> nat \<Rightarrow> 'sk keypair \<Rightarrow> did \<Rightarrow> 'c requested list \<Rightarrow> 'c option
      \<Rightarrow> actor \<times> fs \<times> clock \<Rightarrow> (('c account_error + 'c landed option) option \<times> actor \<times> fs \<times> clock) option" where
  "attempt S i key did requested swap w =
     (let L = set_lib S; J = set_texts S in
      case w of (A, fs, clk) \<Rightarrow>
      (case work_out L J did requested swap A of
         Inl e \<Rightarrow> Some (Some (Inl e), A, fs, clk)
       | Inr None \<Rightarrow> Some (Some (Inr None), A, fs, clk)
       | Inr (Some (base, r, P)) \<Rightarrow>
           (case repo_apply L (set_crypto S) (actor_store J A) r (pl_writes P) key (set_micros S i) clk of
              None \<Rightarrow> None
            | Some (Inl e, clk) \<Rightarrow> Some (Some (Inl (RepoError e)), A, fs, clk)
            | Some (Inr (blocks, drops, r'), clk) \<Rightarrow>
                (let (A, fs) = set_others S i (A, fs);
                     root = \<lparr>rt_cid = r_cid r', rt_rev = c_rev (r_commit r')\<rparr> in
                 case actor_commit J (set_blobs S) (set_now S i) (Some base) root blocks drops (pl_index P) A fs of
                   (Inl e, A, fs) \<Rightarrow> Some (Some (Inl (of_store_error e)), A, fs, clk)
                 | (Inr None, A, fs) \<Rightarrow> Some (None, A, fs, clk)
                 | (Inr (Some cl), A, fs) \<Rightarrow>
                     Some (Some (Inr (Some
                       \<lparr>ld_written = \<lparr>wr_results = pl_results P, wr_commit = rt_cid root, wr_rev = rt_rev root\<rparr>,
                        ld_root = root, ld_blocks = blocks, ld_ops = pl_ops P, ld_since = c_rev (r_commit r),
                        ld_prev_data = c_data (r_commit r), ld_committed = cl\<rparr>)), A, fs, clk)))))"

fun attempts ::
    "('c::linorder, 'sk, 'vk, 'sg, 'l, 'j) setting \<Rightarrow> nat \<Rightarrow> 'sk keypair \<Rightarrow> did \<Rightarrow> 'c requested list \<Rightarrow> 'c option
      \<Rightarrow> actor \<times> fs \<times> clock \<Rightarrow> (('c account_error + 'c landed option) \<times> actor \<times> fs \<times> clock) option" where
  "attempts S 0 key did requested swap (A, fs, clk) = Some (Inl Contended, A, fs, clk)"
| "attempts S (Suc n) key did requested swap w =
     (case attempt S (ATTEMPTS - Suc n) key did requested swap w of
        None \<Rightarrow> None
      | Some (Some r, A, fs, clk) \<Rightarrow> Some (r, A, fs, clk)
      | Some (None, A, fs, clk) \<Rightarrow> attempts S n key did requested swap (A, fs, clk))"

definition commit_writes ::
    "('c::linorder, 'sk, 'vk, 'sg, 'l, 'j) setting \<Rightarrow> 'c store_error + 'sk keypair \<Rightarrow> did \<Rightarrow> 'c requested list \<Rightarrow> 'c option
      \<Rightarrow> actor \<times> fs \<times> clock \<Rightarrow> (('c account_error + 'c landed option) \<times> actor \<times> fs \<times> clock) option" where
  "commit_writes S key did requested swap w =
     (case key of
        Inl e \<Rightarrow> (case w of (A, fs, clk) \<Rightarrow> Some (Inl (of_store_error e), A, fs, clk))
      | Inr key \<Rightarrow> attempts S ATTEMPTS key did requested swap w)"

end
