(* ===== verification/Actor_Blobs.thy ===== *)
theory Actor_Blobs
  imports Actor
begin

text \<open>
  The life of a blob: uploaded under a key, claimed by the record that names it, let go of when the
  last record does, and its files taken from the disk. The steps of \<open>blob_step\<close> are the operations of
  \<open>src/account.rs\<close> that touch blobs, in any order; what a record names is on disk in every state they
  reach.
\<close>

section \<open>The invariant\<close>

definition cid_text_ok :: "('c, 'j) json_lib_scheme \<Rightarrow> bool" where
  "cid_text_ok J \<longleftrightarrow> (\<forall>c. cid_parse J (cid_to_string J c) = Some c)"

lemma cid_text_inj: "cid_text_ok J \<Longrightarrow> cid_to_string J c = cid_to_string J d \<longleftrightarrow> c = d"
  unfolding cid_text_ok_def by (metis option.inject)

definition blob_at ::
    "('c, 'l) lib_scheme \<Rightarrow> ('c, 'j) json_lib_scheme \<Rightarrow> path \<Rightarrow> did \<Rightarrow> fs \<Rightarrow> string \<Rightarrow> blob_row \<Rightarrow> bool" where
  "blob_at L J B did fs c row \<longleftrightarrow>
     (\<exists>x. c = cid_to_string J x \<and>
        (case bl_temp row of
           None \<Rightarrow> content fs (blob_path J B did x) \<noteq> None
         | Some key \<Rightarrow> \<exists>b. content fs (temp_path B did key) = Some b \<and> blob_cid_for L b = x))"

definition stored_ok :: "('c, 'l) lib_scheme \<Rightarrow> ('c, 'j) json_lib_scheme \<Rightarrow> path \<Rightarrow> did \<Rightarrow> fs \<Rightarrow> bool" where
  "stored_ok L J B did fs \<longleftrightarrow> (\<forall>x b. content fs (blob_path J B did x) = Some b \<longrightarrow> blob_cid_for L b = x)"

text \<open>\<open>K\<close> is what the commit being written names, which nothing may hold yet, and \<open>D\<close> the keys of uploads
  whose files are about to go. \<open>named_but at\<close> is short of the row of one record, which is written last.\<close>

definition blobs_mid ::
    "('c, 'l) lib_scheme \<Rightarrow> ('c, 'j) json_lib_scheme \<Rightarrow> path \<Rightarrow> string set \<Rightarrow> string set \<Rightarrow> actor \<Rightarrow> fs \<Rightarrow> bool" where
  "blobs_mid L J B K D A fs \<longleftrightarrow>
     fs_ok fs \<and> ascending (blob_rows A) \<and> ascending (record_rows A) \<and> stored_ok L J B (a_did A) fs
     \<and> (\<forall>c row. map_of (blob_rows A) c = Some row \<longrightarrow>
          blob_at L J B (a_did A) fs c row \<and> (bl_temp row = None \<longrightarrow> blob_held A c \<or> c \<in> K) \<and> (\<forall>k \<in> D. bl_temp row \<noteq> Some k))
     \<and> (\<forall>c. blob_held A c \<longrightarrow> (\<exists>row. map_of (blob_rows A) c = Some row \<and> bl_temp row = None))"

definition named_but :: "string set \<Rightarrow> actor \<Rightarrow> bool" where
  "named_but U A \<longleftrightarrow> (\<forall>(c, u) \<in> set (record_blob A). u \<in> U \<or> map_of (record_rows A) u \<noteq> None)"

definition blobs_ok ::
    "('c, 'l) lib_scheme \<Rightarrow> ('c, 'j) json_lib_scheme \<Rightarrow> path \<Rightarrow> string set \<Rightarrow> actor \<Rightarrow> fs \<Rightarrow> bool" where
  "blobs_ok L J B D A fs \<longleftrightarrow> blobs_mid L J B {} D A fs \<and> named_but {} A"

lemma blobs_midD:
  assumes "blobs_mid L J B K D A fs"
  shows "fs_ok fs" "ascending (blob_rows A)" "ascending (record_rows A)" "stored_ok L J B (a_did A) fs"
    and "map_of (blob_rows A) c = Some row \<Longrightarrow> blob_at L J B (a_did A) fs c row"
    and "map_of (blob_rows A) c = Some row \<Longrightarrow> bl_temp row = None \<Longrightarrow> blob_held A c \<or> c \<in> K"
    and "map_of (blob_rows A) c = Some row \<Longrightarrow> k \<in> D \<Longrightarrow> bl_temp row \<noteq> Some k"
    and "blob_held A c \<Longrightarrow> \<exists>row. map_of (blob_rows A) c = Some row \<and> bl_temp row = None"
  using assms unfolding blobs_mid_def by blast+

lemma blob_held_iff: "blob_held A c \<longleftrightarrow> (\<exists>u. (c, u) \<in> set (record_blob A))"
  by (auto simp: blob_held_def list_ex_iff)

lemma paths_apart [simp]:
  "temp_path B did key \<noteq> blob_path J B did' c" "blob_path J B did' c \<noteq> temp_path B did key"
  by (simp_all add: temp_path_def blob_path_def uploads_dir_def stored_dir_def)

lemma temp_path_inj [simp]: "temp_path B did k = temp_path B did k' \<longleftrightarrow> k = k'"
  by (simp add: temp_path_def)

lemma blob_path_inj: "cid_text_ok J \<Longrightarrow> blob_path J B did c = blob_path J B did d \<longleftrightarrow> c = d"
  by (simp add: blob_path_def cid_text_inj)

text \<open>One key holds one file, so it is the key of one row.\<close>

lemma key_of_one_row:
  assumes "blob_at L J B did fs c row" "blob_at L J B did fs c' row'" "bl_temp row = Some k" "bl_temp row' = Some k"
  shows "c = c'"
  using assms by (auto simp: blob_at_def)


section \<open>What the parts of a commit keep\<close>

lemma let_go_Inr:
  assumes "let_go J sp cs A out = Inr (A', out')"
    and "\<And>A rows c. sp (A\<lparr>blob_rows := rows\<rparr>) c = sp A c" and "ascending (blob_rows A)"
  shows "A' = A\<lparr>blob_rows := blob_rows A'\<rparr> \<and> ascending (blob_rows A')
    \<and> map_of (blob_rows A') = (\<lambda>c. if c \<in> set cs \<and> \<not> sp A c then None else map_of (blob_rows A) c)"
  using assms(1,3)
proof (induction cs arbitrary: A out)
  case (Cons c cs)
  show ?case
  proof (cases "sp A c")
    case True
    then show ?thesis using Cons.IH [of A out] Cons.prems by auto
  next
    case False
    then obtain x where "let_go J sp cs (drop_blob c A) (out @ [x]) = Inr (A', out')"
      using Cons.prems(1) by (auto split: option.splits)
    from Cons.IH [OF this] have ih: "A' = drop_blob c A\<lparr>blob_rows := blob_rows A'\<rparr>" "ascending (blob_rows A')"
        "map_of (blob_rows A') = (\<lambda>d. if d \<in> set cs \<and> \<not> sp (drop_blob c A) d then None else map_of (blob_rows (drop_blob c A)) d)"
      using Cons.prems(2) by (auto simp: drop_blob_def ascending_al_del)
    have sp: "sp (drop_blob c A) d = sp A d" for d using assms(2) by (simp add: drop_blob_def)
    have "A' = A\<lparr>blob_rows := blob_rows A'\<rparr>" using ih(1) by (simp add: drop_blob_def)
    moreover have "map_of (blob_rows A') = (\<lambda>d. if d \<in> set (c # cs) \<and> \<not> sp A d then None else map_of (blob_rows A) d)"
      using ih(3) sp False Cons.prems(2) by (auto simp: fun_eq_iff drop_blob_def map_of_al_del)
    ultimately show ?thesis using ih(2) by blast
  qed
qed (simp add: fun_eq_iff)

lemma let_go_mid:
  assumes m: "blobs_mid L J B K D A fs" and g: "let_go J sp cs A out = Inr (A', out')"
    and s: "\<And>A rows c. sp (A\<lparr>blob_rows := rows\<rparr>) c = sp A c" "\<And>c. blob_held A c \<Longrightarrow> sp A c"
    and K: "\<And>c. c \<in> K \<Longrightarrow> c \<notin> K' \<Longrightarrow> blob_held A c \<or> c \<in> set cs \<and> \<not> sp A c"
  shows "blobs_mid L J B K' D A' fs \<and> (\<exists>rows. A' = A\<lparr>blob_rows := rows\<rparr>)"
proof -
  note a = let_go_Inr [OF g s(1) blobs_midD(2) [OF m]]
  have e: "A' = A\<lparr>blob_rows := blob_rows A'\<rparr>" "ascending (blob_rows A')"
      "map_of (blob_rows A') = (\<lambda>c. if c \<in> set cs \<and> \<not> sp A c then None else map_of (blob_rows A) c)"
    using a by blast+
  have eqs: "a_did A' = a_did A" "record_rows A' = record_rows A" "\<And>c. blob_held A' c = blob_held A c"
    by (subst e(1), simp add: blob_held_def)+
  have "blobs_mid L J B K' D A' fs"
    unfolding blobs_mid_def eqs
  proof (intro conjI allI impI)
    fix c row assume "map_of (blob_rows A') c = Some row"
    then have r: "map_of (blob_rows A) c = Some row" "\<not> (c \<in> set cs \<and> \<not> sp A c)" using e(3) by (auto split: if_splits)
    show "blob_at L J B (a_did A) fs c row" by (rule blobs_midD(5) [OF m r(1)])
    show "\<forall>k \<in> D. bl_temp row \<noteq> Some k" using blobs_midD(7) [OF m r(1)] by blast
    show "blob_held A c \<or> c \<in> K'" if "bl_temp row = None"
      using blobs_midD(6) [OF m r(1) that] K [of c] r(2) by blast
  next
    fix c assume h: "blob_held A c"
    then show "\<exists>row. map_of (blob_rows A') c = Some row \<and> bl_temp row = None"
      using blobs_midD(8) [OF m h] s(2) [OF h] e(3) by simp
  qed (use blobs_midD [OF m] e(2) in auto)
  then show ?thesis using e(1) by blast
qed

lemma dereference_mid:
  assumes m: "blobs_mid L J B K D A fs" "named_but U A" and g: "dereference J at K A = Inr (A', out)"
  shows "blobs_mid L J B K D A' fs" "named_but U A'" "a_did A' = a_did A" "record_rows A' = record_rows A"
    "\<And>c. (c, at) \<notin> set (record_blob A')"
proof -
  let ?A = "A\<lparr>record_blob := filter (\<lambda>(b, u). u \<noteq> at) (record_blob A)\<rparr>"
  let ?cs = "map fst (filter (\<lambda>(b, u). u = at) (record_blob A))"
  have g': "let_go J (\<lambda>A c. c \<in> K \<or> blob_held A c) ?cs ?A [] = Inr (A', out)"
    using g by (simp add: dereference_def Let_def)
  have h: "blob_held ?A c \<Longrightarrow> blob_held A c" "blob_held A c \<Longrightarrow> blob_held ?A c \<or> c \<in> set ?cs" for c
    by (force simp: blob_held_iff)+
  have "blobs_mid L J B (K \<union> set ?cs) D ?A fs"
    unfolding blobs_mid_def using blobs_midD [OF m(1)] h by simp (metis (no_types, lifting) h(2) set_map)
  then have r: "blobs_mid L J B K D A' fs \<and> (\<exists>rows. A' = ?A\<lparr>blob_rows := rows\<rparr>)"
    by (rule let_go_mid [OF _ g']) (auto simp: blob_held_def)
  then obtain rows where e: "A' = ?A\<lparr>blob_rows := rows\<rparr>" by blast
  show "blobs_mid L J B K D A' fs" using r by blast
  show "named_but U A'" using m(2) e by (auto simp: named_but_def)
  show "a_did A' = a_did A" "record_rows A' = record_rows A" "\<And>c. (c, at) \<notin> set (record_blob A')" using e by auto
qed

text \<open>What linking adds to the disk can be taken off it again.\<close>

definition only_linked ::
    "('c, 'j) json_lib_scheme \<Rightarrow> path \<Rightarrow> did \<Rightarrow> fs \<Rightarrow> fs \<Rightarrow> 'c leaving \<Rightarrow> bool" where
  "only_linked J B did fs0 fs lv \<longleftrightarrow>
     fs_ok fs
     \<and> (\<forall>p. p \<notin> blob_path J B did ` set (lv_linked lv) \<longrightarrow> content fs p = content fs0 p)
     \<and> (\<forall>c \<in> set (lv_linked lv). content fs0 (blob_path J B did c) = None)"

lemma only_linked_start: "fs_ok fs \<Longrightarrow> lv_linked lv = [] \<Longrightarrow> only_linked J B did fs fs lv"
  by (simp add: only_linked_def)

lemma only_linked_orphans [simp]: "only_linked J B did fs0 fs (add_orphans cs lv) = only_linked J B did fs0 fs lv"
  by (simp add: only_linked_def add_orphans_def)

lemma blob_claim_linked:
  assumes "only_linked J B did fs0 fs lv" "blob_claim J B now did key c fs = (r, fs')"
  shows "only_linked J B did fs0 fs'
    (lv\<lparr>lv_linked := (if r = Inr True then lv_linked lv @ [c] else lv_linked lv), lv_cleared := cl\<rparr>)"
proof -
  have ok: "fs_ok fs" using assms(1) by (simp add: only_linked_def)
  let ?p = "blob_path J B did c"
  show ?thesis
  proof (cases "content fs (temp_path B did key)")
    case None
    then show ?thesis using blob_claim_ok [where B = B and did = did and key = key and J = J and now = now and c = c, OF ok] assms by (auto simp: only_linked_def)
  next
    case (Some b)
    then obtain f where f: "blob_claim J B now did key c fs = (Inr (content fs ?p = None), f)" "fs_ok f"
        "content f = (if content fs ?p = None then (content fs)(?p \<mapsto> b) else content fs)"
      using blob_claim_ok [where B = B and did = did and key = key and J = J and now = now and c = c, OF ok] by auto
    have "content fs ?p = None \<Longrightarrow> content fs0 ?p = None"
      using assms(1) unfolding only_linked_def by (cases "?p \<in> blob_path J B did ` set (lv_linked lv)") auto
    then show ?thesis using f assms unfolding only_linked_def by auto
  qed
qed

lemma claim_linked:
  assumes "only_linked J B (a_did A) fs0 fs lv" "claim J B now at b A fs lv = (r, fs', lv')"
  shows "only_linked J B (a_did A) fs0 fs' lv'"
proof (cases "\<exists>row key. map_of (blob_rows A) (cid_to_string J (b_cid b)) = Some row \<and> bl_takedown row = None \<and> bl_temp row = Some key
    \<and> bl_mime row = b_mime b \<and> u64_of (bl_size row) = b_size b")
  case True
  then obtain row key where row: "map_of (blob_rows A) (cid_to_string J (b_cid b)) = Some row" "bl_takedown row = None"
      "bl_temp row = Some key" "bl_mime row = b_mime b" "u64_of (bl_size row) = b_size b" by blast
  obtain q f where q: "blob_claim J B now (a_did A) key (b_cid b) fs = (q, f)" by fastforce
  have l: "only_linked J B (a_did A) fs0 f
      (lv\<lparr>lv_linked := (if q = Inr True then lv_linked lv @ [b_cid b] else lv_linked lv), lv_cleared := cl\<rparr>)" for cl
    by (rule blob_claim_linked [OF assms(1) q])
  have l': "only_linked J B (a_did A) fs0 f lv" if "q \<noteq> Inr True"
    using l [of "lv_cleared lv"] that by simp
  show ?thesis
  proof (cases q)
    case (Inl e)
    then show ?thesis using assms(2) row q l' by (auto simp: claim_def)
  next
    case (Inr made)
    then show ?thesis using assms(2) row q l by (auto simp: claim_def split: if_splits)
  qed
qed (use assms in \<open>auto simp: claim_def Let_def split: option.splits if_splits\<close>)

lemma claim_did: "claim J B now at b A fs lv = (Inr A', fs', lv') \<Longrightarrow> a_did A' = a_did A \<and> record_rows A' = record_rows A"
  by (auto simp: claim_def Let_def settle_claim_def split: option.splits if_splits prod.splits sum.splits)

lemma claim_mid:
  assumes J: "cid_text_ok J" and m: "blobs_mid L J B K (D \<union> set (taken (lv_cleared lv))) A fs" "named_but U A" "at \<in> U"
    and g: "claim J B now at b A fs lv = (Inr A', fs', lv')"
  shows "blobs_mid L J B K (D \<union> set (taken (lv_cleared lv'))) A' fs' \<and> named_but U A'"
proof -
  let ?c = "cid_to_string J (b_cid b)"
  obtain row where row: "map_of (blob_rows A) ?c = Some row" "bl_takedown row = None"
    using g by (auto simp: claim_def Let_def split: option.splits if_splits)
  have A': "A' = settle_claim ?c at row A" using g row by (auto simp: claim_def Let_def split: option.splits if_splits prod.splits sum.splits)
  have eqs: "a_did A' = a_did A" "record_rows A' = record_rows A" "blob_rows A' = al_upd ?c (row\<lparr>bl_temp := None\<rparr>) (blob_rows A)"
      "\<And>c. blob_held A' c \<longleftrightarrow> blob_held A c \<or> c = ?c"
    unfolding A' by (auto simp: settle_claim_def blob_held_iff)
  have n: "named_but U A'" using m(2,3) unfolding A' by (auto simp: named_but_def settle_claim_def)
  have at: "blob_at L J B (a_did A) fs ?c row" by (rule blobs_midD(5) [OF m(1) row(1)])
  have files: "fs_ok fs' \<and> stored_ok L J B (a_did A) fs' \<and> content fs' (blob_path J B (a_did A) (b_cid b)) \<noteq> None
      \<and> (\<forall>p. content fs p \<noteq> None \<longrightarrow> content fs' p = content fs p)
      \<and> (\<forall>k \<in> set (taken (lv_cleared lv')). k \<in> set (taken (lv_cleared lv)) \<or> bl_temp row = Some k)"
  proof (cases "bl_temp row")
    case None
    then show ?thesis
      using g row at blobs_midD(1,4) [OF m(1)] cid_text_inj [OF J] by (auto simp: claim_def blob_at_def)
  next
    case (Some key)
    then obtain y where y: "content fs (temp_path B (a_did A) key) = Some y" "blob_cid_for L y = b_cid b"
      using at cid_text_inj [OF J] by (auto simp: blob_at_def)
    let ?p = "blob_path J B (a_did A) (b_cid b)"
    obtain f where f: "blob_claim J B now (a_did A) key (b_cid b) fs = (Inr (content fs ?p = None), f)" "fs_ok f"
        "content f = (if content fs ?p = None then (content fs)(?p \<mapsto> y) else content fs)"
      using blob_claim_ok [where B = B and did = "a_did A" and key = key and J = J and now = now and c = "b_cid b", OF blobs_midD(1) [OF m(1)]] y(1) by auto
    have lv: "fs' = f" "taken (lv_cleared lv') = taken (lv_cleared lv) @ [key]"
      using g row Some f(1) by (auto simp: claim_def split: if_splits)
    have "stored_ok L J B (a_did A) f"
      using blobs_midD(4) [OF m(1)] y(2) f(3) unfolding stored_ok_def by (auto simp: blob_path_inj [OF J] split: if_splits)
    then show ?thesis using f(2,3) lv Some by auto
  qed
  have keep: "blob_at L J B (a_did A) fs' c r" if "blob_at L J B (a_did A) fs c r" for c r
    using that files unfolding blob_at_def by (fastforce split: option.splits)
  have new: "blob_at L J B (a_did A) fs' ?c (row\<lparr>bl_temp := None\<rparr>)" using files by (auto simp: blob_at_def)
  have "blobs_mid L J B K (D \<union> set (taken (lv_cleared lv'))) A' fs'"
    unfolding blobs_mid_def eqs
  proof (intro conjI allI impI)
    fix c r assume "map_of (al_upd ?c (row\<lparr>bl_temp := None\<rparr>) (blob_rows A)) c = Some r"
    then have r: "c = ?c \<and> r = row\<lparr>bl_temp := None\<rparr> \<or> c \<noteq> ?c \<and> map_of (blob_rows A) c = Some r" by (auto split: if_splits)
    show "blob_at L J B (a_did A) fs' c r" using r new keep blobs_midD(5) [OF m(1)] by blast
    show "(blob_held A c \<or> c = ?c) \<or> c \<in> K" if "bl_temp r = None" using r blobs_midD(6) [OF m(1)] that by blast
    show "\<forall>k \<in> D \<union> set (taken (lv_cleared lv')). bl_temp r \<noteq> Some k"
    proof
      fix k assume k: "k \<in> D \<union> set (taken (lv_cleared lv'))"
      show "bl_temp r \<noteq> Some k"
      proof (cases "c = ?c")
        case False
        then have r': "map_of (blob_rows A) c = Some r" using r by blast
        show ?thesis
          using k files blobs_midD(7) [OF m(1) r'] key_of_one_row [OF blobs_midD(5) [OF m(1) r'] at] False by blast
      qed (use r in auto)
    qed
  next
    fix c assume "blob_held A c \<or> c = ?c"
    then show "\<exists>r. map_of (al_upd ?c (row\<lparr>bl_temp := None\<rparr>) (blob_rows A)) c = Some r \<and> bl_temp r = None"
      using blobs_midD(8) [OF m(1)] by auto
  qed (use files blobs_midD(2,3) [OF m(1)] in \<open>auto simp: ascending_al_upd\<close>)
  with n show ?thesis by blast
qed

lemma claims_linked:
  "only_linked J B (a_did A) fs0 fs lv \<Longrightarrow> claims J B now at bs A fs lv = (r, fs', lv') \<Longrightarrow> only_linked J B (a_did A) fs0 fs' lv'"
proof (induction bs arbitrary: A fs lv)
  case (Cons b bs)
  obtain q f l where q: "claim J B now at b A fs lv = (q, f, l)" by (metis prod_cases3)
  note s = claim_linked [OF Cons.prems(1) q]
  show ?case
  proof (cases q)
    case (Inr A1)
    then show ?thesis using Cons.IH [of A1 f l] Cons.prems(2) q s claim_did [of J B now at b A fs lv A1 f l] by simp
  qed (use Cons.prems(2) q s in simp)
qed simp

lemma claims_mid:
  assumes J: "cid_text_ok J" "at \<in> U"
  shows "blobs_mid L J B K (D \<union> set (taken (lv_cleared lv))) A fs \<Longrightarrow> named_but U A \<Longrightarrow>
    claims J B now at bs A fs lv = (Inr A', fs', lv') \<Longrightarrow>
    blobs_mid L J B K (D \<union> set (taken (lv_cleared lv'))) A' fs' \<and> named_but U A' \<and> a_did A' = a_did A \<and> record_rows A' = record_rows A"
proof (induction bs arbitrary: A fs lv)
  case (Cons b bs)
  obtain q f l where q: "claim J B now at b A fs lv = (q, f, l)" by (metis prod_cases3)
  then obtain A1 where A1: "q = Inr A1" "claims J B now at bs A1 f l = (Inr A', fs', lv')"
    using Cons.prems(3) by (auto split: sum.splits)
  note s = claim_mid [OF J(1) Cons.prems(1,2) J(2) q [unfolded A1(1)]]
  show ?case using Cons.IH [OF _ _ A1(2)] s claim_did [OF q [unfolded A1(1)]] by auto
qed simp

text \<open>The links of a record are a table of their own.\<close>

lemma relink: "\<exists>bl. fold (add_link at) ls (unlink at A) = A\<lparr>backlinks := bl\<rparr>"
proof -
  have "\<exists>bl. fold (add_link at) ls A = A\<lparr>backlinks := bl\<rparr>" for A :: actor
  proof (induction ls arbitrary: A)
    case Nil
    show ?case by (rule exI [of _ "backlinks A"]) simp
  next
    case (Cons l ls)
    have "\<exists>bl. add_link at l A = A\<lparr>backlinks := bl\<rparr>"
      by (cases "list_ex (\<lambda>(u, l'). u = at \<and> l_path l' = l_path l) (backlinks A)")
        (auto simp: add_link_def intro: exI [of _ "backlinks A"])
    then show ?case using Cons.IH [of "add_link at l A"] by auto
  qed
  from this [of "unlink at A"] show ?thesis by (simp add: unlink_def)
qed

lemma links_apart [simp]:
  "blobs_mid L J B K D (A\<lparr>backlinks := bl\<rparr>) fs = blobs_mid L J B K D A fs"
  "named_but U (A\<lparr>backlinks := bl\<rparr>) = named_but U A"
  by (simp_all add: blobs_mid_def named_but_def blob_held_def)

lemma named_but_mono: "named_but U A \<Longrightarrow> U \<subseteq> V \<Longrightarrow> named_but V A"
  by (fastforce simp: named_but_def)

lemma record_rows_apart:
  "ascending rows \<Longrightarrow> blobs_mid L J B K D A fs \<Longrightarrow> blobs_mid L J B K D (A\<lparr>record_rows := rows\<rparr>) fs"
  by (simp add: blobs_mid_def blob_held_def)

lemma index_one_mid:
  assumes J: "cid_text_ok J" and m: "blobs_mid L J B K (D \<union> set (taken (lv_cleared lv))) A fs" "named_but {} A"
    and g: "index_one J B now rv K ix A fs lv = (Inr A', fs', lv')"
  shows "blobs_mid L J B K (D \<union> set (taken (lv_cleared lv'))) A' fs' \<and> named_but {} A' \<and> a_did A' = a_did A"
proof (cases ix)
  case (IxPut n k c links named)
  let ?at = "uri (a_did A) n k"
  obtain bl where bl: "fold (add_link ?at) links (unlink ?at A) = A\<lparr>backlinks := bl\<rparr>" using relink by blast
  obtain A1 out where d: "dereference J ?at K (A\<lparr>backlinks := bl\<rparr>) = Inr (A1, out)"
    using g IxPut bl by (auto simp: index_one_def Let_def split: sum.splits)
  note d' = dereference_mid [OF _ _ d, of L B "D \<union> set (taken (lv_cleared lv))" fs "{?at}"]
  have mid: "blobs_mid L J B K (D \<union> set (taken (lv_cleared lv))) A1 fs" "named_but {?at} A1" "a_did A1 = a_did A"
    using d' m named_but_mono [OF m(2)] by simp_all
  have t: "taken (lv_cleared (add_orphans out lv)) = taken (lv_cleared lv)" by (simp add: add_orphans_def)
  obtain q f l where q: "claims J B now ?at named A1 fs (add_orphans out lv) = (q, f, l)" by (metis prod_cases3)
  then obtain A2 where A2: "q = Inr A2" "A' = put_record J now rv n k c A2" "fs' = f" "lv' = l"
    using g IxPut bl d by (auto simp: index_one_def Let_def split: sum.splits)
  have c: "blobs_mid L J B K (D \<union> set (taken (lv_cleared l))) A2 f" "named_but {?at} A2" "a_did A2 = a_did A"
    using claims_mid [OF J, of ?at "{?at}" L B K D "add_orphans out lv" A1 fs now named A2 f l] mid q A2(1) t by auto
  have "named_but {} (put_record J now rv n k c A2)"
    using c(2,3) by (auto simp: named_but_def put_record_def Let_def)
  then show ?thesis
    using c A2 record_rows_apart [OF ascending_al_upd [OF blobs_midD(3) [OF c(1)]] c(1)] by (simp add: put_record_def Let_def)
next
  case (IxDelete n k)
  let ?at = "uri (a_did A) n k"
  obtain bl where bl: "unlink ?at A = A\<lparr>backlinks := bl\<rparr>" using relink [of ?at "[]" A] by auto
  obtain A1 out where d: "dereference J ?at K (A\<lparr>backlinks := bl\<rparr>) = Inr (A1, out)"
      "A' = A1\<lparr>record_rows := al_del ?at (record_rows A1)\<rparr>" "fs' = fs" "lv' = add_orphans out lv"
    using g IxDelete bl by (auto simp: index_one_def Let_def split: sum.splits)
  note d' = dereference_mid [OF _ _ d(1), of L B "D \<union> set (taken (lv_cleared lv))" fs "{}"]
  have mid: "blobs_mid L J B K (D \<union> set (taken (lv_cleared lv))) A1 fs" "named_but {} A1" "a_did A1 = a_did A"
      "\<And>c. (c, ?at) \<notin> set (record_blob A1)"
    using d' m by simp_all
  have "named_but {} A'"
    using mid(2,4) d(2) blobs_midD(3) [OF mid(1)] by (auto simp: named_but_def map_of_al_del)
  then show ?thesis
    using mid d(2-4) record_rows_apart [OF ascending_al_del [OF blobs_midD(3) [OF mid(1)]] mid(1)] by (simp add: add_orphans_def)
qed

lemma dereference_did: "dereference J at K A = Inr (A', out) \<Longrightarrow> a_did A' = a_did A"
proof -
  have "let_go J sp cs A out = Inr (A', out') \<Longrightarrow> a_did A' = a_did A" for sp cs A out A' out'
    by (induction cs arbitrary: A out) (auto simp: drop_blob_def split: if_splits option.splits)
  then show "dereference J at K A = Inr (A', out) \<Longrightarrow> a_did A' = a_did A" by (fastforce simp: dereference_def Let_def)
qed

lemma index_one_linked:
  assumes "only_linked J B (a_did A) fs0 fs lv" "index_one J B now rv K ix A fs lv = (r, fs', lv')"
  shows "only_linked J B (a_did A) fs0 fs' lv'"
proof (cases ix)
  case (IxPut n k c links named)
  let ?at = "uri (a_did A) n k"
  obtain bl where bl: "fold (add_link ?at) links (unlink ?at A) = A\<lparr>backlinks := bl\<rparr>" using relink by blast
  show ?thesis
  proof (cases "dereference J ?at K (A\<lparr>backlinks := bl\<rparr>)")
    case (Inr x)
    then obtain A1 out where d: "dereference J ?at K (A\<lparr>backlinks := bl\<rparr>) = Inr (A1, out)" by fastforce
    obtain q f l where q: "claims J B now ?at named A1 fs (add_orphans out lv) = (q, f, l)" by (metis prod_cases3)
    have "only_linked J B (a_did A1) fs0 f l"
      by (rule claims_linked [OF _ q]) (use assms(1) dereference_did [OF d] in simp)
    then have "only_linked J B (a_did A) fs0 f l" using dereference_did [OF d] by simp
    then show ?thesis using assms(2) IxPut bl d q by (auto simp: index_one_def Let_def split: sum.splits)
  qed (use assms IxPut bl in \<open>auto simp: index_one_def Let_def\<close>)
qed (use assms in \<open>auto simp: index_one_def Let_def split: sum.splits\<close>)

lemma index_loop_mid:
  assumes J: "cid_text_ok J"
  shows "blobs_mid L J B K (D \<union> set (taken (lv_cleared lv))) A fs \<Longrightarrow> named_but {} A \<Longrightarrow>
    index_loop J B now rv K ixs A fs lv = (Inr A', fs', lv') \<Longrightarrow>
    blobs_mid L J B K (D \<union> set (taken (lv_cleared lv'))) A' fs' \<and> named_but {} A' \<and> a_did A' = a_did A"
proof (induction ixs arbitrary: A fs lv)
  case (Cons ix ixs)
  obtain q f l where q: "index_one J B now rv K ix A fs lv = (q, f, l)" by (metis prod_cases3)
  then obtain A1 where A1: "q = Inr A1" "index_loop J B now rv K ixs A1 f l = (Inr A', fs', lv')"
    using Cons.prems(3) by (auto split: sum.splits)
  show ?case using Cons.IH [OF _ _ A1(2)] index_one_mid [OF J Cons.prems(1,2) q [unfolded A1(1)]] by auto
qed simp

lemma index_one_did: "index_one J B now rv K ix A fs lv = (Inr A', fs', lv') \<Longrightarrow> a_did A' = a_did A"
proof -
  have c: "claims J B now at bs A fs lv = (Inr A', fs', lv') \<Longrightarrow> a_did A' = a_did A" for at bs A fs lv A'
    by (induction bs arbitrary: A fs lv) (auto split: sum.splits prod.splits dest: claim_did)
  assume g: "index_one J B now rv K ix A fs lv = (Inr A', fs', lv')"
  show "a_did A' = a_did A"
  proof (cases ix)
    case (IxPut n k cc links named)
    obtain bl where bl: "fold (add_link (uri (a_did A) n k)) links (unlink (uri (a_did A) n k) A) = A\<lparr>backlinks := bl\<rparr>"
      using relink by blast
    show ?thesis
      using g IxPut bl by (auto simp: index_one_def Let_def put_record_def split: sum.splits prod.splits dest!: c dereference_did)
  next
    case (IxDelete n k)
    then show ?thesis using g by (auto simp: index_one_def Let_def unlink_def split: sum.splits dest!: dereference_did)
  qed
qed

lemma index_loop_linked:
  "only_linked J B (a_did A) fs0 fs lv \<Longrightarrow> index_loop J B now rv K ixs A fs lv = (r, fs', lv') \<Longrightarrow>
   only_linked J B (a_did A) fs0 fs' lv'"
proof (induction ixs arbitrary: A fs lv)
  case (Cons ix ixs)
  obtain q f l where q: "index_one J B now rv K ix A fs lv = (q, f, l)" by (metis prod_cases3)
  note s = index_one_linked [OF Cons.prems(1) q]
  show ?case
  proof (cases q)
    case (Inr A1)
    then have "a_did A1 = a_did A" using q index_one_did by blast
    then show ?thesis using Cons.IH [of A1 f l] Cons.prems(2) q s Inr by simp
  qed (use Cons.prems(2) q s in simp)
qed simp


section \<open>A commit, landed or not\<close>

lemma blocks_apart [simp]:
  "blobs_mid L J B K D (A\<lparr>repo_block := bs\<rparr>) fs = blobs_mid L J B K D A fs"
  "named_but U (A\<lparr>repo_block := bs\<rparr>) = named_but U A"
  "blobs_mid L J B K D (A\<lparr>repo_root := rs\<rparr>) fs = blobs_mid L J B K D A fs"
  "named_but U (A\<lparr>repo_root := rs\<rparr>) = named_but U A"
  by (simp_all add: blobs_mid_def named_but_def blob_held_def)

lemma fold_one_field:
  assumes "\<And>x A. \<exists>v. f x A = upd (\<lambda>_. v) A" "\<And>v w A. upd (\<lambda>_. v) (upd (\<lambda>_. w) A) = upd (\<lambda>_. v) A"
    "\<And>A. \<exists>v. A = upd (\<lambda>_. v) A"
  shows "\<exists>v. fold f xs A = upd (\<lambda>_. v) A"
proof (induction xs arbitrary: A)
  case (Cons x xs)
  obtain v where "f x A = upd (\<lambda>_. v) A" using assms(1) by blast
  then show ?case using Cons.IH [of "f x A"] assms(2) by (metis fold_simps(2))
qed (simp add: assms(3))

lemma same_blocks: "\<exists>bs. A = A\<lparr>repo_block := bs\<rparr>"
  by (rule exI [of _ "repo_block A"]) simp

lemma fold_insert_block: "\<exists>bs. fold (insert_block J rv) blocks A = A\<lparr>repo_block := bs\<rparr>"
  by (rule fold_one_field [where upd = repo_block_update])
    (auto simp: insert_block_def Let_def intro: same_blocks)

lemma fold_forget_block: "\<exists>bs. fold (forget_block J) drops A = A\<lparr>repo_block := bs\<rparr>"
  by (rule fold_one_field [where upd = repo_block_update])
    (auto simp: forget_block_def intro: same_blocks)

lemma move_root_Some: "move_root J now from root A = Inr (Some A') \<Longrightarrow> \<exists>rs. A' = A\<lparr>repo_root := rs\<rparr>"
  by (auto simp: move_root_def Let_def split: option.splits if_splits)

lemma blobs_mid_mono: "blobs_mid L J B {} D A fs \<Longrightarrow> blobs_mid L J B K D A fs"
  unfolding blobs_mid_def by blast

text \<open>The stages of a commit that landed.\<close>

abbreviation no_leaving :: "'c leaving" where
  "no_leaving \<equiv> \<lparr>lv_cleared = \<lparr>orphaned = [], taken = []\<rparr>, lv_linked = []\<rparr>"

lemma landing_stages:
  assumes "landing J B now from root blocks drops ixs A fs = (Inr (Some (A', cl)), fs', lv')"
  obtains A1 l A2 out where
    "index_loop J B now (rt_rev root) (set (kept_blobs J ixs)) ixs (fold (insert_block J (rt_rev root)) blocks A) fs no_leaving = (Inr A1, fs', l)"
    "let_go J blob_held (kept_blobs J ixs) (fold (forget_block J) drops A1) [] = Inr (A2, out)"
    "move_root J now from root A2 = Inr (Some A')" "cl = lv_cleared (add_orphans out l)"
proof -
  let ?A = "fold (insert_block J (rt_rev root)) blocks A" and ?K = "set (kept_blobs J ixs)"
  obtain q f l where q: "index_loop J B now (rt_rev root) ?K ixs ?A fs no_leaving = (q, f, l)" by (metis prod_cases3)
  then obtain A1 where A1: "q = Inr A1" using assms by (cases q) (auto simp: landing_def Let_def)
  obtain A2 out where w: "let_go J blob_held (kept_blobs J ixs) (fold (forget_block J) drops A1) [] = Inr (A2, out)"
    using assms q A1 by (auto simp: landing_def Let_def split: sum.splits)
  show thesis
    by (rule that [OF _ w]) (use assms q A1 w in \<open>auto simp: landing_def Let_def split: sum.splits option.splits\<close>)
qed

lemma landing_blobs:
  assumes J: "cid_text_ok J" and m: "blobs_ok L J B D A fs"
    and g: "landing J B now from root blocks drops ixs A fs = (Inr (Some (A', cl)), fs', lv')"
  shows "blobs_ok L J B (D \<union> set (taken cl)) A' fs' \<and> a_did A' = a_did A"
proof -
  let ?K = "set (kept_blobs J ixs)"
  obtain A1 l A2 out where
    s: "index_loop J B now (rt_rev root) ?K ixs (fold (insert_block J (rt_rev root)) blocks A) fs no_leaving = (Inr A1, fs', l)"
      "let_go J blob_held (kept_blobs J ixs) (fold (forget_block J) drops A1) [] = Inr (A2, out)"
      "move_root J now from root A2 = Inr (Some A')" "cl = lv_cleared (add_orphans out l)"
    by (rule landing_stages [OF g])
  obtain bs where bs: "fold (insert_block J (rt_rev root)) blocks A = A\<lparr>repo_block := bs\<rparr>" using fold_insert_block by blast
  obtain bs' where bs': "fold (forget_block J) drops A1 = A1\<lparr>repo_block := bs'\<rparr>" using fold_forget_block by blast
  have "blobs_mid L J B ?K D (A\<lparr>repo_block := bs\<rparr>) fs" "named_but {} (A\<lparr>repo_block := bs\<rparr>)"
    using m unfolding blobs_ok_def blocks_apart by (simp_all add: blobs_mid_mono)
  then have i: "blobs_mid L J B ?K (D \<union> set (taken (lv_cleared l))) A1 fs'" "named_but {} A1" "a_did A1 = a_did A"
    using index_loop_mid [OF J _ _ s(1) [unfolded bs], of L D] by auto
  have b: "blobs_mid L J B {} (D \<union> set (taken (lv_cleared l))) A2 fs' \<and> (\<exists>rows. A2 = A1\<lparr>repo_block := bs'\<rparr>\<lparr>blob_rows := rows\<rparr>)"
    by (rule let_go_mid [OF _ s(2) [unfolded bs'], where K = ?K]) (use i in \<open>auto simp: blob_held_def\<close>)
  then obtain rows where A2: "A2 = A1\<lparr>repo_block := bs'\<rparr>\<lparr>blob_rows := rows\<rparr>" by blast
  have "named_but {} A2" using i(2) unfolding A2 by (simp add: named_but_def)
  moreover obtain rs where "A' = A2\<lparr>repo_root := rs\<rparr>" using move_root_Some [OF s(3)] by blast
  ultimately show ?thesis using b s(4) A2 i(3) by (simp add: blobs_ok_def add_orphans_def)
qed

lemma landing_linked:
  assumes "fs_ok fs" "landing J B now from root blocks drops ixs A fs = (r, fs', lv')"
  shows "only_linked J B (a_did A) fs fs' lv'"
proof -
  let ?lv = "no_leaving :: 'a leaving"
  let ?K = "set (kept_blobs J ixs)"
  obtain bs where bs: "fold (insert_block J (rt_rev root)) blocks A = A\<lparr>repo_block := bs\<rparr>" using fold_insert_block by blast
  obtain q f l where q: "index_loop J B now (rt_rev root) ?K ixs (A\<lparr>repo_block := bs\<rparr>) fs ?lv = (q, f, l)" by (metis prod_cases3)
  have "only_linked J B (a_did A) fs f l"
    using index_loop_linked [OF _ q, of fs] only_linked_start [OF assms(1), of ?lv J B "a_did A"] by simp
  moreover have "fs' = f \<and> (\<exists>out. lv' = l \<or> lv' = add_orphans out l)"
    using assms(2) bs q by (auto simp: landing_def Let_def split: sum.splits option.splits prod.splits)
  ultimately show ?thesis by auto
qed

lemma take_back_ok:
  "fs_ok fs \<Longrightarrow> fs_ok (take_back J B did cs fs)
    \<and> content (take_back J B did cs fs) = (\<lambda>p. if p \<in> blob_path J B did ` set cs then None else content fs p)"
proof (induction cs arbitrary: fs)
  case (Cons c cs)
  obtain f where f: "remove_file (blob_path J B did c) fs = ((Inr () :: 'a store_error + unit), f)" "fs_ok f"
      "fs_file f = (fs_file fs)(blob_path J B did c := None)"
    using remove_file_ok [OF Cons.prems] by blast
  have "take_back J B did (c # cs) fs = take_back J B did cs f" using f(1) by (simp add: take_back_def blob_delete_def)
  then show ?case using Cons.IH [OF f(2)] content_upd [OF f(3)] by (auto simp: fun_eq_iff)
qed (simp add: take_back_def)

lemma taken_back:
  assumes "only_linked J B did fs0 fs lv"
  shows "fs_ok (take_back J B did (lv_linked lv) fs) \<and> content (take_back J B did (lv_linked lv) fs) = content fs0"
  using assms take_back_ok [of fs J B did "lv_linked lv"] unfolding only_linked_def by (auto simp: fun_eq_iff)

lemma blobs_ok_content:
  assumes "blobs_ok L J B D A fs" "fs_ok fs'" "content fs' = content fs"
  shows "blobs_ok L J B D A fs'"
  using assms(1,2) unfolding blobs_ok_def blobs_mid_def blob_at_def stored_ok_def assms(3) by blast

lemma commit_cases:
  assumes "fs_ok fs" "actor_commit J B now from root blocks drops ixs A fs = (r, A', fs')"
  obtains cl lv where "r = Inr (Some cl)" "landing J B now from root blocks drops ixs A fs = (Inr (Some (A', cl)), fs', lv)"
  | "\<forall>cl. r \<noteq> Inr (Some cl)" "A' = A" "fs_ok fs'" "content fs' = content fs"
proof -
  obtain q f lv where q: "landing J B now from root blocks drops ixs A fs = (q, f, lv)" by (metis prod_cases3)
  note tb = taken_back [OF landing_linked [OF assms(1) q]]
  show thesis
  proof (cases q)
    case (Inl e)
    then show thesis using assms(2) q tb by (intro that(2)) (auto simp: actor_commit_def)
  next
    case (Inr o')
    then show thesis
      using assms(2) q tb that by (cases o') (auto simp: actor_commit_def)
  qed
qed

lemma commit_blobs:
  assumes "cid_text_ok J" "blobs_ok L J B D A fs" "actor_commit J B now from root blocks drops ixs A fs = (r, A', fs')"
  shows "a_did A' = a_did A \<and> blobs_ok L J B (D \<union> (case r of Inr (Some cl) \<Rightarrow> set (taken cl) | _ \<Rightarrow> {})) A' fs'"
proof -
  have fs: "fs_ok fs" using assms(2) by (simp add: blobs_ok_def blobs_mid_def)
  show ?thesis
  proof (rule commit_cases [OF fs assms(3)])
    fix cl lv assume "r = Inr (Some cl)" "landing J B now from root blocks drops ixs A fs = (Inr (Some (A', cl)), fs', lv)"
    then show ?thesis using landing_blobs [OF assms(1,2)] by auto
  next
    assume "\<forall>cl. r \<noteq> Inr (Some cl)" "A' = A" "fs_ok fs'" "content fs' = content fs"
    then show ?thesis using blobs_ok_content [OF assms(2)] by (auto split: sum.splits option.splits)
  qed
qed


section \<open>The life of a blob\<close>

text \<open>An account's database and the disk, and the uploads that commits have taken and nothing has
  cleared yet. \<open>upload_blob\<close>, \<open>write\<close>, \<open>cleared\<close>, \<open>sweep_blobs\<close> and \<open>reconcile\<close> of \<open>src/account.rs\<close> are
  made of these steps. The key of an upload is drawn at random: it is one nothing is using.\<close>

record world =
  w_actor :: actor
  w_fs :: fs
  w_pending :: "string set"

definition upload_blob ::
    "('c, 'l) lib_scheme \<Rightarrow> ('c, 'j) actor_lib_scheme \<Rightarrow> path \<Rightarrow> nat \<Rightarrow> bytes \<Rightarrow> string \<Rightarrow> string \<Rightarrow> bytes \<Rightarrow> actor \<Rightarrow> fs
      \<Rightarrow> ('c store_error + 'c blob) \<times> actor \<times> fs" where
  "upload_blob L J B now scratch key mime b A fs =
     (let blob = \<lparr>b_cid = blob_cid_for L b, b_mime = mime, b_size = length b\<rparr> in
      case blob_put L B now scratch (a_did A) key (b_cid blob) b fs of
        (Inl e, fs) \<Rightarrow> (Inl e, A, fs)
      | (Inr _, fs) \<Rightarrow> (Inr blob, add_blob J now blob key A, fs))"

definition clear_orphan :: "('c, 'j) json_lib_scheme \<Rightarrow> path \<Rightarrow> actor \<Rightarrow> 'c \<Rightarrow> fs \<Rightarrow> fs" where
  "clear_orphan J B A c fs =
     (if unheld J A c then snd (blob_delete J B (a_did A) c fs :: ('c store_error + unit) \<times> fs) else fs)"

definition clear_upload :: "path \<Rightarrow> did \<Rightarrow> string \<Rightarrow> fs \<Rightarrow> fs" where
  "clear_upload B did key fs = snd (delete_upload B did key fs :: (string store_error + unit) \<times> fs)"

definition clear_disk :: "('c, 'j) json_lib_scheme \<Rightarrow> path \<Rightarrow> actor \<Rightarrow> 'c committed \<Rightarrow> fs \<Rightarrow> fs" where
  "clear_disk J B A cl fs = fold (clear_upload B (a_did A)) (taken cl) (fold (clear_orphan J B A) (orphaned cl) fs)"

inductive blob_step :: "('c::linorder, 'l) lib_scheme \<Rightarrow> ('c, 'j) actor_lib_scheme \<Rightarrow> path \<Rightarrow> world \<Rightarrow> world \<Rightarrow> bool"
  for L J B where
  Upload: "key \<notin> upload_keys (w_actor w) \<Longrightarrow> key \<notin> w_pending w \<Longrightarrow>
    content (w_fs w) (partial_path (temp_path B (a_did (w_actor w)) key) scratch) = None \<Longrightarrow>
    upload_blob L J B now scratch key mime b (w_actor w) (w_fs w) = (r, A, fs) \<Longrightarrow>
    blob_step L J B w (w\<lparr>w_actor := A, w_fs := fs\<rparr>)"
| Commit: "actor_commit J B now base root blocks drops ixs (w_actor w) (w_fs w) = (r, A, fs) \<Longrightarrow>
    ks = (case r of Inr (Some cl) \<Rightarrow> set (taken cl) | _ \<Rightarrow> {}) \<Longrightarrow>
    blob_step L J B w (w\<lparr>w_actor := A, w_fs := fs, w_pending := w_pending w \<union> ks\<rparr>)"
| Clear: "set (taken cl) \<subseteq> w_pending w \<Longrightarrow>
    blob_step L J B w (w\<lparr>w_fs := clear_disk J B (w_actor w) cl (w_fs w), w_pending := w_pending w - set (taken cl)\<rparr>)"
| Unclaimed: "sweep_unclaimed J cutoff (w_actor w) = (keys, A) \<Longrightarrow>
    blob_step L J B w (w\<lparr>w_actor := A, w_pending := w_pending w \<union> set keys\<rparr>)"
| Stranded: "sweep_uploads B (a_did (w_actor w)) (upload_keys (w_actor w)) cutoff (w_fs w) = (swept, fs) \<Longrightarrow>
    blob_step L J B w (w\<lparr>w_fs := fs\<rparr>)"
| Unheld_Files: "sweep_stored B (a_did (w_actor w)) (blob_cids (w_actor w)) cutoff (w_fs w) = (swept, fs) \<Longrightarrow>
    blob_step L J B w (w\<lparr>w_fs := fs\<rparr>)"

inductive blob_reachable :: "('c::linorder, 'l) lib_scheme \<Rightarrow> ('c, 'j) actor_lib_scheme \<Rightarrow> path \<Rightarrow> did \<Rightarrow> world \<Rightarrow> bool"
  for L J B did where
  Fresh: "fs_ok fs \<Longrightarrow> stored_ok L J B did fs \<Longrightarrow> blob_reachable L J B did \<lparr>w_actor = actor_new did, w_fs = fs, w_pending = {}\<rparr>"
| Step: "blob_reachable L J B did w \<Longrightarrow> blob_step L J B w w' \<Longrightarrow> blob_reachable L J B did w'"

lemma upload_keys_iff:
  assumes "ascending (blob_rows A)"
  shows "k \<in> upload_keys A \<longleftrightarrow> (\<exists>c row. map_of (blob_rows A) c = Some row \<and> bl_temp row = Some k)"
proof -
  have "(c, row) \<in> set (blob_rows A) \<longleftrightarrow> map_of (blob_rows A) c = Some row" for c row
    using assms by (metis (no_types, lifting) map_of_eq_Some_iff strict_sorted_iff)
  then show ?thesis by (force simp: upload_keys_def List.map_filter_def)
qed

lemma upload_mid:
  assumes J: "cid_text_ok J" and m: "blobs_ok L J B D A fs" and k: "key \<notin> upload_keys A" "key \<notin> D"
    and p: "content fs (partial_path (temp_path B (a_did A) key) scratch) = None"
    and u: "upload_blob L J B now scratch key mime b A fs = (r, A', fs')"
  shows "blobs_ok L J B D A' fs' \<and> a_did A' = a_did A"
proof -
  let ?p = "temp_path B (a_did A) key" and ?c = "cid_to_string J (blob_cid_for L b)"
  note m' = m [unfolded blobs_ok_def, THEN conjunct1]
  obtain f where f: "blob_write now scratch ?p b fs = ((Inr () :: 'a store_error + unit), f)" "fs_ok f" "content f = (content fs)(?p \<mapsto> b)"
    using blob_write_ok [OF blobs_midD(1) [OF m'] _ p, of now b] by (auto simp: temp_path_def)
  then have A': "A' = add_blob J now \<lparr>b_cid = blob_cid_for L b, b_mime = mime, b_size = length b\<rparr> key A" "fs' = f"
    using u by (auto simp: upload_blob_def blob_put_def Let_def)
  have other: "bl_temp row \<noteq> Some key" if "map_of (blob_rows A) c = Some row" for c row
    using that k(1) upload_keys_iff [OF blobs_midD(2) [OF m']] by blast
  have keep: "blob_at L J B (a_did A) f c row" if "map_of (blob_rows A) c = Some row" for c row
    using blobs_midD(5) [OF m' that] other [OF that] f(3) by (auto simp: blob_at_def split: option.splits)
  have st: "stored_ok L J B (a_did A) f" using blobs_midD(4) [OF m'] f(3) by (simp add: stored_ok_def)
  show ?thesis
  proof (cases "\<exists>row. map_of (blob_rows A) ?c = Some row \<and> bl_temp row = None")
    case True
    then have "A' = A" using A' by (auto simp: add_blob_def)
    then show ?thesis
      using m keep st f(2) A'(2) unfolding blobs_ok_def blobs_mid_def by simp
  next
    case False
    define row where "row = (case map_of (blob_rows A) ?c of
        None \<Rightarrow> \<lparr>bl_mime = mime, bl_size = i64_of (length b), bl_temp = Some key, bl_created = stamp J now, bl_takedown = None\<rparr>
      | Some r \<Rightarrow> r\<lparr>bl_temp := Some key, bl_created := stamp J now\<rparr>)"
    have row: "A' = A\<lparr>blob_rows := al_upd ?c row (blob_rows A)\<rparr>" "bl_temp row = Some key"
      using A'(1) False by (auto simp: add_blob_def row_def Let_def split: option.splits)
    have h: "\<not> blob_held A ?c" using False blobs_midD(8) [OF m'] by blast
    have new: "blob_at L J B (a_did A) f ?c row" using row(2) f(3) by (auto simp: blob_at_def)
    have eqs: "a_did A' = a_did A" "blob_held A' = blob_held A" "record_rows A' = record_rows A"
        "blob_rows A' = al_upd ?c row (blob_rows A)" "named_but {} A' = named_but {} A"
      unfolding row(1) by (simp_all add: blob_held_def fun_eq_iff named_but_def)
    have "blobs_mid L J B {} D A' f"
      unfolding blobs_mid_def eqs
    proof (intro conjI allI impI)
      fix c r assume r: "map_of (al_upd ?c row (blob_rows A)) c = Some r"
      show "blob_at L J B (a_did A) f c r" using r new keep by (auto split: if_splits)
      show "blob_held A c \<or> c \<in> {}" if "bl_temp r = None"
        using r that row(2) blobs_midD(6) [OF m'] by (auto split: if_splits)
      show "\<forall>k \<in> D. bl_temp r \<noteq> Some k" using r row(2) k(2) blobs_midD(7) [OF m'] by (auto split: if_splits)
    next
      fix c assume "blob_held A c"
      then show "\<exists>r. map_of (al_upd ?c row (blob_rows A)) c = Some r \<and> bl_temp r = None"
        using blobs_midD(8) [OF m'] h by auto
    qed (use f(2) st blobs_midD(2,3) [OF m'] in \<open>auto simp: ascending_al_upd\<close>)
    then show ?thesis using m eqs A'(2) by (simp add: blobs_ok_def)
  qed
qed

text \<open>Files whose going the invariant does not mind.\<close>

lemma content_less:
  assumes m: "blobs_ok L J B D A fs" and ok: "fs_ok fs'"
    and less: "\<And>p. content fs' p = content fs p \<or> content fs' p = None \<and>
      ((\<exists>k. p = temp_path B (a_did A) k \<and> k \<notin> upload_keys A)
       \<or> (\<exists>c. p = stored_dir B (a_did A) @ [c] \<and> map_of (blob_rows A) c = None))"
  shows "blobs_ok L J B D A fs'"
proof -
  note m' = m [unfolded blobs_ok_def, THEN conjunct1]
  have up: "content fs' (temp_path B (a_did A) k) = content fs (temp_path B (a_did A) k)" if "k \<in> upload_keys A" for k
    using less [of "temp_path B (a_did A) k"] that by (auto simp: temp_path_def uploads_dir_def stored_dir_def)
  have stored: "content fs' (blob_path J B (a_did A) x) = content fs (blob_path J B (a_did A) x)"
    if "map_of (blob_rows A) (cid_to_string J x) \<noteq> None" for x
    using less [of "blob_path J B (a_did A) x"] that by (auto simp: blob_path_def temp_path_def uploads_dir_def stored_dir_def)
  have "blob_at L J B (a_did A) fs' c row" if r: "map_of (blob_rows A) c = Some row" for c row
  proof -
    obtain x where x: "c = cid_to_string J x" "case bl_temp row of None \<Rightarrow> content fs (blob_path J B (a_did A) x) \<noteq> None
        | Some key \<Rightarrow> \<exists>b. content fs (temp_path B (a_did A) key) = Some b \<and> blob_cid_for L b = x"
      using blobs_midD(5) [OF m' r] unfolding blob_at_def by blast
    have "k \<in> upload_keys A" if "bl_temp row = Some k" for k
      using r that upload_keys_iff [OF blobs_midD(2) [OF m']] by blast
    then show ?thesis
      using x stored [of x] r up unfolding blob_at_def by (intro exI [of _ x]) (auto split: option.splits)
  qed
  moreover have "stored_ok L J B (a_did A) fs'"
    using blobs_midD(4) [OF m'] less unfolding stored_ok_def by (metis option.distinct(1))
  ultimately show ?thesis using m ok unfolding blobs_ok_def blobs_mid_def by blast
qed

lemma sweep_rows_ok:
  "blobs_ok L J B D A fs \<Longrightarrow> sweep_rows rows A = (keys, A') \<Longrightarrow> blobs_ok L J B (D \<union> set keys) A' fs \<and> a_did A' = a_did A"
proof (induction rows arbitrary: A keys D)
  case (Cons p rows)
  obtain c key where p: "p = (c, key)" by fastforce
  note m' = Cons.prems(1) [unfolded blobs_ok_def, THEN conjunct1]
  show ?case
  proof (cases "\<exists>row. map_of (blob_rows A) c = Some row \<and> bl_temp row = Some key")
    case True
    then obtain row where row: "map_of (blob_rows A) c = Some row" "bl_temp row = Some key" by blast
    then obtain keys' where k: "sweep_rows rows (drop_blob c A) = (keys', A')" "keys = key # keys'"
      using Cons.prems(2) p by (auto split: prod.splits)
    have h: "\<not> blob_held A c" using row blobs_midD(8) [OF m'] by fastforce
    have rows: "map_of (blob_rows (drop_blob c A)) = (map_of (blob_rows A))(c := None)"
      using blobs_midD(2) [OF m'] by (simp add: drop_blob_def map_of_al_del)
    have eqs: "a_did (drop_blob c A) = a_did A" "record_rows (drop_blob c A) = record_rows A"
        "blob_held (drop_blob c A) = blob_held A" "named_but {} (drop_blob c A) = named_but {} A"
        "ascending (blob_rows (drop_blob c A))"
      using blobs_midD(2) [OF m'] by (simp_all add: drop_blob_def blob_held_def fun_eq_iff named_but_def ascending_al_del)
    have k1: "bl_temp r \<noteq> Some key" if "map_of (blob_rows A) d = Some r" "d \<noteq> c" for d r
      using that key_of_one_row [OF blobs_midD(5) [OF m' that(1)] blobs_midD(5) [OF m' row(1)]] row(2) by blast
    have "blobs_mid L J B {} (insert key D) (drop_blob c A) fs"
      unfolding blobs_mid_def eqs rows
    proof (intro conjI allI impI)
      fix d r assume r: "((map_of (blob_rows A))(c := None)) d = Some r"
      then have r': "map_of (blob_rows A) d = Some r" "d \<noteq> c" by (auto split: if_splits)
      show "blob_at L J B (a_did A) fs d r" by (rule blobs_midD(5) [OF m' r'(1)])
      show "\<forall>k \<in> insert key D. bl_temp r \<noteq> Some k" using blobs_midD(7) [OF m' r'(1)] k1 [OF r'] by blast
      show "blob_held A d \<or> d \<in> {}" if "bl_temp r = None" using blobs_midD(6) [OF m' r'(1) that] by blast
    next
      fix d assume "blob_held A d"
      then show "\<exists>r. ((map_of (blob_rows A))(c := None)) d = Some r \<and> bl_temp r = None" using blobs_midD(8) [OF m'] h by auto
    qed (use blobs_midD(1,3,4) [OF m'] eqs in auto)
    then have "blobs_ok L J B (insert key D) (drop_blob c A) fs" using Cons.prems(1) eqs by (simp add: blobs_ok_def)
    from Cons.IH [OF this k(1)] show ?thesis using k(2) eqs(1) by (simp add: Un_insert_right)
  next
    case False
    then have "sweep_rows rows A = (keys, A')" using Cons.prems(2) p by (auto split: option.splits if_splits)
    then show ?thesis by (rule Cons.IH [OF Cons.prems(1)])
  qed
qed simp

lemma clear_disk_ok:
  assumes J: "cid_text_ok J" and m: "blobs_ok L J B D A fs" and t: "set (taken cl) \<subseteq> D"
  shows "blobs_ok L J B D A (clear_disk J B A cl fs)"
proof -
  have o: "blobs_ok L J B D A fs \<Longrightarrow> blobs_ok L J B D A (fold (clear_orphan J B A) cs fs)" for cs fs
  proof (induction cs arbitrary: fs)
    case (Cons c cs)
    have "fs_ok fs" using Cons.prems by (simp add: blobs_ok_def blobs_mid_def)
    then obtain f where f: "remove_file (blob_path J B (a_did A) c) fs = ((Inr () :: 'a store_error + unit), f)" "fs_ok f"
        "fs_file f = (fs_file fs)(blob_path J B (a_did A) c := None)"
      using remove_file_ok by blast
    have "blobs_ok L J B D A (clear_orphan J B A c fs)"
    proof (cases "unheld J A c")
      case True
      then show ?thesis
        using f content_upd [OF f(3)]
        by (simp add: clear_orphan_def blob_delete_def) (rule content_less [OF Cons.prems f(2)], auto simp: unheld_def blob_path_def)
    qed (use Cons.prems in \<open>simp add: clear_orphan_def\<close>)
    then show ?case by (simp add: Cons.IH)
  qed simp
  have u: "set ks \<subseteq> D \<Longrightarrow> blobs_ok L J B D A fs \<Longrightarrow> blobs_ok L J B D A (fold (clear_upload B (a_did A)) ks fs)" for ks fs
  proof (induction ks arbitrary: fs)
    case (Cons k ks)
    note m' = Cons.prems(2) [unfolded blobs_ok_def, THEN conjunct1]
    obtain f where f: "remove_file (temp_path B (a_did A) k) fs = ((Inr () :: string store_error + unit), f)" "fs_ok f"
        "fs_file f = (fs_file fs)(temp_path B (a_did A) k := None)"
      using remove_file_ok [OF blobs_midD(1) [OF m']] by blast
    have "k \<notin> upload_keys A" using Cons.prems(1) blobs_midD(7) [OF m'] upload_keys_iff [OF blobs_midD(2) [OF m']] by fastforce
    then have "blobs_ok L J B D A (clear_upload B (a_did A) k fs)"
      using f content_upd [OF f(3)]
      by (simp add: clear_upload_def delete_upload_def) (rule content_less [OF Cons.prems(2) f(2)], auto)
    then show ?case using Cons.IH Cons.prems(1) by simp
  qed simp
  show ?thesis unfolding clear_disk_def by (rule u [OF t o [OF m]])
qed

lemma blobs_ok_pending: "blobs_ok L J B D A fs \<Longrightarrow> E \<subseteq> D \<Longrightarrow> blobs_ok L J B E A fs"
  unfolding blobs_ok_def blobs_mid_def by blast

lemma blob_step_keeps:
  assumes J: "cid_text_ok J" and s: "blob_step L J B w w'"
    and m: "blobs_ok L J B (w_pending w) (w_actor w) (w_fs w)"
  shows "blobs_ok L J B (w_pending w') (w_actor w') (w_fs w') \<and> a_did (w_actor w') = a_did (w_actor w)"
  using s
proof (cases rule: blob_step.cases)
  case (Upload key scratch now mime b r A fs)
  then show ?thesis using upload_mid [OF J m Upload(2-5)] by simp
next
  case (Commit now base root blocks drops ixs r A fs ks)
  then show ?thesis using commit_blobs [OF J m Commit(2)] by simp
next
  case (Clear cl)
  have "blobs_ok L J B (w_pending w) (w_actor w) (clear_disk J B (w_actor w) cl (w_fs w))"
    by (rule clear_disk_ok [OF J m Clear(2)])
  then show ?thesis using Clear(1) blobs_ok_pending by fastforce
next
  case (Unclaimed cutoff keys A)
  then show ?thesis using sweep_rows_ok [OF m] by (simp add: sweep_unclaimed_def)
next
  case (Stranded cutoff swept fs)
  note f = sweep_dir_content [OF _ Stranded(2) [unfolded sweep_uploads_def]]
  have ok: "fs_ok (w_fs w)" using m by (simp add: blobs_ok_def blobs_mid_def)
  have "blobs_ok L J B (w_pending w) (w_actor w) fs"
    by (rule content_less [OF m f(1) [OF ok]]) (use f(2) [OF ok] in \<open>auto simp: temp_path_def\<close>)
  then show ?thesis using Stranded(1) by simp
next
  case (Unheld_Files cutoff swept fs)
  note f = sweep_dir_content [OF _ Unheld_Files(2) [unfolded sweep_stored_def]]
  have ok: "fs_ok (w_fs w)" using m by (simp add: blobs_ok_def blobs_mid_def)
  have "blobs_ok L J B (w_pending w) (w_actor w) fs"
    by (rule content_less [OF m f(1) [OF ok]]) (use f(2) [OF ok] in \<open>auto simp: blob_cids_def map_of_eq_None_iff\<close>)
  then show ?thesis using Unheld_Files(1) by simp
qed

lemma blob_reachable_ok:
  assumes "cid_text_ok J" "blob_reachable L J B did w"
  shows "blobs_ok L J B (w_pending w) (w_actor w) (w_fs w) \<and> a_did (w_actor w) = did"
  using assms(2)
proof (induction rule: blob_reachable.induct)
  case (Fresh fs)
  then show ?case by (simp add: blobs_ok_def blobs_mid_def named_but_def actor_new_def blob_held_def)
next
  case (Step w w')
  then show ?case using blob_step_keeps [OF assms(1)] by auto
qed

end
