(* ===== verification/Actor_Props.thy ===== *)
theory Actor_Props
  imports Actor_Blobs
begin

text \<open>
  What an account's store promises about commits and blobs.
\<close>

section \<open>Commits\<close>

text \<open>What indexing one record touches.\<close>

lemma index_one_tables:
  assumes "index_one J B now rv K ix A fs lv = (Inr A', fs', lv')"
  shows "repo_block A' = repo_block A" "a_did A' = a_did A" "repo_root A' = repo_root A"
    and "case ix of
       IxPut n k c links named \<Rightarrow> \<exists>row. rr_cid row = cid_to_string J c \<and> record_rows A' = al_upd (uri (a_did A) n k) row (record_rows A)
     | IxDelete n k \<Rightarrow> record_rows A' = al_del (uri (a_did A) n k) (record_rows A)"
proof -
  have g: "let_go J sp cs A out = Inr (A', out') \<Longrightarrow> repo_block A' = repo_block A \<and> record_rows A' = record_rows A
      \<and> repo_root A' = repo_root A" for sp cs A out A' out'
    by (induction cs arbitrary: A out) (auto simp: drop_blob_def split: if_splits option.splits)
  have d: "dereference J at K A = Inr (A', out) \<Longrightarrow> repo_block A' = repo_block A \<and> record_rows A' = record_rows A
      \<and> repo_root A' = repo_root A \<and> a_did A' = a_did A" for at A A' out
    using dereference_did [of J at K A A' out] by (auto simp: dereference_def Let_def dest!: g)
  have c1: "claim J B now at b A fs lv = (Inr A', fs', lv') \<Longrightarrow> repo_block A' = repo_block A \<and> record_rows A' = record_rows A
      \<and> repo_root A' = repo_root A \<and> a_did A' = a_did A" for at b A fs lv A' fs' lv'
    by (auto simp: claim_def Let_def settle_claim_def split: option.splits if_splits prod.splits sum.splits)
  have c: "claims J B now at bs A fs lv = (Inr A', fs', lv') \<Longrightarrow> repo_block A' = repo_block A \<and> record_rows A' = record_rows A
      \<and> repo_root A' = repo_root A \<and> a_did A' = a_did A" for at bs A fs lv A' fs' lv'
    by (induction bs arbitrary: A fs lv) (auto split: sum.splits prod.splits dest!: c1)
  have "repo_block A' = repo_block A \<and> a_did A' = a_did A \<and> repo_root A' = repo_root A
    \<and> (case ix of
       IxPut n k c links named \<Rightarrow> \<exists>row. rr_cid row = cid_to_string J c \<and> record_rows A' = al_upd (uri (a_did A) n k) row (record_rows A)
     | IxDelete n k \<Rightarrow> record_rows A' = al_del (uri (a_did A) n k) (record_rows A))"
  proof (cases ix)
    case (IxPut n k cc links named)
    let ?at = "uri (a_did A) n k"
    obtain bl where bl: "fold (add_link ?at) links (unlink ?at A) = A\<lparr>backlinks := bl\<rparr>" using relink by blast
    obtain A1 out where A1: "dereference J ?at K (A\<lparr>backlinks := bl\<rparr>) = Inr (A1, out)"
      using assms IxPut bl by (auto simp: index_one_def Let_def split: sum.splits)
    obtain q f l where q: "claims J B now ?at named A1 fs (add_orphans out lv) = (q, f, l)" by (metis prod_cases3)
    then obtain A2 where A2: "q = Inr A2" "A' = put_record J now rv n k cc A2"
      using assms IxPut bl A1 by (auto simp: index_one_def Let_def split: sum.splits)
    define row where "row = (case map_of (record_rows A) ?at of
        None \<Rightarrow> \<lparr>rr_cid = cid_to_string J cc, rr_collection = nsid_str n, rr_rkey = record_key_str k, rr_rev = tid_str rv, rr_at = stamp J now\<rparr>
      | Some row \<Rightarrow> row\<lparr>rr_cid := cid_to_string J cc, rr_rev := tid_str rv, rr_at := stamp J now\<rparr>)"
    have "record_rows A' = al_upd ?at row (record_rows A)" "rr_cid row = cid_to_string J cc"
      using A2(2) d [OF A1] c [OF q [unfolded A2(1)]] by (simp_all add: put_record_def Let_def row_def split: option.split)
    then show ?thesis using IxPut A2(2) d [OF A1] c [OF q [unfolded A2(1)]] by (auto simp: put_record_def Let_def)
  next
    case (IxDelete n k)
    then show ?thesis using assms by (auto simp: index_one_def Let_def unlink_def split: sum.splits dest!: d)
  qed
  then show "repo_block A' = repo_block A" "a_did A' = a_did A" "repo_root A' = repo_root A"
    "case ix of
       IxPut n k c links named \<Rightarrow> \<exists>row. rr_cid row = cid_to_string J c \<and> record_rows A' = al_upd (uri (a_did A) n k) row (record_rows A)
     | IxDelete n k \<Rightarrow> record_rows A' = al_del (uri (a_did A) n k) (record_rows A)"
    by blast+
qed

lemma index_root:
  "index_loop J B now rv K ixs A fs lv = (Inr A', fs', lv') \<Longrightarrow> repo_root A' = repo_root A \<and> a_did A' = a_did A"
proof (induction ixs arbitrary: A fs lv)
  case (Cons ix ixs)
  obtain q f l where q: "index_one J B now rv K ix A fs lv = (q, f, l)" by (metis prod_cases3)
  then obtain A1 where A1: "q = Inr A1" "index_loop J B now rv K ixs A1 f l = (Inr A', fs', lv')"
    using Cons.prems by (auto split: sum.splits)
  show ?case using Cons.IH [OF A1(2)] index_one_tables(2,3) [OF q [unfolded A1(1)]] by simp
qed simp

text \<open>Nothing of a commit but its last statement touches the root.\<close>

lemma landing_tables:
  assumes "index_loop J B now rv K ixs (fold (insert_block J rv) blocks A) fs lv = (Inr A1, fs', l)"
    and "let_go J sp cs (fold (forget_block J) drops A1) out = Inr (A2, out')"
  shows "repo_root A2 = repo_root A \<and> a_did A2 = a_did A"
proof -
  obtain bs where bs: "fold (insert_block J rv) blocks A = A\<lparr>repo_block := bs\<rparr>" using fold_insert_block by blast
  obtain bs' where bs': "fold (forget_block J) drops A1 = A1\<lparr>repo_block := bs'\<rparr>" using fold_forget_block by blast
  have g: "let_go J sp cs A out = Inr (A', out') \<Longrightarrow> repo_root A' = repo_root A \<and> a_did A' = a_did A" for sp cs A out A' out'
    by (induction cs arbitrary: A out) (auto simp: drop_blob_def split: if_splits option.splits)
  show ?thesis using g [OF assms(2)] index_root [OF assms(1)] bs bs' by simp
qed

text \<open>How the tables relate to those of a database that landed: the root was the one the commit was
  built on, and now is the new one.\<close>

lemma landing_root:
  assumes "landing J B now from root blocks drops ixs A fs = (Inr (Some (A', cl)), fs', lv')"
  shows "map_of (repo_root A') (did_str (a_did A))
      = Some \<lparr>ro_cid = cid_to_string J (rt_cid root), ro_rev = tid_str (rt_rev root), ro_at = stamp J now\<rparr>"
    and "map_option ro_cid (map_of (repo_root A) (did_str (a_did A))) = map_option (\<lambda>r. cid_to_string J (rt_cid r)) from"
proof -
  obtain A1 l A2 out where
    s: "index_loop J B now (rt_rev root) (set (kept_blobs J ixs)) ixs (fold (insert_block J (rt_rev root)) blocks A) fs no_leaving = (Inr A1, fs', l)"
      "let_go J blob_held (kept_blobs J ixs) (fold (forget_block J) drops A1) [] = Inr (A2, out)"
      "move_root J now from root A2 = Inr (Some A')"
    by (rule landing_stages [OF assms])
  have "repo_root A2 = repo_root A" "a_did A2 = a_did A" using landing_tables [OF s(1,2)] by simp_all
  then show "map_of (repo_root A') (did_str (a_did A))
      = Some \<lparr>ro_cid = cid_to_string J (rt_cid root), ro_rev = tid_str (rt_rev root), ro_at = stamp J now\<rparr>"
    "map_option ro_cid (map_of (repo_root A) (did_str (a_did A))) = map_option (\<lambda>r. cid_to_string J (rt_cid r)) from"
    using s(3) by (auto simp: move_root_def Let_def split: option.splits if_splits)
qed

text \<open>C26: a commit lands whole or not at all. Landed, the root it was built on was the one there, and the
  new root is; otherwise, whatever went wrong and however far it got, the database is as it was and so
  is every file, the links made on the way taken back.\<close>

theorem commit_all_or_nothing:
  assumes "fs_ok fs" "actor_commit J B now from root blocks drops ixs A fs = (r, A', fs')"
  shows "(\<exists>cl. r = Inr (Some cl))
      \<and> map_option ro_cid (map_of (repo_root A) (did_str (a_did A))) = map_option (\<lambda>x. cid_to_string J (rt_cid x)) from
      \<and> map_option ro_cid (map_of (repo_root A') (did_str (a_did A))) = Some (cid_to_string J (rt_cid root))
    \<or> (\<forall>cl. r \<noteq> Inr (Some cl)) \<and> A' = A \<and> content fs' = content fs"
proof (rule commit_cases [OF assms])
  fix cl lv assume c: "r = Inr (Some cl)" "landing J B now from root blocks drops ixs A fs = (Inr (Some (A', cl)), fs', lv)"
  show ?thesis using c(1) landing_root [OF c(2)] by simp
qed simp


section \<open>Blobs\<close>

text \<open>C27: in every state the operations on an account's blobs can reach, in any order and with commits
  that land or fail anywhere between, a blob a record names is on disk under its CID, its bytes hash
  to that CID, and the record is in the index.\<close>

theorem named_blobs_on_disk:
  assumes "cid_text_ok J" "blob_reachable L J B did w" "(c, u) \<in> set (record_blob (w_actor w))"
  shows "\<exists>x b. c = cid_to_string J x \<and> blob_get J B did x (w_fs w) = Inr b \<and> blob_cid_for L b = x
    \<and> map_of (record_rows (w_actor w)) u \<noteq> None"
proof -
  have m: "blobs_mid L J B {} (w_pending w) (w_actor w) (w_fs w)" "named_but {} (w_actor w)" "a_did (w_actor w) = did"
    using blob_reachable_ok [OF assms(1,2)] by (simp_all add: blobs_ok_def)
  have "blob_held (w_actor w) c" using assms(3) by (auto simp: blob_held_iff)
  then obtain row where row: "map_of (blob_rows (w_actor w)) c = Some row" "bl_temp row = None"
    using blobs_midD(8) [OF m(1)] by blast
  then obtain x b where x: "c = cid_to_string J x" "content (w_fs w) (blob_path J B did x) = Some b"
    using blobs_midD(5) [OF m(1) row(1)] m(3) by (auto simp: blob_at_def)
  moreover have "blob_cid_for L b = x" using blobs_midD(4) [OF m(1)] x(2) m(3) by (simp add: stored_ok_def)
  moreover have "map_of (record_rows (w_actor w)) u \<noteq> None" using m(2) assms(3) by (fastforce simp: named_but_def)
  ultimately show ?thesis by (auto simp: blob_get_def content_def)
qed

text \<open>a sweep of the files blobs are served from takes exactly the ones that are old enough and that
  no row of the database holds; every other file, under whatever name, stays.\<close>

theorem sweep_stored_exact:
  assumes "fs_ok fs" "sweep_stored B did (blob_cids A) cutoff fs = (swept, fs')"
  shows "fs_file fs' p =
    (if \<exists>n. p = stored_dir B did @ [n] \<and> map_of (blob_rows A) n = None
          \<and> (case fs_file fs p of None \<Rightarrow> False | Some i \<Rightarrow> i_mtime i < cutoff)
     then None else fs_file fs p)"
  using sweep_dir_ok [OF assms(1), of "stored_dir B did" "blob_cids A" cutoff] assms(2)
  by (auto simp: sweep_stored_def stale_in_def blob_cids_def map_of_eq_None_iff)


section \<open>Examples\<close>

text \<open>CIDs are strings here, their own text, and the hash is the identity.\<close>

definition toy_blob_lib :: "string lib" where
  "toy_blob_lib = \<lparr>sha256 = (\<lambda>b. b), new_v1 = (\<lambda>codec code d. d)\<rparr>"

definition toy_actor_lib :: "string actor_lib" where
  "toy_actor_lib = \<lparr>base64_encode = (\<lambda>b. b), base64_decode = Some, cid_to_string = (\<lambda>c. c), cid_parse = Some,
     stamp = (\<lambda>t. replicate t CHR ''x'')\<rparr>"

definition toy_did :: did where "toy_did = Did ''did:plc:a''"

definition empty_fs :: fs where
  "empty_fs = \<lparr>names = [], inodes = (\<lambda>_. \<lparr>i_bytes = [], i_mtime = 0\<rparr>), fresh_ino = 0\<rparr>"

definition toy_upload :: "(string store_error + string blob) \<times> actor \<times> fs" where
  "toy_upload = upload_blob toy_blob_lib toy_actor_lib [] 5 [] ''k'' ''a/b'' ''pic'' (actor_new toy_did) empty_fs"

definition toy_put :: "string indexed" where
  "toy_put = IxPut (Nsid ''n'') (RecordKey ''r'') ''rec'' [] [\<lparr>b_cid = ''pic'', b_mime = ''a/b'', b_size = 3\<rparr>]"

definition toy_commit_blob :: "(string store_error + string committed option) \<times> actor \<times> fs" where
  "toy_commit_blob = actor_commit toy_actor_lib [] 6 None \<lparr>rt_cid = ''c'', rt_rev = Tid ''t''\<rparr> [] [] [toy_put]
     (fst (snd toy_upload)) (snd (snd toy_upload))"

lemma toy_text: "cid_text_ok toy_actor_lib"
  by (simp add: cid_text_ok_def toy_actor_lib_def)

lemma empty_fs_ok: "fs_ok empty_fs" "stored_ok toy_blob_lib toy_actor_lib [] toy_did empty_fs"
  by (simp_all add: fs_ok_def empty_fs_def stored_ok_def content_def fs_file_def)

definition toy_world :: world where
  "toy_world = \<lparr>w_actor = fst (snd toy_commit_blob), w_fs = snd (snd toy_commit_blob), w_pending = {''k''}\<rparr>"

lemma toy_committed:
  "fst toy_commit_blob = Inr (Some \<lparr>orphaned = [], taken = [''k'']\<rparr>)"
  "record_blob (fst (snd toy_commit_blob)) = [(''pic'', ''at://did:plc:a/n/r'')]"
  by code_simp+

lemma toy_world_reachable: "blob_reachable toy_blob_lib toy_actor_lib [] toy_did toy_world"
proof -
  let ?w0 = "\<lparr>w_actor = actor_new toy_did, w_fs = empty_fs, w_pending = {}\<rparr>"
  let ?w1 = "?w0\<lparr>w_actor := fst (snd toy_upload), w_fs := snd (snd toy_upload)\<rparr>"
  have r0: "blob_reachable toy_blob_lib toy_actor_lib [] toy_did ?w0" by (rule Fresh [OF empty_fs_ok])
  have s1: "blob_step toy_blob_lib toy_actor_lib [] ?w0 ?w1"
    by (rule Upload [where key = "''k''" and scratch = "[]" and now = 5 and mime = "''a/b''" and b = "''pic''" and r = "fst toy_upload"])
      (simp_all add: upload_keys_def actor_new_def content_def fs_file_def empty_fs_def toy_upload_def [unfolded actor_new_def empty_fs_def] List.map_filter_def)
  have "blob_step toy_blob_lib toy_actor_lib [] ?w1 (?w1\<lparr>w_actor := fst (snd toy_commit_blob), w_fs := snd (snd toy_commit_blob),
      w_pending := w_pending ?w1 \<union> {''k''}\<rparr>)"
    by (rule Commit [where now = 6 and base = None and root = "\<lparr>rt_cid = ''c'', rt_rev = Tid ''t''\<rparr>" and blocks = "[]" and drops = "[]"
          and ixs = "[toy_put]" and r = "fst toy_commit_blob"])
      (simp_all add: toy_committed(1), simp add: toy_commit_blob_def [symmetric] toy_committed(1) [symmetric])
  then have "blob_step toy_blob_lib toy_actor_lib [] ?w1 toy_world" by (simp add: toy_world_def)
  then show ?thesis by (rule Step [OF Step [OF r0 s1]])
qed

theorem named_blobs_on_disk_witness:
  "\<exists>b. blob_get toy_actor_lib [] toy_did ''pic'' (w_fs toy_world) = Inr b \<and> blob_cid_for toy_blob_lib b = ''pic''"
  using named_blobs_on_disk [OF toy_text toy_world_reachable, of "''pic''" "''at://did:plc:a/n/r''"] toy_committed(2)
  by (auto simp: toy_world_def toy_actor_lib_def)

text \<open>A second first commit breaks the constraint on the table of roots.\<close>

lemma toy_refused: "fst (actor_commit toy_actor_lib [] 6 None \<lparr>rt_cid = ''d'', rt_rev = Tid ''u''\<rparr> [] [] []
    (w_actor toy_world) empty_fs) = Inl (Sqlite ''UNIQUE constraint failed: repo_root.did'')"
  by code_simp

theorem commit_all_or_nothing_witness:
  "fst (snd (actor_commit toy_actor_lib [] 6 None \<lparr>rt_cid = ''d'', rt_rev = Tid ''u''\<rparr> [] [] [] (w_actor toy_world) empty_fs))
     = w_actor toy_world"
proof -
  obtain r A fs where c: "actor_commit toy_actor_lib [] 6 None \<lparr>rt_cid = ''d'', rt_rev = Tid ''u''\<rparr> [] [] [] (w_actor toy_world) empty_fs = (r, A, fs)"
    by (metis prod_cases3)
  then show ?thesis using commit_all_or_nothing [OF empty_fs_ok(1) c] toy_refused by auto
qed

theorem sweep_stored_exact_witness:
  "fs_file (snd (sweep_stored [] toy_did (blob_cids (actor_new toy_did)) 9 (fs_write 5 [''did:plc:a'', ''x''] ''y'' empty_fs))) [''did:plc:a'', ''x'']
     = None"
proof -
  let ?fs = "fs_write 5 [''did:plc:a'', ''x''] ''y'' empty_fs"
  have ok: "fs_ok ?fs" by (simp add: fs_write_def empty_fs_def fs_ok_def)
  obtain sw fs where s: "sweep_stored [] toy_did (blob_cids (actor_new toy_did)) 9 ?fs = (sw, fs)" by fastforce
  have "fs_file ?fs [''did:plc:a'', ''x''] = Some \<lparr>i_bytes = ''y'', i_mtime = 5\<rparr>"
    by (simp add: fs_write_def empty_fs_def fs_file_def)
  then show ?thesis
    using sweep_stored_exact [OF ok s, of "[''did:plc:a'', ''x'']"] s by (simp add: actor_new_def stored_dir_def toy_did_def)
qed

end
