(* ===== verification/Actor_Repo.thy ===== *)
theory Actor_Repo
  imports Repo_Props Actor_Props
begin

text \<open>
  A repository in an account's database: the blocks stored are exactly the commit, the nodes of its
  tree and the records it holds, and the index names the same records as the tree. A commit that
  \<open>Repo::apply\<close> made keeps it so.
\<close>

interpretation acto: ordered_store "actor_store J A" "actor_blocks J A" for J :: "('c::linorder, 'j) json_lib_scheme" and A
  by unfold_locales


section \<open>A repository at rest\<close>

definition at_key :: "did \<Rightarrow> string \<Rightarrow> string" where
  "at_key did k = ''at://'' @ did_str did @ ''/'' @ k"

definition index_ok :: "('c::linorder, 'j) json_lib_scheme \<Rightarrow> actor \<Rightarrow> (string \<times> 'c) list \<Rightarrow> bool" where
  "index_ok J A ps \<longleftrightarrow>
     ascending (record_rows A)
     \<and> (\<forall>k. map_option rr_cid (map_of (record_rows A) (at_key (a_did A) k)) = map_option (cid_to_string J) (map_of ps k))
     \<and> (\<forall>u. map_of (record_rows A) u \<noteq> None \<longrightarrow> (\<exists>k. u = at_key (a_did A) k))"

definition root_at :: "('c, 'j) json_lib_scheme \<Rightarrow> actor \<Rightarrow> 'c repo \<Rightarrow> bool" where
  "root_at J A r \<longleftrightarrow>
     (\<exists>row. map_of (repo_root A) (did_str (a_did A)) = Some row
        \<and> ro_cid row = cid_to_string J (r_cid r) \<and> ro_rev row = tid_str (c_rev (r_commit r)))"

definition tree_ok :: "('c::linorder, 'l) repo_lib_scheme \<Rightarrow> 'c tree \<Rightarrow> bool" where
  "tree_ok L s \<longleftrightarrow> (\<exists>n \<le> 128. tree_wf L n s) \<and> keys_sorted (tleaves s) \<and> recs_apart L (records_of s)"

definition blocks_exact ::
    "('c::linorder, 'l) repo_lib_scheme \<Rightarrow> ('c \<Rightarrow> bytes option) \<Rightarrow> 'c repo \<Rightarrow> 'c tree \<Rightarrow> bool" where
  "blocks_exact L M r s \<longleftrightarrow>
     addressed L M \<and> dom M = insert (r_cid r) (set (flat L s))
     \<and> repo_at L r \<and> c_data (r_commit r) = tcid L s \<and> tree_ok L s"

definition holds_repo ::
    "('c::linorder, 'l) repo_lib_scheme \<Rightarrow> ('c, 'j) json_lib_scheme \<Rightarrow> actor \<Rightarrow> 'c repo \<Rightarrow> 'c tree \<Rightarrow> bool" where
  "holds_repo L J A r s \<longleftrightarrow>
     ascending (repo_block A) \<and> root_at J A r \<and> blocks_exact L (actor_blocks J A) r s \<and> index_ok J A (records_of s)"

lemma blocks_exactD:
  assumes "blocks_exact L M r s"
  shows "addressed L M" "dom M = insert (r_cid r) (set (flat L s))" "repo_at L r" "c_data (r_commit r) = tcid L s" "tree_ok L s"
  using assms unfolding blocks_exact_def by blast+

text \<open>Such a store is sound, and its tree can be read from its root.\<close>

lemma exact_sound:
  assumes L: "repo_lib_ok L" and e: "blocks_exact L M r s"
  shows "sound_store L M" "held_tree L M (mst_load (tcid L s)) s"
proof -
  note ok = repo_lib_okD(1,3) [OF L] and d = blocks_exactD [OF e]
  obtain n where s: "tree_wf L n s" "keys_sorted (tleaves s)" "n \<le> 128" "recs_apart L (records_of s)"
    using d(5) unfolding tree_ok_def by (elim exE conjE) (rule that)
  obtain b where b: "commit_to_vec L (r_commit r) = Inr b" "r_cid r = cid_for L b" using d(3) unfolding repo_at_def by blast
  have st: "stored L M v" if v: "tree_wf L m v" "M (tcid L v) \<noteq> None" for m v
  proof -
    have "tcid L v \<in> set (tcids L v)" by (cases v) simp
    then have "tcid L v \<noteq> r_cid r" "\<not> apart L (tcid L v)"
      using commit_no_node(1) [OF L b(1)] b(2) node_not_apart(1) [of "tcid L v" L v] by metis+
    moreover have "apart L c" if "c \<in> lvalue ` set (tleaves s)" for c using that s(4) by (auto simp: kv_def)
    ultimately have "tcid L v \<in> set (tcids L s)" using v(2) d(2) by (auto simp: set_flat dom_def)
    then obtain w k where w: "tcid L v = tcid L w" "tree_wf L k w" "set (tcids L w) \<subseteq> set (tcids L s)"
      using tcids_subtree(1) [OF _ s(1)] by blast
    then have "v = w" using tcid_inj(1) [OF ok v(1)] by blast
    then show ?thesis using w(3) d(2) stored_iff_dom(1) [OF ok(2) d(1)] by (auto simp: set_flat)
  qed
  then show "sound_store L M" using d(1) by (auto simp: sound_store_def closed_store_def)
  have "tcid L s \<in> set (flat L s)" by (cases s) (simp add: set_flat)
  then have "stored L M s" using st [OF s(1)] d(2) by blast
  then show "held_tree L M (mst_load (tcid L s)) s" by (rule held_stored [OF _ s(1-3)])
qed

text \<open>The root names everything else.\<close>

lemma exact_unique:
  assumes L: "repo_lib_ok L" and e: "blocks_exact L M r s" "blocks_exact L M' r' s'" and c: "r_cid r = r_cid r'"
  shows "s = s'" "M = M'" "r_commit r = r_commit r'"
proof -
  note ok = repo_lib_okD(1,3) [OF L] and d = blocks_exactD [OF e(1)] and d' = blocks_exactD [OF e(2)]
  obtain b b' where b: "commit_to_vec L (r_commit r) = Inr b" "r_cid r = cid_for L b"
      "commit_to_vec L (r_commit r') = Inr b'" "r_cid r' = cid_for L b'"
    using d(3) d'(3) unfolding repo_at_def by blast
  then have "b = b'" using c ok(2) unfolding no_collision_def by metis
  then show k: "r_commit r = r_commit r'"
    using b repo_lib_okD(5) [OF L, of "r_commit r"] repo_lib_okD(5) [OF L, of "r_commit r'"] by auto
  obtain m n where "tree_wf L m s" "tree_wf L n s'" using d(5) d'(5) unfolding tree_ok_def by (elim exE conjE) (rule that)
  then show s: "s = s'" using tcid_inj(1) [OF ok] d(4) d'(4) k by metis
  show "M = M'" by (rule addressed_eq [OF ok(2) d(1) d'(1)]) (use d(2) d'(2) c s in simp)
qed


section \<open>What a revision makes of the blocks\<close>

text \<open>Everything written is added, and what is dropped goes unless the index spares it.\<close>

lemma revision_exact:
  assumes L: "repo_lib_ok L" and e: "blocks_exact L M r s" and v: "revision L C M r key rv s u blocks drops r'"
    and M': "\<And>c. M' c = (if c \<in> set drops \<and> c \<notin> snd ` set (records_of u) then None else (map_of blocks ++ M) c)"
  shows "blocks_exact L M' r' u"
proof -
  note d = blocks_exactD [OF e] and so = exact_sound(1) [OF L e]
  have aps: "recs_apart L (records_of s)" using d(5) by (simp add: tree_ok_def)
  note pt = revision_apart [OF L so v d(3) aps]
  obtain R b where b: "map_of blocks = (R ++ map_of (ublocks L M u))(r_cid r' \<mapsto> b)"
      "new_records L (records_of s) (records_of u) R" "c_data (r_commit r') = tcid L u"
      "commit_to_vec L (r_commit r') = Inr b" "r_cid r' = cid_for L b" "held_tree L M (r_data r') u"
    using v unfolding revision_def by auto
  have u: "(\<exists>n \<le> 128. tree_wf L n u) \<and> keys_sorted (tleaves u)" by (rule held_tree_shape [OF b(6)]) auto
  have bl: "addressed L (map_of blocks)"
    using b(1,5) new_records_addressed [OF b(2)] ublocks_sound(1) [of L M u] by (auto simp: addressed_def map_add_Some_iff)
  have "dom M' = {c \<in> dom M \<union> dom (map_of blocks). c \<notin> set drops \<or> c \<in> snd ` set (records_of u)}"
  proof (intro set_eqI, unfold mem_Collect_eq domIff M')
    fix c
    have "(map_of blocks ++ M) c \<noteq> None \<longleftrightarrow> c \<in> dom M \<union> dom (map_of blocks)" by (auto simp: map_add_def split: option.splits)
    then show "((if c \<in> set drops \<and> c \<notin> snd ` set (records_of u) then None else (map_of blocks ++ M) c) \<noteq> None) \<longleftrightarrow>
        c \<in> dom M \<union> dom (map_of blocks) \<and> (c \<notin> set drops \<or> c \<in> snd ` set (records_of u))" by presburger
  qed
  then have "dom M' = insert (r_cid r') (set (flat L u))" unfolding revision_kept [OF L so v d(3) aps d(2)] .
  moreover have "addressed L M'"
    using addressed_add [OF bl d(1)] unfolding addressed_def M' by (auto split: if_splits)
  ultimately show ?thesis
    using b(3,4,5) u pt(1) unfolding blocks_exact_def repo_at_def tree_ok_def by blast
qed


section \<open>What a commit makes of the tables\<close>

lemma actor_blocks_insert: "actor_blocks J (fold (insert_block J rv) bs A) = map_of bs ++ actor_blocks J A"
  if "cid_text_ok J"
proof (induction bs arbitrary: A)
  case (Cons p bs)
  have "actor_blocks J (insert_block J rv p A) = [fst p \<mapsto> snd p] ++ actor_blocks J A"
    by (auto simp: insert_block_def actor_blocks_def Let_def fun_eq_iff map_add_def cid_text_inj [OF that] split: option.splits)
  then show ?case using Cons.IH [of "insert_block J rv p A"] by (simp add: fun_eq_iff map_add_def split: option.splits)
qed (simp add: fun_eq_iff map_add_def split: option.splits)

lemma ascending_insert_block: "ascending (repo_block A) \<Longrightarrow> ascending (repo_block (fold (insert_block J rv) bs A))"
  by (induction bs arbitrary: A) (auto simp: insert_block_def Let_def ascending_al_upd)

lemma forget_blocks:
  assumes "cid_text_ok J" "ascending (repo_block A)"
  shows "ascending (repo_block (fold (forget_block J) cs A)) \<and>
    actor_blocks J (fold (forget_block J) cs A) c =
      (if c \<in> set cs \<and> \<not> list_ex (\<lambda>(u, row). rr_cid row = cid_to_string J c) (record_rows A) then None else actor_blocks J A c)"
  using assms(2)
proof (induction cs arbitrary: A)
  case (Cons d cs)
  let ?A = "forget_block J d A"
  have "ascending (repo_block ?A)" "record_rows ?A = record_rows A"
    using Cons.prems by (simp_all add: forget_block_def ascending_al_del)
  moreover have "actor_blocks J ?A c =
      (if c = d \<and> \<not> list_ex (\<lambda>(u, row). rr_cid row = cid_to_string J c) (record_rows A) then None else actor_blocks J A c)"
    using Cons.prems by (auto simp: forget_block_def actor_blocks_def map_of_al_del cid_text_inj [OF assms(1)])
  ultimately show ?case using Cons.IH [of ?A] by auto
qed simp

lemma at_key_inj [simp]: "at_key did k = at_key did k' \<longleftrightarrow> k = k'"
  by (simp add: at_key_def)

lemma uri_at_key: "uri did (fst (write_target w)) (snd (write_target w)) = at_key did (write_key w)"
  by (cases "write_target w") (simp add: uri_def uri_prefix_def at_key_def write_key_def)

text \<open>The entry of the index a write asks for.\<close>

definition ix_for :: "('c, 'l) repo_lib_scheme \<Rightarrow> 'c repo_write \<Rightarrow> 'c indexed \<Rightarrow> bool" where
  "ix_for L w ix \<longleftrightarrow>
     (case ix of
        IxPut n k c links named \<Rightarrow> write_target w = (n, k)
          \<and> (case write_record w of None \<Rightarrow> False | Some r \<Rightarrow> (case ipld_to_vec L r of Inl _ \<Rightarrow> False | Inr b \<Rightarrow> c = cid_for L b))
      | IxDelete n k \<Rightarrow> write_target w = (n, k) \<and> write_record w = None)"

lemma index_one_ok:
  assumes i: "index_ok J A ps" "ascending ps" and w: "ix_for L w ix" "write_spec L w ps = Inr qs"
    and g: "index_one J B now rv K ix A fs lv = (Inr A', fs', lv')"
  shows "index_ok J A' qs \<and> ascending qs"
proof -
  note tb = index_one_tables [OF g]
  let ?at = "at_key (a_did A) (write_key w)"
  show ?thesis
  proof (cases ix)
    case (IxPut n k c links named)
    then obtain r b where r: "write_record w = Some r" "ipld_to_vec L r = Inr b" "c = cid_for L b" "write_target w = (n, k)"
      using w(1) by (auto simp: ix_for_def split: option.splits sum.splits)
    have q: "qs = al_upd (write_key w) c ps"
      using w(2) r by (cases w) (auto simp: write_spec_def encode_def Let_def result_simps split: if_splits)
    obtain row where "rr_cid row = cid_to_string J c" "record_rows A' = al_upd ?at row (record_rows A)"
      using tb(4) IxPut r(4) uri_at_key [of "a_did A" w] by auto
    then show ?thesis using i q tb(2) unfolding index_ok_def by (auto simp: ascending_al_upd)
  next
    case (IxDelete n k)
    then have r: "write_record w = None" "write_target w = (n, k)" using w(1) by (auto simp: ix_for_def)
    have q: "qs = al_del (write_key w) ps"
      using w(2) r by (cases w) (auto simp: write_spec_def Let_def split: if_splits)
    have "record_rows A' = al_del ?at (record_rows A)" using tb(4) IxDelete r(2) uri_at_key [of "a_did A" w] by simp
    then show ?thesis using i q tb(2) unfolding index_ok_def by (auto simp: ascending_al_del map_of_al_del)
  qed
qed

lemma index_loop_ok:
  "index_ok J A ps \<Longrightarrow> ascending ps \<Longrightarrow> list_all2 (ix_for L) ws ixs \<Longrightarrow> writes_spec L ws ps = Inr qs \<Longrightarrow>
   index_loop J B now rv K ixs A fs lv = (Inr A', fs', lv') \<Longrightarrow>
   index_ok J A' qs \<and> ascending qs \<and> repo_block A' = repo_block A \<and> a_did A' = a_did A \<and> repo_root A' = repo_root A"
proof (induction ixs arbitrary: A fs lv ws ps)
  case (Cons ix ixs)
  then obtain w ws' where ws: "ws = w # ws'" "ix_for L w ix" "list_all2 (ix_for L) ws' ixs" by (auto simp: list_all2_Cons2)
  then obtain ps' where ps: "write_spec L w ps = Inr ps'" "writes_spec L ws' ps' = Inr qs"
    using Cons.prems(4) by (auto simp: result_simps)
  obtain q f l where q: "index_one J B now rv K ix A fs lv = (q, f, l)" by (metis prod_cases3)
  then obtain A1 where A1: "q = Inr A1" "index_loop J B now rv K ixs A1 f l = (Inr A', fs', lv')"
    using Cons.prems(5) by (auto split: sum.splits)
  note g = q [unfolded A1(1)]
  show ?case
    using Cons.IH [OF _ _ ws(3) ps(2) A1(2)] index_one_ok [OF Cons.prems(1,2) ws(2) ps(1) g] index_one_tables(1-3) [OF g] by simp
qed simp

lemma in_index:
  assumes "cid_text_ok J" "index_ok J A ps" "ascending ps"
  shows "list_ex (\<lambda>(u, row). rr_cid row = cid_to_string J c) (record_rows A) \<longleftrightarrow> c \<in> snd ` set ps"
proof
  assume "list_ex (\<lambda>(u, row). rr_cid row = cid_to_string J c) (record_rows A)"
  then obtain u row where u: "(u, row) \<in> set (record_rows A)" "rr_cid row = cid_to_string J c" by (auto simp: list_ex_iff)
  have m: "map_of (record_rows A) u = Some row"
    using u(1) assms(2) in_ascending [of "record_rows A" u row] by (simp add: index_ok_def)
  then obtain k where "u = at_key (a_did A) k" using assms(2) unfolding index_ok_def by blast
  then have "map_option (cid_to_string J) (map_of ps k) = Some (cid_to_string J c)"
    using assms(2) m u(2) unfolding index_ok_def by (metis option.simps(9))
  then have "map_of ps k = Some c" using cid_text_inj [OF assms(1)] by auto
  then show "c \<in> snd ` set ps" by (force dest: map_of_SomeD)
next
  assume "c \<in> snd ` set ps"
  then obtain k where "map_of ps k = Some c" using in_ascending [OF assms(3)] by force
  then have "map_option rr_cid (map_of (record_rows A) (at_key (a_did A) k)) = Some (cid_to_string J c)"
    using assms(2) unfolding index_ok_def by simp
  then show "list_ex (\<lambda>(u, row). rr_cid row = cid_to_string J c) (record_rows A)"
    by (force simp: list_ex_iff dest: map_of_SomeD)
qed

lemma landing_holds:
  assumes L: "repo_lib_ok L" and J: "cid_text_ok J" and h: "holds_repo L J A r s"
    and v: "revision L C (actor_blocks J A) r key rv s u blocks drops r'"
    and w: "list_all2 (ix_for L) ws ixs" "writes_spec L ws (records_of s) = Inr (records_of u)"
    and g: "landing J B now base \<lparr>rt_cid = r_cid r', rt_rev = c_rev (r_commit r')\<rparr> blocks drops ixs A fs = (Inr (Some (A', cl)), fs', lv')"
  shows "holds_repo L J A' r' u \<and> a_did A' = a_did A"
proof -
  let ?root = "\<lparr>rt_cid = r_cid r', rt_rev = c_rev (r_commit r')\<rparr>"
  let ?A0 = "fold (insert_block J (rt_rev ?root)) blocks A"
  obtain A1 l A2 out where
    st: "index_loop J B now (rt_rev ?root) (set (kept_blobs J ixs)) ixs ?A0 fs no_leaving = (Inr A1, fs', l)"
      "let_go J blob_held (kept_blobs J ixs) (fold (forget_block J) drops A1) [] = Inr (A2, out)"
      "move_root J now base ?root A2 = Inr (Some A')"
    by (rule landing_stages [OF g])
  obtain bs where bs: "?A0 = A\<lparr>repo_block := bs\<rparr>" using fold_insert_block by blast
  obtain bs' where bs': "fold (forget_block J) drops A1 = A1\<lparr>repo_block := bs'\<rparr>" using fold_forget_block by blast
  have lg: "let_go J sp cs A out = Inr (A', out') \<Longrightarrow> \<exists>rows. A' = A\<lparr>blob_rows := rows\<rparr>" for sp cs A out A' out'
  proof (induction cs arbitrary: A out)
    case Nil
    then show ?case by (intro exI [of _ "blob_rows A"]) simp
  next
    case (Cons c cs)
    then show ?case by (fastforce simp: drop_blob_def split: if_splits option.splits)
  qed
  obtain rows where A2: "A2 = A1\<lparr>repo_block := bs'\<rparr>\<lparr>blob_rows := rows\<rparr>" using lg [OF st(2)] bs' by auto
  obtain rs where A': "A' = A2\<lparr>repo_root := rs\<rparr>" using move_root_Some [OF st(3)] by blast
  have ap: "ascending (records_of s)"
    using h unfolding holds_repo_def blocks_exact_def tree_ok_def using ascending_kv by blast
  have i0: "index_ok J ?A0 (records_of s)" using h bs by (simp add: holds_repo_def index_ok_def)
  have i: "index_ok J A1 (records_of u)" "ascending (records_of u)" "repo_block A1 = repo_block ?A0" "a_did A1 = a_did A"
    using index_loop_ok [OF i0 ap w st(1)] bs by simp_all
  have "ascending (repo_block A1)" using h i(3) ascending_insert_block [of A J "rt_rev ?root" blocks] by (simp add: holds_repo_def)
  note fg = forget_blocks [OF J this, of drops]
  have "actor_blocks J A1 = map_of blocks ++ actor_blocks J A"
    using actor_blocks_insert [OF J, of _ blocks A] i(3) by (simp add: actor_blocks_def fun_eq_iff)
  moreover have ab: "actor_blocks J A' = actor_blocks J (fold (forget_block J) drops A1)"
    using A2 A' bs' by (simp add: actor_blocks_def fun_eq_iff)
  ultimately have M': "actor_blocks J A' c = (if c \<in> set drops \<and> c \<notin> snd ` set (records_of u) then None
      else (map_of blocks ++ actor_blocks J A) c)" for c
    using fg [of c] in_index [OF J i(1,2)] by simp
  have "blocks_exact L (actor_blocks J A') r' u"
    by (rule revision_exact [OF L _ v M']) (use h in \<open>simp add: holds_repo_def\<close>)
  moreover have "index_ok J A' (records_of u)" using i(1) A2 A' by (simp add: index_ok_def)
  moreover have "ascending (repo_block A')" using fg bs' A2 A' by simp
  moreover have "root_at J A' r'" using landing_root(1) [OF g] i(4) A2 A' by (simp add: root_at_def)
  ultimately show ?thesis using i(4) A2 A' by (simp add: holds_repo_def)
qed


section \<open>Apply, then commit\<close>

lemma blocks_exact_cong: "r_cid r = r_cid r' \<Longrightarrow> r_commit r = r_commit r' \<Longrightarrow> blocks_exact L M r s = blocks_exact L M r' s"
  by (simp add: blocks_exact_def repo_at_def)

text \<open>The writes were worked out on the database as it was at \<open>A0\<close>, and others may have written to it
  since: it is at \<open>A\<close> when the commit is made.\<close>

lemma apply_then_commit:
  assumes L: "repo_lib_ok L" and J: "cid_text_ok J"
    and h0: "holds_repo L J A0 r0 s0" and r: "r_cid r = r_cid r0" "r_commit r = r_commit r0" "held_tree L (actor_blocks J A0) (r_data r) s0"
    and h: "holds_repo L J A r1 s1" and w: "list_all2 (ix_for L) ws ixs"
    and a: "repo_apply L C (actor_store J A0) r ws key since clk = Some (Inr (blocks, drops, r'), clk')"
    and base: "rt_cid base = r_cid r"
    and g: "landing J B now (Some base) \<lparr>rt_cid = r_cid r', rt_rev = c_rev (r_commit r')\<rparr> blocks drops ixs A fs = (Inr (Some (A', cl)), fs', lv')"
  shows "s1 = s0 \<and> a_did A' = a_did A \<and> (\<exists>u. apply_spec L ws (records_of s0) = Inr (records_of u) \<and> holds_repo L J A' r' u)"
proof -
  note ok = repo_lib_okD(2) [OF L]
  have x0: "blocks_exact L (actor_blocks J A0) r s0"
    using h0 blocks_exact_cong [OF r(1,2), of L "actor_blocks J A0" s0] by (simp add: holds_repo_def)
  have x1: "blocks_exact L (actor_blocks J A) r1 s1" using h by (simp add: holds_repo_def)
  obtain row where "map_of (repo_root A) (did_str (a_did A)) = Some row" "ro_cid row = cid_to_string J (r_cid r1)"
    using h unfolding holds_repo_def root_at_def by blast
  then have c: "r_cid r = r_cid r1" using landing_root(2) [OF g] base cid_text_inj [OF J] by simp
  note eq = exact_unique [OF L x0 x1 c]
  have h': "holds_repo L J A r s0"
    using h eq c x0 unfolding holds_repo_def root_at_def by simp
  have ap: "recs_apart L (records_of s0)" using x0 unfolding blocks_exact_def tree_ok_def by blast
  obtain qs rv where qs: "apply_spec L ws (records_of s0) = Inr qs" "mint_after since (c_rev (r_commit r)) clk = (Some rv, clk')"
    using repo_apply_InrD [OF a] acto.prepare_refused [OF L r(3)] by (cases "apply_spec L ws (records_of s0)") auto
  obtain u where s: "records_of u = qs" "revision L C (actor_blocks J A0) r key rv s0 u blocks drops r'"
    by (rule acto.repo_apply_ok [OF L r(3) qs(1) ap qs(2), of C key]) (use a in auto)
  then have v: "revision L C (actor_blocks J A) r key rv s0 u blocks drops r'" using eq(2) by simp
  have ws: "writes_spec L ws (records_of s0) = Inr (records_of u)" using qs(1) s(1) by (simp add: apply_spec_def split: if_splits)
  show ?thesis using landing_holds [OF L J h' v w ws g] eq(1) qs(1) s(1) by auto
qed

section \<open>The first commit\<close>

lemma first_landing:
  assumes J: "cid_text_ok J"
  shows "\<exists>A. actor_commit J B now None root blocks [] [] (actor_new did) fs = (Inr (Some \<lparr>orphaned = [], taken = []\<rparr>), A, fs)
    \<and> a_did A = did \<and> ascending (repo_block A) \<and> actor_blocks J A = map_of blocks \<and> record_rows A = []
    \<and> map_of (repo_root A) (did_str did) = Some \<lparr>ro_cid = cid_to_string J (rt_cid root), ro_rev = tid_str (rt_rev root), ro_at = stamp J now\<rparr>"
proof -
  obtain bs where bs: "fold (insert_block J (rt_rev root)) blocks (actor_new did) = (actor_new did)\<lparr>repo_block := bs\<rparr>"
    using fold_insert_block by blast
  have "ascending bs" using ascending_insert_block [of "actor_new did" J "rt_rev root" blocks] bs by (simp add: actor_new_def)
  moreover have "actor_blocks J ((actor_new did)\<lparr>repo_block := bs\<rparr>) = map_of blocks"
    using actor_blocks_insert [OF J, of "rt_rev root" blocks "actor_new did"] bs
    by (simp add: actor_new_def actor_blocks_def fun_eq_iff map_add_def split: option.splits)
  moreover have "a_did (actor_new did) = did" "repo_root (actor_new did) = []" "record_rows (actor_new did) = []"
    by (simp_all add: actor_new_def)
  ultimately show ?thesis
    by (simp add: actor_commit_def landing_def Let_def bs kept_blobs_def move_root_def add_orphans_def)
      (simp add: actor_blocks_def fun_eq_iff)
qed

text \<open>An account's database starts out holding its new repository.\<close>

lemma first_commit_holds:
  assumes L: "repo_lib_ok L" and J: "cid_text_ok J" and c: "repo_create L C did key since clk = (Inr (r, blocks), clk')"
  shows "\<exists>A. actor_commit J B now None \<lparr>rt_cid = r_cid r, rt_rev = c_rev (r_commit r)\<rparr> blocks [] [] (actor_new did) fs
      = (Inr (Some \<lparr>orphaned = [], taken = []\<rparr>), A, fs) \<and> holds_repo L J A r (Node []) \<and> a_did A = did"
proof -
  note ok = repo_lib_okD(1,3) [OF L]
  let ?T = "ublocks L (map_of []) (Node [])"
  obtain k b data where k: "repo_create L C did key since clk = (Inr (\<lparr>r_cid = cid_for L b, r_commit = k, r_data = data\<rparr>,
      bm_insert (cid_for L b) b ?T), snd (mint since clk))" "c_data k = tcid L (Node [])" "commit_to_vec L k = Inr b"
    using repo_create_ok [OF L, of C did key since clk] by metis
  then have r: "r = \<lparr>r_cid = cid_for L b, r_commit = k, r_data = data\<rparr>" "blocks = bm_insert (cid_for L b) b ?T"
    using c by simp_all
  have t: "dom (map_of ?T) = set (flat L (Node []))" "addressed L (map_of ?T)"
  proof -
    have s: "set (tcids L (Node [])) \<subseteq> dom (map_of ?T)"
      using ublocks_dom(1) [OF ok(2) sound_store_empty, of 0 "Node []"] by simp
    have u: "map_of ?T c = Some x \<Longrightarrow> c \<in> set (tcids L (Node [])) \<and> c = cid_for L x" for c x
      using ublocks_sound(1) [of L "map_of []" "Node []"] by blast
    have "set (flat L (Node [])) = set (tcids L (Node []))" by (simp add: set_flat)
    moreover have "dom (map_of ?T) \<subseteq> set (tcids L (Node []))" using u by blast
    ultimately show "dom (map_of ?T) = set (flat L (Node []))" using s by blast
    show "addressed L (map_of ?T)" using u unfolding addressed_def by blast
  qed
  have m: "map_of blocks = (map_of ?T)(cid_for L b \<mapsto> b)" unfolding r by (rule map_of_bm_insert)
  have "addressed L (map_of blocks)" using t(2) unfolding m addressed_def by (metis fun_upd_apply option.inject)
  moreover have "dom (map_of blocks) = insert (r_cid r) (set (flat L (Node [])))" unfolding m t(1) [symmetric] r by auto
  moreover have "tree_ok L (Node [])" unfolding tree_ok_def by auto
  ultimately have e: "blocks_exact L (map_of blocks) r (Node [])"
    unfolding blocks_exact_def using k(2,3) r(1) by (simp add: repo_at_def)
  show ?thesis
    using first_landing [OF J, of B now "\<lparr>rt_cid = r_cid r, rt_rev = c_rev (r_commit r)\<rparr>" blocks did fs] e
    by (auto simp: holds_repo_def root_at_def index_ok_def)
qed

end
