(* ===== verification/Writes_Props.thy ===== *)
theory Writes_Props
  imports Writes Actor_Repo
begin

text \<open>
  What a write does to an account: \<open>plan\<close> reads the repository without changing what it holds and asks
  for entries of the index and of the log that agree with its writes; an attempt that lands has made
  these writes on what was there when it landed; and \<open>commit_writes\<close> always answers.
\<close>

section \<open>Plans\<close>

definition record_cid :: "('c, 'l) repo_lib_scheme \<Rightarrow> 'c repo_write \<Rightarrow> 'c option" where
  "record_cid L w =
     (case write_record w of None \<Rightarrow> None
      | Some rec \<Rightarrow> (case ipld_to_vec L rec of Inl _ \<Rightarrow> None | Inr b \<Rightarrow> Some (cid_for L b)))"

text \<open>The entry of the log a write asks for, on the records \<open>ps\<close>.\<close>

definition op_for :: "('c, 'l) repo_lib_scheme \<Rightarrow> (string \<times> 'c) list \<Rightarrow> 'c repo_write \<Rightarrow> 'c op \<Rightarrow> bool" where
  "op_for L ps w p \<longleftrightarrow>
     op_path p = write_key w \<and> op_prev p = map_of ps (write_key w) \<and> op_cid p = record_cid L w
     \<and> op_action p = action_of w (map_of ps (write_key w))"

definition unskipped :: "(string \<times> 'c) list \<Rightarrow> 'c requested list \<Rightarrow> 'c requested list" where
  "unskipped ps requested =
     filter (\<lambda>q. \<not> (map_of ps (write_key (rq_write q)) = None \<and> rq_missing q = Skip)) requested"

definition expected :: "(string \<times> 'c) list \<Rightarrow> 'c requested \<Rightarrow> bool" where
  "expected ps q \<longleftrightarrow>
     (case rq_expect q of
        Anything \<Rightarrow> True
      | Nothing \<Rightarrow> map_of ps (write_key (rq_write q)) = None
      | ExpectBlock c \<Rightarrow> map_of ps (write_key (rq_write q)) = Some c)"

lemma expectation_Inr: "expectation J (rq_expect q) (map_of ps (write_key (rq_write q))) = Inr () \<longleftrightarrow> expected ps q"
  by (auto simp: expectation_def expected_def split: expect.splits option.splits if_splits)

lemma path_key: "write_target w = (n, k) \<Longrightarrow> nsid_str n @ CHR ''/'' # record_key_str k = write_key w"
  by (simp add: write_key_def)

text \<open>A repository as a plan reads it: the trees read differ only in what is loaded.\<close>

definition same_repo ::
    "('c::linorder, 'l) repo_lib_scheme \<Rightarrow> ('c \<Rightarrow> bytes option) \<Rightarrow> 'c tree \<Rightarrow> 'c repo \<Rightarrow> 'c repo \<Rightarrow> bool" where
  "same_repo L M t r r' \<longleftrightarrow> r_cid r' = r_cid r \<and> r_commit r' = r_commit r \<and> held_tree L M (r_data r') t"

lemma repo_get_same:
  assumes "repo_lib_ok L" "same_repo L (actor_blocks J A) t r0 r"
  shows "\<exists>r'. repo_get L (actor_store J A) r n k = Inr (map_of (records_of t) (nsid_str n @ CHR ''/'' # record_key_str k), r')
    \<and> same_repo L (actor_blocks J A) t r0 r'"
proof -
  obtain d where "mst_get L (actor_store J A) (r_data r) (nsid_str n @ CHR ''/'' # record_key_str k)
      = Inr (map_of (records_of t) (nsid_str n @ CHR ''/'' # record_key_str k), d)" "held_tree L (actor_blocks J A) d t"
    using act.mst_get_tree [OF repo_lib_okD(1) [OF assms(1)]] assms(2) unfolding same_repo_def by blast
  then show ?thesis using assms(2) by (auto simp: repo_get_def same_repo_def)
qed

text \<open>The deletions that clear the way for a request: where it supersedes, of every record of its collection that the
  database says points at what its record points at.\<close>

definition cleared :: "actor \<Rightarrow> 'c repo_write \<Rightarrow> 'c repo_write list" where
  "cleared A w =
     (let n = fst (write_target w) in
      case write_record w of
        None \<Rightarrow> []
      | Some rec \<Rightarrow>
          if \<not> held_to_one n then []
          else concat (map (\<lambda>l. case pointing_at n l A :: 'c store_error + record_key list of Inl _ \<Rightarrow> [] | Inr ks \<Rightarrow> map (Delete n) ks) (backlink_of rec)))"

definition planned :: "actor \<Rightarrow> 'c requested list \<Rightarrow> 'c repo_write list" where
  "planned A qs = concat (map (\<lambda>q. (if rq_conflicts q = Supersede then cleared A (rq_write q) else []) @ [rq_write q]) qs)"

definition goes :: "('c, 'l) repo_lib_scheme \<Rightarrow> (string \<times> 'c) list \<Rightarrow> 'c repo_write \<times> 'c indexed \<times> 'c op \<Rightarrow> bool" where
  "goes L ps g \<longleftrightarrow> (case g of (w, ix, p) \<Rightarrow> write_record w = None \<and> ix_for L w ix \<and> op_for L ps w p)"

lemma supersede_key_ok:
  assumes "repo_lib_ok L" "same_repo L (actor_blocks J A) t r0 r" "list_all (goes L (records_of t)) gone"
    and "supersede_key L (actor_store J A) n k (r, gone) = Inr (r', gone')"
  shows "same_repo L (actor_blocks J A) t r0 r' \<and> list_all (goes L (records_of t)) gone' \<and> map fst gone' = map fst gone @ [Delete n k]"
proof -
  obtain r1 where "repo_get L (actor_store J A) r n k = Inr (map_of (records_of t) (nsid_str n @ CHR ''/'' # record_key_str k), r1)"
      "same_repo L (actor_blocks J A) t r0 r1"
    using repo_get_same [OF assms(1,2)] by blast
  then show ?thesis
    using assms(3,4)
    by (auto simp: supersede_key_def goes_def ix_for_def op_for_def record_cid_def action_of_def write_key_def)
qed

lemma supersede_keys_ok:
  assumes "repo_lib_ok L"
  shows "same_repo L (actor_blocks J A) t r0 r \<Longrightarrow> list_all (goes L (records_of t)) gone \<Longrightarrow>
    foldE (supersede_key L (actor_store J A) n) ks (r, gone) = Inr (r', gone') \<Longrightarrow>
    same_repo L (actor_blocks J A) t r0 r' \<and> list_all (goes L (records_of t)) gone' \<and> map fst gone' = map fst gone @ map (Delete n) ks"
proof (induction ks arbitrary: r gone)
  case (Cons k ks)
  obtain r1 g1 where s: "supersede_key L (actor_store J A) n k (r, gone) = Inr (r1, g1)" "foldE (supersede_key L (actor_store J A) n) ks (r1, g1) = Inr (r', gone')"
    using Cons.prems(3) by (auto simp: bindE_eq_Inr)
  note one = supersede_key_ok [OF assms Cons.prems(1,2) s(1)]
  show ?case using Cons.IH [OF _ _ s(2)] one by simp
qed simp

lemma superseded_loop_ok:
  fixes ls :: "backlink list"
  assumes "repo_lib_ok L"
  shows "same_repo L (actor_blocks J A) t r0 r \<Longrightarrow> list_all (goes L (records_of t)) gone \<Longrightarrow>
    foldE (\<lambda>l s. bindE (map_err of_store_error (pointing_at n l A :: 'c::linorder store_error + record_key list)) (\<lambda>ks. foldE (supersede_key L (actor_store J A) n) ks s)) ls (r, gone)
      = Inr (r', gone') \<Longrightarrow>
    same_repo L (actor_blocks J A) t r0 r' \<and> list_all (goes L (records_of t)) gone'
    \<and> map fst gone' = map fst gone @ concat (map (\<lambda>l. case pointing_at n l A :: 'c store_error + record_key list of Inl _ \<Rightarrow> [] | Inr ks \<Rightarrow> map (Delete n) ks) ls)"
proof (induction ls arbitrary: r gone)
  case (Cons l ls)
  let ?f = "\<lambda>l s. bindE (map_err of_store_error (pointing_at n l A :: 'c store_error + record_key list)) (\<lambda>ks. foldE (supersede_key L (actor_store J A) n) ks s)"
  obtain ks r1 g1 where s: "pointing_at n l A = (Inr ks :: 'c store_error + record_key list)" "foldE (supersede_key L (actor_store J A) n) ks (r, gone) = Inr (r1, g1)"
      "foldE ?f ls (r1, g1) = Inr (r', gone')"
    using Cons.prems(3) by (auto simp: bindE_eq_Inr)
  note one = supersede_keys_ok [OF assms Cons.prems(1,2) s(2)]
  show ?case using Cons.IH [OF _ _ s(3)] one s(1) by simp
qed simp

lemma superseded_ok:
  assumes "repo_lib_ok L" "same_repo L (actor_blocks J A) t r0 r" "superseded L J A w r = Inr (r', gone)"
  shows "same_repo L (actor_blocks J A) t r0 r' \<and> list_all (goes L (records_of t)) gone \<and> map fst gone = cleared A w"
  using assms(2,3) superseded_loop_ok [OF assms(1,2), of "[]"]
  by (auto simp: superseded_def cleared_def Let_def split: option.splits if_splits)

definition plan_ok ::
    "('c::linorder, 'l) repo_lib_scheme \<Rightarrow> did \<Rightarrow> actor \<Rightarrow> (string \<times> 'c) list \<Rightarrow> 'c requested list \<Rightarrow> 'c plan \<Rightarrow> bool" where
  "plan_ok L did A ps qs P \<longleftrightarrow>
     list_all2 (ix_for L) (pl_writes P) (pl_index P) \<and> list_all2 (op_for L ps) (pl_writes P) (pl_ops P)
     \<and> pl_writes P = planned A qs \<and> list_all (expected ps) qs
     \<and> pl_results P = map (\<lambda>q. \<lparr>ad_uri = at_key did (write_key (rq_write q)), ad_cid = record_cid L (rq_write q)\<rparr>) qs"

lemma plan_write_ok:
  assumes "plan_ok L did A ps qs P" "list_all (goes L ps) gone" "expected ps q"
    "map fst gone = (if rq_conflicts q = Supersede then cleared A (rq_write q) else [])"
    "plan_write L did (rq_write q) (map_of ps (write_key (rq_write q))) (add_superseded gone P) = Inr P'"
  shows "plan_ok L did A ps (qs @ [q]) P'"
proof -
  let ?w = "rq_write q"
  obtain n k where t: "write_target ?w = (n, k)" by fastforce
  have key: "''at://'' @ did_str did @ ''/'' @ write_key ?w = at_key did (write_key ?w)" by (simp add: at_key_def)
  obtain c ix where P': "P' = P\<lparr>pl_writes := pl_writes P @ map fst gone @ [?w], pl_index := pl_index P @ map (fst \<circ> snd) gone @ [ix],
      pl_results := pl_results P @ [\<lparr>ad_uri = at_key did (write_key ?w), ad_cid = c\<rparr>],
      pl_ops := pl_ops P @ map (snd \<circ> snd) gone @ [\<lparr>op_action = action_of ?w (map_of ps (write_key ?w)), op_path = write_key ?w, op_cid = c,
        op_prev = map_of ps (write_key ?w)\<rparr>]\<rparr>" and c: "c = record_cid L ?w" "ix_for L ?w ix"
    using assms(5) unfolding plan_write_def t key
    by (cases "write_record ?w") (auto simp: record_cid_def ix_for_def t encode_def result_simps add_superseded_def)
  have g: "list_all2 (ix_for L) (map fst gone) (map (fst \<circ> snd) gone)" "list_all2 (op_for L ps) (map fst gone) (map (snd \<circ> snd) gone)"
    using assms(2) by (induction gone) (auto simp: goes_def)
  show ?thesis using assms(1,3,4) c g unfolding P' plan_ok_def
    by (auto simp: op_for_def planned_def intro!: list_all2_appendI)
qed

lemma plan_one_ok:
  assumes L: "repo_lib_ok L" and s: "same_repo L (actor_blocks J A) t r0 r" "plan_ok L did A (records_of t) (unskipped (records_of t) qs) P"
    and g: "plan_one L J A did q (r, P) = Inr (r', P')"
  shows "same_repo L (actor_blocks J A) t r0 r' \<and> plan_ok L did A (records_of t) (unskipped (records_of t) (qs @ [q])) P'"
proof -
  let ?w = "rq_write q"
  let ?prev = "map_of (records_of t) (write_key ?w)"
  obtain n k where tg: "write_target ?w = (n, k)" by fastforce
  obtain r1 where r1: "repo_get L (actor_store J A) r n k = Inr (?prev, r1)" "same_repo L (actor_blocks J A) t r0 r1"
    using repo_get_same [OF L s(1), of n k] path_key [OF tg] by auto
  show ?thesis
  proof (cases "?prev = None \<and> rq_missing q = Skip")
    case True
    then show ?thesis using g r1 s(2) tg by (simp add: plan_one_def unskipped_def)
  next
    case False
    then have "bindE (expectation J (rq_expect q) ?prev) (\<lambda>_.
        bindE (if rq_conflicts q = Supersede then superseded L J A ?w r1 else Inr (r1, [])) (\<lambda>(r, gone).
        bindE (plan_write L did ?w ?prev (add_superseded gone P)) (\<lambda>P. Inr (r, P)))) = Inr (r', P')"
      using g r1(1) tg by (auto simp: plan_one_def Let_def)
    then obtain r2 gone P2 where e: "expectation J (rq_expect q) ?prev = Inr ()"
        "(if rq_conflicts q = Supersede then superseded L J A ?w r1 else Inr (r1, [])) = Inr (r2, gone)"
        "plan_write L did ?w ?prev (add_superseded gone P) = Inr P2" "r' = r2" "P' = P2"
      unfolding bindE_eq_Inr by (auto simp: bindE_eq_Inr)
    have "same_repo L (actor_blocks J A) t r0 r2 \<and> list_all (goes L (records_of t)) gone
        \<and> map fst gone = (if rq_conflicts q = Supersede then cleared A ?w else [])"
      using e(2) superseded_ok [OF L r1(2)] r1(2) by (auto split: if_splits)
    then show ?thesis
      using plan_write_ok [OF s(2) _ _ _ e(3)] e expectation_Inr [of J q "records_of t"] False
      by (auto simp: unskipped_def)
  qed
qed

lemma plan_loop_ok:
  "repo_lib_ok L \<Longrightarrow> same_repo L (actor_blocks J A) t r0 r \<Longrightarrow> plan_ok L did A (records_of t) (unskipped (records_of t) done) P \<Longrightarrow>
   foldE (plan_one L J A did) qs (r, P) = Inr (r', P') \<Longrightarrow>
   same_repo L (actor_blocks J A) t r0 r' \<and> plan_ok L did A (records_of t) (unskipped (records_of t) (done @ qs)) P'"
proof (induction qs arbitrary: r P "done")
  case (Cons q qs)
  then obtain r1 P1 where s: "plan_one L J A did q (r, P) = Inr (r1, P1)" "foldE (plan_one L J A did) qs (r1, P1) = Inr (r', P')"
    by (fastforce simp: bindE_eq_Inr)
  note one = plan_one_ok [OF Cons.prems(1,2,3) s(1)]
  show ?case using Cons.IH [OF Cons.prems(1) conjunct1 [OF one] conjunct2 [OF one] s(2)] by simp
qed simp

lemma plan_correct:
  assumes "repo_lib_ok L" "same_repo L (actor_blocks J A) t r0 r" "plan L J A did qs r = Inr (r', P)"
  shows "same_repo L (actor_blocks J A) t r0 r' \<and> plan_ok L did A (records_of t) (unskipped (records_of t) qs) P"
proof -
  have start: "plan_ok L did A (records_of t) (unskipped (records_of t) []) \<lparr>pl_writes = [], pl_index = [], pl_ops = [], pl_results = []\<rparr>"
    by (simp add: plan_ok_def unskipped_def planned_def)
  show ?thesis using plan_loop_ok [OF assms(1,2) start assms(3) [unfolded plan_def]] by simp
qed


section \<open>Attempts\<close>

text \<open>An account's repository is loaded from the root its database names.\<close>

lemma actor_root_holds:
  assumes "cid_text_ok J" "holds_repo L J A r s" "actor_root J A = Inr root"
  shows "\<exists>base. root = Some base \<and> rt_cid base = r_cid r"
  using assms by (auto simp: actor_root_def holds_repo_def root_at_def result_simps cid_text_ok_def ok_or_def split: option.splits)

lemma repo_load_holds:
  assumes L: "repo_lib_ok L" and h: "holds_repo L J A r s"
  shows "\<exists>r'. repo_load L (actor_store J A) (r_cid r) = Inr r' \<and> same_repo L (actor_blocks J A) s r r'"
proof -
  have e: "blocks_exact L (actor_blocks J A) r s" using h by (simp add: holds_repo_def)
  note d = blocks_exactD [OF e]
  obtain x where x: "commit_to_vec L (r_commit r) = Inr x" "r_cid r = cid_for L x" using d(3) unfolding repo_at_def by blast
  obtain b where b: "actor_blocks J A (r_cid r) = Some b" using d(2) by blast
  then have "b = x" using d(1) x(2) repo_lib_okD(3) [OF L] unfolding addressed_def no_collision_def by metis
  then have "commit_from_slice L b = Inr (r_commit r)" using repo_lib_okD(5) [OF L, of "r_commit r"] x(1) by auto
  then show ?thesis
    using exact_sound(2) [OF L e] d(4)
    by (auto simp: repo_load_def act.read_block_present [OF b] decode_def same_repo_def)
qed

lemma landing_stale:
  assumes "landing J B now (Some base) root blocks drops ixs A fs = (Inr None, fs', lv')"
  shows "map_option ro_cid (map_of (repo_root A) (did_str (a_did A))) \<noteq> Some (cid_to_string J (rt_cid base))"
proof -
  let ?A = "fold (insert_block J (rt_rev root)) blocks A" and ?K = "set (kept_blobs J ixs)"
  obtain q f l where q: "index_loop J B now (rt_rev root) ?K ixs ?A fs no_leaving = (q, f, l)" by (metis prod_cases3)
  then obtain A1 where A1: "q = Inr A1" using assms by (cases q) (auto simp: landing_def Let_def)
  obtain A2 out where w: "let_go J blob_held (kept_blobs J ixs) (fold (forget_block J) drops A1) [] = Inr (A2, out)"
    using assms q A1 by (auto simp: landing_def Let_def split: sum.splits)
  have m: "move_root J now (Some base) root A2 = Inr None"
    using assms q A1 w by (auto simp: landing_def Let_def split: sum.splits option.splits)
  have "repo_root A2 = repo_root A" "a_did A2 = a_did A"
    using landing_tables [OF q [unfolded A1] w] by simp_all
  then show ?thesis using m by (auto simp: move_root_def Let_def split: option.splits if_splits)
qed

lemma commit_stale:
  assumes "holds_repo L J A r s" "actor_commit J B now (Some base) root blocks drops ixs A fs = (Inr None, A', fs')"
  shows "r_cid r \<noteq> rt_cid base"
proof -
  obtain q f lv where q: "landing J B now (Some base) root blocks drops ixs A fs = (q, f, lv)" by (metis prod_cases3)
  then have "q = Inr None" using assms(2) by (auto simp: actor_commit_def split: sum.splits option.splits)
  then show ?thesis using landing_stale [OF q [unfolded \<open>q = Inr None\<close>]] assms(1) by (auto simp: holds_repo_def root_at_def)
qed

lemma landed_same:
  assumes L: "repo_lib_ok L" and J: "cid_text_ok J" and h: "holds_repo L J A r s" "holds_repo L J A1 r1 s1" and b: "rt_cid base = r_cid r"
    and g: "landing J B now (Some base) root blocks drops ixs A1 fs = (Inr (Some (A', cl)), fs', lv')"
  shows "r_cid r1 = r_cid r \<and> r_commit r1 = r_commit r"
proof -
  have "r_cid r1 = r_cid r"
    using landing_root(2) [OF g] h(2) b cid_text_inj [OF J] by (auto simp: holds_repo_def root_at_def)
  then show ?thesis using exact_unique(3) [OF L] h unfolding holds_repo_def by blast
qed

lemma work_out_reads:
  assumes L: "repo_lib_ok L" and J: "cid_text_ok J" and h: "holds_repo L J A r s"
    and w: "work_out L J did qs swap A = Inr (Some (base, r', P))"
  shows "rt_cid base = r_cid r \<and> same_repo L (actor_blocks J A) s r r'
    \<and> plan_ok L did A (records_of s) (unskipped (records_of s) qs) P \<and> swap \<in> {None, Some (r_cid r)}
    \<and> (\<exists>r0. same_repo L (actor_blocks J A) s r r0 \<and> plan L J A did qs r0 = Inr (r', P))"
proof -
  obtain root where root: "actor_root J A = Inr root" using w by (auto simp: work_out_def result_simps)
  obtain b where b: "root = Some b" "rt_cid b = r_cid r" using actor_root_holds [OF J h root] by blast
  obtain r0 where r0: "repo_load L (actor_store J A) (r_cid r) = Inr r0" "same_repo L (actor_blocks J A) s r r0"
    using repo_load_holds [OF L h] by blast
  obtain r1 P1 where p: "plan L J A did qs r0 = Inr (r1, P1)"
    using w root b r0(1) by (auto simp: work_out_def bindE_eq_Inr ok_or_def)
  then have "base = b" "r1 = r'" "P1 = P" "swap \<in> {None, Some (r_cid r)}"
    using w root b r0(1) by (auto simp: work_out_def ok_or_def split: if_splits option.splits)
  then show ?thesis using b(2) plan_correct [OF L r0(2) p] r0(2) p by blast
qed

lemma apply_returns:
  assumes L: "repo_lib_ok L" and h: "holds_repo L J A r0 s" and r: "same_repo L (actor_blocks J A) s r0 r"
  shows "\<exists>out clk'. repo_apply L C (actor_store J A) r ws key since clk = Some (out, clk')"
proof -
  have hd: "held_tree L (actor_blocks J A) (r_data r) s" using r by (simp add: same_repo_def)
  have ap: "recs_apart L (records_of s)" using h by (simp add: holds_repo_def blocks_exact_def tree_ok_def)
  show ?thesis
  proof (cases "apply_spec L ws (records_of s)")
    case (Inl e)
    then show ?thesis using acto.prepare_refused [OF L hd Inl] by (simp add: repo_apply_def)
  next
    case (Inr qs)
    show ?thesis
      by (rule acto.prepare_ok [OF L hd Inr ap]) (auto simp: repo_apply_def split: prod.splits option.splits)
  qed
qed

text \<open>What a write that landed is, where the database it was worked out on was \<open>A\<close> and the repository at the commit was
  \<open>r1\<close> with the tree \<open>s1\<close>.\<close>

definition landed_ok ::
    "('c::linorder, 'l) repo_lib_scheme \<Rightarrow> ('c, 'j) json_lib_scheme \<Rightarrow> did \<Rightarrow> 'c requested list \<Rightarrow> 'c option
      \<Rightarrow> actor \<Rightarrow> 'c repo \<Rightarrow> 'c tree \<Rightarrow> actor \<Rightarrow> 'c landed \<Rightarrow> bool" where
  "landed_ok L J did qs swap A r1 s1 A' ld \<longleftrightarrow>
     (let ps = records_of s1; asked = unskipped ps qs in
      swap \<in> {None, Some (r_cid r1)} \<and> list_all (expected ps) asked
      \<and> ld_since ld = c_rev (r_commit r1) \<and> ld_prev_data ld = c_data (r_commit r1)
      \<and> wr_results (ld_written ld) = map (\<lambda>q. \<lparr>ad_uri = at_key did (write_key (rq_write q)), ad_cid = record_cid L (rq_write q)\<rparr>) asked
      \<and> list_all2 (op_for L ps) (planned A asked) (ld_ops ld)
      \<and> (\<exists>u r'. apply_spec L (planned A asked) ps = Inr (records_of u) \<and> holds_repo L J A' r' u
            \<and> ld_root ld = \<lparr>rt_cid = r_cid r', rt_rev = c_rev (r_commit r')\<rparr>))"

lemma attempt_cases:
  assumes L: "repo_lib_ok (set_lib S)" and J: "cid_text_ok (set_texts S)"
    and h: "holds_repo (set_lib S) (set_texts S) A r s" and o: "set_others S i (A, fs) = (A1, fs1)"
    and h1: "holds_repo (set_lib S) (set_texts S) A1 r1 s1" and f: "fs_ok fs1"
  obtains (landed) ld A' fs' clk' where "attempt S i key did qs swap (A, fs, clk) = Some (Some (Inr (Some ld)), A', fs', clk')"
      "landed_ok (set_lib S) (set_texts S) did qs swap A r1 s1 A' ld" "a_did A' = a_did A1"
  | (moved) fs' clk' where "attempt S i key did qs swap (A, fs, clk) = Some (None, A1, fs', clk')"
      "r_cid r1 \<noteq> r_cid r" "fs_ok fs'" "content fs' = content fs1"
  | (answered) out A' fs' clk' where "attempt S i key did qs swap (A, fs, clk) = Some (Some out, A', fs', clk')"
      "\<forall>ld. out \<noteq> Inr (Some ld)" "A' = A \<and> fs' = fs \<or> A' = A1 \<and> content fs' = content fs1"
proof -
  let ?L = "set_lib S" and ?J = "set_texts S"
  show thesis
  proof (cases "\<exists>base r' P. work_out ?L ?J did qs swap A = Inr (Some (base, r', P))")
    case False
    then show thesis
      by (cases "work_out ?L ?J did qs swap A"; intro answered) (auto simp: attempt_def Let_def split: option.splits)
  next
    case True
    then obtain base r' P where w: "work_out ?L ?J did qs swap A = Inr (Some (base, r', P))" by blast
    have p: "rt_cid base = r_cid r" "same_repo ?L (actor_blocks ?J A) s r r'"
        "plan_ok ?L did A (records_of s) (unskipped (records_of s) qs) P" "swap \<in> {None, Some (r_cid r)}"
      using work_out_reads [OF L J h w] by blast+
    obtain out clk1 where a: "repo_apply ?L (set_crypto S) (actor_store ?J A) r' (pl_writes P) key (set_micros S i) clk = Some (out, clk1)"
      using apply_returns [OF L h p(2)] by blast
    show thesis
    proof (cases out)
      case (Inl e)
      then show thesis by (intro answered) (use w a in \<open>auto simp: attempt_def Let_def\<close>)
    next
      case (Inr out')
      obtain blocks drops r2 where out': "out' = (blocks, drops, r2)" by (cases out')
      let ?root = "\<lparr>rt_cid = r_cid r2, rt_rev = c_rev (r_commit r2)\<rparr>"
      obtain c A' fs' where c: "actor_commit ?J (set_blobs S) (set_now S i) (Some base) ?root blocks drops (pl_index P) A1 fs1 = (c, A', fs')"
        by (metis prod_cases3)
      note at = attempt_def Let_def
      show thesis
      proof (rule commit_cases [OF f c])
        fix cl lv assume cl: "c = Inr (Some cl)"
          "landing ?J (set_blobs S) (set_now S i) (Some base) ?root blocks drops (pl_index P) A1 fs1 = (Inr (Some (A', cl)), fs', lv)"
        have rd: "r_cid r' = r_cid r" "r_commit r' = r_commit r" "held_tree ?L (actor_blocks ?J A) (r_data r') s"
          using p(2) by (simp_all add: same_repo_def)
        have ix: "list_all2 (ix_for ?L) (pl_writes P) (pl_index P)" using p(3) unfolding plan_ok_def by blast
        have "rt_cid base = r_cid r'" using p(1) rd(1) by simp
        note fin = apply_then_commit [OF L J h rd h1 ix a [unfolded Inr out'] this cl(2)]
        then obtain v where v: "s1 = s" "apply_spec ?L (pl_writes P) (records_of s) = Inr (records_of v)" "holds_repo ?L ?J A' r2 v" by blast
        have same: "r_cid r1 = r_cid r" "r_commit r1 = r_commit r"
          using landed_same [OF L J h h1 p(1) cl(2)] by simp_all
        let ?ld = "\<lparr>ld_written = \<lparr>wr_results = pl_results P, wr_commit = rt_cid ?root, wr_rev = rt_rev ?root\<rparr>,
          ld_root = ?root, ld_blocks = blocks, ld_ops = pl_ops P, ld_since = c_rev (r_commit r'),
          ld_prev_data = c_data (r_commit r'), ld_committed = cl\<rparr>"
        have "attempt S i key did qs swap (A, fs, clk) = Some (Some (Inr (Some ?ld)), A', fs', clk1)"
          using w a Inr out' o c cl(1) by (simp add: at)
        moreover have "landed_ok ?L ?J did qs swap A r1 s1 A' ?ld"
          using p(3,4) v same rd(2) unfolding landed_ok_def plan_ok_def Let_def by auto
        moreover have "a_did A' = a_did A1" using fin by blast
        ultimately show thesis by (rule landed)
      next
        assume n: "\<forall>cl. c \<noteq> Inr (Some cl)" "A' = A1" "fs_ok fs'" "content fs' = content fs1"
        show thesis
        proof (cases c)
          case (Inl e)
          then show thesis using w a Inr out' o c n by (intro answered) (auto simp: at)
        next
          case c': (Inr q)
          then have q: "c = Inr None" using n(1) by (cases q) auto
          have "r_cid r1 \<noteq> r_cid r"
            using commit_stale [OF h1 c [unfolded q]] p(1) by auto
          moreover have "attempt S i key did qs swap (A, fs, clk) = Some (None, A1, fs', clk1)"
            using w a Inr out' o c q n by (simp add: at)
          ultimately show thesis using n moved by blast
        qed
      qed
    qed
  qed
qed


section \<open>Answers\<close>

definition settled :: "('c::linorder, 'l) repo_lib_scheme \<Rightarrow> ('c, 'j) json_lib_scheme \<Rightarrow> actor \<Rightarrow> bool" where
  "settled L J A \<longleftrightarrow> (\<exists>r s. holds_repo L J A r s)"

definition others_settle :: "('c::linorder, 'sk, 'vk, 'sg, 'l, 'j) setting \<Rightarrow> bool" where
  "others_settle S \<longleftrightarrow>
     (\<forall>i A fs A1 fs1. settled (set_lib S) (set_texts S) A \<and> fs_ok fs \<and> set_others S i (A, fs) = (A1, fs1)
        \<longrightarrow> settled (set_lib S) (set_texts S) A1 \<and> fs_ok fs1 \<and> a_did A1 = a_did A)"

definition landed_at ::
    "('c::linorder, 'sk, 'vk, 'sg, 'l, 'j) setting \<Rightarrow> nat \<Rightarrow> did \<Rightarrow> 'c requested list \<Rightarrow> 'c option \<Rightarrow> actor \<Rightarrow> 'c landed \<Rightarrow> bool" where
  "landed_at S i did qs swap A' ld \<longleftrightarrow>
     (\<exists>A fs A1 fs1 r1 s1. set_others S i (A, fs) = (A1, fs1) \<and> holds_repo (set_lib S) (set_texts S) A1 r1 s1
        \<and> landed_ok (set_lib S) (set_texts S) did qs swap A r1 s1 A' ld)"

lemma attempts_ok:
  assumes L: "repo_lib_ok (set_lib S)" and J: "cid_text_ok (set_texts S)"
    and o: "others_settle S"
  shows "n \<le> ATTEMPTS \<Longrightarrow> settled (set_lib S) (set_texts S) A \<Longrightarrow> fs_ok fs \<Longrightarrow>
    \<exists>res A' fs' clk'. attempts S n key did qs swap (A, fs, clk) = Some (res, A', fs', clk')
      \<and> settled (set_lib S) (set_texts S) A' \<and> a_did A' = a_did A
      \<and> (\<forall>ld. res = Inr (Some ld) \<longrightarrow> (\<exists>i < ATTEMPTS. landed_at S i did qs swap A' ld))"
proof (induction n arbitrary: A fs clk)
  case (Suc n)
  let ?i = "ATTEMPTS - Suc n"
  obtain A1 fs1 where o1: "set_others S ?i (A, fs) = (A1, fs1)" by fastforce
  then have s1: "settled (set_lib S) (set_texts S) A1" "fs_ok fs1" "a_did A1 = a_did A"
    using o Suc.prems unfolding others_settle_def by blast+
  obtain r s r1 t where h: "holds_repo (set_lib S) (set_texts S) A r s" "holds_repo (set_lib S) (set_texts S) A1 r1 t"
    using s1 Suc.prems(2) unfolding settled_def by blast
  show ?case
  proof (rule attempt_cases [OF L J h(1) o1 h(2) s1(2), of key did qs swap clk])
    fix ld A' fs' clk' assume a: "attempt S ?i key did qs swap (A, fs, clk) = Some (Some (Inr (Some ld)), A', fs', clk')"
      "landed_ok (set_lib S) (set_texts S) did qs swap A r1 t A' ld" "a_did A' = a_did A1"
    have "landed_at S ?i did qs swap A' ld" unfolding landed_at_def using o1 h(2) a(2) by blast
    moreover have "settled (set_lib S) (set_texts S) A'" using a(2) by (auto simp: settled_def landed_ok_def Let_def)
    moreover have "?i < ATTEMPTS" using Suc.prems(1) by simp
    ultimately show ?thesis using a(1,3) s1(3) by auto
  next
    fix fs' clk' assume a: "attempt S ?i key did qs swap (A, fs, clk) = Some (None, A1, fs', clk')" "fs_ok fs'"
    show ?thesis using Suc.IH [OF _ s1(1) a(2), of clk'] Suc.prems(1) a(1) s1(3) by simp
  next
    fix out A' fs' clk' assume "attempt S ?i key did qs swap (A, fs, clk) = Some (Some out, A', fs', clk')"
      "\<forall>ld. out \<noteq> Inr (Some ld)" "A' = A \<and> fs' = fs \<or> A' = A1 \<and> content fs' = content fs1"
    then show ?thesis using s1(1,3) Suc.prems(2) by auto
  qed
qed auto


text \<open>C20: a set of writes is always answered, within the attempts allowed, as long as whoever else writes to the
  account leaves it holding a repository, and so does this: the blocks of one commit and its tree and no others, under an index
  that names the same records. If it says it landed it has, in one of its attempts, on what was there.
  Where nobody else writes to the account the answer is that of the first attempt.\<close>

theorem commit_writes_answers:
  assumes "repo_lib_ok (set_lib S)" "cid_text_ok (set_texts S)" "others_settle S"
    and "settled (set_lib S) (set_texts S) A" "fs_ok fs"
  shows "\<exists>res A' fs' clk'. commit_writes S key did qs swap (A, fs, clk) = Some (res, A', fs', clk')
      \<and> settled (set_lib S) (set_texts S) A'
      \<and> (\<forall>ld. res = Inr (Some ld) \<longrightarrow> (\<exists>i < ATTEMPTS. landed_at S i did qs swap A' ld))
      \<and> (\<forall>k. key = Inr k \<and> fst (set_others S 0 (A, fs)) = A \<longrightarrow>
            attempt S 0 k did qs swap (A, fs, clk) = Some (Some res, A', fs', clk'))"
proof (cases key)
  case (Inl e)
  then show ?thesis using assms(4) by (simp add: commit_writes_def)
next
  case (Inr k)
  obtain res A' fs' clk' where a: "attempts S ATTEMPTS k did qs swap (A, fs, clk) = Some (res, A', fs', clk')"
      "settled (set_lib S) (set_texts S) A'" "\<forall>ld. res = Inr (Some ld) \<longrightarrow> (\<exists>i < ATTEMPTS. landed_at S i did qs swap A' ld)"
    using attempts_ok [OF assms(1-3) order_refl assms(4,5)] by blast
  have "attempt S 0 k did qs swap (A, fs, clk) = Some (Some res, A', fs', clk')" if alone: "fst (set_others S 0 (A, fs)) = A"
  proof -
    obtain fs1 where o1: "set_others S 0 (A, fs) = (A, fs1)" using alone by (metis prod.collapse)
    have f1: "fs_ok fs1" using assms(3-5) o1 unfolding others_settle_def by blast
    obtain r s where h: "holds_repo (set_lib S) (set_texts S) A r s" using assms(4) unfolding settled_def by blast
    have seven: "ATTEMPTS = Suc 7" "ATTEMPTS - Suc 7 = 0" by (simp_all add: ATTEMPTS_def)
    show ?thesis
      using a(1) [unfolded seven(1) attempts.simps(2) seven(2)]
      by (cases rule: attempt_cases [OF assms(1,2) h o1 h f1, of k did qs swap clk]) simp_all
  qed
  then show ?thesis using a Inr by (auto simp: commit_writes_def)
qed


section \<open>An instance\<close>

definition toy_setting :: "(string, bool, bool, bool \<times> string, unit, unit) setting" where
  "toy_setting = \<lparr>set_lib = toy_repo_lib, set_texts = toy_actor_lib, set_crypto = toy_crypto, set_blobs = [],
     set_now = (\<lambda>i. i), set_micros = (\<lambda>i. Some i), set_others = (\<lambda>i x. x)\<rparr>"

definition toy_request :: "string requested" where
  "toy_request = requested_of (Put (Nsid ''a'') (RecordKey ''b'') (IMap [(''$type'', IString ''a'')]))"

lemma toy_setting_ok:
  "repo_lib_ok (set_lib toy_setting)" "cid_text_ok (set_texts toy_setting)" "others_settle toy_setting"
  using toy_repo_ok toy_text by (simp_all add: toy_setting_def others_settle_def)

text \<open>A record put, taken out again, and made again superseding what points where it does.\<close>

definition toy_requests :: "string requested list" where
  "toy_requests = [toy_request, requested_of (Delete (Nsid ''a'') (RecordKey ''b'')), toy_request\<lparr>rq_conflicts := Supersede\<rparr>]"

lemma toy_settled: "\<exists>A r. holds_repo (set_lib toy_setting) (set_texts toy_setting) A r (Node []) \<and> a_did A = toy_did"
proof -
  obtain k b data where "repo_create toy_repo_lib toy_crypto toy_did (KP256 True) None toy_clock =
      (Inr (\<lparr>r_cid = cid_for toy_repo_lib b, r_commit = k, r_data = data\<rparr>,
        bm_insert (cid_for toy_repo_lib b) b (ublocks toy_repo_lib (map_of []) (Node []))), snd (mint None toy_clock))"
    using repo_create_ok [OF toy_repo_ok, of toy_crypto toy_did "KP256 True" None toy_clock] by metis
  from first_commit_holds [OF toy_repo_ok toy_text this, of "[]" 0 empty_fs] show ?thesis
    by (auto simp: toy_setting_def)
qed

theorem commit_writes_answers_witness:
  "\<exists>A r res A' fs' clk'. holds_repo toy_repo_lib toy_actor_lib A r (Node [])
     \<and> commit_writes toy_setting (Inr (KP256 True)) toy_did toy_requests None (A, empty_fs, toy_clock) = Some (res, A', fs', clk')
     \<and> settled toy_repo_lib toy_actor_lib A'"
proof -
  obtain A r where h: "holds_repo (set_lib toy_setting) (set_texts toy_setting) A r (Node [])" using toy_settled by blast
  then have "settled (set_lib toy_setting) (set_texts toy_setting) A" unfolding settled_def by blast
  from commit_writes_answers [OF toy_setting_ok this empty_fs_ok(1), of "Inr (KP256 True)" toy_did toy_requests None toy_clock]
  show ?thesis using h by (fastforce simp: toy_setting_def)
qed


end
