(* ===== verification/Accounts.thy ===== *)
theory Accounts
  imports Actor
begin

text \<open>
  The account database: \<open>src/store/accounts.rs\<close>. A table is its rows in the order of its primary key, and
  a table keyed on two columns a list of its rows without repetition. Times are nanoseconds; \<open>stamp\<close>
  writes one down to the millisecond and \<open>stamp_parse\<close> is how \<open>jiff\<close> reads it back. The OAuth tables,
  which nothing writes, and the columns no operation here reads or writes are left out. Where a row
  would break two constraints at once the one on its primary key is reported, and rows a query's order
  leaves equal come in the order they were written.
\<close>

section \<open>Tables and values\<close>

record 'c accounts_lib = "'c actor_lib" +
  stamp_parse :: "string \<Rightarrow> nat option"

record actor_row =
  ac_handle :: "string option"
  ac_created :: string
  ac_takedown :: "string option"

record account_row =
  ar_email :: string
  ar_scrypt :: string

record invite_row =
  iv_uses :: nat
  iv_disabled :: bool
  iv_for :: string
  iv_by :: string
  iv_created :: string

record token_row =
  tk_did :: string
  tk_expires :: string
  tk_next :: "string option"
  tk_app :: "string option"

record app_row =
  ap_did :: string
  ap_name :: string
  ap_scrypt :: string
  ap_created :: string
  ap_privileged :: bool

record accounts =
  actor_rows :: "(string \<times> actor_row) list"
  account_rows :: "(string \<times> account_row) list"
  root_rows :: "(string \<times> root_row) list"
  invite_codes :: "(string \<times> invite_row) list"
  invite_uses :: "(string \<times> string) list"
  refresh_tokens :: "(string \<times> token_row) list"
  app_rows :: "app_row list"

definition accounts_new :: accounts where
  "accounts_new = \<lparr>actor_rows = [], account_rows = [], root_rows = [], invite_codes = [], invite_uses = [],
     refresh_tokens = [], app_rows = []\<rparr>"

record account =
  acc_did :: did
  acc_handle :: "handle option"
  acc_email :: string
  acc_scrypt :: string

record app_password =
  app_name :: string
  app_privileged :: bool

record session =
  ss_id :: string
  ss_did :: did
  ss_expires :: nat
  ss_next :: "string option"
  ss_app :: "app_password option"

record 'c registration =
  reg_account :: account
  reg_root :: "'c root"
  reg_invite :: "string option"
  reg_session :: "session option"

record 'c hosted =
  ho_did :: did
  ho_root :: "'c root"
  ho_created :: nat

record hosted_cursor =
  hc_created :: nat
  hc_did :: string


section \<open>Sessions and invites, as statements\<close>

definition insert_session :: "('c, 'j) actor_lib_scheme \<Rightarrow> session \<Rightarrow> accounts \<Rightarrow> accounts" where
  "insert_session J s db =
     (if map_of (refresh_tokens db) (ss_id s) \<noteq> None then db
      else db\<lparr>refresh_tokens := al_upd (ss_id s)
        \<lparr>tk_did = did_str (ss_did s), tk_expires = stamp J (ss_expires s), tk_next = None,
         tk_app = map_option app_name (ss_app s)\<rparr> (refresh_tokens db)\<rparr>)"

definition uses_of :: "string \<Rightarrow> accounts \<Rightarrow> nat" where
  "uses_of code db = length (filter (\<lambda>(c, d). c = code) (invite_uses db))"

definition available :: "accounts \<Rightarrow> string \<Rightarrow> bool" where
  "available db code =
     (case map_of (invite_codes db) code of
        None \<Rightarrow> False
      | Some iv \<Rightarrow>
          \<not> iv_disabled iv
          \<and> (case map_of (actor_rows db) (iv_for iv) of None \<Rightarrow> True | Some a \<Rightarrow> ac_takedown a = None)
          \<and> iv_uses iv > uses_of code db)"

definition unique_failed :: "string \<Rightarrow> 'c store_error" where
  "unique_failed column = Sqlite (''UNIQUE constraint failed: '' @ column)"

definition spend_invite :: "string \<Rightarrow> string \<Rightarrow> accounts \<Rightarrow> 'c store_error + accounts" where
  "spend_invite code d db =
     (if (code, d) \<in> set (invite_uses db) then Inl (unique_failed ''invite_code_use.code, invite_code_use.usedBy'')
      else Inr (db\<lparr>invite_uses := invite_uses db @ [(code, d)]\<rparr>))"


section \<open>Registration\<close>

definition insert_actor :: "('c, 'j) actor_lib_scheme \<Rightarrow> nat \<Rightarrow> account \<Rightarrow> accounts \<Rightarrow> 'e store_error + accounts" where
  "insert_actor J now a db =
     (let d = did_str (acc_did a); h = map_option handle_str (acc_handle a) in
      if map_of (actor_rows db) d \<noteq> None then Inl (unique_failed ''actor.did'')
      else if h \<noteq> None \<and> list_ex (\<lambda>(_, r). map_option to_ascii_lowercase (ac_handle r) = map_option to_ascii_lowercase h) (actor_rows db)
      then Inl HandleTaken
      else Inr (db\<lparr>actor_rows := al_upd d \<lparr>ac_handle = h, ac_created = stamp J now, ac_takedown = None\<rparr> (actor_rows db)\<rparr>))"

definition insert_account :: "account \<Rightarrow> accounts \<Rightarrow> 'e store_error + accounts" where
  "insert_account a db =
     (let d = did_str (acc_did a) in
      if map_of (account_rows db) d \<noteq> None then Inl (unique_failed ''account.did'')
      else if list_ex (\<lambda>(_, r). to_ascii_lowercase (ar_email r) = to_ascii_lowercase (acc_email a)) (account_rows db)
      then Inl EmailTaken
      else Inr (db\<lparr>account_rows := al_upd d \<lparr>ar_email = acc_email a, ar_scrypt = acc_scrypt a\<rparr> (account_rows db)\<rparr>))"

definition upsert_root :: "('c, 'j) actor_lib_scheme \<Rightarrow> bool \<Rightarrow> nat \<Rightarrow> did \<Rightarrow> 'c root \<Rightarrow> accounts \<Rightarrow> accounts" where
  "upsert_root J restamp now did root db =
     db\<lparr>root_rows := al_upd (did_str did)
       \<lparr>ro_cid = cid_to_string J (rt_cid root), ro_rev = tid_str (rt_rev root),
        ro_at = (case map_of (root_rows db) (did_str did) of
                   Some row \<Rightarrow> if restamp then stamp J now else ro_at row
                 | None \<Rightarrow> stamp J now)\<rparr> (root_rows db)\<rparr>"

text \<open>One transaction: the database the statements end in, or an error and the one there was.\<close>

definition accounts_create ::
    "('c, 'j) actor_lib_scheme \<Rightarrow> nat \<Rightarrow> 'c registration \<Rightarrow> accounts \<Rightarrow> 'c store_error + accounts" where
  "accounts_create J now reg db =
     (let a = reg_account reg in
      bindE (case reg_invite reg of
               None \<Rightarrow> Inr db
             | Some code \<Rightarrow>
                 if \<not> available db code then Inl InviteUnavailable
                 else spend_invite code (did_str (acc_did a)) db) (\<lambda>db.
      bindE (insert_actor J now a db) (\<lambda>db.
      bindE (insert_account a db) (\<lambda>db.
      let db = upsert_root J False now (acc_did a) (reg_root reg) db in
      Inr (case reg_session reg of None \<Rightarrow> db | Some s \<Rightarrow> insert_session J s db)))))"

definition accounts_delete :: "did \<Rightarrow> accounts \<Rightarrow> accounts" where
  "accounts_delete did db =
     (let d = did_str did in
      db\<lparr>refresh_tokens := filter (\<lambda>(_, t). tk_did t \<noteq> d) (refresh_tokens db),
         app_rows := filter (\<lambda>r. ap_did r \<noteq> d) (app_rows db),
         invite_uses := filter (\<lambda>(_, u). u \<noteq> d) (invite_uses db),
         root_rows := al_del d (root_rows db),
         account_rows := al_del d (account_rows db),
         actor_rows := al_del d (actor_rows db)\<rparr>)"

definition update_root :: "('c, 'j) actor_lib_scheme \<Rightarrow> nat \<Rightarrow> did \<Rightarrow> 'c root \<Rightarrow> accounts \<Rightarrow> accounts" where
  "update_root J now did root db = upsert_root J True now did root db"


section \<open>Reads\<close>

definition account_of :: "string \<times> actor_row \<times> account_row \<Rightarrow> 'c store_error + account" where
  "account_of row =
     (case row of (d, a, r) \<Rightarrow>
        bindE (map_err (\<lambda>_. Malformed ''a stored DID that is not one'') (did_from_str d)) (\<lambda>did.
        bindE (case ac_handle a of
                 None \<Rightarrow> Inr None
               | Some h \<Rightarrow> bindE (map_err (\<lambda>_. Malformed ''a stored handle that is not one'') (handle_from_str h)) (\<lambda>h. Inr (Some h))) (\<lambda>h.
        Inr \<lparr>acc_did = did, acc_handle = h, acc_email = ar_email r, acc_scrypt = ar_scrypt r\<rparr>)))"

definition joined_accounts :: "accounts \<Rightarrow> (string \<times> actor_row \<times> account_row) list" where
  "joined_accounts db = List.map_filter (\<lambda>(d, a). map_option (\<lambda>r. (d, a, r)) (map_of (account_rows db) d)) (actor_rows db)"

definition query_account :: "(string \<times> actor_row \<times> account_row \<Rightarrow> bool) \<Rightarrow> accounts \<Rightarrow> 'c store_error + account option" where
  "query_account p db =
     (case find p (joined_accounts db) of
        None \<Rightarrow> Inr None
      | Some row \<Rightarrow> bindE (account_of row) (\<lambda>a. Inr (Some a)))"

definition by_did :: "did \<Rightarrow> accounts \<Rightarrow> 'c store_error + account option" where
  "by_did did = query_account (\<lambda>(d, a, r). d = did_str did)"

definition by_handle :: "handle \<Rightarrow> accounts \<Rightarrow> 'c store_error + account option" where
  "by_handle h = query_account (\<lambda>(d, a, r). map_option to_ascii_lowercase (ac_handle a) = Some (to_ascii_lowercase (handle_str h)))"

definition by_email :: "string \<Rightarrow> accounts \<Rightarrow> 'c store_error + account option" where
  "by_email email = query_account (\<lambda>(d, a, r). to_ascii_lowercase (ar_email r) = to_ascii_lowercase email)"

definition hosted_page :: "('c, 'j) actor_lib_scheme \<Rightarrow> nat \<Rightarrow> hosted_cursor option \<Rightarrow> accounts \<Rightarrow> (string \<times> root_row \<times> string) list" where
  "hosted_page J limit from db =
     take limit (sort_key (\<lambda>(d, r, created). created)
       (filter (\<lambda>(d, r, created).
          case from of None \<Rightarrow> True
          | Some c \<Rightarrow> stamp J (hc_created c) < created \<or> stamp J (hc_created c) = created \<and> hc_did c < d)
         (List.map_filter (\<lambda>(d, a). map_option (\<lambda>r. (d, r, ac_created a)) (map_of (root_rows db) d)) (actor_rows db))))"

definition hosted_of :: "('c, 'j) accounts_lib_scheme \<Rightarrow> string \<times> root_row \<times> string \<Rightarrow> 'c store_error + 'c hosted" where
  "hosted_of J row =
     (case row of (d, r, created) \<Rightarrow>
        bindE (map_err (\<lambda>_. Malformed ''a stored DID that is not one'') (did_from_str d)) (\<lambda>did.
        bindE (ok_or (Malformed ''a repo root that is not a CID'') (cid_parse J (ro_cid r))) (\<lambda>c.
        bindE (map_err (\<lambda>_. Malformed ''a repo revision that is not a TID'') (tid_from_str (ro_rev r))) (\<lambda>rv.
        bindE (ok_or (Malformed ''a stored timestamp that is not one'') (stamp_parse J created)) (\<lambda>t.
        Inr \<lparr>ho_did = did, ho_root = \<lparr>rt_cid = c, rt_rev = rv\<rparr>, ho_created = t\<rparr>)))))"

definition hosted_repos ::
    "('c, 'j) accounts_lib_scheme \<Rightarrow> nat \<Rightarrow> hosted_cursor option \<Rightarrow> accounts \<Rightarrow> 'c store_error + 'c hosted list" where
  "hosted_repos J limit from db = mapE (hosted_of J) (hosted_page J limit from db)"


section \<open>Sessions\<close>

definition store_session :: "('c, 'j) actor_lib_scheme \<Rightarrow> session \<Rightarrow> accounts \<Rightarrow> accounts" where
  "store_session J s db = insert_session J s db"

definition find_app :: "string \<Rightarrow> string \<Rightarrow> accounts \<Rightarrow> app_row option" where
  "find_app d name db = find (\<lambda>r. ap_did r = d \<and> ap_name r = name) (app_rows db)"

definition session_of :: "('c, 'j) accounts_lib_scheme \<Rightarrow> string \<Rightarrow> accounts \<Rightarrow> 'c store_error + session option" where
  "session_of J jti db =
     (case map_of (refresh_tokens db) jti of
        None \<Rightarrow> Inr None
      | Some t \<Rightarrow>
          bindE (map_err (\<lambda>_. Malformed ''a stored DID that is not one'') (did_from_str (tk_did t))) (\<lambda>did.
          bindE (ok_or (Malformed ''a stored timestamp that is not one'') (stamp_parse J (tk_expires t))) (\<lambda>e.
          Inr (Some \<lparr>ss_id = jti, ss_did = did, ss_expires = e, ss_next = tk_next t,
            ss_app = map_option (\<lambda>name. \<lparr>app_name = name,
              app_privileged = (case find_app (tk_did t) name db of None \<Rightarrow> False | Some r \<Rightarrow> ap_privileged r)\<rparr>) (tk_app t)\<rparr>))))"

definition rotate_row :: "('c, 'j) actor_lib_scheme \<Rightarrow> string \<Rightarrow> nat \<Rightarrow> session \<Rightarrow> accounts \<Rightarrow> bool \<times> accounts" where
  "rotate_row J jti until next db =
     (case map_of (refresh_tokens db) jti of
        Some t \<Rightarrow>
          if tk_next t = None \<or> tk_next t = Some (ss_id next)
          then (True, insert_session J next
                 (db\<lparr>refresh_tokens := al_upd jti (t\<lparr>tk_expires := stamp J until, tk_next := Some (ss_id next)\<rparr>) (refresh_tokens db)\<rparr>))
          else (False, db)
      | None \<Rightarrow> (False, db))"

definition revoke_session :: "string \<Rightarrow> accounts \<Rightarrow> bool \<times> accounts" where
  "revoke_session jti db = (map_of (refresh_tokens db) jti \<noteq> None, db\<lparr>refresh_tokens := al_del jti (refresh_tokens db)\<rparr>)"

definition revoke_sessions :: "did \<Rightarrow> accounts \<Rightarrow> nat \<times> accounts" where
  "revoke_sessions did db =
     (length (filter (\<lambda>(_, t). tk_did t = did_str did) (refresh_tokens db)),
      db\<lparr>refresh_tokens := filter (\<lambda>(_, t). tk_did t \<noteq> did_str did) (refresh_tokens db)\<rparr>)"

definition expire_sessions :: "('c, 'j) actor_lib_scheme \<Rightarrow> did \<Rightarrow> nat \<Rightarrow> accounts \<Rightarrow> nat \<times> accounts" where
  "expire_sessions J did now db =
     (let gone = (\<lambda>t. tk_did t = did_str did \<and> tk_expires t \<le> stamp J now) in
      (length (filter (gone \<circ> snd) (refresh_tokens db)), db\<lparr>refresh_tokens := filter (\<lambda>(_, t). \<not> gone t) (refresh_tokens db)\<rparr>))"


section \<open>App passwords and invites\<close>

definition create_app_password ::
    "('c, 'j) accounts_lib_scheme \<Rightarrow> nat \<Rightarrow> did \<Rightarrow> app_password \<Rightarrow> string \<Rightarrow> accounts \<Rightarrow> ('c store_error + nat) \<times> accounts" where
  "create_app_password J now did p hash db =
     (if find_app (did_str did) (app_name p) db \<noteq> None then (Inl AppPasswordTaken, db)
      else (ok_or (Malformed ''a stamp that is not a timestamp'') (stamp_parse J (stamp J now)),
            db\<lparr>app_rows := app_rows db @ [\<lparr>ap_did = did_str did, ap_name = app_name p, ap_scrypt = hash,
               ap_created = stamp J now, ap_privileged = app_privileged p\<rparr>]\<rparr>))"

definition app_password_of :: "did \<Rightarrow> string \<Rightarrow> accounts \<Rightarrow> app_password option" where
  "app_password_of did hash db =
     map_option (\<lambda>r. \<lparr>app_name = ap_name r, app_privileged = ap_privileged r\<rparr>)
       (find (\<lambda>r. ap_did r = did_str did \<and> ap_scrypt r = hash) (app_rows db))"

definition app_passwords :: "('c, 'j) accounts_lib_scheme \<Rightarrow> did \<Rightarrow> accounts \<Rightarrow> 'c store_error + (app_password \<times> nat) list" where
  "app_passwords J did db =
     mapE (\<lambda>r. bindE (ok_or (Malformed ''a stored timestamp that is not one'') (stamp_parse J (ap_created r))) (\<lambda>t.
             Inr (\<lparr>app_name = ap_name r, app_privileged = ap_privileged r\<rparr>, t)))
       (rev (sort_key ap_created (rev (filter (\<lambda>r. ap_did r = did_str did) (app_rows db)))))"

definition revoke_app_password :: "did \<Rightarrow> string \<Rightarrow> accounts \<Rightarrow> bool \<times> accounts" where
  "revoke_app_password did name db =
     (find_app (did_str did) name db \<noteq> None,
      db\<lparr>app_rows := filter (\<lambda>r. \<not> (ap_did r = did_str did \<and> ap_name r = name)) (app_rows db),
         refresh_tokens := filter (\<lambda>(_, t). \<not> (tk_did t = did_str did \<and> tk_app t = Some name)) (refresh_tokens db)\<rparr>)"

definition insert_invite ::
    "('c, 'j) actor_lib_scheme \<Rightarrow> nat \<Rightarrow> string \<Rightarrow> string \<Rightarrow> nat \<Rightarrow> string \<Rightarrow> accounts \<Rightarrow> 'e store_error + accounts" where
  "insert_invite J now for_account created_by uses code db =
     (if map_of (invite_codes db) code \<noteq> None then Inl (unique_failed ''invite_code.code'')
      else Inr (db\<lparr>invite_codes := al_upd code \<lparr>iv_uses = uses, iv_disabled = False, iv_for = for_account,
        iv_by = created_by, iv_created = stamp J now\<rparr> (invite_codes db)\<rparr>))"

definition create_invites ::
    "('c, 'j) actor_lib_scheme \<Rightarrow> nat \<Rightarrow> string list \<Rightarrow> string \<Rightarrow> string \<Rightarrow> nat \<Rightarrow> accounts \<Rightarrow> 'e store_error + accounts" where
  "create_invites J now codes for_account created_by uses db =
     foldE (insert_invite J now for_account created_by uses) codes db"

end
