(* ===== verification/Limit.thy ===== *)
theory Limit
  imports Mst "HOL-Library.Word"
begin

unbundle bit_operations_syntax

text \<open>
  Rate limits, \<open>src/xrpc/limit.rs\<close>: the counting of one budget, the budgets a server holds, the
  middleware that spends from them, and whom a request is counted against.

  An \<open>Instant\<close> or a \<open>Duration\<close> is a natural number of nanoseconds and \<open>Instant::now()\<close> an
  argument \<open>now\<close>. The counts are behind a mutex, so a call to \<open>consume\<close> is one step from the
  limiter before to the limiter after. A \<open>HashMap\<close> is an association list kept in key order,
  which nothing here observes; \<open>u32\<close> counts are naturals that saturate where the code does.
\<close>

section \<open>Budgets\<close>

definition secs :: "nat \<Rightarrow> nat" where "secs s = s * 10 ^ 9"
definition as_secs :: "nat \<Rightarrow> nat" where "as_secs d = d div 10 ^ 9"
definition mins :: "nat \<Rightarrow> nat" where "mins m = secs (60 * m)"
definition hours :: "nat \<Rightarrow> nat" where "hours h = secs (3600 * h)"

definition GLOBAL_POINTS :: nat where "GLOBAL_POINTS = 3000"
definition GLOBAL_WINDOW :: nat where "GLOBAL_WINDOW = mins 5"
definition KEYS :: nat where "KEYS = 100000"
definition REPO :: "nat \<times> nat" where "REPO = (6000, mins 5)"
definition SESSION :: "(nat \<times> nat) list" where "SESSION = [(30, mins 5), (300, hours 24)]"
definition SIGNUP :: "nat \<times> nat" where "SIGNUP = (100, mins 5)"
definition WRITES :: "(nat \<times> nat) list" where "WRITES = [(5000, hours 1), (35000, hours 24)]"
definition CREATE_COST :: nat where "CREATE_COST = 3"
definition PUT_COST :: nat where "PUT_COST = 2"
definition DELETE_COST :: nat where "DELETE_COST = 1"
definition CREATE_SESSION :: string where "CREATE_SESSION = ''/xrpc/com.atproto.server.createSession''"
definition CREATE_ACCOUNT :: string where "CREATE_ACCOUNT = ''/xrpc/com.atproto.server.createAccount''"
definition GET_REPO :: string where "GET_REPO = ''/xrpc/com.atproto.sync.getRepo''"
definition SIGN_IN :: nat where "SIGN_IN = 8 * 1024"
definition NAMED :: nat where "NAMED = 256"

definition U32_MAX :: nat where "U32_MAX = 2 ^ 32 - 1"

definition saturating_add :: "nat \<Rightarrow> nat \<Rightarrow> nat" where
  "saturating_add a b = min (a + b) U32_MAX"

record window =
  w_points :: nat
  w_until :: nat

record counts =
  c_windows :: "(string \<times> window) list"
  c_swept :: nat
  c_full :: bool

record limiter =
  l_points :: nat
  l_window :: nat
  l_spent :: counts

record reading =
  r_limit :: nat
  r_window :: nat
  r_spent :: nat
  r_remaining :: nat
  r_resets_in :: nat
  r_exceeded :: bool

definition limiter_new :: "nat \<Rightarrow> nat \<Rightarrow> nat \<Rightarrow> limiter" where
  "limiter_new now points win =
     \<lparr>l_points = points, l_window = win, l_spent = \<lparr>c_windows = [], c_swept = now, c_full = False\<rparr>\<rparr>"

text \<open>The sweep at the head of \<open>consume\<close>.\<close>

definition sweep :: "nat \<Rightarrow> limiter \<Rightarrow> counts" where
  "sweep now l =
     (let c = l_spent l in
      if now - c_swept c \<ge> l_window l then
        \<lparr>c_windows = filter (\<lambda>(_, w). w_until w > now) (c_windows c), c_swept = now, c_full = False\<rparr>
      else c)"

text \<open>The window a key is counted in: its own while it runs, a fresh one otherwise.\<close>

definition open_window :: "nat \<Rightarrow> limiter \<Rightarrow> counts \<Rightarrow> string \<Rightarrow> window" where
  "open_window now l c key =
     (case map_of (c_windows c) key of
        Some w \<Rightarrow> if w_until w \<le> now then \<lparr>w_points = 0, w_until = now + l_window l\<rparr> else w
      | None \<Rightarrow> \<lparr>w_points = 0, w_until = now + l_window l\<rparr>)"

definition consume :: "nat \<Rightarrow> limiter \<Rightarrow> string \<Rightarrow> nat \<Rightarrow> reading \<times> limiter" where
  "consume now l key points =
     (let c = sweep now l in
      if length (c_windows c) \<ge> KEYS \<and> map_of (c_windows c) key = None then
        (\<lparr>r_limit = l_points l, r_window = l_window l, r_spent = 0, r_remaining = l_points l,
          r_resets_in = l_window l, r_exceeded = False\<rparr>,
         l\<lparr>l_spent := c\<lparr>c_full := True\<rparr>\<rparr>)
      else
        let w = open_window now l c key;
            w = w\<lparr>w_points := saturating_add (w_points w) points\<rparr> in
        (\<lparr>r_limit = l_points l, r_window = l_window l, r_spent = w_points w,
          r_remaining = l_points l - w_points w, r_resets_in = w_until w - now,
          r_exceeded = w_points w > l_points l\<rparr>,
         l\<lparr>l_spent := c\<lparr>c_windows := al_upd key w (c_windows c)\<rparr>\<rparr>))"

text \<open>\<open>Reading::write\<close>: the headers set, in order; \<open>unix\<close> is \<open>Timestamp::now().as_second()\<close>.\<close>

definition reading_write :: "nat \<Rightarrow> reading \<Rightarrow> (string \<times> string) list" where
  "reading_write unix r =
     [(''ratelimit-limit'', decimal (r_limit r)),
      (''ratelimit-remaining'', decimal (r_remaining r)),
      (''ratelimit-reset'', decimal (unix + as_secs (r_resets_in r))),
      (''ratelimit-policy'', decimal (r_limit r) @ '';w='' @ decimal (as_secs (r_window r)))]
     @ (if r_exceeded r then [(''retry-after'', decimal (as_secs (r_resets_in r) + 1))] else [])"


section \<open>Addresses\<close>

datatype ip_addr = V4 "8 word list" | V6 "8 word list"

fun ip_ok :: "ip_addr \<Rightarrow> bool" where
  "ip_ok (V4 os) \<longleftrightarrow> length os = 4"
| "ip_ok (V6 os) \<longleftrightarrow> length os = 16"

definition unique_local :: "8 word list \<Rightarrow> bool" where
  "unique_local os \<longleftrightarrow> os ! 0 AND 0xfe = 0xfc"

definition link_local :: "8 word list \<Rightarrow> bool" where
  "link_local os \<longleftrightarrow> os ! 0 = 0xfe \<and> os ! 1 AND 0xc0 = 0x80"

text \<open>\<open>Ipv4Addr::is_loopback\<close>, \<open>is_private\<close>, \<open>is_link_local\<close>, \<open>is_unspecified\<close> and the two of
  \<open>Ipv6Addr\<close>, as the standard library documents them.\<close>

definition v4_reserved :: "8 word list \<Rightarrow> bool" where
  "v4_reserved os \<longleftrightarrow>
     os ! 0 = 127
     \<or> (os ! 0 = 10 \<or> os ! 0 = 172 \<and> 16 \<le> os ! 1 \<and> os ! 1 \<le> 31 \<or> os ! 0 = 192 \<and> os ! 1 = 168)
     \<or> os ! 0 = 169 \<and> os ! 1 = 254
     \<or> os = [0, 0, 0, 0]"

definition v6_loopback :: "8 word list \<Rightarrow> bool" where
  "v6_loopback os \<longleftrightarrow> os = replicate 15 0 @ [1]"

definition v6_unspecified :: "8 word list \<Rightarrow> bool" where
  "v6_unspecified os \<longleftrightarrow> os = replicate 16 0"

fun internal :: "ip_addr \<Rightarrow> bool" where
  "internal (V4 os) \<longleftrightarrow> v4_reserved os \<or> os ! 0 = 100 \<and> os ! 1 AND 0xc0 = 64"
| "internal (V6 os) \<longleftrightarrow> v6_loopback os \<or> v6_unspecified os \<or> unique_local os \<or> link_local os"

definition to_ipv4_mapped :: "8 word list \<Rightarrow> 8 word list option" where
  "to_ipv4_mapped os = (if take 12 os = replicate 10 0 @ [0xff, 0xff] then Some (drop 12 os) else None)"

fun canonical :: "ip_addr \<Rightarrow> ip_addr" where
  "canonical (V6 os) = (case to_ipv4_mapped os of None \<Rightarrow> V6 os | Some v4 \<Rightarrow> V4 v4)"
| "canonical (V4 os) = V4 os"

text \<open>
  \<open>caller\<close>: \<open>forwarded\<close> holds the values of the header in order; \<open>parse_ip\<close> is
  \<open>str::parse::<IpAddr>\<close> of the standard library. A value with bytes outside visible ASCII is
  no text (\<open>HeaderValue::to_str\<close>), so \<open>trim\<close> has only spaces and tabs to drop.
\<close>

definition visible_ascii :: "byte \<Rightarrow> bool" where
  "visible_ascii b \<longleftrightarrow> 32 \<le> (of_char b :: nat) \<and> (of_char b :: nat) < 127 \<or> (of_char b :: nat) = 9"

definition is_blank :: "byte \<Rightarrow> bool" where
  "is_blank b \<longleftrightarrow> (of_char b :: nat) = 32 \<or> (of_char b :: nat) = 9"

definition trim :: "string \<Rightarrow> string" where
  "trim s = rev (dropWhile is_blank (rev (dropWhile is_blank s)))"

definition forwarded_ips :: "(string \<Rightarrow> ip_addr option) \<Rightarrow> bytes list \<Rightarrow> ip_addr list" where
  "forwarded_ips parse_ip forwarded =
     map canonical (List.map_filter (\<lambda>part. parse_ip (trim part))
       (concat (map (split_on CHR '','') (filter (list_all visible_ascii) forwarded))))"

definition caller :: "(string \<Rightarrow> ip_addr option) \<Rightarrow> ip_addr \<Rightarrow> bytes list \<Rightarrow> ip_addr" where
  "caller parse_ip peer forwarded =
     (let peer = canonical peer in
      if \<not> internal peer then peer
      else
        (case find (\<lambda>a. \<not> internal a) (rev (forwarded_ips parse_ip forwarded)) of
           Some a \<Rightarrow> a
         | None \<Rightarrow> peer))"

text \<open>\<open>budget\<close>: \<open>show_v6\<close> is \<open>Display for Ipv6Addr\<close> of the standard library.\<close>

definition show_v4 :: "8 word list \<Rightarrow> string" where
  "show_v4 os = join_with CHR ''.'' (map (\<lambda>b. decimal (unat b)) os)"

fun budget :: "(8 word list \<Rightarrow> string) \<Rightarrow> ip_addr \<Rightarrow> string" where
  "budget show_v6 (V4 os) = show_v4 os"
| "budget show_v6 (V6 os) = show_v6 (take 8 os @ replicate (length os - 8) 0) @ ''/64''"


section \<open>The limits of a server\<close>

record limits =
  ls_global :: limiter
  ls_session :: "limiter list"
  ls_signup :: limiter
  ls_repo :: limiter
  ls_writes :: "limiter list"
  ls_bypass_key :: "string option"
  ls_bypass_ips :: "ip_addr list"

definition limits_new :: "nat \<Rightarrow> bool \<Rightarrow> string option \<Rightarrow> ip_addr list \<Rightarrow> limits option" where
  "limits_new now rate_limits bypass_key bypass_ips =
     (if rate_limits then
        Some \<lparr>ls_global = limiter_new now GLOBAL_POINTS GLOBAL_WINDOW,
              ls_session = map (\<lambda>(p, w). limiter_new now p w) SESSION,
              ls_signup = limiter_new now (fst SIGNUP) (snd SIGNUP),
              ls_repo = limiter_new now (fst REPO) (snd REPO),
              ls_writes = map (\<lambda>(p, w). limiter_new now p w) WRITES,
              ls_bypass_key = bypass_key, ls_bypass_ips = bypass_ips\<rparr>
      else None)"

text \<open>\<open>iter().map(|budget| budget.consume(key, points)).collect()\<close>.\<close>

fun consume_all :: "nat \<Rightarrow> limiter list \<Rightarrow> string \<Rightarrow> nat \<Rightarrow> reading list \<times> limiter list" where
  "consume_all now [] key points = ([], [])"
| "consume_all now (l # ls) key points =
     (let (r, l) = consume now l key points; (rs, ls) = consume_all now ls key points in
      (r # rs, l # ls))"

definition writing :: "nat \<Rightarrow> limits \<Rightarrow> string \<Rightarrow> nat \<Rightarrow> reading option \<times> limits" where
  "writing now ls did points =
     (let (rs, ws) = consume_all now (ls_writes ls) did points in
      (find r_exceeded rs, ls\<lparr>ls_writes := ws\<rparr>))"

text \<open>\<open>crypto::same\<close> compares in constant time and is equality.\<close>

definition bypassed :: "limits \<Rightarrow> ip_addr \<Rightarrow> bytes option \<Rightarrow> bool" where
  "bypassed ls from offered =
     (if from \<in> set (ls_bypass_ips ls) then True
      else (case (ls_bypass_key ls, offered) of
              (Some key, Some sent) \<Rightarrow> sent = key
            | _ \<Rightarrow> False))"

text \<open>The most of a name a key is worth holding: back to a character boundary.\<close>

fun back_to_boundary :: "string \<Rightarrow> nat \<Rightarrow> nat" where
  "back_to_boundary s 0 = 0"
| "back_to_boundary s (Suc n) = (if is_char_boundary s (Suc n) then Suc n else back_to_boundary s n)"

definition shortened :: "string \<Rightarrow> string" where
  "shortened named =
     (if length named \<le> NAMED then named else take (back_to_boundary named NAMED) named)"

text \<open>
  What the middleware reads of a request. \<open>rq_upper\<close> is the upper size hint of the body, and
  \<open>rq_body\<close> its bytes, \<open>None\<close> when reading them fails.
\<close>

record request =
  rq_path :: string
  rq_forwarded :: "bytes list"
  rq_bypass :: "bytes option"
  rq_upper :: "nat option"
  rq_body :: "bytes option"

text \<open>The other functions the middleware calls: \<open>serde_json::from_slice::<SigningIn>\<close>, the Unicode
  \<open>str::to_lowercase\<close>, and the two of \<open>std::net\<close>.\<close>

record limit_lib =
  parse_signing_in :: "bytes \<Rightarrow> string option"
  to_lowercase :: "string \<Rightarrow> string"
  parse_ip :: "string \<Rightarrow> ip_addr option"
  show_v6 :: "8 word list \<Rightarrow> string"

definition signing_in :: "limit_lib \<Rightarrow> request \<Rightarrow> request \<times> string" where
  "signing_in B rq =
     (case rq_upper rq of
        None \<Rightarrow> (rq, [])
      | Some len \<Rightarrow>
          if len > SIGN_IN then (rq, [])
          else (case rq_body rq of
                  None \<Rightarrow> (rq\<lparr>rq_body := Some []\<rparr>, [])
                | Some b \<Rightarrow>
                    if length b > SIGN_IN then (rq\<lparr>rq_body := Some []\<rparr>, [])
                    else (rq, (case parse_signing_in B b of
                                 None \<Rightarrow> []
                               | Some ident \<Rightarrow> shortened (to_lowercase B ident)))))"

definition method_readings_of ::
    "limit_lib \<Rightarrow> nat \<Rightarrow> limits \<Rightarrow> string \<Rightarrow> request \<Rightarrow> request \<times> reading list \<times> limits" where
  "method_readings_of B now ls from rq =
     (if rq_path rq = CREATE_ACCOUNT then
        let (r, l) = consume now (ls_signup ls) from 1 in (rq, [r], ls\<lparr>ls_signup := l\<rparr>)
      else if rq_path rq = GET_REPO then
        let (r, l) = consume now (ls_repo ls) from 1 in (rq, [r], ls\<lparr>ls_repo := l\<rparr>)
      else if rq_path rq = CREATE_SESSION then
        let (rq, named) = signing_in B rq;
            (rs, l) = consume_all now (ls_session ls) (named @ ''-'' @ from) 1 in
        (rq, rs, ls\<lparr>ls_session := l\<rparr>)
      else (rq, [], ls))"

text \<open>\<open>min_by_key\<close> keeps the first of equal keys; \<open>false\<close> sorts below \<open>true\<close>.\<close>

definition tighter :: "reading \<Rightarrow> reading \<Rightarrow> bool" where
  "tighter a b \<longleftrightarrow>
     (r_exceeded a \<and> \<not> r_exceeded b) \<or> (r_exceeded a = r_exceeded b \<and> r_remaining a < r_remaining b)"

fun tightest :: "reading list \<Rightarrow> reading option" where
  "tightest [] = None"
| "tightest (r # rs) = Some (fold (\<lambda>x best. if tighter x best then x else best) rs r)"

text \<open>What becomes of a request: passed on to the rest of the server, or refused with
  \<open>RateLimitExceeded\<close>; with the reading whose headers the answer carries.\<close>

datatype verdict = Passed request "reading option" | Refused reading

definition global_limit ::
    "limit_lib \<Rightarrow> nat \<Rightarrow> limits \<Rightarrow> ip_addr \<Rightarrow> request \<Rightarrow> verdict \<times> limits" where
  "global_limit B now ls peer rq =
     (if \<not> starts_with (rq_path rq) ''/xrpc/'' then (Passed rq None, ls)
      else
        let from = caller (parse_ip B) peer (rq_forwarded rq) in
        if bypassed ls from (rq_bypass rq) then (Passed rq None, ls)
        else
          let key = budget (show_v6 B) from;
              (shared, ls) = (if rq_path rq \<noteq> GET_REPO
                then let (r, l) = consume now (ls_global ls) key 1 in ([r], ls\<lparr>ls_global := l\<rparr>)
                else ([], ls)) in
          (case find r_exceeded shared of
             Some r \<Rightarrow> (Refused r, ls)
           | None \<Rightarrow>
               let (rq, rs, ls) = method_readings_of B now ls key rq in
               (case tightest (shared @ rs) of
                  None \<Rightarrow> (Passed rq None, ls)
                | Some r \<Rightarrow> (if r_exceeded r then Refused r else Passed rq (Some r), ls))))"


section \<open>What a budget remembers\<close>

definition limiter_ok :: "limiter \<Rightarrow> bool" where
  "limiter_ok l \<longleftrightarrow> ascending (c_windows (l_spent l)) \<and> length (c_windows (l_spent l)) \<le> KEYS"

text \<open>The window a key is in at some time, if it is in one.\<close>

definition running :: "limiter \<Rightarrow> nat \<Rightarrow> string \<Rightarrow> window option" where
  "running l now key =
     (case map_of (c_windows (l_spent l)) key of
        Some w \<Rightarrow> if w_until w > now then Some w else None
      | None \<Rightarrow> None)"

definition spent_by :: "limiter \<Rightarrow> nat \<Rightarrow> string \<Rightarrow> nat" where
  "spent_by l now key = (case running l now key of Some w \<Rightarrow> w_points w | None \<Rightarrow> 0)"

text \<open>A key that is counted: it is known, or there is room for it.\<close>

definition counted :: "nat \<Rightarrow> limiter \<Rightarrow> string \<Rightarrow> bool" where
  "counted now l key \<longleftrightarrow>
     length (c_windows (sweep now l)) < KEYS \<or> map_of (c_windows (sweep now l)) key \<noteq> None"

lemma map_of_filter_until:
  assumes "ascending ws"
  shows "map_of (filter (\<lambda>(_, w). w_until w > now) ws) key =
    (case map_of ws key of Some w \<Rightarrow> if w_until w > now then Some w else None | None \<Rightarrow> None)"
  using assms
proof (induction ws)
  case (Cons p ws)
  obtain k w where p: "p = (k, w)" by fastforce
  have "map_of ws k = None"
    using ascending_not_key [of k w ws] Cons.prems p by (simp add: map_of_eq_None_iff)
  with Cons p show ?case by (auto split: option.splits)
qed simp

lemma sweep_ok:
  assumes "limiter_ok l"
  shows "ascending (c_windows (sweep now l))" "length (c_windows (sweep now l)) \<le> KEYS"
  using assms order_trans [OF length_filter_le]
  by (auto simp: limiter_ok_def sweep_def Let_def ascending_filter)

lemma sweep_running:
  assumes "limiter_ok l" "now \<le> later"
  shows "(case map_of (c_windows (sweep now l)) key of
      Some w \<Rightarrow> if w_until w > later then Some w else None | None \<Rightarrow> None) = running l later key"
  using assms
  by (auto simp: sweep_def running_def Let_def limiter_ok_def map_of_filter_until split: option.splits)

lemma length_al_upd:
  "ascending ps \<Longrightarrow> length (al_upd k v ps) = (if map_of ps k = None then Suc (length ps) else length ps)"
proof (induction ps)
  case (Cons p ps)
  obtain a b where p: "p = (a, b)" by fastforce
  have "map_of ps k = None" if "k < a"
    using Cons.prems p that by (fastforce simp: map_of_eq_None_iff)
  with Cons p show ?case by auto
qed simp

lemma consume_ok:
  assumes "limiter_ok l"
  shows "limiter_ok (snd (consume now l key points))"
  using sweep_ok [OF assms, of now]
  by (auto simp: limiter_ok_def consume_def Let_def ascending_al_upd length_al_upd split: if_splits)

lemma open_window_running:
  assumes "limiter_ok l"
  shows "open_window now l (sweep now l) key =
    (case running l now key of Some w \<Rightarrow> w | None \<Rightarrow> \<lparr>w_points = 0, w_until = now + l_window l\<rparr>)"
  using sweep_running [OF assms order_refl, of now key]
  by (auto simp: open_window_def split: option.splits if_splits)

lemma consume_counted:
  fixes points :: nat
  assumes "limiter_ok l" "counted now l key"
  defines "w \<equiv> case running l now key of Some w \<Rightarrow> w | None \<Rightarrow> \<lparr>w_points = 0, w_until = now + l_window l\<rparr>"
  defines "amount \<equiv> saturating_add (w_points w) points"
  shows "consume now l key points =
    (\<lparr>r_limit = l_points l, r_window = l_window l, r_spent = amount, r_remaining = l_points l - amount,
      r_resets_in = w_until w - now, r_exceeded = amount > l_points l\<rparr>,
     l\<lparr>l_spent := (sweep now l)\<lparr>c_windows := al_upd key (w\<lparr>w_points := amount\<rparr>) (c_windows (sweep now l))\<rparr>\<rparr>)"
  using assms(2) open_window_running [OF assms(1), of now key]
  by (auto simp: consume_def counted_def Let_def w_def amount_def)

lemma consume_running_other:
  assumes "limiter_ok l" "now \<le> later" "k \<noteq> key"
  shows "running (snd (consume now l key points)) later k = running l later k"
  using sweep_running [OF assms(1,2), of k] assms(3)
  by (auto simp: running_def consume_def Let_def)

text \<open>a counted request adds its points to what its key spent in the window it is in, opens a
  window of the budget's length only when none is running, is told exactly what is left, and is
  over budget exactly when the total is above it; a request never moves the end of a running
  window, and what other keys have spent is untouched, whatever the sweep drops.\<close>

theorem consume_correct:
  assumes "limiter_ok l" "counted now l key" "0 < l_window l"
  shows "let (r, l') = consume now l key points;
             amount = saturating_add (spent_by l now key) points;
             until = (case running l now key of Some w \<Rightarrow> w_until w | None \<Rightarrow> now + l_window l) in
         r_spent r = amount \<and> r_remaining r = l_points l - amount \<and> (r_exceeded r \<longleftrightarrow> amount > l_points l)
         \<and> r_resets_in r = until - now
         \<and> running l' now key = Some \<lparr>w_points = amount, w_until = until\<rparr>
         \<and> (\<forall>k later. k \<noteq> key \<longrightarrow> now \<le> later \<longrightarrow> running l' later k = running l later k)"
proof -
  define w where "w = (case running l now key of Some w \<Rightarrow> w | None \<Rightarrow> \<lparr>w_points = 0, w_until = now + l_window l\<rparr>)"
  have w: "w_points w = spent_by l now key"
      "w_until w = (case running l now key of Some w \<Rightarrow> w_until w | None \<Rightarrow> now + l_window l)"
    by (simp_all add: w_def spent_by_def split: option.splits)
  have "w_until w > now"
    using assms(3) by (auto simp: w_def running_def split: option.splits)
  note c = consume_counted [OF assms(1,2), of points, folded w_def]
  have "running (snd (consume now l key points)) now key
      = Some \<lparr>w_points = saturating_add (w_points w) points, w_until = w_until w\<rparr>"
    unfolding c using \<open>w_until w > now\<close> by (cases w) (simp add: running_def)
  moreover have "\<forall>k later. k \<noteq> key \<longrightarrow> now \<le> later \<longrightarrow> running (snd (consume now l key points)) later k = running l later k"
    using consume_running_other [OF assms(1)] by blast
  ultimately show ?thesis
    unfolding w(1) [symmetric] w(2) [symmetric] Let_def c by simp
qed

definition toy_limiter :: limiter where
  "toy_limiter = limiter_new 0 2 10"

lemma toy_limiter_ok: "limiter_ok toy_limiter" "counted 5 toy_limiter ''a''" "0 < l_window toy_limiter"
  by (simp_all add: limiter_ok_def counted_def toy_limiter_def limiter_new_def sweep_def KEYS_def)

theorem consume_correct_witness:
  "r_spent (fst (consume 5 toy_limiter ''a'' 3)) = 3 \<and> r_exceeded (fst (consume 5 toy_limiter ''a'' 3))
    \<and> running (snd (consume 5 toy_limiter ''a'' 3)) 5 ''a'' = Some \<lparr>w_points = 3, w_until = 15\<rparr>"
  using consume_correct [OF toy_limiter_ok, of 3]
  by (simp add: Let_def spent_by_def running_def toy_limiter_def limiter_new_def saturating_add_def U32_MAX_def
      split: prod.splits)

text \<open>Any number of requests.\<close>

fun consume_run :: "limiter \<Rightarrow> (nat \<times> string \<times> nat) list \<Rightarrow> limiter" where
  "consume_run l [] = l"
| "consume_run l ((now, key, points) # es) = consume_run (snd (consume now l key points)) es"

definition points_of :: "string \<Rightarrow> (nat \<times> string \<times> nat) list \<Rightarrow> nat" where
  "points_of key es = sum_list (map (\<lambda>(t, k, p). if k = key then p else 0) es)"

lemma consume_run_ok: "limiter_ok l \<Longrightarrow> limiter_ok (consume_run l es)"
  by (induction l es rule: consume_run.induct) (auto simp: consume_ok)

text \<open>C14: a budget holds at most \<open>KEYS\<close> keys however many requests it counts.\<close>

theorem limiter_bounded:
  "length (c_windows (l_spent (consume_run (limiter_new now points win) es))) \<le> KEYS"
  using consume_run_ok [of "limiter_new now points win" es]
  by (simp add: limiter_ok_def limiter_new_def)

lemma running_counted:
  assumes "limiter_ok l" "running l now key = Some w"
  shows "counted now l key"
  using sweep_running [OF assms(1) order_refl, of now key] assms(2)
  by (auto simp: counted_def split: option.splits)

lemma consume_window: "l_window (snd (consume now l key points)) = l_window l"
  by (simp add: consume_def Let_def)

lemma running_until: "running l t key = Some w \<Longrightarrow> t' < w_until w \<Longrightarrow> running l t' key = Some w"
  by (auto simp: running_def split: option.splits if_splits)

lemma consume_running_same:
  assumes "limiter_ok l" "running l now key = Some w"
  shows "running (snd (consume now l key points)) now key
    = Some (w\<lparr>w_points := saturating_add (w_points w) points\<rparr>)"
proof -
  have "w_until w > now" using assms(2) by (auto simp: running_def split: option.splits if_splits)
  then show ?thesis
    unfolding consume_counted [OF assms(1) running_counted [OF assms]] assms(2)
    by (simp add: running_def)
qed

lemma window_step:
  assumes "limiter_ok l" "running l t key = Some w" "now < w_until w"
  shows "running (snd (consume now l k p)) now key
    = Some (w\<lparr>w_points := (if k = key then saturating_add (w_points w) p else w_points w)\<rparr>)"
  using consume_running_same [OF assms(1) running_until [OF assms(2,3)], of p]
    consume_running_other [OF assms(1) order_refl, of key k now p] running_until [OF assms(2,3)]
  by auto

lemma consume_run_budget:
  "l_points (consume_run l es) = l_points l \<and> l_window (consume_run l es) = l_window l"
  by (induction l es rule: consume_run.induct) (simp_all add: consume_def Let_def)

lemma window_sum:
  assumes "limiter_ok l" "running l t key = Some w" "w_points w \<le> U32_MAX"
    "\<forall>(now, k, p) \<in> set es. now < w_until w" "t' < w_until w"
  shows "running (consume_run l es) t' key
    = Some \<lparr>w_points = min (w_points w + points_of key es) U32_MAX, w_until = w_until w\<rparr>"
  using assms
proof (induction es arbitrary: l t w)
  case Nil
  then show ?case using running_until [OF Nil(2,5)] by (cases w) (auto simp: points_of_def min_def)
next
  case (Cons e es)
  obtain now k p where e: "e = (now, k, p)" by (cases e)
  let ?w = "w\<lparr>w_points := (if k = key then saturating_add (w_points w) p else w_points w)\<rparr>"
  have r: "running (snd (consume now l k p)) now key = Some ?w"
    by (rule window_step [OF Cons.prems(1,2)]) (use Cons.prems(4) e in simp)
  have "running (consume_run (snd (consume now l k p)) es) t' key
      = Some \<lparr>w_points = min (w_points ?w + points_of key es) U32_MAX, w_until = w_until ?w\<rparr>"
    by (rule Cons.IH [OF consume_ok [OF Cons.prems(1)] r])
      (use Cons.prems(3-5) in \<open>auto simp: saturating_add_def\<close>)
  moreover have "points_of key (e # es) = (if k = key then p else 0) + points_of key es"
    using e by (simp add: points_of_def)
  then have "min (w_points ?w + points_of key es) U32_MAX = min (w_points w + points_of key (e # es)) U32_MAX"
    by (simp add: saturating_add_def min_def)
  ultimately show ?case using e by simp
qed

text \<open>C13: whatever requests come while a key's window runs, from whomever and however many of them
  are refused, the window ends when it was going to, and the key has spent what it had spent and
  the points of its own requests, up to the largest number the counter holds. The next request
  of the key in the window is told so: its reading has that total with its own points, what the
  budget has left beyond it, the time to the window's end, and is exceeded exactly when the
  total is above the budget.\<close>

theorem window_totals:
  assumes "limiter_ok l" "running l t key = Some w" "w_points w \<le> U32_MAX"
    "\<forall>(now, k, p) \<in> set es. now < w_until w" "next < w_until w"
  shows "running (consume_run l es) next key
      = Some \<lparr>w_points = min (w_points w + points_of key es) U32_MAX, w_until = w_until w\<rparr>
    \<and> (let total = min (w_points w + points_of key es + p) U32_MAX in
       fst (consume next (consume_run l es) key p)
         = \<lparr>r_limit = l_points l, r_window = l_window l, r_spent = total, r_remaining = l_points l - total,
            r_resets_in = w_until w - next, r_exceeded = total > l_points l\<rparr>)"
proof -
  note ok = consume_run_ok [OF assms(1), of es]
  note r = window_sum [OF assms]
  have "saturating_add (min (w_points w + points_of key es) U32_MAX) p
      = min (w_points w + points_of key es + p) U32_MAX"
    by (simp add: saturating_add_def min_def)
  then show ?thesis
    using consume_counted [OF ok running_counted [OF ok r], of p] r consume_run_budget [of l es]
    by (simp add: Let_def)
qed

definition toy_running :: limiter where
  "toy_running = snd (consume 5 toy_limiter ''a'' 3)"

theorem window_totals_witness:
  "running (consume_run toy_running [(6, ''b'', 1), (9, ''a'', 4)]) 11 ''a'' = Some \<lparr>w_points = 7, w_until = 15\<rparr>
   \<and> fst (consume 11 (consume_run toy_running [(6, ''b'', 1), (9, ''a'', 4)]) ''a'' 2)
     = \<lparr>r_limit = 2, r_window = 10, r_spent = 9, r_remaining = 0, r_resets_in = 4, r_exceeded = True\<rparr>"
proof -
  have r: "running toy_running 5 ''a'' = Some \<lparr>w_points = 3, w_until = 15\<rparr>"
    by (simp add: toy_running_def toy_limiter_def limiter_new_def consume_def sweep_def open_window_def
        running_def saturating_add_def U32_MAX_def KEYS_def Let_def)
  have b: "l_points toy_running = 2" "l_window toy_running = 10"
    by (simp_all add: toy_running_def consume_def toy_limiter_def limiter_new_def Let_def)
  have "limiter_ok toy_running" unfolding toy_running_def by (rule consume_ok [OF toy_limiter_ok(1)])
  from window_totals [OF this r, of "[(6, ''b'', 1), (9, ''a'', 4)]" 11 2] show ?thesis
    by (simp add: points_of_def U32_MAX_def b)
qed


section \<open>Which budget refuses\<close>

lemma tighter_trans:
  "tighter x y \<Longrightarrow> \<not> tighter x z \<Longrightarrow> \<not> tighter y z"
  "\<not> tighter x y \<Longrightarrow> \<not> tighter y z \<Longrightarrow> \<not> tighter x z"
  unfolding tighter_def by auto

lemma fold_tightest:
  defines "f \<equiv> \<lambda>x best. if tighter x best then x else best"
  shows "fold f rs r \<in> set (r # rs) \<and> (\<forall>x \<in> set (r # rs). \<not> tighter x (fold f rs r))"
proof (induction rs arbitrary: r)
  case Nil
  then show ?case by (simp add: tighter_def)
next
  case (Cons a rs)
  have IH: "fold f rs (f a r) \<in> set (f a r # rs)" "\<forall>x \<in> set (f a r # rs). \<not> tighter x (fold f rs (f a r))"
    using Cons.IH [of "f a r"] by blast+
  have "\<not> tighter (f a r) (fold f rs (f a r))" using IH(2) by simp
  then have "\<not> tighter a (fold f rs (f a r))" "\<not> tighter r (fold f rs (f a r))"
    using tighter_trans [of a r "fold f rs (f a r)"]
    by (cases "tighter a r"; simp add: f_def [abs_def])+
  moreover have "f a r = a \<or> f a r = r" by (simp add: f_def)
  ultimately show ?case using IH by auto
qed

text \<open>of the budgets a request spent from, the one the caller is held to refuses exactly when one
  of them is exceeded, and no budget that agrees with it on that has less left.\<close>

theorem tightest_correct:
  assumes "tightest rs = Some r"
  shows "r \<in> set rs \<and> (r_exceeded r \<longleftrightarrow> (\<exists>x \<in> set rs. r_exceeded x))
    \<and> (\<forall>x \<in> set rs. r_exceeded x = r_exceeded r \<longrightarrow> r_remaining r \<le> r_remaining x)"
proof (cases rs)
  case (Cons a xs)
  then have "r = fold (\<lambda>x best. if tighter x best then x else best) xs a" using assms by simp
  with fold_tightest [of xs a] Cons have r: "r \<in> set rs" "\<forall>x \<in> set rs. \<not> tighter x r" by auto
  then show ?thesis by (auto simp: tighter_def not_less)
qed (use assms in simp)

definition toy_readings :: "reading list" where
  "toy_readings =
     [\<lparr>r_limit = 9, r_window = 1, r_spent = 9, r_remaining = 0, r_resets_in = 1, r_exceeded = False\<rparr>,
      \<lparr>r_limit = 9, r_window = 1, r_spent = 10, r_remaining = 0, r_resets_in = 1, r_exceeded = True\<rparr>]"

theorem tightest_correct_witness:
  "tightest toy_readings = Some (toy_readings ! 1) \<and> r_exceeded (toy_readings ! 1)"
proof -
  have t: "tightest toy_readings = Some (toy_readings ! 1)" by (simp add: toy_readings_def tighter_def)
  then show ?thesis using tightest_correct [OF t] by (simp add: toy_readings_def)
qed

lemma consume_all_eq:
  "consume_all now ls key points = (map (\<lambda>l. fst (consume now l key points)) ls, map (\<lambda>l. snd (consume now l key points)) ls)"
  by (induction ls) (simp_all add: Let_def split: prod.splits)

text \<open>a write is charged to every write budget of the account, also to those behind one that
  refuses it, and is refused exactly when one of them is exceeded.\<close>

theorem writing_charges_all:
  "ls_writes (snd (writing now ls did points)) = map (\<lambda>l. snd (consume now l did points)) (ls_writes ls)
   \<and> (fst (writing now ls did points) \<noteq> None
       \<longleftrightarrow> (\<exists>l \<in> set (ls_writes ls). r_exceeded (fst (consume now l did points))))
   \<and> ls_global (snd (writing now ls did points)) = ls_global ls"
  by (auto simp: writing_def consume_all_eq find_None_iff2 find_None_iff Let_def comp_def)

text \<open>The budgets a verdict rests on.\<close>

lemma method_readings:
  "method_readings_of B now ls from rq = (rq', rs, ls') \<Longrightarrow> ls_global ls' = ls_global ls \<and> ls_writes ls' = ls_writes ls"
  by (auto simp: method_readings_of_def Let_def split: if_splits prod.splits)

text \<open>The budgets a request is held to, each with the key it is counted under: the shared one, except
  for an export, and those of the method.\<close>

definition held_to :: "limit_lib \<Rightarrow> limits \<Rightarrow> string \<Rightarrow> request \<Rightarrow> (limiter \<times> string) list" where
  "held_to B ls key rq =
     (if rq_path rq = GET_REPO then [(ls_repo ls, key)]
      else (ls_global ls, key)
        # (if rq_path rq = CREATE_ACCOUNT then [(ls_signup ls, key)]
           else if rq_path rq = CREATE_SESSION
             then map (\<lambda>l. (l, snd (signing_in B rq) @ ''-'' @ key)) (ls_session ls)
           else []))"

definition readings :: "nat \<Rightarrow> (limiter \<times> string) list \<Rightarrow> reading list" where
  "readings now = map (\<lambda>(l, key). fst (consume now l key 1))"

definition charged :: "nat \<Rightarrow> (limiter \<times> string) list \<Rightarrow> (limiter \<times> string) list" where
  "charged now = map (\<lambda>(l, key). (snd (consume now l key 1), key))"

lemma paths_differ [simp]:
  "CREATE_ACCOUNT \<noteq> GET_REPO" "CREATE_SESSION \<noteq> GET_REPO" "CREATE_SESSION \<noteq> CREATE_ACCOUNT"
  "GET_REPO \<noteq> CREATE_ACCOUNT" "GET_REPO \<noteq> CREATE_SESSION" "CREATE_ACCOUNT \<noteq> CREATE_SESSION"
  by (simp_all add: CREATE_ACCOUNT_def GET_REPO_def CREATE_SESSION_def)

lemma held_to_readings:
  assumes "method_readings_of B now (if rq_path rq = GET_REPO then ls else ls\<lparr>ls_global := l\<rparr>) key rq = (rq', rs, ls')"
    "consume now (ls_global ls) key 1 = (r, l)"
  shows "(if rq_path rq = GET_REPO then [] else [r]) @ rs = readings now (held_to B ls key rq)
    \<and> held_to B ls' key rq = charged now (held_to B ls key rq)
    \<and> rq' = (if rq_path rq = CREATE_SESSION then fst (signing_in B rq) else rq)"
  using assms
  by (auto simp: method_readings_of_def held_to_def readings_def charged_def consume_all_eq Let_def comp_def
      split: if_splits prod.splits)

lemma held_to_some: "readings now (held_to B ls key rq) \<noteq> []"
  by (simp add: held_to_def readings_def)

text \<open>The middleware beyond its two early answers.\<close>

lemma global_limit_held_to:
  assumes "starts_with (rq_path rq) ''/xrpc/''" "\<not> bypassed ls from (rq_bypass rq)"
    "consume now (ls_global ls) key 1 = (r, l)"
  defines "ls1 \<equiv> if rq_path rq = GET_REPO then ls else ls\<lparr>ls_global := l\<rparr>"
  assumes "from = caller (parse_ip B) peer (rq_forwarded rq)" "key = budget (show_v6 B) from"
    "method_readings_of B now ls1 key rq = (rq2, rs, ls2)"
  shows "global_limit B now ls peer rq =
    (if rq_path rq \<noteq> GET_REPO \<and> r_exceeded r then (Refused r, ls\<lparr>ls_global := l\<rparr>)
     else (case tightest (readings now (held_to B ls key rq)) of
        None \<Rightarrow> (Passed rq2 None, ls2)
      | Some r \<Rightarrow> (if r_exceeded r then Refused r else Passed rq2 (Some r), ls2)))"
proof -
  have rs: "readings now (held_to B ls key rq) = (if rq_path rq = GET_REPO then [] else [r]) @ rs"
    using held_to_readings [OF assms(7) [unfolded ls1_def] assms(3)] by simp
  have "global_limit B now ls peer rq =
    (case find r_exceeded (if rq_path rq = GET_REPO then [] else [r]) of
       Some r \<Rightarrow> (Refused r, ls1)
     | None \<Rightarrow> (case tightest ((if rq_path rq = GET_REPO then [] else [r]) @ rs) of
          None \<Rightarrow> (Passed rq2 None, ls2)
        | Some r \<Rightarrow> (if r_exceeded r then Refused r else Passed rq2 (Some r), ls2)))"
    using assms(1-3,5-7)
    by (cases "rq_path rq = GET_REPO") (simp_all add: global_limit_def ls1_def Let_def)
  then show ?thesis unfolding rs by (simp add: ls1_def)
qed


definition toy_limits :: limits where
  "toy_limits = \<lparr>ls_global = limiter_new 0 5 10, ls_session = [], ls_signup = limiter_new 0 0 10,
     ls_repo = limiter_new 0 1 1, ls_writes = [], ls_bypass_key = None, ls_bypass_ips = []\<rparr>"

definition toy_limit_lib :: limit_lib where
  "toy_limit_lib = \<lparr>parse_signing_in = (\<lambda>b. None), to_lowercase = to_ascii_lowercase, parse_ip = (\<lambda>s. None),
     show_v6 = (\<lambda>os. ''v6'')\<rparr>"

definition toy_request :: request where
  "toy_request = \<lparr>rq_path = CREATE_ACCOUNT, rq_forwarded = [], rq_bypass = None, rq_upper = None, rq_body = None\<rparr>"



section \<open>Whom a request is counted against\<close>

text \<open>C39: a peer that could be on the internet is counted as itself whatever headers it sends; behind
  an internal peer the caller is the last forwarded address that is not internal, or the peer when
  there is none. In every case an address that is internal is never believed from a header.\<close>

theorem caller_correct:
  "(if internal (canonical peer)
    then (\<exists>before after. forwarded_ips P fw = before @ caller P peer fw # after
            \<and> \<not> internal (caller P peer fw) \<and> list_all internal after)
       \<or> (caller P peer fw = canonical peer \<and> list_all internal (forwarded_ips P fw))
    else caller P peer fw = canonical peer)"
proof (cases "internal (canonical peer)")
  case True
  show ?thesis
  proof (cases "find (\<lambda>a. \<not> internal a) (rev (forwarded_ips P fw))")
    case None
    then have "caller P peer fw = canonical peer" "\<forall>a \<in> set (forwarded_ips P fw). internal a"
      using True unfolding caller_def Let_def by (simp_all only: if_False not_True_eq_False option.case)
        (simp add: find_None_iff)
    then show ?thesis using True by (simp add: list_all_iff)
  next
    case (Some a)
    then obtain i where i: "i < length (rev (forwarded_ips P fw))" "\<not> internal a" "a = rev (forwarded_ips P fw) ! i"
        "\<forall>j < i. internal (rev (forwarded_ips P fw) ! j)"
      by (auto simp: find_Some_iff)
    let ?r = "rev (forwarded_ips P fw)"
    have "?r = take i ?r @ a # drop (Suc i) ?r" using i(1,3) by (metis id_take_nth_drop)
    then have "forwarded_ips P fw = rev (drop (Suc i) ?r) @ a # rev (take i ?r)"
      by (metis append.assoc append_Cons append_Nil rev.simps(2) rev_append rev_rev_ident)
    moreover have "\<forall>x \<in> set (rev (take i ?r)). internal x"
      using i(4) by (auto simp: in_set_conv_nth)
    moreover have "caller P peer fw = a" using True Some by (simp add: caller_def)
    ultimately have "\<exists>before after. forwarded_ips P fw = before @ caller P peer fw # after
        \<and> \<not> internal (caller P peer fw) \<and> (\<forall>a \<in> set after. internal a)"
      using i(2) by blast
    then show ?thesis using True by (simp add: list_all_iff)
  qed
qed (simp add: caller_def Let_def)

text \<open>every address of an IPv6 network of 64 bits spends from one budget, and an address spelled
  as an IPv4 address mapped into IPv6 spends from the budget of that IPv4 address.\<close>

theorem budget_same_network:
  assumes "length a = 16" "length b = 16" "take 8 a = take 8 b"
  shows "budget S (V6 a) = budget S (V6 b)
    \<and> budget S (canonical (V6 (replicate 10 0 @ [0xff, 0xff] @ c))) = budget S (V4 c)"
  using assms by (simp add: to_ipv4_mapped_def)

theorem budget_same_network_witness:
  "budget (\<lambda>os. ''net'') (V6 (replicate 16 0)) = budget (\<lambda>os. ''net'') (V6 (replicate 8 0 @ replicate 8 1))"
  using budget_same_network [of "replicate 16 0" "replicate 8 0 @ replicate 8 1"] by simp

end
