(* ===== verification/Xrpc.thy ===== *)
theory Xrpc
  imports Limit Syntax
begin

text \<open>
  What a failed call answers with, and what a path no method has is answered with: \<open>src/xrpc.rs\<close> and
  \<open>src/xrpc/route.rs\<close>. A response is its status, the two fields of its body and its headers; the JSON
  around the fields is serde's. Routing a path to its handler is axum's.
\<close>

section \<open>Statuses\<close>

datatype status =
    InvalidRequest
  | AuthenticationRequired
  | Forbidden
  | XrpcNotSupported
  | NotAcceptable
  | PayloadTooLarge
  | UnsupportedMediaType
  | RateLimitExceeded
  | InternalServerError
  | MethodNotImplemented
  | UpstreamFailure
  | NotEnoughResources
  | UpstreamTimeout

fun status_code :: "status \<Rightarrow> nat" where
  "status_code InvalidRequest = 400"
| "status_code AuthenticationRequired = 401"
| "status_code Forbidden = 403"
| "status_code XrpcNotSupported = 404"
| "status_code NotAcceptable = 406"
| "status_code PayloadTooLarge = 413"
| "status_code UnsupportedMediaType = 415"
| "status_code RateLimitExceeded = 429"
| "status_code InternalServerError = 500"
| "status_code MethodNotImplemented = 501"
| "status_code UpstreamFailure = 502"
| "status_code NotEnoughResources = 503"
| "status_code UpstreamTimeout = 504"

fun status_name :: "status \<Rightarrow> string" where
  "status_name InvalidRequest = ''InvalidRequest''"
| "status_name AuthenticationRequired = ''AuthenticationRequired''"
| "status_name Forbidden = ''Forbidden''"
| "status_name XrpcNotSupported = ''XRPCNotSupported''"
| "status_name NotAcceptable = ''NotAcceptable''"
| "status_name PayloadTooLarge = ''PayloadTooLarge''"
| "status_name UnsupportedMediaType = ''UnsupportedMediaType''"
| "status_name RateLimitExceeded = ''RateLimitExceeded''"
| "status_name InternalServerError = ''InternalServerError''"
| "status_name MethodNotImplemented = ''MethodNotImplemented''"
| "status_name UpstreamFailure = ''UpstreamFailure''"
| "status_name NotEnoughResources = ''NotEnoughResources''"
| "status_name UpstreamTimeout = ''UpstreamTimeout''"

fun status_description :: "status \<Rightarrow> string" where
  "status_description InvalidRequest = ''Invalid Request''"
| "status_description AuthenticationRequired = ''Authentication Required''"
| "status_description Forbidden = ''Forbidden''"
| "status_description XrpcNotSupported = ''XRPC Not Supported''"
| "status_description NotAcceptable = ''Not Acceptable''"
| "status_description PayloadTooLarge = ''Payload Too Large''"
| "status_description UnsupportedMediaType = ''Unsupported Media Type''"
| "status_description RateLimitExceeded = ''Rate Limit Exceeded''"
| "status_description InternalServerError = ''Internal Server Error''"
| "status_description MethodNotImplemented = ''Method Not Implemented''"
| "status_description UpstreamFailure = ''Upstream Failure''"
| "status_description NotEnoughResources = ''Not Enough Resources''"
| "status_description UpstreamTimeout = ''Upstream Timeout''"


section \<open>Errors\<close>

record xrpc_error =
  x_status :: status
  x_name :: "string option"
  x_message :: "string option"
  x_limit :: "reading option"

definition xrpc_new :: "status \<Rightarrow> xrpc_error" where
  "xrpc_new s = \<lparr>x_status = s, x_name = None, x_message = None, x_limit = None\<rparr>"

definition saying :: "string \<Rightarrow> xrpc_error \<Rightarrow> xrpc_error" where
  "saying m e = e\<lparr>x_message := Some m\<rparr>"

definition named :: "string \<Rightarrow> xrpc_error \<Rightarrow> xrpc_error" where
  "named n e = e\<lparr>x_name := Some n\<rparr>"

definition limited :: "reading \<Rightarrow> xrpc_error \<Rightarrow> xrpc_error" where
  "limited r e = e\<lparr>x_limit := Some r\<rparr>"

definition invalid_request :: "string \<Rightarrow> xrpc_error" where
  "invalid_request m = saying m (xrpc_new InvalidRequest)"

definition auth_required :: "string \<Rightarrow> xrpc_error" where
  "auth_required m = saying m (xrpc_new AuthenticationRequired)"

definition xrpc_internal :: "string \<Rightarrow> xrpc_error" where
  "xrpc_internal m = saying m (xrpc_new InternalServerError)"

definition xrpc_name :: "xrpc_error \<Rightarrow> string" where
  "xrpc_name e = (case x_name e of None \<Rightarrow> status_name (x_status e) | Some n \<Rightarrow> n)"

definition xrpc_message :: "xrpc_error \<Rightarrow> string" where
  "xrpc_message e =
     (if x_status e = InternalServerError then status_description (x_status e)
      else case x_message e of None \<Rightarrow> status_description (x_status e) | Some m \<Rightarrow> m)"

record response =
  rs_code :: nat
  rs_error :: string
  rs_message :: string
  rs_headers :: "(string \<times> string) list"

definition xrpc_response :: "nat \<Rightarrow> xrpc_error \<Rightarrow> response" where
  "xrpc_response unix e =
     \<lparr>rs_code = status_code (x_status e), rs_error = xrpc_name e, rs_message = xrpc_message e,
      rs_headers = (case x_limit e of None \<Rightarrow> [] | Some r \<Rightarrow> reading_write unix r)\<rparr>"


section \<open>Paths and verbs\<close>

definition trim_end :: "byte \<Rightarrow> string \<Rightarrow> string" where
  "trim_end c s = rev (dropWhile (\<lambda>x. x = c) (rev s))"

text \<open>\<open>Inl\<close> is a bare 404 with no body.\<close>

definition route_fallback :: "string \<Rightarrow> nat + xrpc_error" where
  "route_fallback path =
     (case strip_prefix ''/xrpc/'' path of
        None \<Rightarrow> Inl 404
      | Some rest \<Rightarrow>
          (case nsid_from_str (trim_end CHR ''/'' rest) of
             Inl _ \<Rightarrow> Inr (invalid_request ''invalid xrpc path'')
           | Inr _ \<Rightarrow> Inr (xrpc_new MethodNotImplemented)))"

definition mismatch :: "string \<Rightarrow> string \<Rightarrow> xrpc_error" where
  "mismatch used wanted = invalid_request (''Incorrect HTTP method ('' @ used @ '') expected '' @ wanted)"

definition listed_all :: "(string \<times> string) list \<Rightarrow> string \<Rightarrow> string list" where
  "listed_all pairs name = map snd (filter (\<lambda>(k, v). k = name) pairs)"


section \<open>What a client is told\<close>

text \<open>The message of a fault on this side never leaves the server.\<close>

lemma internal_message: "xrpc_message (xrpc_internal m) = ''Internal Server Error''"
  by (simp add: xrpc_message_def xrpc_internal_def saying_def xrpc_new_def)

lemma status_code_inj: "status_code s = status_code t \<Longrightarrow> s = t"
  by (cases s; cases t; simp)

lemma saying_named_simps [simp]:
  "x_status (saying m e) = x_status e" "x_name (saying m e) = x_name e" "x_message (saying m e) = Some m"
  "x_status (named n e) = x_status e" "x_name (named n e) = Some n" "x_message (named n e) = x_message e"
  by (simp_all add: saying_def named_def)

end
