(* ===== verification/Auth.thy ===== *)
theory Auth
  imports Xrpc Crypto "HOL-Library.Countable"
begin

text \<open>
  Session tokens and the credentials of a request: \<open>src/xrpc/auth.rs\<close>. The JSON of a token's two parts,
  base64, HMAC-SHA256 and UTF-8 are functions of the library record; the time is an argument, in
  nanoseconds. The mark that makes a response private is set by every extraction of a credential,
  which is the flag \<open>authorization_read\<close> returns.
\<close>

section \<open>Scopes\<close>

datatype scope = ScAccess | ScRefresh | ScAppPassword | ScPrivilegedAppPassword | ScSignupQueued | ScTakenDown

definition FULL :: "scope list" where "FULL = [ScAccess]"
definition PRIVILEGED :: "scope list" where "PRIVILEGED = [ScAccess, ScPrivilegedAppPassword]"
definition STANDARD :: "scope list" where "STANDARD = [ScAccess, ScPrivilegedAppPassword, ScAppPassword]"

fun scope_as_str :: "scope \<Rightarrow> string" where
  "scope_as_str ScAccess = ''com.atproto.access''"
| "scope_as_str ScRefresh = ''com.atproto.refresh''"
| "scope_as_str ScAppPassword = ''com.atproto.appPass''"
| "scope_as_str ScPrivilegedAppPassword = ''com.atproto.appPassPrivileged''"
| "scope_as_str ScSignupQueued = ''com.atproto.signupQueued''"
| "scope_as_str ScTakenDown = ''com.atproto.takendown''"

definition scope_from_str :: "string \<Rightarrow> scope option" where
  "scope_from_str s =
     (if s = ''com.atproto.access'' then Some ScAccess
      else if s = ''com.atproto.refresh'' then Some ScRefresh
      else if s = ''com.atproto.appPass'' then Some ScAppPassword
      else if s = ''com.atproto.appPassPrivileged'' then Some ScPrivilegedAppPassword
      else if s = ''com.atproto.signupQueued'' then Some ScSignupQueued
      else if s = ''com.atproto.takendown'' then Some ScTakenDown
      else None)"

datatype expired = RefuseExpired | AllowExpired


section \<open>Tokens\<close>

record access =
  at_did :: did
  at_scope :: scope

record refresh =
  rf_did :: did
  rf_id :: string

record tokens =
  tn_key :: bytes
  tn_audience :: string

record token_header =
  th_alg :: string
  th_typ :: string

record claims =
  cl_scope :: string
  cl_sub :: string
  cl_aud :: string
  cl_iat :: int
  cl_exp :: int
  cl_jti :: "string option"
  cl_lxm :: "string option"
  cl_cnf :: "string option"

record auth_lib =
  url_encode :: "bytes \<Rightarrow> string"
  url_decode :: "string \<Rightarrow> bytes option"
  hmac_sha256 :: "bytes \<Rightarrow> bytes \<Rightarrow> bytes"
  header_json :: "token_header \<Rightarrow> bytes"
  header_parse :: "bytes \<Rightarrow> token_header option"
  claims_json :: "claims \<Rightarrow> bytes"
  claims_parse :: "bytes \<Rightarrow> claims option"
  base64_standard :: "string \<Rightarrow> bytes option"
  from_utf8 :: "bytes \<Rightarrow> string option"

definition SECOND :: nat where "SECOND = 1000000000"
definition ACCESS_LIFETIME :: nat where "ACCESS_LIFETIME = 120 * 60 * SECOND"
definition REFRESH_LIFETIME :: nat where "REFRESH_LIFETIME = 90 * 24 * 3600 * SECOND"

definition as_second :: "nat \<Rightarrow> int" where
  "as_second t = int (t div SECOND)"

definition unverifiable :: xrpc_error where
  "unverifiable = named ''InvalidToken'' (invalid_request ''Token could not be verified'')"

definition malformed_token :: xrpc_error where
  "malformed_token = named ''InvalidToken'' (invalid_request ''Malformed token'')"

definition token_mint :: "auth_lib \<Rightarrow> tokens \<Rightarrow> nat \<Rightarrow> string \<Rightarrow> did \<Rightarrow> scope \<Rightarrow> string option \<Rightarrow> nat \<Rightarrow> string" where
  "token_mint H T now typ did sc jti lifetime =
     (let cl = \<lparr>cl_scope = scope_as_str sc, cl_sub = did_str did, cl_aud = tn_audience T, cl_iat = as_second now,
                cl_exp = as_second (now + lifetime), cl_jti = jti, cl_lxm = None, cl_cnf = None\<rparr>;
          hd = \<lparr>th_alg = ''HS256'', th_typ = typ\<rparr>;
          signed = url_encode H (header_json H hd) @ ''.'' @ url_encode H (claims_json H cl) in
      signed @ ''.'' @ url_encode H (hmac_sha256 H (tn_key T) signed))"

definition access_for :: "auth_lib \<Rightarrow> tokens \<Rightarrow> nat \<Rightarrow> did \<Rightarrow> scope \<Rightarrow> nat \<Rightarrow> string" where
  "access_for H T now did sc lifetime = token_mint H T now ''at+jwt'' did sc None lifetime"

definition token_access :: "auth_lib \<Rightarrow> tokens \<Rightarrow> nat \<Rightarrow> did \<Rightarrow> scope \<Rightarrow> string" where
  "token_access H T now did sc = access_for H T now did sc ACCESS_LIFETIME"

definition token_refresh :: "auth_lib \<Rightarrow> tokens \<Rightarrow> nat \<Rightarrow> did \<Rightarrow> string \<Rightarrow> string" where
  "token_refresh H T now did jti = token_mint H T now ''refresh+jwt'' did ScRefresh (Some jti) REFRESH_LIFETIME"

definition rsplit_once :: "byte \<Rightarrow> string \<Rightarrow> (string \<times> string) option" where
  "rsplit_once d s = map_option (\<lambda>(b, a). (rev a, rev b)) (split_once d (rev s))"

definition token_part :: "auth_lib \<Rightarrow> (bytes \<Rightarrow> 'a option) \<Rightarrow> string \<Rightarrow> xrpc_error + 'a" where
  "token_part H parse s = bindE (ok_or unverifiable (url_decode H s)) (\<lambda>b. ok_or malformed_token (parse b))"

definition token_verify ::
    "auth_lib \<Rightarrow> tokens \<Rightarrow> nat \<Rightarrow> string \<Rightarrow> string \<Rightarrow> scope list \<Rightarrow> expired \<Rightarrow> xrpc_error + claims" where
  "token_verify H T now token typ scopes ex =
     bindE (ok_or unverifiable (rsplit_once CHR ''.'' token)) (\<lambda>(signed, signature).
     bindE (ok_or unverifiable (split_once CHR ''.'' signed)) (\<lambda>(hd, payload).
     if CHR ''.'' \<in> set payload then Inl unverifiable
     else
       bindE (token_part H (header_parse H) hd) (\<lambda>hd.
       if th_alg hd \<noteq> ''HS256'' \<or> th_typ hd \<noteq> typ then Inl unverifiable
       else
         bindE (ok_or unverifiable (url_decode H signature)) (\<lambda>sig.
         if sig \<noteq> hmac_sha256 H (tn_key T) signed then Inl unverifiable
         else
           bindE (token_part H (claims_parse H) payload) (\<lambda>cl.
           if ex = RefuseExpired \<and> cl_exp cl \<le> as_second now
           then Inl (named ''ExpiredToken'' (invalid_request ''Token has expired''))
           else if cl_aud cl \<noteq> tn_audience T then Inl unverifiable
           else if cl_lxm cl \<noteq> None \<or> cl_cnf cl \<noteq> None then Inl malformed_token
           else if \<not> (case scope_from_str (cl_scope cl) of None \<Rightarrow> False | Some sc \<Rightarrow> sc \<in> set scopes)
           then Inl (named ''InvalidToken'' (invalid_request ''Bad token scope''))
           else Inr cl)))))"

definition claims_did :: "string \<Rightarrow> xrpc_error + did" where
  "claims_did sub = map_err (\<lambda>_. malformed_token) (did_from_str sub)"

definition claims_scope :: "string \<Rightarrow> xrpc_error + scope" where
  "claims_scope s = ok_or malformed_token (scope_from_str s)"

definition verify_access :: "auth_lib \<Rightarrow> tokens \<Rightarrow> nat \<Rightarrow> string \<Rightarrow> scope list \<Rightarrow> xrpc_error + access" where
  "verify_access H T now token scopes =
     bindE (token_verify H T now token ''at+jwt'' scopes RefuseExpired) (\<lambda>cl.
     bindE (claims_did (cl_sub cl)) (\<lambda>did.
     bindE (claims_scope (cl_scope cl)) (\<lambda>sc. Inr \<lparr>at_did = did, at_scope = sc\<rparr>)))"

definition verify_refresh :: "auth_lib \<Rightarrow> tokens \<Rightarrow> nat \<Rightarrow> string \<Rightarrow> expired \<Rightarrow> xrpc_error + refresh" where
  "verify_refresh H T now token ex =
     bindE (token_verify H T now token ''refresh+jwt'' [ScRefresh] ex) (\<lambda>cl.
     bindE (ok_or (named ''MissingTokenId'' (auth_required ''Unexpected missing refresh token id'')) (cl_jti cl)) (\<lambda>jti.
     bindE (claims_did (cl_sub cl)) (\<lambda>did. Inr \<lparr>rf_did = did, rf_id = jti\<rparr>)))"


section \<open>Credentials\<close>

text \<open>The code compares the scheme in capitals; the letters are the same in small ones.\<close>

datatype credential = Bearer string | Dpop string | Basic string string

definition basic :: "auth_lib \<Rightarrow> string \<Rightarrow> credential option" where
  "basic H token =
     Option.bind (base64_standard H token) (\<lambda>b.
     Option.bind (from_utf8 H b) (\<lambda>s.
     map_option (\<lambda>(u, p). Basic u p) (split_once CHR '':'' s)))"

definition malformed_header :: xrpc_error where
  "malformed_header = named ''InvalidToken'' (invalid_request ''Malformed authorization header'')"

definition authorization_parse :: "auth_lib \<Rightarrow> string option \<Rightarrow> xrpc_error + credential option" where
  "authorization_parse H header =
     (case header of
        None \<Rightarrow> Inr None
      | Some h \<Rightarrow>
          bindE (ok_or malformed_header (split_once CHR '' '' h)) (\<lambda>(scheme, token).
          if CHR '' '' \<in> set token then Inl malformed_header
          else let s = to_ascii_lowercase scheme in
            if s = ''bearer'' then Inr (Some (Bearer token))
            else if s = ''dpop'' then Inr (Some (Dpop token))
            else if s = ''basic'' then Inr (basic H token)
            else Inl (named ''InvalidToken'' (invalid_request (''Unsupported authorization type: '' @ scheme)))))"

text \<open>A header value that is not text is \<open>Some None\<close>.\<close>

definition authorization_from_headers :: "auth_lib \<Rightarrow> string option option \<Rightarrow> xrpc_error + credential option" where
  "authorization_from_headers H header =
     (case header of
        None \<Rightarrow> authorization_parse H None
      | Some None \<Rightarrow> Inl malformed_header
      | Some (Some h) \<Rightarrow> authorization_parse H (Some h))"

definition bearer :: "credential option \<Rightarrow> string option" where
  "bearer c = (case c of Some (Bearer t) \<Rightarrow> Some t | _ \<Rightarrow> None)"

definition auth_missing :: xrpc_error where
  "auth_missing = named ''AuthMissing'' (xrpc_new AuthenticationRequired)"

definition extract_access :: "auth_lib \<Rightarrow> tokens \<Rightarrow> nat \<Rightarrow> string option option \<Rightarrow> scope list \<Rightarrow> xrpc_error + access" where
  "extract_access H T now header scopes =
     bindE (authorization_from_headers H header) (\<lambda>c.
     bindE (ok_or auth_missing (bearer c)) (\<lambda>token. verify_access H T now token scopes))"

definition extract_standard :: "auth_lib \<Rightarrow> tokens \<Rightarrow> nat \<Rightarrow> string option option \<Rightarrow> xrpc_error + access" where
  "extract_standard H T now header = extract_access H T now header STANDARD"

definition extract_full :: "auth_lib \<Rightarrow> tokens \<Rightarrow> nat \<Rightarrow> string option option \<Rightarrow> xrpc_error + access" where
  "extract_full H T now header = extract_access H T now header FULL"

definition extract_refresh :: "auth_lib \<Rightarrow> tokens \<Rightarrow> nat \<Rightarrow> string option option \<Rightarrow> expired \<Rightarrow> xrpc_error + refresh" where
  "extract_refresh H T now header ex =
     bindE (authorization_from_headers H header) (\<lambda>c.
     bindE (ok_or auth_missing (bearer c)) (\<lambda>token. verify_refresh H T now token ex))"

definition AUTH_ADMINISTRATOR :: string where "AUTH_ADMINISTRATOR = ''admin''"

definition extract_admin :: "auth_lib \<Rightarrow> string \<Rightarrow> string option option \<Rightarrow> xrpc_error + unit" where
  "extract_admin H admin_password header =
     bindE (authorization_from_headers H header) (\<lambda>c.
     case c of
       Some (Basic username password) \<Rightarrow>
         if username \<noteq> AUTH_ADMINISTRATOR \<or> \<not> same password admin_password
         then Inl (xrpc_new AuthenticationRequired) else Inr ()
     | _ \<Rightarrow> Inl auth_missing)"

text \<open>The middleware around every method: a response whose handler read a credential is marked.\<close>

definition private_headers :: "bool \<Rightarrow> (string \<times> string) list \<Rightarrow> (string \<times> string) list" where
  "private_headers authorization_read headers =
     (if authorization_read
      then filter (\<lambda>(n, v). n \<noteq> ''cache-control'') headers @ [(''cache-control'', ''private''), (''vary'', ''Authorization'')]
      else headers)"


section \<open>What a token proves\<close>

text \<open>Base64 in the URL alphabet has no full stop, and the parts read back as they were written.\<close>

definition auth_ok :: "auth_lib \<Rightarrow> bool" where
  "auth_ok H \<longleftrightarrow>
     (\<forall>b. url_decode H (url_encode H b) = Some b \<and> CHR ''.'' \<notin> set (url_encode H b))
     \<and> (\<forall>h. header_parse H (header_json H h) = Some h) \<and> (\<forall>c. claims_parse H (claims_json H c) = Some c)"

lemma scope_roundtrip [simp]: "scope_from_str (scope_as_str sc) = Some sc"
  by (cases sc) (simp_all add: scope_from_str_def)

lemma rsplit_once_last: "d \<notin> set b \<Longrightarrow> rsplit_once d (a @ d # b) = Some (a, b)"
proof -
  assume d: "d \<notin> set b"
  have "rev (a @ d # b) = rev b @ d # rev a" by simp
  then have "split_once d (rev (a @ d # b)) = Some (rev b, rev a)" using d by (simp add: split_once_Some)
  then show ?thesis by (simp add: rsplit_once_def)
qed

lemma rsplit_once_Some: "rsplit_once d s = Some (a, b) \<Longrightarrow> s = a @ d # b \<and> d \<notin> set b"
  by (auto simp: rsplit_once_def split_once_Some rev_swap)

lemma mint_verify:
  assumes "auth_ok H"
  shows "token_verify H T now' (token_mint H T now typ did sc jti life) typ' scopes ex =
    (if typ \<noteq> typ' then Inl unverifiable
     else if ex = RefuseExpired \<and> as_second (now + life) \<le> as_second now'
     then Inl (named ''ExpiredToken'' (invalid_request ''Token has expired''))
     else if sc \<notin> set scopes then Inl (named ''InvalidToken'' (invalid_request ''Bad token scope''))
     else Inr \<lparr>cl_scope = scope_as_str sc, cl_sub = did_str did, cl_aud = tn_audience T, cl_iat = as_second now,
                cl_exp = as_second (now + life), cl_jti = jti, cl_lxm = None, cl_cnf = None\<rparr>)"
proof -
  have b: "url_decode H (url_encode H x) = Some x" "CHR ''.'' \<notin> set (url_encode H x)" for x
    using assms by (simp_all add: auth_ok_def)
  have j: "header_parse H (header_json H h) = Some h" "claims_parse H (claims_json H c) = Some c" for h c
    using assms by (simp_all add: auth_ok_def)
  let ?h = "url_encode H (header_json H \<lparr>th_alg = ''HS256'', th_typ = typ\<rparr>)"
  have r: "rsplit_once CHR ''.'' ((?h @ CHR ''.'' # p) @ CHR ''.'' # url_encode H m) = Some (?h @ CHR ''.'' # p, url_encode H m)" for p m
    by (rule rsplit_once_last [OF b(2)])
  have s: "split_once CHR ''.'' (?h @ CHR ''.'' # p) = Some (?h, p)" for p using b(2) by (simp add: split_once_Some)
  show ?thesis
    using r s b j by (simp add: token_mint_def token_verify_def token_part_def ok_or_def Let_def)
qed

text \<open>C35: a token reads back as what it was minted for: an access token as its account and scope, to a
  caller that takes the scope and until the second it expires at; a refresh token as its account and
  session; and neither is ever read as the other.\<close>

theorem token_roundtrip:
  assumes "auth_ok H" "did_from_str (did_str did) = Inr did"
  shows "verify_access H T now' (token_access H T now did sc) scopes =
      (if as_second (now + ACCESS_LIFETIME) \<le> as_second now'
       then Inl (named ''ExpiredToken'' (invalid_request ''Token has expired''))
       else if sc \<notin> set scopes then Inl (named ''InvalidToken'' (invalid_request ''Bad token scope''))
       else Inr \<lparr>at_did = did, at_scope = sc\<rparr>)
    \<and> verify_refresh H T now' (token_refresh H T now did jti) ex =
      (if ex = RefuseExpired \<and> as_second (now + REFRESH_LIFETIME) \<le> as_second now'
       then Inl (named ''ExpiredToken'' (invalid_request ''Token has expired''))
       else Inr \<lparr>rf_did = did, rf_id = jti\<rparr>)
    \<and> verify_refresh H T now' (token_access H T now did sc) ex = Inl unverifiable
    \<and> verify_access H T now' (token_refresh H T now did jti) scopes = Inl unverifiable"
  using assms(2)
  by (simp add: verify_access_def verify_refresh_def token_access_def token_refresh_def access_for_def
      mint_verify [OF assms(1)] claims_did_def claims_scope_def ok_or_def)

text \<open>Nothing is accepted that does not carry the server's own signature over what is read from it.\<close>

lemma token_verify_Inr:
  assumes "token_verify H T now token typ scopes ex = Inr cl"
  obtains hd payload sig h hb pb sc where "token = hd @ ''.'' @ payload @ ''.'' @ sig"
    "url_decode H sig = Some (hmac_sha256 H (tn_key T) (hd @ ''.'' @ payload))"
    "url_decode H hd = Some hb" "header_parse H hb = Some h" "th_alg h = ''HS256''" "th_typ h = typ"
    "url_decode H payload = Some pb" "claims_parse H pb = Some cl" "cl_aud cl = tn_audience T"
    "ex = RefuseExpired \<longrightarrow> as_second now < cl_exp cl" "scope_from_str (cl_scope cl) = Some sc" "sc \<in> set scopes"
    "CHR ''.'' \<notin> set hd" "CHR ''.'' \<notin> set payload" "CHR ''.'' \<notin> set sig"
proof -
  obtain signed sig where r: "rsplit_once CHR ''.'' token = Some (signed, sig)"
    using assms by (auto simp: token_verify_def ok_or_def result_simps split: option.splits)
  then have t: "token = signed @ ''.'' @ sig" "CHR ''.'' \<notin> set sig"
    using rsplit_once_Some [OF r] by simp_all
  obtain hd payload where s: "split_once CHR ''.'' signed = Some (hd, payload)"
    using assms r by (auto simp: token_verify_def ok_or_def result_simps split: option.splits)
  then have u: "signed = hd @ ''.'' @ payload" "CHR ''.'' \<notin> set hd" by (auto simp: split_once_Some)
  note v = assms [unfolded token_verify_def r s ok_or_def option.case sum.case bindE_simps prod.case]
  have n: "CHR ''.'' \<notin> set payload" using v by (auto split: if_splits)
  obtain h where h: "token_part H (header_parse H) hd = Inr h" using v n by (auto simp: bindE_eq_Inr)
  have t': "th_alg h = ''HS256''" "th_typ h = typ" using v n h by (auto split: if_splits)
  obtain g where g: "url_decode H sig = Some g" using v n h t' by (cases "url_decode H sig") auto
  have g': "g = hmac_sha256 H (tn_key T) signed" using v n h t' g by (auto split: if_splits)
  obtain c where c: "token_part H (claims_parse H) payload = Inr c" using v n h t' g g' by (auto simp: bindE_eq_Inr)
  have e: "c = cl" "cl_aud cl = tn_audience T" "ex = RefuseExpired \<longrightarrow> as_second now < cl_exp cl"
      "\<exists>sc. scope_from_str (cl_scope cl) = Some sc \<and> sc \<in> set scopes"
    using v n h t' g g' c by (auto split: if_splits option.splits)
  have p: "\<exists>b. url_decode H x = Some b \<and> f b = Some y" if "token_part H f x = Inr y" for f :: "bytes \<Rightarrow> 'z option" and x y
    using that by (auto simp: token_part_def ok_or_def result_simps split: option.splits)
  show thesis using that t u n t' g g' e p [OF h] p [OF c] by auto
qed

text \<open>C36: whatever is offered, a token accepted as access was signed by this server as an access token for
  this audience, has not expired and carries one of the scopes asked for; and a token that is accepted
  as access is refused as refresh, whenever and however it is asked.\<close>

theorem token_accepted_is_signed:
  assumes "verify_access H T now token scopes = Inr a"
  shows "at_scope a \<in> set scopes
    \<and> (\<exists>hd payload sig hb h pb cl. token = hd @ ''.'' @ payload @ ''.'' @ sig
        \<and> url_decode H sig = Some (hmac_sha256 H (tn_key T) (hd @ ''.'' @ payload))
        \<and> url_decode H hd = Some hb \<and> header_parse H hb = Some h \<and> th_alg h = ''HS256'' \<and> th_typ h = ''at+jwt''
        \<and> url_decode H payload = Some pb \<and> claims_parse H pb = Some cl \<and> cl_aud cl = tn_audience T
        \<and> as_second now < cl_exp cl \<and> did_from_str (cl_sub cl) = Inr (at_did a)
        \<and> scope_from_str (cl_scope cl) = Some (at_scope a))
    \<and> verify_refresh H T now' token ex = Inl unverifiable"
proof -
  obtain cl where cl: "token_verify H T now token ''at+jwt'' scopes RefuseExpired = Inr cl"
      "did_from_str (cl_sub cl) = Inr (at_did a)" "scope_from_str (cl_scope cl) = Some (at_scope a)"
    using assms by (auto simp: verify_access_def claims_did_def claims_scope_def ok_or_def result_simps split: option.splits)
  from cl(1) show ?thesis
  proof (rule token_verify_Inr)
    fix hd payload sig h hb pb sc
    assume t: "token = hd @ ''.'' @ payload @ ''.'' @ sig"
      and g: "url_decode H sig = Some (hmac_sha256 H (tn_key T) (hd @ ''.'' @ payload))"
      and h: "url_decode H hd = Some hb" "header_parse H hb = Some h" "th_alg h = ''HS256''" "th_typ h = ''at+jwt''"
      and p: "url_decode H payload = Some pb" "claims_parse H pb = Some cl" "cl_aud cl = tn_audience T"
      and e: "RefuseExpired = RefuseExpired \<longrightarrow> as_second now < cl_exp cl" "scope_from_str (cl_scope cl) = Some sc" "sc \<in> set scopes"
      and d: "CHR ''.'' \<notin> set hd" "CHR ''.'' \<notin> set payload" "CHR ''.'' \<notin> set sig"
    have "rsplit_once CHR ''.'' token = Some (hd @ CHR ''.'' # payload, sig)"
      using rsplit_once_last [OF d(3), of "hd @ CHR ''.'' # payload"] t by simp
    moreover have "split_once CHR ''.'' (hd @ CHR ''.'' # payload) = Some (hd, payload)" using d(1) by (simp add: split_once_Some)
    ultimately have "verify_refresh H T now' token ex = Inl unverifiable"
      using d(2) h by (simp add: verify_refresh_def token_verify_def token_part_def ok_or_def)
    moreover have "\<exists>hd payload sig hb h pb cl. token = hd @ ''.'' @ payload @ ''.'' @ sig
        \<and> url_decode H sig = Some (hmac_sha256 H (tn_key T) (hd @ ''.'' @ payload))
        \<and> url_decode H hd = Some hb \<and> header_parse H hb = Some h \<and> th_alg h = ''HS256'' \<and> th_typ h = ''at+jwt''
        \<and> url_decode H payload = Some pb \<and> claims_parse H pb = Some cl \<and> cl_aud cl = tn_audience T
        \<and> as_second now < cl_exp cl \<and> did_from_str (cl_sub cl) = Inr (at_did a)
        \<and> scope_from_str (cl_scope cl) = Some (at_scope a)"
      by (rule exI [of _ hd], rule exI [of _ payload], rule exI [of _ sig], rule exI [of _ hb], rule exI [of _ h],
          rule exI [of _ pb], rule exI [of _ cl]) (use t g h p e cl(2,3) in simp)
    ultimately show ?thesis using e cl(3) by simp
  qed
qed

text \<open>the administrator's methods answer to the one name and the one password, and to nothing else a
  request can carry.\<close>

theorem admin_iff:
  "extract_admin H password header = Inr () \<longleftrightarrow>
     (\<exists>scheme token b. header = Some (Some (scheme @ '' '' @ token)) \<and> CHR '' '' \<notin> set scheme \<and> CHR '' '' \<notin> set token
        \<and> to_ascii_lowercase scheme = ''basic'' \<and> base64_standard H token = Some b \<and> from_utf8 H b = Some (''admin:'' @ password))"
proof -
  have b: "basic H token = Some (Basic u p) \<longleftrightarrow>
      (\<exists>b. base64_standard H token = Some b \<and> from_utf8 H b = Some (u @ '':'' @ p) \<and> CHR '':'' \<notin> set u)" for token u p
    by (auto simp: basic_def split_once_Some bind_eq_Some_conv)
  have a: "authorization_parse H (Some h) = Inr (Some (Basic u p)) \<longleftrightarrow>
      (\<exists>scheme token. split_once CHR '' '' h = Some (scheme, token) \<and> CHR '' '' \<notin> set token
        \<and> to_ascii_lowercase scheme = ''basic'' \<and> basic H token = Some (Basic u p))" for h u p
    by (cases "split_once CHR '' '' h") (auto simp: authorization_parse_def ok_or_def Let_def split: if_splits)
  have "extract_admin H password header = Inr () \<longleftrightarrow> authorization_from_headers H header = Inr (Some (Basic ''admin'' password))"
  proof (cases "authorization_from_headers H header")
    case (Inr c)
    then show ?thesis
    proof (cases c)
      case (Some x)
      then show ?thesis using Inr by (cases x) (auto simp: extract_admin_def AUTH_ADMINISTRATOR_def same_iff)
    qed (simp add: extract_admin_def)
  qed (simp add: extract_admin_def)
  also have "\<dots> \<longleftrightarrow> (\<exists>h. header = Some (Some h) \<and> authorization_parse H (Some h) = Inr (Some (Basic ''admin'' password)))"
    by (auto simp: authorization_from_headers_def authorization_parse_def split: option.splits)
  also have "\<dots> \<longleftrightarrow> (\<exists>h scheme token. header = Some (Some h) \<and> split_once CHR '' '' h = Some (scheme, token) \<and> CHR '' '' \<notin> set token
        \<and> to_ascii_lowercase scheme = ''basic'' \<and> basic H token = Some (Basic ''admin'' password))"
    unfolding a by blast
  also have "\<dots> \<longleftrightarrow> (\<exists>scheme token. header = Some (Some (scheme @ '' '' @ token)) \<and> CHR '' '' \<notin> set scheme \<and> CHR '' '' \<notin> set token
        \<and> to_ascii_lowercase scheme = ''basic'' \<and> basic H token = Some (Basic ''admin'' password))"
    unfolding split_once_Some by auto
  finally show ?thesis by (auto simp: b)
qed


section \<open>An instance\<close>

text \<open>Texts of bytes without a full stop: each byte is preceded by a mark, a full stop replaced by one.\<close>

definition toy_escape :: "bytes \<Rightarrow> string" where
  "toy_escape b = concat (map (\<lambda>c. if c = CHR ''.'' then ''ab'' else [CHR ''c'', c]) b)"

fun toy_unescape :: "string \<Rightarrow> bytes option" where
  "toy_unescape [] = Some []"
| "toy_unescape (m # c # s) = map_option (\<lambda>r. (if m = CHR ''a'' then CHR ''.'' else c) # r) (toy_unescape s)"
| "toy_unescape _ = None"

lemma toy_unescape_escape: "toy_unescape (toy_escape b) = Some b"
  by (induction b) (simp_all add: toy_escape_def)

definition claims_tuple :: "claims \<Rightarrow> string \<times> string \<times> string \<times> int \<times> int \<times> string option \<times> string option \<times> string option" where
  "claims_tuple c = (cl_scope c, cl_sub c, cl_aud c, cl_iat c, cl_exp c, cl_jti c, cl_lxm c, cl_cnf c)"

definition tuple_claims :: "string \<times> string \<times> string \<times> int \<times> int \<times> string option \<times> string option \<times> string option \<Rightarrow> claims" where
  "tuple_claims x = (case x of (a, b, c, d, e, f, g, h) \<Rightarrow>
     \<lparr>cl_scope = a, cl_sub = b, cl_aud = c, cl_iat = d, cl_exp = e, cl_jti = f, cl_lxm = g, cl_cnf = h\<rparr>)"

definition toy_auth_lib :: auth_lib where
  "toy_auth_lib = \<lparr>url_encode = toy_escape, url_decode = toy_unescape, hmac_sha256 = (\<lambda>k m. k @ m),
     header_json = (\<lambda>h. replicate (to_nat (th_alg h, th_typ h)) CHR ''x''),
     header_parse = (\<lambda>b. case from_nat (length b) of (a, t) \<Rightarrow> Some \<lparr>th_alg = a, th_typ = t\<rparr>),
     claims_json = (\<lambda>c. replicate (to_nat (claims_tuple c)) CHR ''x''), claims_parse = (\<lambda>b. Some (tuple_claims (from_nat (length b)))),
     base64_standard = Some, from_utf8 = Some\<rparr>"

lemma toy_escape_stop: "CHR ''.'' \<notin> set (toy_escape b)"
  by (auto simp: toy_escape_def)

lemma toy_auth_ok: "auth_ok toy_auth_lib"
  by (simp add: auth_ok_def toy_auth_lib_def toy_unescape_escape toy_escape_stop claims_tuple_def tuple_claims_def)

definition toy_tokens :: tokens where "toy_tokens = \<lparr>tn_key = ''k'', tn_audience = ''did:web:a''\<rparr>"

lemma toy_token_did: "did_from_str (did_str (Did ''did:plc:a'')) = Inr (Did ''did:plc:a'')"
  by code_simp

theorem token_roundtrip_witness:
  "verify_access toy_auth_lib toy_tokens 0 (token_access toy_auth_lib toy_tokens 0 (Did ''did:plc:a'') ScAppPassword) STANDARD
     = Inr \<lparr>at_did = Did ''did:plc:a'', at_scope = ScAppPassword\<rparr>"
  using token_roundtrip [OF toy_auth_ok toy_token_did, of toy_tokens 0 0 ScAppPassword STANDARD]
  by (simp add: STANDARD_def as_second_def ACCESS_LIFETIME_def SECOND_def)

theorem token_accepted_is_signed_witness:
  "verify_refresh toy_auth_lib toy_tokens 0 (token_access toy_auth_lib toy_tokens 0 (Did ''did:plc:a'') ScAppPassword) AllowExpired
     = Inl unverifiable"
proof -
  have "verify_access toy_auth_lib toy_tokens 0 (token_access toy_auth_lib toy_tokens 0 (Did ''did:plc:a'') ScAppPassword) STANDARD
     = Inr \<lparr>at_did = Did ''did:plc:a'', at_scope = ScAppPassword\<rparr>"
    using mint_verify [OF toy_auth_ok, of toy_tokens 0 0] toy_token_did
    by (simp add: verify_access_def token_access_def access_for_def STANDARD_def as_second_def ACCESS_LIFETIME_def SECOND_def
        claims_did_def claims_scope_def scope_from_str_def ok_or_def)
  from token_accepted_is_signed [OF this] show ?thesis by blast
qed

end
