(* ===== verification/Credentials.thy ===== *)
theory Credentials
  imports Crypto
begin

text \<open>
  Passwords, \<open>src/account/password.rs\<close>, and email addresses, \<open>src/account/email.rs\<close>. \<open>scrypt\<close> at the
  parameters of the source and SHA-256 are parameters; the salt is drawn by the caller.
\<close>

section \<open>Passwords\<close>

definition SALT :: nat where "SALT = 16"

definition with_salt :: "(bytes \<Rightarrow> bytes \<Rightarrow> bytes) \<Rightarrow> string \<Rightarrow> string \<Rightarrow> string" where
  "with_salt scrypt password salt = salt @ CHR '':'' # to_hex (scrypt password salt)"

definition password_hash :: "(bytes \<Rightarrow> bytes \<Rightarrow> bytes) \<Rightarrow> bytes \<Rightarrow> string \<Rightarrow> string" where
  "password_hash scrypt salt password = with_salt scrypt password (to_hex salt)"

definition password_app :: "(bytes \<Rightarrow> bytes \<Rightarrow> bytes) \<Rightarrow> (bytes \<Rightarrow> bytes) \<Rightarrow> did \<Rightarrow> string \<Rightarrow> string" where
  "password_app scrypt sha did password = with_salt scrypt password (to_hex (take SALT (sha (did_str did))))"

definition password_verify :: "(bytes \<Rightarrow> bytes \<Rightarrow> bytes) \<Rightarrow> string \<Rightarrow> string \<Rightarrow> bool" where
  "password_verify scrypt password stored =
     (case split_once CHR '':'' stored of
        None \<Rightarrow> False
      | Some (salt, _) \<Rightarrow> same (with_salt scrypt password salt) stored)"

definition NOTHING :: string where
  "NOTHING = replicate 32 CHR ''0'' @ CHR '':'' # replicate 128 CHR ''0''"

definition password_nobody :: "(bytes \<Rightarrow> bytes \<Rightarrow> bytes) \<Rightarrow> string \<Rightarrow> bool" where
  "password_nobody scrypt password = password_verify scrypt password NOTHING"


section \<open>Addresses\<close>

definition LOCAL :: nat where "LOCAL = 64"
definition DOMAIN :: nat where "DOMAIN = 255"

definition PUNCTUATION :: string where
  "PUNCTUATION = ''!#$%&'' @ [CHR 0x27] @ ''*+-/=?^_`{|}~.''"

fun has_double_dot :: "string \<Rightarrow> bool" where
  "has_double_dot (a # b # s) = (a = CHR ''.'' \<and> b = CHR ''.'' \<or> has_double_dot (b # s))"
| "has_double_dot _ = False"

definition local_part :: "string \<Rightarrow> bool" where
  "local_part l \<longleftrightarrow>
     l \<noteq> [] \<and> length l \<le> LOCAL \<and> \<not> starts_with l ''.'' \<and> \<not> ends_with_byte l CHR ''.'' \<and> \<not> has_double_dot l
     \<and> list_all (\<lambda>c. is_ascii_alphanumeric c \<or> c \<in> set PUNCTUATION) l"

definition domain_label :: "string \<Rightarrow> bool" where
  "domain_label l \<longleftrightarrow>
     l \<noteq> [] \<and> length l \<le> 63 \<and> \<not> starts_with l ''-'' \<and> \<not> ends_with_byte l CHR ''-''
     \<and> list_all (\<lambda>b. is_ascii_alphanumeric b \<or> b = CHR ''-'') l"

definition domain_part :: "string \<Rightarrow> bool" where
  "domain_part d \<longleftrightarrow>
     d \<noteq> [] \<and> length d \<le> DOMAIN \<and> CHR ''.'' \<in> set d \<and> list_all domain_label (split_on CHR ''.'' d)"

definition plausible :: "string \<Rightarrow> bool" where
  "plausible address =
     (case split_once CHR ''@'' address of
        None \<Rightarrow> False
      | Some (l, d) \<Rightarrow> if CHR ''@'' \<in> set d then False else local_part l \<and> domain_part d)"


section \<open>What is accepted\<close>

lemma split_once_first:
  "c \<notin> set a \<Longrightarrow> split_once c (a @ c # b) = Some (a, b)"
  by (induction a) auto

lemma hex_no_colon: "CHR '':'' \<notin> set (to_hex bs)"
proof -
  have "\<not> is_ascii_hexdigit CHR '':''" by (simp add: is_ascii_hexdigit_def ascii_defs less_eq_char_def)
  then show ?thesis using to_hex_digits [of bs] by (auto simp: list_all_iff)
qed

text \<open>a stored hash accepts a password exactly when the password derives, under the salt written in
  it, what is stored: its own password always, any other only if \<open>scrypt\<close> maps the two to the same
  bytes; and an identifier nobody holds is refused unless a derivation is all zeros.\<close>

theorem password_verify_iff:
  "(password_verify scrypt p (password_hash scrypt salt q) \<longleftrightarrow> scrypt p (to_hex salt) = scrypt q (to_hex salt))
   \<and> (password_verify scrypt p (password_app scrypt sha did q)
     \<longleftrightarrow> scrypt p (to_hex (take SALT (sha (did_str did)))) = scrypt q (to_hex (take SALT (sha (did_str did)))))
   \<and> (password_nobody scrypt p \<longleftrightarrow> to_hex (scrypt p (replicate 32 CHR ''0'')) = replicate 128 CHR ''0'')"
proof -
  have inj: "to_hex a = to_hex b \<longleftrightarrow> a = b" for a b using unhex_pairs_hex by metis
  have v: "password_verify scrypt p (with_salt scrypt q (to_hex s)) \<longleftrightarrow> scrypt p (to_hex s) = scrypt q (to_hex s)" for s
    using split_once_first [OF hex_no_colon] by (simp add: password_verify_def with_salt_def same_iff inj)
  have "password_verify scrypt p (password_hash scrypt salt q) \<longleftrightarrow> scrypt p (to_hex salt) = scrypt q (to_hex salt)"
    unfolding password_hash_def by (rule v)
  moreover have "password_verify scrypt p (password_app scrypt sha did q)
     \<longleftrightarrow> scrypt p (to_hex (take SALT (sha (did_str did)))) = scrypt q (to_hex (take SALT (sha (did_str did))))"
    unfolding password_app_def by (rule v)
  moreover have "CHR '':'' \<notin> set (replicate 32 CHR ''0'')" by simp
  then have "password_nobody scrypt p \<longleftrightarrow> to_hex (scrypt p (replicate 32 CHR ''0'')) = replicate 128 CHR ''0''"
    unfolding password_nobody_def password_verify_def NOTHING_def split_once_first [OF \<open>CHR '':'' \<notin> set (replicate 32 CHR ''0'')\<close>]
    by (simp add: with_salt_def same_iff)
  ultimately show ?thesis by blast
qed

end
