(* ===== verification/Sessions.thy ===== *)
theory Sessions
  imports Accounts Auth Credentials Service
begin

text \<open>
  Signing in and staying in: sessions, app passwords and invites of \<open>src/account.rs\<close>. The hash of a
  password, the time and what is drawn at random are arguments. Another server may hold the same
  database, so what others do to it before each of the three statements of the \<open>i\<close>th turn of an exchange
  (the read, the housekeeping and the write) is \<open>ex_others E\<close> at \<open>3 * i\<close>, \<open>3 * i + 1\<close> and \<open>3 * i + 2\<close>.
\<close>

section \<open>Bounds\<close>

definition GRACE :: nat where "GRACE = 2 * 3600 * SECOND"
definition ADMINISTRATOR :: string where "ADMINISTRATOR = ''admin''"
definition PASSWORD :: nat where "PASSWORD = 256"
definition STORED_PASSWORD :: nat where "STORED_PASSWORD = 512"
definition INVITES :: nat where "INVITES = 1000"

text \<open>\<open>str::chars().count()\<close>: the bytes that do not continue a character.\<close>

definition char_count :: "string \<Rightarrow> nat" where
  "char_count s = length (filter (\<lambda>b. \<not> (128 \<le> (of_char b :: nat) \<and> (of_char b :: nat) < 192)) s)"


section \<open>Sessions\<close>

record credentials =
  cr_access :: string
  cr_refresh :: string

definition scope_for :: "app_password option \<Rightarrow> scope" where
  "scope_for p =
     (case p of None \<Rightarrow> ScAccess | Some p \<Rightarrow> if app_privileged p then ScPrivilegedAppPassword else ScAppPassword)"

definition mint_pair :: "auth_lib \<Rightarrow> tokens \<Rightarrow> nat \<Rightarrow> did \<Rightarrow> app_password option \<Rightarrow> string \<Rightarrow> credentials" where
  "mint_pair H T now did p jti = \<lparr>cr_access = token_access H T now did (scope_for p), cr_refresh = token_refresh H T now did jti\<rparr>"

definition open_session ::
    "('c, 'j) accounts_lib_scheme \<Rightarrow> auth_lib \<Rightarrow> tokens \<Rightarrow> nat \<Rightarrow> string \<Rightarrow> did \<Rightarrow> app_password option \<Rightarrow> accounts
      \<Rightarrow> credentials \<times> accounts" where
  "open_session J H T now jti did p db =
     (mint_pair H T now did p jti,
      store_session J \<lparr>ss_id = jti, ss_did = did, ss_expires = now + REFRESH_LIFETIME, ss_next = None, ss_app = p\<rparr> db)"

text \<open>The times and fresh names of the turns of an exchange, and what others do meanwhile.\<close>

record exchange =
  ex_now :: "nat \<Rightarrow> nat"
  ex_fresh :: "nat \<Rightarrow> string"
  ex_others :: "nat \<Rightarrow> accounts \<Rightarrow> accounts"

definition rotate_turn ::
    "('c, 'j) accounts_lib_scheme \<Rightarrow> exchange \<Rightarrow> string \<Rightarrow> nat \<Rightarrow> accounts \<Rightarrow> ('c store_error + session option) option \<times> accounts" where
  "rotate_turn J E jti i db =
     (let db = ex_others E (3 * i) db in
      case session_of J jti db of
        Inl e \<Rightarrow> (Some (Inl e), db)
      | Inr None \<Rightarrow> (Some (Inr None), db)
      | Inr (Some s) \<Rightarrow>
          (let now = ex_now E i; db = snd (expire_sessions J (ss_did s) now (ex_others E (3 * i + 1) db));
               expires = min (ss_expires s) (now + GRACE) in
           if expires \<le> now then (Some (Inr None), db)
           else
             (let new = \<lparr>ss_id = (case ss_next s of None \<Rightarrow> ex_fresh E i | Some n \<Rightarrow> n), ss_did = ss_did s,
                         ss_expires = now + REFRESH_LIFETIME, ss_next = None, ss_app = ss_app s\<rparr> in
              case rotate_row J jti expires new (ex_others E (3 * i + 2) db) of
                (True, db) \<Rightarrow> (Some (Inr (Some new)), db)
              | (False, db) \<Rightarrow> (None, db))))"

partial_function (option) rotate_loop ::
    "('c, 'j) accounts_lib_scheme \<Rightarrow> exchange \<Rightarrow> string \<Rightarrow> nat \<Rightarrow> accounts \<Rightarrow> (('c store_error + session option) \<times> accounts) option" where
  "rotate_loop J E jti i db =
     (case rotate_turn J E jti i db of
        (Some r, db) \<Rightarrow> Some (r, db)
      | (None, db) \<Rightarrow> rotate_loop J E jti (Suc i) db)"

definition rotate :: "('c, 'j) accounts_lib_scheme \<Rightarrow> exchange \<Rightarrow> string \<Rightarrow> accounts \<Rightarrow> (('c store_error + session option) \<times> accounts) option" where
  "rotate J E jti db = rotate_loop J E jti 0 db"

definition refresh_session ::
    "('c, 'j) accounts_lib_scheme \<Rightarrow> auth_lib \<Rightarrow> tokens \<Rightarrow> exchange \<Rightarrow> nat \<Rightarrow> string \<Rightarrow> accounts
      \<Rightarrow> (('c account_error + credentials option) \<times> accounts) option" where
  "refresh_session J H T E now jti db =
     map_option (\<lambda>(r, db).
       (bindE (map_err of_store_error r) (\<lambda>s. Inr (map_option (\<lambda>s. mint_pair H T now (ss_did s) (ss_app s) (ss_id s)) s)), db))
     (rotate J E jti db)"


section \<open>Signing in\<close>

record login =
  lg_account :: account
  lg_app :: "app_password option"

definition lookup_identifier :: "string \<Rightarrow> accounts \<Rightarrow> 'c store_error + account option" where
  "lookup_identifier identifier db =
     (if CHR ''@'' \<in> set identifier then by_email identifier db
      else
        (case at_identifier_from_str identifier of
           Inr (AtDid did) \<Rightarrow> by_did did db
         | Inr (AtHandle h) \<Rightarrow> by_handle h db
         | Inl _ \<Rightarrow> Inr None))"

definition check_password ::
    "(bytes \<Rightarrow> bytes \<Rightarrow> bytes) \<Rightarrow> (bytes \<Rightarrow> bytes) \<Rightarrow> string \<Rightarrow> string \<Rightarrow> accounts \<Rightarrow> 'c account_error + login" where
  "check_password scrypt sha identifier password db =
     (if char_count password > STORED_PASSWORD then Inl BadCredentials
      else
        bindE (map_err of_store_error (lookup_identifier (to_ascii_lowercase identifier) db)) (\<lambda>found.
        case found of
          None \<Rightarrow> Inl BadCredentials
        | Some a \<Rightarrow>
            if password_verify scrypt password (acc_scrypt a) then Inr \<lparr>lg_account = a, lg_app = None\<rparr>
            else
              bindE (ok_or BadCredentials (app_password_of (acc_did a) (password_app scrypt sha (acc_did a) password) db)) (\<lambda>p.
              Inr \<lparr>lg_account = a, lg_app = Some p\<rparr>)))"

text \<open>How long an answer is held back, in nanoseconds; \<open>DURATION_MAX\<close> is the longest \<open>Duration\<close>.\<close>

definition DURATION_MAX :: nat where "DURATION_MAX = 2 ^ 64 * SECOND - 1"

definition remaining :: "nat \<Rightarrow> nat \<Rightarrow> nat" where
  "remaining pad spent =
     (if pad = 0 then 0
      else
        let whole = spent div pad + 1;
            whole = (if whole < 2 ^ 32 then whole else 2 ^ 32 - 1);
            due = pad * whole in
        (if due \<le> DURATION_MAX then due else spent) - spent)"


section \<open>App passwords and invites\<close>

definition app_password_text :: "bytes \<Rightarrow> string" where
  "app_password_text drawn =
     (let token = base32 drawn in join_with CHR ''-'' (map (\<lambda>g. take 4 (drop (g * 4) token)) [0, 1, 2, 3]))"

record made_password =
  mp_name :: string
  mp_password :: string
  mp_created :: nat
  mp_privileged :: bool

definition make_app_password ::
    "('c, 'j) accounts_lib_scheme \<Rightarrow> (bytes \<Rightarrow> bytes \<Rightarrow> bytes) \<Rightarrow> (bytes \<Rightarrow> bytes) \<Rightarrow> bytes \<Rightarrow> nat \<Rightarrow> did \<Rightarrow> string \<Rightarrow> bool
      \<Rightarrow> accounts \<Rightarrow> ('c account_error + made_password) \<times> accounts" where
  "make_app_password J scrypt sha drawn now did name privileged db =
     (let password = app_password_text drawn in
      case create_app_password J now did \<lparr>app_name = name, app_privileged = privileged\<rparr> (password_app scrypt sha did password) db of
        (r, db) \<Rightarrow>
          (bindE (map_err of_store_error r) (\<lambda>t.
           Inr \<lparr>mp_name = name, mp_password = password, mp_created = t, mp_privileged = privileged\<rparr>), db))"

definition invite_code :: "string \<Rightarrow> bytes \<Rightarrow> string" where
  "invite_code hostname drawn =
     (let token = base32 drawn in
      map (\<lambda>c. if c = CHR ''.'' then CHR ''-'' else c) hostname @ ''-'' @ take 5 token @ ''-'' @ take 5 (drop 5 token))"

text \<open>One account's codes at a time, each call its own transaction: what was written before one that
  fails stays.\<close>

fun write_invites ::
    "('c, 'j) accounts_lib_scheme \<Rightarrow> nat \<Rightarrow> nat \<Rightarrow> (string \<times> string list) list \<Rightarrow> accounts \<Rightarrow> ('c account_error + string list list) \<times> accounts" where
  "write_invites J now uses [] db = (Inr [], db)"
| "write_invites J now uses ((who, codes) # rest) db =
     (case create_invites J now codes who ADMINISTRATOR uses db of
        Inl e \<Rightarrow> (Inl (of_store_error e), db)
      | Inr db \<Rightarrow>
          (case write_invites J now uses rest db of
             (Inl e, db) \<Rightarrow> (Inl e, db)
           | (Inr out, db) \<Rightarrow> (Inr (codes # out), db)))"

definition mint_invites ::
    "('c, 'j) accounts_lib_scheme \<Rightarrow> string \<Rightarrow> nat \<Rightarrow> (nat \<Rightarrow> nat \<Rightarrow> bytes) \<Rightarrow> string list \<Rightarrow> nat \<Rightarrow> nat \<Rightarrow> accounts
      \<Rightarrow> ('c account_error + string list list) \<times> accounts" where
  "mint_invites J hostname now drawn whom per uses db =
     (let wanted = min (length whom) (2 ^ 32 - 1); wanted = per * wanted in
      if (if wanted < 2 ^ 32 then wanted else 2 ^ 32 - 1) > INVITES then (Inl TooManyInvites, db)
      else
        write_invites J now uses
          (map (\<lambda>i. (whom ! i, map (\<lambda>j. invite_code hostname (drawn i j)) [0..<per])) [0..<length whom]) db)"

text \<open>What is told at signup before anything is written.\<close>

definition still_available :: "handle \<Rightarrow> string \<Rightarrow> string option \<Rightarrow> accounts \<Rightarrow> 'c account_error + unit" where
  "still_available h email invite db =
     (if (case invite of None \<Rightarrow> False | Some code \<Rightarrow> \<not> available db code) then Inl BadInvite
      else
        bindE (map_err of_store_error (by_handle h db)) (\<lambda>a.
        if a \<noteq> None then Inl (Taken ''Handle'')
        else
          bindE (map_err of_store_error (by_email email db)) (\<lambda>b.
          if b \<noteq> None then Inl (Taken ''Email'') else Inr ())))"

end
