(* ===== verification/Plc.thy ===== *)
theory Plc
  imports Service
begin

text \<open>
  \<open>src/plc.rs\<close>: the operation that mints an identifier, the one that retires it, and the client that
  registers both at a directory. The dag-cbor and JSON of an operation and base64 are fields of
  \<open>plc_lib\<close>. The directory and the network on the way to it are the state \<open>'w\<close> and the functions of a
  \<open>plc_net\<close>: what a request is answered, and the state it leaves.
\<close>

section \<open>Text of what is not text\<close>

text \<open>\<open>String::from_utf8_lossy\<close>: whether what comes first is a character, and how many bytes it or the
  longest beginning of one takes.\<close>

definition utf8_first :: "bytes \<Rightarrow> bool \<times> nat" where
  "utf8_first s =
     (let at = (\<lambda>i. if i < length s then of_char (s ! i) else (0 :: nat)); tail = (\<lambda>i. 128 \<le> at i \<and> at i < 192); a = at 0;
          low = (if a = 224 then 160 else if a = 240 then 144 else 128);
          high = (if a = 237 then 159 else if a = 244 then 143 else 191); second = (low \<le> at 1 \<and> at 1 \<le> high) in
      if a < 128 then (True, 1)
      else if 194 \<le> a \<and> a \<le> 223 then (if tail 1 then (True, 2) else (False, 1))
      else if 224 \<le> a \<and> a \<le> 239 then (if \<not> second then (False, 1) else if \<not> tail 2 then (False, 2) else (True, 3))
      else if 240 \<le> a \<and> a \<le> 244 then
        (if \<not> second then (False, 1) else if \<not> tail 2 then (False, 2) else if \<not> tail 3 then (False, 3) else (True, 4))
      else (False, 1))"

lemma utf8_first_pos: "(ok, n) = utf8_first s \<Longrightarrow> 0 < n"
  by (auto simp: utf8_first_def Let_def split: if_splits)

function utf8_lossy :: "bytes \<Rightarrow> string" where
  "utf8_lossy s =
     (if s = [] then []
      else (case utf8_first s of (ok, n) \<Rightarrow>
        (if ok then take n s else [CHR 0xEF, CHR 0xBF, CHR 0xBD]) @ utf8_lossy (drop n s)))"
  by pat_completeness auto

termination by (relation "measure length") (auto dest: utf8_first_pos)

declare utf8_lossy.simps [simp del]


section \<open>Operations\<close>

definition OPERATION :: string where "OPERATION = ''plc_operation''"
definition TOMBSTONE :: string where "TOMBSTONE = ''plc_tombstone''"
definition ATPROTO :: string where "ATPROTO = ''atproto''"
definition PDS :: string where "PDS = ''atproto_pds''"
definition PDS_TYPE :: string where "PDS_TYPE = ''AtprotoPersonalDataServer''"
definition DID_LENGTH :: nat where "DID_LENGTH = 24"
definition TIMEOUT :: nat where "TIMEOUT = 30 * 1000000000"
definition ATTEMPT :: nat where "ATTEMPT = 2"
definition STEPS :: nat where "STEPS = 3"
definition REFUSAL :: nat where "REFUSAL = 4 * 1024"
definition DOCUMENT :: nat where "DOCUMENT = 64 * 1024"

record plc_service =
  sv_kind :: string
  sv_endpoint :: string

record operation =
  op_kind :: string
  op_rotation_keys :: "string list"
  op_verification_methods :: "(string \<times> string) list"
  op_also_known_as :: "string list"
  op_services :: "(string \<times> plc_service) list"
  op_prev :: "string option"
  op_sig :: "string option"

record tombstone =
  tb_kind :: string
  tb_prev :: string
  tb_sig :: "string option"

record 'v plc_lib =
  op_cbor :: "operation \<Rightarrow> string + bytes"
  tomb_cbor :: "tombstone \<Rightarrow> string + bytes"
  op_json :: "operation \<Rightarrow> string + bytes"
  tomb_json :: "tombstone \<Rightarrow> string + bytes"
  url64_encode :: "bytes \<Rightarrow> string"
  url64_decode :: "string \<Rightarrow> bytes option"
  doc_value :: "bytes \<Rightarrow> string + 'v"
  doc_id :: "'v \<Rightarrow> string option"
  doc_only_id :: "bytes \<Rightarrow> string option"

text \<open>\<open>repo::encode\<close> with its one error carried over by \<open>From\<close>.\<close>

definition plc_encode :: "('v \<Rightarrow> string + bytes) \<Rightarrow> 'v \<Rightarrow> plc_error + bytes" where
  "plc_encode to_vec v = map_err (\<lambda>e. PlcEncode (''will not encode as dag-cbor: '' @ e)) (to_vec v)"

definition op_payload :: "'v plc_lib \<Rightarrow> operation \<Rightarrow> plc_error + bytes" where
  "op_payload K op = plc_encode (op_cbor K) (op\<lparr>op_sig := None\<rparr>)"

definition op_create ::
    "'v plc_lib \<Rightarrow> ('sk, 'vk, 'sg) crypto_lib \<Rightarrow> handle \<Rightarrow> string \<Rightarrow> 'vk public_key \<Rightarrow> 'vk public_key list \<Rightarrow> 'sk keypair
      \<Rightarrow> plc_error + operation" where
  "op_create K C handle pds signing_key recovery_keys rotation =
     (let op = \<lparr>op_kind = OPERATION, op_rotation_keys = map (did_key C) recovery_keys @ [did_key C (public_of C rotation)],
                op_verification_methods = [(ATPROTO, did_key C signing_key)], op_also_known_as = [''at://'' @ handle_str handle],
                op_services = [(PDS, \<lparr>sv_kind = PDS_TYPE, sv_endpoint = pds\<rparr>)], op_prev = None, op_sig = None\<rparr> in
      bindE (op_payload K op) (\<lambda>payload.
      Inr (op\<lparr>op_sig := Some (url64_encode K (sign C rotation payload))\<rparr>)))"

text \<open>\<open>None\<close> is the panic of a text that is no DID.\<close>

definition op_did :: "('c, 'l) lib_scheme \<Rightarrow> 'v plc_lib \<Rightarrow> operation \<Rightarrow> plc_error + did option" where
  "op_did L K op =
     bindE (plc_encode (op_cbor K) op) (\<lambda>b.
     Inr (case did_from_str (''did:plc:'' @ take DID_LENGTH (base32 (sha256 L b))) of Inr d \<Rightarrow> Some d | Inl _ \<Rightarrow> None))"

definition op_verify :: "'v plc_lib \<Rightarrow> ('sk, 'vk, 'sg) crypto_lib \<Rightarrow> operation \<Rightarrow> plc_error + unit" where
  "op_verify K C op =
     (if op_kind op \<noteq> OPERATION then Inl (PlcMalformed ''not a plc operation'')
      else
        bindE (ok_or (PlcMalformed ''operation carries no signature'') (op_sig op)) (\<lambda>sig.
        bindE (ok_or PlcSignature (url64_decode K sig)) (\<lambda>sig.
        bindE (op_payload K op) (\<lambda>payload.
        if list_ex (\<lambda>key. case did_key_from_str C key of Inl _ \<Rightarrow> False | Inr k \<Rightarrow> verify C k payload sig = Inr ()) (op_rotation_keys op)
        then Inr () else Inl PlcSignature))))"

definition tombstone_create ::
    "('c, 'l) lib_scheme \<Rightarrow> ('c \<Rightarrow> string) \<Rightarrow> 'v plc_lib \<Rightarrow> ('sk, 'vk, 'sg) crypto_lib \<Rightarrow> operation \<Rightarrow> 'sk keypair
      \<Rightarrow> plc_error + tombstone" where
  "tombstone_create L cid_text K C previous rotation =
     bindE (plc_encode (op_cbor K) previous) (\<lambda>b.
     let t = \<lparr>tb_kind = TOMBSTONE, tb_prev = cid_text (cid_for L b), tb_sig = None\<rparr> in
     bindE (plc_encode (tomb_cbor K) t) (\<lambda>payload.
     Inr (t\<lparr>tb_sig := Some (url64_encode K (sign C rotation payload))\<rparr>)))"


section \<open>Exchanges\<close>

text \<open>How a request ended: no connection was made, it broke, time ran out, or a status arrived, with the
  body if it could be read within the bound that goes with the request.\<close>

datatype http_reply =
    NoConnection string
  | Broken string
  | Elapsed string
  | Reply nat "string + bytes"

record 'w plc_net =
  bad_uri :: "string \<Rightarrow> string option"
  net_post :: "string \<Rightarrow> bytes \<Rightarrow> nat \<Rightarrow> nat \<Rightarrow> 'w \<Rightarrow> http_reply \<times> 'w"
  net_get :: "string \<Rightarrow> nat \<Rightarrow> nat \<Rightarrow> 'w \<Rightarrow> http_reply \<times> 'w"

record plc_client =
  pc_url :: string
  pc_answer :: nat

definition plc_new :: "string \<Rightarrow> plc_client" where
  "plc_new url = \<lparr>pc_url = rev (dropWhile (\<lambda>c. c = CHR ''/'') (rev url)), pc_answer = TIMEOUT\<rparr>"

definition plc_waiting :: "nat \<Rightarrow> plc_client \<Rightarrow> plc_client" where
  "plc_waiting answer P = P\<lparr>pc_answer := answer\<rparr>"

definition plc_uri :: "plc_client \<Rightarrow> did \<Rightarrow> string" where
  "plc_uri P did = pc_url P @ CHR ''/'' # did_str did"

definition plc_share :: "plc_client \<Rightarrow> nat" where
  "plc_share P = pc_answer P div ATTEMPT div STEPS"

definition is_success :: "nat \<Rightarrow> bool" where "is_success status \<longleftrightarrow> 200 \<le> status \<and> status < 300"
definition is_server_error :: "nat \<Rightarrow> bool" where "is_server_error status \<longleftrightarrow> 500 \<le> status \<and> status < 600"

fun plc_exchange :: "http_reply \<Rightarrow> plc_error + unit" where
  "plc_exchange (NoConnection e) = Inl (PlcUnreachable e)"
| "plc_exchange (Broken e) = Inl (PlcUncertain e)"
| "plc_exchange (Elapsed _) = Inl (PlcUncertain ''no answer in time'')"
| "plc_exchange (Reply status body) =
     (if is_success status then Inr ()
      else
        let said = (case body of Inl _ \<Rightarrow> [] | Inr b \<Rightarrow> utf8_lossy b) in
        if is_server_error status then Inl (PlcUncertain (decimal status @ CHR '' '' # said))
        else Inl (PlcRefused status said))"

definition plc_attempt :: "'w plc_net \<Rightarrow> plc_client \<Rightarrow> did \<Rightarrow> string + bytes \<Rightarrow> nat \<Rightarrow> 'w \<Rightarrow> (plc_error + unit) \<times> 'w" where
  "plc_attempt N P did json pause w =
     (case json of
        Inl e \<Rightarrow> (Inl (PlcEncode e), w)
      | Inr body \<Rightarrow>
          (case bad_uri N (plc_uri P did) of
             Some e \<Rightarrow> (Inl (PlcUnreachable e), w)
           | None \<Rightarrow> (case net_post N (plc_uri P did) body REFUSAL pause w of (r, w) \<Rightarrow> (plc_exchange r, w))))"

datatype plc_held = HeldYes | HeldNo | HeldUnknown

definition plc_document :: "'v plc_lib \<Rightarrow> did \<Rightarrow> http_reply \<Rightarrow> plc_held" where
  "plc_document K did r =
     (case r of
        Reply status body \<Rightarrow>
          if status = 404 then HeldNo
          else if \<not> is_success status then HeldUnknown
          else
            (case body of
               Inl _ \<Rightarrow> HeldUnknown
             | Inr b \<Rightarrow> if doc_only_id K b = Some (did_str did) then HeldYes else HeldUnknown)
      | _ \<Rightarrow> HeldUnknown)"

definition plc_holds :: "'v plc_lib \<Rightarrow> 'w plc_net \<Rightarrow> plc_client \<Rightarrow> did \<Rightarrow> nat \<Rightarrow> 'w \<Rightarrow> plc_held \<times> 'w" where
  "plc_holds K N P did pause w =
     (if bad_uri N (plc_uri P did) \<noteq> None then (HeldUnknown, w)
      else (case net_get N (plc_uri P did) DOCUMENT pause w of (r, w) \<Rightarrow> (plc_document K did r, w)))"

definition plc_error_text :: "plc_error \<Rightarrow> string" where
  "plc_error_text e =
     (case e of
        PlcEncode s \<Rightarrow> ''encoding an operation: '' @ s
      | PlcSignature \<Rightarrow> ''no rotation key signed this operation''
      | PlcMalformed s \<Rightarrow> s
      | PlcUnreachable s \<Rightarrow> ''plc directory: '' @ s
      | PlcUncertain s \<Rightarrow> ''plc directory would not say: '' @ s
      | PlcRefused status s \<Rightarrow> ''plc directory refused the operation: '' @ decimal status @ CHR '' '' # s)"

definition plc_confirm ::
    "'v plc_lib \<Rightarrow> 'w plc_net \<Rightarrow> plc_client \<Rightarrow> did \<Rightarrow> operation \<Rightarrow> bool \<Rightarrow> 'w \<Rightarrow> (plc_error + unit) \<times> 'w" where
  "plc_confirm K N P did op sent w =
     (let each = plc_share P in
      case plc_holds K N P did each w of
        (HeldYes, w) \<Rightarrow> (Inr (), w)
      | (_, w) \<Rightarrow>
          (case plc_attempt N P did (op_json K op) each w of
             (Inr _, w) \<Rightarrow> (Inr (), w)
           | (Inl again, w) \<Rightarrow>
               (case plc_holds K N P did each w of
                  (HeldYes, w) \<Rightarrow> (Inr (), w)
                | (HeldNo, w) \<Rightarrow> (Inl again, w)
                | (HeldUnknown, w) \<Rightarrow>
                    if \<not> sent \<and> (case again of PlcUncertain _ \<Rightarrow> False | _ \<Rightarrow> True) then (Inl again, w)
                    else (Inl (PlcUncertain (''asked twice what it holds and answered neither time: '' @ plc_error_text again)), w))))"

definition plc_send :: "'v plc_lib \<Rightarrow> 'w plc_net \<Rightarrow> plc_client \<Rightarrow> did \<Rightarrow> operation \<Rightarrow> 'w \<Rightarrow> (plc_error + unit) \<times> 'w" where
  "plc_send K N P did op w =
     (case plc_attempt N P did (op_json K op) (pc_answer P div ATTEMPT) w of
        (Inl (PlcUnreachable _), w) \<Rightarrow> plc_confirm K N P did op False w
      | (Inl (PlcUncertain _), w) \<Rightarrow> plc_confirm K N P did op True w
      | answered \<Rightarrow> answered)"

definition plc_retire :: "'v plc_lib \<Rightarrow> 'w plc_net \<Rightarrow> plc_client \<Rightarrow> did \<Rightarrow> tombstone \<Rightarrow> 'w \<Rightarrow> bool \<times> 'w" where
  "plc_retire K N P did t w =
     (case plc_attempt N P did (tomb_json K t) (plc_share P) w of
        (Inl _, w) \<Rightarrow> (False, w)
      | (Inr _, w) \<Rightarrow> (case plc_holds K N P did (plc_share P) w of (h, w) \<Rightarrow> (h = HeldNo, w)))"

definition plc_fetch :: "'v plc_lib \<Rightarrow> did \<Rightarrow> http_reply \<Rightarrow> plc_error + 'v" where
  "plc_fetch K did r =
     (case r of
        NoConnection e \<Rightarrow> Inl (PlcUnreachable e)
      | Broken e \<Rightarrow> Inl (PlcUnreachable e)
      | Elapsed e \<Rightarrow> Inl (PlcUnreachable e)
      | Reply status body \<Rightarrow>
          (case body of
             Inl e \<Rightarrow> Inl (PlcUncertain e)
           | Inr b \<Rightarrow>
               if \<not> is_success status then Inl (PlcRefused status (utf8_lossy b))
               else
                 (case doc_value K b of
                    Inl e \<Rightarrow> Inl (PlcUncertain (''not a document: '' @ e))
                  | Inr v \<Rightarrow>
                      if doc_id K v \<noteq> Some (did_str did) then Inl (PlcUncertain ''a document under another identifier'')
                      else Inr v)))"

definition plc_resolve :: "'v plc_lib \<Rightarrow> 'w plc_net \<Rightarrow> plc_client \<Rightarrow> did \<Rightarrow> 'w \<Rightarrow> (plc_error + 'v) \<times> 'w" where
  "plc_resolve K N P did w =
     (case bad_uri N (plc_uri P did) of
        Some e \<Rightarrow> (Inl (PlcUnreachable e), w)
      | None \<Rightarrow> (case net_get N (plc_uri P did) DOCUMENT (pc_answer P div ATTEMPT) w of (r, w) \<Rightarrow> (plc_fetch K did r, w)))"

end
