(* ===== verification/Signup.thy ===== *)
theory Signup
  imports Sessions Plc Event
begin

text \<open>
  Signing up: \<open>Manager::create\<close> of \<open>src/account.rs\<close> with what it takes back when it fails, and
  \<open>src/store/keys.rs\<close>. The state is the account database, the databases of the accounts, the files, the
  event log, the clock and the directory; the libraries and the configuration are the fields of a
  \<open>manager\<close>, and what one signup draws and the times it reads are its \<open>draws\<close>. A signup here runs to its
  end: a caller that goes away in the middle is not modelled.
\<close>

section \<open>Steps that fail with a state\<close>

definition bindS :: "('e + 'a) \<times> 's \<Rightarrow> ('a \<Rightarrow> 's \<Rightarrow> ('e + 'b) \<times> 's) \<Rightarrow> ('e + 'b) \<times> 's" where
  "bindS m f = (case m of (Inl e, s) \<Rightarrow> (Inl e, s) | (Inr a, s) \<Rightarrow> f a s)"

lemma bindS_simps [simp]: "bindS (Inl e, s) f = (Inl e, s)" "bindS (Inr a, s) f = f a s"
  by (simp_all add: bindS_def)


section \<open>Key files\<close>

definition keys_read :: "('sk, 'vk, 'sg) crypto_lib \<Rightarrow> path \<Rightarrow> fs \<Rightarrow> 'c store_error + 'sk keypair" where
  "keys_read C p fs =
     (case fs_file fs p of
        None \<Rightarrow> Inl (Io NotFound)
      | Some f \<Rightarrow> map_err KeyFile (keypair_from_bytes C Secp256k1 (i_bytes f)))"

definition keys_write :: "('sk, 'vk, 'sg) crypto_lib \<Rightarrow> nat \<Rightarrow> path \<Rightarrow> 'sk keypair \<Rightarrow> fs \<Rightarrow> 'c store_error + fs" where
  "keys_write C now p key fs =
     (if fs_file fs p \<noteq> None then Inl (Io AlreadyExists) else Inr (fs_write now p (keypair_to_bytes C key) fs))"

definition keys_remove :: "path \<Rightarrow> fs \<Rightarrow> fs" where
  "keys_remove p fs = (case fs_remove p fs of Inl _ \<Rightarrow> fs | Inr fs \<Rightarrow> fs)"

definition remove_dir_all :: "path \<Rightarrow> fs \<Rightarrow> fs" where
  "remove_dir_all dir fs = fs\<lparr>names := filter (\<lambda>(p, _). take (length dir) p \<noteq> dir) (names fs)\<rparr>"


section \<open>The service\<close>

record ('c, 'sk, 'vk, 'sg, 'v, 'w, 'l, 'e, 'j) manager =
  mg_lib :: "('c, 'l) repo_lib_scheme"
  mg_events :: "('c, 'e) event_lib_scheme"
  mg_texts :: "('c, 'j) accounts_lib_scheme"
  mg_crypto :: "('sk, 'vk, 'sg) crypto_lib"
  mg_plc_lib :: "'v plc_lib"
  mg_net :: "'w plc_net"
  mg_plc :: plc_client
  mg_scrypt :: "bytes \<Rightarrow> bytes \<Rightarrow> bytes"
  mg_auth :: auth_lib
  mg_tokens :: tokens
  mg_rules :: rules
  mg_directory :: path
  mg_invite_required :: bool
  mg_recovery_key :: "'vk public_key option"
  mg_public_url :: string
  mg_rotation_key :: "'sk keypair"

record 'w server =
  sv_accounts :: accounts
  sv_actors :: "(string \<times> actor) list"
  sv_files :: fs
  sv_log :: sequencer
  sv_clock :: clock
  sv_plc :: 'w

record 'vk signup =
  su_handle :: string
  su_email :: string
  su_password :: string
  su_invite :: "string option"
  su_recovery_key :: "'vk public_key option"

record 'sk draws =
  dw_key :: "'sk keypair"
  dw_salt :: bytes
  dw_jti :: string
  dw_micros :: "nat option"
  dw_wrote :: nat
  dw_committed :: nat
  dw_expires :: nat
  dw_registered :: nat
  dw_minted :: nat
  dw_logged :: nat

record created =
  cd_did :: did
  cd_handle :: handle
  cd_credentials :: credentials

datatype rollback = Rollback_Discard | Rollback_Keep | Rollback_Nothing

definition actor_open :: "did \<Rightarrow> 'w server \<Rightarrow> actor" where
  "actor_open did S = (case map_of (sv_actors S) (did_str did) of None \<Rightarrow> actor_new did | Some A \<Rightarrow> A)"

definition write_files ::
    "('c::linorder, 'sk, 'vk, 'sg, 'v, 'w, 'l, 'e, 'j) manager \<Rightarrow> 'sk draws \<Rightarrow> did \<Rightarrow> bytes \<Rightarrow> fs \<Rightarrow> ('c store_error + unit) \<times> fs" where
  "write_files M D did encoded fs =
     (let C = mg_crypto M; dir = mg_directory M in
      case keys_write C (dw_wrote D) (reserved_key_path C dir (public_of C (dw_key D))) (dw_key D) fs of
        Inl e \<Rightarrow> (Inl e, fs)
      | Inr fs \<Rightarrow>
          (case keys_write C (dw_wrote D) (actor_key_path (mg_lib M) dir did) (dw_key D) fs of
             Inl e \<Rightarrow> (Inl e, fs)
           | Inr fs \<Rightarrow> (Inr (), fs_write (dw_wrote D) (actor_op_path (mg_lib M) dir did) encoded fs)))"

definition start_repo ::
    "('c::linorder, 'sk, 'vk, 'sg, 'v, 'w, 'l, 'e, 'j) manager \<Rightarrow> 'sk draws \<Rightarrow> did \<Rightarrow> operation \<Rightarrow> 'w server
      \<Rightarrow> ('c account_error + 'c root \<times> 'c block_map) \<times> 'w server" where
  "start_repo M D did op S =
     (case (encode (op_cbor (mg_plc_lib M)) op :: 'c repo_error + bytes) of
        Inl e \<Rightarrow> (Inl (RepoError e), S)
      | Inr encoded \<Rightarrow>
          (case write_files M D did encoded (sv_files S) of
             (Inl e, fs) \<Rightarrow> (Inl (of_store_error e), S\<lparr>sv_files := fs\<rparr>)
           | (Inr _, fs) \<Rightarrow>
               (let A = actor_open did S; S = S\<lparr>sv_files := fs, sv_actors := al_upd (did_str did) A (sv_actors S)\<rparr> in
                case repo_create (mg_lib M) (mg_crypto M) did (dw_key D) (dw_micros D) (sv_clock S) of
                  (Inl e, clk) \<Rightarrow> (Inl (RepoError e), S\<lparr>sv_clock := clk\<rparr>)
                | (Inr (repo, blocks), clk) \<Rightarrow>
                    (let root = \<lparr>rt_cid = r_cid repo, rt_rev = c_rev (r_commit repo)\<rparr> in
                     case actor_commit (mg_texts M) (blobs_dir (mg_directory M)) (dw_committed D) None root blocks [] [] A fs of
                       (r, A, fs) \<Rightarrow>
                         (let S = S\<lparr>sv_clock := clk, sv_files := fs, sv_actors := al_upd (did_str did) A (sv_actors S)\<rparr> in
                          case r of Inl e \<Rightarrow> (Inl (of_store_error e), S) | Inr _ \<Rightarrow> (Inr (root, blocks), S))))))"

definition settle ::
    "('c::linorder, 'sk, 'vk, 'sg, 'v, 'w, 'l, 'e, 'j) manager \<Rightarrow> 'sk draws \<Rightarrow> did \<Rightarrow> handle \<Rightarrow> 'vk signup \<Rightarrow> operation \<Rightarrow> 'w server
      \<Rightarrow> ('c account_error + credentials \<times> 'c block_map \<times> 'c \<times> tid) \<times> 'w server" where
  "settle M D did h signup op S =
     bindS (start_repo M D did op S) (\<lambda>(root, blocks) S.
     let registration = \<lparr>reg_account = \<lparr>acc_did = did, acc_handle = Some h, acc_email = su_email signup,
           acc_scrypt = password_hash (mg_scrypt M) (dw_salt D) (su_password signup)\<rparr>,
         reg_root = root, reg_invite = su_invite signup,
         reg_session = Some \<lparr>ss_id = dw_jti D, ss_did = did, ss_expires = dw_expires D + REFRESH_LIFETIME, ss_next = None, ss_app = None\<rparr>\<rparr> in
     case accounts_create (mg_texts M) (dw_registered D) registration (sv_accounts S) of
       Inl e \<Rightarrow> (Inl (of_store_error e), S)
     | Inr db \<Rightarrow> (Inr (mint_pair (mg_auth M) (mg_tokens M) (dw_minted D) did None (dw_jti D), blocks, rt_cid root, rt_rev root),
                S\<lparr>sv_accounts := db\<rparr>))"

definition log_account ::
    "('c::linorder, 'sk, 'vk, 'sg, 'v, 'w, 'l, 'e, 'j) manager \<Rightarrow> 'sk draws \<Rightarrow> did \<Rightarrow> handle \<Rightarrow> 'c \<Rightarrow> tid \<Rightarrow> 'c block_map \<Rightarrow> 'w server
      \<Rightarrow> ('c account_error + unit) \<times> 'w server" where
  "log_account M D did h commit rv blocks S =
     (case account_created (mg_events M) did h commit rv blocks of
        Inl e \<Rightarrow> (Inl (RepoError e), S)
      | Inr entries \<Rightarrow>
          (case log_extend (stamp (mg_texts M) (dw_logged D)) did (map (\<lambda>b. (bd_event b, bd_bytes b)) entries) (sv_log S) of
             Inl e \<Rightarrow> (Inl (of_store_error e), S)
           | Inr (_, q) \<Rightarrow> (Inr (), S\<lparr>sv_log := q\<rparr>)))"

definition retire_identifier ::
    "('c::linorder, 'sk, 'vk, 'sg, 'v, 'w, 'l, 'e, 'j) manager \<Rightarrow> did \<Rightarrow> operation \<Rightarrow> 'w server \<Rightarrow> bool \<times> 'w server" where
  "retire_identifier M did op S =
     (case tombstone_create (mg_lib M) (cid_to_string (mg_texts M)) (mg_plc_lib M) (mg_crypto M) op (mg_rotation_key M) of
        Inl e \<Rightarrow> (False, S)
      | Inr t \<Rightarrow> (case plc_retire (mg_plc_lib M) (mg_net M) (mg_plc M) did t (sv_plc S) of (r, w) \<Rightarrow> (r, S\<lparr>sv_plc := w\<rparr>)))"

definition discard ::
    "('c::linorder, 'sk, 'vk, 'sg, 'v, 'w, 'l, 'e, 'j) manager \<Rightarrow> did \<Rightarrow> path \<Rightarrow> 'w server \<Rightarrow> 'w server" where
  "discard M did kept S =
     S\<lparr>sv_accounts := accounts_delete did (sv_accounts S),
       sv_files := remove_dir_all (actor_path (mg_lib M) (mg_directory M) did) (keys_remove kept (sv_files S)),
       sv_actors := al_del (did_str did) (sv_actors S)\<rparr>"

definition undo_drop ::
    "('c::linorder, 'sk, 'vk, 'sg, 'v, 'w, 'l, 'e, 'j) manager \<Rightarrow> did \<Rightarrow> path \<Rightarrow> rollback \<Rightarrow> 'w server \<Rightarrow> 'w server" where
  "undo_drop M did kept rollback S =
     (case rollback of Rollback_Discard \<Rightarrow> discard M did kept S | Rollback_Keep \<Rightarrow> S | Rollback_Nothing \<Rightarrow> S)"

text \<open>From the operation on, under the guard that takes back what was written.\<close>

definition create_guarded ::
    "('c::linorder, 'sk, 'vk, 'sg, 'v, 'w, 'l, 'e, 'j) manager \<Rightarrow> 'sk draws \<Rightarrow> 'vk signup \<Rightarrow> handle \<Rightarrow> operation \<Rightarrow> did \<Rightarrow> 'w server
      \<Rightarrow> ('c account_error + created) \<times> 'w server" where
  "create_guarded M D signup h op did S =
     (let kept = reserved_key_path (mg_crypto M) (mg_directory M) (public_of (mg_crypto M) (dw_key D)) in
      case settle M D did h signup op S of
        (Inl e, S) \<Rightarrow> (Inl e, undo_drop M did kept Rollback_Discard S)
      | (Inr (pair, blocks, commit, rv), S) \<Rightarrow>
          (case plc_send (mg_plc_lib M) (mg_net M) (mg_plc M) did op (sv_plc S) of
             (registered, w) \<Rightarrow>
               (case (case registered of
                        Inl (PlcUncertain _) \<Rightarrow> retire_identifier M did op (S\<lparr>sv_plc := w\<rparr>)
                      | _ \<Rightarrow> (True, S\<lparr>sv_plc := w\<rparr>)) of
                  (settled, S) \<Rightarrow>
                    (let rollback = (if settled then Rollback_Discard else Rollback_Keep);
                         S = S\<lparr>sv_files := keys_remove kept (sv_files S)\<rparr> in
                     case registered of
                       Inl e \<Rightarrow> (Inl (PlcError e), undo_drop M did kept rollback S)
                     | Inr _ \<Rightarrow>
                         (case log_account M D did h commit rv blocks S of
                            (_, S) \<Rightarrow> (Inr \<lparr>cd_did = did, cd_handle = h, cd_credentials = pair\<rparr>, undo_drop M did kept Rollback_Nothing S))))))"

definition signup_checked ::
    "('c::linorder, 'sk, 'vk, 'sg, 'v, 'w, 'l, 'e, 'j) manager \<Rightarrow> 'vk signup \<Rightarrow> 'w server \<Rightarrow> 'c account_error + handle" where
  "signup_checked M signup S =
     (if char_count (su_password signup) > PASSWORD then Inl PasswordTooLong
      else if mg_invite_required M \<and> su_invite signup = None then Inl InviteRequired
      else if \<not> plausible (su_email signup) then Inl BadEmail
      else
        bindE (map_err BadHandle (signup_handle (mg_rules M) (su_handle signup))) (\<lambda>h.
        bindE (still_available h (su_email signup) (su_invite signup) (sv_accounts S)) (\<lambda>_. Inr h)))"

text \<open>\<open>None\<close> is the panic of an identifier that is no DID.\<close>

definition create ::
    "('c::linorder, 'sk, 'vk, 'sg, 'v, 'w, 'l, 'e, 'j) manager \<Rightarrow> 'sk draws \<Rightarrow> 'vk signup \<Rightarrow> 'w server
      \<Rightarrow> ('c account_error + created) option \<times> 'w server" where
  "create M D signup S =
     (case signup_checked M signup S of
        Inl e \<Rightarrow> (Some (Inl e), S)
      | Inr h \<Rightarrow>
          (let recovery = List.map_filter (\<lambda>k. k) [su_recovery_key signup, mg_recovery_key M] in
           case op_create (mg_plc_lib M) (mg_crypto M) h (mg_public_url M) (public_of (mg_crypto M) (dw_key D)) recovery (mg_rotation_key M) of
             Inl e \<Rightarrow> (Some (Inl (PlcError e)), S)
           | Inr op \<Rightarrow>
               (case op_did (mg_lib M) (mg_plc_lib M) op of
                  Inl e \<Rightarrow> (Some (Inl (PlcError e)), S)
                | Inr None \<Rightarrow> (None, S)
                | Inr (Some did) \<Rightarrow> (case create_guarded M D signup h op did S of (r, S) \<Rightarrow> (Some r, S)))))"

end
