(* ===== verification/Plc_Props.thy ===== *)
theory Plc_Props
  imports Plc
begin

text \<open>
  What registering an identifier promises: the operation verifies and mints a DID, and what the client
  says of the directory is true of it, up to what is still on the way there.
\<close>

section \<open>Text\<close>

lemma utf8_first_valid:
  assumes "is_utf8 s" "s \<noteq> []"
  shows "fst (utf8_first s) \<and> is_utf8 (drop (snd (utf8_first s)) s)"
proof -
  obtain a t where s: "s = a # t" using assms(2) by (cases s) auto
  let ?a = "of_char a :: nat"
  consider "?a < 128" | "194 \<le> ?a" "?a \<le> 223" | "224 \<le> ?a" "?a \<le> 239" | "240 \<le> ?a" "?a \<le> 244"
    using assms(1) unfolding s is_utf8.simps by (auto split: if_splits)
  then show ?thesis
  proof cases
    case 1
    then show ?thesis using assms(1) by (simp add: s is_utf8.simps utf8_first_def Let_def)
  next
    case 2
    then obtain b u where "t = b # u" using assms(1) by (cases t) (auto simp: s is_utf8.simps)
    then show ?thesis using assms(1) 2 by (simp add: s is_utf8.simps utf8_first_def utf8_tail_def Let_def)
  next
    case 3
    then obtain b c u where "t = b # c # u" using assms(1) by (auto simp: s is_utf8.simps split: list.splits)
    then show ?thesis using assms(1) 3 by (auto simp: s is_utf8.simps utf8_first_def utf8_tail_def Let_def)
  next
    case 4
    then obtain b c d u where "t = b # c # d # u" using assms(1) by (auto simp: s is_utf8.simps split: list.splits)
    then show ?thesis using assms(1) 4 by (auto simp: s is_utf8.simps utf8_first_def utf8_tail_def Let_def)
  qed
qed

lemma utf8_lossy_valid: "is_utf8 s \<Longrightarrow> utf8_lossy s = s"
proof (induction s rule: utf8_lossy.induct)
  case (1 s)
  show ?case
  proof (cases "s = []")
    case False
    obtain ok n where f: "utf8_first s = (ok, n)" by fastforce
    then have "ok" "is_utf8 (drop n s)" using utf8_first_valid [OF 1(2) False] by simp_all
    then show ?thesis using 1(1) [OF False f [symmetric]] False f by (subst utf8_lossy.simps) simp
  qed (simp add: utf8_lossy.simps)
qed


section \<open>The identifier\<close>

lemma length_quintets: "length (quintets bs) = (length bs + 4) div 5"
proof (induction bs rule: quintets.induct)
  case (1 bs)
  show ?case
  proof (cases "bs = []")
    case False
    then have "length (quintets bs) = Suc ((length bs - 5 + 4) div 5)" using 1 by (subst quintets.simps) simp
    moreover have "0 < length bs" using False by simp
    ultimately show ?thesis by (cases "length bs < 5") (auto simp: Suc_diff_le div_if)
  qed simp
qed

lemma quintets_bound: "v \<in> set (quintets bs) \<Longrightarrow> v < 32"
proof (induction bs rule: quintets.induct)
  case (1 bs)
  have "bval (take 5 (bs @ replicate 4 False)) < 2 ^ length (take 5 (bs @ replicate 4 False))" by (rule bval_less)
  also have "\<dots> \<le> 2 ^ 5" by (rule power_increasing) simp_all
  finally show ?case using 1 by (cases "bs = []") (auto simp: quintets.simps [of bs])
qed

lemma base32_quintets: "base32 bs = map (nth ALPHABET) (quintets (concat (map byte_bits bs)))"
  using base32_loop_ok [of 0 0 "[]" bs] by (simp add: base32_def bval_def)

lemma length_base32: "length (base32 bs) = (8 * length bs + 4) div 5"
proof -
  have "length (concat (map byte_bits bs)) = 8 * length bs" by (induction bs) (simp_all add: length_byte_bits)
  then show ?thesis by (simp add: base32_quintets length_quintets)
qed

lemma base32_bytes: "c \<in> set (base32 bs) \<Longrightarrow> c \<in> set ALPHABET"
proof -
  assume "c \<in> set (base32 bs)"
  then obtain v where "v \<in> set (quintets (concat (map byte_bits bs)))" "c = ALPHABET ! v" by (auto simp: base32_quintets)
  moreover have "length ALPHABET = 32" by (simp add: ALPHABET_def)
  ultimately show ?thesis using quintets_bound by (metis nth_mem)
qed

lemma alphabet_bytes: "c \<in> set ALPHABET \<Longrightarrow> did_is_allowed c \<and> \<not> is_ascii_uppercase c \<and> c \<noteq> CHR '':'' \<and> c \<noteq> CHR ''%''"
proof -
  have "list_all (\<lambda>c. did_is_allowed c \<and> \<not> is_ascii_uppercase c \<and> c \<noteq> CHR '':'' \<and> c \<noteq> CHR ''%'') ALPHABET" by code_simp
  then show "c \<in> set ALPHABET \<Longrightarrow> ?thesis" by (simp add: list_all_iff)
qed

lemma plc_text_did:
  assumes "i \<noteq> []" "length i \<le> 24" "set i \<subseteq> set ALPHABET"
  shows "did_from_str (''did:plc:'' @ i) = Inr (Did (''did:plc:'' @ i)) \<and> to_ascii_lowercase (''did:plc:'' @ i) = ''did:plc:'' @ i"
proof -
  have all: "did_is_allowed c \<and> \<not> is_ascii_uppercase c \<and> c \<noteq> CHR '':'' \<and> c \<noteq> CHR ''%''" if "c \<in> set i" for c
    using that assms(3) alphabet_bytes by blast
  have l: "last i \<in> set i" using assms(1) by simp
  have "list_all is_ascii_lowercase ''plc''" by (simp add: ascii_defs less_eq_char_def)
  moreover have "list_all did_is_allowed i" using all by (simp add: list_all_iff)
  moreover have "\<not> ends_with_byte i CHR '':''" "\<not> ends_with_byte i CHR ''%''"
    using all [OF l] assms(1) by (auto simp: ends_with_byte_def)
  moreover have "strip_prefix ''did:'' (''did:plc:'' @ i) = Some (''plc:'' @ i)" by simp
  moreover have "split_once CHR '':'' (''plc:'' @ i) = Some (''plc'', i)" by simp
  ultimately have "did_validate (''did:plc:'' @ i) = Inr ()" using assms(1,2) by (simp add: did_validate_def)
  moreover have "map to_ascii_lowercase_byte i = i" using all by (intro map_idI) (simp add: to_ascii_lowercase_byte_def)
  then have "to_ascii_lowercase (''did:plc:'' @ i) = ''did:plc:'' @ i"
    by (simp add: to_ascii_lowercase_def to_ascii_lowercase_byte_def ascii_defs less_eq_char_def)
  ultimately show ?thesis by (simp add: from_str_iffs)
qed

lemma op_did_valid:
  assumes sha: "\<And>b. op_cbor K op = Inr b \<Longrightarrow> 15 \<le> length (sha256 L b)" and d: "op_did L K op = Inr d"
  shows "\<exists>b. op_cbor K op = Inr b \<and> d = Some (Did (''did:plc:'' @ take 24 (base32 (sha256 L b))))
    \<and> did_validate (did_str (the d)) = Inr () \<and> to_ascii_lowercase (did_str (the d)) = did_str (the d) \<and> length (did_str (the d)) = 32"
proof -
  obtain b where b: "op_cbor K op = Inr b"
    and d': "d = (case did_from_str (''did:plc:'' @ take 24 (base32 (sha256 L b))) of Inr d \<Rightarrow> Some d | Inl _ \<Rightarrow> None)"
    using d by (auto simp: op_did_def plc_encode_def DID_LENGTH_def result_simps)
  let ?i = "take 24 (base32 (sha256 L b))"
  have "24 \<le> length (base32 (sha256 L b))" using sha [OF b] by (simp add: length_base32)
  then have len: "length ?i = 24" by simp
  have t: "did_from_str (''did:plc:'' @ ?i) = Inr (Did (''did:plc:'' @ ?i)) \<and> to_ascii_lowercase (''did:plc:'' @ ?i) = ''did:plc:'' @ ?i"
  proof (rule plc_text_did)
    show "?i \<noteq> []" using len by (metis length_0_conv zero_neq_numeral)
    show "set ?i \<subseteq> set ALPHABET" using base32_bytes by (metis in_set_takeD subsetI)
  qed simp
  then have "d = Some (Did (''did:plc:'' @ ?i))" by (simp add: d')
  moreover have "did_validate (''did:plc:'' @ ?i) = Inr ()" using t by (simp add: from_str_iffs)
  ultimately show ?thesis using b t len by simp
qed

lemma op_create_Inr:
  assumes "op_create K C handle pds key recovery rotation = Inr op"
  obtains payload where "op_payload K op = Inr payload" "op_kind op = OPERATION"
    "op_sig op = Some (url64_encode K (sign C rotation payload))"
    "op_rotation_keys op = map (did_key C) recovery @ [did_key C (public_of C rotation)]"
    "op_verification_methods op = [(ATPROTO, did_key C key)]" "op_also_known_as op = [''at://'' @ handle_str handle]"
    "op_services op = [(PDS, \<lparr>sv_kind = PDS_TYPE, sv_endpoint = pds\<rparr>)]" "op_prev op = None"
  using assms by (auto simp: op_create_def op_payload_def Let_def result_simps)

lemma op_verify_signed:
  assumes v: "op_verify K C op = Inr ()"
  shows "\<exists>k signer spelled sig payload. k \<in> set (op_rotation_keys op) \<and> did_key_from_str C k = Inr signer \<and> op_sig op = Some spelled
    \<and> url64_decode K spelled = Some sig \<and> op_payload K op = Inr payload \<and> verify C signer payload sig = Inr ()"
proof -
  obtain spelled where t: "op_sig op = Some spelled" using v by (cases "op_sig op") (auto simp: op_verify_def split: if_splits)
  obtain sig where g: "url64_decode K spelled = Some sig" using v t by (cases "url64_decode K spelled") (auto simp: op_verify_def split: if_splits)
  obtain payload where p: "op_payload K op = Inr payload" using v t g by (cases "op_payload K op") (auto simp: op_verify_def split: if_splits)
  obtain k where "k \<in> set (op_rotation_keys op)"
      "case did_key_from_str C k of Inl _ \<Rightarrow> False | Inr k \<Rightarrow> verify C k payload sig = Inr ()"
    using v t g p by (auto simp: op_verify_def list_ex_iff split: if_splits)
  then show ?thesis using t g p by (auto split: sum.splits)
qed

text \<open>the operation a signup builds names the account and this server, lists the recovery keys ahead of
  the server's own, verifies, and mints an identifier that is a DID with no capital letter in it, so that
  minting never panics; and an operation that verifies was signed over everything but the signature by a
  key it lists.\<close>

theorem genesis_operation:
  fixes L :: "('c, 'l) lib_scheme"
  assumes C: "crypto_ok C" and b64: "\<And>b. url64_decode K (url64_encode K b) = Some b"
    and op: "op_create K C handle pds key recovery rotation = Inr op" and sha: "\<And>b. op_cbor K op = Inr b \<Longrightarrow> 15 \<le> length (sha256 L b)" and d: "op_did L K op = Inr d"
  shows "op_verify K C op = Inr ()
    \<and> map (did_key_from_str C) (op_rotation_keys op) = map Inr (recovery @ [public_of C rotation])
    \<and> op_also_known_as op = [''at://'' @ handle_str handle]
    \<and> op_verification_methods op = [(''atproto'', did_key C key)] \<and> op_prev op = None
    \<and> (\<exists>did. d = Some did \<and> did_from_str (did_str did) = Inr did \<and> to_ascii_lowercase (did_str did) = did_str did)
    \<and> (\<forall>op'. op_verify K C op' = Inr () \<longrightarrow>
         (\<exists>k signer spelled sig payload. k \<in> set (op_rotation_keys op') \<and> did_key_from_str C k = Inr signer \<and> op_sig op' = Some spelled
            \<and> url64_decode K spelled = Some sig \<and> op_payload K op' = Inr payload \<and> verify C signer payload sig = Inr ()))"
proof -
  obtain payload where o: "op_payload K op = Inr payload" "op_kind op = OPERATION"
    "op_sig op = Some (url64_encode K (sign C rotation payload))"
    "op_rotation_keys op = map (did_key C) recovery @ [did_key C (public_of C rotation)]"
    "op_verification_methods op = [(ATPROTO, did_key C key)]" "op_also_known_as op = [''at://'' @ handle_str handle]"
    "op_services op = [(PDS, \<lparr>sv_kind = PDS_TYPE, sv_endpoint = pds\<rparr>)]" "op_prev op = None"
    using op by (rule op_create_Inr)
  have k: "did_key_from_str C (did_key C x) = Inr x" for x using keys_roundtrip [OF C] by blast
  have "op_verify K C op = Inr ()" using o by (simp add: op_verify_def b64 k verify_own_key [OF C])
  moreover have "map (did_key_from_str C) (op_rotation_keys op) = map Inr (recovery @ [public_of C rotation])"
    unfolding o(4) by (simp add: k)
  moreover have "\<exists>did. d = Some did \<and> did_from_str (did_str did) = Inr did \<and> to_ascii_lowercase (did_str did) = did_str did"
    using op_did_valid [OF sha d] by (auto simp: from_str_iffs)
  ultimately show ?thesis using o(5,6,8) op_verify_signed [of K C] by (simp add: ATPROTO_def)
qed


section \<open>What the directory holds\<close>

text \<open>What is so of the directory, for one identifier: its operation is in there, it has been retired, or a
  copy of the operation that nothing has been heard of may still arrive.\<close>

record 'w plc_view =
  registered :: "'w \<Rightarrow> bool"
  retired :: "'w \<Rightarrow> bool"
  on_the_way :: "'w \<Rightarrow> bool"

text \<open>An exchange that brings no copy of the operation: one may only land that was on the way.\<close>

definition brings_nothing :: "'w plc_view \<Rightarrow> 'w \<Rightarrow> 'w \<Rightarrow> bool" where
  "brings_nothing V w w' \<longleftrightarrow>
     (registered V w' \<longrightarrow> registered V w \<or> on_the_way V w) \<and> (on_the_way V w' \<longrightarrow> on_the_way V w)"

text \<open>A directory that is one: an operation that was never connected for, or was refused, is not in there; one
  that was accepted is. A tombstone is taken only after the operation it follows. What is read back is so at
  that moment, and nothing that was registered is forgotten.\<close>

definition directory_ok :: "'w plc_view \<Rightarrow> 'v plc_lib \<Rightarrow> 'w plc_net \<Rightarrow> plc_client \<Rightarrow> did \<Rightarrow> operation \<Rightarrow> tombstone \<Rightarrow> bool" where
  "directory_ok V K N P did op t \<longleftrightarrow>
     (\<forall>body pause w r w'. op_json K op = Inr body \<and> net_post N (plc_uri P did) body REFUSAL pause w = (r, w') \<longrightarrow>
        (registered V w \<longrightarrow> registered V w') \<and> (retired V w' \<longleftrightarrow> retired V w)
        \<and> (case r of
             NoConnection _ \<Rightarrow> brings_nothing V w w'
           | Reply status _ \<Rightarrow>
               (if is_success status then registered V w' else is_server_error status \<or> brings_nothing V w w')
           | _ \<Rightarrow> True))
     \<and> (\<forall>body pause w r w'. tomb_json K t = Inr body \<and> net_post N (plc_uri P did) body REFUSAL pause w = (r, w') \<longrightarrow>
          (registered V w \<longrightarrow> registered V w') \<and> brings_nothing V w w'
          \<and> (case r of Reply status _ \<Rightarrow> is_success status \<longrightarrow> registered V w' \<and> retired V w' | _ \<Rightarrow> True))
     \<and> (\<forall>pause w r w'. net_get N (plc_uri P did) DOCUMENT pause w = (r, w') \<longrightarrow>
          (registered V w \<longrightarrow> registered V w') \<and> (retired V w' \<longleftrightarrow> retired V w) \<and> brings_nothing V w w'
          \<and> (case plc_document K did r of
               HeldYes \<Rightarrow> registered V w' | HeldNo \<Rightarrow> \<not> registered V w' \<or> retired V w' | HeldUnknown \<Rightarrow> True))"

fun uncertain :: "plc_error \<Rightarrow> bool" where
  "uncertain (PlcUncertain _) = True"
| "uncertain _ = False"

lemma brings_nothing_refl [simp]: "brings_nothing V w w"
  by (simp add: brings_nothing_def)

lemma attempt_says:
  assumes "directory_ok V K N P did op t" "plc_attempt N P did (op_json K op) pause w = (r, w')"
  shows "(registered V w \<longrightarrow> registered V w') \<and> (retired V w' \<longleftrightarrow> retired V w)
    \<and> (r = Inr () \<longrightarrow> registered V w') \<and> (\<forall>e. r = Inl e \<and> \<not> uncertain e \<longrightarrow> brings_nothing V w w')"
proof (cases "op_json K op")
  case (Inr body)
  show ?thesis
  proof (cases "bad_uri N (plc_uri P did)")
    case None
    obtain a where a: "net_post N (plc_uri P did) body REFUSAL pause w = (a, w')" and r: "r = plc_exchange a"
      using assms(2) Inr None by (auto simp: plc_attempt_def split: prod.splits)
    have "(registered V w \<longrightarrow> registered V w') \<and> (retired V w' \<longleftrightarrow> retired V w)
        \<and> (case a of NoConnection _ \<Rightarrow> brings_nothing V w w'
           | Reply status _ \<Rightarrow> (if is_success status then registered V w' else is_server_error status \<or> brings_nothing V w w')
           | _ \<Rightarrow> True)"
      using assms(1) a Inr unfolding directory_ok_def by blast
    then show ?thesis unfolding r by (cases a) (auto simp: Let_def)
  qed (use assms(2) Inr in \<open>auto simp: plc_attempt_def\<close>)
qed (use assms(2) in \<open>auto simp: plc_attempt_def\<close>)

lemma holds_says:
  assumes "directory_ok V K N P did op t" "plc_holds K N P did pause w = (h, w')"
  shows "(registered V w \<longrightarrow> registered V w') \<and> (retired V w' \<longleftrightarrow> retired V w) \<and> brings_nothing V w w'
    \<and> (h = HeldYes \<longrightarrow> registered V w') \<and> (h = HeldNo \<longrightarrow> \<not> registered V w' \<or> retired V w')"
proof (cases "bad_uri N (plc_uri P did)")
  case None
  obtain a where a: "net_get N (plc_uri P did) DOCUMENT pause w = (a, w')" and h: "h = plc_document K did a"
    using assms(2) None by (auto simp: plc_holds_def split: prod.splits)
  have "(registered V w \<longrightarrow> registered V w') \<and> (retired V w' \<longleftrightarrow> retired V w) \<and> brings_nothing V w w'
          \<and> (case plc_document K did a of
               HeldYes \<Rightarrow> registered V w' | HeldNo \<Rightarrow> \<not> registered V w' \<or> retired V w' | HeldUnknown \<Rightarrow> True)"
    using assms(1) a unfolding directory_ok_def by blast
  then show ?thesis unfolding h by (cases "plc_document K did a") auto
qed (use assms(2) in \<open>auto simp: plc_holds_def\<close>)

lemma confirm_says:
  assumes ok: "directory_ok V K N P did op t" and c: "plc_confirm K N P did op sent w = (r, w')"
    and fresh: "\<not> retired V w" and sent: "\<not> sent \<longrightarrow> \<not> registered V w \<and> \<not> on_the_way V w"
  shows "(r = Inr () \<longrightarrow> registered V w')
    \<and> (\<forall>e. r = Inl e \<and> \<not> uncertain e \<longrightarrow> \<not> registered V w' \<and> (\<not> sent \<longrightarrow> \<not> on_the_way V w'))"
proof -
  obtain h1 w1 where 1: "plc_holds K N P did (plc_share P) w = (h1, w1)" by fastforce
  obtain r2 w2 where 2: "plc_attempt N P did (op_json K op) (plc_share P) w1 = (r2, w2)" by fastforce
  obtain h3 w3 where 3: "plc_holds K N P did (plc_share P) w2 = (h3, w3)" by fastforce
  note s1 = holds_says [OF ok 1] and s2 = attempt_says [OF ok 2] and s3 = holds_says [OF ok 3]
  show ?thesis
  proof (cases "h1 = HeldYes")
    case True
    then show ?thesis using c 1 s1 by (auto simp: plc_confirm_def Let_def)
  next
    case False
    show ?thesis
    proof (cases r2)
      case (Inr u)
      then show ?thesis using c 1 2 s2 False by (cases h1) (auto simp: plc_confirm_def Let_def)
    next
      case (Inl e)
      have r: "(r, w') = (case (h3, w3) of
                  (HeldYes, w) \<Rightarrow> (Inr (), w)
                | (HeldNo, w) \<Rightarrow> (Inl e, w)
                | (HeldUnknown, w) \<Rightarrow>
                    if \<not> sent \<and> \<not> uncertain e then (Inl e, w)
                    else (Inl (PlcUncertain (''asked twice what it holds and answered neither time: '' @ plc_error_text e)), w))"
        using c 1 2 3 Inl False by (cases h1; cases h3; cases e) (auto simp: plc_confirm_def Let_def)
      have nr: "\<not> retired V w3" using fresh s1 s2 s3 by blast
      have out: "\<not> registered V w3 \<and> \<not> on_the_way V w3" if "\<not> sent" "\<not> uncertain e"
        using that sent s1 s2 s3 Inl unfolding brings_nothing_def by blast
      show ?thesis using r s3 nr out by (cases h3) (auto split: if_splits)
    qed
  qed
qed

lemma retire_says:
  assumes ok: "directory_ok V K N P did op t" and r: "plc_retire K N P did t w = (True, w')"
  shows "registered V w' \<and> retired V w'"
proof -
  obtain w1 where 1: "plc_attempt N P did (tomb_json K t) (plc_share P) w = (Inr (), w1)"
    and 2: "plc_holds K N P did (plc_share P) w1 = (HeldNo, w')"
    using r by (auto simp: plc_retire_def split: prod.splits sum.splits)
  obtain body a where b: "tomb_json K t = Inr body" "net_post N (plc_uri P did) body REFUSAL (plc_share P) w = (a, w1)"
      "plc_exchange a = Inr ()"
    using 1 by (auto simp: plc_attempt_def split: sum.splits option.splits prod.splits)
  then obtain status said where "a = Reply status said" "is_success status"
    by (cases a) (auto simp: Let_def split: if_splits)
  then have "registered V w1 \<and> retired V w1" using ok b(1,2) unfolding directory_ok_def by fastforce
  then show ?thesis using holds_says [OF ok 2] by blast
qed

lemma send_says:
  assumes ok: "directory_ok V K N P did op t"
    and w: "\<not> registered V w" "\<not> on_the_way V w" "\<not> retired V w" and s: "plc_send K N P did op w = (r, w')"
  shows "(r = Inr () \<longrightarrow> registered V w') \<and> (\<forall>e. r = Inl e \<and> \<not> uncertain e \<longrightarrow> \<not> registered V w'
    \<and> ((\<forall>e'. fst (plc_attempt N P did (op_json K op) (pc_answer P div ATTEMPT) w) = Inl e' \<longrightarrow> \<not> uncertain e') \<longrightarrow> \<not> on_the_way V w'))"
proof -
  obtain r1 w1 where 1: "plc_attempt N P did (op_json K op) (pc_answer P div ATTEMPT) w = (r1, w1)" by fastforce
  note s1 = attempt_says [OF ok 1]
  have nr: "\<not> retired V w1" using s1 w(3) by blast
  have "(r = Inr () \<longrightarrow> registered V w') \<and> (\<forall>e. r = Inl e \<and> \<not> uncertain e \<longrightarrow>
      \<not> registered V w' \<and> ((\<forall>e'. r1 = Inl e' \<longrightarrow> \<not> uncertain e') \<longrightarrow> \<not> on_the_way V w'))"
  proof (cases r1)
    case (Inl e)
    have quiet: "\<not> registered V w1 \<and> \<not> on_the_way V w1" if "\<not> uncertain e"
      using s1 Inl that w unfolding brings_nothing_def by blast
    show ?thesis
    proof (cases e)
      case (PlcUnreachable x)
      then show ?thesis using s 1 Inl confirm_says [OF ok _ nr, of False r w'] quiet by (simp add: plc_send_def)
    next
      case (PlcUncertain x)
      then show ?thesis using s 1 Inl confirm_says [OF ok _ nr, of True r w'] by (simp add: plc_send_def)
    qed (use s 1 Inl quiet in \<open>auto simp: plc_send_def\<close>)
  qed (use s 1 s1 in \<open>auto simp: plc_send_def\<close>)
  then show ?thesis using 1 by simp
qed

text \<open>C33: what registering says is so. Sent where nothing was registered or on the way, an operation that is
  answered for is in the directory; an error other than uncertainty means that it is not, and, where nothing
  was lost on the way, that it never will be. Retiring is answered for only once the tombstone is taken.\<close>

theorem send_verdict:
  assumes ok: "directory_ok V K N P did op t"
    and w: "\<not> registered V w" "\<not> on_the_way V w" "\<not> retired V w" and s: "plc_send K N P did op w = (r, w')"
  shows "(r = Inr () \<longrightarrow> registered V w')
    \<and> (\<forall>e. r = Inl e \<and> \<not> uncertain e \<longrightarrow> \<not> registered V w')
    \<and> (\<forall>e. r = Inl e \<and> \<not> uncertain e \<and> (\<forall>e'. fst (plc_attempt N P did (op_json K op) (pc_answer P div ATTEMPT) w) = Inl e' \<longrightarrow> \<not> uncertain e')
         \<longrightarrow> \<not> on_the_way V w')
    \<and> (\<forall>w''. plc_retire K N P did t w' = (True, w'') \<longrightarrow> registered V w'' \<and> retired V w'')"
  using send_says [OF assms] retire_says [OF ok] by blast


section \<open>A copy that lands late\<close>

text \<open>A directory the first copy of an operation reaches only after its fifth exchange: its answer is lost, the
  second copy finds no connection, and both reads find nothing there yet. The state counts the exchanges.\<close>

definition late_net :: "nat plc_net" where
  "late_net = \<lparr>bad_uri = (\<lambda>_. None),
     net_post = (\<lambda>url body bound pause w. if body = ''t'' then (NoConnection ''down'', w)
        else if w = 0 then (Elapsed ''late'', 1) else (NoConnection ''down'', Suc w)),
     net_get = (\<lambda>url bound pause w. if w = 0 then (Reply 404 (Inr []), 0)
        else if w < 4 then (Reply 404 (Inr []), Suc w) else (Reply 200 (Inr (drop 1 url)), Suc w))\<rparr>"

definition late_view :: "nat plc_view" where
  "late_view = \<lparr>registered = (\<lambda>w. 4 < w), retired = (\<lambda>_. False), on_the_way = (\<lambda>w. 0 < w)\<rparr>"

definition toy_plc :: "string plc_lib" where
  "toy_plc = \<lparr>op_cbor = (\<lambda>op. Inr (concat (op_also_known_as op))), tomb_cbor = (\<lambda>t. Inr (tb_prev t)), op_json = (\<lambda>_. Inr ''{}''), tomb_json = (\<lambda>_. Inr ''t''),
     url64_encode = (\<lambda>b. b), url64_decode = Some, doc_value = Inr, doc_id = Some, doc_only_id = Some\<rparr>"

definition toy_client :: plc_client where "toy_client = \<lparr>pc_url = [], pc_answer = 60\<rparr>"

definition toy_operation :: operation where
  "toy_operation = \<lparr>op_kind = OPERATION, op_rotation_keys = [], op_verification_methods = [], op_also_known_as = [''at://a.bc''],
     op_services = [], op_prev = None, op_sig = None\<rparr>"

definition toy_tombstone :: tombstone where "toy_tombstone = \<lparr>tb_kind = TOMBSTONE, tb_prev = ''c'', tb_sig = None\<rparr>"

lemma late_directory_ok: "directory_ok late_view toy_plc late_net toy_client did op t"
  by (auto simp: directory_ok_def late_view_def late_net_def toy_plc_def toy_client_def brings_nothing_def plc_document_def
      is_success_def plc_uri_def split: if_splits)

lemmas late_defs = plc_send_def plc_confirm_def plc_attempt_def plc_holds_def plc_document_def plc_uri_def plc_retire_def
  late_net_def toy_plc_def toy_client_def Let_def is_success_def

theorem send_verdict_witness:
  "plc_send toy_plc late_net toy_client (Did ''did:plc:a'') toy_operation 0 = (Inl (PlcUnreachable ''down''), 4)
   \<and> \<not> registered late_view 4"
proof -
  have s: "plc_send toy_plc late_net toy_client (Did ''did:plc:a'') toy_operation 0 = (Inl (PlcUnreachable ''down''), 4)"
    by (simp add: late_defs)
  have w: "\<not> registered late_view 0" "\<not> on_the_way late_view 0" "\<not> retired late_view 0" by (simp_all add: late_view_def)
  show ?thesis using send_verdict [OF late_directory_ok w s] s by simp
qed

text \<open>an answer that the directory could not be reached does not mean that the operation never arrives:
  the first copy may have been sent and land after the last read found nothing. The identifier then
  resolves, while the caller was told that it could not be registered.\<close>

theorem unreachable_yet_registered:
  "\<exists>w. plc_send toy_plc late_net toy_client (Did ''did:plc:a'') toy_operation 0 = (Inl (PlcUnreachable ''down''), w)
     \<and> directory_ok late_view toy_plc late_net toy_client (Did ''did:plc:a'') toy_operation toy_tombstone
     \<and> fst (plc_resolve toy_plc late_net toy_client (Did ''did:plc:a'') w) = Inr ''did:plc:a''"
proof (intro exI [of _ 4] conjI late_directory_ok)
qed (simp_all add: plc_resolve_def plc_fetch_def late_defs)

theorem genesis_operation_witness:
  "\<exists>op. op_create toy_plc toy_crypto (Handle ''a.bc'') ''https://p'' (PP256 True) [PP256 False] (KP256 True) = Inr op
     \<and> op_verify toy_plc toy_crypto op = Inr ()"
proof -
  let ?L = "\<lparr>sha256 = (\<lambda>b. replicate 32 CHR ''x''), new_v1 = (\<lambda>a b c. c)\<rparr> :: string lib"
  obtain op where op: "op_create toy_plc toy_crypto (Handle ''a.bc'') ''https://p'' (PP256 True) [PP256 False] (KP256 True) = Inr op"
    by (simp add: op_create_def op_payload_def plc_encode_def toy_plc_def Let_def)
  obtain d where d: "op_did ?L toy_plc op = Inr d" by (simp add: op_did_def plc_encode_def toy_plc_def)
  have "op_verify toy_plc toy_crypto op = Inr ()"
    using genesis_operation [OF toy_crypto_ok _ op _ d] by (simp add: toy_plc_def)
  then show ?thesis using op by blast
qed

end
