(* ===== verification/Accounts_Props.thy ===== *)
theory Accounts_Props
  imports Accounts
begin

text \<open>
  What the account database keeps: handles and addresses are nobody else's whatever their case, every
  account has both its rows, and no invite is used more often than it was made for. The steps are the
  operations the service calls; \<open>spend_invite\<close> by itself, which checks nothing, is called by none of it.
\<close>

section \<open>Consistency\<close>

definition nobody_shares :: "('a \<Rightarrow> string option) \<Rightarrow> (string \<times> 'a) list \<Rightarrow> bool" where
  "nobody_shares f rows \<longleftrightarrow>
     (\<forall>d r e s. map_of rows d = Some r \<and> map_of rows e = Some s \<and> f r \<noteq> None \<and> f r = f s \<longrightarrow> d = e)"

definition within_uses :: "accounts \<Rightarrow> bool" where
  "within_uses db \<longleftrightarrow>
     (\<forall>code. uses_of code db \<le> (case map_of (invite_codes db) code of None \<Rightarrow> 0 | Some iv \<Rightarrow> iv_uses iv))"

definition lower_handle :: "actor_row \<Rightarrow> string option" where
  "lower_handle a = map_option to_ascii_lowercase (ac_handle a)"

definition lower_email :: "account_row \<Rightarrow> string option" where
  "lower_email r = Some (to_ascii_lowercase (ar_email r))"

definition accounts_ok :: "accounts \<Rightarrow> bool" where
  "accounts_ok db \<longleftrightarrow>
     ascending (actor_rows db) \<and> ascending (account_rows db) \<and> ascending (refresh_tokens db)
     \<and> dom (map_of (account_rows db)) = dom (map_of (actor_rows db))
     \<and> nobody_shares lower_handle (actor_rows db) \<and> nobody_shares lower_email (account_rows db)
     \<and> within_uses db \<and> distinct (map (\<lambda>r. (ap_did r, ap_name r)) (app_rows db))"

lemma accounts_okD:
  assumes "accounts_ok db"
  shows "ascending (actor_rows db)" "ascending (account_rows db)" "ascending (refresh_tokens db)"
    "dom (map_of (account_rows db)) = dom (map_of (actor_rows db))"
    "nobody_shares lower_handle (actor_rows db)" "nobody_shares lower_email (account_rows db)"
    "within_uses db" "distinct (map (\<lambda>r. (ap_did r, ap_name r)) (app_rows db))"
  using assms unfolding accounts_ok_def by blast+

lemma nobody_shares_upd:
  assumes "nobody_shares f rows" "ascending rows" "map_of rows d = None"
    and "f r \<noteq> None \<longrightarrow> \<not> list_ex (\<lambda>(_, s). f s = f r) rows"
  shows "nobody_shares f (al_upd d r rows)"
proof -
  have n: "f s \<noteq> f r" if "map_of rows e = Some s" "f r \<noteq> None" for e s
    using assms(4) that map_of_SomeD [OF that(1)] by (auto simp: list_ex_iff)
  show ?thesis
    unfolding nobody_shares_def
  proof (intro allI impI, elim conjE)
    fix a x b y
    assume m: "map_of (al_upd d r rows) a = Some x" "map_of (al_upd d r rows) b = Some y" "f x \<noteq> None" "f x = f y"
    show "a = b"
    proof (cases "a = d"; cases "b = d")
      assume "a \<noteq> d" "b \<noteq> d"
      then show ?thesis using m assms(1) unfolding nobody_shares_def by fastforce
    qed (use m n in auto)
  qed
qed

lemma nobody_shares_del: "nobody_shares f rows \<Longrightarrow> ascending rows \<Longrightarrow> nobody_shares f (al_del d rows)"
  unfolding nobody_shares_def by (metis map_of_al_del fun_upd_apply option.distinct(1))

lemma uses_filter: "uses_of code (db\<lparr>invite_uses := filter p (invite_uses db)\<rparr>) \<le> uses_of code db"
proof -
  have "length (filter q (filter p us)) \<le> length (filter q us)" for q :: "string \<times> string \<Rightarrow> bool" and us
    by (induction us) auto
  then show ?thesis by (simp add: uses_of_def)
qed


section \<open>Steps\<close>

inductive accounts_step :: "('c, 'j) accounts_lib_scheme \<Rightarrow> accounts \<Rightarrow> accounts \<Rightarrow> bool" for J where
  Registered: "accounts_create J now reg db = Inr db' \<Longrightarrow> accounts_step J db db'"
| Taken_Out: "accounts_step J db (accounts_delete did db)"
| Root_Moved: "accounts_step J db (update_root J now did root db)"
| Opened: "accounts_step J db (store_session J s db)"
| Rotated: "rotate_row J jti until next db = (was, db') \<Longrightarrow> accounts_step J db db'"
| Revoked: "revoke_session jti db = (was, db') \<Longrightarrow> accounts_step J db db'"
| Revoked_All: "revoke_sessions did db = (n, db') \<Longrightarrow> accounts_step J db db'"
| Expired: "expire_sessions J did now db = (n, db') \<Longrightarrow> accounts_step J db db'"
| App_Made: "create_app_password J now did p hash db = (r, db') \<Longrightarrow> accounts_step J db db'"
| App_Revoked: "revoke_app_password did name db = (was, db') \<Longrightarrow> accounts_step J db db'"
| Invited: "create_invites J now codes who by_whom uses db = (Inr db' :: 'c store_error + accounts) \<Longrightarrow> accounts_step J db db'"

inductive accounts_reachable :: "('c, 'j) accounts_lib_scheme \<Rightarrow> accounts \<Rightarrow> bool" for J where
  Start: "accounts_reachable J accounts_new"
| Step: "accounts_reachable J db \<Longrightarrow> accounts_step J db db' \<Longrightarrow> accounts_reachable J db'"

lemma accounts_new_ok: "accounts_ok accounts_new"
  by (simp add: accounts_ok_def accounts_new_def nobody_shares_def within_uses_def uses_of_def)

text \<open>Sessions and app passwords are apart from everything else.\<close>

lemma accounts_ok_keep:
  assumes "accounts_ok db" "actor_rows db' = actor_rows db" "account_rows db' = account_rows db"
    and "invite_codes db' = invite_codes db" "invite_uses db' = invite_uses db"
    and "ascending (refresh_tokens db')" "distinct (map (\<lambda>r. (ap_did r, ap_name r)) (app_rows db'))"
  shows "accounts_ok db'"
  using assms by (simp add: accounts_ok_def within_uses_def uses_of_def)

lemma tokens_ok:
  assumes "accounts_ok db" "ascending ts"
  shows "accounts_ok (db\<lparr>refresh_tokens := ts\<rparr>)"
  by (rule accounts_ok_keep [OF assms(1)]) (use assms accounts_okD(8) [OF assms(1)] in simp_all)

lemma insert_session_ok:
  assumes "accounts_ok db"
  shows "accounts_ok (insert_session J s db)"
  using tokens_ok [OF assms ascending_al_upd [OF accounts_okD(3) [OF assms]]] assms by (simp add: insert_session_def)

lemma insert_actor_ok:
  assumes "accounts_ok db" "insert_actor J now a db = Inr db'"
  shows "ascending (actor_rows db') \<and> nobody_shares lower_handle (actor_rows db')
    \<and> dom (map_of (actor_rows db')) = insert (did_str (acc_did a)) (dom (map_of (actor_rows db)))
    \<and> db' = db\<lparr>actor_rows := actor_rows db'\<rparr> \<and> map_of (actor_rows db) (did_str (acc_did a)) = None"
proof -
  let ?d = "did_str (acc_did a)" and ?r = "\<lparr>ac_handle = map_option handle_str (acc_handle a), ac_created = stamp J now, ac_takedown = None\<rparr>"
  have d: "map_of (actor_rows db) ?d = None" and e: "actor_rows db' = al_upd ?d ?r (actor_rows db)"
    and f: "lower_handle ?r \<noteq> None \<longrightarrow> \<not> list_ex (\<lambda>(_, s). lower_handle s = lower_handle ?r) (actor_rows db)"
    and g: "db' = db\<lparr>actor_rows := actor_rows db'\<rparr>"
    using assms(2) by (auto simp: insert_actor_def Let_def lower_handle_def split: if_splits)
  show ?thesis
    using accounts_okD(1,5) [OF assms(1)] nobody_shares_upd [OF accounts_okD(5,1) [OF assms(1)] d f] d g
    unfolding e by (auto simp: ascending_al_upd)
qed

lemma insert_account_ok:
  assumes "ascending (account_rows db)" "nobody_shares lower_email (account_rows db)" "insert_account a db = Inr db'"
  shows "ascending (account_rows db') \<and> nobody_shares lower_email (account_rows db')
    \<and> dom (map_of (account_rows db')) = insert (did_str (acc_did a)) (dom (map_of (account_rows db)))
    \<and> db' = db\<lparr>account_rows := account_rows db'\<rparr>"
proof -
  let ?d = "did_str (acc_did a)" and ?r = "\<lparr>ar_email = acc_email a, ar_scrypt = acc_scrypt a\<rparr>"
  have d: "map_of (account_rows db) ?d = None" and e: "account_rows db' = al_upd ?d ?r (account_rows db)"
    and f: "lower_email ?r \<noteq> None \<longrightarrow> \<not> list_ex (\<lambda>(_, s). lower_email s = lower_email ?r) (account_rows db)"
    and g: "db' = db\<lparr>account_rows := account_rows db'\<rparr>"
    using assms(3) by (auto simp: insert_account_def Let_def lower_email_def split: if_splits)
  show ?thesis using assms(1) nobody_shares_upd [OF assms(2,1) d f] g unfolding e by (auto simp: ascending_al_upd)
qed

lemma spend_available_ok:
  assumes "within_uses db" "available db code" "spend_invite code d db = Inr db'"
  shows "within_uses db' \<and> db' = db\<lparr>invite_uses := invite_uses db'\<rparr>"
proof -
  have db': "db' = db\<lparr>invite_uses := invite_uses db @ [(code, d)]\<rparr>" using assms(3) by (auto simp: spend_invite_def split: if_splits)
  have "uses_of c db' = (if c = code then Suc (uses_of c db) else uses_of c db)" for c by (simp add: db' uses_of_def)
  then show ?thesis using assms(1,2) db' by (auto simp: within_uses_def available_def split: option.splits)
qed

lemma accounts_createE:
  fixes J :: "('c, 'j) actor_lib_scheme"
  assumes "accounts_create J now reg db = Inr db'"
  obtains db1 db2 db3 where "(case reg_invite reg of None \<Rightarrow> Inr db | Some code \<Rightarrow>
        if \<not> available db code then Inl InviteUnavailable else spend_invite code (did_str (acc_did (reg_account reg))) db)
        = (Inr db1 :: 'c store_error + accounts)"
    "insert_actor J now (reg_account reg) db1 = (Inr db2 :: 'c store_error + accounts)"
    "insert_account (reg_account reg) db2 = (Inr db3 :: 'c store_error + accounts)"
    "db' = (case reg_session reg of None \<Rightarrow> upsert_root J False now (acc_did (reg_account reg)) (reg_root reg) db3
      | Some s \<Rightarrow> insert_session J s (upsert_root J False now (acc_did (reg_account reg)) (reg_root reg) db3))"
proof -
  let ?a = "reg_account reg"
  note c = assms [unfolded accounts_create_def Let_def bindE_eq_Inr]
  obtain db1 where 1: "(case reg_invite reg of None \<Rightarrow> Inr db | Some code \<Rightarrow>
        if \<not> available db code then Inl InviteUnavailable else spend_invite code (did_str (acc_did ?a)) db) = (Inr db1 :: 'c store_error + accounts)"
    using c by blast
  then obtain db2 where 2: "insert_actor J now ?a db1 = (Inr db2 :: 'c store_error + accounts)" using c by (metis sum.inject(2))
  then obtain db3 where 3: "insert_account ?a db2 = (Inr db3 :: 'c store_error + accounts)" using c 1 by (metis sum.inject(2))
  show thesis using assms 1 2 3 by (intro that [OF 1 2 3]) (simp add: accounts_create_def Let_def)
qed

lemma create_ok:
  fixes J :: "('c, 'j) actor_lib_scheme"
  assumes "accounts_ok db" "accounts_create J now reg db = Inr db'"
  shows "accounts_ok db'"
proof -
  let ?a = "reg_account reg"
  obtain db1 db2 db3 where 1: "(case reg_invite reg of None \<Rightarrow> Inr db | Some code \<Rightarrow>
        if \<not> available db code then Inl InviteUnavailable else spend_invite code (did_str (acc_did ?a)) db) = (Inr db1 :: 'c store_error + accounts)"
    and 2: "insert_actor J now ?a db1 = (Inr db2 :: 'c store_error + accounts)"
    and 3: "insert_account ?a db2 = (Inr db3 :: 'c store_error + accounts)"
    and db': "db' = (case reg_session reg of None \<Rightarrow> upsert_root J False now (acc_did ?a) (reg_root reg) db3
      | Some s \<Rightarrow> insert_session J s (upsert_root J False now (acc_did ?a) (reg_root reg) db3))"
    using assms(2) by (rule accounts_createE)
  have u: "within_uses db1 \<and> db1 = db\<lparr>invite_uses := invite_uses db1\<rparr>"
    using 1 accounts_okD(7) [OF assms(1)] spend_available_ok [of db] by (auto split: option.splits if_splits)
  then obtain us where us: "db1 = db\<lparr>invite_uses := us\<rparr>" "within_uses db1" by metis
  have ok1: "accounts_ok db1" using assms(1) us(2) unfolding accounts_ok_def us(1) by simp
  note ia = insert_actor_ok [OF ok1 2]
  then obtain as where as: "db2 = db1\<lparr>actor_rows := as\<rparr>" by metis
  note ib = insert_account_ok [OF _ _ 3]
  have ib': "ascending (account_rows db3) \<and> nobody_shares lower_email (account_rows db3)
    \<and> dom (map_of (account_rows db3)) = insert (did_str (acc_did ?a)) (dom (map_of (account_rows db2)))
    \<and> db3 = db2\<lparr>account_rows := account_rows db3\<rparr>"
    by (rule ib) (use accounts_okD(2,6) [OF ok1] as in simp_all)
  then obtain bs where bs: "db3 = db2\<lparr>account_rows := bs\<rparr>" by metis
  have "accounts_ok db3"
    using ia ib' accounts_okD [OF ok1] unfolding accounts_ok_def bs as by (simp add: within_uses_def uses_of_def)
  then have "accounts_ok (upsert_root J False now (acc_did ?a) (reg_root reg) db3)"
    by (simp add: accounts_ok_def upsert_root_def within_uses_def uses_of_def)
  then show ?thesis unfolding db' by (auto simp: insert_session_ok split: option.splits)
qed

lemma invites_ok:
  "accounts_ok db \<Longrightarrow> create_invites J now codes who by_whom uses db = (Inr db' :: 'e store_error + accounts) \<Longrightarrow> accounts_ok db'"
  unfolding create_invites_def
proof (erule foldE_invariant [where I = accounts_ok, rotated])
  fix code and db db' :: accounts
  assume ok: "accounts_ok db" and i: "insert_invite J now who by_whom uses code db = (Inr db' :: 'e store_error + accounts)"
  then have n: "map_of (invite_codes db) code = None"
    and db': "db' = db\<lparr>invite_codes := al_upd code \<lparr>iv_uses = uses, iv_disabled = False, iv_for = who, iv_by = by_whom, iv_created = stamp J now\<rparr> (invite_codes db)\<rparr>"
    by (auto simp: insert_invite_def split: if_splits)
  have "uses_of code db = 0" using accounts_okD(7) [OF ok] n unfolding within_uses_def by (metis le_0_eq option.simps(4))
  then have "within_uses db'" using accounts_okD(7) [OF ok] unfolding within_uses_def db' by (simp add: uses_of_def)
  then show "accounts_ok db'" using accounts_okD [OF ok] unfolding accounts_ok_def db' by simp
qed simp

lemma delete_ok: "accounts_ok db \<Longrightarrow> accounts_ok (accounts_delete did db)"
proof -
  assume ok: "accounts_ok db"
  note d = accounts_okD [OF ok]
  have "uses_of code (accounts_delete did db) \<le> uses_of code db" for code
    using uses_filter [of code "\<lambda>(_, u). u \<noteq> did_str did" db] by (simp add: uses_of_def accounts_delete_def Let_def)
  then have "within_uses (accounts_delete did db)"
    using d(7) unfolding within_uses_def by (force simp: accounts_delete_def Let_def intro: le_trans)
  moreover have "dom (map_of (al_del x (account_rows db))) = dom (map_of (al_del x (actor_rows db)))" for x
    using d(1,2,4) by (simp add: map_of_al_del)
  moreover have "distinct (map (\<lambda>r. (ap_did r, ap_name r)) (filter p (app_rows db)))" for p
    using d(8) by (simp add: distinct_map_filter)
  ultimately show ?thesis
    using d by (simp add: accounts_ok_def accounts_delete_def Let_def ascending_al_del nobody_shares_del ascending_filter)
qed

lemma accounts_step_ok: "accounts_step J db db' \<Longrightarrow> accounts_ok db \<Longrightarrow> accounts_ok db'"
proof (induction rule: accounts_step.induct)
  case (App_Made now did p hash db r db')
  show ?case
  proof (cases "find_app (did_str did) (app_name p) db")
    case None
    then have "(did_str did, app_name p) \<notin> set (map (\<lambda>r. (ap_did r, ap_name r)) (app_rows db))"
      by (auto simp: find_app_def find_None_iff)
    then show ?thesis
      using App_Made None accounts_okD(3,8) [OF App_Made(2)]
      by (intro accounts_ok_keep [OF App_Made(2)]) (auto simp: create_app_password_def)
  qed (use App_Made in \<open>simp add: create_app_password_def\<close>)
next
  case (App_Revoked did name db was db')
  then have "distinct (map (\<lambda>r. (ap_did r, ap_name r)) (filter q (app_rows db)))" for q
    by (simp add: distinct_map_filter accounts_okD(8))
  then show ?case using App_Revoked ascending_filter [OF accounts_okD(3) [OF App_Revoked(2)]]
    by (intro accounts_ok_keep [OF App_Revoked(2)]) (auto simp: revoke_app_password_def)
next
  case (Rotated jti until nxt db was db')
  then show ?case
    by (auto simp: rotate_row_def split: option.splits if_splits
        intro!: insert_session_ok tokens_ok ascending_al_upd accounts_okD(3))
next
  case (Root_Moved db now did root)
  then show ?case using accounts_okD(3,8)
    by (intro accounts_ok_keep [OF Root_Moved]) (simp_all add: update_root_def upsert_root_def)
next
  case (Revoked jti db was db')
  then show ?case using tokens_ok [OF Revoked(2)] accounts_okD(3) [OF Revoked(2)] by (auto simp: revoke_session_def ascending_al_del)
next
  case (Revoked_All did db n db')
  then show ?case using tokens_ok [OF Revoked_All(2)] accounts_okD(3) [OF Revoked_All(2)] by (auto simp: revoke_sessions_def ascending_filter)
next
  case (Expired did now db n db')
  then show ?case using tokens_ok [OF Expired(2)] accounts_okD(3) [OF Expired(2)] by (auto simp: expire_sessions_def Let_def ascending_filter)
next
  case (Registered now reg db db')
  then show ?case using create_ok by blast
next
  case (Invited now codes who by_whom uses db db')
  then show ?case using invites_ok [OF Invited(2,1)] by blast
qed (simp_all add: delete_ok insert_session_ok store_session_def)

lemma accounts_reachable_ok: "accounts_reachable J db \<Longrightarrow> accounts_ok db"
  by (induction rule: accounts_reachable.induct) (auto simp: accounts_new_ok accounts_step_ok)

text \<open>C28: in every state the service can bring the account database to, by signups, rollbacks, sessions,
  app passwords and invites in any order, no two accounts answer to one handle or one address whatever
  the case, an account has all its rows or none, and no invite has been used more often than it allows.\<close>

theorem accounts_consistent:
  assumes "accounts_reachable J db"
  shows "(map_of (actor_rows db) d = Some a \<and> map_of (actor_rows db) e = Some b \<and> ac_handle a \<noteq> None
      \<and> map_option to_ascii_lowercase (ac_handle a) = map_option to_ascii_lowercase (ac_handle b) \<longrightarrow> d = e)
    \<and> (map_of (account_rows db) d = Some r \<and> map_of (account_rows db) e = Some s
      \<and> to_ascii_lowercase (ar_email r) = to_ascii_lowercase (ar_email s) \<longrightarrow> d = e)
    \<and> (map_of (actor_rows db) d = None \<longleftrightarrow> map_of (account_rows db) d = None)
    \<and> uses_of code db \<le> (case map_of (invite_codes db) code of None \<Rightarrow> 0 | Some iv \<Rightarrow> iv_uses iv)"
proof -
  note ok = accounts_okD [OF accounts_reachable_ok [OF assms]]
  have "map_of (actor_rows db) d = None \<longleftrightarrow> map_of (account_rows db) d = None" using ok(4) by (metis domIff)
  moreover have "d = e" if "map_of (actor_rows db) d = Some a" "map_of (actor_rows db) e = Some b" "ac_handle a \<noteq> None"
    "map_option to_ascii_lowercase (ac_handle a) = map_option to_ascii_lowercase (ac_handle b)"
  proof -
    have "lower_handle a = lower_handle b" using that(4) unfolding lower_handle_def .
    moreover have "lower_handle a \<noteq> None" using that(3) by (simp add: lower_handle_def)
    ultimately show ?thesis using ok(5) that(1,2) unfolding nobody_shares_def by blast
  qed
  moreover have "d = e" if "map_of (account_rows db) d = Some r" "map_of (account_rows db) e = Some s"
    "to_ascii_lowercase (ar_email r) = to_ascii_lowercase (ar_email s)"
  proof -
    have "lower_email r \<noteq> None" "lower_email r = lower_email s" using that(3) by (simp_all add: lower_email_def)
    then show ?thesis using ok(6) that(1,2) unfolding nobody_shares_def by blast
  qed
  ultimately show ?thesis using ok(7) unfolding within_uses_def by blast
qed


section \<open>An instance\<close>

definition toy_accounts_lib :: "string accounts_lib" where
  "toy_accounts_lib = \<lparr>base64_encode = (\<lambda>b. b), base64_decode = Some, cid_to_string = (\<lambda>c. c), cid_parse = Some,
     stamp = (\<lambda>t. replicate (nat (int t div 1000000)) CHR ''x''), stamp_parse = (\<lambda>s. Some (1000000 * length s))\<rparr>"

definition toy_registration :: "string \<Rightarrow> string \<Rightarrow> string option \<Rightarrow> string registration" where
  "toy_registration d h code =
     \<lparr>reg_account = \<lparr>acc_did = Did d, acc_handle = Some (Handle h), acc_email = h, acc_scrypt = ''s''\<rparr>,
      reg_root = \<lparr>rt_cid = ''c'', rt_rev = Tid ''t''\<rparr>, reg_invite = code, reg_session = None\<rparr>"

definition toy_invited :: accounts where
  "toy_invited = (case create_invites toy_accounts_lib 0 [''code''] ''admin'' ''admin'' 1 accounts_new of
     Inl (e :: string store_error) \<Rightarrow> accounts_new | Inr db \<Rightarrow> db)"

definition toy_registered :: accounts where
  "toy_registered = (case accounts_create toy_accounts_lib 0 (toy_registration ''did:plc:a'' ''a.b'' (Some ''code'')) toy_invited of
     Inl e \<Rightarrow> accounts_new | Inr db \<Rightarrow> db)"

lemmas toy_accounts_defs = toy_accounts_lib_def accounts_new_def create_invites_def insert_invite_def accounts_create_def
  toy_registration_def available_def uses_of_def spend_invite_def insert_actor_def insert_account_def upsert_root_def
  unique_failed_def Let_def

lemma toy_invited_eq: "toy_invited = accounts_new\<lparr>invite_codes :=
    [(''code'', \<lparr>iv_uses = 1, iv_disabled = False, iv_for = ''admin'', iv_by = ''admin'', iv_created = []\<rparr>)]\<rparr>"
  by (simp add: toy_invited_def toy_accounts_defs)

lemma toy_accounts_steps:
  "create_invites toy_accounts_lib 0 [''code''] ''admin'' ''admin'' 1 accounts_new = (Inr toy_invited :: string store_error + accounts)"
  "accounts_create toy_accounts_lib 0 (toy_registration ''did:plc:a'' ''a.b'' (Some ''code'')) toy_invited = Inr toy_registered"
  by (simp_all add: toy_invited_eq toy_registered_def toy_accounts_defs)

lemma toy_accounts_refused:
  "accounts_create toy_accounts_lib 0 (toy_registration ''did:plc:b'' ''b.b'' (Some ''code'')) toy_registered = Inl InviteUnavailable"
  by (simp add: toy_registered_def toy_invited_eq toy_accounts_defs)

lemma toy_accounts_reachable: "accounts_reachable toy_accounts_lib toy_registered"
  by (rule Step [OF Step [OF Start Invited [OF toy_accounts_steps(1)]] Registered [OF toy_accounts_steps(2)]])

theorem accounts_consistent_witness:
  "uses_of ''code'' toy_registered = 1
   \<and> uses_of ''code'' toy_registered \<le> (case map_of (invite_codes toy_registered) ''code'' of None \<Rightarrow> 0 | Some iv \<Rightarrow> iv_uses iv)"
proof -
  have "uses_of ''code'' toy_registered = 1" by (simp add: toy_registered_def toy_invited_eq toy_accounts_defs)
  then show ?thesis using accounts_consistent [OF toy_accounts_reachable, where code = "''code''"] by blast
qed

end
