(* ===== verification/Sessions_Props.thy ===== *)
theory Sessions_Props
  imports Sessions Accounts_Props
begin

text \<open>
  What sessions promise: an exchange always answers, a retried one hands out the same successor until
  the grace period is over, what is handed out stays with the account and app password it came from,
  and a password signs in exactly the account it belongs to.
\<close>

section \<open>An exchange returns\<close>

text \<open>What nobody does to the row of a token: bring it back, or name a second successor. A table has one row
  per token.\<close>

definition others_keep :: "string \<Rightarrow> (nat \<Rightarrow> accounts \<Rightarrow> accounts) \<Rightarrow> bool" where
  "others_keep jti f \<longleftrightarrow>
     (\<forall>i db. map_of (refresh_tokens db) jti = None \<longrightarrow> map_of (refresh_tokens (f i db)) jti = None)
     \<and> (\<forall>i db t n. map_of (refresh_tokens db) jti = Some t \<and> tk_next t = Some n \<longrightarrow>
          (case map_of (refresh_tokens (f i db)) jti of None \<Rightarrow> True | Some u \<Rightarrow> tk_next u = Some n))
     \<and> (\<forall>i db. ascending (refresh_tokens db) \<longrightarrow> ascending (refresh_tokens (f i db)))"

definition gone_or_next :: "string \<Rightarrow> string \<Rightarrow> accounts \<Rightarrow> bool" where
  "gone_or_next jti n db \<longleftrightarrow>
     (case map_of (refresh_tokens db) jti of None \<Rightarrow> True | Some u \<Rightarrow> tk_next u = Some n)"

lemma others_keep_gone: "others_keep jti f \<Longrightarrow> map_of (refresh_tokens db) jti = None \<Longrightarrow> map_of (refresh_tokens (f i db)) jti = None"
  unfolding others_keep_def by blast

lemma others_keep_next:
  assumes "others_keep jti f" "gone_or_next jti n db"
  shows "gone_or_next jti n (f i db)"
proof (cases "map_of (refresh_tokens db) jti")
  case None
  then show ?thesis using others_keep_gone [OF assms(1)] by (simp add: gone_or_next_def)
next
  case (Some t)
  then show ?thesis using assms unfolding others_keep_def gone_or_next_def by fastforce
qed

lemma map_of_filter_ascending:
  "ascending ps \<Longrightarrow> map_of (filter (\<lambda>(_, v). P v) ps) k = (case map_of ps k of None \<Rightarrow> None | Some v \<Rightarrow> if P v then Some v else None)"
proof (induction ps)
  case (Cons p ps)
  then have "k \<noteq> fst p \<or> map_of ps k = None" by (cases p) (use ascending_not_key [of "fst p" "snd p" ps] in \<open>auto simp: map_of_eq_None_iff\<close>)
  then show ?case using Cons by (cases p) (auto split: option.splits)
qed simp

lemma expire_tokens:
  assumes "ascending (refresh_tokens db)"
  shows "map_of (refresh_tokens (snd (expire_sessions J did now db))) jti =
    (case map_of (refresh_tokens db) jti of
       None \<Rightarrow> None
     | Some t \<Rightarrow> if tk_did t = did_str did \<and> tk_expires t \<le> stamp J now then None else Some t)"
  unfolding expire_sessions_def Let_def
  using map_of_filter_ascending [OF assms, of "\<lambda>t. \<not> (tk_did t = did_str did \<and> tk_expires t \<le> stamp J now)" jti]
  by (auto split: option.splits)

lemma expire_ascending: "ascending (refresh_tokens db) \<Longrightarrow> ascending (refresh_tokens (snd (expire_sessions J did now db)))"
  by (simp add: expire_sessions_def Let_def ascending_filter)

lemma rotate_row_False:
  assumes "rotate_row J jti until new db = (False, db')"
  shows "db' = db \<and> (map_of (refresh_tokens db) jti = None
     \<or> (\<exists>t n. map_of (refresh_tokens db) jti = Some t \<and> tk_next t = Some n \<and> n \<noteq> ss_id new))"
  using assms by (auto simp: rotate_row_def split: option.splits if_splits)

lemma unsettled: "(case p of (True, d) \<Rightarrow> (Some x, d) | (False, d) \<Rightarrow> (None, d)) = (None, d') \<Longrightarrow> p = (False, d')"
  by (auto split: prod.splits bool.splits)

text \<open>A turn that did not settle read a row, and found it gone or with another successor when it wrote.\<close>

lemma rotate_turn_NoneE:
  assumes "rotate_turn J E jti i db = (None, db')"
  obtains s expires new where "session_of J jti (ex_others E (3 * i) db) = Inr (Some s)"
    "ss_id new = (case ss_next s of None \<Rightarrow> ex_fresh E i | Some n \<Rightarrow> n)"
    "rotate_row J jti expires new (ex_others E (3 * i + 2)
       (snd (expire_sessions J (ss_did s) (ex_now E i) (ex_others E (3 * i + 1) (ex_others E (3 * i) db))))) = (False, db')"
proof (cases "session_of J jti (ex_others E (3 * i) db)")
  case (Inr r)
  note turn = assms [unfolded rotate_turn_def Let_def Inr sum.case]
  show thesis
  proof (cases r)
    case (Some s)
    note turn = turn [unfolded Some option.case]
    have "\<not> min (ss_expires s) (ex_now E i + GRACE) \<le> ex_now E i" using turn by (auto split: if_splits)
    note turn = turn [unfolded if_not_P [OF this]]
    from unsettled [OF turn] show thesis by (rule that [OF Inr [unfolded Some], rotated]) simp
  qed (use turn in simp)
qed (use assms in \<open>simp add: rotate_turn_def Let_def\<close>)

lemma session_of_Some:
  assumes "session_of J jti db = Inr (Some s)"
  obtains t where "map_of (refresh_tokens db) jti = Some t" "ss_next s = tk_next t" "ss_id s = jti"
    "did_from_str (tk_did t) = Inr (ss_did s)" "stamp_parse J (tk_expires t) = Some (ss_expires s)"
    "map_option app_name (ss_app s) = tk_app t"
  using assms unfolding session_of_def by (auto simp: result_simps option.map_comp comp_def option.map_ident split: option.splits)

lemma keeps_through:
  assumes "others_keep jti f" "gone_or_next jti n db" "ascending (refresh_tokens db)"
  shows "gone_or_next jti n (snd (expire_sessions J did now db))"
  using assms(2) expire_tokens [OF assms(3), of J did now jti] by (auto simp: gone_or_next_def split: option.splits)

lemma rotate_turn_gone:
  assumes "others_keep jti (ex_others E)" "map_of (refresh_tokens db) jti = None"
  shows "rotate_turn J E jti i db = (Some (Inr None), ex_others E (3 * i) db)"
  using others_keep_gone [OF assms] by (simp add: rotate_turn_def session_of_def)

lemma rotate_turn_named:
  assumes "others_keep jti (ex_others E)" "gone_or_next jti n db" "ascending (refresh_tokens db)"
    and "rotate_turn J E jti i db = (None, db')"
  shows "map_of (refresh_tokens db') jti = None"
proof -
  obtain s expires new where s: "session_of J jti (ex_others E (3 * i) db) = Inr (Some s)"
    and new: "ss_id new = (case ss_next s of None \<Rightarrow> ex_fresh E i | Some n \<Rightarrow> n)"
    and row: "rotate_row J jti expires new (ex_others E (3 * i + 2)
       (snd (expire_sessions J (ss_did s) (ex_now E i) (ex_others E (3 * i + 1) (ex_others E (3 * i) db))))) = (False, db')"
    using assms(4) by (rule rotate_turn_NoneE)
  have asc: "ascending (refresh_tokens (ex_others E k d))" if "ascending (refresh_tokens d)" for k d
    using assms(1) that unfolding others_keep_def by blast
  note k = others_keep_next [OF assms(1)]
  obtain t where "map_of (refresh_tokens (ex_others E (3 * i) db)) jti = Some t" "ss_next s = tk_next t"
    using s by (rule session_of_Some)
  then have "ss_id new = n" using k [OF assms(2), of "3 * i"] new by (simp add: gone_or_next_def)
  moreover have "gone_or_next jti n db'"
    using k [OF keeps_through [OF assms(1) k [OF k [OF assms(2)]] asc [OF asc [OF assms(3)]]]] rotate_row_False [OF row] by metis
  ultimately show ?thesis using rotate_row_False [OF row] by (auto simp: gone_or_next_def)
qed

lemma rotate_turn_unsettled:
  assumes "others_keep jti (ex_others E)" "ascending (refresh_tokens db)" "rotate_turn J E jti i db = (None, db')"
  shows "ascending (refresh_tokens db') \<and> (\<exists>n. gone_or_next jti n db')"
proof -
  obtain s expires new where s: "session_of J jti (ex_others E (3 * i) db) = Inr (Some s)"
    and new: "ss_id new = (case ss_next s of None \<Rightarrow> ex_fresh E i | Some n \<Rightarrow> n)"
    and row: "rotate_row J jti expires new (ex_others E (3 * i + 2)
       (snd (expire_sessions J (ss_did s) (ex_now E i) (ex_others E (3 * i + 1) (ex_others E (3 * i) db))))) = (False, db')"
    using assms(3) by (rule rotate_turn_NoneE)
  have asc: "ascending (refresh_tokens (ex_others E k d))" if "ascending (refresh_tokens d)" for k d
    using assms(1) that unfolding others_keep_def by blast
  show ?thesis using asc [OF expire_ascending [OF asc [OF asc [OF assms(2)]]]] rotate_row_False [OF row]
    by (auto simp: gone_or_next_def)
qed

text \<open>C30: exchanging a refresh token always comes to an answer, though another server may be writing to
  the same rows: the loop ends within three turns, because a successor once named stays named until its
  row is gone.\<close>

theorem rotate_returns:
  fixes J :: "('c, 'j) accounts_lib_scheme"
  assumes keep: "others_keep jti (ex_others E)" and asc: "ascending (refresh_tokens db)"
  shows "\<exists>r db'. rotate J E jti db = Some (r, db')"
proof -
  have loop: "rotate_loop J E jti i d = (case rotate_turn J E jti i d of (Some r, d) \<Rightarrow> Some (r, d) | (None, d) \<Rightarrow> rotate_loop J E jti (Suc i) d)" for i d
    by (rule rotate_loop.simps)
  have 3: "\<exists>r d'. rotate_loop J E jti i d = Some (r, d')" if "map_of (refresh_tokens d) jti = None" for i d
    by (subst loop) (simp add: rotate_turn_gone [OF keep that])
  have 2: "\<exists>r d'. rotate_loop J E jti i d = Some (r, d')" if n: "gone_or_next jti n d" "ascending (refresh_tokens d)" for i d n
    using rotate_turn_named [OF keep n, of J i] 3 by (subst loop) (auto split: prod.splits option.splits)
  show ?thesis unfolding rotate_def
    using rotate_turn_unsettled [OF keep asc, of J 0] 2 by (subst loop) (force split: prod.splits option.splits)
qed


section \<open>An exchange again\<close>

text \<open>A time is written to the millisecond, so that reading it back loses what is below one, and in an
  order that is the order of the times.\<close>

definition MILLISECOND :: nat where "MILLISECOND = 1000000"

definition whole_ms :: "nat \<Rightarrow> nat" where "whole_ms t = MILLISECOND * (t div MILLISECOND)"

definition stamps_ok :: "('c, 'j) accounts_lib_scheme \<Rightarrow> bool" where
  "stamps_ok J \<longleftrightarrow>
     (\<forall>t. stamp_parse J (stamp J t) = Some (whole_ms t))
     \<and> (\<forall>t u. stamp J t \<le> stamp J u \<longleftrightarrow> t div MILLISECOND \<le> u div MILLISECOND)"

lemma whole_ms_le: "whole_ms t \<le> t"
  by (simp add: whole_ms_def)

lemma later_stamp: "stamps_ok J \<Longrightarrow> now < whole_ms e \<Longrightarrow> \<not> stamp J e \<le> stamp J now"
  unfolding stamps_ok_def whole_ms_def MILLISECOND_def
  by (metis div_le_mono leD less_mult_imp_div_less linorder_not_le mult.commute)

definition stamped :: "('c, 'j) accounts_lib_scheme \<Rightarrow> accounts \<Rightarrow> bool" where
  "stamped J db \<longleftrightarrow> (\<forall>(k, t) \<in> set (refresh_tokens db). \<exists>e. tk_expires t = stamp J e)"

lemma stamped_subset: "set (refresh_tokens db') \<subseteq> set (refresh_tokens db) \<Longrightarrow> stamped J db \<Longrightarrow> stamped J db'"
  unfolding stamped_def by blast

lemma set_al_upd: "set (al_upd k v ps) \<subseteq> insert (k, v) (set ps)"
  by (induction k v ps rule: al_upd.induct) auto

lemma stamped_upd: "stamped J db \<Longrightarrow> tk_expires t = stamp J e \<Longrightarrow> stamped J (db\<lparr>refresh_tokens := al_upd k t (refresh_tokens db)\<rparr>)"
  unfolding stamped_def using set_al_upd [of k t "refresh_tokens db"] by fastforce

lemma stamped_insert: "stamped J db \<Longrightarrow> stamped J (insert_session J s db)"
  by (simp add: insert_session_def stamped_upd)

lemma stamped_rotate: "stamped J db \<Longrightarrow> stamped J (snd (rotate_row J jti until new db))"
  by (simp add: rotate_row_def split: option.split) (auto intro!: stamped_insert stamped_upd [where e = until])

lemma stamped_create:
  fixes J :: "('c, 'j) accounts_lib_scheme"
  assumes "stamped J db" "accounts_create J now reg db = Inr db'"
  shows "stamped J db'"
proof -
  obtain db1 db2 db3 where s: "(case reg_invite reg of None \<Rightarrow> Inr db | Some code \<Rightarrow>
        if \<not> available db code then Inl InviteUnavailable else spend_invite code (did_str (acc_did (reg_account reg))) db)
        = (Inr db1 :: 'c store_error + accounts)"
    "insert_actor J now (reg_account reg) db1 = (Inr db2 :: 'c store_error + accounts)"
    "insert_account (reg_account reg) db2 = (Inr db3 :: 'c store_error + accounts)"
    and db': "db' = (case reg_session reg of None \<Rightarrow> upsert_root J False now (acc_did (reg_account reg)) (reg_root reg) db3
      | Some s \<Rightarrow> insert_session J s (upsert_root J False now (acc_did (reg_account reg)) (reg_root reg) db3))"
    using assms(2) by (rule accounts_createE)
  have "refresh_tokens db1 = refresh_tokens db" using s(1) by (auto simp: spend_invite_def split: option.splits if_splits)
  moreover have "refresh_tokens db2 = refresh_tokens db1" using s(2) by (auto simp: insert_actor_def Let_def split: if_splits)
  moreover have "refresh_tokens db3 = refresh_tokens db2" using s(3) by (auto simp: insert_account_def Let_def split: if_splits)
  ultimately have "stamped J (upsert_root J False now (acc_did (reg_account reg)) (reg_root reg) db3)"
    using assms(1) by (simp add: stamped_def upsert_root_def)
  then show ?thesis by (simp add: db' stamped_insert split: option.split)
qed

lemma stamped_invites:
  "stamped J db \<Longrightarrow> create_invites J now codes who by_whom uses db = (Inr db' :: 'e store_error + accounts) \<Longrightarrow> stamped J db'"
  unfolding create_invites_def
  by (erule foldE_invariant [where I = "stamped J", rotated]) (auto simp: insert_invite_def stamped_def split: if_splits)

lemma reachable_stamped:
  assumes "accounts_reachable J db"
  shows "stamped J db"
  using assms
proof induction
  case Start
  then show ?case by (simp add: stamped_def accounts_new_def)
next
  case (Step db db')
  from Step(2,3) show ?case
  proof induction
    case (Registered now reg db db')
    then show ?case using stamped_create by blast
  next
    case (Rotated jti until nxt db was db')
    then show ?case using stamped_rotate [of J db jti until nxt] by simp
  next
    case (Revoked jti db was db')
    then show ?case using set_al_del [of jti "refresh_tokens db"] by (intro stamped_subset [OF _ Revoked(2)]) (auto simp: revoke_session_def)
  next
    case (Invited now codes who by_whom uses db db')
    then show ?case using stamped_invites [OF Invited(2,1)] by blast
  qed (auto simp: stamped_insert store_session_def accounts_delete_def update_root_def upsert_root_def revoke_sessions_def
      expire_sessions_def create_app_password_def revoke_app_password_def Let_def split: if_splits
      elim!: stamped_subset [rotated])
qed

definition quiet :: "exchange \<Rightarrow> bool" where
  "quiet E \<longleftrightarrow> ex_others E = (\<lambda>i db. db)"

definition successor :: "exchange \<Rightarrow> session \<Rightarrow> session" where
  "successor E s = \<lparr>ss_id = (case ss_next s of None \<Rightarrow> ex_fresh E 0 | Some n \<Rightarrow> n), ss_did = ss_did s,
     ss_expires = ex_now E 0 + REFRESH_LIFETIME, ss_next = None, ss_app = ss_app s\<rparr>"

lemma did_str_parsed: "did_from_str d = Inr x \<Longrightarrow> did_str x = d"
  by (auto simp: from_str_iffs)

text \<open>An exchange nobody else takes part in settles in its first turn.\<close>

lemma rotate_quiet:
  fixes J :: "('c, 'j) accounts_lib_scheme"
  assumes J: "stamps_ok J" and db: "ascending (refresh_tokens db)" "stamped J db" and q: "quiet E"
    and s: "session_of J jti db = Inr (Some s)" and t: "map_of (refresh_tokens db) jti = Some t"
  shows "rotate J E jti db =
    (let now = ex_now E 0; gone = snd (expire_sessions J (ss_did s) now db); until = min (ss_expires s) (now + GRACE) in
     if until \<le> now then Some (Inr None, gone)
     else Some (Inr (Some (successor E s)), insert_session J (successor E s)
       (gone\<lparr>refresh_tokens := al_upd jti (t\<lparr>tk_expires := stamp J until, tk_next := Some (ss_id (successor E s))\<rparr>) (refresh_tokens gone)\<rparr>)))"
proof -
  let ?now = "ex_now E 0" and ?gone = "snd (expire_sessions J (ss_did s) (ex_now E 0) db)"
  obtain u where u: "map_of (refresh_tokens db) jti = Some u" "ss_next s = tk_next u" "stamp_parse J (tk_expires u) = Some (ss_expires s)"
    using s by (rule session_of_Some)
  have nxt: "ss_next s = tk_next t" and e: "stamp_parse J (tk_expires t) = Some (ss_expires s)" using u t by simp_all
  obtain x where x: "tk_expires t = stamp J x" using db(2) map_of_SomeD [OF t] unfolding stamped_def by blast
  have "ss_expires s = whole_ms x" using J e unfolding stamps_ok_def x by simp
  then have alive: "map_of (refresh_tokens ?gone) jti = Some t" if "?now < ss_expires s"
    using later_stamp [OF J, of ?now x] that expire_tokens [OF db(1), of J "ss_did s" ?now jti] t x by simp
  have row: "rotate_row J jti until (successor E s) ?gone = (True, insert_session J (successor E s)
       (?gone\<lparr>refresh_tokens := al_upd jti (t\<lparr>tk_expires := stamp J until, tk_next := Some (ss_id (successor E s))\<rparr>) (refresh_tokens ?gone)\<rparr>))"
    if "?now < ss_expires s" for until
    using alive [OF that] nxt by (cases "tk_next t") (simp_all add: rotate_row_def successor_def)
  show ?thesis
    unfolding rotate_def
    apply (subst rotate_loop.simps)
    using s q row [of "min (ss_expires s) (?now + GRACE)"]
    by (simp add: rotate_turn_def quiet_def Let_def flip: successor_def)
qed

lemma session_kept:
  assumes "session_of J jti db = Inr (Some s)" "map_of (refresh_tokens db) jti = Some t"
    and "map_of (refresh_tokens db') jti = Some (t\<lparr>tk_expires := x, tk_next := Some n\<rparr>)"
    and "stamp_parse J x = Some e" "app_rows db' = app_rows db"
  shows "session_of J jti db' = Inr (Some (s\<lparr>ss_expires := e, ss_next := Some n\<rparr>))"
  using assms by (auto simp: session_of_def result_simps find_app_def)

lemma insert_ascending: "ascending (refresh_tokens db) \<Longrightarrow> ascending (refresh_tokens (insert_session J s db))"
  by (simp add: insert_session_def ascending_al_upd)

text \<open>C29: an exchanged token hands out one successor. After an exchange of \<open>jti\<close> that answered \<open>s1\<close>, a second one
  answers a session of the same name, account and app password until the grace period after the first or
  the token's own expiry, whichever is earlier, and nothing from then on; and the successor is there to be
  exchanged in turn. Neither exchange lengthens the token.\<close>

theorem exchange_same_successor:
  fixes J :: "('c, 'j) accounts_lib_scheme"
  assumes J: "stamps_ok J" and db: "accounts_reachable J db" and q: "quiet E1" "quiet E2"
    and s: "session_of J jti db = Inr (Some s)"
    and r1: "rotate J E1 jti db = Some (Inr (Some s1), db1)" and new: "ss_id s1 \<noteq> jti"
  shows "ss_did s1 = ss_did s \<and> ss_app s1 = ss_app s \<and> map_of (refresh_tokens db1) (ss_id s1) \<noteq> None
    \<and> (\<exists>db2. rotate J E2 jti db1 =
         Some (Inr (if ex_now E2 0 < whole_ms (min (ss_expires s) (ex_now E1 0 + GRACE))
                    then Some (s1\<lparr>ss_expires := ex_now E2 0 + REFRESH_LIFETIME\<rparr>) else None), db2))"
proof -
  let ?now = "ex_now E1 0" and ?gone = "snd (expire_sessions J (ss_did s) (ex_now E1 0) db)"
  let ?until = "min (ss_expires s) (?now + GRACE)"
  have ok: "ascending (refresh_tokens db)" "stamped J db"
    using accounts_reachable_ok [OF db] reachable_stamped [OF db] accounts_okD(3) by blast+
  obtain t where t: "map_of (refresh_tokens db) jti = Some t" using s by (rule session_of_Some)
  let ?db = "?gone\<lparr>refresh_tokens := al_upd jti (t\<lparr>tk_expires := stamp J ?until, tk_next := Some (ss_id s1)\<rparr>) (refresh_tokens ?gone)\<rparr>"
  have live: "\<not> ?until \<le> ?now" and s1: "s1 = successor E1 s" and db1: "db1 = insert_session J s1 ?db"
    using r1 rotate_quiet [OF J ok q(1) s t] by (auto simp: Let_def split: if_splits)
  have asc: "ascending (refresh_tokens ?db)" using ascending_al_upd [OF expire_ascending [OF ok(1)]] by simp
  have st: "stamped J ?db"
    using stamped_upd [OF stamped_subset [OF _ ok(2)], of ?gone "t\<lparr>tk_expires := stamp J ?until, tk_next := Some (ss_id s1)\<rparr>" ?until jti]
    by (simp add: expire_sessions_def Let_def)
  have ok1: "ascending (refresh_tokens db1)" "stamped J db1"
    unfolding db1 by (rule insert_ascending [OF asc], rule stamped_insert [OF st])
  have t1: "map_of (refresh_tokens db1) jti = Some (t\<lparr>tk_expires := stamp J ?until, tk_next := Some (ss_id s1)\<rparr>)"
    using new by (simp add: db1 insert_session_def)
  have "app_rows db1 = app_rows db" by (simp add: db1 insert_session_def expire_sessions_def Let_def)
  then have s': "session_of J jti db1 = Inr (Some (s\<lparr>ss_expires := whole_ms ?until, ss_next := Some (ss_id s1)\<rparr>))"
    using J by (intro session_kept [OF s t t1]) (simp_all add: stamps_ok_def)
  have "successor E2 (s\<lparr>ss_expires := whole_ms ?until, ss_next := Some (ss_id s1)\<rparr>) = s1\<lparr>ss_expires := ex_now E2 0 + REFRESH_LIFETIME\<rparr>"
    by (simp add: s1 successor_def)
  moreover have "0 < GRACE" by (simp add: GRACE_def SECOND_def)
  ultimately have "\<exists>db2. rotate J E2 jti db1 =
         Some (Inr (if ex_now E2 0 < whole_ms ?until then Some (s1\<lparr>ss_expires := ex_now E2 0 + REFRESH_LIFETIME\<rparr>) else None), db2)"
    using rotate_quiet [OF J ok1 q(2) s' t1] by (simp add: Let_def min_le_iff_disj)
  moreover have "map_of (refresh_tokens db1) (ss_id s1) \<noteq> None" by (simp add: db1 insert_session_def)
  ultimately show ?thesis using s1 by (simp add: successor_def)
qed


section \<open>Signing in\<close>

lemma set_map_filter: "y \<in> set (List.map_filter f xs) \<longleftrightarrow> (\<exists>x \<in> set xs. f x = Some y)"
  by (induction xs) (auto simp: List.map_filter_simps split: option.splits)

lemma joined_iff:
  assumes "ascending (actor_rows db)"
  shows "(d, a, r) \<in> set (joined_accounts db) \<longleftrightarrow> map_of (actor_rows db) d = Some a \<and> map_of (account_rows db) d = Some r"
proof -
  have "distinct (map fst (actor_rows db))" using assms by (simp add: strict_sorted_iff)
  then have "(d, a) \<in> set (actor_rows db) \<longleftrightarrow> map_of (actor_rows db) d = Some a" by simp
  moreover have "(d, a, r) \<in> set (joined_accounts db) \<longleftrightarrow> (d, a) \<in> set (actor_rows db) \<and> map_of (account_rows db) d = Some r"
    unfolding joined_accounts_def set_map_filter by (auto intro!: bexI [of _ "(d, a)"])
  ultimately show ?thesis by simp
qed

lemma find_SomeD: "find P xs = Some y \<Longrightarrow> y \<in> set xs \<and> P y"
  by (auto simp: find_Some_iff)

lemma find_only:
  assumes "x \<in> set xs" "P x" "\<And>y. y \<in> set xs \<Longrightarrow> P y \<Longrightarrow> y = x"
  shows "find P xs = Some x"
proof (cases "find P xs")
  case None
  then show ?thesis using assms(1,2) by (auto simp: find_None_iff)
next
  case (Some y)
  then show ?thesis using assms(3) find_SomeD [OF Some] by blast
qed

lemma query_account_only:
  assumes "ascending (actor_rows db)" "map_of (actor_rows db) d = Some a" "map_of (account_rows db) d = Some r" "p (d, a, r)"
    and "\<And>e b q. map_of (actor_rows db) e = Some b \<Longrightarrow> map_of (account_rows db) e = Some q \<Longrightarrow> p (e, b, q) \<Longrightarrow> e = d"
    and "account_of (d, a, r) = (Inr acc :: 'c store_error + account)"
  shows "query_account p db = (Inr (Some acc) :: 'c store_error + account option)"
proof -
  have "find p (joined_accounts db) = Some (d, a, r)"
  proof (rule find_only)
    fix y assume y: "y \<in> set (joined_accounts db)" "p y"
    obtain e b q where e: "y = (e, b, q)" by (cases y)
    then have "map_of (actor_rows db) e = Some b" "map_of (account_rows db) e = Some q" using y(1) joined_iff [OF assms(1)] by simp_all
    then show "y = (d, a, r)" using y(2) assms(2,3) assms(5) [of e b q] e by simp
  qed (use assms(2,3,4) joined_iff [OF assms(1)] in simp_all)
  then show ?thesis using assms(6) by (simp add: query_account_def)
qed

lemma create_rows:
  fixes J :: "('c, 'j) accounts_lib_scheme"
  assumes "accounts_create J now reg db = Inr db'"
  shows "map_of (actor_rows db') (did_str (acc_did (reg_account reg)))
      = Some \<lparr>ac_handle = map_option handle_str (acc_handle (reg_account reg)), ac_created = stamp J now, ac_takedown = None\<rparr>
    \<and> map_of (account_rows db') (did_str (acc_did (reg_account reg)))
      = Some \<lparr>ar_email = acc_email (reg_account reg), ar_scrypt = acc_scrypt (reg_account reg)\<rparr>
    \<and> app_rows db' = app_rows db"
proof -
  obtain db1 db2 db3 where s: "(case reg_invite reg of None \<Rightarrow> Inr db | Some code \<Rightarrow>
        if \<not> available db code then Inl InviteUnavailable else spend_invite code (did_str (acc_did (reg_account reg))) db)
        = (Inr db1 :: 'c store_error + accounts)"
    "insert_actor J now (reg_account reg) db1 = (Inr db2 :: 'c store_error + accounts)"
    "insert_account (reg_account reg) db2 = (Inr db3 :: 'c store_error + accounts)"
    and db': "db' = (case reg_session reg of None \<Rightarrow> upsert_root J False now (acc_did (reg_account reg)) (reg_root reg) db3
      | Some s \<Rightarrow> insert_session J s (upsert_root J False now (acc_did (reg_account reg)) (reg_root reg) db3))"
    using assms by (rule accounts_createE)
  have 1: "app_rows db1 = app_rows db" using s(1) by (auto simp: spend_invite_def split: option.splits if_splits)
  have 2: "actor_rows db2 = al_upd (did_str (acc_did (reg_account reg)))
      \<lparr>ac_handle = map_option handle_str (acc_handle (reg_account reg)), ac_created = stamp J now, ac_takedown = None\<rparr> (actor_rows db1)
    \<and> app_rows db2 = app_rows db1" using s(2) by (auto simp: insert_actor_def Let_def split: if_splits)
  have 3: "actor_rows db3 = actor_rows db2 \<and> app_rows db3 = app_rows db2 \<and> account_rows db3 = al_upd (did_str (acc_did (reg_account reg)))
      \<lparr>ar_email = acc_email (reg_account reg), ar_scrypt = acc_scrypt (reg_account reg)\<rparr> (account_rows db2)"
    using s(3) by (auto simp: insert_account_def Let_def split: if_splits)
  show ?thesis using 1 2 3 by (simp add: db' upsert_root_def insert_session_def split: option.split)
qed

definition account_ok :: "account \<Rightarrow> bool" where
  "account_ok a \<longleftrightarrow>
     did_validate (did_str (acc_did a)) = Inr () \<and> to_ascii_lowercase (did_str (acc_did a)) = did_str (acc_did a)
     \<and> (case acc_handle a of None \<Rightarrow> False
        | Some h \<Rightarrow> handle_validate (handle_str h) = Inr () \<and> to_ascii_lowercase (handle_str h) = handle_str h)
     \<and> CHR ''@'' \<in> set (acc_email a)"

definition names_account :: "string \<Rightarrow> account \<Rightarrow> bool" where
  "names_account identifier a \<longleftrightarrow>
     to_ascii_lowercase identifier \<in> to_ascii_lowercase ` ({did_str (acc_did a), acc_email a} \<union> handle_str ` set_option (acc_handle a))"

lemma account_of_written:
  assumes "account_ok a"
  shows "account_of (did_str (acc_did a), \<lparr>ac_handle = map_option handle_str (acc_handle a), ac_created = x, ac_takedown = y\<rparr>,
      \<lparr>ar_email = acc_email a, ar_scrypt = acc_scrypt a\<rparr>) = (Inr a :: 'c store_error + account)"
proof -
  obtain h where h: "acc_handle a = Some h" "handle_validate (handle_str h) = Inr ()"
    using assms by (auto simp: account_ok_def split: option.splits)
  have d: "did_from_str (did_str (acc_did a)) = Inr (acc_did a)" "handle_from_str (handle_str h) = Inr h"
    using assms h(2) by (simp_all add: account_ok_def from_str_iffs)
  show ?thesis by (simp add: account_of_def h(1) d)
qed

lemma no_at_sign:
  "did_validate s = Inr () \<Longrightarrow> CHR ''@'' \<notin> set s" "handle_validate s = Inr () \<Longrightarrow> CHR ''@'' \<notin> set s"
  by (rule did_nt.valid_disallowed; simp add: did_is_allowed_def ascii_defs less_eq_char_def)
     (rule handle_nt.valid_disallowed; simp add: domain_byte_def label_byte_def ascii_defs less_eq_char_def)

lemma lowercase_at_sign: "CHR ''@'' \<in> set s \<Longrightarrow> CHR ''@'' \<in> set (to_ascii_lowercase s)"
  unfolding to_ascii_lowercase_def set_map
  by (rule image_eqI [of _ _ "CHR ''@''"]) (simp_all add: to_ascii_lowercase_byte_def ascii_defs less_eq_char_def)

lemma lookup_created:
  fixes J :: "('c, 'j) accounts_lib_scheme"
  assumes db: "accounts_ok db" and c: "accounts_create J now reg db = Inr db'"
    and ok: "account_ok (reg_account reg)" and n: "names_account identifier (reg_account reg)"
  shows "lookup_identifier (to_ascii_lowercase identifier) db' = (Inr (Some (reg_account reg)) :: 'c store_error + account option)"
proof -
  let ?a = "reg_account reg" and ?l = "to_ascii_lowercase identifier"
  let ?r = "\<lparr>ac_handle = map_option handle_str (acc_handle ?a), ac_created = stamp J now, ac_takedown = None\<rparr>"
  let ?q = "\<lparr>ar_email = acc_email ?a, ar_scrypt = acc_scrypt ?a\<rparr>"
  note rows = create_rows [OF c]
  note d = accounts_okD [OF create_ok [OF db c]]
  obtain h where h: "acc_handle ?a = Some h" "handle_validate (handle_str h) = Inr ()" "to_ascii_lowercase (handle_str h) = handle_str h"
    using ok by (auto simp: account_ok_def split: option.splits)
  note found = query_account_only [where db = db' and a = ?r and r = ?q and d = "did_str (acc_did ?a)", OF d(1) _ _ _ _ account_of_written [OF ok]]
  have did: "by_did (acc_did ?a) db' = (Inr (Some ?a) :: 'c store_error + account option)"
    unfolding by_did_def by (rule found) (use rows in auto)
  have handle: "by_handle h db' = (Inr (Some ?a) :: 'c store_error + account option)"
    unfolding by_handle_def
  proof (rule found)
    fix e b q assume e: "map_of (actor_rows db') e = Some b"
      "case (e, b, q) of (d, a, r) \<Rightarrow> map_option to_ascii_lowercase (ac_handle a) = Some (to_ascii_lowercase (handle_str h))"
    then have "lower_handle b = lower_handle ?r" "lower_handle b \<noteq> None" using h(1) by (auto simp: lower_handle_def)
    then show "e = did_str (acc_did ?a)" using d(5) e(1) rows unfolding nobody_shares_def by blast
  qed (use rows h in simp_all)
  have email: "by_email ?l db' = (Inr (Some ?a) :: 'c store_error + account option)"
    if l: "?l = to_ascii_lowercase (acc_email ?a)"
    unfolding by_email_def
  proof (rule found)
    fix e b q assume e: "map_of (account_rows db') e = Some q"
      "case (e, b, q) of (d, a, r) \<Rightarrow> to_ascii_lowercase (ar_email r) = to_ascii_lowercase ?l"
    then have "lower_email q = lower_email ?q" "lower_email q \<noteq> None" using l by (simp_all add: lower_email_def)
    then show "e = did_str (acc_did ?a)" using d(6) e(1) rows unfolding nobody_shares_def by blast
  qed (use rows l in simp_all)
  from n ok h consider "?l = did_str (acc_did ?a)" | "?l = handle_str h" | "?l = to_ascii_lowercase (acc_email ?a)"
    by (auto simp: names_account_def account_ok_def)
  then show ?thesis
  proof cases
    case 1
    have v: "did_validate ?l = Inr ()" using ok 1 by (simp add: account_ok_def)
    then have "at_identifier_from_str ?l = Inr (AtDid (acc_did ?a))" using 1 by (simp add: at_identifier_from_str_iff at_identifier_ok_def)
    then show ?thesis using no_at_sign(1) [OF v] did by (simp add: lookup_identifier_def)
  next
    case 2
    have v: "handle_validate ?l = Inr ()" using h(2) 2 by simp
    then have "at_identifier_from_str ?l = Inr (AtHandle h)" using 2 by (simp add: at_identifier_from_str_iff at_identifier_ok_def)
    then show ?thesis using no_at_sign(2) [OF v] handle by (simp add: lookup_identifier_def)
  next
    case 3
    then have "CHR ''@'' \<in> set ?l" using ok lowercase_at_sign by (simp add: account_ok_def)
    then show ?thesis using email [OF 3] by (simp add: lookup_identifier_def)
  qed
qed

text \<open>C31: whoever signs up can sign in. After an account is created with the hash of \<open>chosen\<close>, its DID, its
  handle and its address, in any case, each name it, and \<open>offered\<close> is let in exactly when it derives what
  \<open>chosen\<close> does under the salt, or is one of the account's app passwords, whose scope it then has; any other
  is refused.\<close>

theorem signup_then_login:
  fixes J :: "('c, 'j) accounts_lib_scheme"
  assumes db: "accounts_reachable J db" and c: "accounts_create J now reg db = Inr db'"
    and ok: "account_ok (reg_account reg)" and pw: "acc_scrypt (reg_account reg) = password_hash scrypt salt chosen"
    and n: "names_account identifier (reg_account reg)" and len: "char_count offered \<le> STORED_PASSWORD"
  shows "check_password scrypt sha identifier offered db' =
    (if scrypt offered (to_hex salt) = scrypt chosen (to_hex salt)
     then Inr \<lparr>lg_account = reg_account reg, lg_app = None\<rparr>
     else (case app_password_of (acc_did (reg_account reg)) (password_app scrypt sha (acc_did (reg_account reg)) offered) db of
             None \<Rightarrow> (Inl BadCredentials :: 'c account_error + login)
           | Some p \<Rightarrow> Inr \<lparr>lg_account = reg_account reg, lg_app = Some p\<rparr>))"
proof -
  have l: "lookup_identifier (to_ascii_lowercase identifier) db' = (Inr (Some (reg_account reg)) :: 'c store_error + account option)"
    by (rule lookup_created [OF accounts_reachable_ok [OF db] c ok n])
  have v: "password_verify scrypt offered (acc_scrypt (reg_account reg)) \<longleftrightarrow> scrypt offered (to_hex salt) = scrypt chosen (to_hex salt)"
    unfolding pw using password_verify_iff by blast
  have "app_password_of did hash db' = app_password_of did hash db" for did hash
    using create_rows [OF c] by (simp add: app_password_of_def)
  then show ?thesis using len l v by (simp add: check_password_def split: option.split)
qed

text \<open>C32: revoking an app password ends what it opened: nothing it could open signs in any more, no session
  opened under it is left to exchange, and the sessions of other accounts and other passwords are untouched.\<close>

theorem app_password_revoked:
  fixes J :: "('c, 'j) accounts_lib_scheme"
  assumes db: "accounts_reachable J db" and r: "revoke_app_password did name db = (was, db')"
  shows "(\<forall>hash. map_option app_name (app_password_of did hash db') \<noteq> Some name)
    \<and> (\<forall>jti. map_of (refresh_tokens db') jti =
         (case map_of (refresh_tokens db) jti of
            None \<Rightarrow> None
          | Some t \<Rightarrow> if tk_did t = did_str did \<and> tk_app t = Some name then None else Some t))
    \<and> (\<forall>jti E. quiet E \<and> map_option tk_did (map_of (refresh_tokens db) jti) = Some (did_str did)
         \<and> map_option tk_app (map_of (refresh_tokens db) jti) = Some (Some name)
         \<longrightarrow> rotate J E jti db' = Some (Inr None, db'))"
proof -
  have asc: "ascending (refresh_tokens db)" using accounts_okD(3) [OF accounts_reachable_ok [OF db]] .
  have db': "db' = db\<lparr>app_rows := filter (\<lambda>r. \<not> (ap_did r = did_str did \<and> ap_name r = name)) (app_rows db),
         refresh_tokens := filter (\<lambda>(_, t). \<not> (tk_did t = did_str did \<and> tk_app t = Some name)) (refresh_tokens db)\<rparr>"
    using r by (simp add: revoke_app_password_def)
  have none: "map_option app_name (app_password_of did hash db') \<noteq> Some name" for hash
    by (auto simp: app_password_of_def db' dest!: find_SomeD)
  have tokens: "map_of (refresh_tokens db') jti = (case map_of (refresh_tokens db) jti of
            None \<Rightarrow> None | Some t \<Rightarrow> if tk_did t = did_str did \<and> tk_app t = Some name then None else Some t)" for jti
    using map_of_filter_ascending [OF asc, of "\<lambda>t. \<not> (tk_did t = did_str did \<and> tk_app t = Some name)" jti]
    by (auto simp: db' split: option.splits)
  have "rotate J E jti db' = Some (Inr None, db')"
    if "quiet E" "map_option tk_did (map_of (refresh_tokens db) jti) = Some (did_str did)"
      "map_option tk_app (map_of (refresh_tokens db) jti) = Some (Some name)" for jti E
  proof -
    have "map_of (refresh_tokens db') jti = None" using that tokens [of jti] by (auto split: option.splits)
    then show ?thesis using that(1) unfolding rotate_def
      by (subst rotate_loop.simps) (simp add: rotate_turn_def session_of_def quiet_def)
  qed
  then show ?thesis using none tokens by blast
qed


section \<open>Instances\<close>

lemma replicate_le: "replicate m x \<le> replicate n x \<longleftrightarrow> m \<le> n" for x :: "'a :: linorder"
proof (induction m arbitrary: n)
  case (Suc m)
  then show ?case by (cases n) auto
qed simp

lemma toy_stamps_ok: "stamps_ok toy_accounts_lib"
  by (simp add: stamps_ok_def toy_accounts_lib_def whole_ms_def MILLISECOND_def replicate_le nat_div_distrib)

definition toy_account :: account where
  "toy_account = \<lparr>acc_did = Did ''did:plc:a'', acc_handle = Some (Handle ''a.bc''), acc_email = ''a@b'',
     acc_scrypt = password_hash (\<lambda>p s. p) ''s'' ''pw''\<rparr>"

definition toy_signup :: "string registration" where
  "toy_signup = \<lparr>reg_account = toy_account, reg_root = \<lparr>rt_cid = ''c'', rt_rev = Tid ''t''\<rparr>, reg_invite = None,
     reg_session = Some \<lparr>ss_id = ''t0'', ss_did = Did ''did:plc:a'', ss_expires = 5000000, ss_next = None, ss_app = None\<rparr>\<rparr>"

definition toy_signed_up :: accounts where
  "toy_signed_up = (case accounts_create toy_accounts_lib 0 toy_signup accounts_new of Inl e \<Rightarrow> accounts_new | Inr db \<Rightarrow> db)"

definition toy_exchange :: "nat \<Rightarrow> string \<Rightarrow> exchange" where
  "toy_exchange now fresh = \<lparr>ex_now = (\<lambda>_. now), ex_fresh = (\<lambda>_. fresh), ex_others = (\<lambda>i db. db)\<rparr>"

lemmas toy_signup_defs = toy_signup_def toy_account_def accounts_new_def accounts_create_def insert_actor_def insert_account_def
  upsert_root_def insert_session_def Let_def

lemma toy_signs_up: "accounts_create toy_accounts_lib 0 toy_signup accounts_new = Inr toy_signed_up"
  by (simp add: toy_signed_up_def toy_signup_defs)

lemma toy_signed_up_reachable: "accounts_reachable toy_accounts_lib toy_signed_up"
  by (rule Step [OF Start Registered [OF toy_signs_up]])

lemma toy_tokens: "refresh_tokens toy_signed_up =
    [(''t0'', \<lparr>tk_did = ''did:plc:a'', tk_expires = replicate 5 CHR ''x'', tk_next = None, tk_app = None\<rparr>)]"
  by (simp add: toy_signed_up_def toy_signup_defs toy_accounts_lib_def)

lemma toy_did: "did_validate ''did:plc:a'' = Inr ()" "did_from_str ''did:plc:a'' = Inr (Did ''did:plc:a'')"
  by code_simp+

lemma toy_session: "session_of toy_accounts_lib ''t0'' toy_signed_up =
    Inr (Some \<lparr>ss_id = ''t0'', ss_did = Did ''did:plc:a'', ss_expires = 5000000, ss_next = None, ss_app = None\<rparr>)"
  by (simp add: session_of_def toy_tokens toy_did toy_accounts_lib_def)

theorem rotate_returns_witness:
  "others_keep ''t0'' (ex_others (toy_exchange 1 ''t1'')) \<and> (\<exists>r db'. rotate toy_accounts_lib (toy_exchange 1 ''t1'') ''t0'' toy_signed_up = Some (r, db'))"
proof -
  have k: "others_keep ''t0'' (ex_others (toy_exchange 1 ''t1''))" by (simp add: others_keep_def toy_exchange_def)
  have "ascending (refresh_tokens toy_signed_up)" by (simp add: toy_tokens)
  from k rotate_returns [OF k this, of toy_accounts_lib] show ?thesis by blast
qed

theorem exchange_same_successor_witness:
  "\<exists>s1 db1 db2. rotate toy_accounts_lib (toy_exchange 1000000 ''t1'') ''t0'' toy_signed_up = Some (Inr (Some s1), db1) \<and> ss_id s1 = ''t1''
     \<and> rotate toy_accounts_lib (toy_exchange 2000000 ''t2'') ''t0'' db1 = Some (Inr (Some (s1\<lparr>ss_expires := 2000000 + REFRESH_LIFETIME\<rparr>)), db2)"
proof -
  let ?E = "toy_exchange 1000000 ''t1''" and ?F = "toy_exchange 2000000 ''t2''"
  have q: "quiet ?E" "quiet ?F" by (simp_all add: quiet_def toy_exchange_def)
  have st: "stamped toy_accounts_lib toy_signed_up" by (rule reachable_stamped [OF toy_signed_up_reachable])
  have asc: "ascending (refresh_tokens toy_signed_up)" by (simp add: toy_tokens)
  have t: "map_of (refresh_tokens toy_signed_up) ''t0'' = Some \<lparr>tk_did = ''did:plc:a'', tk_expires = replicate 5 CHR ''x'', tk_next = None, tk_app = None\<rparr>"
    by (simp add: toy_tokens)
  obtain s1 db1 where r: "rotate toy_accounts_lib ?E ''t0'' toy_signed_up = Some (Inr (Some s1), db1)" and n: "ss_id s1 = ''t1''"
    using rotate_quiet [OF toy_stamps_ok asc st q(1) toy_session t]
    by (simp add: Let_def toy_exchange_def successor_def GRACE_def SECOND_def)
  from exchange_same_successor [OF toy_stamps_ok toy_signed_up_reachable q toy_session r] r n show ?thesis
    by (auto simp: toy_exchange_def GRACE_def SECOND_def whole_ms_def MILLISECOND_def)
qed

theorem signup_then_login_witness:
  "check_password (\<lambda>p s. p) (\<lambda>b. b) ''A.BC'' ''pw'' toy_signed_up
     = (Inr \<lparr>lg_account = toy_account, lg_app = None\<rparr> :: string account_error + login)
   \<and> check_password (\<lambda>p s. p) (\<lambda>b. b) ''A@b'' ''wp'' toy_signed_up = (Inl BadCredentials :: string account_error + login)"
proof -
  have ok: "account_ok (reg_account toy_signup)" by (simp add: toy_signup_def) code_simp
  have n: "names_account ''A.BC'' (reg_account toy_signup)" "names_account ''A@b'' (reg_account toy_signup)"
    by (simp_all add: toy_signup_def toy_account_def names_account_def to_ascii_lowercase_def to_ascii_lowercase_byte_def ascii_defs less_eq_char_def char_of_def bit_0)
  have l: "char_count ''pw'' \<le> STORED_PASSWORD" "char_count ''wp'' \<le> STORED_PASSWORD" by (simp_all add: char_count_def STORED_PASSWORD_def)
  have p: "acc_scrypt (reg_account toy_signup) = password_hash (\<lambda>p s. p) ''s'' ''pw''" by (simp add: toy_signup_def toy_account_def)
  note t = signup_then_login [OF Start toy_signs_up ok p]
  show ?thesis using t [OF n(1) l(1), of "\<lambda>b. b"] t [OF n(2) l(2), of "\<lambda>b. b"]
    by (simp add: toy_signup_def app_password_of_def accounts_new_def)
qed

definition toy_app_session :: accounts where
  "toy_app_session = store_session toy_accounts_lib \<lparr>ss_id = ''t1'', ss_did = Did ''did:plc:a'', ss_expires = 5000000, ss_next = None,
     ss_app = Some \<lparr>app_name = ''phone'', app_privileged = False\<rparr>\<rparr> toy_signed_up"

theorem app_password_revoked_witness:
  "map_of (refresh_tokens toy_app_session) ''t1'' \<noteq> None
   \<and> rotate toy_accounts_lib (toy_exchange 1 ''t2'') ''t1'' (snd (revoke_app_password (Did ''did:plc:a'') ''phone'' toy_app_session))
     = Some (Inr None, snd (revoke_app_password (Did ''did:plc:a'') ''phone'' toy_app_session))"
proof -
  obtain was db' where r: "revoke_app_password (Did ''did:plc:a'') ''phone'' toy_app_session = (was, db')" by fastforce
  have reach: "accounts_reachable toy_accounts_lib toy_app_session"
    unfolding toy_app_session_def by (rule Step [OF toy_signed_up_reachable Opened])
  have t: "map_of (refresh_tokens toy_app_session) ''t1''
      = Some \<lparr>tk_did = ''did:plc:a'', tk_expires = replicate 5 CHR ''x'', tk_next = None, tk_app = Some ''phone''\<rparr>"
    by (simp add: toy_app_session_def store_session_def insert_session_def toy_tokens) (simp add: toy_accounts_lib_def)
  have "rotate toy_accounts_lib (toy_exchange 1 ''t2'') ''t1'' db' = Some (Inr None, db')"
    using app_password_revoked [OF reach r] t by (simp add: quiet_def toy_exchange_def)
  then show ?thesis using t r by simp
qed

end
