(* ===== verification/Signup_Props.thy ===== *)
theory Signup_Props
  imports Signup Plc_Props Sessions_Props Actor_Repo
begin

text \<open>
  What a signup leaves: an account that is whole, registered and logged, or nothing, or, when the directory
  would not say, an account that stands.
\<close>

section \<open>Rows put in and taken out\<close>

lemma al_del_upd: "map_of ps k = None \<Longrightarrow> al_del k (al_upd k v ps) = ps"
  by (induction k v ps rule: al_upd.induct) (auto split: if_splits)

lemma al_upd_upd: "al_upd k v (al_upd k w ps) = al_upd k v ps"
  by (induction k w ps rule: al_upd.induct) auto

lemma filter_upd: "map_of ps k = None \<Longrightarrow> \<not> P (k, v) \<Longrightarrow> filter P (al_upd k v ps) = filter P ps"
  by (induction k v ps rule: al_upd.induct) (auto split: if_splits)

definition no_trace :: "string \<Rightarrow> accounts \<Rightarrow> bool" where
  "no_trace d db \<longleftrightarrow>
     map_of (actor_rows db) d = None \<and> map_of (account_rows db) d = None \<and> map_of (root_rows db) d = None
     \<and> (\<forall>(k, t) \<in> set (refresh_tokens db). tk_did t \<noteq> d) \<and> (\<forall>r \<in> set (app_rows db). ap_did r \<noteq> d)
     \<and> (\<forall>(c, u) \<in> set (invite_uses db). u \<noteq> d)"

lemma al_del_absent: "map_of ps k = None \<Longrightarrow> al_del k ps = ps"
  by (induction k ps rule: al_del.induct) (auto split: if_splits)

lemma delete_no_trace: "no_trace (did_str did) db \<Longrightarrow> accounts_delete did db = db"
  unfolding accounts_delete_def Let_def no_trace_def
  by (cases db) (auto simp: al_del_absent filter_id_conv split: prod.splits)

lemma delete_created:
  fixes J :: "('c, 'j) accounts_lib_scheme"
  assumes "no_trace (did_str (acc_did (reg_account reg))) db" "accounts_create J now reg db = Inr db'"
    and "\<And>s. reg_session reg = Some s \<Longrightarrow> ss_did s = acc_did (reg_account reg)"
  shows "accounts_delete (acc_did (reg_account reg)) db' = db"
proof -
  let ?a = "reg_account reg" and ?d = "did_str (acc_did (reg_account reg))"
  obtain db1 db2 db3 where s: "(case reg_invite reg of None \<Rightarrow> Inr db | Some code \<Rightarrow>
        if \<not> available db code then Inl InviteUnavailable else spend_invite code ?d db) = (Inr db1 :: 'c store_error + accounts)"
    "insert_actor J now ?a db1 = (Inr db2 :: 'c store_error + accounts)" "insert_account ?a db2 = (Inr db3 :: 'c store_error + accounts)"
    and db': "db' = (case reg_session reg of None \<Rightarrow> upsert_root J False now (acc_did ?a) (reg_root reg) db3
      | Some s \<Rightarrow> insert_session J s (upsert_root J False now (acc_did ?a) (reg_root reg) db3))"
    using assms(2) by (rule accounts_createE)
  obtain us where 1: "db1 = db\<lparr>invite_uses := us\<rparr>" "filter (\<lambda>(_, u). u \<noteq> ?d) us = invite_uses db"
  proof -
    have "filter (\<lambda>(_, u). u \<noteq> ?d) (invite_uses db) = invite_uses db" using assms(1) by (auto simp: no_trace_def filter_id_conv)
    then show thesis using s(1) that [of "invite_uses db"] that [of "invite_uses db @ [(the (reg_invite reg), ?d)]"]
      by (auto simp: spend_invite_def split: option.splits if_splits)
  qed
  obtain r where 2: "db2 = db1\<lparr>actor_rows := al_upd ?d r (actor_rows db1)\<rparr>"
    using s(2) by (auto simp: insert_actor_def Let_def split: if_splits)
  obtain q where 3: "db3 = db2\<lparr>account_rows := al_upd ?d q (account_rows db2)\<rparr>"
    using s(3) by (auto simp: insert_account_def Let_def split: if_splits)
  obtain x where 4: "upsert_root J False now (acc_did ?a) (reg_root reg) db3 = db3\<lparr>root_rows := al_upd ?d x (root_rows db3)\<rparr>"
    by (auto simp: upsert_root_def)
  have 5: "upsert_root J False now (acc_did ?a) (reg_root reg) db3 = db\<lparr>invite_uses := us, actor_rows := al_upd ?d r (actor_rows db),
      account_rows := al_upd ?d q (account_rows db), root_rows := al_upd ?d x (root_rows db)\<rparr>"
    unfolding 4 by (simp add: 3 2 1(1))
  have tokens: "filter (\<lambda>(_, t). tk_did t \<noteq> ?d) (refresh_tokens db) = refresh_tokens db"
    and apps: "filter (\<lambda>r. ap_did r \<noteq> ?d) (app_rows db) = app_rows db"
    using assms(1) by (auto simp: no_trace_def filter_id_conv)
  have del: "al_del ?d (al_upd ?d r (actor_rows db)) = actor_rows db" "al_del ?d (al_upd ?d q (account_rows db)) = account_rows db"
      "al_del ?d (al_upd ?d x (root_rows db)) = root_rows db"
    using assms(1) by (simp_all add: no_trace_def al_del_upd)
  show ?thesis
  proof (cases "reg_session reg")
    case None
    then show ?thesis using tokens apps del 1(2) by (simp add: db' 5 accounts_delete_def Let_def)
  next
    case (Some v)
    have "filter (\<lambda>(_, t). tk_did t \<noteq> ?d) (al_upd (ss_id v) t (refresh_tokens db)) = refresh_tokens db"
      if "map_of (refresh_tokens db) (ss_id v) = None" "tk_did t = ?d" for t
      using filter_upd [OF that(1)] that(2) tokens by simp
    then show ?thesis using Some assms(3) [OF Some] tokens apps del 1(2)
      by (simp add: db' 5 accounts_delete_def Let_def insert_session_def)
  qed
qed


section \<open>Files put in and taken out\<close>

lemma fs_write_content:
  assumes "fs_ok fs" "content fs p = None"
  shows "fs_ok (fs_write now p b fs) \<and> content (fs_write now p b fs) = (content fs)(p \<mapsto> b)"
proof -
  have n: "map_of (names fs) p = None" using assms(2) by (simp only: content_None)
  have "map_of (names fs) q \<noteq> Some (fresh_ino fs)" for q using assms(1) unfolding fs_ok_def by (metis less_irrefl)
  then have "map_option i_bytes (map_option ((inodes fs)(fresh_ino fs := x)) (map_of (names fs) q))
      = map_option i_bytes (map_option (inodes fs) (map_of (names fs) q))" for q x
    by (cases "map_of (names fs) q") auto
  then show ?thesis using assms(1) n
    by (auto simp: fs_write_def fs_ok_def ascending_al_upd content_def fs_file_def fun_eq_iff less_Suc_eq)
qed

lemma keys_remove_content:
  assumes "fs_ok fs"
  shows "fs_ok (keys_remove p fs) \<and> content (keys_remove p fs) = (content fs)(p := None)"
proof -
  have "fs_remove p fs = Inl NotFound \<and> content fs p = None
    \<or> (\<exists>fs'. fs_remove p fs = Inr fs' \<and> content fs p \<noteq> None \<and> fs_ok fs' \<and> fs_file fs' = (fs_file fs)(p := None))"
    using assms by (rule fs_remove_ok)
  then show ?thesis using assms content_upd by (auto simp: keys_remove_def fun_upd_idem)
qed

lemma remove_dir_content:
  assumes "fs_ok fs"
  shows "content (remove_dir_all dir fs) p = (if take (length dir) p = dir then None else content fs p)"
proof -
  have "map_of (filter (\<lambda>(p, _). Q p) ps) p = (if Q p then map_of ps p else None)" for Q :: "path \<Rightarrow> bool" and ps :: "(path \<times> nat) list"
    by (induction ps) auto
  then show ?thesis by (simp add: remove_dir_all_def content_def fs_file_def)
qed


section \<open>An account nobody has heard of\<close>

definition kept_path :: "('c::linorder, 'sk, 'vk, 'sg, 'v, 'w, 'l, 'e, 'j) manager \<Rightarrow> 'sk draws \<Rightarrow> path" where
  "kept_path M D = reserved_key_path (mg_crypto M) (mg_directory M) (public_of (mg_crypto M) (dw_key D))"

definition own_path :: "('c::linorder, 'sk, 'vk, 'sg, 'v, 'w, 'l, 'e, 'j) manager \<Rightarrow> did \<Rightarrow> path" where
  "own_path M did = actor_path (mg_lib M) (mg_directory M) did"

definition unheard_of ::
    "('c::linorder, 'sk, 'vk, 'sg, 'v, 'w, 'l, 'e, 'j) manager \<Rightarrow> 'sk draws \<Rightarrow> did \<Rightarrow> 'w server \<Rightarrow> bool" where
  "unheard_of M D did S \<longleftrightarrow>
     no_trace (did_str did) (sv_accounts S) \<and> map_of (sv_actors S) (did_str did) = None \<and> fs_ok (sv_files S)
     \<and> content (sv_files S) (kept_path M D) = None
     \<and> (\<forall>p. take (length (own_path M did)) p = own_path M did \<longrightarrow> content (sv_files S) p = None)"

lemma to_hex_length: "length (to_hex b) = 2 * length b"
  by (induction b) (simp_all add: to_hex_def hex_byte_def)

lemma kept_elsewhere: "take (length (own_path M did)) (kept_path M D) \<noteq> own_path M did"
proof
  assume "take (length (own_path M did)) (kept_path M D) = own_path M did"
  then have "to_hex (take 1 (sha256 (mg_lib M) (did_str did))) = ''reserved_keys''"
    by (simp add: own_path_def kept_path_def actor_path_def reserved_key_path_def)
  then have "length (to_hex (take 1 (sha256 (mg_lib M) (did_str did)))) = 13" by simp
  then show False using to_hex_length [of "take 1 (sha256 (mg_lib M) (did_str did))"] by simp
qed

lemma own_paths:
  "take (length (own_path M did)) (actor_key_path (mg_lib M) (mg_directory M) did) = own_path M did"
  "take (length (own_path M did)) (actor_op_path (mg_lib M) (mg_directory M) did) = own_path M did"
  "actor_op_path (mg_lib M) (mg_directory M) did \<noteq> actor_key_path (mg_lib M) (mg_directory M) did"
  by (simp_all add: own_path_def actor_key_path_def actor_op_path_def)

definition signup_content ::
    "('c::linorder, 'sk, 'vk, 'sg, 'v, 'w, 'l, 'e, 'j) manager \<Rightarrow> 'sk draws \<Rightarrow> did \<Rightarrow> bytes \<Rightarrow> fs \<Rightarrow> path \<Rightarrow> bytes option" where
  "signup_content M D did encoded fs = (content fs)(kept_path M D \<mapsto> keypair_to_bytes (mg_crypto M) (dw_key D),
     actor_key_path (mg_lib M) (mg_directory M) did \<mapsto> keypair_to_bytes (mg_crypto M) (dw_key D),
     actor_op_path (mg_lib M) (mg_directory M) did \<mapsto> encoded)"

lemma write_files_fresh:
  fixes M :: "('c::linorder, 'sk, 'vk, 'sg, 'v, 'w, 'l, 'e, 'j) manager"
  assumes "unheard_of M D did S"
  shows "\<exists>fs. write_files M D did encoded (sv_files S) = (Inr () :: 'c store_error + unit, fs) \<and> fs_ok fs
    \<and> content fs = signup_content M D did encoded (sv_files S)"
proof -
  let ?fs = "sv_files S" and ?k = "kept_path M D" and ?b = "keypair_to_bytes (mg_crypto M) (dw_key D)"
  let ?q = "actor_key_path (mg_lib M) (mg_directory M) did" and ?o = "actor_op_path (mg_lib M) (mg_directory M) did"
  have u: "fs_ok ?fs" "content ?fs ?k = None" "\<And>p. take (length (own_path M did)) p = own_path M did \<Longrightarrow> content ?fs p = None"
    using assms by (auto simp: unheard_of_def)
  have none: "fs_file fs p = None \<longleftrightarrow> content fs p = None" for fs p by (simp add: content_def)
  note own = own_paths [of M did]
  have ne: "?q \<noteq> ?k" "?o \<noteq> ?k" using own kept_elsewhere [of M did D] by metis+
  let ?f1 = "fs_write (dw_wrote D) ?k ?b ?fs"
  have 1: "fs_ok ?f1 \<and> content ?f1 = (content ?fs)(?k \<mapsto> ?b)" by (rule fs_write_content [OF u(1,2)])
  let ?f2 = "fs_write (dw_wrote D) ?q ?b ?f1"
  have c2: "content ?f1 ?q = None" using 1 ne(1) u(3) [OF own(1)] by simp
  then have 2: "fs_ok ?f2 \<and> content ?f2 = (content ?f1)(?q \<mapsto> ?b)" using fs_write_content 1 by blast
  let ?f3 = "fs_write (dw_wrote D) ?o encoded ?f2"
  have "content ?f2 ?o = None" using 1 2 ne(2) own(3) u(3) [OF own(2)] by simp
  then have 3: "fs_ok ?f3 \<and> content ?f3 = (content ?f2)(?o \<mapsto> encoded)" using fs_write_content 2 by blast
  have k1: "keys_write (mg_crypto M) (dw_wrote D) (reserved_key_path (mg_crypto M) (mg_directory M) (public_of (mg_crypto M) (dw_key D))) (dw_key D) ?fs
      = (Inr ?f1 :: 'c store_error + fs)"
    using u(2) none by (simp add: keys_write_def flip: kept_path_def)
  have k2: "keys_write (mg_crypto M) (dw_wrote D) ?q (dw_key D) ?f1 = (Inr ?f2 :: 'c store_error + fs)"
    using c2 none by (simp add: keys_write_def)
  have "write_files M D did encoded ?fs = (Inr () :: 'c store_error + unit, ?f3)" by (simp add: write_files_def Let_def k1 k2)
  moreover have "content ?f3 = signup_content M D did encoded ?fs" using 1 2 3 by (simp add: signup_content_def)
  ultimately show ?thesis using 3 by blast
qed

lemma start_repo_fresh:
  fixes M :: "('c::linorder, 'sk, 'vk, 'sg, 'v, 'w, 'l, 'e, 'j) manager"
  assumes L: "repo_lib_ok (mg_lib M)" and J: "cid_text_ok (mg_texts M)" and u: "unheard_of M D did S" and op: "op_cbor (mg_plc_lib M) op = Inr encoded"
  shows "\<exists>r blocks A fs clk. start_repo M D did op S = (Inr (\<lparr>rt_cid = r_cid r, rt_rev = c_rev (r_commit r)\<rparr>, blocks),
        S\<lparr>sv_files := fs, sv_actors := al_upd (did_str did) A (sv_actors S), sv_clock := clk\<rparr>)
    \<and> fs_ok fs \<and> content fs = signup_content M D did encoded (sv_files S)
    \<and> holds_repo (mg_lib M) (mg_texts M) A r (Node []) \<and> a_did A = did"
proof -
  obtain fs where fs: "write_files M D did encoded (sv_files S) = (Inr () :: 'c store_error + unit, fs)" "fs_ok fs"
      "content fs = signup_content M D did encoded (sv_files S)"
    using write_files_fresh [OF u] by blast
  have new: "actor_open did S = actor_new did" using u by (simp add: actor_open_def unheard_of_def)
  obtain r blocks clk where c: "repo_create (mg_lib M) (mg_crypto M) did (dw_key D) (dw_micros D) (sv_clock S) = (Inr (r, blocks), clk)"
    using repo_create_ok [OF L, of "mg_crypto M" did "dw_key D" "dw_micros D" "sv_clock S"] by metis
  obtain A where A: "actor_commit (mg_texts M) (blobs_dir (mg_directory M)) (dw_committed D) None \<lparr>rt_cid = r_cid r, rt_rev = c_rev (r_commit r)\<rparr> blocks [] [] (actor_new did) fs
      = (Inr (Some \<lparr>orphaned = [], taken = []\<rparr>), A, fs)" "holds_repo (mg_lib M) (mg_texts M) A r (Node [])" "a_did A = did"
    using first_commit_holds [OF L J c] by blast
  have "start_repo M D did op S = (Inr (\<lparr>rt_cid = r_cid r, rt_rev = c_rev (r_commit r)\<rparr>, blocks),
        S\<lparr>sv_files := fs, sv_actors := al_upd (did_str did) A (sv_actors S), sv_clock := clk\<rparr>)"
    using fs(1) c A(1) by (simp add: start_repo_def encode_def op new Let_def al_upd_upd)
  then show ?thesis using fs A by blast
qed

definition signup_registration ::
    "('c::linorder, 'sk, 'vk, 'sg, 'v, 'w, 'l, 'e, 'j) manager \<Rightarrow> 'sk draws \<Rightarrow> did \<Rightarrow> handle \<Rightarrow> 'vk signup \<Rightarrow> 'c root \<Rightarrow> 'c registration" where
  "signup_registration M D did h signup root = \<lparr>reg_account = \<lparr>acc_did = did, acc_handle = Some h, acc_email = su_email signup,
       acc_scrypt = password_hash (mg_scrypt M) (dw_salt D) (su_password signup)\<rparr>,
     reg_root = root, reg_invite = su_invite signup,
     reg_session = Some \<lparr>ss_id = dw_jti D, ss_did = did, ss_expires = dw_expires D + REFRESH_LIFETIME, ss_next = None, ss_app = None\<rparr>\<rparr>"

text \<open>What is written before the directory is told: everything but the account's rows for sure, and those if
  the account database takes them.\<close>

definition written_locally ::
    "('c::linorder, 'sk, 'vk, 'sg, 'v, 'w, 'l, 'e, 'j) manager \<Rightarrow> 'sk draws \<Rightarrow> did \<Rightarrow> bytes \<Rightarrow> 'w server \<Rightarrow> 'w server \<Rightarrow> bool" where
  "written_locally M D did encoded S S1 \<longleftrightarrow>
     fs_ok (sv_files S1) \<and> content (sv_files S1) = signup_content M D did encoded (sv_files S)
     \<and> sv_log S1 = sv_log S \<and> sv_plc S1 = sv_plc S
     \<and> (\<exists>A r. sv_actors S1 = al_upd (did_str did) A (sv_actors S) \<and> holds_repo (mg_lib M) (mg_texts M) A r (Node []))"

lemma settle_fresh:
  fixes M :: "('c::linorder, 'sk, 'vk, 'sg, 'v, 'w, 'l, 'e, 'j) manager"
  assumes L: "repo_lib_ok (mg_lib M)" and J: "cid_text_ok (mg_texts M)" and u: "unheard_of M D did S" and op: "op_cbor (mg_plc_lib M) op = Inr encoded"
    and s: "settle M D did h signup op S = (r, S1)"
  shows "written_locally M D did encoded S S1 \<and> (\<exists>root.
     case accounts_create (mg_texts M) (dw_registered D) (signup_registration M D did h signup root) (sv_accounts S) of
       Inl e \<Rightarrow> r = Inl (of_store_error e) \<and> sv_accounts S1 = sv_accounts S
     | Inr db \<Rightarrow> sv_accounts S1 = db \<and> (\<exists>blocks. r = Inr (mint_pair (mg_auth M) (mg_tokens M) (dw_minted D) did None (dw_jti D), blocks, rt_cid root, rt_rev root)))"
proof -
  obtain q blocks A fs clk where st: "start_repo M D did op S = (Inr (\<lparr>rt_cid = r_cid q, rt_rev = c_rev (r_commit q)\<rparr>, blocks),
        S\<lparr>sv_files := fs, sv_actors := al_upd (did_str did) A (sv_actors S), sv_clock := clk\<rparr>)"
      "fs_ok fs" "content fs = signup_content M D did encoded (sv_files S)" "holds_repo (mg_lib M) (mg_texts M) A q (Node [])"
    using start_repo_fresh [OF L J u op] by blast
  let ?root = "\<lparr>rt_cid = r_cid q, rt_rev = c_rev (r_commit q)\<rparr>"
  have eq: "(r, S1) = (case accounts_create (mg_texts M) (dw_registered D) (signup_registration M D did h signup ?root) (sv_accounts S) of
       Inl e \<Rightarrow> (Inl (of_store_error e), S\<lparr>sv_files := fs, sv_actors := al_upd (did_str did) A (sv_actors S), sv_clock := clk\<rparr>)
     | Inr db \<Rightarrow> (Inr (mint_pair (mg_auth M) (mg_tokens M) (dw_minted D) did None (dw_jti D), blocks, rt_cid ?root, rt_rev ?root),
         S\<lparr>sv_files := fs, sv_actors := al_upd (did_str did) A (sv_actors S), sv_clock := clk, sv_accounts := db\<rparr>))"
    using s by (simp add: settle_def st(1) signup_registration_def split: sum.splits)
  show ?thesis
  proof (cases "accounts_create (mg_texts M) (dw_registered D) (signup_registration M D did h signup ?root) (sv_accounts S)")
    case (Inl e)
    then have "written_locally M D did encoded S S1" "r = Inl (of_store_error e)" "sv_accounts S1 = sv_accounts S"
      using eq st by (auto simp: written_locally_def)
    then show ?thesis using Inl by (intro conjI exI [of _ ?root]) simp_all
  next
    case (Inr db)
    then have "written_locally M D did encoded S S1" "sv_accounts S1 = db"
      "r = Inr (mint_pair (mg_auth M) (mg_tokens M) (dw_minted D) did None (dw_jti D), blocks, rt_cid ?root, rt_rev ?root)"
      using eq st by (auto simp: written_locally_def)
    then show ?thesis using Inr by (intro conjI exI [of _ ?root]) auto
  qed
qed

text \<open>Discarding what was written leaves what there was.\<close>

definition taken_back :: "'w server \<Rightarrow> 'w server \<Rightarrow> bool" where
  "taken_back S S' \<longleftrightarrow>
     sv_accounts S' = sv_accounts S \<and> sv_actors S' = sv_actors S \<and> content (sv_files S') = content (sv_files S)"

lemma discard_fresh:
  fixes M :: "('c::linorder, 'sk, 'vk, 'sg, 'v, 'w, 'l, 'e, 'j) manager"
  assumes u: "unheard_of M D did S" and w: "written_locally M D did encoded S S1"
    and fs: "fs_ok (sv_files S2)" "content (sv_files S2) = content (sv_files S1) \<or> content (sv_files S2) = (content (sv_files S1))(kept_path M D := None)"
    and a: "sv_actors S2 = sv_actors S1" and d: "accounts_delete did (sv_accounts S2) = sv_accounts S"
  shows "taken_back S (discard M did (kept_path M D) S2)"
proof -
  let ?k = "kept_path M D"
  have rm: "fs_ok (keys_remove ?k (sv_files S2)) \<and> content (keys_remove ?k (sv_files S2)) = (content (sv_files S2))(?k := None)"
    by (rule keys_remove_content [OF fs(1)])
  have "content (remove_dir_all (own_path M did) (keys_remove ?k (sv_files S2))) p = content (sv_files S) p" for p
    unfolding remove_dir_content [OF rm [THEN conjunct1]] rm [THEN conjunct2]
    using u w fs(2) own_paths [of M did] by (auto simp: written_locally_def signup_content_def unheard_of_def)
  then have c: "content (remove_dir_all (own_path M did) (keys_remove ?k (sv_files S2))) = content (sv_files S)" ..
  have "al_del (did_str did) (sv_actors S2) = sv_actors S" using u w a by (auto simp: written_locally_def unheard_of_def al_del_upd)
  then show ?thesis using c d by (simp add: taken_back_def discard_def own_path_def)
qed


section \<open>All or nothing\<close>

definition stands ::
    "('c::linorder, 'sk, 'vk, 'sg, 'v, 'w, 'l, 'e, 'j) manager \<Rightarrow> 'sk draws \<Rightarrow> did \<Rightarrow> handle \<Rightarrow> 'vk signup \<Rightarrow> 'w server \<Rightarrow> 'w server \<Rightarrow> bool" where
  "stands M D did h signup S S' \<longleftrightarrow>
     (\<exists>root. accounts_create (mg_texts M) (dw_registered D) (signup_registration M D did h signup root) (sv_accounts S) = Inr (sv_accounts S'))
     \<and> (\<exists>A r. map_of (sv_actors S') (did_str did) = Some A \<and> holds_repo (mg_lib M) (mg_texts M) A r (Node []))
     \<and> keys_read (mg_crypto M) (actor_key_path (mg_lib M) (mg_directory M) did) (sv_files S') = (Inr (dw_key D) :: 'c store_error + 'sk keypair)
     \<and> content (sv_files S') (kept_path M D) = None"

lemma written_stands:
  fixes M :: "('c::linorder, 'sk, 'vk, 'sg, 'v, 'w, 'l, 'e, 'j) manager"
  assumes C: "crypto_ok (mg_crypto M)" and k: "keypair_algorithm (dw_key D) = Secp256k1"
    and w: "written_locally M D did encoded S S1"
    and a: "accounts_create (mg_texts M) (dw_registered D) (signup_registration M D did h signup root) (sv_accounts S) = Inr (sv_accounts S')"
    and S': "sv_actors S' = sv_actors S1" "content (sv_files S') = (content (sv_files S1))(kept_path M D := None)"
  shows "stands M D did h signup S S'"
proof -
  let ?q = "actor_key_path (mg_lib M) (mg_directory M) did"
  have "?q \<noteq> kept_path M D" using own_paths(1) [of M did] kept_elsewhere [of M did D] by metis
  then have "content (sv_files S') ?q = Some (keypair_to_bytes (mg_crypto M) (dw_key D))"
    using w S'(2) own_paths(3) [of M did] by (simp add: written_locally_def signup_content_def)
  then obtain f where f: "fs_file (sv_files S') ?q = Some f" "i_bytes f = keypair_to_bytes (mg_crypto M) (dw_key D)"
    by (auto simp: content_def)
  have "keypair_from_bytes (mg_crypto M) Secp256k1 (keypair_to_bytes (mg_crypto M) (dw_key D)) = Inr (dw_key D)"
    using keys_roundtrip [OF C, of _ "dw_key D"] k by simp
  then have "keys_read (mg_crypto M) ?q (sv_files S') = (Inr (dw_key D) :: 'c store_error + 'sk keypair)" using f by (simp add: keys_read_def)
  then show ?thesis using w a S' by (auto simp: stands_def written_locally_def)
qed

lemma log_account_keeps:
  assumes "log_account M D did h commit rv blocks S = (x, S')"
  shows "sv_accounts S' = sv_accounts S \<and> sv_actors S' = sv_actors S \<and> sv_files S' = sv_files S \<and> sv_plc S' = sv_plc S"
  using assms by (auto simp: log_account_def split: sum.splits prod.splits)

lemma retire_identifier_says:
  assumes ok: "\<And>t. directory_ok V (mg_plc_lib M) (mg_net M) (mg_plc M) did op t" and r: "retire_identifier M did op S = (settled, S')"
  shows "sv_accounts S' = sv_accounts S \<and> sv_actors S' = sv_actors S \<and> sv_files S' = sv_files S \<and> sv_log S' = sv_log S
    \<and> (settled \<longrightarrow> retired V (sv_plc S'))"
proof (cases "tombstone_create (mg_lib M) (cid_to_string (mg_texts M)) (mg_plc_lib M) (mg_crypto M) op (mg_rotation_key M)")
  case (Inr t)
  obtain b w where "plc_retire (mg_plc_lib M) (mg_net M) (mg_plc M) did t (sv_plc S) = (b, w)" by fastforce
  then show ?thesis using r Inr retire_says [OF ok, of t "sv_plc S" w] by (auto simp: retire_identifier_def)
qed (use r in \<open>simp add: retire_identifier_def\<close>)

lemma guarded_outcome:
  fixes M :: "('c::linorder, 'sk, 'vk, 'sg, 'v, 'w, 'l, 'e, 'j) manager"
  assumes L: "repo_lib_ok (mg_lib M)" and J: "cid_text_ok (mg_texts M)" and C: "crypto_ok (mg_crypto M)"
    and k: "keypair_algorithm (dw_key D) = Secp256k1"
    and ok: "\<And>t. directory_ok V (mg_plc_lib M) (mg_net M) (mg_plc M) did op t"
    and w: "\<not> registered V (sv_plc S)" "\<not> on_the_way V (sv_plc S)" "\<not> retired V (sv_plc S)"
    and u: "unheard_of M D did S" and op: "op_cbor (mg_plc_lib M) op = Inr encoded"
    and c: "create_guarded M D signup h op did S = (r, S')"
  shows "case r of
      Inr a \<Rightarrow> cd_did a = did \<and> cd_handle a = h \<and> registered V (sv_plc S') \<and> stands M D did h signup S S'
    | Inl e \<Rightarrow> sv_log S' = sv_log S
        \<and> (taken_back S S' \<and> (registered V (sv_plc S') \<longrightarrow> retired V (sv_plc S')) \<or> stands M D did h signup S S' \<and> (\<exists>x. e = PlcError (PlcUncertain x)))"
proof -
  let ?kept = "kept_path M D"
  obtain r1 S1 where s: "settle M D did h signup op S = (r1, S1)" by fastforce
  obtain root where wl: "written_locally M D did encoded S S1" and root:
    "case accounts_create (mg_texts M) (dw_registered D) (signup_registration M D did h signup root) (sv_accounts S) of
       Inl e \<Rightarrow> r1 = Inl (of_store_error e) \<and> sv_accounts S1 = sv_accounts S
     | Inr db \<Rightarrow> sv_accounts S1 = db \<and> (\<exists>blocks. r1 = Inr (mint_pair (mg_auth M) (mg_tokens M) (dw_minted D) did None (dw_jti D), blocks, rt_cid root, rt_rev root))"
    using settle_fresh [OF L J u op s] by blast
  have nt: "no_trace (did_str did) (sv_accounts S)" using u by (simp add: unheard_of_def)
  show ?thesis
  proof (cases r1)
    case (Inl e)
    then have a: "sv_accounts S1 = sv_accounts S" using root by (auto split: sum.splits)
    have "taken_back S (discard M did ?kept S1)"
      by (rule discard_fresh [OF u wl]) (use wl a delete_no_trace [OF nt] in \<open>simp_all add: written_locally_def\<close>)
    moreover have "r = Inl e" "S' = discard M did ?kept S1"
      using c s Inl by (simp_all add: create_guarded_def undo_drop_def kept_path_def)
    ultimately show ?thesis using wl w by (simp add: written_locally_def discard_def)
  next
    case (Inr x)
    then obtain blocks where a: "accounts_create (mg_texts M) (dw_registered D) (signup_registration M D did h signup root) (sv_accounts S) = Inr (sv_accounts S1)"
      and x: "x = (mint_pair (mg_auth M) (mg_tokens M) (dw_minted D) did None (dw_jti D), blocks, rt_cid root, rt_rev root)"
      using root by (auto split: sum.splits)
    have del: "accounts_delete did (sv_accounts S1) = sv_accounts S"
      using delete_created [OF _ a] nt by (simp add: signup_registration_def)
    obtain reg n where send: "plc_send (mg_plc_lib M) (mg_net M) (mg_plc M) did op (sv_plc S1) = (reg, n)" by fastforce
    have w1: "\<not> registered V (sv_plc S1)" "\<not> on_the_way V (sv_plc S1)" "\<not> retired V (sv_plc S1)"
      using w wl by (simp_all add: written_locally_def)
    note says = send_says [OF ok w1 send]
    obtain settled S2 where retire: "(case reg of Inl (PlcUncertain _) \<Rightarrow> retire_identifier M did op (S1\<lparr>sv_plc := n\<rparr>) | _ \<Rightarrow> (True, S1\<lparr>sv_plc := n\<rparr>)) = (settled, S2)"
      by fastforce
    have S2: "sv_accounts S2 = sv_accounts S1" "sv_actors S2 = sv_actors S1" "sv_files S2 = sv_files S1" "sv_log S2 = sv_log S1"
      and held: "case reg of Inl e \<Rightarrow> if uncertain e then settled \<longrightarrow> retired V (sv_plc S2) else settled \<and> sv_plc S2 = n | Inr _ \<Rightarrow> sv_plc S2 = n"
      using retire retire_identifier_says [OF ok, of "S1\<lparr>sv_plc := n\<rparr>" settled S2] by (auto split: sum.splits plc_error.splits)
    let ?S3 = "S2\<lparr>sv_files := keys_remove ?kept (sv_files S2)\<rparr>"
    have f3: "fs_ok (sv_files ?S3)" "content (sv_files ?S3) = (content (sv_files S1))(?kept := None)"
      using keys_remove_content [of "sv_files S1" ?kept] wl S2(3) by (simp_all add: written_locally_def)
    have undone: "taken_back S (discard M did ?kept ?S3)"
      by (rule discard_fresh [OF u wl f3(1)]) (use f3(2) S2 del in simp_all)
    have up: "stands M D did h signup S T"
      if "sv_accounts T = sv_accounts ?S3" "sv_actors T = sv_actors ?S3" "sv_files T = sv_files ?S3" for T :: "'w server"
      by (rule written_stands [OF C k wl, where root = root]) (use that a S2 f3(2) in simp_all)
    show ?thesis
    proof (cases reg)
      case (Inl e)
      then have "r = Inl (PlcError e)" "S' = (if settled then discard M did ?kept ?S3 else ?S3)"
        using c s send retire Inr x by (auto simp: create_guarded_def Let_def undo_drop_def kept_path_def)
      moreover have "registered V (sv_plc S2) \<longrightarrow> retired V (sv_plc S2)" if settled
        using that held says Inl by (auto split: if_splits)
      moreover have "\<exists>x. e = PlcUncertain x" if "\<not> settled" using that held Inl by (cases e) auto
      moreover have "sv_log S2 = sv_log S" using S2(4) wl by (simp add: written_locally_def)
      ultimately show ?thesis using undone up [of ?S3] by (cases settled) (auto simp: discard_def)
    next
      case (Inr y)
      obtain z S4 where l: "log_account M D did h (rt_cid root) (rt_rev root) blocks ?S3 = (z, S4)" by fastforce
      have "r = Inr \<lparr>cd_did = did, cd_handle = h, cd_credentials = mint_pair (mg_auth M) (mg_tokens M) (dw_minted D) did None (dw_jti D)\<rparr>" "S' = S4"
        using c s send retire \<open>r1 = Inr x\<close> x Inr l by (auto simp: create_guarded_def Let_def undo_drop_def kept_path_def)
      moreover have "registered V (sv_plc S2)" using held says Inr by simp
      ultimately show ?thesis using up [of S4] log_account_keeps [OF l] by simp
    qed
  qed
qed

text \<open>C25: a signup is all or nothing. Where nothing was known of the identifier it mints, one that is answered
  leaves the account whole: its rows, a repository that verifies its blocks and holds no record, and its key
  on the disk, with the identifier registered. One that fails writes nothing to the log and leaves the
  databases and files as they were, with nothing the directory would resolve; only where the directory would
  not say what it holds may the account stand, whole, with the error saying so. It never panics.\<close>

theorem signup_all_or_nothing:
  fixes M :: "('c::linorder, 'sk, 'vk, 'sg, 'v, 'w, 'l, 'e, 'j) manager"
  assumes L: "repo_lib_ok (mg_lib M)" and J: "cid_text_ok (mg_texts M)" and C: "crypto_ok (mg_crypto M)"
    and k: "keypair_algorithm (dw_key D) = Secp256k1"
    and h: "signup_checked M signup S = Inr h"
    and op: "op_create (mg_plc_lib M) (mg_crypto M) h (mg_public_url M) (public_of (mg_crypto M) (dw_key D))
      (List.map_filter (\<lambda>k. k) [su_recovery_key signup, mg_recovery_key M]) (mg_rotation_key M) = Inr op"
    and encoded: "op_cbor (mg_plc_lib M) op = Inr encoded" and sha: "15 \<le> length (sha256 (mg_lib M) encoded)" and did: "did_str did = ''did:plc:'' @ take 24 (base32 (sha256 (mg_lib M) encoded))"
    and ok: "\<And>t. directory_ok V (mg_plc_lib M) (mg_net M) (mg_plc M) did op t"
    and w: "\<not> registered V (sv_plc S)" "\<not> on_the_way V (sv_plc S)" "\<not> retired V (sv_plc S)"
    and u: "unheard_of M D did S" and c: "create M D signup S = (r, S')"
  shows "case r of
      None \<Rightarrow> False
    | Some (Inr a) \<Rightarrow> cd_did a = did \<and> cd_handle a = h \<and> registered V (sv_plc S') \<and> stands M D did h signup S S'
    | Some (Inl e) \<Rightarrow> sv_log S' = sv_log S
        \<and> (taken_back S S' \<and> (registered V (sv_plc S') \<longrightarrow> retired V (sv_plc S')) \<or> stands M D did h signup S S' \<and> (\<exists>x. e = PlcError (PlcUncertain x)))"
proof -
  obtain d where d: "op_did (mg_lib M) (mg_plc_lib M) op = Inr d" by (simp add: op_did_def plc_encode_def encoded)
  have "d = Some did" using op_did_valid [OF _ d] sha encoded did by (cases did) auto
  then obtain q where g: "create_guarded M D signup h op did S = (q, S')" and r: "r = Some q"
    using c h op d by (auto simp: create_def Let_def split: prod.splits)
  show ?thesis using guarded_outcome [OF L J C k ok w u encoded g] unfolding r by simp
qed


section \<open>An instance\<close>

text \<open>A signup at the directory whose copy of the operation lands late.\<close>

definition toy_events :: "string event_lib" where
  "toy_events = \<lparr>sha256 = sha256 toy_lib, new_v1 = new_v1 toy_lib, node_to_vec = node_to_vec toy_lib, node_from_slice = node_from_slice toy_lib,
     header_to_vec = (\<lambda>_. Inr ''h''), header_from_slice = (\<lambda>_. Inl ''e''), varint_encode = (\<lambda>_. []), varint_decode = (\<lambda>_. None),
     cid_to_bytes = (\<lambda>c. c), cid_read_bytes = (\<lambda>_. None), hash_code = (\<lambda>_. 18), hash_digest = (\<lambda>c. c),
     identity_to_vec = (\<lambda>_. Inr ''i''), account_to_vec = (\<lambda>_. Inr ''a''), append_to_vec = (\<lambda>_. Inr ''p''), sync_to_vec = (\<lambda>_. Inr ''s'')\<rparr>"

definition toy_manager :: "(string, bool, bool, bool \<times> bytes, string, nat, unit, unit, unit) manager" where
  "toy_manager = \<lparr>mg_lib = toy_repo_lib, mg_events = toy_events, mg_texts = toy_accounts_lib, mg_crypto = toy_crypto, mg_plc_lib = toy_plc,
     mg_net = late_net, mg_plc = toy_client, mg_scrypt = (\<lambda>p s. p), mg_auth = toy_auth_lib, mg_tokens = toy_tokens,
     mg_rules = rules_new [''.test''] [], mg_directory = [], mg_invite_required = False, mg_recovery_key = None,
     mg_public_url = ''https://p'', mg_rotation_key = KP256 True\<rparr>"

definition toy_draws :: "bool draws" where
  "toy_draws = \<lparr>dw_key = KSecp256k1 True, dw_salt = ''s'', dw_jti = ''j'', dw_micros = None, dw_wrote = 0, dw_committed = 0, dw_expires = 0,
     dw_registered = 0, dw_minted = 0, dw_logged = 0\<rparr>"

definition toy_su :: "bool signup" where
  "toy_su = \<lparr>su_handle = ''alice.test'', su_email = ''a@b.cd'', su_password = ''pw'', su_invite = None, su_recovery_key = None\<rparr>"

definition toy_server :: "nat server" where
  "toy_server = \<lparr>sv_accounts = accounts_new, sv_actors = [], sv_files = empty_fs, sv_log = sequencer_new, sv_clock = toy_clock, sv_plc = 0\<rparr>"

lemma toy_checked: "signup_checked toy_manager toy_su toy_server = Inr (Handle ''alice.test'')"
proof -
  have "char_count ''pw'' \<le> PASSWORD" by (simp add: char_count_def PASSWORD_def)
  moreover have "plausible ''a@b.cd''" by code_simp
  moreover have "signup_handle (rules_new [''.test''] []) ''alice.test'' = Inr (Handle ''alice.test'')" by code_simp
  moreover have "still_available (Handle ''alice.test'') ''a@b.cd'' None accounts_new = (Inr () :: string account_error + unit)"
    by (simp add: still_available_def by_handle_def by_email_def query_account_def joined_accounts_def accounts_new_def List.map_filter_simps)
  ultimately show ?thesis by (simp add: signup_checked_def toy_manager_def toy_su_def toy_server_def)
qed

lemma toy_cid_text: "cid_text_ok toy_accounts_lib"
  by (simp add: cid_text_ok_def toy_accounts_lib_def)

definition toy_genesis :: operation where
  "toy_genesis = (case op_create toy_plc toy_crypto (Handle ''alice.test'') ''https://p'' (PSecp256k1 True) [] (KP256 True) of
     Inl e \<Rightarrow> toy_operation | Inr op \<Rightarrow> op)"

lemma toy_genesis_ok:
  "op_create toy_plc toy_crypto (Handle ''alice.test'') ''https://p'' (PSecp256k1 True) [] (KP256 True) = Inr toy_genesis"
  "op_cbor toy_plc toy_genesis = Inr ''at://alice.test''"
  by (simp_all add: toy_genesis_def op_create_def op_payload_def plc_encode_def Let_def) (simp_all add: toy_plc_def)

theorem signup_all_or_nothing_witness:
  "\<exists>r S'. create toy_manager toy_draws toy_su toy_server = (Some r, S')
     \<and> (case r of
          Inr a \<Rightarrow> cd_handle a = Handle ''alice.test'' \<and> registered late_view (sv_plc S')
        | Inl e \<Rightarrow> sv_log S' = sequencer_new
            \<and> (sv_accounts S' = accounts_new \<and> sv_actors S' = [] \<or> (\<exists>x. e = PlcError (PlcUncertain x))))"
proof -
  let ?did = "Did (''did:plc:'' @ take 24 (base32 (sha256 (mg_lib toy_manager) ''at://alice.test'')))"
  obtain r S' where c: "create toy_manager toy_draws toy_su toy_server = (r, S')" by fastforce
  have m: "repo_lib_ok (mg_lib toy_manager)" "cid_text_ok (mg_texts toy_manager)" "crypto_ok (mg_crypto toy_manager)"
      "keypair_algorithm (dw_key toy_draws) = Secp256k1" "op_cbor (mg_plc_lib toy_manager) toy_genesis = Inr ''at://alice.test''"
      "15 \<le> length (sha256 (mg_lib toy_manager) ''at://alice.test'')"
    using toy_repo_ok toy_cid_text toy_crypto_ok toy_genesis_ok(2)
    by (simp_all add: toy_manager_def toy_draws_def) (simp add: toy_repo_lib_def toy_lib_def)
  have op: "op_create (mg_plc_lib toy_manager) (mg_crypto toy_manager) (Handle ''alice.test'') (mg_public_url toy_manager)
      (public_of (mg_crypto toy_manager) (dw_key toy_draws)) (List.map_filter (\<lambda>k. k) [su_recovery_key toy_su, mg_recovery_key toy_manager])
      (mg_rotation_key toy_manager) = Inr toy_genesis"
    using toy_genesis_ok(1) by (simp add: toy_manager_def toy_draws_def toy_su_def List.map_filter_simps) (simp add: toy_crypto_def toy_curve_def)
  have dir: "directory_ok late_view (mg_plc_lib toy_manager) (mg_net toy_manager) (mg_plc toy_manager) ?did toy_genesis t" for t
    using late_directory_ok by (simp add: toy_manager_def)
  have w: "\<not> registered late_view (sv_plc toy_server)" "\<not> on_the_way late_view (sv_plc toy_server)" "\<not> retired late_view (sv_plc toy_server)"
    by (simp_all add: late_view_def toy_server_def)
  have u: "unheard_of toy_manager toy_draws ?did toy_server"
    by (simp add: unheard_of_def no_trace_def toy_server_def accounts_new_def fs_ok_def empty_fs_def content_def fs_file_def)
  show ?thesis
    using signup_all_or_nothing [OF m(1-4) toy_checked op m(5,6) _ dir w u c] c
    by (cases r) (auto simp: taken_back_def toy_server_def split: sum.splits)
qed

end
