(* ===== verification/Reads.thy ===== *)
theory Reads
  imports Signup Writes Actor_Blobs
begin

text \<open>
  The rest of \<open>Manager\<close> in \<open>src/account.rs\<close>: reads of an account's database, exports, proofs, a set of writes
  with what follows its commit, and the sweeping of blobs. Whoever takes the pieces of an export takes them
  all in time. Locks, turns and the threads the work runs on are not modelled.
\<close>

section \<open>Opening an account\<close>

definition opened :: "did \<Rightarrow> 'w server \<Rightarrow> 'c account_error + actor" where
  "opened did S = ok_or (NoRepo did) (map_of (sv_actors S) (did_str did))"

definition on_actor :: "did \<Rightarrow> (actor \<Rightarrow> 'c store_error + 'a) \<Rightarrow> 'w server \<Rightarrow> 'c account_error + 'a" where
  "on_actor did work S = bindE (opened did S) (\<lambda>A. map_err of_store_error (work A))"


section \<open>Reads\<close>

definition account_by_did :: "did \<Rightarrow> 'w server \<Rightarrow> 'c account_error + account option" where
  "account_by_did did S = map_err of_store_error (by_did did (sv_accounts S))"

definition resolve_handle :: "handle \<Rightarrow> 'w server \<Rightarrow> 'c account_error + did option" where
  "resolve_handle h S = bindE (map_err of_store_error (by_handle h (sv_accounts S))) (\<lambda>a. Inr (map_option acc_did a))"

definition lookup :: "at_identifier \<Rightarrow> 'w server \<Rightarrow> 'c account_error + account option" where
  "lookup i S =
     map_err of_store_error (case i of AtDid did \<Rightarrow> by_did did (sv_accounts S) | AtHandle h \<Rightarrow> by_handle h (sv_accounts S))"

definition did_document ::
    "('c::linorder, 'sk, 'vk, 'sg, 'v, 'w, 'l, 'e, 'j) manager \<Rightarrow> did \<Rightarrow> 'w server \<Rightarrow> ('c account_error + 'v) \<times> 'w server" where
  "did_document M did S =
     (case plc_resolve (mg_plc_lib M) (mg_net M) (mg_plc M) did (sv_plc S) of (r, w) \<Rightarrow> (map_err PlcError r, S\<lparr>sv_plc := w\<rparr>))"

definition repo_root_of :: "('c, 'j) json_lib_scheme \<Rightarrow> did \<Rightarrow> 'w server \<Rightarrow> 'c account_error + 'c root option" where
  "repo_root_of J did S = on_actor did (actor_root J) S"

definition hosted_repos_of ::
    "('c, 'j) accounts_lib_scheme \<Rightarrow> nat \<Rightarrow> hosted_cursor option \<Rightarrow> 'w server \<Rightarrow> 'c account_error + 'c hosted list" where
  "hosted_repos_of J limit from S = map_err of_store_error (hosted_repos J limit from (sv_accounts S))"

definition stored_record :: "('c, 'j) json_lib_scheme \<Rightarrow> did \<Rightarrow> nsid \<Rightarrow> record_key \<Rightarrow> 'w server \<Rightarrow> 'c account_error + 'c found_record option" where
  "stored_record J did n k S = on_actor did (actor_record J n k) S"

definition stored_records ::
    "('c, 'j) json_lib_scheme \<Rightarrow> did \<Rightarrow> nsid \<Rightarrow> nat \<Rightarrow> string option \<Rightarrow> bool \<Rightarrow> 'w server \<Rightarrow> 'c account_error + 'c found_record list" where
  "stored_records J did n limit cursor reverse S = on_actor did (actor_records J n limit cursor reverse) S"

definition stored_collections :: "did \<Rightarrow> 'w server \<Rightarrow> 'c account_error + nsid list" where
  "stored_collections did S = on_actor did actor_collections S"

definition served_blob ::
    "('c, 'j) json_lib_scheme \<Rightarrow> path \<Rightarrow> did \<Rightarrow> 'c \<Rightarrow> 'w server \<Rightarrow> 'c account_error + ('c blob \<times> bytes) option" where
  "served_blob J B did c S =
     on_actor did (\<lambda>A.
       bindE (actor_blob J A c) (\<lambda>found.
       case found of
         Some blob \<Rightarrow>
           if blob_has J B did c (sv_files S) then bindE (blob_get J B did c (sv_files S)) (\<lambda>b. Inr (Some (blob, b))) else Inr None
       | None \<Rightarrow> Inr None)) S"

definition named_blobs ::
    "('c, 'j) json_lib_scheme \<Rightarrow> did \<Rightarrow> tid option \<Rightarrow> nat \<Rightarrow> string option \<Rightarrow> 'w server \<Rightarrow> 'c account_error + 'c list" where
  "named_blobs J did since limit cursor S = on_actor did (actor_blobs J (map_option tid_str since) limit cursor) S"

definition never_uploaded ::
    "('c, 'j) json_lib_scheme \<Rightarrow> did \<Rightarrow> nat \<Rightarrow> string option \<Rightarrow> 'w server \<Rightarrow> 'c account_error + ('c \<times> string) list" where
  "never_uploaded J did limit cursor S = on_actor did (missing_blobs J limit cursor) S"


section \<open>Files\<close>

definition EXPORT_PAGE :: nat where "EXPORT_PAGE = 500"

text \<open>The pieces a download is handed over in, and the error that ends it early.\<close>

partial_function (option) export_loop ::
    "('c, 'e) event_lib_scheme \<Rightarrow> ('c, 'j) json_lib_scheme \<Rightarrow> tid option \<Rightarrow> actor \<Rightarrow> 'c mark option \<Rightarrow> bytes
      \<Rightarrow> (bytes list \<times> 'c account_error option) option" where
  "export_loop E J since A from piece =
     (case blocks_since J since from EXPORT_PAGE A of
        Inl e \<Rightarrow> Some ([], Some (of_store_error e))
      | Inr page \<Rightarrow>
          (let piece = fold (\<lambda>(c, b) car. car_push E car c b) (pg_blocks page) piece in
           case pg_next page of
             None \<Rightarrow> Some ([piece], None)
           | Some m \<Rightarrow> Option.bind (export_loop E J since A (Some m) []) (\<lambda>(pieces, e). Some (piece # pieces, e))))"

definition rooted :: "('c, 'e) event_lib_scheme \<Rightarrow> ('c, 'j) json_lib_scheme \<Rightarrow> actor \<Rightarrow> 'c account_error + bytes" where
  "rooted E J A =
     bindE (map_err of_store_error (actor_root J A)) (\<lambda>root.
     bindE (ok_or (NoRepo (a_did A)) root) (\<lambda>root.
     map_err RepoError (car_header E [rt_cid root])))"

definition export ::
    "('c, 'e) event_lib_scheme \<Rightarrow> ('c, 'j) json_lib_scheme \<Rightarrow> did \<Rightarrow> tid option \<Rightarrow> 'w server
      \<Rightarrow> ('c account_error + bytes list \<times> 'c account_error option) option" where
  "export E J did since S =
     (case bindE (opened did S) (\<lambda>A. bindE (rooted E J A) (\<lambda>h. Inr (A, h))) of
        Inl e \<Rightarrow> Some (Inl e)
      | Inr (A, h) \<Rightarrow> map_option Inr (export_loop E J since A None h))"

definition blocks_file ::
    "('c::linorder, 'e) event_lib_scheme \<Rightarrow> ('c, 'j) json_lib_scheme \<Rightarrow> did \<Rightarrow> 'c list \<Rightarrow> 'w server \<Rightarrow> 'c account_error + bytes" where
  "blocks_file E J did cids S =
     bindE (opened did S) (\<lambda>A.
     case actor_named_blocks J cids A of (blocks, missing) \<Rightarrow>
       if missing \<noteq> [] then Inl (NoBlocks (join_with CHR '','' (map (cid_to_string J) missing)))
       else map_err RepoError (car_write_blocks E blocks))"

definition proof_file ::
    "('c::linorder, 'l) repo_lib_scheme \<Rightarrow> ('c, 'e) event_lib_scheme \<Rightarrow> ('c, 'j) json_lib_scheme \<Rightarrow> did \<Rightarrow> nsid \<Rightarrow> record_key \<Rightarrow> 'w server
      \<Rightarrow> 'c account_error + bytes" where
  "proof_file L E J did n k S =
     bindE (opened did S) (\<lambda>A.
     bindE (map_err of_store_error (actor_root J A)) (\<lambda>root.
     bindE (ok_or (NoRepo (a_did A)) root) (\<lambda>root.
     bindE (map_err RepoError (repo_load L (actor_store J A) (rt_cid root))) (\<lambda>repo.
     bindE (map_err RepoError (repo_proof L (actor_store J A) repo n k)) (\<lambda>(path, repo).
     case actor_named_blocks J (rt_cid root # path) A of (blocks, missing) \<Rightarrow>
       (case missing of
          c # _ \<Rightarrow> Inl (RepoError (MissingBlock c))
        | [] \<Rightarrow> map_err RepoError (car_write E (rt_cid root) blocks)))))))"


section \<open>Writes\<close>

definition log_commit ::
    "('c::linorder, 'sk, 'vk, 'sg, 'v, 'w, 'l, 'e, 'j) manager \<Rightarrow> nat \<Rightarrow> did \<Rightarrow> 'c landed \<Rightarrow> 'w server \<Rightarrow> ('c account_error + unit) \<times> 'w server" where
  "log_commit M now did landed S =
     (case records_written (mg_events M) \<lparr>ce_did = did, ce_commit = rt_cid (ld_root landed), ce_rev = rt_rev (ld_root landed),
         ce_since = Some (ld_since landed), ce_prev_data = Some (ld_prev_data landed), ce_ops = ld_ops landed\<rparr> (ld_blocks landed) of
        Inl e \<Rightarrow> (Inl (RepoError e), S)
      | Inr entry \<Rightarrow>
          (case log_append (stamp (mg_texts M) now) did (bd_event entry) (bd_bytes entry) (sv_log S) of
             Inl e \<Rightarrow> (Inl (of_store_error e), S)
           | Inr (_, q) \<Rightarrow> (Inr (), S\<lparr>sv_log := q\<rparr>)))"

text \<open>The times and clock readings of the attempts, and what others do meanwhile; then the times of the log
  entry and of the root beside it.\<close>

record writing_draws =
  wd_now :: "nat \<Rightarrow> nat"
  wd_micros :: "nat \<Rightarrow> nat option"
  wd_others :: "nat \<Rightarrow> actor \<times> fs \<Rightarrow> actor \<times> fs"
  wd_logged :: nat
  wd_moved :: nat

definition writing_setting ::
    "('c::linorder, 'sk, 'vk, 'sg, 'v, 'w, 'l, 'e, 'j) manager \<Rightarrow> writing_draws
      \<Rightarrow> ('c, 'sk, 'vk, 'sg, 'l, 'j accounts_lib_ext) setting" where
  "writing_setting M W = \<lparr>set_lib = mg_lib M, set_texts = mg_texts M, set_crypto = mg_crypto M, set_blobs = blobs_dir (mg_directory M),
     set_now = wd_now W, set_micros = wd_micros W, set_others = wd_others W\<rparr>"

definition write_records ::
    "('c::linorder, 'sk, 'vk, 'sg, 'v, 'w, 'l, 'e, 'j) manager \<Rightarrow> writing_draws \<Rightarrow> did \<Rightarrow> 'c requested list \<Rightarrow> 'c option \<Rightarrow> 'w server
      \<Rightarrow> (('c account_error + 'c written option) \<times> 'w server) option" where
  "write_records M W did requested swap S =
     (case keys_read (mg_crypto M) (actor_key_path (mg_lib M) (mg_directory M) did) (sv_files S) of
        Inl e \<Rightarrow> Some (Inl (of_store_error e), S)
      | Inr key \<Rightarrow>
          Option.bind (commit_writes (writing_setting M W) (Inr key) did requested swap (actor_open did S, sv_files S, sv_clock S)) (\<lambda>(r, A, fs, clk).
          let S = S\<lparr>sv_actors := al_upd (did_str did) A (sv_actors S), sv_files := fs, sv_clock := clk\<rparr> in
          Some (case r of
            Inl e \<Rightarrow> (Inl e, S)
          | Inr None \<Rightarrow> (Inr None, S)
          | Inr (Some landed) \<Rightarrow>
              (let S = S\<lparr>sv_files := clear_disk (mg_texts M) (blobs_dir (mg_directory M)) A (ld_committed landed) (sv_files S)\<rparr>;
                   S = snd (log_commit M (wd_logged W) did landed S) in
               (Inr (Some (ld_written landed)),
                S\<lparr>sv_accounts := update_root (mg_texts M) (wd_moved W) did (ld_root landed) (sv_accounts S)\<rparr>)))))"

definition fresh_record_key :: "nat option \<Rightarrow> 'w server \<Rightarrow> record_key \<times> 'w server" where
  "fresh_record_key since S = (case mint since (sv_clock S) of (t, clk) \<Rightarrow> (RecordKey (tid_str t), S\<lparr>sv_clock := clk\<rparr>))"


section \<open>Blobs nobody claims\<close>

text \<open>Seconds are of 64 bits, and the first timestamp is \<open>reach\<close> nanoseconds before 1970. Nothing here is older
  than that year, so a time before it is as good as its beginning.\<close>

definition kept_until :: "nat \<Rightarrow> nat \<Rightarrow> nat \<Rightarrow> nat option" where
  "kept_until reach now window_hours =
     (if window_hours = 0 then None
      else if window_hours * 3600 \<ge> 2 ^ 64 then None
      else if window_hours * 3600 \<ge> 2 ^ 63 then None
      else if window_hours * 3600 * SECOND > now + reach then None
      else Some (now - window_hours * 3600 * SECOND))"

record sweeping =
  sw_reach :: nat
  sw_hours :: nat
  sw_now :: nat

definition stranded ::
    "('c::linorder, 'sk, 'vk, 'sg, 'v, 'w, 'l, 'e, 'j) manager \<Rightarrow> nat \<Rightarrow> did \<Rightarrow> 'w server \<Rightarrow> ('c account_error + nat) \<times> 'w server" where
  "stranded M cutoff did S =
     (case opened did S of
        Inl e \<Rightarrow> (Inl e, S)
      | Inr A \<Rightarrow>
          (case sweep_uploads (blobs_dir (mg_directory M)) did (upload_keys A) cutoff (sv_files S) of
             (swept, fs) \<Rightarrow> (Inr (length swept), S\<lparr>sv_files := fs\<rparr>)))"

definition unheld_files ::
    "('c::linorder, 'sk, 'vk, 'sg, 'v, 'w, 'l, 'e, 'j) manager \<Rightarrow> nat \<Rightarrow> did \<Rightarrow> 'w server \<Rightarrow> ('c account_error + nat) \<times> 'w server" where
  "unheld_files M cutoff did S =
     (case opened did S of
        Inl e \<Rightarrow> (Inl e, S)
      | Inr A \<Rightarrow>
          (case sweep_stored (blobs_dir (mg_directory M)) did (blob_cids A) cutoff (sv_files S) of
             (swept, fs) \<Rightarrow> (Inr (length swept), S\<lparr>sv_files := fs\<rparr>)))"

definition sweep_blobs ::
    "('c::linorder, 'sk, 'vk, 'sg, 'v, 'w, 'l, 'e, 'j) manager \<Rightarrow> sweeping \<Rightarrow> did \<Rightarrow> 'w server \<Rightarrow> ('c account_error + nat) \<times> 'w server" where
  "sweep_blobs M Z did S =
     (case kept_until (sw_reach Z) (sw_now Z) (sw_hours Z) of
        None \<Rightarrow> (Inr 0, S)
      | Some cutoff \<Rightarrow>
          bindS (stranded M cutoff did S) (\<lambda>n S.
          case opened did S of
            Inl e \<Rightarrow> (Inl e, S)
          | Inr A \<Rightarrow>
              (case sweep_unclaimed (mg_texts M) cutoff A of
                 (swept, A) \<Rightarrow>
                   (Inr (length swept + n),
                    S\<lparr>sv_actors := al_upd (did_str did) A (sv_actors S),
                      sv_files := clear_disk (mg_texts M) (blobs_dir (mg_directory M)) A \<lparr>orphaned = [], taken = swept\<rparr> (sv_files S)\<rparr>))))"

definition upload ::
    "('c::linorder, 'sk, 'vk, 'sg, 'v, 'w, 'l, 'e, 'j) manager \<Rightarrow> sweeping \<Rightarrow> nat \<Rightarrow> bytes \<Rightarrow> string \<Rightarrow> did \<Rightarrow> string \<Rightarrow> bytes \<Rightarrow> 'w server
      \<Rightarrow> ('c account_error + 'c blob) \<times> 'w server" where
  "upload M Z now scratch key did mime b S =
     (case opened did S of
        Inl e \<Rightarrow> (Inl e, S)
      | Inr A \<Rightarrow>
          (case upload_blob (mg_lib M) (mg_texts M) (blobs_dir (mg_directory M)) now scratch key mime b A (sv_files S) of
             (r, A, fs) \<Rightarrow>
               (let S = S\<lparr>sv_actors := al_upd (did_str did) A (sv_actors S), sv_files := fs\<rparr> in
                case r of
                  Inl e \<Rightarrow> (Inl (of_store_error e), S)
                | Inr blob \<Rightarrow> (Inr blob, snd (sweep_blobs M Z did S)))))"

text \<open>An account that does not answer is passed over.\<close>

fun reconcile_loop ::
    "('c::linorder, 'sk, 'vk, 'sg, 'v, 'w, 'l, 'e, 'j) manager \<Rightarrow> sweeping \<Rightarrow> nat \<Rightarrow> did list \<Rightarrow> nat \<Rightarrow> 'w server \<Rightarrow> nat \<times> 'w server" where
  "reconcile_loop M Z cutoff [] n S = (n, S)"
| "reconcile_loop M Z cutoff (did # dids) n S =
     (case sweep_blobs M Z did S of
        (r, S) \<Rightarrow>
          (let n = (case r of Inl _ \<Rightarrow> n | Inr k \<Rightarrow> n + k) in
           case unheld_files M cutoff did S of
             (r, S) \<Rightarrow> reconcile_loop M Z cutoff dids (case r of Inl _ \<Rightarrow> n | Inr k \<Rightarrow> n + k) S))"

definition reconcile ::
    "('c::linorder, 'sk, 'vk, 'sg, 'v, 'w, 'l, 'e, 'j) manager \<Rightarrow> sweeping \<Rightarrow> 'w server \<Rightarrow> nat \<times> 'w server" where
  "reconcile M Z S =
     (case kept_until (sw_reach Z) (sw_now Z) (sw_hours Z) of
        None \<Rightarrow> (0, S)
      | Some cutoff \<Rightarrow> reconcile_loop M Z cutoff (blob_accounts (blobs_dir (mg_directory M)) (sv_files S)) 0 S)"

end
