(* ===== verification/Reads_Props.thy ===== *)
theory Reads_Props
  imports Reads Signup_Props
begin

text \<open>
  What a download is worth: the pieces of an export are a CAR file that reads back as the repository.
\<close>

section \<open>Blocks in pages\<close>

text \<open>The rows of a database under the CIDs they are named by.\<close>

definition typed_rows :: "('c, 'j) json_lib_scheme \<Rightarrow> actor \<Rightarrow> ('c \<times> block_row) list" where
  "typed_rows J A = map (\<lambda>(k, row). (the (cid_parse J k), row)) (repo_block A)"

definition typed_ok :: "('c, 'j) json_lib_scheme \<Rightarrow> actor \<Rightarrow> bool" where
  "typed_ok J A \<longleftrightarrow> cid_text_ok J \<and> ascending (repo_block A) \<and> (\<forall>(k, row) \<in> set (repo_block A). \<exists>c. k = cid_to_string J c)"

definition block_rows :: "('c, 'j) json_lib_scheme \<Rightarrow> tid option \<Rightarrow> actor \<Rightarrow> ('c \<times> block_row) list" where
  "block_rows J since A =
     rev (sort_key (\<lambda>(c, row). br_rev row)
       (filter (\<lambda>(c, row). case since of None \<Rightarrow> True | Some t \<Rightarrow> br_rev row > tid_str t) (typed_rows J A)))"

definition after_mark :: "('c, 'j) json_lib_scheme \<Rightarrow> 'c \<times> block_row \<Rightarrow> 'c mark option \<Rightarrow> bool" where
  "after_mark J x p \<longleftrightarrow>
     (case p of None \<Rightarrow> True | Some m \<Rightarrow>
        br_rev (snd x) < mk_rev m \<or> br_rev (snd x) = mk_rev m \<and> cid_to_string J (fst x) < cid_to_string J (mk_cid m))"

definition mark_of :: "'c \<times> block_row \<Rightarrow> 'c mark option" where
  "mark_of x = Some \<lparr>mk_rev = br_rev (snd x), mk_cid = fst x\<rparr>"

definition block_page :: "('c, 'j) json_lib_scheme \<Rightarrow> tid option \<Rightarrow> actor \<Rightarrow> 'c mark option \<Rightarrow> nat \<Rightarrow> ('c \<times> block_row) list" where
  "block_page J since A p n = map (\<lambda>(k, row). (the (cid_parse J k), row)) (blocks_page J since p n A)"

definition blocks_checked :: "('c, 'j) json_lib_scheme \<Rightarrow> actor \<Rightarrow> actor" where
  "blocks_checked J A = (if typed_ok J A then A else A\<lparr>repo_block := []\<rparr>)"

lemma typed_text: "typed_ok J A \<Longrightarrow> (k, row) \<in> set (repo_block A) \<Longrightarrow> cid_to_string J (the (cid_parse J k)) = k"
  unfolding typed_ok_def cid_text_ok_def by fastforce

lemma insort_key_map: "insort_key f (g y) (map g zs) = map g (insort_key (\<lambda>x. f (g x)) y zs)"
  by (induction zs) auto

lemma sort_key_map: "sort_key f (map g xs) = map g (sort_key (\<lambda>x. f (g x)) xs)"
  by (induction xs) (auto simp: insort_key_map)

lemma filter_sort_key: "filter P (sort_key f xs) = sort_key f (filter P xs)"
  by (rule filter_sort)

lemma block_page_eq:
  assumes "typed_ok J A"
  shows "block_page J since A p n = take n (filter (\<lambda>x. after_mark J x p) (block_rows J since A))"
proof -
  let ?g = "\<lambda>(k, row). (the (cid_parse J k), row)" and ?f = "\<lambda>(c, row). br_rev row"
  let ?s = "\<lambda>(c, row). case since of None \<Rightarrow> True | Some t \<Rightarrow> br_rev row > tid_str t"
  have "filter (\<lambda>x. after_mark J x p) (block_rows J since A)
      = rev (sort_key ?f (filter (\<lambda>x. after_mark J x p) (filter ?s (map ?g (repo_block A)))))"
    by (simp add: block_rows_def typed_rows_def rev_filter [symmetric] filter_sort_key)
  also have "filter (\<lambda>x. after_mark J x p) (filter ?s (map ?g (repo_block A)))
      = map ?g (filter (\<lambda>(c, row). (case since of None \<Rightarrow> True | Some t \<Rightarrow> br_rev row > tid_str t)
       \<and> (case p of None \<Rightarrow> True | Some m \<Rightarrow> br_rev row < mk_rev m \<or> br_rev row = mk_rev m \<and> c < cid_to_string J (mk_cid m))) (repo_block A))"
    unfolding filter_map filter_filter comp_def
    by (rule arg_cong [where f = "map ?g"], rule filter_cong [OF refl])
       (use typed_text [OF assms] in \<open>auto simp: after_mark_def split: option.splits\<close>)
  also have "sort_key ?f (map ?g xs) = map ?g (sort_key ?f xs)" for xs :: "(string \<times> block_row) list"
    unfolding sort_key_map by (rule arg_cong [where f = "map ?g"], rule arg_cong [where f = "\<lambda>f. sort_key f xs"]) auto
  finally show ?thesis by (simp add: block_page_def blocks_page_def rev_map take_map)
qed

lemma insort_key_strict:
  fixes f :: "'a \<Rightarrow> 'b::linorder" and k :: "'a \<Rightarrow> 'd::linorder"
  assumes "sorted_wrt (\<lambda>a b. f a < f b \<or> f a = f b \<and> k a < k b) ys" "\<forall>y \<in> set ys. k x < k y"
  shows "sorted_wrt (\<lambda>a b. f a < f b \<or> f a = f b \<and> k a < k b) (insort_key f x ys)"
  using assms by (induction ys) (auto simp: set_insort_key dest: order.strict_trans order.strict_trans1)

lemma sort_key_strict:
  fixes f :: "'a \<Rightarrow> 'b::linorder" and k :: "'a \<Rightarrow> 'd::linorder"
  assumes "sorted_wrt (\<lambda>a b. k a < k b) xs"
  shows "sorted_wrt (\<lambda>a b. f a < f b \<or> f a = f b \<and> k a < k b) (sort_key f xs)"
  using assms by (induction xs) (auto intro!: insort_key_strict)

lemma strict_split:
  assumes "sorted_wrt R (xs @ y # ys)" "\<And>x. \<not> R x x" "\<And>x y. R x y \<Longrightarrow> \<not> R y x" "z \<in> set (xs @ y # ys)"
  shows "R y z \<longleftrightarrow> z \<in> set ys"
  using assms by (auto simp: sorted_wrt_append)

lemma strict_distinct: "sorted_wrt R xs \<Longrightarrow> (\<And>x. \<not> R x x) \<Longrightarrow> distinct xs"
  by (induction xs) auto

lemma block_rows_strict:
  assumes "typed_ok J A"
  shows "sorted_wrt (\<lambda>y z. after_mark J z (mark_of y)) (block_rows J since A)"
proof -
  have "sorted_wrt (\<lambda>a b. fst a < fst b) (repo_block A)"
    using assms by (simp add: typed_ok_def sorted_wrt_map)
  then have "sorted_wrt (\<lambda>a b. cid_to_string J (fst a) < cid_to_string J (fst b)) (typed_rows J A)"
    unfolding typed_rows_def sorted_wrt_map by (rule sorted_wrt_mono_rel [rotated]) (auto simp: typed_text [OF assms])
  then have "sorted_wrt (\<lambda>a b. cid_to_string J (fst a) < cid_to_string J (fst b))
      (filter (\<lambda>(c, row). case since of None \<Rightarrow> True | Some t \<Rightarrow> br_rev row > tid_str t) (typed_rows J A))"
    by (rule sorted_wrt_filter)
  from sort_key_strict [OF this, of "\<lambda>(c, row). br_rev row"] show ?thesis
    unfolding block_rows_def sorted_wrt_rev by (rule sorted_wrt_mono_rel [rotated]) (auto simp: after_mark_def mark_of_def)
qed

interpretation bp: pages "block_rows J since (blocks_checked J A)" "after_mark J" mark_of "block_page J since (blocks_checked J A)" for J since A
proof unfold_locales
  have ok: "typed_ok J (blocks_checked J A) \<or> block_rows J since (blocks_checked J A) = [] \<and> repo_block (blocks_checked J A) = []"
    by (simp add: blocks_checked_def block_rows_def typed_rows_def)
  let ?rows = "block_rows J since (blocks_checked J A)"
  have so: "sorted_wrt (\<lambda>y z. after_mark J z (mark_of y)) ?rows" using ok block_rows_strict by auto
  show "block_page J since (blocks_checked J A) p n = take n (filter (\<lambda>x. after_mark J x p) ?rows)" for p n
    using ok block_page_eq by (auto simp: block_page_def blocks_page_def)
  have irr: "\<not> after_mark J x (mark_of x)" for x by (auto simp: after_mark_def mark_of_def)
  have asym: "after_mark J x (mark_of y) \<Longrightarrow> \<not> after_mark J y (mark_of x)" for x y by (auto simp: after_mark_def mark_of_def)
  show "after_mark J z (mark_of y) \<longleftrightarrow> z \<in> set ys" if "?rows = xs @ y # ys" "z \<in> set ?rows" for xs y ys z
    using so irr asym that(2) unfolding that(1) by (rule strict_split)
  show "after_mark J x p \<Longrightarrow> after_mark J y (mark_of x) \<Longrightarrow> after_mark J y p" for x y p
    by (auto simp: after_mark_def mark_of_def split: option.splits)
  show "distinct ?rows" using so irr by (rule strict_distinct)
qed

lemma mapE_all: "(\<And>x. x \<in> set xs \<Longrightarrow> f x = Inr (g x)) \<Longrightarrow> mapE f xs = Inr (map g xs)"
  by (induction xs) auto

lemma blocks_page_subset: "set (blocks_page J since p n A) \<subseteq> set (repo_block A)"
  unfolding blocks_page_def by (auto dest!: in_set_takeD)

lemma blocks_since_eq:
  fixes J :: "('c, 'j) json_lib_scheme"
  assumes "typed_ok J A"
  shows "blocks_since J since p n A =
    Inr \<lparr>pg_blocks = map (\<lambda>(c, row). (c, br_content row)) (block_page J since A p n),
         pg_next = (if block_page J since A p n \<noteq> [] \<and> length (block_page J since A p n) = n then mark_of (last (block_page J since A p n)) else None)\<rparr>"
proof -
  have "mapE (\<lambda>(c, row). bindE (ok_or (Malformed ''a stored block that is not a CID'') (cid_parse J c)) (\<lambda>x. Inr (x, row)))
      (blocks_page J since p n A) = (Inr (block_page J since A p n) :: 'c store_error + ('c \<times> block_row) list)"
    unfolding block_page_def
  proof (rule mapE_all)
    fix x assume "x \<in> set (blocks_page J since p n A)"
    then have "x \<in> set (repo_block A)" using blocks_page_subset [of J since p n A] by blast
    moreover obtain k row where "x = (k, row)" by fastforce
    ultimately obtain c where "x = (k, row)" "k = cid_to_string J c" using assms unfolding typed_ok_def by fastforce
    then show "(case x of (c, row) \<Rightarrow> bindE (ok_or (Malformed ''a stored block that is not a CID'') (cid_parse J c)) (\<lambda>x. Inr (x, row)))
        = Inr (case x of (k, row) \<Rightarrow> (the (cid_parse J k), row))"
      using assms by (simp add: typed_ok_def cid_text_ok_def)
  qed
  then show ?thesis by (simp add: blocks_since_def Let_def mark_of_def block_page_def)
qed

lemma export_loop_pieces:
  assumes t: "typed_ok J A"
  shows "\<exists>pieces. export_loop E J since A p piece = Some (pieces, None)
    \<and> concat pieces = piece @ concat (map (\<lambda>(c, row). chunk_of E (c, br_content row)) (filter (\<lambda>x. after_mark J x p) (block_rows J since A)))"
proof (induction "length (filter (\<lambda>x. after_mark J x p) (block_rows J since A))" arbitrary: p piece rule: less_induct)
  case less
  let ?rest = "\<lambda>p. filter (\<lambda>x. after_mark J x p) (block_rows J since A)" and ?page = "block_page J since A p EXPORT_PAGE"
  let ?chunks = "\<lambda>rows. concat (map (\<lambda>(c, row). chunk_of E (c, br_content row)) rows)"
  have ck: "blocks_checked J A = A" using t by (simp add: blocks_checked_def)
  have pg: "?page = take EXPORT_PAGE (?rest p)" by (rule block_page_eq [OF t])
  have fold: "fold (\<lambda>(c, b) car. car_push E car c b) (map (\<lambda>(c, row). (c, br_content row)) ?page) piece = piece @ ?chunks ?page"
    unfolding fold_push by (simp add: split_def comp_def)
  show ?case
  proof (cases "?page \<noteq> [] \<and> length ?page = EXPORT_PAGE")
    case False
    then have "?page = ?rest p" unfolding pg by (auto simp: EXPORT_PAGE_def)
    moreover have "blocks_since J since p EXPORT_PAGE A = Inr \<lparr>pg_blocks = map (\<lambda>(c, row). (c, br_content row)) ?page, pg_next = None\<rparr>"
      using False by (simp only: blocks_since_eq [OF t] if_False)
    then have "export_loop E J since A p piece = Some ([piece @ ?chunks ?page], None)"
      using fold by (subst export_loop.simps) simp
    ultimately show ?thesis by simp
  next
    case True
    then have sp: "?rest p = butlast ?page @ last ?page # drop EXPORT_PAGE (?rest p)"
      using append_take_drop_id [of EXPORT_PAGE "?rest p"] pg by (metis append_butlast_last_id append.assoc append_Cons append_Nil)
    have nx: "?rest (mark_of (last ?page)) = drop EXPORT_PAGE (?rest p)" using bp.after_last [of J p since A, unfolded ck, OF sp] .
    then have "length (?rest (mark_of (last ?page))) < length (?rest p)" using True pg by (simp add: EXPORT_PAGE_def)
    from less [OF this, of "[]"] obtain pieces where ps: "export_loop E J since A (mark_of (last ?page)) [] = Some (pieces, None)"
      "concat pieces = ?chunks (drop EXPORT_PAGE (?rest p))" unfolding nx by auto
    obtain m where m: "mark_of (last ?page) = Some m" by (simp add: mark_of_def)
    have "export_loop E J since A p piece = Some ((piece @ ?chunks ?page) # pieces, None)"
      using True fold ps(1) m by (subst export_loop.simps) (simp add: blocks_since_eq [OF t] Let_def)
    moreover have "?chunks (?rest p) = ?chunks ?page @ ?chunks (drop EXPORT_PAGE (?rest p))"
      using append_take_drop_id [of EXPORT_PAGE "?rest p"] pg by (metis concat_append map_append)
    ultimately show ?thesis using ps(2) by simp
  qed
qed


section \<open>A download reads back\<close>

definition exported :: "('c, 'j) json_lib_scheme \<Rightarrow> actor \<Rightarrow> ('c \<times> bytes) list" where
  "exported J A = map (\<lambda>(c, row). (c, br_content row)) (block_rows J None A)"

lemma exported_iff:
  assumes "typed_ok J A"
  shows "(c, b) \<in> set (exported J A) \<longleftrightarrow> actor_blocks J A c = Some b"
proof -
  have J: "cid_text_ok J" and asc: "distinct (map fst (repo_block A))"
    using assms unfolding typed_ok_def by (simp_all add: strict_sorted_iff)
  have "(c, b) \<in> set (exported J A) \<longleftrightarrow> (\<exists>k row. (k, row) \<in> set (repo_block A) \<and> the (cid_parse J k) = c \<and> br_content row = b)"
    unfolding exported_def block_rows_def typed_rows_def by force
  also have "\<dots> \<longleftrightarrow> (\<exists>row. (cid_to_string J c, row) \<in> set (repo_block A) \<and> br_content row = b)"
    using typed_text [OF assms] J unfolding cid_text_ok_def by (metis option.sel)
  also have "\<dots> \<longleftrightarrow> actor_blocks J A c = Some b"
    using asc by (auto simp: actor_blocks_def)
  finally show ?thesis .
qed

lemma map_of_bm_merge_rev: "map_of (bm_merge m bs) = map_of m ++ map_of (List.rev bs)"
  by (induction bs arbitrary: m) (auto simp: map_add_def fun_eq_iff split: option.splits)

lemma map_of_exported:
  assumes "typed_ok J A"
  shows "map_of (bm_merge [] (exported J A)) = actor_blocks J A"
proof
  fix c
  note iff = exported_iff [OF assms, of c]
  show "map_of (bm_merge [] (exported J A)) c = actor_blocks J A c"
  proof (cases "map_of (bm_merge [] (exported J A)) c")
    case None
    then have "c \<notin> fst ` set (exported J A)" by (simp add: map_of_bm_merge_rev map_of_eq_None_iff)
    then have "actor_blocks J A c \<noteq> Some b" for b using iff [of b] by (metis fst_conv imageI)
    then show ?thesis using None by (cases "actor_blocks J A c") auto
  next
    case (Some b)
    then have "(c, b) \<in> set (exported J A)" by (auto simp: map_of_bm_merge_rev dest: map_of_SomeD)
    then show ?thesis using iff [of b] Some by simp
  qed
qed

text \<open>C37: the download of a whole repository ends without an error, however many pages it takes, and its pieces
  put together are a file that reads back as the stored root and exactly the stored blocks.\<close>

theorem export_reads_back:
  assumes "car_ok E" "typed_ok J A" "map_of (sv_actors S) (did_str did) = Some A" "actor_root J A = Inr (Some root)"
    and "addressed E (actor_blocks J A)" "actor_blocks J A (rt_cid root) \<noteq> None"
    and "\<forall>c b. actor_blocks J A c = Some b \<longrightarrow> length (cid_to_bytes E c) + length b < 2 ^ 64" "header_fits E [rt_cid root]"
  shows "\<exists>pieces blocks. export E J did None S = Some (Inr (pieces, None))
    \<and> car_read E (concat pieces) = Some (Inr (rt_cid root, blocks)) \<and> map_of blocks = actor_blocks J A"
proof -
  let ?bs = "exported J A"
  obtain h where h: "header_to_vec E \<lparr>ch_version = 1, ch_roots = [rt_cid root]\<rparr> = Inr h"
      "header_from_slice E h = Inr \<lparr>ch_version = 1, ch_roots = [rt_cid root]\<rparr>" "length h < 2 ^ 64"
    using car_okD(5) [OF assms(1), of "\<lparr>ch_version = 1, ch_roots = [rt_cid root]\<rparr>"] assms(8) by (auto simp: header_fits_def)
  have "hashes_to E c b" if "actor_blocks J A c = Some b" for c b
    using assms(5) that car_okD(4) [OF assms(1), of b] by (simp add: addressed_def)
  then have ok: "fits E ?bs" "\<forall>(c, b) \<in> set ?bs. hashes_to E c b"
    using assms(7) exported_iff [OF assms(2)] by (auto simp: fits_def)
  obtain pieces where ps: "export_loop E J None A None (varint_encode E (length h) @ h) = Some (pieces, None)"
      "concat pieces = varint_encode E (length h) @ h @ concat (map (chunk_of E) ?bs)"
    using export_loop_pieces [OF assms(2), of E None None "varint_encode E (length h) @ h"]
    by (auto simp: after_mark_def exported_def comp_def split_def)
  have "export E J did None S = Some (Inr (pieces, None))"
    using assms(3,4) h(1) ps(1) by (simp add: export_def opened_def rooted_def car_header_def encode_def)
  moreover have "read_roots E (concat pieces) = Some (Inr ([rt_cid root], bm_merge [] ?bs))"
    using take_chunk_encoded [OF assms(1) h(3), of "concat (map (chunk_of E) ?bs)"] h(2) read_loop_encoded [OF assms(1) ok, of "[]"] ps(2)
    by (simp add: read_roots_def decode_def)
  ultimately show ?thesis
    using map_of_exported [OF assms(2)] assms(6) by (auto simp: car_read_Inr intro!: exI [of _ pieces] exI [of _ "bm_merge [] ?bs"])
qed


section \<open>Examples\<close>

definition toy_files :: "string event_lib" where
  "toy_files = car_lib.extend toy_car (event_lib.fields (\<lambda>_. Inl []) (\<lambda>_. Inl []) (\<lambda>_. Inl []) (\<lambda>_. Inl []))"

definition toy_held :: actor where
  "toy_held = (actor_new toy_did)\<lparr>repo_root := [(''did:plc:a'', \<lparr>ro_cid = toy_root, ro_rev = ''3jzfcijpj2z2a'', ro_at = []\<rparr>)],
     repo_block := [(toy_root, \<lparr>br_rev = ''3jzfcijpj2z2a'', br_size = 1, br_content = ''b''\<rparr>)]\<rparr>"

lemma toy_files_ok: "car_ok toy_files"
  using toy_car_ok by (simp add: car_ok_def toy_files_def car_lib.defs event_lib.defs)

lemma toy_held_blocks: "actor_blocks toy_actor_lib toy_held = [toy_root \<mapsto> ''b'']"
  by (auto simp: fun_eq_iff actor_blocks_def toy_actor_lib_def toy_held_def actor_new_def)

lemma toy_held_root: "actor_root toy_actor_lib toy_held = Inr (Some \<lparr>rt_cid = toy_root, rt_rev = Tid ''3jzfcijpj2z2a''\<rparr>)"
proof -
  have "tid_from_str ''3jzfcijpj2z2a'' = Inr (Tid ''3jzfcijpj2z2a'')" by code_simp
  then show ?thesis by (simp add: actor_root_def toy_actor_lib_def toy_held_def actor_new_def toy_did_def)
qed

lemma toy_held_typed: "typed_ok toy_actor_lib toy_held"
  using toy_text by (simp add: typed_ok_def toy_held_def toy_actor_lib_def)

lemma toy_held_ok:
  "addressed toy_files (actor_blocks toy_actor_lib toy_held)"
  "\<forall>c b. actor_blocks toy_actor_lib toy_held c = Some b \<longrightarrow> length (cid_to_bytes toy_files c) + length b < 2 ^ 64"
  "header_fits toy_files [toy_root]"
  using toy_blocks_ok
  by (simp_all add: toy_held_blocks addressed_def fits_def header_fits_def toy_files_def car_lib.defs event_lib.defs cid_for_def)

lemma export_reads_back_witness:
  "\<exists>pieces blocks. export toy_files toy_actor_lib toy_did None (toy_server\<lparr>sv_actors := [(''did:plc:a'', toy_held)]\<rparr>) = Some (Inr (pieces, None))
    \<and> car_read toy_files (concat pieces) = Some (Inr (toy_root, blocks)) \<and> map_of blocks = [toy_root \<mapsto> ''b'']"
  using export_reads_back [OF toy_files_ok toy_held_typed _ toy_held_root toy_held_ok(1) _ toy_held_ok(2),
    of "toy_server\<lparr>sv_actors := [(''did:plc:a'', toy_held)]\<rparr>" toy_did] toy_held_ok(3)
  by (simp add: toy_held_blocks toy_did_def)

end
