(* ===== verification/Server.thy ===== *)
theory Server
  imports Reads
begin

text \<open>
  The methods on records, \<open>src/server/repo.rs\<close>, with the parsing they share, \<open>src/server/parse.rs\<close>, and what a
  caller is told of an error, \<open>src/server.rs\<close>. A method takes what the extractors of \<open>src/xrpc/\<close> hand it: the
  session, and its input after \<open>serde\<close>. The budgets and the service are its state.
\<close>

section \<open>What an error says\<close>

text \<open>What an error of the operating system says, the CID that \<open>default\<close> gives and the reading of DAG-CBOR.\<close>

record 'c server_lib =
  io_text :: "io_error \<Rightarrow> string"
  cid_default :: 'c
  ipld_from_slice :: "bytes \<Rightarrow> string + 'c ipld"
  milli_ok :: "int \<Rightarrow> bool"

fun crypto_error_text :: "crypto_error \<Rightarrow> string" where
  "crypto_error_text NotDidKey = ''not a did:key''"
| "crypto_error_text UnsupportedKey = ''not a key on an allowed curve''"
| "crypto_error_text MalformedKey = ''malformed key''"
| "crypto_error_text MalformedSignature = ''signature is not 64 bytes''"
| "crypto_error_text HighS = ''signature does not use the low half of the curve''"
| "crypto_error_text BadSignature = ''signature does not verify''"

fun repo_error_text :: "('c, 'j) json_lib_scheme \<Rightarrow> 'c repo_error \<Rightarrow> string" where
  "repo_error_text J (MissingBlock c) = ''no block for '' @ cid_to_string J c"
| "repo_error_text J (Encode s) = ''will not encode as dag-cbor: '' @ s"
| "repo_error_text J (Decode s) = ''not the dag-cbor expected: '' @ s"
| "repo_error_text J (InvalidKey k) = ''not a valid tree key: '' @ k"
| "repo_error_text J (KeyExists k) = ''already a record at '' @ k"
| "repo_error_text J (KeyMissing k) = ''no record at '' @ k"
| "repo_error_text J (MalformedNode s) = ''malformed node: '' @ s"
| "repo_error_text J (WrongVersion v) = ''commit is version '' @ decimal v @ '', not 3''"
| "repo_error_text J (SignatureError e) = ''commit signature: '' @ crypto_error_text e"
| "repo_error_text J (MalformedCar s) = ''malformed CAR: '' @ s"
| "repo_error_text J (WrongCid c) = cid_to_string J c @ '' is not the CID of the bytes under it''"
| "repo_error_text J (StoreFailed s) = ''store: '' @ s"
| "repo_error_text J StoreBusy = ''store is busy''"
| "repo_error_text J (NotRecordData s) = ''not record data: '' @ s"
| "repo_error_text J (NoRevisionAfter t) = ''no revision follows '' @ tid_str t"

fun store_error_text :: "'c server_lib \<Rightarrow> ('c, 'j) json_lib_scheme \<Rightarrow> 'c store_error \<Rightarrow> string" where
  "store_error_text V J (Sqlite s) = ''sqlite: '' @ s"
| "store_error_text V J (Io e) = io_text V e"
| "store_error_text V J (Malformed s) = s"
| "store_error_text V J (TooNew s) = ''schema is at '' @ s @ '', which is newer than this server''"
| "store_error_text V J InviteUnavailable = ''invite code is not available''"
| "store_error_text V J HandleTaken = ''handle is already taken''"
| "store_error_text V J EmailTaken = ''email is already taken''"
| "store_error_text V J AppPasswordTaken = ''app password name is already taken''"
| "store_error_text V J (BlobMissing c) = ''Could not find blob: '' @ cid_to_string J c"
| "store_error_text V J (BlobMismatch a b c) = ''Referenced '' @ a @ '' does not match stored blob. Expected: '' @ b @ '', Got: '' @ c"
| "store_error_text V J (StoredWrongCid c) = cid_to_string J c @ '' is not the CID of the bytes under it''"
| "store_error_text V J (KeyFile e) = ''signing key: '' @ crypto_error_text e"

fun invalid_text :: "invalid \<Rightarrow> string" where
  "invalid_text (InvalidHandle s) = s"
| "invalid_text Reserved_Handle = ''Reserved handle''"
| "invalid_text Unsupported = ''Not a supported handle domain''"

fun account_error_text :: "'c server_lib \<Rightarrow> ('c, 'j) json_lib_scheme \<Rightarrow> 'c account_error \<Rightarrow> string" where
  "account_error_text V J BadCredentials = ''Invalid identifier or password''"
| "account_error_text V J (BadHandle i) = invalid_text i"
| "account_error_text V J BadEmail = ''This email address is not supported, please use a different email.''"
| "account_error_text V J PasswordTooLong = ''Password too long. Maximum length is '' @ decimal PASSWORD @ '' characters.''"
| "account_error_text V J (Taken what) = what @ '' already taken''"
| "account_error_text V J InviteRequired = ''No invite code provided''"
| "account_error_text V J BadInvite = ''This invite code is not available''"
| "account_error_text V J TooManyInvites = ''Cannot create more than '' @ decimal INVITES @ '' invite codes at once''"
| "account_error_text V J (PlcError e) = plc_error_text e"
| "account_error_text V J (NoRepo did) = ''Could not find repo for '' @ did_str did"
| "account_error_text V J (NoBlocks s) = ''Could not find cids: '' @ s"
| "account_error_text V J (Swap c) = ''Commit was at '' @ cid_to_string J c"
| "account_error_text V J (SwapRecord s) = ''Record was at '' @ s"
| "account_error_text V J Contended = ''Repository is being written to too quickly''"
| "account_error_text V J (BlobError e) = store_error_text V J e"
| "account_error_text V J (RepoError e) = repo_error_text J e"
| "account_error_text V J (StorageError e) = store_error_text V J e"

definition of_account_error :: "'c server_lib \<Rightarrow> ('c, 'j) json_lib_scheme \<Rightarrow> 'c account_error \<Rightarrow> xrpc_error" where
  "of_account_error V J e =
     (if account_sent e then invalid_request (account_error_text V J e)
      else if account_busy e then saying (account_error_text V J e) (xrpc_new NotEnoughResources)
      else
        (case e of
           BadCredentials \<Rightarrow> saying (account_error_text V J e) (named (account_error_name e) (xrpc_new AuthenticationRequired))
         | PlcError _ \<Rightarrow> xrpc_internal (account_error_text V J e)
         | RepoError _ \<Rightarrow> xrpc_internal (account_error_text V J e)
         | StorageError _ \<Rightarrow> xrpc_internal (account_error_text V J e)
         | _ \<Rightarrow> saying (account_error_text V J e) (named (account_error_name e) (xrpc_new InvalidRequest))))"


section \<open>What a caller sends\<close>

definition parse_did :: "string \<Rightarrow> xrpc_error + did" where
  "parse_did s = map_err (\<lambda>_. invalid_request ''Invalid did'') (did_from_str s)"

definition parse_cid :: "('c, 'j) json_lib_scheme \<Rightarrow> string \<Rightarrow> xrpc_error + 'c" where
  "parse_cid J s = ok_or (invalid_request ''Invalid cid'') (cid_parse J s)"

definition parse_collection :: "string \<Rightarrow> xrpc_error + nsid" where
  "parse_collection s = map_err (\<lambda>_. invalid_request ''Invalid collection'') (nsid_from_str s)"

definition parse_record_key :: "string \<Rightarrow> xrpc_error + record_key" where
  "parse_record_key s = map_err (\<lambda>_. invalid_request ''Invalid record key'') (record_key_from_str s)"

definition parse_since :: "string \<Rightarrow> xrpc_error + tid" where
  "parse_since s = map_err (\<lambda>_. invalid_request ''Invalid since'') (tid_from_str s)"

text \<open>An \<open>Option\<close> of something fallible, turned around by \<open>transpose\<close>.\<close>

definition transposed :: "('a \<Rightarrow> 'e + 'b) \<Rightarrow> 'a option \<Rightarrow> 'e + 'b option" where
  "transposed f x = (case x of None \<Rightarrow> Inr None | Some a \<Rightarrow> bindE (f a) (\<lambda>b. Inr (Some b)))"

datatype swap = SwapBlock string | SwapNothing | Unasked

record creating =
  cg_repo :: string
  cg_collection :: string
  cg_rkey :: "string option"
  cg_record :: json
  cg_swap_commit :: "string option"
  cg_validate :: "bool option"

record putting =
  pu_repo :: string
  pu_collection :: string
  pu_rkey :: string
  pu_record :: json
  pu_swap_record :: swap
  pu_swap_commit :: "string option"

record deleting =
  de_repo :: string
  de_collection :: string
  de_rkey :: string
  de_swap_record :: swap
  de_swap_commit :: "string option"

datatype asked =
    AskCreate string "string option" json
  | AskUpdate string string json
  | AskDelete string string

record applying =
  ay_repo :: string
  ay_writes :: "asked list"
  ay_swap_commit :: "string option"

record at_commit =
  at_cid :: string
  at_rev :: string

record landed_answer =
  la_uri :: string
  la_cid :: string
  la_commit :: at_commit

datatype outcome = CreateResult string string | UpdateResult string string | DeleteResult

record applied_answer =
  aa_commit :: "at_commit option"
  aa_results :: "outcome list"

definition RECORDS_PAGE :: nat where "RECORDS_PAGE = 50"
definition LONGEST_RECORDS_PAGE :: nat where "LONGEST_RECORDS_PAGE = 100"
definition MAX_WRITES :: nat where "MAX_WRITES = 200"


section \<open>What the methods share\<close>

definition found_account :: "'c server_lib \<Rightarrow> ('c, 'j) json_lib_scheme \<Rightarrow> string \<Rightarrow> 'w server \<Rightarrow> xrpc_error + account" where
  "found_account V J repo S =
     bindE (map_err (\<lambda>_. invalid_request ''Invalid repo'') (at_identifier_from_str repo)) (\<lambda>i.
     bindE (map_err (of_account_error V J) (lookup i S)) (\<lambda>a.
     ok_or (named ''RepoNotFound'' (invalid_request (''Could not find repo: '' @ repo))) a))"

definition repository :: "'c server_lib \<Rightarrow> ('c, 'j) json_lib_scheme \<Rightarrow> string \<Rightarrow> 'w server \<Rightarrow> xrpc_error + did" where
  "repository V J repo S = bindE (found_account V J repo S) (\<lambda>a. Inr (acc_did a))"

definition owned :: "'c server_lib \<Rightarrow> ('c, 'j) json_lib_scheme \<Rightarrow> access \<Rightarrow> string \<Rightarrow> 'w server \<Rightarrow> xrpc_error + did" where
  "owned V J acs repo S =
     bindE (repository V J repo S) (\<lambda>did.
     if did \<noteq> at_did acs then Inl (saying ''Not the repository this session reaches'' (xrpc_new Forbidden))
     else Inr did)"

definition spend :: "nat \<Rightarrow> did \<Rightarrow> nat \<Rightarrow> limits option \<Rightarrow> (xrpc_error + unit) \<times> limits option" where
  "spend now did points ls =
     (case ls of
        None \<Rightarrow> (Inr (), None)
      | Some l \<Rightarrow>
          (case writing now l (did_str did) points of
             (None, l) \<Rightarrow> (Inr (), Some l)
           | (Some r, l) \<Rightarrow> (Inl (limited r (xrpc_new RateLimitExceeded)), Some l)))"

definition json_get :: "string \<Rightarrow> json \<Rightarrow> json option" where
  "json_get k v = (case v of JObject fs \<Rightarrow> map_of fs k | _ \<Rightarrow> None)"

definition json_str :: "json \<Rightarrow> string option" where
  "json_str v = (case v of JString s \<Rightarrow> Some s | _ \<Rightarrow> None)"

definition sent_record :: "('c, 'j) json_lib_scheme \<Rightarrow> nsid \<Rightarrow> json \<Rightarrow> xrpc_error + 'c ipld" where
  "sent_record J n v =
     bindE (case Option.bind (json_get ''$type'' v) json_str of
              Some s \<Rightarrow>
                if s = nsid_str n then Inr v
                else Inl (invalid_request (''Invalid $type: expected '' @ nsid_str n @ '', got '' @ s))
            | None \<Rightarrow>
                (case v of
                   JObject fs \<Rightarrow> Inr (JObject (al_upd ''$type'' (JString (nsid_str n)) fs))
                 | _ \<Rightarrow> Inl (invalid_request ''Invalid record: not an object''))) (\<lambda>v.
     map_err (\<lambda>e. invalid_request (''Invalid record: '' @ repo_error_text J e)) (from_json (json_lib.truncate J) v))"

definition swap_commit :: "('c, 'j) json_lib_scheme \<Rightarrow> string option \<Rightarrow> xrpc_error + 'c option" where
  "swap_commit J c = transposed (\<lambda>c. ok_or (named ''InvalidSwap'' (invalid_request ''Invalid swapCommit'')) (cid_parse J c)) c"

definition expected_swap :: "('c, 'j) json_lib_scheme \<Rightarrow> swap \<Rightarrow> xrpc_error + 'c expect" where
  "expected_swap J s =
     (case s of
        Unasked \<Rightarrow> Inr Anything
      | SwapNothing \<Rightarrow> Inr Nothing
      | SwapBlock c \<Rightarrow> bindE (ok_or (named ''InvalidSwap'' (invalid_request ''Invalid swapRecord'')) (cid_parse J c)) (\<lambda>c. Inr (ExpectBlock c)))"

definition at_written :: "('c, 'j) json_lib_scheme \<Rightarrow> 'c written \<Rightarrow> at_commit" where
  "at_written J w = \<lparr>at_cid = cid_to_string J (wr_commit w), at_rev = tid_str (wr_rev w)\<rparr>"

definition landed_one :: "'c server_lib \<Rightarrow> ('c, 'j) json_lib_scheme \<Rightarrow> 'c written option \<Rightarrow> xrpc_error + landed_answer" where
  "landed_one V J w =
     bindE (ok_or (xrpc_new InternalServerError) w) (\<lambda>w.
     case wr_results w of
       [] \<Rightarrow> Inl (xrpc_new InternalServerError)
     | one # _ \<Rightarrow>
         Inr \<lparr>la_uri = ad_uri one, la_cid = cid_to_string J (case ad_cid one of None \<Rightarrow> cid_default V | Some c \<Rightarrow> c),
              la_commit = at_written J w\<rparr>)"


section \<open>Writing\<close>

text \<open>The clock of the budgets, the readings record keys are minted by, and what a set of writes draws.\<close>

record asking =
  aq_now :: nat
  aq_micros :: "nat \<Rightarrow> nat option"
  aq_draws :: writing_draws

record 'w serving =
  rn_limits :: "limits option"
  rn_server :: "'w server"

definition spending ::
    "asking \<Rightarrow> did \<Rightarrow> nat \<Rightarrow> 'w serving \<Rightarrow> (xrpc_error + unit) \<times> 'w serving" where
  "spending Q did points R =
     (case spend (aq_now Q) did points (rn_limits R) of (r, ls) \<Rightarrow> (r, R\<lparr>rn_limits := ls\<rparr>))"

definition key_or_fresh :: "nat option \<Rightarrow> string option \<Rightarrow> 'w server \<Rightarrow> (xrpc_error + record_key) \<times> 'w server" where
  "key_or_fresh micros asked S =
     (case asked of
        Some k \<Rightarrow> (parse_record_key k, S)
      | None \<Rightarrow> (case fresh_record_key micros S of (k, S) \<Rightarrow> (Inr k, S)))"

definition writing_out ::
    "'c server_lib \<Rightarrow> ('c::linorder, 'sk, 'vk, 'sg, json, 'w, 'l, 'e, 'j) manager \<Rightarrow> asking \<Rightarrow> did \<Rightarrow> 'c requested list \<Rightarrow> string option
      \<Rightarrow> 'w serving \<Rightarrow> ((xrpc_error + 'c written option) \<times> 'w serving) option" where
  "writing_out V M Q did requested sw R =
     (case swap_commit (mg_texts M) sw of
        Inl e \<Rightarrow> Some (Inl e, R)
      | Inr c \<Rightarrow>
          map_option (\<lambda>(r, S). (map_err (of_account_error V (mg_texts M)) r, R\<lparr>rn_server := S\<rparr>))
            (write_records M (aq_draws Q) did requested c (rn_server R)))"

definition create_record ::
    "'c server_lib \<Rightarrow> ('c::linorder, 'sk, 'vk, 'sg, json, 'w, 'l, 'e, 'j) manager \<Rightarrow> asking \<Rightarrow> access \<Rightarrow> creating
      \<Rightarrow> 'w serving \<Rightarrow> ((xrpc_error + landed_answer) \<times> 'w serving) option" where
  "create_record V M Q acs input R =
     (case owned V (mg_texts M) acs (cg_repo input) (rn_server R) of
        Inl e \<Rightarrow> Some (Inl e, R)
      | Inr did \<Rightarrow>
          (case spending Q did CREATE_COST R of
             (Inl e, R) \<Rightarrow> Some (Inl e, R)
           | (Inr _, R) \<Rightarrow>
               (case parse_collection (cg_collection input) of
                  Inl e \<Rightarrow> Some (Inl e, R)
                | Inr n \<Rightarrow>
                    (case key_or_fresh (aq_micros Q 0) (cg_rkey input) (rn_server R) of
                       (Inl e, S) \<Rightarrow> Some (Inl e, R\<lparr>rn_server := S\<rparr>)
                     | (Inr k, S) \<Rightarrow>
                         (case sent_record (mg_texts M) n (cg_record input) of
                            Inl e \<Rightarrow> Some (Inl e, R\<lparr>rn_server := S\<rparr>)
                          | Inr rec \<Rightarrow>
                              map_option (\<lambda>(r, R). (bindE r (landed_one V (mg_texts M)), R))
                                (writing_out V M Q did
                                  [(requested_of (Create n k rec))\<lparr>rq_conflicts :=
                                     (if cg_validate input = Some False then Ignore else Supersede)\<rparr>]
                                  (cg_swap_commit input) (R\<lparr>rn_server := S\<rparr>)))))))"

definition put_asked ::
    "'c server_lib \<Rightarrow> ('c::linorder, 'sk, 'vk, 'sg, json, 'w, 'l, 'e, 'j) manager \<Rightarrow> asking \<Rightarrow> access \<Rightarrow> putting
      \<Rightarrow> 'w serving \<Rightarrow> ((xrpc_error + landed_answer) \<times> 'w serving) option" where
  "put_asked V M Q acs input R =
     (case owned V (mg_texts M) acs (pu_repo input) (rn_server R) of
        Inl e \<Rightarrow> Some (Inl e, R)
      | Inr did \<Rightarrow>
          (case spending Q did PUT_COST R of
             (Inl e, R) \<Rightarrow> Some (Inl e, R)
           | (Inr _, R) \<Rightarrow>
               (case bindE (parse_collection (pu_collection input)) (\<lambda>n.
                     bindE (parse_record_key (pu_rkey input)) (\<lambda>k.
                     bindE (sent_record (mg_texts M) n (pu_record input)) (\<lambda>rec.
                     bindE (expected_swap (mg_texts M) (pu_swap_record input)) (\<lambda>ex.
                     Inr \<lparr>rq_write = Put n k rec, rq_expect = ex, rq_missing = Refuse, rq_conflicts = Ignore\<rparr>)))) of
                  Inl e \<Rightarrow> Some (Inl e, R)
                | Inr rq \<Rightarrow>
                    map_option (\<lambda>(r, R). (bindE r (landed_one V (mg_texts M)), R))
                      (writing_out V M Q did [rq] (pu_swap_commit input) R))))"

definition delete_record ::
    "'c server_lib \<Rightarrow> ('c::linorder, 'sk, 'vk, 'sg, json, 'w, 'l, 'e, 'j) manager \<Rightarrow> asking \<Rightarrow> access \<Rightarrow> deleting
      \<Rightarrow> 'w serving \<Rightarrow> ((xrpc_error + at_commit option) \<times> 'w serving) option" where
  "delete_record V M Q acs input R =
     (case owned V (mg_texts M) acs (de_repo input) (rn_server R) of
        Inl e \<Rightarrow> Some (Inl e, R)
      | Inr did \<Rightarrow>
          (case spending Q did DELETE_COST R of
             (Inl e, R) \<Rightarrow> Some (Inl e, R)
           | (Inr _, R) \<Rightarrow>
               (case bindE (parse_collection (de_collection input)) (\<lambda>n.
                     bindE (parse_record_key (de_rkey input)) (\<lambda>k.
                     bindE (case de_swap_record input of SwapNothing \<Rightarrow> Inr Anything | s \<Rightarrow> expected_swap (mg_texts M) s) (\<lambda>ex.
                     Inr \<lparr>rq_write = Delete n k, rq_expect = ex, rq_missing = Skip, rq_conflicts = Ignore\<rparr>))) of
                  Inl e \<Rightarrow> Some (Inl e, R)
                | Inr rq \<Rightarrow>
                    map_option (\<lambda>(r, R). (bindE r (\<lambda>w. Inr (map_option (at_written (mg_texts M)) w)), R))
                      (writing_out V M Q did [rq] (de_swap_commit input) R))))"

fun asked_cost :: "asked \<Rightarrow> nat" where
  "asked_cost (AskCreate _ _ _) = CREATE_COST"
| "asked_cost (AskUpdate _ _ _) = PUT_COST"
| "asked_cost (AskDelete _ _) = DELETE_COST"

fun asked_write ::
    "('c, 'j) json_lib_scheme \<Rightarrow> nat option \<Rightarrow> asked \<Rightarrow> 'w server \<Rightarrow> (xrpc_error + 'c repo_write) \<times> 'w server" where
  "asked_write J micros (AskCreate c k v) S =
     (case parse_collection c of
        Inl e \<Rightarrow> (Inl e, S)
      | Inr n \<Rightarrow>
          (case key_or_fresh micros k S of
             (Inl e, S) \<Rightarrow> (Inl e, S)
           | (Inr k, S) \<Rightarrow> (bindE (sent_record J n v) (\<lambda>rec. Inr (Create n k rec)), S)))"
| "asked_write J micros (AskUpdate c k v) S =
     (bindE (parse_collection c) (\<lambda>n. bindE (parse_record_key k) (\<lambda>k. bindE (sent_record J n v) (\<lambda>rec. Inr (Update n k rec)))), S)"
| "asked_write J micros (AskDelete c k) S =
     (bindE (parse_collection c) (\<lambda>n. bindE (parse_record_key k) (\<lambda>k. Inr (Delete n k))), S)"

text \<open>A set of writes in order; \<open>i\<close> is the place of the first, by which record keys are minted.\<close>

fun asked_writes ::
    "('c, 'j) json_lib_scheme \<Rightarrow> (nat \<Rightarrow> nat option) \<Rightarrow> asked list \<Rightarrow> nat \<Rightarrow> 'w server \<Rightarrow> (xrpc_error + 'c requested list) \<times> 'w server" where
  "asked_writes J micros [] i S = (Inr [], S)"
| "asked_writes J micros (a # as) i S =
     (case asked_write J (micros i) a S of
        (Inl e, S) \<Rightarrow> (Inl e, S)
      | (Inr w, S) \<Rightarrow>
          (case asked_writes J micros as (i + 1) S of
             (Inl e, S) \<Rightarrow> (Inl e, S)
           | (Inr rest, S) \<Rightarrow> (Inr (requested_of w # rest), S)))"

fun kind_of_write :: "'c repo_write \<Rightarrow> string" where
  "kind_of_write (Delete _ _) = ''delete''"
| "kind_of_write (Update _ _ _) = ''update''"
| "kind_of_write _ = ''create''"

definition outcome_of :: "('c, 'j) json_lib_scheme \<Rightarrow> 'c applied \<Rightarrow> string \<Rightarrow> outcome" where
  "outcome_of J ad kind =
     (case ad_cid ad of
        None \<Rightarrow> DeleteResult
      | Some c \<Rightarrow> if kind = ''update'' then UpdateResult (ad_uri ad) (cid_to_string J c) else CreateResult (ad_uri ad) (cid_to_string J c))"

definition applied_all :: "('c, 'j) json_lib_scheme \<Rightarrow> string list \<Rightarrow> 'c written option \<Rightarrow> applied_answer" where
  "applied_all J kinds w =
     (case w of
        None \<Rightarrow> \<lparr>aa_commit = None, aa_results = []\<rparr>
      | Some w \<Rightarrow> \<lparr>aa_commit = Some (at_written J w), aa_results = map (\<lambda>(ad, kind). outcome_of J ad kind) (zip (wr_results w) kinds)\<rparr>)"

definition apply_asked ::
    "'c server_lib \<Rightarrow> ('c::linorder, 'sk, 'vk, 'sg, json, 'w, 'l, 'e, 'j) manager \<Rightarrow> asking \<Rightarrow> access \<Rightarrow> applying
      \<Rightarrow> 'w serving \<Rightarrow> ((xrpc_error + applied_answer) \<times> 'w serving) option" where
  "apply_asked V M Q acs input R =
     (case owned V (mg_texts M) acs (ay_repo input) (rn_server R) of
        Inl e \<Rightarrow> Some (Inl e, R)
      | Inr did \<Rightarrow>
          if length (ay_writes input) > MAX_WRITES
          then Some (Inl (invalid_request (''Too many writes. Max: '' @ decimal MAX_WRITES)), R)
          else
            (case spending Q did (sum_list (map asked_cost (ay_writes input))) R of
               (Inl e, R) \<Rightarrow> Some (Inl e, R)
             | (Inr _, R) \<Rightarrow>
                 (case asked_writes (mg_texts M) (aq_micros Q) (ay_writes input) 0 (rn_server R) of
                    (Inl e, S) \<Rightarrow> Some (Inl e, R\<lparr>rn_server := S\<rparr>)
                  | (Inr requested, S) \<Rightarrow>
                      map_option (\<lambda>(r, R). (bindE r (\<lambda>w. Inr (applied_all (mg_texts M) (map (kind_of_write \<circ> rq_write) requested) w)), R))
                        (writing_out V M Q did requested (ay_swap_commit input) (R\<lparr>rn_server := S\<rparr>)))))"


section \<open>Reading\<close>

record wanted_record =
  wn_repo :: string
  wn_collection :: string
  wn_rkey :: string
  wn_cid :: "string option"

record listing_records =
  ls_repo_name :: string
  ls_collection :: string
  ls_limit :: "nat option"
  ls_cursor :: "string option"
  ls_reverse :: bool

record shown_record =
  sh_uri :: string
  sh_cid :: string
  sh_value :: json

record records_answer =
  ra_cursor :: "string option"
  ra_records :: "shown_record list"

record description =
  ds_handle :: string
  ds_did :: string
  ds_did_doc :: json
  ds_collections :: "string list"
  ds_handle_is_correct :: bool

definition shown :: "'c server_lib \<Rightarrow> ('c, 'j) json_lib_scheme \<Rightarrow> 'c found_record \<Rightarrow> 'c account_error + shown_record" where
  "shown V J f =
     bindE (map_err RepoError (decode (ipld_from_slice V) (f_value f))) (\<lambda>v.
     bindE (map_err RepoError (to_json (json_lib.truncate J) v)) (\<lambda>v.
     Inr \<lparr>sh_uri = f_uri f, sh_cid = cid_to_string J (f_cid f), sh_value = v\<rparr>))"

definition key_of :: "string \<Rightarrow> string" where
  "key_of u = rev (takeWhile (\<lambda>c. c \<noteq> CHR ''/'') (rev u))"

definition get_record ::
    "'c server_lib \<Rightarrow> ('c::linorder, 'sk, 'vk, 'sg, json, 'w, 'l, 'e, 'j) manager \<Rightarrow> wanted_record \<Rightarrow> 'w server \<Rightarrow> xrpc_error + shown_record" where
  "get_record V M query S =
     bindE (repository V (mg_texts M) (wn_repo query) S) (\<lambda>did.
     bindE (parse_collection (wn_collection query)) (\<lambda>n.
     bindE (parse_record_key (wn_rkey query)) (\<lambda>k.
     bindE (map_err (of_account_error V (mg_texts M)) (stored_record (mg_texts M) did n k S)) (\<lambda>f.
     bindE (ok_or (named ''RecordNotFound'' (invalid_request ''Could not locate record''))
       (Option.bind f (\<lambda>f. if (case wn_cid query of None \<Rightarrow> True | Some c \<Rightarrow> c = cid_to_string (mg_texts M) (f_cid f)) then Some f else None))) (\<lambda>f.
     map_err (of_account_error V (mg_texts M)) (shown V (mg_texts M) f))))))"

definition clamp_limit :: "nat option \<Rightarrow> nat \<Rightarrow> nat \<Rightarrow> nat" where
  "clamp_limit asked page longest = (let n = (case asked of None \<Rightarrow> page | Some n \<Rightarrow> n) in max 1 (min longest n))"

definition next_cursor :: "nat \<Rightarrow> ('a \<Rightarrow> string) \<Rightarrow> 'a list \<Rightarrow> string option" where
  "next_cursor limit place xs = (if length xs = limit then (if xs = [] then None else Some (place (last xs))) else None)"

definition list_records ::
    "'c server_lib \<Rightarrow> ('c::linorder, 'sk, 'vk, 'sg, json, 'w, 'l, 'e, 'j) manager \<Rightarrow> listing_records \<Rightarrow> 'w server \<Rightarrow> xrpc_error + records_answer" where
  "list_records V M query S =
     bindE (repository V (mg_texts M) (ls_repo_name query) S) (\<lambda>did.
     bindE (parse_collection (ls_collection query)) (\<lambda>n.
     let limit = clamp_limit (ls_limit query) RECORDS_PAGE LONGEST_RECORDS_PAGE in
     bindE (map_err (of_account_error V (mg_texts M)) (stored_records (mg_texts M) did n limit (ls_cursor query) (ls_reverse query) S)) (\<lambda>fs.
     bindE (map_err (of_account_error V (mg_texts M)) (mapE (shown V (mg_texts M)) fs)) (\<lambda>rs.
     Inr \<lparr>ra_cursor = next_cursor limit (\<lambda>f. key_of (f_uri f)) fs, ra_records = rs\<rparr>))))"

definition also_known_as :: "json \<Rightarrow> string option" where
  "also_known_as doc =
     (case json_get ''alsoKnownAs'' doc of
        Some (JArray as) \<Rightarrow>
          (case List.map_filter (\<lambda>a. Option.bind (json_str a) (strip_prefix ''at://'')) as of [] \<Rightarrow> None | a # _ \<Rightarrow> Some a)
      | _ \<Rightarrow> None)"

definition describe_repo ::
    "'c server_lib \<Rightarrow> ('c::linorder, 'sk, 'vk, 'sg, json, 'w, 'l, 'e, 'j) manager \<Rightarrow> string \<Rightarrow> 'w server \<Rightarrow> (xrpc_error + description) \<times> 'w server" where
  "describe_repo V M repo S =
     (case found_account V (mg_texts M) repo S of
        Inl e \<Rightarrow> (Inl e, S)
      | Inr a \<Rightarrow>
          (case did_document M (acc_did a) S of
             (Inl e, S) \<Rightarrow> (Inl (of_account_error V (mg_texts M) e), S)
           | (Inr doc, S) \<Rightarrow>
               (let h = (case acc_handle a of None \<Rightarrow> INVALID | Some h \<Rightarrow> handle_str h) in
                (bindE (map_err (of_account_error V (mg_texts M)) (stored_collections (acc_did a) S)) (\<lambda>cs.
                 Inr \<lparr>ds_handle = h, ds_did = did_str (acc_did a), ds_did_doc = doc, ds_collections = map nsid_str cs,
                      ds_handle_is_correct = (also_known_as doc = Some h)\<rparr>), S))))"

end
