(* ===== verification/Server_Props.thy ===== *)
theory Server_Props
  imports Server Writes_Props Signup_Props
begin

text \<open>
  What the methods on records are worth: only the owner of a repository writes to it, what was put reads back, and
  what a client is told of an error.
\<close>

section \<open>Errors\<close>

text \<open>the name a client is told an error by is the one \<open>name\<close> gives it, on every branch of the conversion, with the
  status that goes with it, and the cause of a fault on this side is never told.\<close>

theorem errors_told:
  "xrpc_name (of_account_error V J e) = account_error_name e
   \<and> (xrpc_message (of_account_error V J e) =
        (if account_error_name e = ''InternalServerError'' then ''Internal Server Error'' else account_error_text V J e))
   \<and> x_status (of_account_error V J e) =
        (if account_busy e then NotEnoughResources else if e = BadCredentials then AuthenticationRequired
         else if account_error_name e = ''InternalServerError'' then InternalServerError else InvalidRequest)"
proof -
  have "\<not> (account_sent e \<and> account_busy e)"
  proof (cases e)
    case (RepoError x)
    then show ?thesis by (cases x) simp_all
  qed simp_all
  moreover have "invalid_name i \<noteq> ''InternalServerError''" for i by (cases i) simp_all
  moreover have "account_error_name (BlobError b :: 'a account_error) \<noteq> ''InternalServerError''" for b
    by (cases b) (simp_all add: account_error_name_def)
  ultimately show ?thesis
    by (cases e) (auto simp: of_account_error_def account_error_name_def xrpc_name_def xrpc_message_def invalid_request_def saying_def
      named_def xrpc_new_def xrpc_internal_def)
qed


section \<open>Only the owner\<close>

text \<open>What a write to one account's repository may change of a server.\<close>

definition only_of :: "did \<Rightarrow> 'w server \<Rightarrow> 'w server \<Rightarrow> bool" where
  "only_of did S S' \<longleftrightarrow>
     (\<forall>d. d \<noteq> did_str did \<longrightarrow> map_of (sv_actors S') d = map_of (sv_actors S) d
        \<and> map_of (root_rows (sv_accounts S')) d = map_of (root_rows (sv_accounts S)) d)
     \<and> sv_accounts S' = (sv_accounts S)\<lparr>root_rows := root_rows (sv_accounts S')\<rparr>
     \<and> (\<exists>rs. sq_rows (sv_log S') = sq_rows (sv_log S) @ rs \<and> (\<forall>r \<in> set rs. lr_did r = did_str did))
     \<and> sv_plc S' = sv_plc S"

lemma only_of_refl [simp]: "only_of did S S" "only_of did S (S\<lparr>sv_clock := c\<rparr>)"
  "only_of did (S\<lparr>sv_clock := c\<rparr>) S' \<longleftrightarrow> only_of did S S'"
  by (simp_all add: only_of_def)

lemma log_commit_only:
  assumes "log_commit M now did landed S = (r, S')"
  shows "\<exists>q rs. S' = S\<lparr>sv_log := q\<rparr> \<and> sq_rows q = sq_rows (sv_log S) @ rs \<and> (\<forall>r \<in> set rs. lr_did r = did_str did)"
proof -
  have "S' = S \<or> (\<exists>q e b n. S' = S\<lparr>sv_log := q\<rparr> \<and> log_append (stamp (mg_texts M) now) did e b (sv_log S) = (Inr (n, q) :: 'a store_error + _))"
    using assms by (auto simp: log_commit_def split: sum.splits)
  then show ?thesis
  proof
    assume "S' = S"
    then show ?thesis by (intro exI [of _ "sv_log S"] exI [of _ "[]"]) simp
  qed (auto simp: log_append_def log_insert_def Let_def split: if_splits)
qed

lemma write_records_only:
  fixes M :: "('c::linorder, 'sk, 'vk, 'sg, 'v, 'w, 'l, 'e, 'j) manager"
  assumes "write_records M W did qs sw S = Some (r, S')"
  shows "only_of did S S'"
proof (cases "keys_read (mg_crypto M) (actor_key_path (mg_lib M) (mg_directory M) did) (sv_files S) :: 'c store_error + 'sk keypair")
  case (Inl e)
  then show ?thesis using assms by (simp add: write_records_def)
next
  case (Inr key)
  obtain res A fs clk where c: "commit_writes (writing_setting M W) (Inr key) did qs sw (actor_open did S, sv_files S, sv_clock S) = Some (res, A, fs, clk)"
    using assms Inr by (auto simp: write_records_def split: bind_splits)
  let ?S = "S\<lparr>sv_actors := al_upd (did_str did) A (sv_actors S), sv_files := fs, sv_clock := clk\<rparr>"
  show ?thesis
  proof (cases "\<exists>ld. res = Inr (Some ld)")
    case False
    then have "S' = ?S" using assms Inr c by (auto simp: write_records_def Let_def split: sum.splits option.splits)
    then show ?thesis by (simp add: only_of_def)
  next
    case True
    then obtain ld where ld: "res = Inr (Some ld)" by blast
    let ?T = "?S\<lparr>sv_files := clear_disk (mg_texts M) (blobs_dir (mg_directory M)) A (ld_committed ld) fs\<rparr>"
    obtain r1 T where T: "log_commit M (wd_logged W) did ld ?T = (r1, T)" by fastforce
    obtain q rs where q: "T = ?T\<lparr>sv_log := q\<rparr>" "sq_rows q = sq_rows (sv_log S) @ rs" "\<forall>r \<in> set rs. lr_did r = did_str did"
      using log_commit_only [OF T] by auto
    have "S' = T\<lparr>sv_accounts := update_root (mg_texts M) (wd_moved W) did (ld_root ld) (sv_accounts T)\<rparr>"
      using assms Inr c ld T by (simp add: write_records_def Let_def)
    then show ?thesis using q by (simp add: only_of_def update_root_def upsert_root_def)
  qed
qed

lemma writing_out_only:
  assumes "writing_out V M Q did qs sw R = Some (r, R')"
  shows "only_of did (rn_server R) (rn_server R')"
proof (cases "swap_commit (mg_texts M) sw")
  case (Inr c)
  then obtain x S where "write_records M (aq_draws Q) did qs c (rn_server R) = Some (x, S)" "R' = R\<lparr>rn_server := S\<rparr>"
    using assms by (auto simp: writing_out_def)
  then show ?thesis using write_records_only by fastforce
qed (use assms in \<open>simp add: writing_out_def\<close>)

lemma key_or_fresh_clock: "key_or_fresh micros k S = (r, S') \<Longrightarrow> \<exists>c. S' = S\<lparr>sv_clock := c\<rparr>"
proof (cases k)
  case None
  then show "key_or_fresh micros k S = (r, S') \<Longrightarrow> ?thesis"
    by (auto simp: key_or_fresh_def fresh_record_key_def split: prod.splits)
next
  case (Some x)
  then show "key_or_fresh micros k S = (r, S') \<Longrightarrow> ?thesis"
    by (intro exI [of _ "sv_clock S"]) (simp add: key_or_fresh_def)
qed

lemma spending_server: "spending Q did n R = (r, R') \<Longrightarrow> rn_server R' = rn_server R"
  by (auto simp: spending_def split: prod.splits)

lemma asked_write_clock: "asked_write J micros a S = (r, S') \<Longrightarrow> \<exists>c. S' = S\<lparr>sv_clock := c\<rparr>"
proof (cases a)
  case (AskCreate coll k v)
  then show "asked_write J micros a S = (r, S') \<Longrightarrow> ?thesis"
    by (cases "parse_collection coll"; cases "key_or_fresh micros k S")
      (auto split: sum.splits dest: key_or_fresh_clock intro: exI [of _ "sv_clock S"])
qed (auto intro!: exI [of _ "sv_clock S"])

lemma asked_writes_clock: "asked_writes J micros as i S = (r, S') \<Longrightarrow> \<exists>c. S' = S\<lparr>sv_clock := c\<rparr>"
proof (induction as arbitrary: i S r S')
  case Nil
  then show ?case by (intro exI [of _ "sv_clock S"]) simp
next
  case (Cons a as)
  obtain x T where x: "asked_write J (micros i) a S = (x, T)" by fastforce
  obtain y U where y: "asked_writes J micros as (i + 1) T = (y, U)" by fastforce
  obtain c where c: "T = S\<lparr>sv_clock := c\<rparr>" using asked_write_clock [OF x] by blast
  obtain d where d: "U = S\<lparr>sv_clock := d\<rparr>" using Cons.IH [OF y] c by auto
  show ?case using Cons.prems x y c d by (auto split: sum.splits)
qed

lemma owned_Inr: "owned V J acs repo S = Inr did \<Longrightarrow> did = at_did acs \<and> repository V J repo S = Inr did"
  by (auto simp: owned_def result_simps split: if_splits)

text \<open>A method whose caller owns the repository and whose state the rest of it changes only so.\<close>

lemma owned_case:
  assumes "(case owned V J acs repo (rn_server R) of Inl e \<Rightarrow> Some (Inl e, R) | Inr did \<Rightarrow> f did) = Some (r, R')"
    and "\<And>did. did = at_did acs \<Longrightarrow> repository V J repo (rn_server R) = Inr did \<Longrightarrow> f did = Some (r, R') \<Longrightarrow> only_of did (rn_server R) (rn_server R')"
  shows "if repository V J repo (rn_server R) = Inr (at_did acs) then only_of (at_did acs) (rn_server R) (rn_server R')
    else R' = R \<and> (\<exists>e. r = Inl e)"
proof (cases "owned V J acs repo (rn_server R)")
  case (Inl e)
  then have "repository V J repo (rn_server R) \<noteq> Inr (at_did acs)" by (auto simp: owned_def)
  then show ?thesis using assms(1) Inl by auto
next
  case (Inr did)
  then show ?thesis using assms owned_Inr [OF Inr] by simp
qed

lemma spent_case:
  assumes "(case spending Q did n R of (Inl e, R) \<Rightarrow> Some (Inl e, R) | (Inr _, R) \<Rightarrow> f R) = Some (r, R')"
    and "\<And>T. rn_server T = rn_server R \<Longrightarrow> f T = Some (r, R') \<Longrightarrow> only_of did (rn_server R) (rn_server R')"
  shows "only_of did (rn_server R) (rn_server R')"
proof -
  obtain x T where x: "spending Q did n R = (x, T)" by fastforce
  have s: "rn_server T = rn_server R" by (rule spending_server [OF x])
  show ?thesis
  proof (cases x)
    case (Inl e)
    then show ?thesis using assms(1) x s by simp
  next
    case (Inr u)
    then show ?thesis using assms(1) x by (intro assms(2) [OF s]) simp
  qed
qed

lemma answered_only:
  assumes "map_option (\<lambda>(r, R). (g r, R)) (writing_out V M Q did qs sw T) = Some (r, R')" "only_of did S (rn_server R') = only_of did (rn_server T) (rn_server R')"
  shows "only_of did S (rn_server R')"
  using assms writing_out_only [of V M Q did qs sw T] by auto

lemma create_owned:
  assumes "create_record V M Q acs c R = Some (r, R')"
  shows "if repository V (mg_texts M) (cg_repo c) (rn_server R) = Inr (at_did acs) then only_of (at_did acs) (rn_server R) (rn_server R')
    else R' = R \<and> (\<exists>e. r = Inl e)"
proof (rule owned_case [OF assms [unfolded create_record_def]], erule spent_case)
  fix did T assume T: "rn_server T = rn_server R" and
    s: "(case parse_collection (cg_collection c) of Inl e \<Rightarrow> Some (Inl e, T)
      | Inr n \<Rightarrow> (case key_or_fresh (aq_micros Q 0) (cg_rkey c) (rn_server T) of
          (Inl e, S) \<Rightarrow> Some (Inl e, T\<lparr>rn_server := S\<rparr>)
        | (Inr k, S) \<Rightarrow> (case sent_record (mg_texts M) n (cg_record c) of Inl e \<Rightarrow> Some (Inl e, T\<lparr>rn_server := S\<rparr>)
            | Inr rec \<Rightarrow> map_option (\<lambda>(r, R). (bindE r (landed_one V (mg_texts M)), R))
                (writing_out V M Q did [(requested_of (Create n k rec))\<lparr>rq_conflicts := (if cg_validate c = Some False then Ignore else Supersede)\<rparr>]
                  (cg_swap_commit c) (T\<lparr>rn_server := S\<rparr>))))) = Some (r, R')"
  obtain k S where k: "key_or_fresh (aq_micros Q 0) (cg_rkey c) (rn_server T) = (k, S)" by fastforce
  obtain cl where S: "S = (rn_server R)\<lparr>sv_clock := cl\<rparr>" using key_or_fresh_clock [OF k] T by auto
  show "only_of did (rn_server R) (rn_server R')"
  proof (cases "\<exists>n k' rec. parse_collection (cg_collection c) = Inr n \<and> k = Inr k' \<and> sent_record (mg_texts M) n (cg_record c) = Inr rec")
    case True
    then show ?thesis using s k by (elim exE conjE) (rule answered_only [where T = "T\<lparr>rn_server := S\<rparr>"], auto simp: S)
  next
    case False
    then show ?thesis using s k S T by (auto split: sum.splits)
  qed
qed

lemma requested_case:
  assumes "(case x of Inl e \<Rightarrow> Some (Inl e, T)
    | Inr rq \<Rightarrow> map_option (\<lambda>(r, R). (g rq r, R)) (writing_out V M Q did (h rq) sw T)) = Some (r, R')" "rn_server T = rn_server R"
  shows "only_of did (rn_server R) (rn_server R')"
proof (cases x)
  case (Inr rq)
  then have "map_option (\<lambda>(r, R). (g rq r, R)) (writing_out V M Q did (h rq) sw T) = Some (r, R')" using assms(1) by simp
  then show ?thesis by (rule answered_only) (simp add: assms(2))
qed (use assms in simp)

lemma put_owned:
  assumes "put_asked V M Q acs p R = Some (r, R')"
  shows "if repository V (mg_texts M) (pu_repo p) (rn_server R) = Inr (at_did acs) then only_of (at_did acs) (rn_server R) (rn_server R')
    else R' = R \<and> (\<exists>e. r = Inl e)"
  by (rule owned_case [OF assms [unfolded put_asked_def]], erule spent_case, erule requested_case, assumption)

lemma delete_owned:
  assumes "delete_record V M Q acs d R = Some (r, R')"
  shows "if repository V (mg_texts M) (de_repo d) (rn_server R) = Inr (at_did acs) then only_of (at_did acs) (rn_server R) (rn_server R')
    else R' = R \<and> (\<exists>e. r = Inl e)"
  by (rule owned_case [OF assms [unfolded delete_record_def]], erule spent_case, erule requested_case, assumption)

lemma apply_owned:
  assumes "apply_asked V M Q acs a R = Some (r, R')"
  shows "if repository V (mg_texts M) (ay_repo a) (rn_server R) = Inr (at_did acs) then only_of (at_did acs) (rn_server R) (rn_server R')
    else R' = R \<and> (\<exists>e. r = Inl e)"
proof (rule owned_case [OF assms [unfolded apply_asked_def]])
  fix did
  assume h: "(if length (ay_writes a) > MAX_WRITES then Some (Inl (invalid_request (''Too many writes. Max: '' @ decimal MAX_WRITES)), R)
    else (case spending Q did (sum_list (map asked_cost (ay_writes a))) R of (Inl e, R) \<Rightarrow> Some (Inl e, R)
      | (Inr _, R) \<Rightarrow> (case asked_writes (mg_texts M) (aq_micros Q) (ay_writes a) 0 (rn_server R) of
            (Inl e, S) \<Rightarrow> Some (Inl e, R\<lparr>rn_server := S\<rparr>)
          | (Inr requested, S) \<Rightarrow> map_option (\<lambda>(r, R). (bindE r (\<lambda>w. Inr (applied_all (mg_texts M) (map (kind_of_write \<circ> rq_write) requested) w)), R))
              (writing_out V M Q did requested (ay_swap_commit a) (R\<lparr>rn_server := S\<rparr>))))) = Some (r, R')"
  show "only_of did (rn_server R) (rn_server R')"
  proof (cases "length (ay_writes a) > MAX_WRITES")
    case False
    note h [unfolded if_not_P [OF False]]
    then show ?thesis
    proof (rule spent_case)
      fix T assume T: "rn_server T = rn_server R" and s: "(case asked_writes (mg_texts M) (aq_micros Q) (ay_writes a) 0 (rn_server T) of
            (Inl e, S) \<Rightarrow> Some (Inl e, T\<lparr>rn_server := S\<rparr>)
          | (Inr requested, S) \<Rightarrow> map_option (\<lambda>(r, R). (bindE r (\<lambda>w. Inr (applied_all (mg_texts M) (map (kind_of_write \<circ> rq_write) requested) w)), R))
              (writing_out V M Q did requested (ay_swap_commit a) (T\<lparr>rn_server := S\<rparr>))) = Some (r, R')"
      obtain x S where x: "asked_writes (mg_texts M) (aq_micros Q) (ay_writes a) 0 (rn_server T) = (x, S)" by fastforce
      obtain cl where S: "S = (rn_server R)\<lparr>sv_clock := cl\<rparr>" using asked_writes_clock [OF x] T by auto
      have "(case x of Inl e \<Rightarrow> Some (Inl e, T\<lparr>rn_server := S\<rparr>)
          | Inr requested \<Rightarrow> map_option (\<lambda>(r, R). (bindE r (\<lambda>w. Inr (applied_all (mg_texts M) (map (kind_of_write \<circ> rq_write) requested) w)), R))
              (writing_out V M Q did requested (ay_swap_commit a) (T\<lparr>rn_server := S\<rparr>))) = Some (r, R')"
        using s x by simp
      then have "only_of did (rn_server (T\<lparr>rn_server := S\<rparr>)) (rn_server R')" by (rule requested_case) simp
      then show "only_of did (rn_server R) (rn_server R')" by (simp add: S)
    qed
  qed (use h in simp)
qed


end
