(* ===== verification/Server_Put.thy ===== *)
theory Server_Put
  imports Server_Props
begin

text \<open>What was put reads back.\<close>

section \<open>The record a write left\<close>

lemma writes_spec_snoc: "writes_spec L (ws @ [w]) ps = Inr qs \<Longrightarrow> \<exists>ps'. write_spec L w ps' = Inr qs"
  by (induction ws arbitrary: ps) (auto simp: result_simps)

lemma write_spec_stores:
  assumes "write_spec L w ps = Inr qs" "write_record w = Some rec"
  shows "\<exists>b. ipld_to_vec L rec = Inr b \<and> map_of qs (write_key w) = Some (cid_for L b)"
  using assms by (cases w) (auto simp: write_spec_def Let_def encode_def result_simps split: if_splits)

lemma map_of_joined:
  assumes "map_of (record_rows A) u = Some row" "map_of (repo_block A) (rr_cid row) = Some b"
  shows "map_of (joined A) u = Some (rr_cid row, br_content b)"
proof -
  have "map_of (List.map_filter (\<lambda>(u, row). map_option (\<lambda>b. (u, rr_cid row, br_content b)) (map_of (repo_block A) (rr_cid row))) rs) u
      = Some (rr_cid row, br_content b)" if "map_of rs u = Some row" for rs
    using that assms(2) by (induction rs) (auto simp: List.map_filter_simps split: option.splits if_splits)
  then show ?thesis using assms(1) by (simp add: joined_def)
qed

lemma held_record:
  assumes L: "repo_lib_ok L" and J: "cid_text_ok J" and h: "holds_repo L J A r s"
    and k: "map_of (records_of s) (nsid_str n @ CHR ''/'' # record_key_str k) = Some (cid_for L b)"
  shows "actor_record J n k A = Inr (Some \<lparr>f_uri = uri (a_did A) n k, f_cid = cid_for L b, f_value = b\<rparr>)"
proof -
  let ?k = "nsid_str n @ CHR ''/'' # record_key_str k" and ?c = "cid_for L b"
  have u: "uri (a_did A) n k = at_key (a_did A) ?k" by (simp add: uri_def uri_prefix_def at_key_def)
  have ix: "index_ok J A (records_of s)" and e: "blocks_exact L (actor_blocks J A) r s" using h by (simp_all add: holds_repo_def)
  have "map_option rr_cid (map_of (record_rows A) (at_key (a_did A) ?k)) = Some (cid_to_string J ?c)"
    using ix k unfolding index_ok_def by simp
  then obtain row where row: "map_of (record_rows A) (uri (a_did A) n k) = Some row" "rr_cid row = cid_to_string J ?c" using u by auto
  have "?c \<in> lvalue ` set (tleaves s)" using map_of_SomeD [OF k] by (force simp: kv_def)
  then have "?c \<in> dom (actor_blocks J A)" using blocks_exactD(2) [OF e] set_flat(1) [of L s] by blast
  then obtain x where x: "actor_blocks J A ?c = Some x" by blast
  then have "x = b" using blocks_exactD(1) [OF e] repo_lib_okD(3) [OF L] unfolding addressed_def no_collision_def by metis
  then obtain br where "map_of (repo_block A) (cid_to_string J ?c) = Some br" "br_content br = b" using x by (auto simp: actor_blocks_def)
  then have "map_of (joined A) (uri (a_did A) n k) = Some (cid_to_string J ?c, b)" using map_of_joined [OF row(1)] row(2) by simp
  then show ?thesis using J by (simp add: actor_record_def read_row_def cid_text_ok_def)
qed

lemma landed_record:
  assumes L: "repo_lib_ok L" and J: "cid_text_ok J" and l: "landed_ok L J did [q] swap A0 r1 s1 A ld"
    and q: "rq_missing q = Refuse" "write_record (rq_write q) = Some rec" "write_target (rq_write q) = (n, k)"
  shows "\<exists>b. ipld_to_vec L rec = Inr b \<and> wr_results (ld_written ld) = [\<lparr>ad_uri = uri did n k, ad_cid = Some (cid_for L b)\<rparr>]
    \<and> actor_record J n k A = Inr (Some \<lparr>f_uri = uri (a_did A) n k, f_cid = cid_for L b, f_value = b\<rparr>)"
proof -
  have asked: "unskipped ps [q] = [q]" for ps using q(1) by (simp add: unskipped_def)
  obtain u r' where w: "apply_spec L (planned A0 [q]) (records_of s1) = Inr (records_of u)" "holds_repo L J A r' u"
      and res: "wr_results (ld_written ld) = [\<lparr>ad_uri = at_key did (write_key (rq_write q)), ad_cid = record_cid L (rq_write q)\<rparr>]"
    using l unfolding landed_ok_def Let_def asked by auto
  have "writes_spec L (planned A0 [q]) (records_of s1) = Inr (records_of u)" using w(1) by (simp add: apply_spec_def split: if_splits)
  then obtain ps' where "write_spec L (rq_write q) ps' = Inr (records_of u)" unfolding planned_def using writes_spec_snoc [of L _ "rq_write q"] by fastforce
  from write_spec_stores [OF this q(2)] obtain b where b: "ipld_to_vec L rec = Inr b"
      "map_of (records_of u) (write_key (rq_write q)) = Some (cid_for L b)" by blast
  have key: "write_key (rq_write q) = nsid_str n @ CHR ''/'' # record_key_str k" using q(3) by (simp add: write_key_def)
  have "at_key did (write_key (rq_write q)) = uri did n k" by (simp add: key uri_def uri_prefix_def at_key_def)
  moreover have "record_cid L (rq_write q) = Some (cid_for L b)" using q(2) b(1) by (simp add: record_cid_def)
  ultimately show ?thesis using held_record [OF L J w(2)] b key res by auto
qed

lemma write_records_landed:
  fixes M :: "('c::linorder, 'sk, 'vk, 'sg, 'v, 'w, 'l, 'e, 'j) manager"
  assumes "write_records M W did qs sw S = Some (Inr (Some w), S')"
  obtains key ld A fs clk where "attempts (writing_setting M W) ATTEMPTS key did qs sw (actor_open did S, sv_files S, sv_clock S) = Some (Inr (Some ld), A, fs, clk)"
    "w = ld_written ld" "map_of (sv_actors S') (did_str did) = Some A"
proof -
  obtain key :: "'sk keypair" where key: "keys_read (mg_crypto M) (actor_key_path (mg_lib M) (mg_directory M) did) (sv_files S)
      = (Inr key :: 'c store_error + 'sk keypair)"
    using assms by (auto simp: write_records_def split: sum.splits)
  obtain res A fs clk where c: "commit_writes (writing_setting M W) (Inr key) did qs sw (actor_open did S, sv_files S, sv_clock S) = Some (res, A, fs, clk)"
    using assms key by (auto simp: write_records_def split: bind_splits)
  obtain ld where ld: "res = Inr (Some ld)"
    using assms key c by (cases res) (auto simp: write_records_def Let_def split: option.splits)
  let ?S = "S\<lparr>sv_actors := al_upd (did_str did) A (sv_actors S), sv_files := fs, sv_clock := clk\<rparr>"
  let ?T = "?S\<lparr>sv_files := clear_disk (mg_texts M) (blobs_dir (mg_directory M)) A (ld_committed ld) fs\<rparr>"
  obtain r1 T where T: "log_commit M (wd_logged W) did ld ?T = (r1, T)" by fastforce
  then obtain q where q: "T = ?T\<lparr>sv_log := q\<rparr>" using log_commit_only [OF T] by auto
  have "w = ld_written ld" "S' = T\<lparr>sv_accounts := update_root (mg_texts M) (wd_moved W) did (ld_root ld) (sv_accounts T)\<rparr>"
    using assms key c ld T by (simp_all add: write_records_def Let_def)
  then show thesis using that c ld q by (simp add: commit_writes_def)
qed

lemma write_records_stored:
  assumes L: "repo_lib_ok (mg_lib M)" and J: "cid_text_ok (mg_texts M)" and o: "others_settle (writing_setting M W)"
    and s: "settled (mg_lib M) (mg_texts M) (actor_open did S)" "a_did (actor_open did S) = did" "fs_ok (sv_files S)"
    and w: "write_records M W did [q] sw S = Some (Inr (Some w), S')"
    and q: "rq_missing q = Refuse" "write_record (rq_write q) = Some rec" "write_target (rq_write q) = (n, k)"
  shows "\<exists>b. ipld_to_vec (mg_lib M) rec = Inr b \<and> wr_results w = [\<lparr>ad_uri = uri did n k, ad_cid = Some (cid_for (mg_lib M) b)\<rparr>]
    \<and> stored_record (mg_texts M) did n k S' = Inr (Some \<lparr>f_uri = uri did n k, f_cid = cid_for (mg_lib M) b, f_value = b\<rparr>)"
proof -
  obtain key ld A fs clk where a: "attempts (writing_setting M W) ATTEMPTS key did [q] sw (actor_open did S, sv_files S, sv_clock S) = Some (Inr (Some ld), A, fs, clk)"
      "w = ld_written ld" "map_of (sv_actors S') (did_str did) = Some A"
    by (rule write_records_landed [OF w])
  have lib: "set_lib (writing_setting M W) = mg_lib M" "set_texts (writing_setting M W) = mg_texts M" by (simp_all add: writing_setting_def)
  obtain i where "landed_at (writing_setting M W) i did [q] sw A ld" "a_did A = did"
    using attempts_ok [of "writing_setting M W" ATTEMPTS "actor_open did S" "sv_files S" key did "[q]" sw "sv_clock S"] L J o s a(1)
    by (auto simp: lib)
  then obtain A0 r1 s1 where "landed_ok (mg_lib M) (mg_texts M) did [q] sw A0 r1 s1 A ld" unfolding landed_at_def lib by blast
  from landed_record [OF L J this q] show ?thesis
    using a(2,3) \<open>a_did A = did\<close> by (auto simp: stored_record_def on_actor_def opened_def)
qed


section \<open>Put, then get\<close>

lemma put_landed:
  assumes "put_asked V M Q acs p R = Some (Inr la, R')"
  obtains n k rec ex sw w S' where "parse_collection (pu_collection p) = Inr n"
      "parse_record_key (pu_rkey p) = Inr k" "sent_record (mg_texts M) n (pu_record p) = Inr rec"
      "write_records M (aq_draws Q) (at_did acs) [\<lparr>rq_write = Put n k rec, rq_expect = ex, rq_missing = Refuse, rq_conflicts = Ignore\<rparr>] sw (rn_server R)
        = Some (Inr (Some w), S')" "rn_server R' = S'" "landed_one V (mg_texts M) (Some w) = Inr la"
proof -
  let ?J = "mg_texts M"
  obtain did where did: "owned V ?J acs (pu_repo p) (rn_server R) = Inr did" using assms by (auto simp: put_asked_def split: sum.splits)
  obtain u T where T: "spending Q did PUT_COST R = (Inr u, T)" using assms did by (auto simp: put_asked_def split: prod.splits sum.splits)
  have s: "rn_server T = rn_server R" "did = at_did acs" using spending_server [OF T] owned_Inr [OF did] by simp_all
  obtain n k rec ex where q: "parse_collection (pu_collection p) = Inr n" "parse_record_key (pu_rkey p) = Inr k"
      "sent_record ?J n (pu_record p) = Inr rec" "expected_swap ?J (pu_swap_record p) = Inr ex"
    using assms did T by (auto simp: put_asked_def bindE_def split: sum.splits)
  let ?q = "\<lparr>rq_write = Put n k rec, rq_expect = ex, rq_missing = Refuse, rq_conflicts = Ignore\<rparr>"
  obtain r where r: "writing_out V M Q did [?q] (pu_swap_commit p) T = Some (r, R')" "bindE r (landed_one V ?J) = Inr la"
    using assms did T q by (auto simp: put_asked_def)
  then obtain w where w: "r = Inr (Some w)" "landed_one V ?J (Some w) = Inr la"
    by (cases r) (auto simp: landed_one_def ok_or_def split: option.splits)
  then obtain c S' where "write_records M (aq_draws Q) did [?q] c (rn_server T) = Some (Inr (Some w), S')" "R' = T\<lparr>rn_server := S'\<rparr>"
    using r(1) by (cases "swap_commit ?J (pu_swap_commit p)") (auto simp: writing_out_def map_err_eq_Inr)
  then show thesis using that [OF q(1,2,3)] w s by simp
qed

lemma lookup_roots: "sv_accounts S' = (sv_accounts S)\<lparr>root_rows := x\<rparr> \<Longrightarrow> lookup i S' = lookup i S"
  by (auto simp: lookup_def by_did_def by_handle_def query_account_def joined_accounts_def split: at_identifier.splits)

lemma repository_only: "only_of did S S' \<Longrightarrow> repository V J repo S' = repository V J repo S"
proof -
  assume "only_of did S S'"
  then have "sv_accounts S' = (sv_accounts S)\<lparr>root_rows := root_rows (sv_accounts S')\<rparr>" unfolding only_of_def by blast
  note l = lookup_roots [OF this]
  show ?thesis unfolding repository_def found_account_def l ..
qed

lemma put_reads_back:
  assumes "repo_lib_ok (mg_lib M)" "cid_text_ok (mg_texts M)" "json_ok (json_lib.truncate (mg_texts M))"
    and "others_settle (writing_setting M (aq_draws Q))"
    and "settled (mg_lib M) (mg_texts M) (actor_open (at_did acs) (rn_server R))" "a_did (actor_open (at_did acs) (rn_server R)) = at_did acs"
      "fs_ok (sv_files (rn_server R))"
    and cbor: "\<forall>n rec b. parse_collection (pu_collection p) = Inr n \<and> sent_record (mg_texts M) n (pu_record p) = Inr rec
      \<and> ipld_to_vec (mg_lib M) rec = Inr b \<longrightarrow> ipld_from_slice V b = Inr rec"
    and "put_asked V M Q acs p R = Some (Inr la, R')"
  shows "\<exists>n rec v. parse_collection (pu_collection p) = Inr n \<and> sent_record (mg_texts M) n (pu_record p) = Inr rec
    \<and> from_json (json_lib.truncate (mg_texts M)) v = Inr rec
    \<and> get_record V M \<lparr>wn_repo = pu_repo p, wn_collection = pu_collection p, wn_rkey = pu_rkey p, wn_cid = Some (la_cid la)\<rparr> (rn_server R')
        = Inr \<lparr>sh_uri = la_uri la, sh_cid = la_cid la, sh_value = v\<rparr>"
proof -
  let ?J = "mg_texts M" and ?did = "at_did acs"
  have own: "repository V ?J (pu_repo p) (rn_server R) = Inr ?did" "only_of ?did (rn_server R) (rn_server R')"
    using put_owned [OF assms(9)] by (auto split: if_splits)
  obtain n k rec ex sw w S' where put: "parse_collection (pu_collection p) = Inr n"
      "parse_record_key (pu_rkey p) = Inr k" "sent_record ?J n (pu_record p) = Inr rec"
      "write_records M (aq_draws Q) ?did [\<lparr>rq_write = Put n k rec, rq_expect = ex, rq_missing = Refuse, rq_conflicts = Ignore\<rparr>] sw (rn_server R)
        = Some (Inr (Some w), S')" "rn_server R' = S'" "landed_one V ?J (Some w) = Inr la"
    by (rule put_landed [OF assms(9)])
  let ?q = "\<lparr>rq_write = Put n k rec, rq_expect = ex, rq_missing = Refuse, rq_conflicts = Ignore\<rparr>"
  from write_records_stored [OF assms(1,2,4) assms(5,6,7) put(4), of rec n k]
  obtain b where b: "ipld_to_vec (mg_lib M) rec = Inr b" "wr_results w = [\<lparr>ad_uri = uri ?did n k, ad_cid = Some (cid_for (mg_lib M) b)\<rparr>]"
      "stored_record ?J ?did n k S' = Inr (Some \<lparr>f_uri = uri ?did n k, f_cid = cid_for (mg_lib M) b, f_value = b\<rparr>)" by auto
  have la: "la_uri la = uri ?did n k" "la_cid la = cid_to_string ?J (cid_for (mg_lib M) b)"
    using put(6) b(2) by (auto simp: landed_one_def)
  obtain x where "from_json (json_lib.truncate ?J) x = Inr rec" using put(3) by (auto simp: sent_record_def result_simps)
  then obtain v where v: "to_json (json_lib.truncate ?J) rec = Inr v" "from_json (json_lib.truncate ?J) v = Inr rec"
    using accepted_json_is_shown [OF assms(3)] by blast
  have "ipld_from_slice V b = Inr rec" using cbor put(1,3) b(1) by blast
  then have "get_record V M \<lparr>wn_repo = pu_repo p, wn_collection = pu_collection p, wn_rkey = pu_rkey p, wn_cid = Some (la_cid la)\<rparr> S'
      = Inr \<lparr>sh_uri = la_uri la, sh_cid = la_cid la, sh_value = v\<rparr>"
    using own repository_only [OF own(2), of V ?J] put(1,2,5) b(3) la v by (simp add: get_record_def shown_def decode_def)
  then show ?thesis using put(1,3,5) v(2) by blast
qed

lemma write_records_returns:
  fixes M :: "('c::linorder, 'sk, 'vk, 'sg, 'v, 'w, 'l, 'e, 'j) manager"
  assumes "repo_lib_ok (mg_lib M)" "cid_text_ok (mg_texts M)" "others_settle (writing_setting M W)"
    "settled (mg_lib M) (mg_texts M) (actor_open did S)" "fs_ok (sv_files S)"
  shows "\<exists>r S'. write_records M W did qs sw S = Some (r, S')"
proof (cases "keys_read (mg_crypto M) (actor_key_path (mg_lib M) (mg_directory M) did) (sv_files S) :: 'c store_error + 'sk keypair")
  case (Inl e)
  then show ?thesis by (simp add: write_records_def)
next
  case (Inr key)
  have lib: "set_lib (writing_setting M W) = mg_lib M" "set_texts (writing_setting M W) = mg_texts M" by (simp_all add: writing_setting_def)
  obtain res A fs clk where "attempts (writing_setting M W) ATTEMPTS key did qs sw (actor_open did S, sv_files S, sv_clock S) = Some (res, A, fs, clk)"
    using attempts_ok [of "writing_setting M W" ATTEMPTS "actor_open did S" "sv_files S" key did qs sw "sv_clock S"] assms by (auto simp: lib)
  then show ?thesis using Inr by (simp add: write_records_def commit_writes_def Let_def)
qed

lemma put_returns:
  assumes "repo_lib_ok (mg_lib M)" "cid_text_ok (mg_texts M)" "others_settle (writing_setting M (aq_draws Q))"
    and "settled (mg_lib M) (mg_texts M) (actor_open (at_did acs) (rn_server R))" "fs_ok (sv_files (rn_server R))"
  shows "\<exists>r R'. put_asked V M Q acs p R = Some (r, R')"
proof (cases "owned V (mg_texts M) acs (pu_repo p) (rn_server R)")
  case (Inl e)
  then show ?thesis by (simp add: put_asked_def)
next
  case (Inr did)
  note d = owned_Inr [OF Inr]
  obtain x T where T: "spending Q did PUT_COST R = (x, T)" by fastforce
  have s: "rn_server T = rn_server R" by (rule spending_server [OF T])
  have w: "\<exists>r R'. writing_out V M Q did [\<lparr>rq_write = Put n k rec, rq_expect = ex, rq_missing = Refuse, rq_conflicts = Ignore\<rparr>] sw T = Some (r, R')" for n k rec ex sw
  proof (cases "swap_commit (mg_texts M) sw")
    case (Inr c)
    let ?q = "\<lparr>rq_write = Put n k rec, rq_expect = ex, rq_missing = Refuse, rq_conflicts = Ignore\<rparr>"
    obtain r S' where "write_records M (aq_draws Q) did [?q] c (rn_server T) = Some (r, S')"
      using write_records_returns [of M "aq_draws Q" did "rn_server T" "[?q]" c] assms d s by auto
    then show ?thesis using Inr by (simp add: writing_out_def)
  qed (simp add: writing_out_def)
  show ?thesis
  proof (cases x)
    case (Inl e)
    then show ?thesis using \<open>owned V (mg_texts M) acs (pu_repo p) (rn_server R) = Inr did\<close> T by (simp add: put_asked_def)
  next
    case (Inr u)
    let ?rq = "bindE (parse_collection (pu_collection p)) (\<lambda>n. bindE (parse_record_key (pu_rkey p)) (\<lambda>k.
      bindE (sent_record (mg_texts M) n (pu_record p)) (\<lambda>rec. bindE (expected_swap (mg_texts M) (pu_swap_record p)) (\<lambda>ex.
      Inr \<lparr>rq_write = Put n k rec, rq_expect = ex, rq_missing = Refuse, rq_conflicts = Ignore\<rparr>))))"
    have "put_asked V M Q acs p R = (case ?rq of Inl e \<Rightarrow> Some (Inl e, T)
        | Inr rq \<Rightarrow> map_option (\<lambda>(r, R). (bindE r (landed_one V (mg_texts M)), R)) (writing_out V M Q did [rq] (pu_swap_commit p) T))"
      using \<open>owned V (mg_texts M) acs (pu_repo p) (rn_server R) = Inr did\<close> T Inr by (simp add: put_asked_def)
    then show ?thesis using w by (cases ?rq) (auto simp: bindE_eq_Inr, metis)
  qed
qed

text \<open>C24: \<open>putRecord\<close> is always answered, and a record it answers for reads back: \<open>getRecord\<close> of the same key, under the
  CID that was answered, gives the address and the CID that were answered and a value that reads as the record that
  was sent, with its collection filled in where it was left out.\<close>

theorem put_then_get:
  assumes "repo_lib_ok (mg_lib M)" "cid_text_ok (mg_texts M)" "json_ok (json_lib.truncate (mg_texts M))"
    and "others_settle (writing_setting M (aq_draws Q))"
    and "settled (mg_lib M) (mg_texts M) (actor_open (at_did acs) (rn_server R))" "a_did (actor_open (at_did acs) (rn_server R)) = at_did acs"
      "fs_ok (sv_files (rn_server R))"
    and "\<forall>n rec b. parse_collection (pu_collection p) = Inr n \<and> sent_record (mg_texts M) n (pu_record p) = Inr rec
      \<and> ipld_to_vec (mg_lib M) rec = Inr b \<longrightarrow> ipld_from_slice V b = Inr rec"
  shows "\<exists>r R'. put_asked V M Q acs p R = Some (r, R') \<and>
    (\<forall>la. r = Inr la \<longrightarrow>
      (\<exists>n rec v. parse_collection (pu_collection p) = Inr n \<and> sent_record (mg_texts M) n (pu_record p) = Inr rec
        \<and> from_json (json_lib.truncate (mg_texts M)) v = Inr rec
        \<and> get_record V M \<lparr>wn_repo = pu_repo p, wn_collection = pu_collection p, wn_rkey = pu_rkey p, wn_cid = Some (la_cid la)\<rparr> (rn_server R')
            = Inr \<lparr>sh_uri = la_uri la, sh_cid = la_cid la, sh_value = v\<rparr>))"
  using put_returns [OF assms(1,2,4,5,7), of V p] put_reads_back [OF assms] by blast


section \<open>Examples\<close>

definition toy_answers :: "string server_lib" where
  "toy_answers = \<lparr>io_text = (\<lambda>_. ''io''), cid_default = [],
     ipld_from_slice = (\<lambda>_. Inr (IMap [(''$type'', IString ''a.b.c'')])), milli_ok = (\<lambda>_. True)\<rparr>"

definition toy_documents :: "json plc_lib" where
  "toy_documents = \<lparr>op_cbor = (\<lambda>_. Inr ''o''), tomb_cbor = (\<lambda>_. Inr ''t''), op_json = (\<lambda>_. Inr ''{}''), tomb_json = (\<lambda>_. Inr ''t''),
     url64_encode = (\<lambda>b. b), url64_decode = Some, doc_value = (\<lambda>b. Inr (JString b)), doc_id = (\<lambda>_. None), doc_only_id = Some\<rparr>"

definition toy_site :: "(string, bool, bool, bool \<times> bytes, json, nat, unit, unit, unit) manager" where
  "toy_site = \<lparr>mg_lib = toy_repo_lib, mg_events = toy_events, mg_texts = toy_accounts_lib, mg_crypto = toy_crypto, mg_plc_lib = toy_documents,
     mg_net = late_net, mg_plc = toy_client, mg_scrypt = (\<lambda>p s. p), mg_auth = toy_auth_lib, mg_tokens = toy_tokens,
     mg_rules = rules_new [''.test''] [], mg_directory = [], mg_invite_required = False, mg_recovery_key = None,
     mg_public_url = ''https://p'', mg_rotation_key = KP256 True\<rparr>"

definition toy_asking :: asking where
  "toy_asking = \<lparr>aq_now = 0, aq_micros = (\<lambda>_. None),
     aq_draws = \<lparr>wd_now = (\<lambda>_. 0), wd_micros = (\<lambda>_. None), wd_others = (\<lambda>_ x. x), wd_logged = 0, wd_moved = 0\<rparr>\<rparr>"

definition toy_putting :: putting where
  "toy_putting = \<lparr>pu_repo = ''did:plc:a'', pu_collection = ''a.b.c'', pu_rkey = ''k'', pu_record = JObject [], pu_swap_record = Unasked,
     pu_swap_commit = None\<rparr>"

definition toy_serving :: "actor \<Rightarrow> nat serving" where
  "toy_serving A = \<lparr>rn_limits = None, rn_server = toy_server\<lparr>sv_accounts := toy_signed_up, sv_actors := [(''did:plc:a'', A)]\<rparr>\<rparr>"

lemma toy_accounts_settled: "\<exists>A r. holds_repo toy_repo_lib toy_accounts_lib A r (Node []) \<and> a_did A = toy_did"
proof -
  obtain k b data where "repo_create toy_repo_lib toy_crypto toy_did (KP256 True) None toy_clock =
      (Inr (\<lparr>r_cid = cid_for toy_repo_lib b, r_commit = k, r_data = data\<rparr>,
        bm_insert (cid_for toy_repo_lib b) b (ublocks toy_repo_lib (map_of []) (Node []))), snd (mint None toy_clock))"
    using repo_create_ok [OF toy_repo_ok, of toy_crypto toy_did "KP256 True" None toy_clock] by metis
  from first_commit_holds [OF toy_repo_ok toy_cid_text this, of "[]" 0 empty_fs] show ?thesis by auto
qed

lemma toy_sent: "parse_collection ''a.b.c'' = Inr n \<Longrightarrow> sent_record toy_accounts_lib n (JObject []) = Inr rec \<Longrightarrow> rec = IMap [(''$type'', IString ''a.b.c'')]"
proof -
  have "nsid_from_str ''a.b.c'' = Inr (Nsid ''a.b.c'')" by code_simp
  then show "parse_collection ''a.b.c'' = Inr n \<Longrightarrow> sent_record toy_accounts_lib n (JObject []) = Inr rec \<Longrightarrow> rec = IMap [(''$type'', IString ''a.b.c'')]"
    by (auto simp: parse_collection_def sent_record_def json_get_def LINK_def BYTES_def)
qed

lemma put_then_get_witness:
  "\<exists>A r R'. settled toy_repo_lib toy_accounts_lib A
     \<and> put_asked toy_answers toy_site toy_asking \<lparr>at_did = toy_did, at_scope = ScAccess\<rparr> toy_putting (toy_serving A) = Some (r, R')"
proof -
  obtain A r where A: "holds_repo toy_repo_lib toy_accounts_lib A r (Node [])" "a_did A = toy_did" using toy_accounts_settled by blast
  have o: "actor_open toy_did (rn_server (toy_serving A)) = A" by (simp add: toy_serving_def actor_open_def toy_did_def)
  have s: "settled toy_repo_lib toy_accounts_lib A" using A(1) unfolding settled_def by blast
  have "json_ok (json_lib.truncate toy_accounts_lib)" by (simp add: json_ok_def json_lib.truncate_def toy_accounts_lib_def)
  moreover have "others_settle (writing_setting toy_site (aq_draws toy_asking))"
    by (simp add: others_settle_def writing_setting_def toy_asking_def)
  moreover have "fs_ok (sv_files (rn_server (toy_serving A)))" using empty_fs_ok(1) by (simp add: toy_serving_def toy_server_def)
  moreover have "\<forall>n rec b. parse_collection (pu_collection toy_putting) = Inr n \<and> sent_record (mg_texts toy_site) n (pu_record toy_putting) = Inr rec
      \<and> ipld_to_vec (mg_lib toy_site) rec = Inr b \<longrightarrow> ipld_from_slice toy_answers b = Inr rec"
    using toy_sent by (auto simp: toy_putting_def toy_site_def toy_answers_def)
  ultimately show ?thesis
    using put_then_get [of toy_site toy_asking "\<lparr>at_did = toy_did, at_scope = ScAccess\<rparr>" "toy_serving A" toy_putting toy_answers]
      toy_repo_ok toy_cid_text s o A(2) by (auto simp: toy_site_def)
qed

lemma toy_repository: "repository toy_answers toy_accounts_lib ''did:plc:a'' (rn_server (toy_serving A)) = Inr (Did ''did:plc:a'')"
proof -
  have "at_identifier_from_str ''did:plc:a'' = Inr (AtDid (Did ''did:plc:a''))" by code_simp
  moreover have "by_did (Did ''did:plc:a'') toy_signed_up = (Inr (Some toy_account) :: string store_error + account option)"
  proof -
    have "handle_from_str ''a.bc'' = Inr (Handle ''a.bc'')" by code_simp
    then show ?thesis
      using toy_did by (simp add: by_did_def query_account_def joined_accounts_def toy_signed_up_def toy_signup_defs List.map_filter_simps account_of_def)
  qed
  ultimately show ?thesis by (simp add: repository_def found_account_def lookup_def toy_serving_def toy_account_def)
qed


end
