(* ===== verification/Config.thy ===== *)
theory Config
  imports Sessions Limit Blobs
begin

text \<open>
  The configuration, \<open>src/config.rs\<close>, and the start of a server: what \<open>src/main.rs\<close> does before it serves and the
  marker of a running server in \<open>src/store.rs\<close>. The environment is a function, \<open>None\<close> where a variable is unset or
  not Unicode. Reading an address from text is the standard library's.
\<close>

section \<open>Numbers\<close>

datatype int_error = IntEmpty | InvalidDigit | PosOverflow

fun parse_digits :: "nat \<Rightarrow> nat \<Rightarrow> string \<Rightarrow> int_error + nat" where
  "parse_digits most acc [] = Inr acc"
| "parse_digits most acc (c # cs) =
     (if \<not> is_ascii_digit c then Inl InvalidDigit
      else let n = acc * 10 + (of_char c - 48) in if n > most then Inl PosOverflow else parse_digits most n cs)"

text \<open>\<open>FromStr\<close> of an unsigned integer: digits, perhaps after a plus sign.\<close>

definition parse_unsigned :: "nat \<Rightarrow> string \<Rightarrow> int_error + nat" where
  "parse_unsigned most s =
     (case s of
        [] \<Rightarrow> Inl IntEmpty
      | c # cs \<Rightarrow>
          if cs = [] \<and> (c = CHR ''+'' \<or> c = CHR ''-'') then Inl InvalidDigit
          else parse_digits most 0 (if c = CHR ''+'' then cs else s))"


section \<open>Variables\<close>

datatype config_error =
    NotANumber string int_error
  | NotABoolean string
  | MissingVariable string
  | TooShort string nat
  | NotAKey string
  | NotADidKey string
  | NotALabel string string

definition SECRET_LENGTH :: nat where "SECRET_LENGTH = 24"

type_synonym environment = "string \<Rightarrow> string option"

definition env_string :: "environment \<Rightarrow> string \<Rightarrow> string option" where
  "env_string env key = (case env key of Some v \<Rightarrow> if v = [] then None else Some v | None \<Rightarrow> None)"

definition env_secret :: "environment \<Rightarrow> string \<Rightarrow> config_error + string" where
  "env_secret env key =
     bindE (ok_or (MissingVariable key) (env_string env key)) (\<lambda>v.
     if char_count v < SECRET_LENGTH then Inl (TooShort key SECRET_LENGTH) else Inr v)"

definition env_rotation_key :: "('sk, 'vk, 'sg) crypto_lib \<Rightarrow> environment \<Rightarrow> string \<Rightarrow> config_error + 'sk keypair" where
  "env_rotation_key C env key =
     bindE (ok_or (MissingVariable key) (env_string env key)) (\<lambda>v.
     bindE (ok_or (NotAKey key) (unhex v)) (\<lambda>b.
     map_err (\<lambda>_. NotAKey key) (keypair_from_bytes C Secp256k1 b)))"

definition env_list :: "environment \<Rightarrow> string \<Rightarrow> string list option" where
  "env_list env key = map_option (\<lambda>v. map Handles.trim (split_on CHR '','' v)) (env_string env key)"

definition has_white_space :: "string \<Rightarrow> bool" where
  "has_white_space s \<longleftrightarrow> list_ex (\<lambda>i. strip_any white_space (drop i s) \<noteq> None) [0..<length s]"

definition env_labels :: "environment \<Rightarrow> string \<Rightarrow> config_error + string list" where
  "env_labels env key =
     (case env_list env key of
        None \<Rightarrow> Inr []
      | Some vs \<Rightarrow>
          (case find (\<lambda>v. CHR ''.'' \<in> set v \<or> has_white_space v) vs of
             Some v \<Rightarrow> Inl (NotALabel key v)
           | None \<Rightarrow> Inr vs))"

definition env_boolean :: "environment \<Rightarrow> string \<Rightarrow> config_error + bool option" where
  "env_boolean env key =
     (case env_string env key of
        None \<Rightarrow> Inr None
      | Some v \<Rightarrow>
          if v = ''true'' \<or> v = ''1'' then Inr (Some True)
          else if v = ''false'' \<or> v = ''0'' then Inr (Some False)
          else Inl (NotABoolean key))"

definition env_number :: "environment \<Rightarrow> nat \<Rightarrow> string \<Rightarrow> config_error + nat option" where
  "env_number env most key =
     (case env_string env key of
        None \<Rightarrow> Inr None
      | Some v \<Rightarrow> bindE (map_err (NotANumber key) (parse_unsigned most v)) (\<lambda>n. Inr (Some n)))"

definition env_did_key :: "('sk, 'vk, 'sg) crypto_lib \<Rightarrow> environment \<Rightarrow> string \<Rightarrow> config_error + 'vk public_key option" where
  "env_did_key C env key =
     (case env_string env key of
        None \<Rightarrow> Inr None
      | Some v \<Rightarrow> bindE (map_err (\<lambda>_. NotADidKey key) (did_key_from_str C v)) (\<lambda>k. Inr (Some k)))"


section \<open>The configuration\<close>

record ('sk, 'vk) config =
  cf_hostname :: string
  cf_port :: nat
  cf_service_did :: string
  cf_data_directory :: string
  cf_jwt_secret :: string
  cf_admin_password :: string
  cf_plc_rotation_key :: "'sk keypair"
  cf_plc_url :: string
  cf_recovery_key :: "'vk public_key option"
  cf_handle_domains :: "string list"
  cf_reserved_handles :: "string list"
  cf_invite_required :: bool
  cf_blob_upload_limit :: nat
  cf_blob_unclaimed_hours :: nat
  cf_privacy_policy_url :: "string option"
  cf_terms_of_service_url :: "string option"
  cf_contact_email :: "string option"
  cf_rate_limits :: bool
  cf_rate_limit_bypass_key :: "string option"
  cf_rate_limit_bypass_ips :: "ip_addr list"

definition unwrap_or :: "'a \<Rightarrow> 'a option \<Rightarrow> 'a" where
  "unwrap_or d x = (case x of None \<Rightarrow> d | Some a \<Rightarrow> a)"

definition bypass_ips :: "(string \<Rightarrow> ip_addr option) \<Rightarrow> string list option \<Rightarrow> ip_addr list" where
  "bypass_ips parse vs = List.map_filter (\<lambda>v. parse (Handles.trim (hd (split_on CHR ''/'' v)))) (unwrap_or [] vs)"

definition from_env ::
    "('sk, 'vk, 'sg) crypto_lib \<Rightarrow> (string \<Rightarrow> ip_addr option) \<Rightarrow> environment \<Rightarrow> config_error + ('sk, 'vk) config" where
  "from_env C parse env =
     (let str = env_string env; hostname = unwrap_or ''localhost'' (str ''PDS_HOSTNAME'') in
      bindE (env_labels env ''PDS_RESERVED_HANDLES'') (\<lambda>held_back.
      bindE (env_number env (2 ^ 16 - 1) ''PDS_PORT'') (\<lambda>port.
      bindE (env_secret env ''PDS_JWT_SECRET'') (\<lambda>jwt.
      bindE (ok_or (MissingVariable ''PDS_ADMIN_PASSWORD'') (str ''PDS_ADMIN_PASSWORD'')) (\<lambda>admin.
      bindE (env_rotation_key C env ''PDS_PLC_ROTATION_KEY_K256_PRIVATE_KEY_HEX'') (\<lambda>rotation.
      bindE (env_did_key C env ''PDS_RECOVERY_DID_KEY'') (\<lambda>recovery.
      bindE (env_boolean env ''PDS_INVITE_REQUIRED'') (\<lambda>invite.
      bindE (env_number env (2 ^ 64 - 1) ''PDS_BLOB_UPLOAD_LIMIT'') (\<lambda>upload_limit.
      bindE (env_number env (2 ^ 64 - 1) ''PDS_BLOB_UNCLAIMED_HOURS'') (\<lambda>unclaimed.
      bindE (env_boolean env ''PDS_RATE_LIMITS_ENABLED'') (\<lambda>rate_limits.
      Inr \<lparr>cf_hostname = hostname, cf_port = unwrap_or 2583 port,
           cf_service_did = unwrap_or (''did:web:'' @ hostname) (str ''PDS_SERVICE_DID''),
           cf_data_directory = unwrap_or ''data'' (str ''PDS_DATA_DIRECTORY''),
           cf_jwt_secret = jwt, cf_admin_password = admin, cf_plc_rotation_key = rotation,
           cf_plc_url = unwrap_or ''https://plc.directory'' (str ''PDS_DID_PLC_URL''), cf_recovery_key = recovery,
           cf_handle_domains = unwrap_or [CHR ''.'' # hostname] (env_list env ''PDS_SERVICE_HANDLE_DOMAINS''),
           cf_reserved_handles = held_back, cf_invite_required = unwrap_or True invite,
           cf_blob_upload_limit = unwrap_or (5 * 1024 * 1024) upload_limit, cf_blob_unclaimed_hours = unwrap_or 24 unclaimed,
           cf_privacy_policy_url = str ''PDS_PRIVACY_POLICY_URL'', cf_terms_of_service_url = str ''PDS_TERMS_OF_SERVICE_URL'',
           cf_contact_email = str ''PDS_CONTACT_EMAIL_ADDRESS'', cf_rate_limits = unwrap_or False rate_limits,
           cf_rate_limit_bypass_key = str ''PDS_RATE_LIMIT_BYPASS_KEY'',
           cf_rate_limit_bypass_ips = bypass_ips parse (env_list env ''PDS_RATE_LIMIT_BYPASS_IPS'')\<rparr>)))))))))))"

definition public_url :: "('sk, 'vk) config \<Rightarrow> string" where
  "public_url c =
     (if cf_hostname c = ''localhost'' then ''http://localhost:'' @ decimal (cf_port c) else ''https://'' @ cf_hostname c)"

text \<open>What the commands \<open>secret\<close> and \<open>rotation-key\<close> write.\<close>

definition secret_generate :: "bytes \<Rightarrow> string" where
  "secret_generate drawn = to_hex drawn"

definition rotation_key_written :: "('sk, 'vk, 'sg) crypto_lib \<Rightarrow> 'sk \<Rightarrow> string" where
  "rotation_key_written C drawn = to_hex (keypair_to_bytes C (KSecp256k1 drawn))"

end
