(* ===== verification/Methods.thy ===== *)
theory Methods
  imports Server Config
begin

text \<open>
  The other methods: \<open>src/server/session.rs\<close>, \<open>app_password.rs\<close>, \<open>admin.rs\<close>, \<open>signup.rs\<close>, \<open>identity.rs\<close>, \<open>blob.rs\<close> and
  \<open>sync.rs\<close>, and the description of the server in \<open>src/server.rs\<close>. The times and what is drawn at random are arguments.
\<close>

section \<open>Sessions\<close>

definition UNRESOLVED :: string where "UNRESOLVED = ''handle.invalid''"

record told_account =
  ta_did :: string
  ta_handle :: string
  ta_email :: "string option"
  ta_email_confirmed :: bool
  ta_active :: bool

record told_session =
  ts_access_jwt :: string
  ts_refresh_jwt :: string
  ts_account :: told_account

definition told_account_of :: "account \<Rightarrow> told_account" where
  "told_account_of a =
     \<lparr>ta_did = did_str (acc_did a), ta_handle = (case acc_handle a of None \<Rightarrow> UNRESOLVED | Some h \<Rightarrow> handle_str h),
      ta_email = Some (acc_email a), ta_email_confirmed = False, ta_active = True\<rparr>"

definition told_session_new :: "credentials \<Rightarrow> account \<Rightarrow> told_session" where
  "told_session_new c a = \<lparr>ts_access_jwt = cr_access c, ts_refresh_jwt = cr_refresh c, ts_account = told_account_of a\<rparr>"

definition user_missing :: xrpc_error where
  "user_missing = invalid_request ''Could not find user info for account''"

definition session_create ::
    "'c server_lib \<Rightarrow> ('c::linorder, 'sk, 'vk, 'sg, json, 'w, 'l, 'e, 'j) manager \<Rightarrow> nat \<Rightarrow> string \<Rightarrow> string \<Rightarrow> string \<Rightarrow> 'w server
      \<Rightarrow> (xrpc_error + told_session) \<times> 'w server" where
  "session_create V M now jti identifier password S =
     (case check_password (mg_scrypt M) (sha256 (mg_lib M)) identifier password (sv_accounts S) of
        Inl e \<Rightarrow> (Inl (of_account_error V (mg_texts M) e), S)
      | Inr login \<Rightarrow>
          (case open_session (mg_texts M) (mg_auth M) (mg_tokens M) now jti (acc_did (lg_account login)) (lg_app login) (sv_accounts S) of
             (c, db) \<Rightarrow> (Inr (told_session_new c (lg_account login)), S\<lparr>sv_accounts := db\<rparr>)))"

definition session_get ::
    "'c server_lib \<Rightarrow> ('c, 'j) json_lib_scheme \<Rightarrow> access \<Rightarrow> 'w server \<Rightarrow> xrpc_error + told_account" where
  "session_get V J acs S =
     bindE (map_err (of_account_error V J) (account_by_did (at_did acs) S)) (\<lambda>a.
     bindE (ok_or user_missing a) (\<lambda>a. Inr (told_account_of a)))"

definition session_refresh ::
    "'c server_lib \<Rightarrow> ('c::linorder, 'sk, 'vk, 'sg, json, 'w, 'l, 'e, 'j) manager \<Rightarrow> exchange \<Rightarrow> nat \<Rightarrow> refresh \<Rightarrow> 'w server
      \<Rightarrow> ((xrpc_error + told_session) \<times> 'w server) option" where
  "session_refresh V M E now rf S =
     (case bindE (map_err (of_account_error V (mg_texts M)) (account_by_did (rf_did rf) S)) (ok_or user_missing) of
        Inl e \<Rightarrow> Some (Inl e, S)
      | Inr a \<Rightarrow>
          map_option (\<lambda>(r, db).
            (bindE (map_err (of_account_error V (mg_texts M)) r) (\<lambda>c.
             bindE (ok_or (named ''ExpiredToken'' (invalid_request ''Token has been revoked'')) c) (\<lambda>c.
             Inr (told_session_new c a))), S\<lparr>sv_accounts := db\<rparr>))
          (refresh_session (mg_texts M) (mg_auth M) (mg_tokens M) E now (rf_id rf) (sv_accounts S)))"

definition session_delete :: "refresh \<Rightarrow> 'w server \<Rightarrow> (xrpc_error + unit) \<times> 'w server" where
  "session_delete rf S = (Inr (), S\<lparr>sv_accounts := snd (revoke_session (rf_id rf) (sv_accounts S))\<rparr>)"


section \<open>App passwords\<close>

record written_password =
  wp_name :: string
  wp_password :: string
  wp_created_at :: string
  wp_privileged :: bool

record held_password =
  hp_name :: string
  hp_created_at :: string
  hp_privileged :: bool

definition app_password_create ::
    "'c server_lib \<Rightarrow> ('c::linorder, 'sk, 'vk, 'sg, json, 'w, 'l, 'e, 'j) manager \<Rightarrow> bytes \<Rightarrow> nat \<Rightarrow> access \<Rightarrow> string \<Rightarrow> bool \<Rightarrow> 'w server
      \<Rightarrow> (xrpc_error + written_password) \<times> 'w server" where
  "app_password_create V M drawn now acs name privileged S =
     (case make_app_password (mg_texts M) (mg_scrypt M) (sha256 (mg_lib M)) drawn now (at_did acs) name privileged (sv_accounts S) of
        (r, db) \<Rightarrow>
          (bindE (map_err (of_account_error V (mg_texts M)) r) (\<lambda>p.
           Inr \<lparr>wp_name = mp_name p, wp_password = mp_password p, wp_created_at = stamp (mg_texts M) (mp_created p), wp_privileged = mp_privileged p\<rparr>),
           S\<lparr>sv_accounts := db\<rparr>))"

definition app_password_list ::
    "'c server_lib \<Rightarrow> ('c, 'j) accounts_lib_scheme \<Rightarrow> access \<Rightarrow> 'w server \<Rightarrow> xrpc_error + held_password list" where
  "app_password_list V J acs S =
     bindE (map_err (of_account_error V J \<circ> of_store_error) (app_passwords J (at_did acs) (sv_accounts S))) (\<lambda>ps.
     Inr (map (\<lambda>(p, t). \<lparr>hp_name = app_name p, hp_created_at = stamp J t, hp_privileged = app_privileged p\<rparr>) ps))"

definition app_password_revoke :: "access \<Rightarrow> string \<Rightarrow> 'w server \<Rightarrow> (xrpc_error + unit) \<times> 'w server" where
  "app_password_revoke acs name S = (Inr (), S\<lparr>sv_accounts := snd (revoke_app_password (at_did acs) name (sv_accounts S))\<rparr>)"


section \<open>Invites\<close>

definition INVITE_OWNER :: string where "INVITE_OWNER = ''admin''"

definition create_invite_code ::
    "'c server_lib \<Rightarrow> ('c, 'j) accounts_lib_scheme \<Rightarrow> string \<Rightarrow> nat \<Rightarrow> (nat \<Rightarrow> nat \<Rightarrow> bytes) \<Rightarrow> nat \<Rightarrow> string option \<Rightarrow> 'w server
      \<Rightarrow> (xrpc_error + string) \<times> 'w server" where
  "create_invite_code V J hostname now drawn use_count for_account S =
     (let whom = unwrap_or INVITE_OWNER for_account in
      case mint_invites J hostname now drawn [whom] 1 use_count (sv_accounts S) of
        (r, db) \<Rightarrow>
          (bindE (map_err (of_account_error V J) r) (\<lambda>minted.
           ok_or (xrpc_internal ''asked for one invite code and was given none'')
             (if minted = [] then None else if last minted = [] then None else Some (last (last minted)))),
           S\<lparr>sv_accounts := db\<rparr>))"

definition create_invite_codes ::
    "'c server_lib \<Rightarrow> ('c, 'j) accounts_lib_scheme \<Rightarrow> string \<Rightarrow> nat \<Rightarrow> (nat \<Rightarrow> nat \<Rightarrow> bytes) \<Rightarrow> nat option \<Rightarrow> nat \<Rightarrow> string list option \<Rightarrow> 'w server
      \<Rightarrow> (xrpc_error + (string \<times> string list) list) \<times> 'w server" where
  "create_invite_codes V J hostname now drawn code_count use_count for_accounts S =
     (let whom = unwrap_or [INVITE_OWNER] for_accounts in
      case mint_invites J hostname now drawn whom (unwrap_or 1 code_count) use_count (sv_accounts S) of
        (r, db) \<Rightarrow>
          (bindE (map_err (of_account_error V J) r) (\<lambda>minted. Inr (zip whom minted)), S\<lparr>sv_accounts := db\<rparr>))"


section \<open>Signing up\<close>

record create_account_input =
  ci_handle :: string
  ci_email :: string
  ci_password :: string
  ci_invite_code :: "string option"
  ci_recovery_key :: "string option"
  ci_did :: "string option"
  ci_plc_op :: "json option"

record created_answer =
  ca_did :: string
  ca_handle :: string
  ca_access_jwt :: string
  ca_refresh_jwt :: string

definition create_account ::
    "'c server_lib \<Rightarrow> ('c::linorder, 'sk, 'vk, 'sg, json, 'w, 'l, 'e, 'j) manager \<Rightarrow> 'sk draws \<Rightarrow> create_account_input \<Rightarrow> 'w server
      \<Rightarrow> (xrpc_error + created_answer) option \<times> 'w server" where
  "create_account V M D input S =
     (if ci_did input \<noteq> None then (Some (Inl (invalid_request (''Unsupported input: '' @ [CHR 0x22] @ ''did'' @ [CHR 0x22]))), S)
      else if ci_plc_op input \<noteq> None then (Some (Inl (invalid_request (''Unsupported input: '' @ [CHR 0x22] @ ''plcOp'' @ [CHR 0x22]))), S)
      else
        (case transposed (\<lambda>k. map_err (\<lambda>_. named ''IncompatibleDidDoc'' (invalid_request ''Invalid recovery key''))
                (did_key_from_str (mg_crypto M) k)) (ci_recovery_key input) of
           Inl e \<Rightarrow> (Some (Inl e), S)
         | Inr recovery \<Rightarrow>
             (case create M D \<lparr>su_handle = ci_handle input, su_email = ci_email input, su_password = ci_password input,
                     su_invite = ci_invite_code input, su_recovery_key = recovery\<rparr> S of
                (r, S) \<Rightarrow>
                  (map_option (\<lambda>r. bindE (map_err (of_account_error V (mg_texts M)) r) (\<lambda>c.
                     Inr \<lparr>ca_did = did_str (cd_did c), ca_handle = handle_str (cd_handle c),
                          ca_access_jwt = cr_access (cd_credentials c), ca_refresh_jwt = cr_refresh (cd_credentials c)\<rparr>)) r, S))))"


section \<open>Names\<close>

definition resolve_handle_method ::
    "'c server_lib \<Rightarrow> ('c::linorder, 'sk, 'vk, 'sg, json, 'w, 'l, 'e, 'j) manager \<Rightarrow> string \<Rightarrow> 'w server \<Rightarrow> xrpc_error + string" where
  "resolve_handle_method V M input S =
     bindE (map_err (\<lambda>i. named (invalid_name i) (invalid_request (invalid_text i))) (rules_normalize input)) (\<lambda>h.
     bindE (map_err (of_account_error V (mg_texts M)) (resolve_handle h S)) (\<lambda>did.
     case did of
       Some d \<Rightarrow> Inr (did_str d)
     | None \<Rightarrow>
         Inl (if is_local (mg_rules M) h then named ''HandleNotFound'' (invalid_request ''Unable to resolve handle'')
              else invalid_request ''Unable to resolve handle'')))"


section \<open>Blobs\<close>

definition UNSAID :: string where "UNSAID = ''application/octet-stream''"
definition BLOBS_PAGE :: nat where "BLOBS_PAGE = 500"
definition LONGEST_BLOBS_PAGE :: nat where "LONGEST_BLOBS_PAGE = 1000"

record file_answer =
  fa_headers :: "(string \<times> string) list"
  fa_body :: bytes

record blob_reference =
  rf_type :: string
  rf_link :: string
  rf_mime_type :: string
  rf_size :: nat

text \<open>A header is \<open>None\<close> where it is not visible ASCII.\<close>

definition sent_mime :: "string option option \<Rightarrow> string" where
  "sent_mime header =
     (case header of
        Some (Some mime) \<Rightarrow> (let mime = Handles.trim (hd (split_on CHR '';'' mime)) in if mime = [] then UNSAID else mime)
      | _ \<Rightarrow> UNSAID)"

definition shown_blob :: "('c, 'j) json_lib_scheme \<Rightarrow> 'c blob \<Rightarrow> blob_reference" where
  "shown_blob J b = \<lparr>rf_type = ''blob'', rf_link = cid_to_string J (b_cid b), rf_mime_type = b_mime b, rf_size = b_size b\<rparr>"

definition blob_upload ::
    "'c server_lib \<Rightarrow> ('c::linorder, 'sk, 'vk, 'sg, json, 'w, 'l, 'e, 'j) manager \<Rightarrow> sweeping \<Rightarrow> nat \<Rightarrow> bytes \<Rightarrow> string \<Rightarrow> access
      \<Rightarrow> string option option \<Rightarrow> string + bytes \<Rightarrow> 'w server \<Rightarrow> (xrpc_error + blob_reference) \<times> 'w server" where
  "blob_upload V M Z now scratch key acs mime body S =
     (case body of
        Inl rejection \<Rightarrow> (Inl (saying rejection (xrpc_new PayloadTooLarge)), S)
      | Inr b \<Rightarrow>
          (case upload M Z now scratch key (at_did acs) (sent_mime mime) b S of
             (r, S) \<Rightarrow> (bindE (map_err (of_account_error V (mg_texts M)) r) (\<lambda>blob. Inr (shown_blob (mg_texts M) blob)), S)))"

definition blob_serve ::
    "'c server_lib \<Rightarrow> ('c, 'j) json_lib_scheme \<Rightarrow> path \<Rightarrow> string \<Rightarrow> string \<Rightarrow> 'w server \<Rightarrow> xrpc_error + file_answer" where
  "blob_serve V J B did cid S =
     bindE (parse_did did) (\<lambda>did.
     bindE (parse_cid J cid) (\<lambda>c.
     bindE (map_err (of_account_error V J) (served_blob J B did c S)) (\<lambda>found.
     bindE (ok_or (named ''BlobNotFound'' (invalid_request ''Blob not found'')) found) (\<lambda>(blob, b).
     Inr \<lparr>fa_headers = [(''content-type'', b_mime blob), (''cache-control'', ''public, max-age=31536000, immutable''),
            (''x-content-type-options'', ''nosniff''), (''content-disposition'', ''attachment''),
            (''content-security-policy'', ''default-src '' @ [CHR 0x27] @ ''none'' @ [CHR 0x27] @ ''; sandbox'')],
          fa_body = b\<rparr>))))"

definition blob_list ::
    "'c server_lib \<Rightarrow> ('c, 'j) json_lib_scheme \<Rightarrow> string \<Rightarrow> string option \<Rightarrow> nat option \<Rightarrow> string option \<Rightarrow> 'w server
      \<Rightarrow> xrpc_error + string option \<times> string list" where
  "blob_list V J did since asked cursor S =
     bindE (parse_did did) (\<lambda>did.
     bindE (transposed parse_since since) (\<lambda>since.
     let limit = clamp_limit asked BLOBS_PAGE LONGEST_BLOBS_PAGE in
     bindE (map_err (of_account_error V J) (named_blobs J did since limit cursor S)) (\<lambda>cs.
     let cids = map (cid_to_string J) cs in Inr (next_cursor limit (\<lambda>c. c) cids, cids))))"

definition blob_list_missing ::
    "'c server_lib \<Rightarrow> ('c, 'j) json_lib_scheme \<Rightarrow> access \<Rightarrow> nat option \<Rightarrow> string option \<Rightarrow> 'w server
      \<Rightarrow> xrpc_error + string option \<times> (string \<times> string) list" where
  "blob_list_missing V J acs asked cursor S =
     (let limit = clamp_limit asked BLOBS_PAGE LONGEST_BLOBS_PAGE in
      bindE (map_err (of_account_error V J) (never_uploaded J (at_did acs) limit cursor S)) (\<lambda>ms.
      let blobs = map (\<lambda>(c, u). (cid_to_string J c, u)) ms in Inr (next_cursor limit fst blobs, blobs)))"


section \<open>Following a repository\<close>

definition REPOS_PAGE :: nat where "REPOS_PAGE = 500"
definition LONGEST_REPOS_PAGE :: nat where "LONGEST_REPOS_PAGE = 1000"
definition CAR_TYPE :: string where "CAR_TYPE = ''application/vnd.ipld.car''"

record held_repo =
  hr_did :: string
  hr_head :: string
  hr_rev :: string
  hr_active :: bool

definition car_file :: "bytes \<Rightarrow> file_answer" where
  "car_file car = \<lparr>fa_headers = [(''content-type'', CAR_TYPE)], fa_body = car\<rparr>"

text \<open>A download is its headers, its pieces and the error that broke it off.\<close>

definition get_repo ::
    "'c server_lib \<Rightarrow> ('c::linorder, 'sk, 'vk, 'sg, json, 'w, 'l, 'e, 'j) manager \<Rightarrow> string \<Rightarrow> string option \<Rightarrow> 'w server
      \<Rightarrow> (xrpc_error + (string \<times> string) list \<times> bytes list \<times> 'c account_error option) option" where
  "get_repo V M did since S =
     (case bindE (transposed parse_since since) (\<lambda>since. bindE (parse_did did) (\<lambda>did. Inr (since, did))) of
        Inl e \<Rightarrow> Some (Inl e)
      | Inr (since, did) \<Rightarrow>
          map_option (\<lambda>r. bindE (map_err (of_account_error V (mg_texts M)) r) (\<lambda>(pieces, e). Inr ([(''content-type'', CAR_TYPE)], pieces, e)))
            (export (mg_events M) (mg_texts M) did since S))"

definition get_record_proof ::
    "'c server_lib \<Rightarrow> ('c::linorder, 'sk, 'vk, 'sg, json, 'w, 'l, 'e, 'j) manager \<Rightarrow> string \<Rightarrow> string \<Rightarrow> string \<Rightarrow> 'w server
      \<Rightarrow> xrpc_error + file_answer" where
  "get_record_proof V M did coll key S =
     bindE (parse_collection coll) (\<lambda>n.
     bindE (parse_record_key key) (\<lambda>k.
     bindE (parse_did did) (\<lambda>did.
     bindE (map_err (of_account_error V (mg_texts M)) (proof_file (mg_lib M) (mg_events M) (mg_texts M) did n k S)) (\<lambda>car.
     Inr (car_file car)))))"

definition get_blocks ::
    "'c server_lib \<Rightarrow> ('c::linorder, 'sk, 'vk, 'sg, json, 'w, 'l, 'e, 'j) manager \<Rightarrow> string \<Rightarrow> (string \<times> string) list \<Rightarrow> 'w server
      \<Rightarrow> xrpc_error + file_answer" where
  "get_blocks V M did pairs S =
     (let wanted = listed_all pairs ''cids'' in
      if wanted = [] then Inl (invalid_request (''Params must have the property '' @ [CHR 0x22] @ ''cids'' @ [CHR 0x22]))
      else
        bindE (mapE (parse_cid (mg_texts M)) wanted) (\<lambda>cids.
        bindE (parse_did did) (\<lambda>did.
        bindE (map_err (of_account_error V (mg_texts M)) (blocks_file (mg_events M) (mg_texts M) did cids S)) (\<lambda>car.
        Inr (car_file car)))))"

definition answered_root :: "'c server_lib \<Rightarrow> ('c, 'j) json_lib_scheme \<Rightarrow> did \<Rightarrow> 'w server \<Rightarrow> xrpc_error + 'c root" where
  "answered_root V J did S =
     bindE (map_err (of_account_error V J) (repo_root_of J did S)) (\<lambda>root.
     ok_or (named ''RepoNotFound'' (invalid_request (''Could not find root for '' @ did_str did))) root)"

definition get_latest_commit :: "'c server_lib \<Rightarrow> ('c, 'j) json_lib_scheme \<Rightarrow> string \<Rightarrow> 'w server \<Rightarrow> xrpc_error + at_commit" where
  "get_latest_commit V J did S =
     bindE (parse_did did) (\<lambda>did.
     bindE (answered_root V J did S) (\<lambda>root.
     Inr \<lparr>at_cid = cid_to_string J (rt_cid root), at_rev = tid_str (rt_rev root)\<rparr>))"

definition get_repo_status :: "'c server_lib \<Rightarrow> ('c, 'j) json_lib_scheme \<Rightarrow> string \<Rightarrow> 'w server \<Rightarrow> xrpc_error + string \<times> bool \<times> string" where
  "get_repo_status V J did S =
     bindE (parse_did did) (\<lambda>did.
     bindE (answered_root V J did S) (\<lambda>root. Inr (did_str did, True, tid_str (rt_rev root))))"

fun split_once_pair :: "byte \<Rightarrow> byte \<Rightarrow> string \<Rightarrow> (string \<times> string) option" where
  "split_once_pair a b (x # y # s) =
     (if x = a \<and> y = b then Some ([], s) else map_option (\<lambda>(l, r). (x # l, r)) (split_once_pair a b (y # s)))"
| "split_once_pair a b _ = None"

text \<open>\<open>FromStr\<close> of \<open>i64\<close>.\<close>

definition parse_i64 :: "string \<Rightarrow> int option" where
  "parse_i64 s =
     (case s of
        [] \<Rightarrow> None
      | c # cs \<Rightarrow>
          if c = CHR ''-'' then (if cs = [] then None else case parse_digits (2 ^ 63) 0 cs of Inl _ \<Rightarrow> None | Inr n \<Rightarrow> Some (- int n))
          else (case parse_unsigned (2 ^ 63 - 1) s of Inl _ \<Rightarrow> None | Inr n \<Rightarrow> Some (int n)))"

definition MILLI :: nat where "MILLI = 1000000"

text \<open>Nothing here was made before 1970, so that a cursor before it is as good as one at its beginning with no account.\<close>

definition starting :: "'c server_lib \<Rightarrow> string \<Rightarrow> xrpc_error + hosted_cursor" where
  "starting V cursor =
     bindE (ok_or (invalid_request ''Malformed cursor'') (split_once_pair CHR '':'' CHR '':'' cursor)) (\<lambda>(at, did).
     bindE (ok_or (invalid_request ''Malformed cursor'') (Option.bind (parse_i64 at) (\<lambda>ms. if milli_ok V ms then Some ms else None))) (\<lambda>ms.
     Inr (if ms < 0 then \<lparr>hc_created = 0, hc_did = []\<rparr> else \<lparr>hc_created = nat ms * MILLI, hc_did = did\<rparr>)))"

definition after_hosted :: "'c hosted \<Rightarrow> string" where
  "after_hosted h = decimal (ho_created h div MILLI) @ ''::'' @ did_str (ho_did h)"

definition shown_repo :: "('c, 'j) json_lib_scheme \<Rightarrow> 'c hosted \<Rightarrow> held_repo" where
  "shown_repo J h = \<lparr>hr_did = did_str (ho_did h), hr_head = cid_to_string J (rt_cid (ho_root h)), hr_rev = tid_str (rt_rev (ho_root h)), hr_active = True\<rparr>"

definition list_repos ::
    "'c server_lib \<Rightarrow> ('c, 'j) accounts_lib_scheme \<Rightarrow> nat option \<Rightarrow> string option \<Rightarrow> 'w server
      \<Rightarrow> xrpc_error + string option \<times> held_repo list" where
  "list_repos V J asked cursor S =
     (let limit = clamp_limit asked REPOS_PAGE LONGEST_REPOS_PAGE in
      bindE (transposed (starting V) cursor) (\<lambda>from.
      bindE (map_err (of_account_error V J) (hosted_repos_of J limit from S)) (\<lambda>hs.
      Inr (next_cursor limit after_hosted hs, map (shown_repo J) hs))))"


section \<open>The server\<close>

record described_server =
  dv_did :: string
  dv_available_user_domains :: "string list"
  dv_invite_code_required :: bool
  dv_blob_upload_limit :: nat
  dv_privacy_policy :: "string option"
  dv_terms_of_service :: "string option"
  dv_email :: "string option"

definition describe_server :: "('sk, 'vk) config \<Rightarrow> described_server" where
  "describe_server c =
     \<lparr>dv_did = cf_service_did c, dv_available_user_domains = cf_handle_domains c, dv_invite_code_required = cf_invite_required c,
      dv_blob_upload_limit = cf_blob_upload_limit c, dv_privacy_policy = cf_privacy_policy_url c,
      dv_terms_of_service = cf_terms_of_service_url c, dv_email = cf_contact_email c\<rparr>"

end
