(* ===== verification/Methods_Props.thy ===== *)
theory Methods_Props
  imports Methods Reads_Props
begin

text \<open>
  Listing the repositories of a server in pages: the cursor a page ends in is read back as the place it stands for, so
  that following the cursors lists every repository once.
\<close>

section \<open>Numbers read back\<close>

lemma parse_digits_append: "parse_digits most acc (xs @ ys) = bindE (parse_digits most acc xs) (\<lambda>a. parse_digits most a ys)"
  by (induction xs arbitrary: acc) (auto simp: Let_def)

lemma digit_char: "d < 10 \<Longrightarrow> is_ascii_digit (char_of (48 + d :: nat)) \<and> of_char (char_of (48 + d :: nat)) = 48 + d"
  by (simp add: is_ascii_digit_def less_eq_char_def)

lemma parse_decimal: "n \<le> most \<Longrightarrow> parse_digits most 0 (decimal n) = Inr n"
proof (induction n rule: decimal.induct)
  case (1 n)
  show ?case
  proof (cases "n < 10")
    case True
    then show ?thesis using 1(2) digit_char [of n] by (subst decimal.simps) (simp add: Let_def)
  next
    case False
    then have "parse_digits most 0 (decimal (n div 10)) = Inr (n div 10)" using 1 by simp
    then show ?thesis using 1(2) False digit_char [of "n mod 10"] by (subst decimal.simps) (simp add: parse_digits_append Let_def)
  qed
qed

lemma decimal_digits: "set (decimal n) \<subseteq> {c. is_ascii_digit c} \<and> decimal n \<noteq> []"
proof (induction n rule: decimal.induct)
  case (1 n)
  then show ?case using digit_char [of n] digit_char [of "n mod 10"] by (subst (1 2) decimal.simps) auto
qed

lemma parse_i64_decimal:
  assumes "n < 2 ^ 63"
  shows "parse_i64 (decimal n) = Some (int n)"
proof -
  obtain c cs where c: "decimal n = c # cs" using decimal_digits [of n] by (cases "decimal n") auto
  then have "is_ascii_digit c" using decimal_digits [of n] by auto
  then have "c \<noteq> CHR ''-''" "c \<noteq> CHR ''+''" by (auto simp: is_ascii_digit_def)
  then have "parse_unsigned (2 ^ 63 - 1) (decimal n) = Inr n"
    using parse_decimal [of n "2 ^ 63 - 1"] assms c by (simp add: parse_unsigned_def)
  then show ?thesis using c \<open>c \<noteq> CHR ''-''\<close> by (simp add: parse_i64_def)
qed

lemma split_once_digits: "CHR '':'' \<notin> set xs \<Longrightarrow> split_once_pair CHR '':'' CHR '':'' (xs @ '':'' @ '':'' @ ys) = Some (xs, ys)"
proof (induction xs)
  case (Cons x xs)
  then show ?case by (cases xs) auto
qed simp


section \<open>Repositories in order\<close>

text \<open>The rows a listing goes through, and the place of a row among them.\<close>

definition hosted_rows :: "accounts \<Rightarrow> (string \<times> root_row \<times> string) list" where
  "hosted_rows db = sort_key (\<lambda>(d, r, created). created)
     (List.map_filter (\<lambda>(d, a). map_option (\<lambda>r. (d, r, ac_created a)) (map_of (root_rows db) d)) (actor_rows db))"

definition row_after :: "string \<times> root_row \<times> string \<Rightarrow> (string \<times> string) option \<Rightarrow> bool" where
  "row_after x p \<longleftrightarrow>
     (case p of None \<Rightarrow> True | Some (created, d) \<Rightarrow> created < snd (snd x) \<or> created = snd (snd x) \<and> d < fst x)"

definition row_place :: "string \<times> root_row \<times> string \<Rightarrow> (string \<times> string) option" where
  "row_place x = Some (snd (snd x), fst x)"

definition rows_page :: "accounts \<Rightarrow> (string \<times> string) option \<Rightarrow> nat \<Rightarrow> (string \<times> root_row \<times> string) list" where
  "rows_page db p n = take n (filter (\<lambda>x. row_after x p) (hosted_rows db))"

definition accounts_checked :: "accounts \<Rightarrow> accounts" where
  "accounts_checked db = (if ascending (actor_rows db) then db else db\<lparr>actor_rows := []\<rparr>)"

lemma map_filter_ascending:
  "ascending as \<Longrightarrow> sorted_wrt (\<lambda>x y. fst x < fst y) (List.map_filter (\<lambda>(d, a). map_option (\<lambda>r. (d, f d a r)) (g d)) as)"
proof (induction as)
  case (Cons p as)
  have "fst x \<in> fst ` set as" if "x \<in> set (List.map_filter (\<lambda>(d, a). map_option (\<lambda>r. (d, f d a r)) (g d)) as)" for x
    using that by (induction as) (auto simp: List.map_filter_simps split: option.splits)
  with Cons show ?case by (cases p) (force simp: List.map_filter_simps split: option.splits)
qed (simp add: List.map_filter_simps)

lemma hosted_rows_strict:
  assumes "ascending (actor_rows db)"
  shows "sorted_wrt (\<lambda>y z. row_after z (row_place y)) (hosted_rows db)"
proof -
  have "sorted_wrt (\<lambda>x y. fst x < fst y) (List.map_filter (\<lambda>(d, a). map_option (\<lambda>r. (d, r, ac_created a)) (map_of (root_rows db) d)) (actor_rows db))"
    by (rule map_filter_ascending [OF assms, of "\<lambda>d a r. (r, ac_created a)"])
  from sort_key_strict [OF this, of "\<lambda>(d, r, created). created"] show ?thesis
    unfolding hosted_rows_def by (rule sorted_wrt_mono_rel [rotated]) (auto simp: row_after_def row_place_def)
qed

interpretation hp: pages "hosted_rows (accounts_checked db)" row_after row_place "rows_page (accounts_checked db)" for db
proof unfold_locales
  let ?rows = "hosted_rows (accounts_checked db)"
  have so: "sorted_wrt (\<lambda>y z. row_after z (row_place y)) ?rows" by (rule hosted_rows_strict) (simp add: accounts_checked_def)
  have irr: "\<not> row_after x (row_place x)" for x by (auto simp: row_after_def row_place_def)
  have asym: "row_after x (row_place y) \<Longrightarrow> \<not> row_after y (row_place x)" for x y by (auto simp: row_after_def row_place_def)
  show "rows_page (accounts_checked db) p n = take n (filter (\<lambda>x. row_after x p) ?rows)" for p n by (simp add: rows_page_def)
  show "row_after z (row_place y) \<longleftrightarrow> z \<in> set ys" if "?rows = xs @ y # ys" "z \<in> set ?rows" for xs y ys z
    using so irr asym that(2) unfolding that(1) by (rule strict_split)
  show "row_after x p \<Longrightarrow> row_after y (row_place x) \<Longrightarrow> row_after y p" for x y p
    by (auto simp: row_after_def row_place_def split: option.splits)
  show "distinct ?rows" using so irr by (rule strict_distinct)
qed


section \<open>Following the cursors\<close>

text \<open>What the rows of a database are when every account has a time on the clock and a root that reads.\<close>

definition listable :: "'c server_lib \<Rightarrow> ('c, 'j) accounts_lib_scheme \<Rightarrow> accounts \<Rightarrow> bool" where
  "listable V J db \<longleftrightarrow> stamps_ok J \<and> ascending (actor_rows db) \<and>
     (\<forall>row \<in> set (hosted_rows db). \<exists>h t. hosted_of J row = (Inr h :: 'c store_error + 'c hosted) \<and> snd (snd row) = stamp J t
        \<and> t div MILLISECOND < 2 ^ 63 \<and> milli_ok V (int (t div MILLISECOND)))"

lemma hosted_page_rows:
  "hosted_page J n from db = rows_page db (map_option (\<lambda>c. (stamp J (hc_created c), hc_did c)) from) n"
proof -
  let ?P = "\<lambda>(d, r, created). case from of None \<Rightarrow> True
    | Some c \<Rightarrow> stamp J (hc_created c) < created \<or> stamp J (hc_created c) = created \<and> hc_did c < d"
  have "?P = (\<lambda>x. row_after x (map_option (\<lambda>c. (stamp J (hc_created c), hc_did c)) from))"
    by (auto simp: fun_eq_iff row_after_def split: option.splits)
  then show ?thesis by (simp add: hosted_page_def rows_page_def hosted_rows_def filter_sort)
qed

lemma stamp_whole: "stamps_ok J \<Longrightarrow> stamp J (whole_ms t) = stamp J t"
  unfolding stamps_ok_def whole_ms_def by (metis MILLISECOND_def dual_order.antisym dual_order.refl nonzero_mult_div_cancel_left zero_neq_numeral)

lemma cursor_reads_back:
  assumes "stamps_ok J" "hosted_of J row = (Inr h :: 'c store_error + 'c hosted)" "snd (snd row) = stamp J t"
    "t div MILLISECOND < 2 ^ 63" "milli_ok V (int (t div MILLISECOND))"
  shows "\<exists>c. starting V (after_hosted h) = Inr c \<and> row_place row = Some (stamp J (hc_created c), hc_did c)"
proof -
  obtain d r where row: "row = (d, r, stamp J t)" using assms(3) by (cases row) auto
  have h: "did_from_str d = Inr (ho_did h)" "ho_created h = whole_ms t"
    using assms(1,2) by (auto simp: row hosted_of_def result_simps stamps_ok_def)
  have "did_str (ho_did h) = d" using h(1) by (cases "ho_did h") (auto simp: did_from_str_def newtype_from_str_def result_simps)
  moreover have "ho_created h div MILLI = t div MILLISECOND" by (simp add: h(2) whole_ms_def MILLI_def MILLISECOND_def)
  moreover have "CHR '':'' \<notin> set (decimal n)" for n using decimal_digits [of n] by (auto simp: is_ascii_digit_def less_eq_char_def)
  ultimately have "starting V (after_hosted h) = Inr \<lparr>hc_created = (t div MILLISECOND) * MILLI, hc_did = d\<rparr>"
    using assms(4,5) split_once_digits [of "decimal (t div MILLISECOND)" d] parse_i64_decimal [of "t div MILLISECOND"]
    by (simp add: starting_def after_hosted_def)
  moreover have "(t div MILLISECOND) * MILLI = whole_ms t" by (simp add: whole_ms_def MILLI_def MILLISECOND_def)
  ultimately show ?thesis using stamp_whole [OF assms(1), of t] by (simp add: row row_place_def)
qed

text \<open>A client that asks for a page, and then for the one after the cursor it was given, until it is given none; a client
  that has not come to the last page after \<open>k\<close> requests has no list.\<close>

fun walk_repos ::
    "nat \<Rightarrow> 'c server_lib \<Rightarrow> ('c, 'j) accounts_lib_scheme \<Rightarrow> nat option \<Rightarrow> string option \<Rightarrow> 'w server \<Rightarrow> (xrpc_error + held_repo list) option" where
  "walk_repos 0 V J asked cursor S = None"
| "walk_repos (Suc k) V J asked cursor S =
     (case list_repos V J asked cursor S of
        Inl e \<Rightarrow> Some (Inl e)
      | Inr (None, rs) \<Rightarrow> Some (Inr rs)
      | Inr (Some c, rs) \<Rightarrow> map_option (map_sum (\<lambda>e. e) (\<lambda>rest. rs @ rest)) (walk_repos k V J asked (Some c) S))"

definition cursor_place :: "('c, 'j) accounts_lib_scheme \<Rightarrow> hosted_cursor option \<Rightarrow> (string \<times> string) option" where
  "cursor_place J at = map_option (\<lambda>c. (stamp J (hc_created c), hc_did c)) at"

definition rows_from :: "('c, 'j) accounts_lib_scheme \<Rightarrow> hosted_cursor option \<Rightarrow> accounts \<Rightarrow> (string \<times> root_row \<times> string) list" where
  "rows_from J at db = filter (\<lambda>x. row_after x (cursor_place J at)) (hosted_rows db)"

lemma mapE_hosted:
  fixes J :: "('c, 'j) accounts_lib_scheme"
  assumes "listable V J db" "set rows \<subseteq> set (hosted_rows db)"
  shows "\<exists>hs. mapE (hosted_of J) rows = (Inr hs :: 'c store_error + 'c hosted list) \<and> length hs = length rows
    \<and> (rows \<noteq> [] \<longrightarrow> hosted_of J (last rows) = (Inr (last hs) :: 'c store_error + 'c hosted))"
  using assms(2)
proof (induction rows)
  case (Cons row rows)
  obtain h where h: "hosted_of J row = (Inr h :: 'c store_error + 'c hosted)" using assms(1) Cons.prems unfolding listable_def by auto
  obtain hs where hs: "mapE (hosted_of J) rows = (Inr hs :: 'c store_error + 'c hosted list)"
      "length hs = length rows" "rows \<noteq> [] \<longrightarrow> hosted_of J (last rows) = (Inr (last hs) :: 'c store_error + 'c hosted)"
    using Cons by auto
  show ?case using h hs by auto
qed simp

lemma mapE_append: "mapE f xs = Inr as \<Longrightarrow> mapE f ys = Inr bs \<Longrightarrow> mapE f (xs @ ys) = Inr (as @ bs)"
  by (induction xs arbitrary: as) (auto simp: result_simps)

lemma listed_page:
  fixes J :: "('c, 'j) accounts_lib_scheme"
  assumes l: "listable V J (sv_accounts S)" and n: "n = clamp_limit asked REPOS_PAGE LONGEST_REPOS_PAGE"
    and at: "transposed (starting V) cursor = Inr at"
  shows "\<exists>hs. mapE (hosted_of J) (take n (rows_from J at (sv_accounts S))) = (Inr hs :: 'c store_error + 'c hosted list)
    \<and> list_repos V J asked cursor S = Inr (next_cursor n after_hosted hs, map (shown_repo J) hs)
    \<and> length hs = min n (length (rows_from J at (sv_accounts S)))
    \<and> (hs \<noteq> [] \<longrightarrow> hosted_of J (last (take n (rows_from J at (sv_accounts S)))) = (Inr (last hs) :: 'c store_error + 'c hosted))"
proof -
  let ?db = "sv_accounts S"
  have sub: "set (take n (rows_from J at ?db)) \<subseteq> set (hosted_rows ?db)"
    unfolding rows_from_def by (meson filter_is_subset order_trans set_take_subset)
  obtain hs where hs: "mapE (hosted_of J) (take n (rows_from J at ?db)) = (Inr hs :: 'c store_error + 'c hosted list)"
      "length hs = length (take n (rows_from J at ?db))"
      "take n (rows_from J at ?db) \<noteq> [] \<longrightarrow> hosted_of J (last (take n (rows_from J at ?db))) = (Inr (last hs) :: 'c store_error + 'c hosted)"
    using mapE_hosted [OF l sub] by blast
  have "hosted_page J n at ?db = take n (rows_from J at ?db)"
    by (simp add: hosted_page_rows rows_page_def rows_from_def cursor_place_def)
  then have "list_repos V J asked cursor S = Inr (next_cursor n after_hosted hs, map (shown_repo J) hs)"
    using at hs(1) by (simp add: list_repos_def n [symmetric] hosted_repos_of_def hosted_repos_def Let_def)
  with hs show ?thesis by auto
qed

lemma rows_from_last:
  assumes l: "listable V J db" and ne: "take n (rows_from J at db) \<noteq> []"
    and c: "row_place (last (take n (rows_from J at db))) = cursor_place J (Some c)"
  shows "rows_from J (Some c) db = drop n (rows_from J at db)"
proof -
  have ck: "accounts_checked db = db" using l by (simp add: accounts_checked_def listable_def)
  have "rows_from J at db = butlast (take n (rows_from J at db)) @ last (take n (rows_from J at db)) # drop n (rows_from J at db)"
    using append_take_drop_id [of n "rows_from J at db"] ne by (metis append_butlast_last_id append.assoc append_Cons append_Nil)
  from hp.after_last [of _ db, unfolded ck, OF this [unfolded rows_from_def [of J at db]]] c [unfolded rows_from_def]
  show ?thesis unfolding rows_from_def by simp
qed

lemma last_place:
  fixes J :: "('c, 'j) accounts_lib_scheme"
  assumes l: "listable V J db" and ne: "take n (rows_from J at db) \<noteq> []"
    and h: "hosted_of J (last (take n (rows_from J at db))) = (Inr h :: 'c store_error + 'c hosted)"
  shows "\<exists>c. starting V (after_hosted h) = Inr c \<and> row_place (last (take n (rows_from J at db))) = cursor_place J (Some c)"
proof -
  have "last (take n (rows_from J at db)) \<in> set (hosted_rows db)"
    using ne last_in_set in_set_takeD unfolding rows_from_def by (metis filter_is_subset subsetD)
  then obtain t where t: "snd (snd (last (take n (rows_from J at db)))) = stamp J t" "t div MILLISECOND < 2 ^ 63"
      "milli_ok V (int (t div MILLISECOND))"
    using l unfolding listable_def by blast
  have "stamps_ok J" using l by (simp add: listable_def)
  from cursor_reads_back [OF this h t] show ?thesis by (simp add: cursor_place_def)
qed

lemma walk_repos_from:
  fixes J :: "('c, 'j) accounts_lib_scheme"
  assumes l: "listable V J (sv_accounts S)"
  shows "transposed (starting V) cursor = Inr at \<Longrightarrow> length (rows_from J at (sv_accounts S)) < k \<Longrightarrow>
    \<exists>hs. mapE (hosted_of J) (rows_from J at (sv_accounts S)) = (Inr hs :: 'c store_error + 'c hosted list)
      \<and> walk_repos k V J asked cursor S = Some (Inr (map (shown_repo J) hs))"
proof (induction k arbitrary: cursor at)
  case (Suc k)
  let ?db = "sv_accounts S"
  let ?n = "clamp_limit asked REPOS_PAGE LONGEST_REPOS_PAGE" and ?rows = "rows_from J at ?db"
  have n1: "0 < ?n" unfolding clamp_limit_def Let_def by simp
  obtain hs where hs: "mapE (hosted_of J) (take ?n ?rows) = (Inr hs :: 'c store_error + 'c hosted list)"
      "list_repos V J asked cursor S = Inr (next_cursor ?n after_hosted hs, map (shown_repo J) hs)"
      "length hs = min ?n (length ?rows)"
      "hs \<noteq> [] \<longrightarrow> hosted_of J (last (take ?n ?rows)) = (Inr (last hs) :: 'c store_error + 'c hosted)"
    using listed_page [OF l refl Suc.prems(1)] by blast
  show ?case
  proof (cases "length hs = ?n")
    case False
    then have "take ?n ?rows = ?rows" using hs(3) by auto
    then show ?thesis using False hs(1,2) by (simp add: next_cursor_def)
  next
    case True
    then have ne: "hs \<noteq> []" "take ?n ?rows \<noteq> []" using n1 hs(3) by auto
    obtain c where c: "starting V (after_hosted (last hs)) = Inr c" "row_place (last (take ?n ?rows)) = cursor_place J (Some c)"
      using last_place [OF l ne(2)] hs(4) ne(1) by blast
    have d: "rows_from J (Some c) ?db = drop ?n ?rows" by (rule rows_from_last [OF l ne(2) c(2)])
    have "length ?rows < Suc k" by (rule Suc.prems(2))
    moreover have "0 < length ?rows" using ne(2) by auto
    ultimately have "length (rows_from J (Some c) ?db) < k" unfolding d length_drop using n1 by linarith
    then obtain hs' where hs': "mapE (hosted_of J) (drop ?n ?rows) = (Inr hs' :: 'c store_error + 'c hosted list)"
        "walk_repos k V J asked (Some (after_hosted (last hs))) S = Some (Inr (map (shown_repo J) hs'))"
      using Suc.IH [of "Some (after_hosted (last hs))" "Some c"] c(1) d by (auto simp: transposed_def)
    show ?thesis
      using mapE_append [OF hs(1) hs'(1)] hs'(2) True ne(1) hs(2) by (auto simp: next_cursor_def)
  qed
qed simp

lemma map_filter_dids:
  "fst ` set (List.map_filter (\<lambda>(d, a). map_option (\<lambda>r. (d, f d a r)) (g d)) as) = fst ` set as \<inter> dom g"
  by (induction as) (auto simp: List.map_filter_simps image_iff split: option.splits)

lemma hosted_rows_dids:
  assumes "ascending (actor_rows db)"
  shows "distinct (map fst (hosted_rows db))
    \<and> fst ` set (hosted_rows db) = dom (map_of (actor_rows db)) \<inter> dom (map_of (root_rows db))"
proof
  let ?rows = "List.map_filter (\<lambda>(d, a). map_option (\<lambda>r. (d, r, ac_created a)) (map_of (root_rows db) d)) (actor_rows db)"
  have "sorted_wrt (\<lambda>x y. fst x < fst y) ?rows" by (rule map_filter_ascending [OF assms, of "\<lambda>d a r. (r, ac_created a)"])
  then have "distinct (map fst ?rows)" by (induction ?rows) (auto simp: strict_sorted_iff sorted_wrt_map [symmetric])
  then show "distinct (map fst (hosted_rows db))" unfolding hosted_rows_def by (simp add: distinct_map)
  show "fst ` set (hosted_rows db) = dom (map_of (actor_rows db)) \<inter> dom (map_of (root_rows db))"
    using map_filter_dids [of "\<lambda>d a r. (r, ac_created a)" "map_of (root_rows db)" "actor_rows db"]
    unfolding hosted_rows_def by (simp add: dom_map_of_conv_image_fst)
qed

lemma hosted_of_did: "hosted_of J row = (Inr h :: 'c store_error + 'c hosted) \<Longrightarrow> did_str (ho_did h) = fst row"
  by (cases row, cases "ho_did h") (auto simp: hosted_of_def did_from_str_def newtype_from_str_def result_simps)

lemma mapE_hosted_dids:
  "mapE (hosted_of J) rows = (Inr hs :: 'c store_error + 'c hosted list) \<Longrightarrow> map (hr_did \<circ> shown_repo J) hs = map fst rows"
  by (induction rows arbitrary: hs) (auto simp: result_simps shown_repo_def hosted_of_did)

text \<open>C38: a client that follows the cursors of \<open>listRepos\<close>, with whatever limit it asks for, comes to the last page and is
  given every repository of the server once, in the order the accounts were made.\<close>

theorem list_repos_in_pages:
  fixes J :: "('c, 'j) accounts_lib_scheme"
  assumes "listable V J (sv_accounts S)" "length (hosted_rows (sv_accounts S)) < k"
  shows "\<exists>hs. mapE (hosted_of J) (hosted_rows (sv_accounts S)) = (Inr hs :: 'c store_error + 'c hosted list)
    \<and> walk_repos k V J asked None S = Some (Inr (map (shown_repo J) hs))
    \<and> distinct (map (hr_did \<circ> shown_repo J) hs)
    \<and> (hr_did \<circ> shown_repo J) ` set hs = dom (map_of (actor_rows (sv_accounts S))) \<inter> dom (map_of (root_rows (sv_accounts S)))"
proof -
  let ?db = "sv_accounts S"
  have "rows_from J None ?db = hosted_rows ?db" by (simp add: rows_from_def cursor_place_def row_after_def)
  then obtain hs where hs: "mapE (hosted_of J) (hosted_rows ?db) = (Inr hs :: 'c store_error + 'c hosted list)"
      "walk_repos k V J asked None S = Some (Inr (map (shown_repo J) hs))"
    using walk_repos_from [OF assms(1), of None None k asked] assms(2) by (auto simp: transposed_def)
  have "ascending (actor_rows ?db)" using assms(1) by (simp add: listable_def)
  from hosted_rows_dids [OF this] hs mapE_hosted_dids [OF hs(1)] show ?thesis by (metis list.set_map)
qed


section \<open>Example\<close>

text \<open>Two accounts made in the same millisecond and a third made before them, listed one to a page.\<close>

definition toy_hosted_row :: "string \<Rightarrow> actor_row" where
  "toy_hosted_row created = \<lparr>ac_handle = None, ac_created = created, ac_takedown = None\<rparr>"

definition toy_root_row :: root_row where
  "toy_root_row = \<lparr>ro_cid = ''c'', ro_rev = ''3jzfcijpj2z2a'', ro_at = ''x''\<rparr>"

definition toy_hosts :: accounts where
  "toy_hosts = accounts_new
     \<lparr>actor_rows := [(''did:plc:a'', toy_hosted_row ''x''), (''did:plc:b'', toy_hosted_row ''x''), (''did:plc:c'', toy_hosted_row '''')],
      root_rows := [(''did:plc:a'', toy_root_row), (''did:plc:b'', toy_root_row), (''did:plc:c'', toy_root_row)]\<rparr>"

definition toy_listing :: "string server_lib" where
  "toy_listing = \<lparr>io_text = (\<lambda>_. ''io''), cid_default = [], ipld_from_slice = (\<lambda>_. Inl ''unread''), milli_ok = (\<lambda>_. True)\<rparr>"

definition toy_host :: "unit server" where
  "toy_host = \<lparr>sv_accounts = toy_hosts, sv_actors = [], sv_files = empty_fs, sv_log = sequencer_new, sv_clock = toy_clock, sv_plc = ()\<rparr>"

lemma toy_hosted:
  "hosted_rows toy_hosts =
     [(''did:plc:c'', toy_root_row, ''''), (''did:plc:a'', toy_root_row, ''x''), (''did:plc:b'', toy_root_row, ''x'')]"
  by (simp add: hosted_rows_def toy_hosts_def toy_hosted_row_def List.map_filter_simps)

lemma toy_listable: "listable toy_listing toy_accounts_lib toy_hosts"
proof -
  have rv: "tid_from_str ''3jzfcijpj2z2a'' = Inr (Tid ''3jzfcijpj2z2a'')" by code_simp
  have ds: "did_from_str ''did:plc:a'' = Inr (Did ''did:plc:a'')" "did_from_str ''did:plc:b'' = Inr (Did ''did:plc:b'')"
    "did_from_str ''did:plc:c'' = Inr (Did ''did:plc:c'')" by code_simp+
  have "ascending (actor_rows toy_hosts)" by (simp add: toy_hosts_def)
  moreover have "stamp toy_accounts_lib 0 = ''''" "stamp toy_accounts_lib 1000000 = ''x''" by (simp_all add: toy_accounts_lib_def)
  ultimately show ?thesis
    unfolding listable_def toy_hosted
    by (auto simp: toy_stamps_ok [unfolded toy_accounts_lib_def] hosted_of_def rv ds toy_root_row_def toy_listing_def toy_accounts_lib_def MILLISECOND_def
        intro: exI [of _ 0] exI [of _ 1000000])
qed

theorem list_repos_in_pages_witness:
  "\<exists>rs. walk_repos 4 toy_listing toy_accounts_lib (Some 1) None toy_host = Some (Inr rs)
     \<and> map hr_did rs = [''did:plc:c'', ''did:plc:a'', ''did:plc:b'']"
proof -
  have "listable toy_listing toy_accounts_lib (sv_accounts toy_host)" "length (hosted_rows (sv_accounts toy_host)) < 4"
    using toy_listable by (simp_all add: toy_host_def toy_hosted)
  from list_repos_in_pages [OF this, of "Some 1"] obtain hs where
      hs: "mapE (hosted_of toy_accounts_lib) (hosted_rows (sv_accounts toy_host)) = (Inr hs :: string store_error + string hosted list)"
      "walk_repos 4 toy_listing toy_accounts_lib (Some 1) None toy_host = Some (Inr (map (shown_repo toy_accounts_lib) hs))"
    by (elim exE conjE) (rule that)
  from mapE_hosted_dids [OF hs(1)] have "map hr_did (map (shown_repo toy_accounts_lib) hs) = [''did:plc:c'', ''did:plc:a'', ''did:plc:b'']"
    by (simp add: toy_host_def toy_hosted)
  with hs(2) show ?thesis by (intro exI conjI)
qed

end
