(* ===== verification/Serve.thy ===== *)
theory Serve
  imports Methods Limit
begin

text \<open>
  A request from the socket to its answer: the routes and layers of \<open>src/server.rs\<close>, the bodies and queries of
  \<open>src/xrpc/input.rs\<close>, and what each method extracts from a request before it runs. What \<open>axum\<close> and \<open>serde\<close> make of a request is an argument: the method it is for with its input, or
  why there is none.
\<close>

section \<open>Routes\<close>

datatype verb = GET | POST

datatype endpoint =
    EpRoot | EpRobots | EpHealth | EpDescribeServer | EpCreateInviteCode | EpCreateInviteCodes | EpResolveHandle | EpCreateAccount
  | EpCreateAppPassword | EpListAppPasswords | EpRevokeAppPassword | EpCreateRecord | EpPutRecord | EpDeleteRecord | EpApplyWrites
  | EpUploadBlob | EpGetBlob | EpListBlobs | EpListMissingBlobs | EpGetRepo | EpGetBlocks | EpProveRecord | EpGetLatestCommit
  | EpGetRepoStatus | EpListRepos | EpGetRecord | EpListRecords | EpDescribeRepo | EpCreateSession | EpGetSession
  | EpRefreshSession | EpDeleteSession

type_synonym route = "string \<times> verb \<times> endpoint"

definition blob_routes :: "route list" where
  "blob_routes =
     [(''/xrpc/com.atproto.repo.uploadBlob'', POST, EpUploadBlob),
      (''/xrpc/com.atproto.sync.getBlob'', GET, EpGetBlob),
      (''/xrpc/com.atproto.sync.listBlobs'', GET, EpListBlobs),
      (''/xrpc/com.atproto.repo.listMissingBlobs'', GET, EpListMissingBlobs)]"

definition sync_routes :: "route list" where
  "sync_routes =
     [(''/xrpc/com.atproto.sync.getRepo'', GET, EpGetRepo),
      (''/xrpc/com.atproto.sync.getBlocks'', GET, EpGetBlocks),
      (''/xrpc/com.atproto.sync.getRecord'', GET, EpProveRecord),
      (''/xrpc/com.atproto.sync.getLatestCommit'', GET, EpGetLatestCommit),
      (''/xrpc/com.atproto.sync.getRepoStatus'', GET, EpGetRepoStatus),
      (''/xrpc/com.atproto.sync.listRepos'', GET, EpListRepos)]"

definition routes :: "route list" where
  "routes =
     [(''/'', GET, EpRoot),
      (''/robots.txt'', GET, EpRobots),
      (''/xrpc/_health'', GET, EpHealth),
      (''/xrpc/com.atproto.server.describeServer'', GET, EpDescribeServer),
      (''/xrpc/com.atproto.server.createInviteCode'', POST, EpCreateInviteCode),
      (''/xrpc/com.atproto.server.createInviteCodes'', POST, EpCreateInviteCodes),
      (''/xrpc/com.atproto.identity.resolveHandle'', GET, EpResolveHandle),
      (''/xrpc/com.atproto.server.createAccount'', POST, EpCreateAccount),
      (''/xrpc/com.atproto.server.createAppPassword'', POST, EpCreateAppPassword),
      (''/xrpc/com.atproto.server.listAppPasswords'', GET, EpListAppPasswords),
      (''/xrpc/com.atproto.server.revokeAppPassword'', POST, EpRevokeAppPassword),
      (''/xrpc/com.atproto.repo.createRecord'', POST, EpCreateRecord),
      (''/xrpc/com.atproto.repo.putRecord'', POST, EpPutRecord),
      (''/xrpc/com.atproto.repo.deleteRecord'', POST, EpDeleteRecord),
      (''/xrpc/com.atproto.repo.applyWrites'', POST, EpApplyWrites)]
     @ blob_routes @ sync_routes @
     [(''/xrpc/com.atproto.repo.getRecord'', GET, EpGetRecord),
      (''/xrpc/com.atproto.repo.listRecords'', GET, EpListRecords),
      (''/xrpc/com.atproto.repo.describeRepo'', GET, EpDescribeRepo),
      (''/xrpc/com.atproto.server.createSession'', POST, EpCreateSession),
      (''/xrpc/com.atproto.server.getSession'', GET, EpGetSession),
      (''/xrpc/com.atproto.server.refreshSession'', POST, EpRefreshSession),
      (''/xrpc/com.atproto.server.deleteSession'', POST, EpDeleteSession)]"

definition root_text :: string where
  "root_text = ''This is an AT Protocol Personal Data Server.'' @ [CHR 0x0A, CHR 0x0A] @ ''Most of it is under /xrpc/.'' @ [CHR 0x0A]"

definition robots_text :: string where
  "robots_text = ''# Crawling the public API is allowed'' @ [CHR 0x0A] @ ''User-agent: *'' @ [CHR 0x0A] @ ''Allow: /'' @ [CHR 0x0A]"


section \<open>Bodies and queries\<close>

datatype json_rejection = MissingJsonContentType | TooLarge string | Unread string

definition input_of :: "json_rejection + 'a \<Rightarrow> xrpc_error + 'a" where
  "input_of r =
     map_err (\<lambda>j. case j of
         MissingJsonContentType \<Rightarrow> saying ''Expected application/json'' (xrpc_new UnsupportedMediaType)
       | TooLarge said \<Rightarrow> saying said (xrpc_new PayloadTooLarge)
       | Unread said \<Rightarrow> invalid_request said) r"

definition params_of :: "string + 'a \<Rightarrow> xrpc_error + 'a" where
  "params_of r = map_err invalid_request r"


section \<open>Calls\<close>

text \<open>A method with what \<open>serde\<close> read, before the method looks at it.\<close>

datatype call =
    Root | Robots | Health | DescribeServer
  | CreateInviteCode "json_rejection + nat \<times> string option"
  | CreateInviteCodes "json_rejection + nat option \<times> nat \<times> string list option"
  | ResolveHandle "string + string"
  | CreateAccount "json_rejection + create_account_input"
  | CreateAppPassword "json_rejection + string \<times> bool"
  | ListAppPasswords
  | RevokeAppPassword "json_rejection + string"
  | CreateRecord "json_rejection + creating"
  | PutRecord "json_rejection + putting"
  | DeleteRecord "json_rejection + deleting"
  | ApplyWrites "json_rejection + applying"
  | UploadBlob "string option option" "string + bytes"
  | GetBlob "string + string \<times> string"
  | ListBlobs "string + string \<times> string option \<times> nat option \<times> string option"
  | ListMissingBlobs "string + nat option \<times> string option"
  | GetRepo "string + string \<times> string option"
  | GetBlocks "string + string" "string + (string \<times> string) list"
  | ProveRecord "string + string \<times> string \<times> string"
  | GetLatestCommit "string + string"
  | GetRepoStatus "string + string"
  | ListRepos "string + nat option \<times> string option"
  | GetRecord "string + wanted_record"
  | ListRecords "string + listing_records"
  | DescribeRepo "string + string"
  | CreateSession "json_rejection + string \<times> string"
  | GetSession | RefreshSession | DeleteSession

fun endpoint_of :: "call \<Rightarrow> endpoint" where
  "endpoint_of Root = EpRoot"
| "endpoint_of Robots = EpRobots"
| "endpoint_of Health = EpHealth"
| "endpoint_of DescribeServer = EpDescribeServer"
| "endpoint_of (CreateInviteCode _) = EpCreateInviteCode"
| "endpoint_of (CreateInviteCodes _) = EpCreateInviteCodes"
| "endpoint_of (ResolveHandle _) = EpResolveHandle"
| "endpoint_of (CreateAccount _) = EpCreateAccount"
| "endpoint_of (CreateAppPassword _) = EpCreateAppPassword"
| "endpoint_of ListAppPasswords = EpListAppPasswords"
| "endpoint_of (RevokeAppPassword _) = EpRevokeAppPassword"
| "endpoint_of (CreateRecord _) = EpCreateRecord"
| "endpoint_of (PutRecord _) = EpPutRecord"
| "endpoint_of (DeleteRecord _) = EpDeleteRecord"
| "endpoint_of (ApplyWrites _) = EpApplyWrites"
| "endpoint_of (UploadBlob _ _) = EpUploadBlob"
| "endpoint_of (GetBlob _) = EpGetBlob"
| "endpoint_of (ListBlobs _) = EpListBlobs"
| "endpoint_of (ListMissingBlobs _) = EpListMissingBlobs"
| "endpoint_of (GetRepo _) = EpGetRepo"
| "endpoint_of (GetBlocks _ _) = EpGetBlocks"
| "endpoint_of (ProveRecord _) = EpProveRecord"
| "endpoint_of (GetLatestCommit _) = EpGetLatestCommit"
| "endpoint_of (GetRepoStatus _) = EpGetRepoStatus"
| "endpoint_of (ListRepos _) = EpListRepos"
| "endpoint_of (GetRecord _) = EpGetRecord"
| "endpoint_of (ListRecords _) = EpListRecords"
| "endpoint_of (DescribeRepo _) = EpDescribeRepo"
| "endpoint_of (CreateSession _) = EpCreateSession"
| "endpoint_of GetSession = EpGetSession"
| "endpoint_of RefreshSession = EpRefreshSession"
| "endpoint_of DeleteSession = EpDeleteSession"

datatype 'c answer =
    Text string | Version | TheServer described_server | Code string | Codes "(string \<times> string list) list" | Resolved string
  | TheAccount created_answer | ThePassword written_password | Passwords "held_password list" | Nothing_More
  | TheLanded landed_answer | TheRemoved "at_commit option" | TheApplied applied_answer | TheBlob blob_reference | TheFile file_answer
  | Cids "string option \<times> string list" | Unuploaded "string option \<times> (string \<times> string) list"
  | Streamed "(string \<times> string) list" "bytes list" "'c account_error option"
  | TheCommit at_commit | TheStatus "string \<times> bool \<times> string" | Repos "string option \<times> held_repo list"
  | TheRecord shown_record | TheRecords records_answer | TheRepo description | TheSession told_session | TheUser told_account

text \<open>What is drawn and read off the clock while one request is served.\<close>

record 'sk chance =
  ch_now :: nat
  ch_asking :: asking
  ch_id :: string
  ch_exchange :: exchange
  ch_password :: bytes
  ch_invites :: "nat \<Rightarrow> nat \<Rightarrow> bytes"
  ch_signup :: "'sk draws"
  ch_reach :: nat
  ch_scratch :: bytes
  ch_key :: string

definition sweep_of :: "('sk, 'vk) config \<Rightarrow> 'sk chance \<Rightarrow> sweeping" where
  "sweep_of K D = \<lparr>sw_reach = ch_reach D, sw_hours = cf_blob_unclaimed_hours K, sw_now = ch_now D\<rparr>"

definition given :: "xrpc_error + 'a \<Rightarrow> 'w serving \<Rightarrow> ('a \<Rightarrow> ((xrpc_error + 'b) \<times> 'w serving) option) \<Rightarrow> ((xrpc_error + 'b) \<times> 'w serving) option" where
  "given x R f = (case x of Inl e \<Rightarrow> Some (Inl e, R) | Inr a \<Rightarrow> f a)"

definition told :: "('a \<Rightarrow> 'b) \<Rightarrow> xrpc_error + 'a \<Rightarrow> xrpc_error + 'b" where
  "told f r = bindE r (\<lambda>a. Inr (f a))"

definition reading_only :: "('a \<Rightarrow> 'b) \<Rightarrow> 'w serving \<Rightarrow> xrpc_error + 'a \<Rightarrow> ((xrpc_error + 'b) \<times> 'w serving) option" where
  "reading_only f R r = Some (told f r, R)"

definition on_server :: "('a \<Rightarrow> 'b) \<Rightarrow> 'w serving \<Rightarrow> (xrpc_error + 'a) \<times> 'w server \<Rightarrow> ((xrpc_error + 'b) \<times> 'w serving) option" where
  "on_server f R x = (case x of (r, S) \<Rightarrow> Some (told f r, R\<lparr>rn_server := S\<rparr>))"

definition on_serving :: "('a \<Rightarrow> 'b) \<Rightarrow> ((xrpc_error + 'a) \<times> 'w serving) option \<Rightarrow> ((xrpc_error + 'b) \<times> 'w serving) option" where
  "on_serving f x = map_option (\<lambda>(r, R). (told f r, R)) x"


section \<open>Serving\<close>

text \<open>Each method as it is declared: its credential first, then its input, then its work. \<open>None\<close> is a request that is
  never answered.\<close>

fun serve ::
    "'c server_lib \<Rightarrow> ('c::linorder, 'sk, 'vk, 'sg, json, 'w, 'l, 'e, 'j) manager \<Rightarrow> ('sk, 'vk) config \<Rightarrow> string option option \<Rightarrow> 'sk chance
      \<Rightarrow> call \<Rightarrow> 'w serving \<Rightarrow> ((xrpc_error + 'c answer) \<times> 'w serving) option" where
  "serve V M K header D Root R = reading_only Text R (Inr root_text)"
| "serve V M K header D Robots R = reading_only Text R (Inr robots_text)"
| "serve V M K header D Health R = reading_only (\<lambda>_. Version) R (Inr ())"
| "serve V M K header D DescribeServer R = reading_only TheServer R (Inr (describe_server K))"
| "serve V M K header D (CreateInviteCode input) R =
     given (extract_admin (mg_auth M) (cf_admin_password K) header) R (\<lambda>_.
     given (input_of input) R (\<lambda>(use_count, for_account).
     on_server Code R (create_invite_code V (mg_texts M) (cf_hostname K) (ch_now D) (ch_invites D) use_count for_account (rn_server R))))"
| "serve V M K header D (CreateInviteCodes input) R =
     given (extract_admin (mg_auth M) (cf_admin_password K) header) R (\<lambda>_.
     given (input_of input) R (\<lambda>(code_count, use_count, for_accounts).
     on_server Codes R
       (create_invite_codes V (mg_texts M) (cf_hostname K) (ch_now D) (ch_invites D) code_count use_count for_accounts (rn_server R))))"
| "serve V M K header D (ResolveHandle query) R =
     given (params_of query) R (\<lambda>handle. reading_only Resolved R (resolve_handle_method V M handle (rn_server R)))"
| "serve V M K header D (CreateAccount input) R =
     given (input_of input) R (\<lambda>input.
     case create_account V M (ch_signup D) input (rn_server R) of
       (None, S) \<Rightarrow> None
     | (Some r, S) \<Rightarrow> on_server TheAccount R (r, S))"
| "serve V M K header D (CreateAppPassword input) R =
     given (extract_full (mg_auth M) (mg_tokens M) (ch_now D) header) R (\<lambda>acs.
     given (input_of input) R (\<lambda>(name, privileged).
     on_server ThePassword R (app_password_create V M (ch_password D) (ch_now D) acs name privileged (rn_server R))))"
| "serve V M K header D ListAppPasswords R =
     given (extract_standard (mg_auth M) (mg_tokens M) (ch_now D) header) R (\<lambda>acs.
     reading_only Passwords R (app_password_list V (mg_texts M) acs (rn_server R)))"
| "serve V M K header D (RevokeAppPassword input) R =
     given (extract_standard (mg_auth M) (mg_tokens M) (ch_now D) header) R (\<lambda>acs.
     given (input_of input) R (\<lambda>name. on_server (\<lambda>_. Nothing_More) R (app_password_revoke acs name (rn_server R))))"
| "serve V M K header D (CreateRecord input) R =
     given (extract_standard (mg_auth M) (mg_tokens M) (ch_now D) header) R (\<lambda>acs.
     given (input_of input) R (\<lambda>input. on_serving TheLanded (create_record V M (ch_asking D) acs input R)))"
| "serve V M K header D (PutRecord input) R =
     given (extract_standard (mg_auth M) (mg_tokens M) (ch_now D) header) R (\<lambda>acs.
     given (input_of input) R (\<lambda>input. on_serving TheLanded (put_asked V M (ch_asking D) acs input R)))"
| "serve V M K header D (DeleteRecord input) R =
     given (extract_standard (mg_auth M) (mg_tokens M) (ch_now D) header) R (\<lambda>acs.
     given (input_of input) R (\<lambda>input. on_serving TheRemoved (delete_record V M (ch_asking D) acs input R)))"
| "serve V M K header D (ApplyWrites input) R =
     given (extract_standard (mg_auth M) (mg_tokens M) (ch_now D) header) R (\<lambda>acs.
     given (input_of input) R (\<lambda>input. on_serving TheApplied (apply_asked V M (ch_asking D) acs input R)))"
| "serve V M K header D (UploadBlob mime body) R =
     given (extract_standard (mg_auth M) (mg_tokens M) (ch_now D) header) R (\<lambda>acs.
     on_server TheBlob R
       (blob_upload V M (sweep_of K D) (ch_now D) (ch_scratch D) (ch_key D) acs mime body (rn_server R)))"
| "serve V M K header D (GetBlob query) R =
     given (params_of query) R (\<lambda>(did, cid).
     reading_only TheFile R (blob_serve V (mg_texts M) (blobs_dir (mg_directory M)) did cid (rn_server R)))"
| "serve V M K header D (ListBlobs query) R =
     given (params_of query) R (\<lambda>(did, since, limit, cursor).
     reading_only Cids R (blob_list V (mg_texts M) did since limit cursor (rn_server R)))"
| "serve V M K header D (ListMissingBlobs query) R =
     given (extract_standard (mg_auth M) (mg_tokens M) (ch_now D) header) R (\<lambda>acs.
     given (params_of query) R (\<lambda>(limit, cursor).
     reading_only Unuploaded R (blob_list_missing V (mg_texts M) acs limit cursor (rn_server R))))"
| "serve V M K header D (GetRepo query) R =
     given (params_of query) R (\<lambda>(did, since).
     case get_repo V M did since (rn_server R) of
       None \<Rightarrow> None
     | Some r \<Rightarrow> reading_only (\<lambda>(headers, pieces, e). Streamed headers pieces e) R r)"
| "serve V M K header D (GetBlocks query listed) R =
     given (params_of query) R (\<lambda>did.
     given (params_of listed) R (\<lambda>pairs. reading_only TheFile R (get_blocks V M did pairs (rn_server R))))"
| "serve V M K header D (ProveRecord query) R =
     given (params_of query) R (\<lambda>(did, coll, key). reading_only TheFile R (get_record_proof V M did coll key (rn_server R)))"
| "serve V M K header D (GetLatestCommit query) R =
     given (params_of query) R (\<lambda>did. reading_only TheCommit R (get_latest_commit V (mg_texts M) did (rn_server R)))"
| "serve V M K header D (GetRepoStatus query) R =
     given (params_of query) R (\<lambda>did. reading_only TheStatus R (get_repo_status V (mg_texts M) did (rn_server R)))"
| "serve V M K header D (ListRepos query) R =
     given (params_of query) R (\<lambda>(limit, cursor). reading_only Repos R (list_repos V (mg_texts M) limit cursor (rn_server R)))"
| "serve V M K header D (GetRecord query) R =
     given (params_of query) R (\<lambda>query. reading_only TheRecord R (get_record V M query (rn_server R)))"
| "serve V M K header D (ListRecords query) R =
     given (params_of query) R (\<lambda>query. reading_only TheRecords R (list_records V M query (rn_server R)))"
| "serve V M K header D (DescribeRepo query) R =
     given (params_of query) R (\<lambda>repo. on_server TheRepo R (describe_repo V M repo (rn_server R)))"
| "serve V M K header D (CreateSession input) R =
     given (input_of input) R (\<lambda>(identifier, password).
     on_server TheSession R (session_create V M (ch_now D) (ch_id D) identifier password (rn_server R)))"
| "serve V M K header D GetSession R =
     given (extract_standard (mg_auth M) (mg_tokens M) (ch_now D) header) R (\<lambda>acs.
     reading_only TheUser R (session_get V (mg_texts M) acs (rn_server R)))"
| "serve V M K header D RefreshSession R =
     given (extract_refresh (mg_auth M) (mg_tokens M) (ch_now D) header RefuseExpired) R (\<lambda>rf.
     case session_refresh V M (ch_exchange D) (ch_now D) rf (rn_server R) of
       None \<Rightarrow> None
     | Some x \<Rightarrow> on_server TheSession R x)"
| "serve V M K header D DeleteSession R =
     given (extract_refresh (mg_auth M) (mg_tokens M) (ch_now D) header AllowExpired) R (\<lambda>rf.
     on_server (\<lambda>_. Nothing_More) R (session_delete rf (rn_server R)))"

text \<open>Whether serving a call read who was asking, which is what marks the answer as private.\<close>

fun reads_credential :: "call \<Rightarrow> bool" where
  "reads_credential (CreateInviteCode _) = True"
| "reads_credential (CreateInviteCodes _) = True"
| "reads_credential (CreateAppPassword _) = True"
| "reads_credential ListAppPasswords = True"
| "reads_credential (RevokeAppPassword _) = True"
| "reads_credential (CreateRecord _) = True"
| "reads_credential (PutRecord _) = True"
| "reads_credential (DeleteRecord _) = True"
| "reads_credential (ApplyWrites _) = True"
| "reads_credential (UploadBlob _ _) = True"
| "reads_credential (ListMissingBlobs _) = True"
| "reads_credential GetSession = True"
| "reads_credential RefreshSession = True"
| "reads_credential DeleteSession = True"
| "reads_credential _ = False"


section \<open>Layers\<close>

text \<open>What the router makes of a request: a call; a method of a lexicon under another verb, with that and the one it is
  served under; one of the three plain pages under another verb, which \<open>axum\<close> answers itself; or a path of no route.\<close>

datatype routed = To call | WrongVerb string string | NotAllowed | Nowhere

datatype 'c reply =
    Limited reading
  | Unserved "nat + xrpc_error" "reading option"
  | Answered "xrpc_error + 'c answer" bool "reading option"

definition dispatch ::
    "'c server_lib \<Rightarrow> ('c::linorder, 'sk, 'vk, 'sg, json, 'w, 'l, 'e, 'j) manager \<Rightarrow> ('sk, 'vk) config \<Rightarrow> (request \<Rightarrow> routed) \<Rightarrow> string option option
      \<Rightarrow> 'sk chance \<Rightarrow> request \<Rightarrow> reading option \<Rightarrow> 'w serving \<Rightarrow> ('c reply \<times> 'w serving) option" where
  "dispatch V M K axum header D rq rd R =
     (case axum rq of
        Nowhere \<Rightarrow> Some (Unserved (route_fallback (rq_path rq)) rd, R)
      | WrongVerb used wanted \<Rightarrow> Some (Unserved (Inr (mismatch used wanted)) rd, R)
      | NotAllowed \<Rightarrow> Some (Unserved (Inl 405) rd, R)
      | To call \<Rightarrow> map_option (\<lambda>(r, R). (Answered r (reads_credential call) rd, R)) (serve V M K header D call R))"

definition respond ::
    "limit_lib \<Rightarrow> 'c server_lib \<Rightarrow> ('c::linorder, 'sk, 'vk, 'sg, json, 'w, 'l, 'e, 'j) manager \<Rightarrow> ('sk, 'vk) config \<Rightarrow> (request \<Rightarrow> routed) \<Rightarrow> ip_addr
      \<Rightarrow> string option option \<Rightarrow> 'sk chance \<Rightarrow> request \<Rightarrow> 'w serving \<Rightarrow> ('c reply \<times> 'w serving) option" where
  "respond B V M K axum peer header D rq R =
     (case rn_limits R of
        None \<Rightarrow> dispatch V M K axum header D rq None R
      | Some ls \<Rightarrow>
          (case global_limit B (aq_now (ch_asking D)) ls peer rq of
             (Refused rd, ls) \<Rightarrow> Some (Limited rd, R\<lparr>rn_limits := Some ls\<rparr>)
           | (Passed rq rd, ls) \<Rightarrow> dispatch V M K axum header D rq rd (R\<lparr>rn_limits := Some ls\<rparr>)))"

end
