(* ===== verification/Serve_Props.thy ===== *)
theory Serve_Props
  imports Serve Server_Put
begin

text \<open>
  What a server keeps of an account whatever it is asked: only a request that presents a token of the account, or the
  signup that mints its identifier, changes its repository, its rows, its passwords or what is logged of it.
\<close>

section \<open>What is an account's own\<close>

definition untouched :: "string \<Rightarrow> 'w server \<Rightarrow> 'w server \<Rightarrow> bool" where
  "untouched d S S' \<longleftrightarrow>
     map_option (blob_rows_update (\<lambda>_. [])) (map_of (sv_actors S') d) = map_option (blob_rows_update (\<lambda>_. [])) (map_of (sv_actors S) d)
     \<and> map_of (actor_rows (sv_accounts S')) d = map_of (actor_rows (sv_accounts S)) d
     \<and> map_of (account_rows (sv_accounts S')) d = map_of (account_rows (sv_accounts S)) d
     \<and> map_of (root_rows (sv_accounts S')) d = map_of (root_rows (sv_accounts S)) d
     \<and> filter (\<lambda>r. ap_did r = d) (app_rows (sv_accounts S')) = filter (\<lambda>r. ap_did r = d) (app_rows (sv_accounts S))
     \<and> filter (\<lambda>r. lr_did r = d) (sq_rows (sv_log S')) = filter (\<lambda>r. lr_did r = d) (sq_rows (sv_log S))"

lemma untouched_refl [simp]: "untouched d S S"
  by (simp add: untouched_def)

lemma untouched_trans: "untouched d S T \<Longrightarrow> untouched d T U \<Longrightarrow> untouched d S U"
  by (simp add: untouched_def)

lemma untouched_update [simp]:
  "untouched d S (S'\<lparr>sv_files := f\<rparr>) = untouched d S S'" "untouched d S (S'\<lparr>sv_clock := c\<rparr>) = untouched d S S'"
  "untouched d S (S'\<lparr>sv_plc := w\<rparr>) = untouched d S S'"
  "d \<noteq> e \<Longrightarrow> untouched d S (S'\<lparr>sv_actors := al_upd e A (sv_actors S')\<rparr>) = untouched d S S'"
  by (simp_all add: untouched_def)

text \<open>Changes to the account database that are not to an account.\<close>

lemma untouched_tables [simp]:
  "untouched d S (S'\<lparr>sv_accounts := (sv_accounts S')\<lparr>refresh_tokens := ts\<rparr>\<rparr>) = untouched d S S'"
  "untouched d S (S'\<lparr>sv_accounts := (sv_accounts S')\<lparr>invite_codes := cs\<rparr>\<rparr>) = untouched d S S'"
  by (simp_all add: untouched_def)

lemma only_of_untouched:
  assumes "only_of did S S'" "d \<noteq> did_str did"
  shows "untouched d S S'"
proof -
  obtain rs where rs: "sq_rows (sv_log S') = sq_rows (sv_log S) @ rs" "\<forall>r \<in> set rs. lr_did r = did_str did"
    using assms(1) unfolding only_of_def by blast
  then have "filter (\<lambda>r. lr_did r = d) rs = []" using assms(2) by (auto simp: filter_empty_conv)
  moreover have db: "sv_accounts S' = (sv_accounts S)\<lparr>root_rows := root_rows (sv_accounts S')\<rparr>" using assms(1) by (simp add: only_of_def)
  have "actor_rows (sv_accounts S') = actor_rows (sv_accounts S)" "account_rows (sv_accounts S') = account_rows (sv_accounts S)"
    "app_rows (sv_accounts S') = app_rows (sv_accounts S)" by (subst db, simp)+
  ultimately show ?thesis using assms rs(1) by (simp add: untouched_def only_of_def)
qed


section \<open>Accounts, sessions and invites\<close>

lemma make_app_password_untouched:
  assumes "make_app_password J scrypt sha drawn now did name p (sv_accounts S) = (r, db)" "d \<noteq> did_str did"
  shows "untouched d S (S\<lparr>sv_accounts := db\<rparr>)"
proof -
  have "db = sv_accounts S \<or> (\<exists>row. db = (sv_accounts S)\<lparr>app_rows := app_rows (sv_accounts S) @ [row]\<rparr> \<and> ap_did row = did_str did)"
    using assms(1) by (auto simp: make_app_password_def create_app_password_def Let_def split: if_splits)
  then show ?thesis using assms(2) by (auto simp: untouched_def)
qed

lemma revoke_app_untouched:
  "d \<noteq> did_str did \<Longrightarrow> untouched d S (S\<lparr>sv_accounts := snd (revoke_app_password did name (sv_accounts S))\<rparr>)"
  by (auto simp: untouched_def revoke_app_password_def intro: filter_cong)

lemma insert_invites:
  "foldE (insert_invite J now who creator uses) codes db = (Inr db' :: 'e store_error + accounts) \<Longrightarrow> \<exists>cs. db' = db\<lparr>invite_codes := cs\<rparr>"
proof (induction codes arbitrary: db)
  case Nil
  then show ?case by (intro exI [of _ "invite_codes db"]) simp
next
  case (Cons c codes)
  from Cons.prems obtain db1 where db1: "insert_invite J now who creator uses c db = (Inr db1 :: 'e store_error + accounts)"
      "foldE (insert_invite J now who creator uses) codes db1 = (Inr db' :: 'e store_error + accounts)"
    by (auto simp: result_simps)
  then show ?case using Cons.IH [OF db1(2)] by (auto simp: insert_invite_def split: if_splits)
qed

lemma write_invites_codes: "write_invites J now uses ws db = (r, db') \<Longrightarrow> \<exists>cs. db' = db\<lparr>invite_codes := cs\<rparr>"
proof (induction ws arbitrary: db r db')
  case Nil
  then show ?case by (intro exI [of _ "invite_codes db"]) simp
next
  case (Cons w ws)
  obtain who codes where w: "w = (who, codes)" by fastforce
  show ?case
  proof (cases "create_invites J now codes who ADMINISTRATOR uses db :: 'a store_error + accounts")
    case (Inl e)
    then show ?thesis using Cons.prems w by (intro exI [of _ "invite_codes db"]) simp
  next
    case (Inr db1)
    obtain r1 db2 where r1: "write_invites J now uses ws db1 = (r1, db2)" by fastforce
    obtain cs where "db1 = db\<lparr>invite_codes := cs\<rparr>" using insert_invites [OF Inr [unfolded create_invites_def]] by blast
    moreover obtain cs' where "db2 = db1\<lparr>invite_codes := cs'\<rparr>" using Cons.IH [OF r1] by blast
    ultimately show ?thesis using Cons.prems w Inr r1 by (auto split: sum.splits)
  qed
qed

lemma mint_invites_codes: "mint_invites J host now drawn whom per uses db = (r, db') \<Longrightarrow> \<exists>cs. db' = db\<lparr>invite_codes := cs\<rparr>"
  by (auto simp: mint_invites_def Let_def dest: write_invites_codes split: if_splits) (intro exI [of _ "invite_codes db"], simp)+

text \<open>Other servers on the same database that do nothing but exchange tokens meanwhile.\<close>

definition but_tokens :: "accounts \<Rightarrow> accounts" where
  "but_tokens db = db\<lparr>refresh_tokens := []\<rparr>"

definition others_tokens :: "exchange \<Rightarrow> bool" where
  "others_tokens E \<longleftrightarrow> (\<forall>i db. but_tokens (ex_others E i db) = but_tokens db)"

lemma but_tokens_update [simp]: "but_tokens (db\<lparr>refresh_tokens := ts\<rparr>) = but_tokens db"
  by (simp add: but_tokens_def)

lemma but_tokens_steps [simp]:
  "but_tokens (insert_session J s db) = but_tokens db" "but_tokens (snd (expire_sessions J did now db)) = but_tokens db"
  "but_tokens (snd (rotate_row J jti u s db)) = but_tokens db"
  by (auto simp: insert_session_def expire_sessions_def rotate_row_def Let_def split: option.splits)

lemma but_tokens_untouched:
  assumes "but_tokens db = but_tokens (sv_accounts S)"
  shows "untouched d S (S\<lparr>sv_accounts := db\<rparr>)"
proof -
  have "actor_rows db = actor_rows (sv_accounts S)" "account_rows db = account_rows (sv_accounts S)" "root_rows db = root_rows (sv_accounts S)"
    "app_rows db = app_rows (sv_accounts S)"
    using arg_cong [OF assms, of actor_rows] arg_cong [OF assms, of account_rows] arg_cong [OF assms, of root_rows]
      arg_cong [OF assms, of app_rows] by (simp_all add: but_tokens_def)
  then show ?thesis by (simp add: untouched_def)
qed

lemma rotate_turn_tokens:
  assumes "others_tokens E"
  shows "but_tokens (snd (rotate_turn J E jti i db)) = but_tokens db"
proof -
  have o: "but_tokens (ex_others E k x) = but_tokens x" for k x using assms by (simp add: others_tokens_def)
  have r: "rotate_row J jti u s x = (b, y) \<Longrightarrow> but_tokens y = but_tokens x" for u s x b y
    using but_tokens_steps(3) [of J jti u s x] by simp
  show ?thesis by (auto simp: rotate_turn_def Let_def o dest: r split: sum.splits option.splits prod.splits bool.splits)
qed

lemma rotate_loop_tokens:
  assumes "rotate_loop J E jti i db = Some x"
  shows "others_tokens E \<longrightarrow> but_tokens (snd x) = but_tokens db"
proof (rule rotate_loop.raw_induct [OF _ assms, where P = "\<lambda>J E jti i db x. others_tokens E \<longrightarrow> but_tokens (snd x) = but_tokens db"])
  fix f :: "('c, 'j) accounts_lib_scheme \<Rightarrow> exchange \<Rightarrow> string \<Rightarrow> nat \<Rightarrow> accounts \<Rightarrow> (('c store_error + session option) \<times> accounts) option"
    and J E jti i db x
  assume IH: "\<And>J E jti i db x. f J E jti i db = Some x \<Longrightarrow> others_tokens E \<longrightarrow> but_tokens (snd x) = but_tokens db"
    and f: "(case rotate_turn J E jti i db of (Some r, db) \<Rightarrow> Some (r, db) | (None, db) \<Rightarrow> f J E jti (Suc i) db) = Some x"
  obtain r db' where t: "rotate_turn J E jti i db = (r, db')" by fastforce
  show "others_tokens E \<longrightarrow> but_tokens (snd x) = but_tokens db"
  proof
    assume o: "others_tokens E"
    have "but_tokens db' = but_tokens db" using rotate_turn_tokens [OF o, of J jti i db] t by simp
    then show "but_tokens (snd x) = but_tokens db" using IH [of J E jti "Suc i" db' x] f o t by (cases r) auto
  qed
qed

lemma refresh_untouched:
  assumes "others_tokens E" "refresh_session J H T E now jti (sv_accounts S) = Some (r, db)"
  shows "untouched d S (S\<lparr>sv_accounts := db\<rparr>)"
proof -
  obtain x where "rotate_loop J E jti 0 (sv_accounts S) = Some x" "db = snd x"
    using assms(2) by (auto simp: refresh_session_def rotate_def)
  then show ?thesis using rotate_loop_tokens assms(1) by (intro but_tokens_untouched) blast
qed


section \<open>Uploads and sweeps\<close>

lemma untouched_blobs:
  assumes "map_of (sv_actors S) e = Some A" "blob_rows_update (\<lambda>_. []) A' = blob_rows_update (\<lambda>_. []) A"
  shows "untouched d S (S\<lparr>sv_actors := al_upd e A' (sv_actors S)\<rparr>)"
  using assms by (cases "d = e") (simp_all add: untouched_def)

lemma sweep_rows_blobs: "blob_rows_update (\<lambda>_. []) (snd (sweep_rows rs A)) = blob_rows_update (\<lambda>_. []) A"
  by (induction rs A rule: sweep_rows.induct) (auto simp: drop_blob_def split: prod.splits option.splits)

lemma sweep_blobs_untouched: "untouched d S (snd (sweep_blobs M Z did S))"
proof (cases "kept_until (sw_reach Z) (sw_now Z) (sw_hours Z)")
  case (Some cutoff)
  show ?thesis
  proof (cases "map_of (sv_actors S) (did_str did)")
    case None
    then show ?thesis using Some by (simp add: sweep_blobs_def stranded_def opened_def)
  next
    case (Some A)
    obtain n fs where n: "sweep_uploads (blobs_dir (mg_directory M)) did (upload_keys A) cutoff (sv_files S) = (n, fs)" by fastforce
    obtain sw A' where sw: "sweep_unclaimed (mg_texts M) cutoff A = (sw, A')" by fastforce
    have "blob_rows_update (\<lambda>_. []) A' = blob_rows_update (\<lambda>_. []) A"
      using sweep_rows_blobs [of "stale_rows (mg_texts M) cutoff A" A] sw by (simp add: sweep_unclaimed_def)
    from untouched_blobs [OF Some this, of d] show ?thesis
      using \<open>kept_until _ _ _ = Some cutoff\<close> Some n sw by (simp add: sweep_blobs_def stranded_def opened_def)
  qed
qed (simp add: sweep_blobs_def)

lemma upload_untouched: "untouched d S (snd (upload M Z now scratch key did mime b S))"
proof (cases "map_of (sv_actors S) (did_str did)")
  case None
  then show ?thesis by (simp add: upload_def opened_def)
next
  case (Some A)
  obtain r A' fs where u: "upload_blob (mg_lib M) (mg_texts M) (blobs_dir (mg_directory M)) now scratch key mime b A (sv_files S) = (r, A', fs)"
    by (metis prod_cases3)
  have "blob_rows_update (\<lambda>_. []) A' = blob_rows_update (\<lambda>_. []) A"
    using u by (auto simp: upload_blob_def add_blob_def Let_def split: sum.splits prod.splits option.splits if_splits)
  from untouched_blobs [OF Some this, of d]
  have "untouched d S (S\<lparr>sv_actors := al_upd (did_str did) A' (sv_actors S), sv_files := fs\<rparr>)" by simp
  from untouched_trans [OF this sweep_blobs_untouched [of _ _ M Z did]] this show ?thesis
    using Some u by (cases r) (simp_all add: upload_def opened_def Let_def)
qed

lemma unheld_untouched: "untouched d S (snd (unheld_files M cutoff did S))"
  by (auto simp: unheld_files_def split: sum.splits prod.splits)

lemma reconcile_loop_untouched: "untouched d S (snd (reconcile_loop M Z cutoff dids n S))"
proof (induction dids arbitrary: n S)
  case (Cons did dids)
  obtain r T where r: "sweep_blobs M Z did S = (r, T)" by fastforce
  obtain q U where q: "unheld_files M cutoff did T = (q, U)" by fastforce
  have "untouched d S T" "untouched d T U"
    using sweep_blobs_untouched [of d S M Z did] unheld_untouched [of d T M cutoff did] r q by simp_all
  then have "untouched d S U" by (rule untouched_trans)
  then show ?case using Cons.IH [of U] r q by (auto simp: Let_def intro: untouched_trans)
qed simp

lemma reconcile_untouched: "untouched d S (snd (reconcile M Z S))"
  by (simp add: reconcile_def reconcile_loop_untouched split: option.splits)


section \<open>Signing up\<close>

lemma map_of_al_del_other: "d \<noteq> k \<Longrightarrow> map_of (al_del k ps) d = map_of ps d"
  by (induction k ps rule: al_del.induct) auto

lemma discard_untouched: "d \<noteq> did_str did \<Longrightarrow> untouched d S (discard M did kept S)"
  by (auto simp: untouched_def discard_def accounts_delete_def Let_def map_of_al_del_other intro: filter_cong)

lemma undo_untouched: "d \<noteq> did_str did \<Longrightarrow> untouched d S (undo_drop M did kept rb S)"
  by (cases rb) (simp_all add: undo_drop_def discard_untouched)

lemma start_repo_untouched: "d \<noteq> did_str did \<Longrightarrow> untouched d S (snd (start_repo M D did op S))"
  by (auto simp: start_repo_def Let_def untouched_def split: sum.splits prod.splits)

lemma accounts_create_untouched:
  fixes reg :: "'c registration"
  assumes "accounts_create J now reg (sv_accounts S) = (Inr db :: 'c store_error + accounts)" "d \<noteq> did_str (acc_did (reg_account reg))"
  shows "untouched d S (S\<lparr>sv_accounts := db\<rparr>)"
proof -
  let ?a = "reg_account reg"
  obtain db1 db2 db3 where s: "db1 = sv_accounts S \<or> (\<exists>u. db1 = (sv_accounts S)\<lparr>invite_uses := u\<rparr>)"
      "insert_actor J now ?a db1 = (Inr db2 :: 'c store_error + accounts)" "insert_account ?a db2 = (Inr db3 :: 'c store_error + accounts)"
      "but_tokens db = but_tokens (upsert_root J False now (acc_did ?a) (reg_root reg) db3)"
    using assms(1) by (auto simp: accounts_create_def Let_def result_simps spend_invite_def split: option.splits if_splits) blast+
  have "untouched d S (S\<lparr>sv_accounts := db1\<rparr>)" using s(1) by (auto simp: untouched_def)
  moreover have "untouched d (S\<lparr>sv_accounts := db1\<rparr>) (S\<lparr>sv_accounts := upsert_root J False now (acc_did ?a) (reg_root reg) db3\<rparr>)"
    using s(2,3) assms(2) by (auto simp: untouched_def insert_actor_def insert_account_def upsert_root_def Let_def split: if_splits)
  moreover have "untouched d (S\<lparr>sv_accounts := upsert_root J False now (acc_did ?a) (reg_root reg) db3\<rparr>) (S\<lparr>sv_accounts := db\<rparr>)"
    using but_tokens_untouched [of db "S\<lparr>sv_accounts := upsert_root J False now (acc_did ?a) (reg_root reg) db3\<rparr>" d] s(4) by simp
  ultimately show ?thesis by (blast intro: untouched_trans)
qed

lemma settle_untouched:
  assumes "d \<noteq> did_str did"
  shows "untouched d S (snd (settle M D did h su op S))"
proof -
  obtain x T where x: "start_repo M D did op S = (x, T)" by fastforce
  have t: "untouched d S T" using start_repo_untouched [OF assms, of S M D op] x by simp
  show ?thesis
  proof (cases x)
    case (Inr rb)
    obtain root blocks where rb: "rb = (root, blocks)" by fastforce
    let ?reg = "\<lparr>reg_account = \<lparr>acc_did = did, acc_handle = Some h, acc_email = su_email su,
          acc_scrypt = password_hash (mg_scrypt M) (dw_salt D) (su_password su)\<rparr>, reg_root = root, reg_invite = su_invite su,
        reg_session = Some \<lparr>ss_id = dw_jti D, ss_did = did, ss_expires = dw_expires D + REFRESH_LIFETIME, ss_next = None, ss_app = None\<rparr>\<rparr>"
    have "untouched d T (T\<lparr>sv_accounts := db\<rparr>)" if "accounts_create (mg_texts M) (dw_registered D) ?reg (sv_accounts T) = Inr db" for db
      using accounts_create_untouched [OF that] assms by simp
    then show ?thesis using x t Inr rb by (auto simp: settle_def Let_def split: sum.splits dest: untouched_trans)
  qed (use x t in \<open>simp add: settle_def\<close>)
qed

lemma log_insert_rows: "log_insert now did ev b q = (Inr (n, q') :: 'c store_error + _) \<Longrightarrow> d \<noteq> did_str did \<Longrightarrow>
    filter (\<lambda>r. lr_did r = d) (sq_rows q') = filter (\<lambda>r. lr_did r = d) (sq_rows q)"
  by (auto simp: log_insert_def Let_def split: if_splits)

lemma extend_rows: "extend_loop now did bs ns q = (Inr (ms, q') :: 'c store_error + _) \<Longrightarrow> d \<noteq> did_str did \<Longrightarrow>
    filter (\<lambda>r. lr_did r = d) (sq_rows q') = filter (\<lambda>r. lr_did r = d) (sq_rows q)"
proof (induction bs arbitrary: ns q)
  case (Cons b bs)
  obtain ev body where b: "b = (ev, body)" by fastforce
  obtain n q1 where "log_insert now did ev body q = (Inr (n, q1) :: 'c store_error + _)" "extend_loop now did bs (ns @ [n]) q1 = (Inr (ms, q') :: 'c store_error + _)"
    using Cons.prems(1) b by (auto simp: result_simps)
  then show ?case using Cons.IH [of "ns @ [n]" q1] Cons.prems(2) log_insert_rows [of now did ev body q n q1 d] by simp
qed simp

lemma log_account_untouched: "d \<noteq> did_str did \<Longrightarrow> untouched d S (snd (log_account M D did h c rv bm S))"
  by (auto simp: log_account_def log_extend_def untouched_def split: sum.splits dest: extend_rows)

lemma create_guarded_untouched:
  assumes d: "d \<noteq> did_str did"
  shows "untouched d S (snd (create_guarded M D su h op did S))"
proof -
  obtain x T where x: "settle M D did h su op S = (x, T)" by fastforce
  have t: "untouched d S T" using settle_untouched [OF d, of S M D h su op] x by simp
  show ?thesis
  proof (cases x)
    case (Inl e)
    then show ?thesis using x t undo_untouched [OF d, of T M] by (auto simp: create_guarded_def Let_def intro: untouched_trans)
  next
    case (Inr y)
    obtain pair bm c rv where y: "y = (pair, bm, c, rv)" by (metis prod_cases4)
    obtain reg w where w: "plc_send (mg_plc_lib M) (mg_net M) (mg_plc M) did op (sv_plc T) = (reg, w)" by fastforce
    obtain settled U where u: "(case reg of Inl (PlcUncertain _) \<Rightarrow> retire_identifier M did op (T\<lparr>sv_plc := w\<rparr>) | _ \<Rightarrow> (True, T\<lparr>sv_plc := w\<rparr>)) = (settled, U)"
      by fastforce
    have "untouched d T U" using u by (auto simp: retire_identifier_def split: sum.splits plc_error.splits prod.splits)
    then have "untouched d S U" by (rule untouched_trans [OF t])
    then have U: "untouched d S (U\<lparr>sv_files := f\<rparr>)" for f by simp
    have un: "untouched d S (undo_drop M did kept rb X)" if "untouched d S X" for kept rb X
      by (rule untouched_trans [OF that undo_untouched [OF d]])
    have l: "untouched d S L" if "log_account M D did h c rv bm X = (r, L)" "untouched d S X" for X r L
      using untouched_trans [OF that(2) log_account_untouched [OF d, of X M D h c rv bm]] that(1) by simp
    show ?thesis
      using x Inr y w u U by (auto simp: create_guarded_def Let_def split: sum.splits prod.splits intro!: un dest: l)
  qed
qed

lemma create_untouched:
  assumes "create M D su S = (r, S')"
    and "\<And>h rs op did. op_create (mg_plc_lib M) (mg_crypto M) h (mg_public_url M) (public_of (mg_crypto M) (dw_key D)) rs (mg_rotation_key M) = Inr op
      \<Longrightarrow> op_did (mg_lib M) (mg_plc_lib M) op = Inr (Some did) \<Longrightarrow> d \<noteq> did_str did"
  shows "untouched d S S'"
proof (cases "signup_checked M su S")
  case (Inr h)
  let ?rs = "List.map_filter (\<lambda>k. k) [su_recovery_key su, mg_recovery_key M]"
  show ?thesis
  proof (cases "op_create (mg_plc_lib M) (mg_crypto M) h (mg_public_url M) (public_of (mg_crypto M) (dw_key D)) ?rs (mg_rotation_key M)")
    case (Inr op)
    show ?thesis
    proof (cases "\<exists>did. op_did (mg_lib M) (mg_plc_lib M) op = Inr (Some did)")
      case True
      then obtain did where did: "op_did (mg_lib M) (mg_plc_lib M) op = Inr (Some did)" by blast
      obtain x T where x: "create_guarded M D su h op did S = (x, T)" by fastforce
      have "S' = T" using assms(1) Inr did x \<open>signup_checked M su S = Inr h\<close> by (simp add: create_def Let_def)
      then show ?thesis using create_guarded_untouched [OF assms(2) [OF Inr did], of S M D su h op] x by simp
    qed (use assms(1) Inr \<open>signup_checked M su S = Inr h\<close> in \<open>auto simp: create_def Let_def split: sum.splits option.splits\<close>)
  qed (use assms(1) Inr in \<open>simp add: create_def Let_def\<close>)
qed (use assms(1) in \<open>simp add: create_def\<close>)


section \<open>One request\<close>

text \<open>A request that shows a token of the account, good for writing records, and one in whose signup the account's
  identifier is the one of an operation signed under the key it drew.\<close>

definition presents :: "('c, 'sk, 'vk, 'sg, 'v, 'w, 'l, 'e, 'j) manager \<Rightarrow> 'sk chance \<Rightarrow> string option option \<Rightarrow> string \<Rightarrow> bool" where
  "presents M D header d \<longleftrightarrow> (\<exists>acs. extract_standard (mg_auth M) (mg_tokens M) (ch_now D) header = Inr acs \<and> did_str (at_did acs) = d)"

definition mints :: "('c::linorder, 'sk, 'vk, 'sg, 'v, 'w, 'l, 'e, 'j) manager \<Rightarrow> 'sk chance \<Rightarrow> string \<Rightarrow> bool" where
  "mints M D d \<longleftrightarrow> (\<exists>h rs op did.
     op_create (mg_plc_lib M) (mg_crypto M) h (mg_public_url M) (public_of (mg_crypto M) (dw_key (ch_signup D))) rs (mg_rotation_key M) = Inr op
     \<and> op_did (mg_lib M) (mg_plc_lib M) op = Inr (Some did) \<and> did_str did = d)"

lemma token_verify_wider:
  assumes v: "token_verify H T now token typ scopes ex = Inr cl" and sub: "set scopes \<subseteq> set wider"
  shows "token_verify H T now token typ wider ex = Inr cl"
proof -
  obtain signed sig where r: "rsplit_once CHR ''.'' token = Some (signed, sig)"
    using v by (auto simp: token_verify_def ok_or_def result_simps split: option.splits)
  obtain hd payload where s: "split_once CHR ''.'' signed = Some (hd, payload)" "CHR ''.'' \<notin> set payload"
    using v r by (auto simp: token_verify_def ok_or_def result_simps split: option.splits if_splits)
  obtain h where h: "token_part H (header_parse H) hd = Inr h" using v r s by (auto simp: token_verify_def result_simps)
  obtain sg where g: "url_decode H sig = Some sg" using v r s h by (auto simp: token_verify_def ok_or_def result_simps split: option.splits if_splits)
  obtain c where c: "token_part H (claims_parse H) payload = Inr c" using v r s h g by (auto simp: token_verify_def result_simps split: if_splits)
  have "token_verify H T now token typ sc ex =
    (if th_alg h \<noteq> ''HS256'' \<or> th_typ h \<noteq> typ \<or> sg \<noteq> hmac_sha256 H (tn_key T) signed then Inl unverifiable
     else if ex = RefuseExpired \<and> cl_exp c \<le> as_second now then Inl (named ''ExpiredToken'' (invalid_request ''Token has expired''))
     else if cl_aud c \<noteq> tn_audience T then Inl unverifiable
     else if cl_lxm c \<noteq> None \<or> cl_cnf c \<noteq> None then Inl malformed_token
     else if \<not> (case scope_from_str (cl_scope c) of None \<Rightarrow> False | Some x \<Rightarrow> x \<in> set sc)
     then Inl (named ''InvalidToken'' (invalid_request ''Bad token scope'')) else Inr c)" for sc
    using r s h g c by (simp add: token_verify_def)
  then show ?thesis using v sub by (auto split: if_splits option.splits)
qed

lemma extract_full_standard: "extract_full H T now header = Inr acs \<Longrightarrow> extract_standard H T now header = Inr acs"
proof -
  assume f: "extract_full H T now header = Inr acs"
  obtain c token cl where c: "authorization_from_headers H header = Inr c" "bearer c = Some token"
      "token_verify H T now token ''at+jwt'' FULL RefuseExpired = Inr cl"
    using f by (auto simp: extract_full_def extract_access_def verify_access_def result_simps)
  from token_verify_wider [OF c(3), of STANDARD] have "token_verify H T now token ''at+jwt'' STANDARD RefuseExpired = Inr cl"
    by (simp add: FULL_def STANDARD_def)
  then show ?thesis using f c by (simp add: extract_full_def extract_standard_def extract_access_def verify_access_def)
qed

lemma given_cases:
  assumes "given x R f = Some (r, R')"
  obtains (refused) "R' = R" | (went_on) a where "x = Inr a" "f a = Some (r, R')"
  using assms by (auto simp: given_def split: sum.splits)

lemma on_server_state: "on_server f R x = Some (r, R') \<Longrightarrow> rn_server R' = snd x"
  by (auto simp: on_server_def split: prod.splits)

lemma on_serving_state: "on_serving f x = Some (r, R') \<Longrightarrow> \<exists>r. x = Some (r, R')"
  by (auto simp: on_serving_def)

lemma reading_only_state: "reading_only f R x = Some (r, R') \<Longrightarrow> R' = R"
  by (simp add: reading_only_def)

lemma owned_untouched:
  assumes "if P then only_of did (rn_server R) (rn_server R') else R' = R \<and> Q" "d \<noteq> did_str did"
  shows "untouched d (rn_server R) (rn_server R')"
  using assms only_of_untouched by (auto split: if_splits)

lemma writes_untouched:
  assumes "\<not> presents M D header d"
    and "given (extract_standard (mg_auth M) (mg_tokens M) (ch_now D) header) R (\<lambda>acs. given (input_of input) R (\<lambda>input. on_serving f (g acs input))) = Some (r, R')"
    and "\<And>acs input r. g acs input = Some (r, R') \<Longrightarrow> if P acs input then only_of (at_did acs) (rn_server R) (rn_server R') else R' = R \<and> (\<exists>e. r = Inl e)"
  shows "untouched d (rn_server R) (rn_server R')"
  using assms(2)
proof (cases rule: given_cases)
  case (went_on acs)
  have d: "d \<noteq> did_str (at_did acs)" using assms(1) went_on(1) by (auto simp: presents_def)
  from went_on(2) show ?thesis
  proof (cases rule: given_cases)
    case (went_on input)
    then show ?thesis using on_serving_state assms(3) owned_untouched [OF _ d] by metis
  qed simp
qed simp

lemma invite_untouched:
  assumes "mint_invites J host now drawn whom per uses (sv_accounts S) = (r, db)"
  shows "untouched d S (S\<lparr>sv_accounts := db\<rparr>)"
  using mint_invites_codes [OF assms] by auto

lemma create_invite_untouched:
  "untouched d S (snd (create_invite_code V J host now drawn uses whom S))"
  "untouched d S (snd (create_invite_codes V J host now drawn per uses whoms S))"
  by (auto simp: create_invite_code_def create_invite_codes_def Let_def split: prod.splits dest: invite_untouched)

lemma session_create_untouched: "untouched d S (snd (session_create V M now jti name pw S))"
  by (auto simp: session_create_def open_session_def store_session_def intro!: but_tokens_untouched split: sum.splits)

lemma session_refresh_untouched:
  "others_tokens E \<Longrightarrow> session_refresh V M E now rf S = Some (r, S') \<Longrightarrow> untouched d S S'"
  by (auto simp: session_refresh_def split: sum.splits dest: refresh_untouched)

lemma create_account_untouched:
  assumes "\<not> mints M D d" "create_account V M (ch_signup D) input S = (r, S')"
  shows "untouched d S S'"
proof -
  have "S' = S \<or> (\<exists>su x. create M (ch_signup D) su S = (x, S'))"
    using assms(2) by (auto simp: create_account_def split: if_splits sum.splits prod.splits)
  then show ?thesis
  proof (elim disjE exE)
    fix su x assume "create M (ch_signup D) su S = (x, S')"
    then show ?thesis by (rule create_untouched) (use assms(1) in \<open>auto simp: mints_def\<close>)
  qed simp
qed

lemma describe_repo_untouched: "untouched d S (snd (describe_repo V M repo S))"
  by (auto simp: describe_repo_def did_document_def Let_def split: sum.splits prod.splits)

lemma app_password_create_untouched:
  "d \<noteq> did_str (at_did acs) \<Longrightarrow> untouched d S (snd (app_password_create V M drawn now acs name p S))"
  by (auto simp: app_password_create_def split: prod.splits dest: make_app_password_untouched)

lemma presents_other: "\<not> presents M D header d \<Longrightarrow> extract_standard (mg_auth M) (mg_tokens M) (ch_now D) header = Inr acs \<Longrightarrow> d \<noteq> did_str (at_did acs)"
  by (auto simp: presents_def)

lemma serve_untouched:
  assumes s: "serve V M K header D call R = Some (r, R')" and "\<not> presents M D header d" "\<not> mints M D d" "others_tokens (ch_exchange D)"
  shows "untouched d (rn_server R) (rn_server R')"
proof (cases call)
  case (CreateRecord input)
  show ?thesis by (rule writes_untouched [OF assms(2) s [unfolded CreateRecord serve.simps]]) (erule create_owned)
next
  case (PutRecord input)
  show ?thesis by (rule writes_untouched [OF assms(2) s [unfolded PutRecord serve.simps]]) (erule put_owned)
next
  case (DeleteRecord input)
  show ?thesis by (rule writes_untouched [OF assms(2) s [unfolded DeleteRecord serve.simps]]) (erule delete_owned)
next
  case (ApplyWrites input)
  show ?thesis by (rule writes_untouched [OF assms(2) s [unfolded ApplyWrites serve.simps]]) (erule apply_owned)
next
  case (CreateAccount input)
  show ?thesis using s unfolding CreateAccount
    by (auto simp: given_def split: sum.splits prod.splits option.splits dest!: on_server_state create_account_untouched [OF assms(3)])
next
  case (CreateAppPassword input)
  show ?thesis using s unfolding CreateAppPassword
    by (auto simp: given_def app_password_create_untouched split: sum.splits
        dest!: on_server_state extract_full_standard presents_other [OF assms(2)])
next
  case (RevokeAppPassword input)
  show ?thesis using s unfolding RevokeAppPassword
    by (auto simp: given_def app_password_revoke_def revoke_app_untouched split: sum.splits dest!: on_server_state presents_other [OF assms(2)])
next
  case (UploadBlob mime body)
  show ?thesis using s unfolding UploadBlob
    by (auto simp: given_def blob_upload_def split: sum.splits prod.splits dest!: on_server_state)
      (metis snd_conv untouched_refl upload_untouched)+
next
  case RefreshSession
  show ?thesis using s unfolding RefreshSession
    by (auto simp: given_def split: sum.splits option.splits dest!: on_server_state session_refresh_untouched [OF assms(4)])
qed (use s in \<open>auto simp: given_def session_delete_def revoke_session_def create_invite_untouched session_create_untouched describe_repo_untouched
    split: sum.splits option.splits dest!: on_server_state reading_only_state\<close>)


section \<open>Queries\<close>

lemma routes_once: "distinct (map fst routes) \<and> distinct (map (snd \<circ> snd) routes)"
  by code_simp

lemma budgets_routed:
  "{(CREATE_ACCOUNT, POST, EpCreateAccount), (CREATE_SESSION, POST, EpCreateSession), (GET_REPO, GET, EpGetRepo)} \<subseteq> set routes"
  by code_simp

lemma routes_posted: "(path, verb, ep) \<in> set routes \<Longrightarrow> ep \<in> {EpCreateInviteCode, EpCreateInviteCodes, EpCreateAccount, EpCreateAppPassword,
    EpRevokeAppPassword, EpCreateRecord, EpPutRecord, EpDeleteRecord, EpApplyWrites, EpUploadBlob, EpCreateSession, EpRefreshSession, EpDeleteSession}
  \<Longrightarrow> verb = POST"
proof -
  have "list_all (\<lambda>(path, verb, ep). ep \<in> {EpCreateInviteCode, EpCreateInviteCodes, EpCreateAccount, EpCreateAppPassword,
    EpRevokeAppPassword, EpCreateRecord, EpPutRecord, EpDeleteRecord, EpApplyWrites, EpUploadBlob, EpCreateSession, EpRefreshSession, EpDeleteSession}
    \<longrightarrow> verb = POST) routes" by code_simp
  then show "(path, verb, ep) \<in> set routes \<Longrightarrow> ep \<in> {EpCreateInviteCode, EpCreateInviteCodes, EpCreateAccount, EpCreateAppPassword,
    EpRevokeAppPassword, EpCreateRecord, EpPutRecord, EpDeleteRecord, EpApplyWrites, EpUploadBlob, EpCreateSession, EpRefreshSession, EpDeleteSession}
  \<Longrightarrow> verb = POST" by (auto simp: list_all_iff)
qed

text \<open>A method under \<open>GET\<close> changes nothing here; what the directory is asked is all that may show outside.\<close>

lemma queries_change_nothing:
  assumes "(path, GET, endpoint_of call) \<in> set routes" "serve V M K header D call R = Some (r, R')"
  shows "\<exists>w. R' = R\<lparr>rn_server := (rn_server R)\<lparr>sv_plc := w\<rparr>\<rparr>"
proof -
  have same: "\<exists>w. T = T\<lparr>rn_server := (rn_server T)\<lparr>sv_plc := w\<rparr>\<rparr>" for T :: "'b serving"
    by (intro exI [of _ "sv_plc (rn_server T)"]) simp
  show ?thesis
  proof (cases call)
    case (DescribeRepo query)
    have d: "\<exists>w. snd (describe_repo V M repo S) = S\<lparr>sv_plc := w\<rparr>" for repo S
    proof (cases "found_account V (mg_texts M) repo S")
      case (Inl e)
      then show ?thesis by (intro exI [of _ "sv_plc S"]) (simp add: describe_repo_def)
    qed (auto simp: describe_repo_def did_document_def Let_def split: prod.splits sum.splits)
    show ?thesis
    proof (cases "params_of query")
      case (Inl e)
      then show ?thesis using assms(2) same by (simp add: DescribeRepo given_def)
    next
      case (Inr repo)
      then have "R' = R\<lparr>rn_server := snd (describe_repo V M repo (rn_server R))\<rparr>"
        using assms(2) by (auto simp: DescribeRepo given_def on_server_def split: prod.splits)
      moreover obtain w where "snd (describe_repo V M repo (rn_server R)) = (rn_server R)\<lparr>sv_plc := w\<rparr>" using d by blast
      ultimately show ?thesis by auto
    qed
  qed (use assms routes_posted [OF assms(1)] in \<open>auto simp: given_def split: sum.splits option.splits intro!: same dest!: reading_only_state\<close>)
qed


section \<open>Any run of a server\<close>

text \<open>What happens to a server: requests, and the sweep of the blobs nothing holds.\<close>

datatype 'sk happening =
    Arrives ip_addr "string option option" "'sk chance" request
  | Reconciles sweeping

inductive run ::
    "limit_lib \<Rightarrow> 'c server_lib \<Rightarrow> ('c::linorder, 'sk, 'vk, 'sg, json, 'w, 'l, 'e, 'j) manager \<Rightarrow> ('sk, 'vk) config \<Rightarrow> (request \<Rightarrow> routed)
      \<Rightarrow> 'w serving \<Rightarrow> 'sk happening list \<Rightarrow> 'w serving \<Rightarrow> bool"
  for B V M K axum where
  run_nil: "run B V M K axum R [] R"
| run_arrives: "run B V M K axum R hs R' \<Longrightarrow> respond B V M K axum peer header D rq R' = Some (a, R'')
    \<Longrightarrow> run B V M K axum R (hs @ [Arrives peer header D rq]) R''"
| run_reconciles: "run B V M K axum R hs R'
    \<Longrightarrow> run B V M K axum R (hs @ [Reconciles Z]) (R'\<lparr>rn_server := snd (reconcile M Z (rn_server R'))\<rparr>)"

text \<open>Those that may change an account.\<close>

fun entitled :: "('c::linorder, 'sk, 'vk, 'sg, 'v, 'w, 'l, 'e, 'j) manager \<Rightarrow> string \<Rightarrow> 'sk happening \<Rightarrow> bool" where
  "entitled M d (Arrives peer header D rq) \<longleftrightarrow> presents M D header d \<or> mints M D d"
| "entitled M d (Reconciles Z) \<longleftrightarrow> False"

fun neighbourly :: "'sk happening \<Rightarrow> bool" where
  "neighbourly (Arrives peer header D rq) \<longleftrightarrow> others_tokens (ch_exchange D)"
| "neighbourly (Reconciles Z) \<longleftrightarrow> True"

lemma dispatch_untouched:
  assumes "dispatch V M K axum header D rq rd R = Some (a, R')" "\<not> presents M D header d" "\<not> mints M D d" "others_tokens (ch_exchange D)"
  shows "untouched d (rn_server R) (rn_server R')"
proof (cases "axum rq")
  case (To call)
  then obtain r where "serve V M K header D call R = Some (r, R')" using assms(1) by (auto simp: dispatch_def)
  then show ?thesis by (rule serve_untouched [OF _ assms(2-4)])
qed (use assms(1) in \<open>auto simp: dispatch_def\<close>)

lemma respond_untouched:
  assumes "respond B V M K axum peer header D rq R = Some (a, R')" "\<not> presents M D header d" "\<not> mints M D d" "others_tokens (ch_exchange D)"
  shows "untouched d (rn_server R) (rn_server R')"
proof (cases "rn_limits R")
  case None
  then show ?thesis using assms(1) by (intro dispatch_untouched [OF _ assms(2-4)]) (simp add: respond_def)
next
  case (Some ls)
  obtain v ls' where v: "global_limit B (aq_now (ch_asking D)) ls peer rq = (v, ls')" by fastforce
  show ?thesis
  proof (cases v)
    case (Passed rq' rd)
    then have "dispatch V M K axum header D rq' rd (R\<lparr>rn_limits := Some ls'\<rparr>) = Some (a, R')"
      using assms(1) Some v by (simp add: respond_def)
    from dispatch_untouched [OF this assms(2-4)] show ?thesis by simp
  qed (use assms(1) Some v in \<open>auto simp: respond_def\<close>)
qed

text \<open>C21: whatever requests reach a server and however its blobs are swept between them, an account keeps its repository,
  index, rows, password, app passwords and log entries as they were, unless a request presented a token of that account
  that verifies as good for writing, or was the signup that minted it.\<close>

theorem only_by_token:
  assumes "run B V M K axum R hs R'" "\<forall>h \<in> set hs. neighbourly h \<and> \<not> entitled M d h"
  shows "untouched d (rn_server R) (rn_server R')"
  using assms
proof (induction rule: run.induct)
  case (run_arrives R hs R' peer header D rq a R'')
  then have "untouched d (rn_server R') (rn_server R'')" by (intro respond_untouched [of B V M K axum peer header D rq R' a R'']) auto
  then show ?case using run_arrives by (auto intro: untouched_trans)
next
  case (run_reconciles R hs R' Z)
  then show ?case using reconcile_untouched [of d "rn_server R'" M Z] by (auto intro: untouched_trans)
qed simp


section \<open>Example\<close>

text \<open>A server asked to put a record by a caller that shows nothing, swept, and asked what it is.\<close>

definition toy_config :: "(bool, bool) config" where
  "toy_config = \<lparr>cf_hostname = ''p'', cf_port = 2583, cf_service_did = ''did:web:p'', cf_data_directory = ''d'', cf_jwt_secret = ''k'',
     cf_admin_password = ''a'', cf_plc_rotation_key = KSecp256k1 True, cf_plc_url = ''u'', cf_recovery_key = None, cf_handle_domains = [''.test''],
     cf_reserved_handles = [], cf_invite_required = False, cf_blob_upload_limit = 5, cf_blob_unclaimed_hours = 1, cf_privacy_policy_url = None,
     cf_terms_of_service_url = None, cf_contact_email = None, cf_rate_limits = False, cf_rate_limit_bypass_key = None,
     cf_rate_limit_bypass_ips = []\<rparr>"

definition toy_chance :: "bool chance" where
  "toy_chance = \<lparr>ch_now = 0, ch_asking = toy_asking, ch_id = ''j'', ch_exchange = \<lparr>ex_now = (\<lambda>_. 0), ex_fresh = (\<lambda>_. ''f''), ex_others = (\<lambda>_ db. db)\<rparr>,
     ch_password = ''p'', ch_invites = (\<lambda>_ _. ''i''), ch_signup = toy_draws, ch_reach = 0, ch_scratch = [], ch_key = ''u''\<rparr>"

definition toy_asked_at :: "string \<Rightarrow> request" where
  "toy_asked_at path = \<lparr>rq_path = path, rq_forwarded = [], rq_bypass = None, rq_upper = None, rq_body = None\<rparr>"

definition toy_axum :: "request \<Rightarrow> routed" where
  "toy_axum rq = (if rq_path rq = ''/xrpc/com.atproto.repo.putRecord'' then To (PutRecord (Inr toy_putting)) else To DescribeServer)"

definition toy_held :: "nat serving" where
  "toy_held = \<lparr>rn_limits = None, rn_server = toy_server\<lparr>sv_actors := [(''did:web:a'', actor_new (Did ''did:web:a''))]\<rparr>\<rparr>"

lemma op_did_plc:
  assumes "op_did L K op = Inr (Some did)"
  shows "take 8 (did_str did) = ''did:plc:''"
proof -
  obtain b where b: "plc_encode (op_cbor K) op = Inr b" using assms by (cases "plc_encode (op_cbor K) op") (simp_all add: op_did_def)
  have "did_from_str (''did:plc:'' @ take DID_LENGTH (base32 (sha256 L b))) = Inr did"
    using assms by (cases "did_from_str (''did:plc:'' @ take DID_LENGTH (base32 (sha256 L b)))") (simp_all add: op_did_def b)
  then have "did_str did = ''did:plc:'' @ take DID_LENGTH (base32 (sha256 L b))"
    by (cases did) (auto simp: did_from_str_def newtype_from_str_def result_simps)
  then show ?thesis by simp
qed

lemma toy_unentitled: "\<not> entitled toy_site ''did:web:a'' (Arrives peer None D rq)"
proof -
  have "\<not> mints toy_site D ''did:web:a''" by (auto simp: mints_def dest!: op_did_plc)
  moreover have "extract_standard H T now None \<noteq> Inr acs" for H T now acs
    by (simp add: extract_standard_def extract_access_def authorization_from_headers_def authorization_parse_def bearer_def)
  ultimately show ?thesis by (simp add: presents_def)
qed

theorem only_by_token_witness:
  "\<exists>R'. run toy_limit_lib toy_answers toy_site toy_config toy_axum toy_held
      [Arrives (V4 [0, 0, 0, 0]) None toy_chance (toy_asked_at ''/xrpc/com.atproto.repo.putRecord''), Reconciles \<lparr>sw_reach = 0, sw_hours = 1, sw_now = 0\<rparr>,
       Arrives (V4 [0, 0, 0, 0]) None toy_chance (toy_asked_at ''/xrpc/com.atproto.server.describeServer'')] R'
    \<and> untouched ''did:web:a'' (rn_server toy_held) (rn_server R')"
proof -
  let ?Z = "\<lparr>sw_reach = 0, sw_hours = 1, sw_now = 0\<rparr>"
  let ?put = "toy_asked_at ''/xrpc/com.atproto.repo.putRecord''" and ?describe = "toy_asked_at ''/xrpc/com.atproto.server.describeServer''"
  let ?hs = "[Arrives (V4 [0, 0, 0, 0]) None toy_chance ?put, Reconciles ?Z, Arrives (V4 [0, 0, 0, 0]) None toy_chance ?describe]"
  have p: "respond toy_limit_lib toy_answers toy_site toy_config toy_axum (V4 [0, 0, 0, 0]) None toy_chance ?put toy_held
      = Some (Answered (Inl auth_missing) True None, toy_held)"
    by (simp add: respond_def dispatch_def toy_held_def toy_axum_def toy_asked_at_def given_def extract_standard_def extract_access_def
        authorization_from_headers_def authorization_parse_def bearer_def)
  let ?R = "toy_held\<lparr>rn_server := snd (reconcile toy_site ?Z (rn_server toy_held))\<rparr>"
  have q: "respond toy_limit_lib toy_answers toy_site toy_config toy_axum (V4 [0, 0, 0, 0]) None toy_chance ?describe ?R
      = Some (Answered (Inr (TheServer (describe_server toy_config))) False None, ?R)"
    by (simp add: respond_def dispatch_def toy_held_def toy_axum_def toy_asked_at_def reading_only_def told_def)
  have "run toy_limit_lib toy_answers toy_site toy_config toy_axum toy_held ?hs ?R"
    using run_arrives [OF run_reconciles [OF run_arrives [OF run_nil p], of ?Z] q] by simp
  moreover have "\<forall>h \<in> set ?hs. neighbourly h \<and> \<not> entitled toy_site ''did:web:a'' h"
    using toy_unentitled by (simp add: toy_chance_def others_tokens_def)
  ultimately show ?thesis using only_by_token by blast
qed

end
