(* ===== verification/Start.thy ===== *)
theory Start
  imports Serve
begin

text \<open>
  The start of a server: \<open>serve\<close> of \<open>src/main.rs\<close>, \<open>Context::open\<close> of \<open>src/server.rs\<close>, the opening of a database in
  \<open>src/store/db.rs\<close> and the marker of \<open>src/store.rs\<close>. What the operating system and SQLite answer on the way is an
  argument: a directory that cannot be made, a file that is no database, a migration that fails, a port that is
  taken, a marker that cannot be written.
\<close>

section \<open>Opening a database\<close>

text \<open>\<open>refused\<close> is the error of making the directory, of opening the file or of one of the pragmas, where there was
  one. A migration runs in a transaction, so that one that fails leaves the file as it was.\<close>

definition db_open :: "'c store_error option \<Rightarrow> ('c, 'd) migration list \<Rightarrow> 'd ledgered \<Rightarrow> ('c store_error + unit) \<times> 'd ledgered" where
  "db_open refused migrations db =
     (case refused of
        Some e \<Rightarrow> (Inl e, db)
      | None \<Rightarrow> (case migrate migrations db of Inl e \<Rightarrow> (Inl e, db) | Inr db \<Rightarrow> (Inr (), db)))"

text \<open>The migrations of the two databases by name; \<open>sql\<close> is what SQLite makes of the batch of one.\<close>

definition accounts_migrations :: "(string \<Rightarrow> accounts \<Rightarrow> string + accounts) \<Rightarrow> ('c, accounts) migration list" where
  "accounts_migrations sql =
     map (\<lambda>n. (n, \<lambda>d. map_err Sqlite (sql n d))) [''001'', ''002'', ''003'', ''004'', ''005'', ''006'', ''007'', ''008'']"

definition sequencer_migrations :: "(string \<Rightarrow> sequencer \<Rightarrow> string + sequencer) \<Rightarrow> ('c, sequencer) migration list" where
  "sequencer_migrations sql = map (\<lambda>n. (n, \<lambda>d. map_err Sqlite (sql n d))) [''001'']"

text \<open>What a server that is not running has left: its data, and the ledgers of its two databases.\<close>

record 'w left =
  lf_server :: "'w server"
  lf_accounts :: "string list option"
  lf_sequencer :: "string list option"

definition accounts_file :: "'w left \<Rightarrow> accounts ledgered" where
  "accounts_file D = \<lparr>ledger = lf_accounts D, held_data = sv_accounts (lf_server D)\<rparr>"

definition sequencer_file :: "'w left \<Rightarrow> sequencer ledgered" where
  "sequencer_file D = \<lparr>ledger = lf_sequencer D, held_data = sv_log (lf_server D)\<rparr>"

definition put_accounts :: "accounts ledgered \<Rightarrow> 'w left \<Rightarrow> 'w left" where
  "put_accounts db D = D\<lparr>lf_accounts := ledger db, lf_server := (lf_server D)\<lparr>sv_accounts := held_data db\<rparr>\<rparr>"

definition put_sequencer :: "sequencer ledgered \<Rightarrow> 'w left \<Rightarrow> 'w left" where
  "put_sequencer db D = D\<lparr>lf_sequencer := ledger db, lf_server := (lf_server D)\<lparr>sv_log := held_data db\<rparr>\<rparr>"

text \<open>What the system answers to one start. The marker that could not be written has its error, and the bytes the file
  was left with where it had been opened already.\<close>

record 'c site_answers =
  an_accounts :: "'c store_error option"
  an_accounts_sql :: "string \<Rightarrow> accounts \<Rightarrow> string + accounts"
  an_sequencer :: "'c store_error option"
  an_sequencer_sql :: "string \<Rightarrow> sequencer \<Rightarrow> string + sequencer"
  an_bound :: bool
  an_marker :: "(io_error \<times> bytes option) option"
  an_clock_id :: nat

text \<open>\<open>Context::open\<close>, as far as it touches the disk: the accounts first, then the log.\<close>

definition context_open :: "'c site_answers \<Rightarrow> 'w left \<Rightarrow> ('c store_error + unit) \<times> 'w left" where
  "context_open A D =
     (case db_open (an_accounts A) (accounts_migrations (an_accounts_sql A)) (accounts_file D) of
        (Inl e, db) \<Rightarrow> (Inl e, put_accounts db D)
      | (Inr _, db) \<Rightarrow>
          let D = put_accounts db D in
          (case db_open (an_sequencer A) (sequencer_migrations (an_sequencer_sql A)) (sequencer_file D) of
             (r, db) \<Rightarrow> (r, put_sequencer db D)))"


section \<open>The marker of a running server\<close>

definition running_take ::
    "nat \<Rightarrow> nat \<Rightarrow> (io_error \<times> bytes option) option \<Rightarrow> path \<Rightarrow> fs \<Rightarrow> (io_error + bool) \<times> fs" where
  "running_take now pid failed dir fs =
     (case failed of
        Some (e, None) \<Rightarrow> (Inl e, fs)
      | Some (e, Some partial) \<Rightarrow> (Inl e, fs_write now (running_path dir) partial fs)
      | None \<Rightarrow> (Inr (fs_file fs (running_path dir) \<noteq> None), fs_write now (running_path dir) (decimal pid) fs))"

definition running_drop :: "path \<Rightarrow> fs \<Rightarrow> fs" where
  "running_drop dir fs = (case fs_remove (running_path dir) fs of Inl _ \<Rightarrow> fs | Inr fs \<Rightarrow> fs)"


section \<open>Starting\<close>

text \<open>The service a configuration asks for, over the libraries \<open>M\<close> holds.\<close>

definition manager_of ::
    "('sk, 'vk) config \<Rightarrow> ('c, 'sk, 'vk, 'sg, 'v, 'w, 'l, 'e, 'j) manager \<Rightarrow> ('c, 'sk, 'vk, 'sg, 'v, 'w, 'l, 'e, 'j) manager" where
  "manager_of K M =
     M\<lparr>mg_directory := [cf_data_directory K], mg_plc := plc_new (cf_plc_url K),
       mg_rules := rules_new (cf_handle_domains K) (cf_reserved_handles K),
       mg_tokens := \<lparr>tn_key = cf_jwt_secret K, tn_audience = cf_service_did K\<rparr>,
       mg_invite_required := cf_invite_required K, mg_recovery_key := cf_recovery_key K, mg_public_url := public_url K,
       mg_rotation_key := cf_plc_rotation_key K\<rparr>"

text \<open>\<open>Clock::new\<close>, with the id it drew.\<close>

definition clock_new :: "nat \<Rightarrow> clock" where
  "clock_new drawn = \<lparr>clock_id = drawn mod CLOCK_IDS, last_micros = 0\<rparr>"

datatype 'c start_error = Misconfigured config_error | NotOpened "'c store_error" | NotBound | NotMarked io_error

text \<open>The configuration, the databases, the socket, and the marker last; the sweep an unclean stop calls for is spawned
  behind them.\<close>

definition start ::
    "(string \<Rightarrow> ip_addr option) \<Rightarrow> environment \<Rightarrow> 'c site_answers \<Rightarrow> nat \<Rightarrow> nat \<Rightarrow> ('c::linorder, 'sk, 'vk, 'sg, 'v, 'w, 'l, 'e, 'j) manager \<Rightarrow> 'w left
      \<Rightarrow> ('c start_error + (('sk, 'vk) config \<times> ('c, 'sk, 'vk, 'sg, 'v, 'w, 'l, 'e, 'j) manager \<times> limits option \<times> bool)) \<times> 'w left" where
  "start parse env A now pid M D =
     (case from_env (mg_crypto M) parse env of
        Inl e \<Rightarrow> (Inl (Misconfigured e), D)
      | Inr K \<Rightarrow>
          (case context_open A D of
             (Inl e, D) \<Rightarrow> (Inl (NotOpened e), D)
           | (Inr _, D) \<Rightarrow>
               if \<not> an_bound A then (Inl NotBound, D)
               else
                 (case running_take now pid (an_marker A) [cf_data_directory K] (sv_files (lf_server D)) of
                    (Inl e, fs) \<Rightarrow> (Inl (NotMarked e), D\<lparr>lf_server := (lf_server D)\<lparr>sv_files := fs\<rparr>\<rparr>)
                  | (Inr stopped, fs) \<Rightarrow>
                      (Inr (K, manager_of K M, limits_new now (cf_rate_limits K) (cf_rate_limit_bypass_key K) (cf_rate_limit_bypass_ips K), stopped),
                       D\<lparr>lf_server := (lf_server D)\<lparr>sv_files := fs, sv_clock := clock_new (an_clock_id A)\<rparr>\<rparr>))))"

end
