(* ===== verification/Start_Props.thy ===== *)
theory Start_Props
  imports Start Server_Put
begin

text \<open>
  What a server that started was started with, and what a start that gave up left alone.
\<close>

section \<open>The marker\<close>

lemma fs_write_present: "fs_file (fs_write now p b fs) p \<noteq> None"
  by (auto simp: fs_write_def fs_file_def split: option.splits)

lemma fs_write_ok: "fs_ok fs \<Longrightarrow> fs_ok (fs_write now p b fs)"
  by (auto simp: fs_ok_def fs_write_def ascending_al_upd split: option.splits if_splits dest: less_SucI)

lemma running_dropped: "fs_ok fs \<Longrightarrow> fs_file (running_drop dir fs) (running_path dir) = None"
  using fs_remove_ok [of fs "running_path dir"] by (auto simp: running_drop_def content_def)


section \<open>The configuration\<close>

lemma parse_digits_most: "parse_digits most acc s = Inr n \<Longrightarrow> acc \<le> most \<Longrightarrow> n \<le> most"
  by (induction s arbitrary: acc) (auto simp: Let_def split: if_splits)

lemma parse_unsigned_most: "parse_unsigned most s = Inr n \<Longrightarrow> n \<le> most"
  by (auto simp: parse_unsigned_def simp del: parse_digits.simps split: list.splits if_splits dest: parse_digits_most)

lemma env_number_most: "env_number env most k = Inr (Some n) \<Longrightarrow> n \<le> most"
  by (auto simp: env_number_def result_simps split: option.splits dest: parse_unsigned_most)

lemma from_env_sound:
  assumes "from_env C parse env = Inr K"
  shows "SECRET_LENGTH \<le> char_count (cf_jwt_secret K)" "cf_admin_password K \<noteq> []" "keypair_algorithm (cf_plc_rotation_key K) = Secp256k1"
    "cf_port K < 2 ^ 16" "\<forall>n \<in> set (cf_reserved_handles K). CHR ''.'' \<notin> set n"
proof -
  obtain held port jwt admin rotation where e: "env_labels env ''PDS_RESERVED_HANDLES'' = Inr held" "env_number env (2 ^ 16 - 1) ''PDS_PORT'' = Inr port"
      "env_secret env ''PDS_JWT_SECRET'' = Inr jwt" "env_string env ''PDS_ADMIN_PASSWORD'' = Some admin"
      "env_rotation_key C env ''PDS_PLC_ROTATION_KEY_K256_PRIVATE_KEY_HEX'' = Inr rotation"
      "cf_reserved_handles K = held" "cf_port K = unwrap_or 2583 port" "cf_jwt_secret K = jwt" "cf_admin_password K = admin" "cf_plc_rotation_key K = rotation"
    using assms by (auto simp: from_env_def Let_def result_simps)
  show "SECRET_LENGTH \<le> char_count (cf_jwt_secret K)" using e(3,8) by (auto simp: env_secret_def result_simps split: if_splits)
  show "cf_admin_password K \<noteq> []" using e(4,9) by (auto simp: env_string_def split: option.splits if_splits)
  show "keypair_algorithm (cf_plc_rotation_key K) = Secp256k1"
    using e(5,10) by (auto simp: env_rotation_key_def result_simps split: option.splits) (metis keypair_algorithm.simps(2))
  show "cf_port K < 2 ^ 16" using e(2,7) by (cases port) (auto simp: unwrap_or_def dest: env_number_most)
  show "\<forall>n \<in> set (cf_reserved_handles K). CHR ''.'' \<notin> set n"
    using e(1,6) by (auto simp: env_labels_def find_None_iff split: option.splits)
qed

section \<open>The databases\<close>

text \<open>A file is as it was, or as the migrations it lacked made it.\<close>

definition kept_or_migrated :: "('c, 'd) migration list \<Rightarrow> 'd ledgered \<Rightarrow> 'd ledgered \<Rightarrow> bool" where
  "kept_or_migrated ms db db' \<longleftrightarrow> db' = db \<or> migrate ms db = Inr db'"

lemma db_open_cases:
  assumes "db_open refused ms db = (r, db')"
  shows "kept_or_migrated ms db db' \<and> (r = Inr () \<longrightarrow> refused = None \<and> migrate ms db = Inr db')"
  using assms by (auto simp: db_open_def kept_or_migrated_def split: option.splits sum.splits)

lemma file_simps [simp]:
  "accounts_file (put_accounts db D) = db" "sequencer_file (put_accounts db D) = sequencer_file D"
  "accounts_file (put_sequencer log D) = accounts_file D" "sequencer_file (put_sequencer log D) = log"
  "sv_files (lf_server (put_accounts db D)) = sv_files (lf_server D)" "sv_files (lf_server (put_sequencer log D)) = sv_files (lf_server D)"
  "sv_actors (lf_server (put_accounts db D)) = sv_actors (lf_server D)" "sv_actors (lf_server (put_sequencer log D)) = sv_actors (lf_server D)"
  "accounts_file (D\<lparr>lf_server := (lf_server D)\<lparr>sv_files := fs\<rparr>\<rparr>) = accounts_file D"
  "sequencer_file (D\<lparr>lf_server := (lf_server D)\<lparr>sv_files := fs\<rparr>\<rparr>) = sequencer_file D"
  "accounts_file (D\<lparr>lf_server := (lf_server D)\<lparr>sv_files := fs, sv_clock := c\<rparr>\<rparr>) = accounts_file D"
  "sequencer_file (D\<lparr>lf_server := (lf_server D)\<lparr>sv_files := fs, sv_clock := c\<rparr>\<rparr>) = sequencer_file D"
  by (simp_all add: accounts_file_def sequencer_file_def put_accounts_def put_sequencer_def)

lemma context_open_cases:
  assumes "context_open A D = (r, D')"
  shows "kept_or_migrated (accounts_migrations (an_accounts_sql A) :: ('c, accounts) migration list) (accounts_file D) (accounts_file D')
    \<and> kept_or_migrated (sequencer_migrations (an_sequencer_sql A) :: ('c, sequencer) migration list) (sequencer_file D) (sequencer_file D')
    \<and> sv_files (lf_server D') = sv_files (lf_server D) \<and> sv_actors (lf_server D') = sv_actors (lf_server D)
    \<and> (r = (Inr () :: 'c store_error + unit) \<longrightarrow>
        migrate (accounts_migrations (an_accounts_sql A) :: ('c, accounts) migration list) (accounts_file D) = Inr (accounts_file D')
        \<and> migrate (sequencer_migrations (an_sequencer_sql A) :: ('c, sequencer) migration list) (sequencer_file D) = Inr (sequencer_file D'))"
proof -
  obtain ra db where a: "db_open (an_accounts A) (accounts_migrations (an_accounts_sql A) :: ('c, accounts) migration list) (accounts_file D) = (ra, db)"
    by fastforce
  obtain rs log where l: "db_open (an_sequencer A) (sequencer_migrations (an_sequencer_sql A) :: ('c, sequencer) migration list) (sequencer_file D) = (rs, log)"
    by fastforce
  show ?thesis
    using assms a l db_open_cases [OF a] db_open_cases [OF l]
    by (cases ra) (auto simp: context_open_def Let_def kept_or_migrated_def)
qed

lemma migrated_ledger:
  assumes "migrate ms db = Inr db'" "distinct (map fst ms)"
  shows "\<exists>l. ledger db' = Some l \<and> set l = set (map fst ms)"
proof -
  have sub: "set (ledger_names db) \<subseteq> set (map fst ms)"
  proof (rule ccontr)
    assume "\<not> set (ledger_names db) \<subseteq> set (map fst ms)"
    then obtain u where "find (\<lambda>n. n \<notin> set (map fst ms)) (applied_names db) = Some u"
      by (cases "find (\<lambda>n. n \<notin> set (map fst ms)) (applied_names db)") (auto simp: find_None_iff applied_names_sort)
    then have "migrate ms db = Inl (TooNew u)" by (auto simp: migrate_def outstanding_def Let_def applied_names_def)
    then show False using assms(1) by simp
  qed
  have "ledger db' = Some (ledger_names db @ map fst (filter (\<lambda>(n, f). n \<notin> set (ledger_names db)) ms))"
    using assms(1) unfolding migrate_runs [OF assms(2) sub] by (auto simp: Let_def result_simps)
  moreover have "set (ledger_names db @ map fst (filter (\<lambda>(n, f). n \<notin> set (ledger_names db)) ms)) = set (map fst ms)"
    using sub by force
  ultimately show ?thesis by blast
qed

lemma migrations_distinct: "distinct (map fst (accounts_migrations sql))" "distinct (map fst (sequencer_migrations sql'))"
  by (simp_all add: accounts_migrations_def sequencer_migrations_def)

text \<open>A start in its stages.\<close>

lemma start_cases:
  assumes "start parse env A now pid M D = (r, D')"
  obtains (config) e where "from_env (mg_crypto M) parse env = Inl e" "r = Inl (Misconfigured e)" "D' = D"
  | (opened) K e where "from_env (mg_crypto M) parse env = Inr K" "context_open A D = (Inl e, D')" "r = Inl (NotOpened e)"
  | (bound) K where "from_env (mg_crypto M) parse env = Inr K" "context_open A D = (Inr (), D')" "r = Inl NotBound"
  | (marked) K e D1 fs where "from_env (mg_crypto M) parse env = Inr K" "context_open A D = (Inr (), D1)" "r = Inl (NotMarked e)"
      "D' = D1\<lparr>lf_server := (lf_server D1)\<lparr>sv_files := fs\<rparr>\<rparr>"
      "running_take now pid (an_marker A) [cf_data_directory K] (sv_files (lf_server D1)) = (Inl e, fs)"
  | (started) K D1 where "from_env (mg_crypto M) parse env = Inr K" "context_open A D = (Inr (), D1)" "an_marker A = None"
      "r = Inr (K, manager_of K M, limits_new now (cf_rate_limits K) (cf_rate_limit_bypass_key K) (cf_rate_limit_bypass_ips K),
        fs_file (sv_files (lf_server D1)) (running_path [cf_data_directory K]) \<noteq> None)"
      "D' = D1\<lparr>lf_server := (lf_server D1)\<lparr>sv_files := fs_write now (running_path [cf_data_directory K]) (decimal pid) (sv_files (lf_server D1)),
        sv_clock := clock_new (an_clock_id A)\<rparr>\<rparr>"
proof (cases "from_env (mg_crypto M) parse env")
  case (Inl e)
  then show ?thesis using assms config by (simp add: start_def)
next
  case (Inr K)
  obtain o1 D1 where o: "context_open A D = (o1, D1)" by fastforce
  show ?thesis
  proof (cases o1)
    case (Inl e)
    then show ?thesis using assms Inr o opened by (simp add: start_def)
  next
    case ok: (Inr u)
    obtain t fs where t: "running_take now pid (an_marker A) [cf_data_directory K] (sv_files (lf_server D1)) = (t, fs)" by fastforce
    show ?thesis
    proof (cases "an_bound A")
      case False
      then show ?thesis using assms Inr o ok bound by (simp add: start_def)
    next
      case True
      then show ?thesis using assms Inr o ok t marked started
        by (cases t) (auto simp: start_def running_take_def split: option.splits)
    qed
  qed
qed

text \<open>C34: a start that is refused for its configuration, its databases or its port leaves every file as it was, the
  marker of the server before it among them, so that the next start still learns of an unclean stop; whatever it is refused for, the two
  databases are as they were or as the migrations they lacked made them, and the accounts' repositories are as they were. A
  start that is not refused has a secret of at least 24 characters to sign sessions under, a rotation key on
  secp256k1 and an administrator's password; both databases have run every migration this server has and no
  other; it says whether there was a marker; its own is there, and is gone once it lets go of it.\<close>

theorem start_sound:
  fixes A :: "'c::linorder site_answers"
  assumes "start parse env A now pid M D = (r, D')" "fs_ok (sv_files (lf_server D))"
  shows "sv_actors (lf_server D') = sv_actors (lf_server D)
    \<and> (case r of
      Inl e \<Rightarrow>
        kept_or_migrated (accounts_migrations (an_accounts_sql A) :: ('c, accounts) migration list) (accounts_file D) (accounts_file D')
        \<and> kept_or_migrated (sequencer_migrations (an_sequencer_sql A) :: ('c, sequencer) migration list) (sequencer_file D) (sequencer_file D')
        \<and> (case e of Misconfigured _ \<Rightarrow> D' = D | NotMarked _ \<Rightarrow> True | _ \<Rightarrow> sv_files (lf_server D') = sv_files (lf_server D))
    | Inr (K, M', ls, stopped) \<Rightarrow>
        SECRET_LENGTH \<le> char_count (tn_key (mg_tokens M')) \<and> keypair_algorithm (mg_rotation_key M') = Secp256k1 \<and> cf_admin_password K \<noteq> []
        \<and> cf_port K < 2 ^ 16 \<and> (ls = None \<longleftrightarrow> \<not> cf_rate_limits K)
        \<and> migrate (accounts_migrations (an_accounts_sql A) :: ('c, accounts) migration list) (accounts_file D) = Inr (accounts_file D')
        \<and> migrate (sequencer_migrations (an_sequencer_sql A) :: ('c, sequencer) migration list) (sequencer_file D) = Inr (sequencer_file D')
        \<and> (\<exists>l. lf_accounts D' = Some l \<and> set l = {''001'', ''002'', ''003'', ''004'', ''005'', ''006'', ''007'', ''008''})
        \<and> (\<exists>l. lf_sequencer D' = Some l \<and> set l = {''001''})
        \<and> (stopped \<longleftrightarrow> fs_file (sv_files (lf_server D)) (running_path (mg_directory M')) \<noteq> None)
        \<and> fs_file (sv_files (lf_server D')) (running_path (mg_directory M')) \<noteq> None
        \<and> fs_file (running_drop (mg_directory M') (sv_files (lf_server D'))) (running_path (mg_directory M')) = None)"
  using assms(1)
proof (cases rule: start_cases)
  case (started K D1)
  let ?dir = "[cf_data_directory K]" and ?ms = "accounts_migrations (an_accounts_sql A) :: ('c, accounts) migration list"
    and ?ms' = "sequencer_migrations (an_sequencer_sql A) :: ('c, sequencer) migration list"
  note o = context_open_cases [OF started(2)]
  have d: "mg_directory (manager_of K M) = ?dir" "tn_key (mg_tokens (manager_of K M)) = cf_jwt_secret K" "mg_rotation_key (manager_of K M) = cf_plc_rotation_key K"
    by (simp_all add: manager_of_def)
  have files: "sv_files (lf_server D1) = sv_files (lf_server D)" using o by blast
  have m: "fs_file (running_drop ?dir (fs_write now (running_path ?dir) (decimal pid) (sv_files (lf_server D)))) (running_path ?dir) = None"
    by (rule running_dropped [OF fs_write_ok [OF assms(2)]])
  have mig: "migrate ?ms (accounts_file D) = Inr (accounts_file D1)" "migrate ?ms' (sequencer_file D) = Inr (sequencer_file D1)"
    using o by blast+
  have led: "\<exists>l. lf_accounts D1 = Some l \<and> set l = {''001'', ''002'', ''003'', ''004'', ''005'', ''006'', ''007'', ''008''}"
      "\<exists>l. lf_sequencer D1 = Some l \<and> set l = {''001''}"
    using migrated_ledger [OF mig(1) migrations_distinct(1)] migrated_ledger [OF mig(2) migrations_distinct(2)]
    by (simp_all add: accounts_file_def sequencer_file_def accounts_migrations_def sequencer_migrations_def)
  show ?thesis
    using from_env_sound [OF started(1)] m fs_write_present [of now "running_path ?dir" "decimal pid" "sv_files (lf_server D)"] mig led o
    by (simp add: started(4,5) d files limits_new_def)
qed (auto simp: kept_or_migrated_def dest: context_open_cases)


section \<open>Secrets a server writes for itself\<close>

lemma char_count_ascii: "list_all is_ascii_hexdigit s \<Longrightarrow> char_count s = length s"
proof -
  have "\<not> (128 \<le> (of_char c :: nat) \<and> (of_char c :: nat) < 192)" if "is_ascii_hexdigit c" for c
    using that by (auto simp: is_ascii_hexdigit_def is_ascii_digit_def less_eq_char_def)
  then show "list_all is_ascii_hexdigit s \<Longrightarrow> char_count s = length s"
    by (induction s) (auto simp: char_count_def)
qed

text \<open>The variables a server cannot start without, and nothing else set.\<close>

definition least_env :: "string \<Rightarrow> string \<Rightarrow> string \<Rightarrow> environment" where
  "least_env jwt admin rotation =
     [''PDS_JWT_SECRET'' \<mapsto> jwt, ''PDS_ADMIN_PASSWORD'' \<mapsto> admin, ''PDS_PLC_ROTATION_KEY_K256_PRIVATE_KEY_HEX'' \<mapsto> rotation]"

lemma least_env_config:
  assumes "crypto_ok C" "length drawn = 16" "admin \<noteq> []" "sk_to_bytes (k256 C) sk \<noteq> []"
  shows "\<exists>K. from_env C parse (least_env (secret_generate drawn) admin (rotation_key_written C sk)) = Inr K
    \<and> cf_jwt_secret K = secret_generate drawn \<and> cf_plc_rotation_key K = KSecp256k1 sk \<and> cf_admin_password K = admin
    \<and> cf_invite_required K \<and> \<not> cf_rate_limits K \<and> public_url K = ''http://localhost:2583''"
proof -
  let ?env = "least_env (secret_generate drawn) admin (rotation_key_written C sk)"
  have "to_hex drawn \<noteq> []" "char_count (to_hex drawn) = 32"
    using to_hex_digits [of drawn] assms(2) char_count_ascii [of "to_hex drawn"] by auto
  then have jwt: "env_secret ?env ''PDS_JWT_SECRET'' = Inr (secret_generate drawn)"
    by (simp add: env_secret_def env_string_def least_env_def secret_generate_def SECRET_LENGTH_def)
  have "to_hex (sk_to_bytes (k256 C) sk) \<noteq> []" using to_hex_digits [of "sk_to_bytes (k256 C) sk"] assms(4) by auto
  then have rot: "env_rotation_key C ?env ''PDS_PLC_ROTATION_KEY_K256_PRIVATE_KEY_HEX'' = Inr (KSecp256k1 sk)"
    using assms(1) by (simp add: env_rotation_key_def env_string_def least_env_def rotation_key_written_def unhex_hex crypto_ok_def curve_ok_def)
  have adm: "env_string ?env ''PDS_ADMIN_PASSWORD'' = Some admin" using assms(3) by (simp add: env_string_def least_env_def)
  have port: "decimal 2583 = ''2583''" by (simp add: decimal.simps char_of_def bit_0)
  have unset: "env_string ?env k = None" if "k \<notin> {''PDS_JWT_SECRET'', ''PDS_ADMIN_PASSWORD'', ''PDS_PLC_ROTATION_KEY_K256_PRIVATE_KEY_HEX''}" for k
    using that by (simp add: env_string_def least_env_def)
  show ?thesis
    by (simp add: from_env_def Let_def jwt rot adm unset env_labels_def env_list_def env_number_def env_boolean_def env_did_key_def unwrap_or_def
        public_url_def port)
qed

text \<open>what the commands \<open>secret\<close> and \<open>rotation-key\<close> write starts a server with that secret and that key, invited signups
  only, no budgets, and the address of a local server.\<close>

theorem written_secrets_start:
  assumes "crypto_ok C" "length drawn = 16" "admin \<noteq> []" "sk_to_bytes (k256 C) sk \<noteq> []"
  shows "\<exists>K. from_env C parse (least_env (secret_generate drawn) admin (rotation_key_written C sk)) = Inr K
    \<and> cf_jwt_secret K = secret_generate drawn \<and> cf_plc_rotation_key K = KSecp256k1 sk \<and> cf_admin_password K = admin
    \<and> cf_invite_required K \<and> \<not> cf_rate_limits K \<and> public_url K = ''http://localhost:2583''"
  by (rule least_env_config [OF assms])


section \<open>Examples\<close>

definition toy_env :: environment where
  "toy_env = least_env (secret_generate (replicate 16 CHR ''x'')) ''a'' (rotation_key_written toy_crypto True)"

theorem written_secrets_start_witness:
  "\<exists>K. from_env toy_crypto (\<lambda>_. None) toy_env = Inr K \<and> cf_plc_rotation_key K = KSecp256k1 True \<and> cf_invite_required K"
  unfolding toy_env_def
  using written_secrets_start [OF toy_crypto_ok, of "replicate 16 CHR ''x''" "''a''" True "\<lambda>_. None"] by (auto simp: toy_crypto_def toy_curve_def)

text \<open>A system that answers everything, over files no server has opened, and a server stopped with nothing in it.\<close>

definition toy_system :: "string site_answers" where
  "toy_system = \<lparr>an_accounts = None, an_accounts_sql = (\<lambda>n d. Inr d), an_sequencer = None, an_sequencer_sql = (\<lambda>n d. Inr d),
     an_bound = True, an_marker = None, an_clock_id = 5\<rparr>"

definition toy_left :: "nat left" where
  "toy_left = \<lparr>lf_server = toy_server, lf_accounts = Some [''001'', ''002''], lf_sequencer = None\<rparr>"

lemma toy_opens: "\<exists>D. context_open toy_system toy_left = (Inr (), D)"
  by (simp add: context_open_def db_open_def toy_system_def accounts_file_def sequencer_file_def toy_left_def put_accounts_def Let_def
      accounts_migrations_def sequencer_migrations_def migrate_def outstanding_def applied_names_def map_err_def)

lemma toy_starts:
  "\<exists>K M ls stopped D. start (\<lambda>_. None) toy_env toy_system now pid toy_site toy_left = (Inr (K, M, ls, stopped), D)"
proof -
  obtain K where "from_env toy_crypto (\<lambda>_. None) toy_env = Inr K"
    using least_env_config [OF toy_crypto_ok, of "replicate 16 CHR ''x''" "''a''" True "\<lambda>_. None"]
    by (auto simp: toy_env_def toy_crypto_def toy_curve_def)
  moreover have "mg_crypto toy_site = toy_crypto" by (simp add: toy_site_def)
  moreover obtain D where "context_open toy_system toy_left = (Inr (), D)" using toy_opens by blast
  moreover have "an_bound toy_system" "an_marker toy_system = None" by (simp_all add: toy_system_def)
  ultimately show ?thesis by (simp add: start_def running_take_def)
qed

text \<open>A server started on a directory without a marker, the accounts six migrations behind.\<close>

theorem start_sound_witness:
  "\<exists>K M ls D l. start (\<lambda>_. None) toy_env toy_system 0 7 toy_site toy_left = (Inr (K, M, ls, False), D)
     \<and> fs_file (sv_files (lf_server D)) (running_path (mg_directory M)) \<noteq> None \<and> SECRET_LENGTH \<le> char_count (tn_key (mg_tokens M))
     \<and> lf_accounts D = Some l \<and> ''008'' \<in> set l"
proof -
  obtain K M ls stopped D where s: "start (\<lambda>_. None) toy_env toy_system 0 7 toy_site toy_left = (Inr (K, M, ls, stopped), D)"
    using toy_starts [of 0 7] by blast
  have e: "fs_file (sv_files (lf_server toy_left)) p = None" "fs_ok (sv_files (lf_server toy_left))" for p
    by (simp_all add: toy_left_def toy_server_def empty_fs_def fs_file_def fs_ok_def)
  from start_sound [OF s e(2)] have "\<not> stopped" "fs_file (sv_files (lf_server D)) (running_path (mg_directory M)) \<noteq> None"
      "SECRET_LENGTH \<le> char_count (tn_key (mg_tokens M))"
      "\<exists>l. lf_accounts D = Some l \<and> set l = {''001'', ''002'', ''003'', ''004'', ''005'', ''006'', ''007'', ''008''}"
    by (auto simp: e(1))
  then show ?thesis using s by auto
qed

end
