(* ===== verification/Cache.thy ===== *)
theory Cache
  imports Store
begin

text \<open>
  The cache of DID documents, \<open>src/store/did_cache.rs\<close>: one table by DID. What is stale is the caller's to decide, so a
  document comes back with the time it was written; the time is an argument.
\<close>

section \<open>The table\<close>

record cached =
  cc_document :: string
  cc_updated_at :: int

type_synonym did_cache = "(string \<times> cached) list"

definition cache_put :: "int \<Rightarrow> did \<Rightarrow> string \<Rightarrow> did_cache \<Rightarrow> did_cache" where
  "cache_put now did document db = al_upd (did_str did) \<lparr>cc_document = document, cc_updated_at = now\<rparr> db"

definition cache_get :: "did_cache \<Rightarrow> did \<Rightarrow> cached option" where
  "cache_get db did = map_of db (did_str did)"

definition cache_forget :: "did \<Rightarrow> did_cache \<Rightarrow> did_cache" where
  "cache_forget did db = al_del (did_str did) db"

definition cache_clear :: "did_cache \<Rightarrow> did_cache" where
  "cache_clear db = []"


section \<open>What a cache promises\<close>

datatype cache_op = CachePut int did string | CacheForget did | CacheClear

text \<open>A store of values by key with an invariant, that may forget one or all.\<close>

locale forgetful =
  fixes ok :: "'s \<Rightarrow> bool" and get :: "'s \<Rightarrow> 'k \<Rightarrow> 'v option" and put :: "'k \<Rightarrow> 'v \<Rightarrow> 's \<Rightarrow> 's"
    and forget :: "'k \<Rightarrow> 's \<Rightarrow> 's" and clear :: "'s \<Rightarrow> 's"
  assumes put_ok: "ok s \<Longrightarrow> ok (put k v s)" and forget_ok: "ok s \<Longrightarrow> ok (forget k s)" and clear_ok: "ok (clear s)"
    and get_put: "ok s \<Longrightarrow> get (put k v s) = (get s)(k \<mapsto> v)"
    and get_forget: "ok s \<Longrightarrow> get (forget k s) = (get s)(k := None)"
    and get_clear: "get (clear s) = (\<lambda>_. None)"
begin

lemma put_forget: "ok s \<Longrightarrow> get (forget k (put k v s)) = get (forget k s)"
  by (simp add: get_put get_forget put_ok)

lemma put_put: "ok s \<Longrightarrow> get (put k w (put k v s)) = get (put k w s)"
  by (simp add: get_put put_ok)

end

interpretation dc: forgetful "\<lambda>db. ascending db" cache_get "\<lambda>did v. cache_put (cc_updated_at v) did (cc_document v)" cache_forget cache_clear
proof unfold_locales
  have inj: "did_str a = did_str b \<longleftrightarrow> a = b" for a b by (cases a; cases b) simp
  show "ascending s \<Longrightarrow> ascending (cache_put (cc_updated_at v) k (cc_document v) s)" for s k v by (simp add: cache_put_def ascending_al_upd)
  show "ascending s \<Longrightarrow> ascending (cache_forget k s)" for s k by (simp add: cache_forget_def ascending_al_del)
  show "ascending (cache_clear s)" for s by (simp add: cache_clear_def)
  show "cache_get (cache_put (cc_updated_at v) k (cc_document v) s) = (cache_get s)(k \<mapsto> v)" for s k v
    by (auto simp: cache_get_def cache_put_def inj fun_eq_iff)
  show "ascending s \<Longrightarrow> cache_get (cache_forget k s) = (cache_get s)(k := None)" for s k
    by (auto simp: cache_get_def cache_forget_def map_of_al_del inj fun_eq_iff)
  show "cache_get (cache_clear s) = (\<lambda>_. None)" for s by (simp add: cache_get_def cache_clear_def fun_eq_iff)
qed

fun cache_step :: "cache_op \<Rightarrow> did_cache \<Rightarrow> did_cache" where
  "cache_step (CachePut now did document) db = cache_put now did document db"
| "cache_step (CacheForget did) db = cache_forget did db"
| "cache_step CacheClear db = cache_clear db"

text \<open>What a history says of a DID: its last document, unless it was forgotten since.\<close>

fun cache_last :: "cache_op list \<Rightarrow> did \<Rightarrow> cached option" where
  "cache_last [] did = None"
| "cache_last (CachePut now e document # older) did =
     (if e = did then Some \<lparr>cc_document = document, cc_updated_at = now\<rparr> else cache_last older did)"
| "cache_last (CacheForget e # older) did = (if e = did then None else cache_last older did)"
| "cache_last (CacheClear # older) did = None"

lemma cache_ascending: "ascending db \<Longrightarrow> ascending (cache_step op db)"
proof (cases op)
  case (CachePut now did x)
  then show "ascending db \<Longrightarrow> ?thesis" using dc.put_ok [where s = db and k = did and v = "\<lparr>cc_document = x, cc_updated_at = now\<rparr>"] by simp
qed (simp_all add: dc.forget_ok dc.clear_ok)

text \<open>After any history the cache answers with the last document put for a DID and the time it was put, unless the DID was
  forgotten or the cache cleared since.\<close>

theorem cache_remembers: "cache_get (foldr cache_step newest_first []) did = cache_last newest_first did"
proof -
  have "ascending (foldr cache_step ops [])" for ops by (induction ops) (simp_all add: cache_ascending)
  then show ?thesis
  proof (induction newest_first)
    case (Cons o1 ops)
    have put: "cache_get (cache_put now e x (foldr cache_step ops [])) = (cache_get (foldr cache_step ops []))(e \<mapsto> \<lparr>cc_document = x, cc_updated_at = now\<rparr>)"
      for now e x using dc.get_put [OF Cons.prems, where k = e and v = "\<lparr>cc_document = x, cc_updated_at = now\<rparr>"] by simp
    show ?case using Cons.IH [OF Cons.prems]
      by (cases o1) (simp_all add: put dc.get_forget [OF Cons.prems] dc.get_clear)
  qed (simp add: cache_get_def)
qed

end
