(* ===== verification/Turns.thy ===== *)
theory Turns
  imports Syntax
begin

text \<open>
  Whose turn it is to write to which account: \<open>Writing\<close> of \<open>src/account.rs\<close>, and the writers that queue on the locks it
  hands out. An \<open>Arc\<close> is the number it was made under; who holds one is who waits for its lock or has it, so that the
  count of a \<open>Weak\<close> is how many do.
\<close>

section \<open>The table and its queue\<close>

record turns =
  tu_held :: "(string \<times> nat) list"
  tu_waiting :: "(nat \<times> string \<times> nat) list"
  tu_writing :: "(nat \<times> string \<times> nat) list"
  tu_fresh :: nat

definition turns_new :: turns where
  "turns_new = \<lparr>tu_held = [], tu_waiting = [], tu_writing = [], tu_fresh = 0\<rparr>"

definition strong_count :: "turns \<Rightarrow> nat \<Rightarrow> nat" where
  "strong_count Q t = length (filter (\<lambda>(w, d, u). u = t) (tu_waiting Q @ tu_writing Q))"

definition turn :: "did \<Rightarrow> turns \<Rightarrow> nat \<times> turns" where
  "turn did Q =
     (case (case map_of (tu_held Q) (did_str did) of None \<Rightarrow> None | Some t \<Rightarrow> if strong_count Q t > 0 then Some t else None) of
        Some t \<Rightarrow> (t, Q)
      | None \<Rightarrow>
          (let kept = filter (\<lambda>(d, t). strong_count Q t > 0) (tu_held Q) in
           (tu_fresh Q, Q\<lparr>tu_held := al_upd (did_str did) (tu_fresh Q) kept, tu_fresh := Suc (tu_fresh Q)\<rparr>)))"

text \<open>A writer asks for the account's turn and waits; it has the lock when nobody else has that one; it lets go when its
  commit is logged, or gives up waiting when its caller is gone.\<close>

inductive queued :: "turns \<Rightarrow> bool" where
  fresh: "queued turns_new"
| asks: "queued Q \<Longrightarrow> turn did Q = (t, Q') \<Longrightarrow> queued (Q'\<lparr>tu_waiting := tu_waiting Q' @ [(w, did_str did, t)]\<rparr>)"
| locks: "queued Q \<Longrightarrow> (w, d, t) \<in> set (tu_waiting Q) \<Longrightarrow> t \<notin> (snd \<circ> snd) ` set (tu_writing Q)
    \<Longrightarrow> queued (Q\<lparr>tu_waiting := remove1 (w, d, t) (tu_waiting Q), tu_writing := tu_writing Q @ [(w, d, t)]\<rparr>)"
| lets_go: "queued Q \<Longrightarrow> queued (Q\<lparr>tu_writing := remove1 x (tu_writing Q)\<rparr>)"
| gives_up: "queued Q \<Longrightarrow> queued (Q\<lparr>tu_waiting := remove1 x (tu_waiting Q)\<rparr>)"


section \<open>One writer at a time\<close>

definition holders :: "turns \<Rightarrow> (nat \<times> string \<times> nat) set" where
  "holders Q = set (tu_waiting Q) \<union> set (tu_writing Q)"

lemma strong_count_holders: "strong_count Q t > 0 \<longleftrightarrow> (\<exists>w d. (w, d, t) \<in> holders Q)"
  by (force simp: strong_count_def holders_def filter_empty_conv)

definition turns_ok :: "turns \<Rightarrow> bool" where
  "turns_ok Q \<longleftrightarrow> ascending (tu_held Q) \<and> (\<forall>(w, d, t) \<in> holders Q. map_of (tu_held Q) d = Some t)
     \<and> (\<forall>(d, t) \<in> set (tu_held Q). t < tu_fresh Q) \<and> distinct (map snd (tu_held Q))
     \<and> distinct (map (snd \<circ> snd) (tu_writing Q))"

lemma map_of_kept: "ascending ps \<Longrightarrow> map_of ps d = Some t \<Longrightarrow> P (d, t) \<Longrightarrow> map_of (filter P ps) d = Some t"
proof (induction ps)
  case (Cons p ps)
  then show ?case by (cases p) (auto split: if_splits dest: map_of_SomeD)
qed simp

lemma snd_al_upd: "snd ` set (al_upd k v ps) \<subseteq> insert v (snd ` set ps)"
  by (induction k v ps rule: al_upd.induct) auto

lemma distinct_al_upd: "distinct (map snd ps) \<Longrightarrow> v \<notin> snd ` set ps \<Longrightarrow> distinct (map snd (al_upd k v ps))"
proof (induction k v ps rule: al_upd.induct)
  case (2 k v a b ps)
  then show ?case using snd_al_upd [of k v ps] by auto
qed simp

lemma turn_ok:
  assumes "turns_ok Q" "turn did Q = (t, Q')"
  shows "turns_ok Q' \<and> map_of (tu_held Q') (did_str did) = Some t \<and> holders Q' = holders Q \<and> tu_writing Q' = tu_writing Q \<and> tu_waiting Q' = tu_waiting Q"
proof (cases "\<exists>u. map_of (tu_held Q) (did_str did) = Some u \<and> strong_count Q u > 0")
  case True
  then show ?thesis using assms by (auto simp: turn_def)
next
  case False
  let ?kept = "filter (\<lambda>(d, t). strong_count Q t > 0) (tu_held Q)"
  have Q': "t = tu_fresh Q" "Q' = Q\<lparr>tu_held := al_upd (did_str did) (tu_fresh Q) ?kept, tu_fresh := Suc (tu_fresh Q)\<rparr>"
    using assms(2) False by (auto simp: turn_def Let_def split: option.splits if_splits)
  have h: "map_of (tu_held Q) d = Some u" "strong_count Q u > 0" if "(w, d, u) \<in> holders Q" for w d u
    using assms(1) that strong_count_holders [of Q u] by (auto simp: turns_ok_def)
  have "map_of (al_upd (did_str did) (tu_fresh Q) ?kept) d = Some u" if "(w, d, u) \<in> holders Q" for w d u
  proof -
    have "d \<noteq> did_str did" using False h [OF that] by auto
    moreover have "map_of ?kept d = Some u" by (rule map_of_kept) (use assms(1) h [OF that] in \<open>simp_all add: turns_ok_def\<close>)
    ultimately show ?thesis by simp
  qed
  moreover have "tu_fresh Q \<notin> snd ` set ?kept" "\<forall>(d, t) \<in> set ?kept. t < tu_fresh Q" "distinct (map snd ?kept)" "ascending ?kept"
    using assms(1) by (auto simp: turns_ok_def distinct_map_filter ascending_filter)
  moreover have "\<forall>(d, u) \<in> set (al_upd (did_str did) (tu_fresh Q) ?kept). u < Suc (tu_fresh Q)"
    using snd_al_upd [of "did_str did" "tu_fresh Q" ?kept] calculation(3) by force
  ultimately show ?thesis using assms(1)
    by (auto simp: Q' turns_ok_def holders_def ascending_al_upd distinct_al_upd)
qed

lemma turns_fewer:
  "turns_ok Q \<Longrightarrow> set W \<union> set X \<subseteq> holders Q \<Longrightarrow> distinct (map (snd \<circ> snd) X) \<Longrightarrow> turns_ok (Q\<lparr>tu_waiting := W, tu_writing := X\<rparr>)"
  unfolding turns_ok_def holders_def by fastforce

lemma distinct_map_remove1: "distinct (map f xs) \<Longrightarrow> distinct (map f (remove1 x xs))"
  by (auto simp: distinct_map intro: inj_on_subset)

lemma held_inj: "turns_ok Q \<Longrightarrow> (d, t) \<in> set (tu_held Q) \<Longrightarrow> (e, t) \<in> set (tu_held Q) \<Longrightarrow> d = e"
  using inj_onD [of snd "set (tu_held Q)" "(d, t)" "(e, t)"] by (auto simp: turns_ok_def distinct_map)

lemma held_by: "turns_ok Q \<Longrightarrow> (w, d, t) \<in> holders Q \<Longrightarrow> map_of (tu_held Q) d = Some t"
  by (auto simp: turns_ok_def)

lemma queued_ok: "queued Q \<Longrightarrow> turns_ok Q"
proof (induction rule: queued.induct)
  case fresh
  then show ?case by (simp add: turns_ok_def turns_new_def holders_def)
next
  case (asks Q did t Q' w)
  then show ?case using turn_ok [of Q did t Q'] by (auto simp: turns_ok_def holders_def)
next
  case (locks Q w d t)
  have "set (remove1 (w, d, t) (tu_waiting Q)) \<union> set (tu_writing Q @ [(w, d, t)]) \<subseteq> holders Q"
    using locks.hyps(2) set_remove1_subset [of "(w, d, t)" "tu_waiting Q"] by (auto simp: holders_def)
  moreover have "distinct (map (snd \<circ> snd) (tu_writing Q @ [(w, d, t)]))" using locks by (simp add: turns_ok_def)
  ultimately show ?case by (rule turns_fewer [OF locks.IH])
next
  case (lets_go Q x)
  have "distinct (map (snd \<circ> snd) (remove1 x (tu_writing Q)))" using lets_go by (intro distinct_map_remove1) (simp add: turns_ok_def)
  then show ?case using turns_fewer [OF lets_go.IH, of "tu_waiting Q" "remove1 x (tu_writing Q)"] set_remove1_subset [of x "tu_writing Q"]
    by (auto simp: holders_def)
next
  case (gives_up Q x)
  have "distinct (map (snd \<circ> snd) (tu_writing Q))" using gives_up by (simp add: turns_ok_def)
  then show ?case using turns_fewer [OF gives_up.IH, of "remove1 x (tu_waiting Q)" "tu_writing Q"] set_remove1_subset [of x "tu_waiting Q"]
    by (auto simp: holders_def)
qed

lemma turns_ok_writers:
  assumes ok: "turns_ok Q"
  shows "distinct (map (fst \<circ> snd) (tu_writing Q))"
proof -
  have d: "distinct (tu_writing Q)" "inj_on (snd \<circ> snd) (set (tu_writing Q))" using ok by (simp_all add: turns_ok_def distinct_map)
  have "inj_on (fst \<circ> snd) (set (tu_writing Q))"
  proof (rule inj_onI)
    fix x y assume xy: "x \<in> set (tu_writing Q)" "y \<in> set (tu_writing Q)" "(fst \<circ> snd) x = (fst \<circ> snd) y"
    obtain w d t w' d' t' where p: "x = (w, d, t)" "y = (w', d', t')" by (metis prod_cases3)
    with xy have "(w, d, t) \<in> holders Q" "(w', d, t') \<in> holders Q" by (auto simp: holders_def)
    from held_by [OF ok this(1)] held_by [OF ok this(2)] have "(snd \<circ> snd) x = (snd \<circ> snd) y" by (simp add: p)
    then show "x = y" by (rule inj_onD [OF d(2)]) (use xy in simp_all)
  qed
  with d(1) show ?thesis by (simp add: distinct_map)
qed

text \<open>C22: however writers come, wait, give up and finish, no account ever has two writing to it; writers to different
  accounts never wait on one another's lock; and whenever a lock is made, the table names only accounts somebody is
  writing to or waiting to.\<close>

theorem writers_take_turns:
  assumes "queued Q"
  shows "distinct (map (fst \<circ> snd) (tu_writing Q))
    \<and> (\<forall>w d t w' d' t'. (w, d, t) \<in> holders Q \<and> (w', d', t') \<in> holders Q \<longrightarrow> (t = t' \<longleftrightarrow> d = d'))
    \<and> (\<forall>did t Q'. turn did Q = (t, Q') \<and> tu_fresh Q < tu_fresh Q' \<longrightarrow>
         fst ` set (tu_held Q') = insert (did_str did) ((fst \<circ> snd) ` holders Q))"
proof (intro conjI allI impI)
  have ok: "turns_ok Q" by (rule queued_ok [OF assms])
  then show "distinct (map (fst \<circ> snd) (tu_writing Q))" by (rule turns_ok_writers)
  fix w d t w' d' t'
  assume h: "(w, d, t) \<in> holders Q \<and> (w', d', t') \<in> holders Q"
  then have m: "map_of (tu_held Q) d = Some t" "map_of (tu_held Q) d' = Some t'" using ok by (auto simp: turns_ok_def)
  then show "t = t' \<longleftrightarrow> d = d'" using held_inj [OF ok map_of_SomeD map_of_SomeD, of d t d'] by auto
next
  have ok: "turns_ok Q" by (rule queued_ok [OF assms])
  fix did t Q'
  assume n: "turn did Q = (t, Q') \<and> tu_fresh Q < tu_fresh Q'"
  let ?kept = "filter (\<lambda>(d, t). strong_count Q t > 0) (tu_held Q)"
  have Q': "tu_held Q' = al_upd (did_str did) (tu_fresh Q) ?kept"
    using n by (auto simp: turn_def Let_def split: option.splits if_splits)
  have "fst ` set ?kept = (fst \<circ> snd) ` holders Q"
  proof
    show "fst ` set ?kept \<subseteq> (fst \<circ> snd) ` holders Q"
    proof
      fix d assume "d \<in> fst ` set ?kept"
      then obtain u where u: "(d, u) \<in> set (tu_held Q)" "strong_count Q u > 0" by auto
      then obtain w e where e: "(w, e, u) \<in> holders Q" using strong_count_holders by blast
      then have "(e, u) \<in> set (tu_held Q)" using ok by (auto simp: turns_ok_def dest: map_of_SomeD)
      then have "e = d" using held_inj [OF ok _ u(1)] by blast
      then show "d \<in> (fst \<circ> snd) ` holders Q" using e by force
    qed
    show "(fst \<circ> snd) ` holders Q \<subseteq> fst ` set ?kept"
    proof
      fix d assume "d \<in> (fst \<circ> snd) ` holders Q"
      then obtain w u where u: "(w, d, u) \<in> holders Q" by force
      then have "(d, u) \<in> set (tu_held Q)" "strong_count Q u > 0" using ok strong_count_holders by (auto simp: turns_ok_def dest: map_of_SomeD)
      then show "d \<in> fst ` set ?kept" by force
    qed
  qed
  then show "fst ` set (tu_held Q') = insert (did_str did) ((fst \<circ> snd) ` holders Q)" by (simp add: Q' keys_al_upd)
qed


section \<open>Example\<close>

text \<open>Two writers to one account, the first of which has the lock, and one to another account.\<close>

definition toy_queue :: turns where
  "toy_queue = \<lparr>tu_held = [(''did:plc:a'', 0), (''did:plc:b'', 1)], tu_waiting = [(2, ''did:plc:a'', 0), (3, ''did:plc:b'', 1)],
     tu_writing = [(1, ''did:plc:a'', 0)], tu_fresh = 2\<rparr>"

lemma toy_queued: "queued toy_queue"
proof -
  have t1: "turn (Did ''did:plc:a'') turns_new = (0, turns_new\<lparr>tu_held := [(''did:plc:a'', 0)], tu_fresh := 1\<rparr>)"
    by (simp add: turn_def turns_new_def Let_def)
  note q1 = asks [OF fresh t1, of 1]
  have q2: "queued \<lparr>tu_held = [(''did:plc:a'', 0)], tu_waiting = [], tu_writing = [(1, ''did:plc:a'', 0)], tu_fresh = 1\<rparr>"
    using locks [OF q1, of 1 "''did:plc:a''" 0] by (simp add: turns_new_def)
  have t3: "turn (Did ''did:plc:a'') \<lparr>tu_held = [(''did:plc:a'', 0)], tu_waiting = [], tu_writing = [(1, ''did:plc:a'', 0)], tu_fresh = 1\<rparr>
      = (0, \<lparr>tu_held = [(''did:plc:a'', 0)], tu_waiting = [], tu_writing = [(1, ''did:plc:a'', 0)], tu_fresh = 1\<rparr>)"
    by (simp add: turn_def strong_count_def)
  note q3 = asks [OF q2 t3, of 2]
  have t4: "turn (Did ''did:plc:b'') \<lparr>tu_held = [(''did:plc:a'', 0)], tu_waiting = [(2, ''did:plc:a'', 0)], tu_writing = [(1, ''did:plc:a'', 0)], tu_fresh = 1\<rparr>
      = (1, \<lparr>tu_held = [(''did:plc:a'', 0), (''did:plc:b'', 1)], tu_waiting = [(2, ''did:plc:a'', 0)], tu_writing = [(1, ''did:plc:a'', 0)], tu_fresh = 2\<rparr>)"
    by (simp add: turn_def strong_count_def Let_def)
  from q3 have "queued \<lparr>tu_held = [(''did:plc:a'', 0)], tu_waiting = [(2, ''did:plc:a'', 0)], tu_writing = [(1, ''did:plc:a'', 0)], tu_fresh = 1\<rparr>" by simp
  from asks [OF this t4, of 3] show ?thesis by (simp add: toy_queue_def)
qed

theorem writers_take_turns_witness:
  "distinct (map (fst \<circ> snd) (tu_writing toy_queue)) \<and> holders toy_queue = {(1, ''did:plc:a'', 0), (2, ''did:plc:a'', 0), (3, ''did:plc:b'', 1)}"
proof -
  from writers_take_turns [OF toy_queued] have "distinct (map (fst \<circ> snd) (tu_writing toy_queue))" by (elim conjE)
  then show ?thesis by (auto simp: holders_def toy_queue_def)
qed

end
