(* ===== verification/Spec2Isabelle.thy ===== *)
theory Spec2Isabelle
  imports Repo_Props Car Writes_Props Signup_Props Reads_Props Server_Put Methods_Props Serve_Props Start_Props Cache Turns
begin

text \<open>
  A verification development for a personal data server of the AT protocol, written in Rust. Paths are
  under \<open>src/\<close> of the repository. Rust functions are HOL functions; \<open>Result\<close> is a sum with the error on
  the left, threaded by \<open>bindE\<close>; a \<open>&mut\<close> argument is passed and returned; a string is its bytes. What is
  not in the repository (SHA-256, CBOR, JSON, base64, elliptic curves, scrypt, the texts of CIDs and
  times) is a field of a record of functions that the definitions take, and what the code relies on is
  a named hypothesis (\<open>codec_ok\<close>, \<open>no_collision\<close>, \<open>repo_lib_ok\<close>, \<open>crypto_ok\<close>, \<open>cid_text_ok\<close>, \<open>car_ok\<close>,
  \<open>auth_ok\<close>), which the witnesses instantiate. The clock, random draws and the steps other writers take
  are arguments.

  \<^bold>\<open>The parts of the program.\<close> A repository is a Merkle search tree of records under a signed commit,
  kept as blocks named by their hashes (\<open>repo/\<close>). Each account has a database with its blocks, an index
  of its records, its links and its blobs (\<open>store/actor.rs\<close>), and a directory of blob files
  (\<open>store/blobs.rs\<close>); one more database holds the accounts, invites, sessions and app passwords
  (\<open>store/accounts.rs\<close>) and one the event log (\<open>store/sequencer.rs\<close>). The service (\<open>account.rs\<close>) plans writes,
  commits them and signs accounts up and in; requests are authenticated (\<open>xrpc/auth.rs\<close>) and limited
  (\<open>xrpc/limit.rs\<close>) before a handler asks it for anything.

  \<^bold>\<open>Theories.\<close>
  \<^item> \<open>Prelude\<close>: results, ascending association lists, byte strings.
  \<^item> \<open>Syntax\<close>, \<open>Tid\<close>: the identifiers of \<open>syntax/\<close>, each a validator and a parser; TIDs at 64 bits and the
    clock that mints them. Parsers accept exactly the grammar; minted TIDs increase whatever the system
    clock does, until the last timestamp the field holds, which is repeated.
  \<^item> \<open>Crypto\<close>: \<open>crypto.rs\<close>; base32 with its wrapping buffer is the RFC's, signatures are accepted in the low
    half only, keys read back.
  \<^item> \<open>Block\<close>, \<open>Mst\<close>, \<open>Mst_Tree\<close>, \<open>Mst_Read\<close>, \<open>Mst_Write\<close>, \<open>Mst_Delete\<close>, \<open>Mst_Rep\<close>, \<open>Mst_Hash\<close>, \<open>Mst_Ops\<close>,
    \<open>Mst_Props\<close>, \<open>Mst_Walk\<close>, \<open>Mst_Dropped\<close>: \<open>repo/block.rs\<close> and \<open>repo/mst.rs\<close>. \<open>Mst\<close> is the code, nodes loaded
    lazily from a store through the locale \<open>block_store\<close>; \<open>Mst_Tree\<close> is the specification, the canonical tree
    of a sorted map. Every operation refines the map, on every well-formed tree (\<open>held_tree\<close>), and keeps the tree canonical
    (\<open>holds\<close>) but where a deletion empties it; the root of a canonical tree depends on the records only; saved
    trees load again; the walk of two trees names what is gone. The depth guard of the reader,
    \<open>MAX_DEPTH\<close>, is the fuel of the recursions, which end in the error the code raises there; keys have at
    most 128 layers, so the guard is never met on a well-formed tree. The loop of \<open>dropped\<close> is a partial
    function, proved to return.
  \<^item> \<open>Json\<close>, \<open>Repo\<close>, \<open>Repo_Props\<close>: \<open>repo/json.rs\<close>, \<open>repo/commit.rs\<close> and \<open>repo.rs\<close>. Applying any list of
    writes refines updates of a sorted map, stores every node and record the new revision needs, drops no node of it
    and everything only the old one had, and signs a revision after the last.
  \<^item> \<open>Car\<close>: \<open>repo/car.rs\<close>; files read back, and no file is accepted whose blocks do not hash to their names.
  \<^item> \<open>Store\<close>, \<open>Blobs\<close>: \<open>store.rs\<close>, \<open>store/db.rs\<close>, \<open>store/blobs.rs\<close> over a file system of names and inodes.
  \<^item> \<open>Actor\<close>, \<open>Actor_Blobs\<close>, \<open>Actor_Props\<close>, \<open>Actor_Repo\<close>: \<open>store/actor.rs\<close>. A commit lands whole or not at
    all, the files it linked included; in every state uploads, commits and sweeps reach, the blobs
    records name are on the disk; a database that holds a repository holds its blocks and no others,
    under an index that names the records of its tree.
  \<^item> \<open>Sequencer\<close>, \<open>Event\<close>: \<open>store/sequencer.rs\<close> and \<open>event.rs\<close>. The locale \<open>pages\<close> is reading in pages by a
    cursor, interpreted on the log.
  \<^item> \<open>Reserved\<close>, \<open>Handles\<close>, \<open>Credentials\<close>, \<open>Refs\<close>, \<open>Service\<close>: \<open>account/\<close> and the errors of \<open>account.rs\<close>.
  \<^item> \<open>Writes\<close>, \<open>Writes_Props\<close>: \<open>plan\<close> and \<open>commit_writes\<close> of \<open>account.rs\<close>, with others writing between the reading
    and the commit. Whatever is asked for, no update is lost, a superseding write deletes exactly what it
    supersedes, and every set of writes is answered within \<open>ATTEMPTS\<close>.
  \<^item> \<open>Accounts\<close>, \<open>Accounts_Props\<close>: \<open>store/accounts.rs\<close>, and what every state of it keeps: handles and addresses
    are one account's, an account has all its rows, no invite is overspent.
  \<^item> \<open>Sessions\<close>, \<open>Sessions_Props\<close>: signing in, sessions, app passwords and invites of \<open>account.rs\<close>. The loop that
    exchanges a refresh token is a partial function, with other servers acting between its statements; it
    returns within three turns. A retried exchange hands out the same successor; who signed up can sign in;
    a revoked app password opens nothing.
  \<^item> \<open>Plc\<close>, \<open>Plc_Props\<close>: \<open>plc.rs\<close>. The network and the directory are a state and a function on it; \<open>directory_ok\<close>
    is what a directory promises, among it that a copy of an operation whose answer was lost may land later.
    What the client says of the directory is then so.
  \<^item> \<open>Signup\<close>, \<open>Signup_Props\<close>: \<open>create\<close> of \<open>account.rs\<close> with its guard, and \<open>store/keys.rs\<close>. A signup leaves an account
    that is whole and registered, or nothing, or, when the directory would not say, an account that stands.
  \<^item> \<open>Reads\<close>, \<open>Reads_Props\<close>: the reads of \<open>account.rs\<close>, downloads, proofs, uploads and sweeps. The loop of a download
    is a partial function; it returns, and its pieces read back as the repository. Reading blocks in pages is
    another interpretation of \<open>pages\<close>.
  \<^item> \<open>Config\<close>: \<open>config.rs\<close> and the commands of \<open>main.rs\<close> that write secrets.
  \<^item> \<open>Server\<close>, \<open>Server_Props\<close>, \<open>Server_Put\<close>: \<open>server/repo.rs\<close>, \<open>server/parse.rs\<close> and what each error is told as. Only the
    account a session is of is written to; a record that was put is read back.
  \<^item> \<open>Methods\<close>, \<open>Methods_Props\<close>: the other methods under \<open>server/\<close>. Following the cursors of \<open>listRepos\<close> lists every
    repository once, by a third interpretation of \<open>pages\<close>.
  \<^item> \<open>Serve\<close>, \<open>Serve_Props\<close>: a request from the socket to its answer: the routes and layers of \<open>server.rs\<close>,
    \<open>xrpc/input.rs\<close>, and what each method extracts before it runs; what \<open>axum\<close> and \<open>serde\<close> make of a request is an
    argument. Over any run, an account no request had a token of is left as it was; a \<open>GET\<close> changes nothing.
  \<^item> \<open>Start\<close>, \<open>Start_Props\<close>: \<open>serve\<close> of \<open>main.rs\<close> up to its marker, with \<open>Context::open\<close> and the opening of a database. What the
    system answers on the way is an argument. What a server that started has, and what a refused start leaves alone.
  \<^item> \<open>Turns\<close>: \<open>Writing\<close> of \<open>account.rs\<close> and the queue on its locks, a step relation. One writer to an account at a time.
  \<^item> \<open>Cache\<close>: \<open>store/did_cache.rs\<close>, an interpretation of the locale \<open>forgetful\<close>.
  \<^item> \<open>Limit\<close>, \<open>Xrpc\<close>, \<open>Auth\<close>: \<open>xrpc/limit.rs\<close>, \<open>xrpc.rs\<close>, \<open>xrpc/route.rs\<close> and \<open>xrpc/auth.rs\<close>.

  \<^bold>\<open>What modelling showed.\<close> A tree emptied by a deletion keeps a stale layer, so a record added next in the
  same batch ends up under a root that is not the canonical one exactly when its layer is the lower (\<open>stale_layer\<close>). The
  theorems on batches of writes hold for every batch; that the tree is canonical after one is said where no
  write follows one that empties it (\<open>unbroken\<close>).
  \<open>dropped\<close> may list a record another key still names (\<open>dropped_lists_live_record\<close>), which the index of the
  account's database then spares. After a lost answer the PLC client may say that the directory could not be
  reached although the operation lands later (\<open>unreachable_yet_registered\<close>), and the signup is then
  discarded with nothing retired. A clock whose system clock is past the timestamp field repeats its last TID
  (\<open>mint_run_increasing\<close>), which its comment rules out. A map with a lone \<open>$link\<close> or \<open>$bytes\<close> for its key, which a
  stored record may hold though none read from JSON does, is shown as JSON that reads back as something else
  (\<open>json_roundtrip\<close>).

  \<^bold>\<open>Not modelled.\<close> The tasks of \<open>tokio\<close> (writers queue in \<open>Turns\<close>, and other writers act between the
  statements of \<open>Writes\<close> and \<open>Sessions\<close>), the turns of downloads and of password hashing, how \<open>axum\<close> matches a
  path and \<open>serde\<close> reads an input, CORS, the HTTP client, SQLite
  itself (a transaction is a function that returns the new database or leaves the old one; a busy
  database is not one of the errors), the command line, logging and the socket.
\<close>

end
